(* ===== verification/NF10_Prelude.thy ===== *)
theory NF10_Prelude
  imports Main "HOL-Library.Word" "HOL-Library.Monad_Syntax"
begin

unbundle bit_operations_syntax

text \<open>
  Shared layer of the development: the machine types of the C sources, the
  little-endian byte order of the x86-64 host, byte-addressed memory with block
  reads and writes, and the generic arithmetic on ring indices.  The collections
  \<open>mem_laws\<close>, \<open>endian_laws\<close> and \<open>ring_arith\<close> gather the
  facts that the component proofs hand to the simplifier.
\<close>

section \<open>Machine types\<close>

type_synonym u8 = "8 word"
type_synonym u16 = "16 word"
type_synonym u32 = "32 word"
type_synonym u64 = "64 word"
type_synonym i32 = "32 word"
type_synonym bytes = "8 word list"
type_synonym addr = nat
type_synonym mem = "nat \<Rightarrow> 8 word"

text \<open>
  An \<^verbatim>\<open>int\<close> of the sources is kept as a 32-bit word and read with \<open>sint\<close> where its
  sign matters.
\<close>

abbreviation is_neg :: "32 word \<Rightarrow> bool" where
  "is_neg x \<equiv> sint x < 0"

named_theorems mem_laws "reads of memory after writes"
named_theorems endian_laws "encoding and decoding of little-endian integers"
named_theorems ring_arith "arithmetic of indices modulo the ring size"

lemma unat_u32_less: "unat (w :: 32 word) < 4294967296"
  using unsigned_less [of w, where ?'a = nat] by simp

lemma unat_u16_less: "unat (w :: 16 word) < 65536"
  using unsigned_less [of w, where ?'a = nat] by simp

lemma unat_u32_u64 [simp]: "unat (ucast (w :: u32) :: u64) = unat w"
  using unat_u32_less [of w] by (simp add: unsigned_ucast_eq take_bit_nat_eq_self)

lemma unat_u64_u32: "unat (ucast (w :: u64) :: u32) = unat w mod 4294967296"
  by (simp add: unsigned_ucast_eq take_bit_eq_mod)

lemma unat_u16_u32 [simp]: "unat (ucast (w :: u16) :: u32) = unat w"
  using unat_u16_less [of w] by (simp add: unsigned_ucast_eq take_bit_nat_eq_self)

lemma unat_u32_u16: "unat (ucast (w :: u32) :: u16) = unat w mod 65536"
  by (simp add: unsigned_ucast_eq take_bit_eq_mod)

lemma ucast_u16_of_nat: "n < 65536 \<Longrightarrow> (ucast (word_of_nat n :: u16) :: u32) = word_of_nat n"
  by (intro word_unat_eq_iff [THEN iffD2]) (simp add: unat_of_nat)

lemma ucast_u16_u32_u16 [simp]: "ucast (ucast (w :: u16) :: u32) = w"
  using unat_u16_less [of w] by (intro word_unat_eq_iff [THEN iffD2]) (simp add: unat_u32_u16)

lemma sint_nonneg_u32:
  assumes "unat (w :: i32) < 2147483648"
  shows "sint w = int (unat w)"
proof -
  have "int (unat w) < 2147483648" using assms by linarith
  moreover have "- 2147483648 \<le> uint w" using uint_ge_0 [of w] by linarith
  ultimately show ?thesis by (simp add: sint_uint signed_take_bit_int_eq_self)
qed

lemma unat_of_sint:
  assumes "0 \<le> sint (w :: i32)"
  shows "unat w = nat (sint w)"
proof -
  have "sint w < 4294967296" using sint_less [of w] by simp
  then have "take_bit 32 (sint w) = sint w" using assms by (simp add: take_bit_int_eq_self)
  moreover have "uint w = take_bit 32 (sint w)"
    using uint_word_of_int_eq [of "sint w", where ?'a = 32] by simp
  ultimately show ?thesis by (simp add: unat_eq_nat_uint)
qed

lemma unat_scast_u64:
  assumes "unat (w :: i32) < 2147483648"
  shows "unat (scast w :: u64) = unat w"
proof -
  have "(scast w :: u64) = word_of_nat (unat w)"
    using sint_nonneg_u32 [OF assms] by (metis of_int_of_nat_eq of_int_sint)
  then show ?thesis using assms by (simp only: unat_of_nat) (simp add: take_bit_nat_eq_self)
qed

lemma sint_minus_i32:
  fixes a b :: i32
  assumes "- 2147483648 \<le> sint a - sint b" and "sint a - sint b < 2147483648"
  shows "sint (a - b) = sint a - sint b"
  using assms by (simp add: sint_word_ariths signed_take_bit_int_eq_self)

lemma list_all_tl: "list_all P xs \<Longrightarrow> list_all P (tl xs)"
  by (cases xs) auto

section \<open>Little-endian integers\<close>

primrec le_bytes :: "nat \<Rightarrow> nat \<Rightarrow> bytes" where
  "le_bytes 0 x = []"
| "le_bytes (Suc n) x = word_of_nat (x mod 256) # le_bytes n (x div 256)"

primrec le_nat :: "bytes \<Rightarrow> nat" where
  "le_nat [] = 0"
| "le_nat (b # bs) = unat b + 256 * le_nat bs"

definition le16 :: "u16 \<Rightarrow> bytes" where
  "le16 w = le_bytes 2 (unat w)"

definition le32 :: "u32 \<Rightarrow> bytes" where
  "le32 w = le_bytes 4 (unat w)"

definition le64 :: "u64 \<Rightarrow> bytes" where
  "le64 w = le_bytes 8 (unat w)"

definition of_le16 :: "bytes \<Rightarrow> u16" where
  "of_le16 bs = word_of_nat (le_nat (take 2 bs))"

definition of_le32 :: "bytes \<Rightarrow> u32" where
  "of_le32 bs = word_of_nat (le_nat (take 4 bs))"

definition of_le64 :: "bytes \<Rightarrow> u64" where
  "of_le64 bs = word_of_nat (le_nat (take 8 bs))"

lemma length_le_bytes [simp]: "length (le_bytes n x) = n"
  by (induction n arbitrary: x) auto

lemma length_le16 [simp]: "length (le16 w) = 2"
  by (simp add: le16_def)

lemma length_le32 [simp]: "length (le32 w) = 4"
  by (simp add: le32_def)

lemma length_le64 [simp]: "length (le64 w) = 8"
  by (simp add: le64_def)

lemma le32_not_Nil [simp]: "le32 w \<noteq> []"
  by (metis length_le32 length_0_conv zero_neq_numeral)

lemma le_nat_le_bytes [endian_laws]: "le_nat (le_bytes n x) = x mod 256 ^ n"
proof (induction n arbitrary: x)
  case 0
  then show ?case by simp
next
  case (Suc n)
  have "unat (word_of_nat (x mod 256) :: u8) = x mod 256"
    by (simp add: unat_of_nat)
  with Suc show ?case
    by (simp add: mod_mult2_eq)
qed

lemma of_le32_le32 [simp, endian_laws]: "of_le32 (le32 w @ bs) = w"
proof -
  have "unat w < 256 ^ 4"
    using unsigned_less [of w] by simp
  then show ?thesis
    by (simp add: of_le32_def le32_def le_nat_le_bytes)
qed

lemma of_le16_le16 [simp, endian_laws]: "of_le16 (le16 w @ bs) = w"
proof -
  have "unat w < 256 ^ 2"
    using unsigned_less [of w] by simp
  then show ?thesis
    by (simp add: of_le16_def le16_def le_nat_le_bytes)
qed

lemma of_le64_le64 [simp, endian_laws]: "of_le64 (le64 w @ bs) = w"
proof -
  have "unat w < 256 ^ 8"
    using unsigned_less [of w] by simp
  then show ?thesis
    by (simp add: of_le64_def le64_def le_nat_le_bytes)
qed

lemmas of_le32_le32' [simp] = of_le32_le32 [where bs = "[]", simplified]
lemmas of_le16_le16' [simp] = of_le16_le16 [where bs = "[]", simplified]
lemmas of_le64_le64' [simp] = of_le64_le64 [where bs = "[]", simplified]

lemma of_le32_take [simp]: "4 \<le> n \<Longrightarrow> of_le32 (take n bs) = of_le32 bs"
  by (simp add: of_le32_def min_def)

lemma of_le16_take [simp]: "2 \<le> n \<Longrightarrow> of_le16 (take n bs) = of_le16 bs"
  by (simp add: of_le16_def min_def)

section \<open>Byte-addressed memory\<close>

definition rd_bytes :: "mem \<Rightarrow> addr \<Rightarrow> nat \<Rightarrow> bytes" where
  "rd_bytes m a n = map m [a..<a + n]"

definition wr_bytes :: "mem \<Rightarrow> addr \<Rightarrow> bytes \<Rightarrow> mem" where
  "wr_bytes m a bs = (\<lambda>x. if a \<le> x \<and> x < a + length bs then bs ! (x - a) else m x)"

definition rd32 :: "mem \<Rightarrow> addr \<Rightarrow> u32" where
  "rd32 m a = of_le32 (rd_bytes m a 4)"

definition wr32 :: "mem \<Rightarrow> addr \<Rightarrow> u32 \<Rightarrow> mem" where
  "wr32 m a v = wr_bytes m a (le32 v)"

definition memset_bytes :: "mem \<Rightarrow> addr \<Rightarrow> u8 \<Rightarrow> nat \<Rightarrow> mem" where
  "memset_bytes m a b n = wr_bytes m a (replicate n b)"

text \<open>Two byte ranges do not overlap.\<close>

definition apart :: "addr \<Rightarrow> nat \<Rightarrow> addr \<Rightarrow> nat \<Rightarrow> bool" where
  "apart a n b k \<longleftrightarrow> a + n \<le> b \<or> b + k \<le> a"

lemma length_rd_bytes [simp]: "length (rd_bytes m a n) = n"
  by (simp add: rd_bytes_def)

lemma rd_bytes_nth [simp]: "i < n \<Longrightarrow> rd_bytes m a n ! i = m (a + i)"
  by (simp add: rd_bytes_def)

lemma rd_wr_same [mem_laws]: "rd_bytes (wr_bytes m a bs) a (length bs) = bs"
  by (rule nth_equalityI) (simp_all add: wr_bytes_def)

lemma rd_wr_prefix [mem_laws]:
  "n \<le> length bs \<Longrightarrow> rd_bytes (wr_bytes m a bs) a n = take n bs"
  by (rule nth_equalityI) (simp_all add: wr_bytes_def)

lemma rd_wr_apart [mem_laws]:
  "apart a (length bs) b n \<Longrightarrow> rd_bytes (wr_bytes m a bs) b n = rd_bytes m b n"
  by (rule nth_equalityI) (auto simp: wr_bytes_def apart_def)

lemma wr_bytes_other [mem_laws]:
  "x < a \<or> a + length bs \<le> x \<Longrightarrow> wr_bytes m a bs x = m x"
  by (auto simp: wr_bytes_def)

lemma rd32_wr32_same [simp, mem_laws]: "rd32 (wr32 m a v) a = v"
  using rd_wr_same [of m a "le32 v"] by (simp add: rd32_def wr32_def)

lemma rd32_wr32_apart [mem_laws]: "apart a 4 b 4 \<Longrightarrow> rd32 (wr32 m a v) b = rd32 m b"
  by (simp add: rd32_def wr32_def rd_wr_apart)

lemma rd32_wr_bytes_apart [mem_laws]:
  "apart a (length bs) b 4 \<Longrightarrow> rd32 (wr_bytes m a bs) b = rd32 m b"
  by (simp add: rd32_def rd_wr_apart)

lemma rd_bytes_wr32_apart [mem_laws]:
  "apart a 4 b n \<Longrightarrow> rd_bytes (wr32 m a v) b n = rd_bytes m b n"
  by (simp add: wr32_def rd_wr_apart)

lemma wr32_other [mem_laws]: "x < a \<or> a + 4 \<le> x \<Longrightarrow> wr32 m a v x = m x"
  by (simp add: wr32_def wr_bytes_other)

lemma rd32_memset:
  assumes "a \<le> p" and "p + 4 \<le> a + n"
  shows "rd32 (memset_bytes m a b n) p = of_le32 (replicate 4 b)"
proof -
  have "rd_bytes (memset_bytes m a b n) p 4 = replicate 4 b"
    using assms
    by (intro nth_equalityI) (auto simp: memset_bytes_def wr_bytes_def nth_replicate)
  then show ?thesis by (simp add: rd32_def)
qed

section \<open>Buffers of known length\<close>

text \<open>\<^verbatim>\<open>memcpy(buf + off, bs, length bs)\<close> into a buffer of known length.\<close>

definition blit :: "nat \<Rightarrow> bytes \<Rightarrow> bytes \<Rightarrow> bytes option" where
  "blit off bs buf = (if off + length bs \<le> length buf
     then Some (take off buf @ bs @ drop (off + length bs) buf) else None)"

definition take_exact :: "nat \<Rightarrow> bytes \<Rightarrow> bytes option" where
  "take_exact n bs = (if n \<le> length bs then Some (take n bs) else None)"

lemma blit_Some: "off + length bs \<le> length buf \<Longrightarrow>
    blit off bs buf = Some (take off buf @ bs @ drop (off + length bs) buf)"
  by (simp add: blit_def)

lemma length_blit: "blit off bs buf = Some buf' \<Longrightarrow> length buf' = length buf"
  by (auto simp: blit_def split: if_splits)

text \<open>Loads and stores at an offset of a buffer; outside the buffer they are a fault.\<close>

definition ld8 :: "bytes \<Rightarrow> nat \<Rightarrow> u8 option" where
  "ld8 b off = (if off < length b then Some (b ! off) else None)"

definition ld16 :: "bytes \<Rightarrow> nat \<Rightarrow> u16 option" where
  "ld16 b off = (if off + 2 \<le> length b then Some (of_le16 (drop off b)) else None)"

definition ld32 :: "bytes \<Rightarrow> nat \<Rightarrow> u32 option" where
  "ld32 b off = (if off + 4 \<le> length b then Some (of_le32 (drop off b)) else None)"

definition ld_bytes :: "bytes \<Rightarrow> nat \<Rightarrow> nat \<Rightarrow> bytes option" where
  "ld_bytes b off n = take_exact n (drop off b)"

definition st16 :: "nat \<Rightarrow> u16 \<Rightarrow> bytes \<Rightarrow> bytes option" where
  "st16 off v b = blit off (le16 v) b"

definition st32 :: "nat \<Rightarrow> u32 \<Rightarrow> bytes \<Rightarrow> bytes option" where
  "st32 off v b = blit off (le32 v) b"

text \<open>The same on a buffer that is given as the concatenation of its parts.\<close>

named_theorems buf_laws "loads and stores on a concatenation"

lemma ld16_app [buf_laws]: "ld16 (p @ le16 v @ q) (length p) = Some v"
  by (simp add: ld16_def)

lemma ld32_app [buf_laws]: "ld32 (p @ le32 v @ q) (length p) = Some v"
  by (simp add: ld32_def)

lemma ld_bytes_app [buf_laws]:
  "n = length bs \<Longrightarrow> ld_bytes (p @ bs @ q) (length p) n = Some bs"
  by (simp add: ld_bytes_def take_exact_def)

lemma blit_app [buf_laws]:
  "length bs = length old \<Longrightarrow> blit (length p) bs (p @ old @ q) = Some (p @ bs @ q)"
  by (simp add: blit_def)

section \<open>Ring indices\<close>

text \<open>\<^verbatim>\<open>if (++i == n) i = 0;\<close> on a 32-bit index.\<close>

definition ring_next :: "u32 \<Rightarrow> u32 \<Rightarrow> u32" where
  "ring_next n i = (if i + 1 = n then 0 else i + 1)"

lemma unat_ring_next [ring_arith]:
  assumes "unat i < unat n"
  shows "unat (ring_next n i) = Suc (unat i) mod unat n"
proof -
  have "Suc (unat i) < 2 ^ 32"
    using assms unat_u32_less [of n] by simp
  then have inc: "unat (i + 1) = Suc (unat i)"
    by (simp add: unat_word_ariths)
  show ?thesis
  proof (cases "i + 1 = n")
    case True
    then show ?thesis using inc by (simp add: ring_next_def)
  next
    case False
    then have "Suc (unat i) \<noteq> unat n"
      using inc by (metis word_unat_eq_iff)
    with assms have "Suc (unat i) < unat n" by simp
    with False inc show ?thesis by (simp add: ring_next_def)
  qed
qed

lemma ring_next_bound [ring_arith]:
  "unat i < unat n \<Longrightarrow> unat (ring_next n i) < unat n"
  by (simp add: unat_ring_next)

lemma ring_shift_inj [ring_arith]:
  fixes n :: nat
  assumes "(h + j) mod n = (h + k) mod n" and "j < n" and "k < n"
  shows "j = k"
proof -
  have "(int h + int j) mod int n = (int h + int k) mod int n"
    using assms(1) by (metis of_nat_add of_nat_mod)
  then have "int j mod int n = int k mod int n"
    using mod_diff_cong [of "int h + int j" "int n" "int h + int k" "int h" "int h"] by simp
  with assms(2,3) show ?thesis by simp
qed

end
