(* ===== verification/NF10_Ring.thy ===== *)
theory NF10_Ring
  imports NF10_Prelude
begin

text \<open>
  Rings of slots that a producer and a consumer share through one flag per slot,
  the way the TX and the RX DMA streams of the driver are shared with the card.
  Neither side publishes an index: the producer asks whether the slot under its own
  index is full, the consumer whether the slot under its own index is full.  The
  interface \<open>slot_ring\<close> states what the memory has to promise for one slot;
  from it the theory derives the bounded first-in first-out queue of
  \<open>bounded_fifo\<close>, once for every ring of the driver.
\<close>

section \<open>Window and contents of a ring\<close>

text \<open>
  The consumer stands at slot \<open>h\<close>, the producer \<open>k\<close> slots further: exactly the
  slots in between are full.
\<close>

definition ring_slot :: "nat \<Rightarrow> nat \<Rightarrow> nat \<Rightarrow> nat" where
  "ring_slot n h j = (h + j) mod n"

definition ring_window :: "('m \<Rightarrow> nat \<Rightarrow> bool) \<Rightarrow> nat \<Rightarrow> 'm \<Rightarrow> nat \<Rightarrow> nat \<Rightarrow> bool" where
  "ring_window is_full n m h k \<longleftrightarrow>
     h < n \<and> k \<le> n \<and> (\<forall>j<n. is_full m (ring_slot n h j) \<longleftrightarrow> j < k)"

definition ring_contents :: "('m \<Rightarrow> nat \<Rightarrow> 'e) \<Rightarrow> nat \<Rightarrow> 'm \<Rightarrow> nat \<Rightarrow> nat \<Rightarrow> 'e list" where
  "ring_contents entry n m h k = map (\<lambda>j. entry m (ring_slot n h j)) [0..<k]"

lemma ring_slot_less [simp, ring_arith]: "0 < n \<Longrightarrow> ring_slot n h j < n"
  by (simp add: ring_slot_def)

lemma ring_slot_0 [simp, ring_arith]: "h < n \<Longrightarrow> ring_slot n h 0 = h"
  by (simp add: ring_slot_def)

lemma ring_slot_inj [ring_arith]:
  "ring_slot n h j = ring_slot n h k \<Longrightarrow> j < n \<Longrightarrow> k < n \<Longrightarrow> j = k"
  unfolding ring_slot_def by (rule ring_shift_inj)

lemma ring_slot_Suc [ring_arith]:
  "ring_slot n (Suc h mod n) j = ring_slot n h (Suc j)"
  by (simp add: ring_slot_def mod_simps)

lemma Suc_ring_slot [ring_arith]: "Suc (ring_slot n h k) mod n = ring_slot n h (Suc k)"
  by (simp add: ring_slot_def mod_simps)

lemma ring_slot_full_turn [simp, ring_arith]: "h < n \<Longrightarrow> ring_slot n h n = h"
  by (simp add: ring_slot_def)

lemma length_ring_contents [simp]: "length (ring_contents entry n m h k) = k"
  by (simp add: ring_contents_def)

lemma ring_windowD:
  assumes "ring_window is_full n m h k"
  shows "h < n" and "k \<le> n" and "\<And>j. j < n \<Longrightarrow> is_full m (ring_slot n h j) \<longleftrightarrow> j < k"
  using assms by (auto simp: ring_window_def)

lemma ring_window_producer:
  assumes "ring_window is_full n m h k"
  shows "is_full m (ring_slot n h k) \<longleftrightarrow> k = n"
proof (cases "k = n")
  case True
  with assms have "is_full m (ring_slot n h 0)"
    using ring_windowD(1) [OF assms] ring_windowD(3) [OF assms, of 0] by auto
  then show ?thesis using True ring_windowD(1) [OF assms] by simp
next
  case False
  then show ?thesis using ring_windowD(2,3) [OF assms] by simp
qed

lemma ring_window_consumer:
  assumes "ring_window is_full n m h k"
  shows "is_full m h \<longleftrightarrow> 0 < k"
proof -
  have "h < n" by (rule ring_windowD(1) [OF assms])
  then show ?thesis
    using ring_windowD(3) [OF assms, of 0] by simp
qed

lemma ring_contents_Suc_front:
  "h < n \<Longrightarrow>
   ring_contents entry n m h (Suc k) = entry m h # ring_contents entry n m (Suc h mod n) k"
  by (simp add: ring_contents_def ring_slot_Suc upt_conv_Cons map_Suc_upt [symmetric]
      comp_def del: upt_Suc)

section \<open>Bounded first-in first-out queues\<close>

locale bounded_fifo =
  fixes cap :: "'q \<Rightarrow> nat"
    and enq :: "'e \<Rightarrow> 'q \<Rightarrow> 'q"
    and deq :: "'q \<Rightarrow> 'q"
    and front :: "'q \<Rightarrow> 'e"
    and contents :: "'q \<Rightarrow> 'e list"
    and ok :: "'q \<Rightarrow> bool"
    and fits :: "'e \<Rightarrow> bool"
  assumes cap_bound: "ok q \<Longrightarrow> length (contents q) \<le> cap q"
    and ok_enq: "ok q \<Longrightarrow> fits e \<Longrightarrow> length (contents q) < cap q \<Longrightarrow> ok (enq e q)"
    and cap_enq: "ok q \<Longrightarrow> cap (enq e q) = cap q"
    and contents_enq:
      "ok q \<Longrightarrow> fits e \<Longrightarrow> length (contents q) < cap q \<Longrightarrow> contents (enq e q) = contents q @ [e]"
    and ok_deq: "ok q \<Longrightarrow> contents q \<noteq> [] \<Longrightarrow> ok (deq q)"
    and cap_deq: "ok q \<Longrightarrow> cap (deq q) = cap q"
    and contents_deq: "ok q \<Longrightarrow> contents q \<noteq> [] \<Longrightarrow> contents (deq q) = tl (contents q)"
    and front_hd: "ok q \<Longrightarrow> contents q \<noteq> [] \<Longrightarrow> front q = hd (contents q)"
begin

text \<open>Draining: what a consumer sees is the contents, in order, and nothing else.\<close>

primrec drain :: "nat \<Rightarrow> 'q \<Rightarrow> 'e list \<times> 'q" where
  "drain 0 q = ([], q)"
| "drain (Suc k) q = (let (es, q') = drain k (deq q) in (front q # es, q'))"

lemma drain_prefix:
  assumes "ok q" and "k \<le> length (contents q)"
  shows "fst (drain k q) = take k (contents q)
       \<and> contents (snd (drain k q)) = drop k (contents q) \<and> ok (snd (drain k q))"
  using assms
proof (induction k arbitrary: q)
  case 0
  then show ?case by simp
next
  case (Suc k)
  then have ne: "contents q \<noteq> []" by auto
  have "ok (deq q)" and tl: "contents (deq q) = tl (contents q)"
    using Suc.prems ne by (auto intro: ok_deq simp: contents_deq)
  with Suc.prems have IH: "fst (drain k (deq q)) = take k (tl (contents q))
      \<and> contents (snd (drain k (deq q))) = drop k (tl (contents q)) \<and> ok (snd (drain k (deq q)))"
    using Suc.IH [of "deq q"] by simp
  obtain x xs where "contents q = x # xs" using ne by (cases "contents q") auto
  then show ?case
    using IH front_hd [OF Suc.prems(1) ne] by (simp add: split_def Let_def)
qed

lemma drain_after_enq:
  assumes "ok q" and "fits e" and "length (contents q) < cap q"
  shows "fst (drain (Suc (length (contents q))) (enq e q)) = contents q @ [e]"
  using drain_prefix [OF ok_enq [OF assms], of "Suc (length (contents q))"]
  by (simp add: contents_enq assms)

end

section \<open>Rings of flagged slots\<close>

locale slot_ring =
  fixes n :: nat
    and is_full :: "'m \<Rightarrow> nat \<Rightarrow> bool"
    and entry :: "'m \<Rightarrow> nat \<Rightarrow> 'e"
    and put :: "'m \<Rightarrow> nat \<Rightarrow> 'e \<Rightarrow> 'm"
    and clear :: "'m \<Rightarrow> nat \<Rightarrow> 'm"
    and valid :: "'e \<Rightarrow> bool"
  assumes full_put: "i < n \<Longrightarrow> j < n \<Longrightarrow> valid e \<Longrightarrow> is_full (put m i e) j \<longleftrightarrow> j = i \<or> is_full m j"
    and entry_put_same: "i < n \<Longrightarrow> valid e \<Longrightarrow> entry (put m i e) i = e"
    and entry_put_other:
      "i < n \<Longrightarrow> j < n \<Longrightarrow> j \<noteq> i \<Longrightarrow> valid e \<Longrightarrow> valid (entry m j) \<Longrightarrow> entry (put m i e) j = entry m j"
    and full_clear: "i < n \<Longrightarrow> j < n \<Longrightarrow> is_full (clear m i) j \<longleftrightarrow> j \<noteq> i \<and> is_full m j"
    and entry_clear: "i < n \<Longrightarrow> j < n \<Longrightarrow> valid (entry m j) \<Longrightarrow> entry (clear m i) j = entry m j"
begin

lemma window_put:
  assumes w: "ring_window is_full n m h k" and "k < n" and "valid e"
  shows "ring_window is_full n (put m (ring_slot n h k) e) h (Suc k)"
proof -
  have "0 < n" using assms(2) by simp
  have "is_full (put m (ring_slot n h k) e) (ring_slot n h j) \<longleftrightarrow> j < Suc k" if "j < n" for j
  proof -
    have "ring_slot n h j = ring_slot n h k \<longleftrightarrow> j = k"
      using ring_slot_inj [of n h j k] that assms(2) by auto
    then show ?thesis
      using full_put [of "ring_slot n h k" "ring_slot n h j" e m]
        ring_windowD(3) [OF w that] \<open>0 < n\<close> \<open>valid e\<close> by auto
  qed
  then show ?thesis
    using ring_windowD(1,2) [OF w] assms(2) by (auto simp: ring_window_def)
qed

lemma contents_put:
  assumes w: "ring_window is_full n m h k" and "k < n" and "valid e"
    and v: "list_all valid (ring_contents entry n m h k)"
  shows "ring_contents entry n (put m (ring_slot n h k) e) h (Suc k)
       = ring_contents entry n m h k @ [e]"
proof -
  have "0 < n" using assms(2) by simp
  have "entry (put m (ring_slot n h k) e) (ring_slot n h j) = entry m (ring_slot n h j)"
    if "j < k" for j
  proof -
    have "ring_slot n h j \<noteq> ring_slot n h k"
      using ring_slot_inj [of n h j k] that assms(2) by auto
    moreover have "valid (entry m (ring_slot n h j))"
      using v that by (auto simp: ring_contents_def list_all_iff)
    ultimately show ?thesis
      using entry_put_other \<open>0 < n\<close> \<open>valid e\<close> by simp
  qed
  then show ?thesis
    using entry_put_same [of "ring_slot n h k" e m] \<open>0 < n\<close> \<open>valid e\<close>
    by (simp add: ring_contents_def)
qed

lemma window_clear:
  assumes w: "ring_window is_full n m h (Suc k)"
  shows "ring_window is_full n (clear m h) (Suc h mod n) k"
proof -
  have hn: "h < n" and kn: "Suc k \<le> n" by (rule ring_windowD [OF w])+
  have "is_full (clear m h) (ring_slot n (Suc h mod n) j) \<longleftrightarrow> j < k" if "j < n" for j
  proof (cases "Suc j = n")
    case True
    then have "ring_slot n h (Suc j) = h" using hn by simp
    then show ?thesis
      using full_clear [of h h m] hn True kn by (simp add: ring_slot_Suc)
  next
    case False
    with that have less: "Suc j < n" by simp
    then have "ring_slot n h (Suc j) \<noteq> ring_slot n h 0"
      using ring_slot_inj [of n h "Suc j" 0] by auto
    then show ?thesis
      using full_clear [of h "ring_slot n h (Suc j)" m] ring_windowD(3) [OF w less] hn
      by (simp add: ring_slot_Suc)
  qed
  then show ?thesis using hn kn by (simp add: ring_window_def)
qed

lemma contents_clear:
  assumes w: "ring_window is_full n m h (Suc k)"
    and v: "list_all valid (ring_contents entry n m h (Suc k))"
  shows "ring_contents entry n (clear m h) (Suc h mod n) k
       = tl (ring_contents entry n m h (Suc k))"
proof -
  have hn: "h < n" by (rule ring_windowD(1) [OF w])
  have "entry (clear m h) (ring_slot n (Suc h mod n) j) = entry m (ring_slot n (Suc h mod n) j)"
    if "j < k" for j
  proof -
    have "valid (entry m (ring_slot n h (Suc j)))"
      using v that unfolding ring_contents_def list_all_iff set_map set_upt by auto
    then show ?thesis using entry_clear hn by (simp add: ring_slot_Suc)
  qed
  then have "ring_contents entry n (clear m h) (Suc h mod n) k
      = ring_contents entry n m (Suc h mod n) k"
    by (simp add: ring_contents_def)
  then show ?thesis
    by (simp add: ring_contents_Suc_front [OF hn])
qed

end

text \<open>
  Every flagged ring is a bounded queue; its state is the memory with the two
  positions, its capacity the number of slots.
\<close>

sublocale slot_ring < fifo: bounded_fifo
  "\<lambda>(m, h, k). n"
  "\<lambda>e (m, h, k). (put m (ring_slot n h k) e, h, Suc k)"
  "\<lambda>(m, h, k). (clear m h, Suc h mod n, k - 1)"
  "\<lambda>(m, h, k). entry m h"
  "\<lambda>(m, h, k). ring_contents entry n m h k"
  "\<lambda>(m, h, k). ring_window is_full n m h k \<and> list_all valid (ring_contents entry n m h k)"
  valid
proof (unfold_locales, goal_cases)
  case (1 q)
  then show ?case by (auto dest: ring_windowD(2))
next
  case (2 q e)
  then show ?case by (auto simp: contents_put intro: window_put)
next
  case (3 q e)
  then show ?case by (simp split: prod.splits)
next
  case (4 q e)
  then show ?case by (auto simp: contents_put)
next
  case (5 q)
  obtain m h k where q: "q = (m, h, k)" by (cases q) auto
  with 5 obtain k' where k': "k = Suc k'" by (cases k) (auto simp: ring_contents_def)
  have "list_all valid (tl (ring_contents entry n m h (Suc k')))"
    using 5 q k' by (simp add: list_all_tl)
  then show ?case
    using 5 q k' by (auto simp: contents_clear intro: window_clear)
next
  case (6 q)
  then show ?case by (simp split: prod.splits)
next
  case (7 q)
  obtain m h k where q: "q = (m, h, k)" by (cases q) auto
  with 7 obtain k' where "k = Suc k'" by (cases k) (auto simp: ring_contents_def)
  then show ?case using 7 q by (simp add: contents_clear)
next
  case (8 q)
  obtain m h k where q: "q = (m, h, k)" by (cases q) auto
  with 8 obtain k' where "k = Suc k'" by (cases k) (auto simp: ring_contents_def)
  moreover have "h < n" using 8 q by (auto dest: ring_windowD(1))
  ultimately show ?case using q by (simp add: ring_contents_Suc_front)
qed

end
