(* ===== verification/NF10_Dma.thy ===== *)
theory NF10_Dma
  imports NF10_Ring
begin

text \<open>
  The DMA regions that driver and card share (\<^verbatim>\<open>struct dma_stream\<close>,
  \<^verbatim>\<open>OcdpMetadata\<close> and the \<^verbatim>\<open>DMA_*\<close> constants of
  \<^verbatim>\<open>nf10_eth_driver_main.c\<close> and \<^verbatim>\<open>ocdp.h\<close>).  A region of \<open>n\<close> slots holds
  \<open>n\<close> packet buffers, then \<open>n\<close> metadata records, then \<open>n\<close> flags.  The theory proves
  that the three areas of all slots are disjoint and interprets the ring interface on
  this layout, for the polarity of the TX flags and for that of the RX flags.
\<close>

section \<open>Constants and structures\<close>

definition DMA_BUF_SIZE :: u32 where "DMA_BUF_SIZE = 2048"
definition DMA_FPGA_BUFS :: u32 where "DMA_FPGA_BUFS = 4"
definition DMA_CPU_BUFS :: u32 where "DMA_CPU_BUFS = 32768"
definition MIN_DMA_CPU_BUFS :: u32 where "MIN_DMA_CPU_BUFS = 1"

text \<open>\<^verbatim>\<open>OcdpMetadata\<close>: four 32-bit words, \<open>length\<close> first, \<open>opCode\<close> second.\<close>

definition OCDP_METADATA_SIZE :: nat where "OCDP_METADATA_SIZE = 16"
definition META_LENGTH :: nat where "META_LENGTH = 0"
definition META_OPCODE :: nat where "META_OPCODE = 4"

text \<open>Pointers are kernel virtual addresses; \<open>0\<close> is \<^verbatim>\<open>NULL\<close>.\<close>

record dma_stream =
  buffers :: addr
  metadata :: addr
  flags :: addr
  doorbell :: addr
  buf_index :: u32

definition buffer_addr :: "dma_stream \<Rightarrow> u32 \<Rightarrow> addr" where
  "buffer_addr st i = buffers st + unat (i * DMA_BUF_SIZE)"

definition metadata_addr :: "dma_stream \<Rightarrow> u32 \<Rightarrow> addr" where
  "metadata_addr st i = metadata st + OCDP_METADATA_SIZE * unat i"

definition flag_addr :: "dma_stream \<Rightarrow> u32 \<Rightarrow> addr" where
  "flag_addr st i = flags st + 4 * unat i"

text \<open>
  \<^verbatim>\<open>((DMA_BUF_SIZE + OCDP_METADATA_SIZE + sizeof(uint32_t)) * dma_cpu_bufs)\<close>, computed in
  64 bits and stored in a 32-bit variable.
\<close>

definition dma_region_bytes :: "u32 \<Rightarrow> u32" where
  "dma_region_bytes n = word_of_nat ((unat DMA_BUF_SIZE + OCDP_METADATA_SIZE + 4) * unat n)"

text \<open>The stream pointers carved out of a region at \<open>va\<close>.\<close>

definition carve_stream :: "addr \<Rightarrow> u32 \<Rightarrow> addr \<Rightarrow> dma_stream" where
  "carve_stream va n db =
     \<lparr>buffers = va,
      metadata = va + unat (n * DMA_BUF_SIZE),
      flags = va + unat (n * DMA_BUF_SIZE) + OCDP_METADATA_SIZE * unat n,
      doorbell = db,
      buf_index = 0\<rparr>"

section \<open>Slots of a region\<close>

definition slot_buf :: "addr \<Rightarrow> nat \<Rightarrow> addr" where
  "slot_buf b i = b + 2048 * i"

definition slot_meta :: "addr \<Rightarrow> nat \<Rightarrow> nat \<Rightarrow> addr" where
  "slot_meta b N i = b + 2048 * N + 16 * i"

definition slot_flag :: "addr \<Rightarrow> nat \<Rightarrow> nat \<Rightarrow> addr" where
  "slot_flag b N i = b + 2064 * N + 4 * i"

text \<open>A packet in a slot: its payload and its opcode.\<close>

type_synonym packet = "bytes \<times> u32"

definition slot_packet :: "addr \<Rightarrow> nat \<Rightarrow> mem \<Rightarrow> nat \<Rightarrow> packet" where
  "slot_packet b N m i =
     (rd_bytes m (slot_buf b i) (unat (rd32 m (slot_meta b N i + META_LENGTH))),
      rd32 m (slot_meta b N i + META_OPCODE))"

definition slot_fill :: "addr \<Rightarrow> nat \<Rightarrow> u32 \<Rightarrow> mem \<Rightarrow> nat \<Rightarrow> packet \<Rightarrow> mem" where
  "slot_fill b N fv m i p =
     wr32 (wr32 (wr32 (wr_bytes m (slot_buf b i) (fst p))
       (slot_meta b N i + META_LENGTH) (word_of_nat (length (fst p))))
       (slot_meta b N i + META_OPCODE) (snd p))
       (slot_flag b N i) fv"

definition slot_release :: "addr \<Rightarrow> nat \<Rightarrow> u32 \<Rightarrow> mem \<Rightarrow> nat \<Rightarrow> mem" where
  "slot_release b N cv m i = wr32 m (slot_flag b N i) cv"

definition fits_slot :: "packet \<Rightarrow> bool" where
  "fits_slot p \<longleftrightarrow> length (fst p) \<le> 2048"

text \<open>TX slots are full when the flag is 0, RX slots when it is 1.\<close>

definition tx_full :: "addr \<Rightarrow> nat \<Rightarrow> mem \<Rightarrow> nat \<Rightarrow> bool" where
  "tx_full b N m i \<longleftrightarrow> rd32 m (slot_flag b N i) = 0"

definition rx_full :: "addr \<Rightarrow> nat \<Rightarrow> mem \<Rightarrow> nat \<Rightarrow> bool" where
  "rx_full b N m i \<longleftrightarrow> rd32 m (slot_flag b N i) = 1"

lemmas slot_defs = slot_buf_def slot_meta_def slot_flag_def META_LENGTH_def META_OPCODE_def

section \<open>Disjointness of the areas\<close>

lemma buf_buf_apart [mem_laws]:
  assumes "i \<noteq> j" and "n \<le> 2048" and "k \<le> 2048"
  shows "apart (slot_buf b i) n (slot_buf b j) k"
proof -
  have "i < j \<or> j < i" using assms(1) by auto
  then show ?thesis
    using assms(2,3) by (auto simp: apart_def slot_buf_def)
qed

lemma buf_meta_apart [mem_laws]:
  "i < N \<Longrightarrow> n \<le> 2048 \<Longrightarrow> apart (slot_buf b i) n (slot_meta b N j + d) k"
  by (auto simp: apart_def slot_defs)

lemma buf_flag_apart [mem_laws]:
  "i < N \<Longrightarrow> n \<le> 2048 \<Longrightarrow> apart (slot_buf b i) n (slot_flag b N j) k"
  by (auto simp: apart_def slot_defs)

lemma meta_flag_apart [mem_laws]:
  "i < N \<Longrightarrow> d + k \<le> 16 \<Longrightarrow> apart (slot_meta b N i + d) k (slot_flag b N j) n"
  by (auto simp: apart_def slot_defs)

lemma meta_meta_apart [mem_laws]:
  "i \<noteq> j \<Longrightarrow> d + n \<le> 16 \<Longrightarrow> e + k \<le> 16 \<Longrightarrow>
   apart (slot_meta b N i + d) n (slot_meta b N j + e) k"
  by (auto simp: apart_def slot_defs)

lemma meta_same_apart [mem_laws]:
  "d + n \<le> e \<or> e + k \<le> d \<Longrightarrow> apart (slot_meta b N i + d) n (slot_meta b N i + e) k"
  by (auto simp: apart_def slot_defs)

lemma flag_flag_apart [mem_laws]:
  "i \<noteq> j \<Longrightarrow> apart (slot_flag b N i) 4 (slot_flag b N j) 4"
  by (auto simp: apart_def slot_defs)

lemma meta_offsets [mem_laws]:
  "META_LENGTH + 4 \<le> 16" "META_OPCODE + 4 \<le> 16" "META_LENGTH + 4 \<le> META_OPCODE"
  by (simp_all add: META_LENGTH_def META_OPCODE_def)

lemma apart_sym: "apart a n b k \<longleftrightarrow> apart b k a n"
  by (auto simp: apart_def)

lemmas apart_symD [mem_laws] = buf_meta_apart [THEN apart_sym [THEN iffD1]]
  buf_flag_apart [THEN apart_sym [THEN iffD1]] meta_flag_apart [THEN apart_sym [THEN iffD1]]

section \<open>Reading a slot after a write\<close>

lemma flag_after_fill_same: "rd32 (slot_fill b N fv m i p) (slot_flag b N i) = fv"
  by (simp add: slot_fill_def)

lemma flag_after_fill_other:
  assumes "i < N" "j \<noteq> i" "fits_slot p"
  shows "rd32 (slot_fill b N fv m i p) (slot_flag b N j) = rd32 m (slot_flag b N j)"
  using assms by (simp add: slot_fill_def fits_slot_def mem_laws)

lemma packet_after_fill_same:
  assumes "i < N" "fits_slot p"
  shows "slot_packet b N (slot_fill b N fv m i p) i = p"
proof -
  have len: "unat (word_of_nat (length (fst p)) :: u32) = length (fst p)"
    using assms(2) by (simp add: fits_slot_def unat_of_nat)
  show ?thesis
    using assms len
    by (simp add: slot_packet_def slot_fill_def fits_slot_def mem_laws
        prod_eq_iff)
qed

lemma packet_after_fill_other:
  assumes "i < N" "j < N" "j \<noteq> i" "fits_slot p" "fits_slot (slot_packet b N m j)"
  shows "slot_packet b N (slot_fill b N fv m i p) j = slot_packet b N m j"
  using assms
  by (simp add: slot_packet_def slot_fill_def fits_slot_def mem_laws)

lemma flag_after_release:
  "rd32 (slot_release b N cv m i) (slot_flag b N j)
     = (if j = i then cv else rd32 m (slot_flag b N j))"
  by (simp add: slot_release_def mem_laws)

lemma packet_after_release:
  assumes "i < N" "j < N" "fits_slot (slot_packet b N m j)"
  shows "slot_packet b N (slot_release b N cv m i) j = slot_packet b N m j"
  using assms
  by (simp add: slot_packet_def slot_release_def fits_slot_def mem_laws)

section \<open>The region as a ring\<close>

text \<open>
  A flag convention: which flag values mean full, the value the producer writes and the
  value the consumer writes back.
\<close>

locale flag_convention =
  fixes means_full :: "u32 \<Rightarrow> bool"
    and full_value :: u32
    and free_value :: u32
  assumes full_value: "means_full full_value"
    and free_value: "\<not> means_full free_value"

sublocale flag_convention < region: slot_ring N
  "\<lambda>m i. means_full (rd32 m (slot_flag b N i))" "slot_packet b N"
  "slot_fill b N full_value" "slot_release b N free_value" fits_slot
  for b N
proof (unfold_locales, goal_cases)
  case (1 i j e m)
  then show ?case
    using full_value by (cases "j = i") (simp_all add: flag_after_fill_same flag_after_fill_other)
next
  case (2 i e m)
  then show ?case by (rule packet_after_fill_same)
next
  case (3 i j e m)
  then show ?case by (simp add: packet_after_fill_other)
next
  case (4 i j m)
  then show ?case using free_value by (simp add: flag_after_release)
next
  case (5 i j m)
  then show ?case by (simp add: packet_after_release)
qed

text \<open>
  The two moves of a region: the producer fills the slot behind the window, the consumer
  releases the slot at its front.
\<close>

context flag_convention
begin

lemma produce:
  assumes "ring_window (\<lambda>m i. means_full (rd32 m (slot_flag b N i))) N m h k" "k < N" "fits_slot p"
    and "list_all fits_slot (ring_contents (slot_packet b N) N m h k)"
  shows "ring_window (\<lambda>m i. means_full (rd32 m (slot_flag b N i))) N
           (slot_fill b N full_value m (ring_slot N h k) p) h (Suc k) \<and>
         ring_contents (slot_packet b N) N (slot_fill b N full_value m (ring_slot N h k) p) h (Suc k)
           = ring_contents (slot_packet b N) N m h k @ [p]"
  using region.window_put [OF assms(1-3)] region.contents_put [OF assms] by simp

lemma consume:
  assumes "ring_window (\<lambda>m i. means_full (rd32 m (slot_flag b N i))) N m h (Suc k)"
    and "list_all fits_slot (ring_contents (slot_packet b N) N m h (Suc k))"
  shows "ring_window (\<lambda>m i. means_full (rd32 m (slot_flag b N i))) N
           (slot_release b N free_value m h) (Suc h mod N) k \<and>
         ring_contents (slot_packet b N) N (slot_release b N free_value m h) (Suc h mod N) k
           = tl (ring_contents (slot_packet b N) N m h (Suc k))"
  using region.window_clear [OF assms(1)] region.contents_clear [OF assms] by simp

end

interpretation tx_flags: flag_convention "\<lambda>f. f = 0" 0 1
  by unfold_locales simp_all

interpretation rx_flags: flag_convention "\<lambda>f. f = 1" 1 0
  by unfold_locales simp_all

end
