(* ===== verification/NF10_Opcode.thy ===== *)
theory NF10_Opcode
  imports NF10_Prelude
begin

text \<open>
  The opcode word that travels in the DMA metadata of a packet: one bit per host
  interface (CPU0..CPU3, odd bits) and one per Ethernet port (MAC0..MAC3, even bits).
  The constants are those of \<^verbatim>\<open>nf10_eth_driver.h\<close>, the accessors those of
  \<^verbatim>\<open>nf10_eth_driver_main.c\<close>; \<open>-1\<close> is the all-ones word the C code returns when
  no bit of the group is set.
\<close>

section \<open>Interface bit masks\<close>

definition OPCODE_CPU0 :: u32 where "OPCODE_CPU0 = 0x02"
definition OPCODE_CPU1 :: u32 where "OPCODE_CPU1 = 0x08"
definition OPCODE_CPU2 :: u32 where "OPCODE_CPU2 = 0x20"
definition OPCODE_CPU3 :: u32 where "OPCODE_CPU3 = 0x80"
definition OPCODE_CPU_ALL :: u32 where "OPCODE_CPU_ALL = 0xAA"

definition OPCODE_MAC0 :: u32 where "OPCODE_MAC0 = 0x01"
definition OPCODE_MAC1 :: u32 where "OPCODE_MAC1 = 0x04"
definition OPCODE_MAC2 :: u32 where "OPCODE_MAC2 = 0x10"
definition OPCODE_MAC3 :: u32 where "OPCODE_MAC3 = 0x40"
definition OPCODE_MAC_ALL :: u32 where "OPCODE_MAC_ALL = 0x55"

lemmas opcode_cpu_defs =
  OPCODE_CPU0_def OPCODE_CPU1_def OPCODE_CPU2_def OPCODE_CPU3_def OPCODE_CPU_ALL_def

lemmas opcode_mac_defs =
  OPCODE_MAC0_def OPCODE_MAC1_def OPCODE_MAC2_def OPCODE_MAC3_def OPCODE_MAC_ALL_def

section \<open>Reading and writing the port fields\<close>

definition rx_get_dst_iface :: "u32 \<Rightarrow> u32" where
  "rx_get_dst_iface opcode =
     (if opcode AND OPCODE_CPU0 \<noteq> 0 then 0
      else if opcode AND OPCODE_CPU1 \<noteq> 0 then 1
      else if opcode AND OPCODE_CPU2 \<noteq> 0 then 2
      else if opcode AND OPCODE_CPU3 \<noteq> 0 then 3
      else - 1)"

definition rx_get_src_iface :: "u32 \<Rightarrow> u32" where
  "rx_get_src_iface opcode =
     (if opcode AND OPCODE_MAC0 \<noteq> 0 then 0
      else if opcode AND OPCODE_MAC1 \<noteq> 0 then 1
      else if opcode AND OPCODE_MAC2 \<noteq> 0 then 2
      else if opcode AND OPCODE_MAC3 \<noteq> 0 then 3
      else - 1)"

definition rx_set_dst_iface :: "u32 \<Rightarrow> u32 \<Rightarrow> u32" where
  "rx_set_dst_iface opcode dst_iface =
     (let opcode = opcode AND NOT OPCODE_CPU_ALL in
      if dst_iface = 0 then opcode OR OPCODE_CPU0
      else if dst_iface = 1 then opcode OR OPCODE_CPU1
      else if dst_iface = 2 then opcode OR OPCODE_CPU2
      else if dst_iface = 3 then opcode OR OPCODE_CPU3
      else opcode)"

definition rx_set_src_iface :: "u32 \<Rightarrow> u32 \<Rightarrow> u32" where
  "rx_set_src_iface opcode src_iface =
     (let opcode = opcode AND NOT OPCODE_MAC_ALL in
      if src_iface = 0 then opcode OR OPCODE_MAC0
      else if src_iface = 1 then opcode OR OPCODE_MAC1
      else if src_iface = 2 then opcode OR OPCODE_MAC2
      else if src_iface = 3 then opcode OR OPCODE_MAC3
      else opcode)"

definition tx_get_dst_iface :: "u32 \<Rightarrow> u32" where
  "tx_get_dst_iface opcode = rx_get_src_iface opcode"

definition tx_get_src_iface :: "u32 \<Rightarrow> u32" where
  "tx_get_src_iface opcode = rx_get_dst_iface opcode"

definition tx_set_dst_iface :: "u32 \<Rightarrow> u32 \<Rightarrow> u32" where
  "tx_set_dst_iface opcode dst_iface = rx_set_src_iface opcode dst_iface"

definition tx_set_src_iface :: "u32 \<Rightarrow> u32 \<Rightarrow> u32" where
  "tx_set_src_iface opcode src_iface = rx_set_dst_iface opcode src_iface"

section \<open>Bit-level reading of the masks\<close>

lemma and_2_iff: "(x :: u32) AND 2 \<noteq> 0 \<longleftrightarrow> bit x 1"
  using and_exp_eq_0_iff_not_bit [of x 1] by simp

lemma and_mask_iff:
  "(x :: u32) AND 1 \<noteq> 0 \<longleftrightarrow> bit x 0"
  "(x :: u32) AND 4 \<noteq> 0 \<longleftrightarrow> bit x 2"
  "(x :: u32) AND 8 \<noteq> 0 \<longleftrightarrow> bit x 3"
  "(x :: u32) AND 16 \<noteq> 0 \<longleftrightarrow> bit x 4"
  "(x :: u32) AND 32 \<noteq> 0 \<longleftrightarrow> bit x 5"
  "(x :: u32) AND 64 \<noteq> 0 \<longleftrightarrow> bit x 6"
  "(x :: u32) AND 128 \<noteq> 0 \<longleftrightarrow> bit x 7"
  using and_exp_eq_0_iff_not_bit [of x 0] and_exp_eq_0_iff_not_bit [of x 2]
    and_exp_eq_0_iff_not_bit [of x 3] and_exp_eq_0_iff_not_bit [of x 4]
    and_exp_eq_0_iff_not_bit [of x 5] and_exp_eq_0_iff_not_bit [of x 6]
    and_exp_eq_0_iff_not_bit [of x 7]
  by simp_all

lemma rx_get_dst_iface_bits:
  "rx_get_dst_iface x =
     (if bit x 1 then 0 else if bit x 3 then 1 else if bit x 5 then 2 else if bit x 7 then 3 else - 1)"
  unfolding rx_get_dst_iface_def opcode_cpu_defs and_2_iff and_mask_iff by simp

lemma rx_get_src_iface_bits:
  "rx_get_src_iface x =
     (if bit x 0 then 0 else if bit x 2 then 1 else if bit x 4 then 2 else if bit x 6 then 3 else - 1)"
  unfolding rx_get_src_iface_def opcode_mac_defs and_2_iff and_mask_iff by simp

lemma word_less_4_cases:
  "(i :: u32) < 4 \<Longrightarrow> i = 0 \<or> i = 1 \<or> i = 2 \<or> i = 3"
  by unat_arith

lemma masked_or_masked:
  "c AND m = 0 \<Longrightarrow> ((x :: u32) AND m OR c) AND m = x AND m"
  by (simp add: bit.conj_disj_distrib2 and.assoc)

section \<open>Get after set\<close>

lemma rx_set_dst_iface_cases:
  assumes "i < 4"
  shows "rx_get_dst_iface (rx_set_dst_iface x i) = i"
proof -
  consider "i = 0" | "i = 1" | "i = 2" | "i = 3"
    using word_less_4_cases [OF assms] by blast
  then show ?thesis
    by cases (simp_all add: rx_set_dst_iface_def Let_def opcode_cpu_defs rx_get_dst_iface_bits bit_simps)
qed

lemma rx_set_dst_iface_none:
  assumes "\<not> i < 4"
  shows "rx_get_dst_iface (rx_set_dst_iface x i) = - 1"
proof -
  have "i \<noteq> 0" "i \<noteq> 1" "i \<noteq> 2" "i \<noteq> 3"
    using assms by auto
  then show ?thesis
    by (simp add: rx_set_dst_iface_def Let_def opcode_cpu_defs rx_get_dst_iface_bits bit_simps)
qed

lemma rx_set_src_iface_cases:
  assumes "i < 4"
  shows "rx_get_src_iface (rx_set_src_iface x i) = i"
proof -
  consider "i = 0" | "i = 1" | "i = 2" | "i = 3"
    using word_less_4_cases [OF assms] by blast
  then show ?thesis
    by cases (simp_all add: rx_set_src_iface_def Let_def opcode_mac_defs rx_get_src_iface_bits bit_simps)
qed

lemma rx_set_dst_iface_frame:
  "rx_set_dst_iface x i AND NOT OPCODE_CPU_ALL = x AND NOT OPCODE_CPU_ALL"
  by (simp add: rx_set_dst_iface_def Let_def opcode_cpu_defs masked_or_masked)

lemma rx_set_src_iface_frame:
  "rx_set_src_iface x i AND NOT OPCODE_MAC_ALL = x AND NOT OPCODE_MAC_ALL"
  by (simp add: rx_set_src_iface_def Let_def opcode_mac_defs masked_or_masked)

lemma rx_get_src_after_set_dst:
  "rx_get_src_iface (rx_set_dst_iface x i) = rx_get_src_iface x"
  by (simp add: rx_set_dst_iface_def Let_def opcode_cpu_defs rx_get_src_iface_bits bit_simps)

lemma rx_get_dst_after_set_src:
  "rx_get_dst_iface (rx_set_src_iface x i) = rx_get_dst_iface x"
  by (simp add: rx_set_src_iface_def Let_def opcode_mac_defs rx_get_dst_iface_bits bit_simps)

text \<open>The result of the getter is an interface number or the all-ones word.\<close>

lemma rx_get_dst_iface_range:
  "rx_get_dst_iface x < 4 \<or> rx_get_dst_iface x = - 1"
  by (simp add: rx_get_dst_iface_bits)

lemma rx_get_dst_iface_neg_iff:
  "is_neg (rx_get_dst_iface x) \<longleftrightarrow> x AND OPCODE_CPU_ALL = 0"
proof -
  have "x AND 0xAA = 0 \<longleftrightarrow> \<not> bit x 1 \<and> \<not> bit x 3 \<and> \<not> bit x 5 \<and> \<not> bit x 7"
  proof
    assume "x AND 0xAA = 0"
    then have "\<not> bit (x AND 0xAA) k" for k by simp
    from this [of 1] this [of 3] this [of 5] this [of 7]
    show "\<not> bit x 1 \<and> \<not> bit x 3 \<and> \<not> bit x 5 \<and> \<not> bit x 7"
      by (simp add: bit_simps)
  next
    assume "\<not> bit x 1 \<and> \<not> bit x 3 \<and> \<not> bit x 5 \<and> \<not> bit x 7"
    then have "x AND 2 = 0" "x AND 8 = 0" "x AND 32 = 0" "x AND 128 = 0"
      using and_2_iff [of x] and_mask_iff [of x] by auto
    moreover have "(0xAA :: u32) = 2 OR 8 OR 32 OR 128" by simp
    ultimately show "x AND 0xAA = 0"
      by (simp only: bit.conj_disj_distrib or.left_neutral)
  qed
  then show ?thesis
    by (simp add: rx_get_dst_iface_bits OPCODE_CPU_ALL_def)
qed

text \<open>
  Writing an interface number into the destination field of an opcode and reading
  it back gives that number, the source field is not disturbed, and the same holds with the
  two fields exchanged; the accessors of the transmit direction see the same fields crosswise.
\<close>

lemma opcode_round_trip:
  assumes "i < 4"
  shows "rx_get_dst_iface (rx_set_dst_iface x i) = i \<and>
    rx_get_src_iface (rx_set_dst_iface x i) = rx_get_src_iface x \<and>
    rx_get_src_iface (rx_set_src_iface x i) = i \<and>
    rx_get_dst_iface (rx_set_src_iface x i) = rx_get_dst_iface x \<and>
    tx_get_src_iface (tx_set_src_iface x i) = i \<and> tx_get_dst_iface (tx_set_dst_iface x i) = i \<and>
    rx_get_dst_iface (tx_set_src_iface x i) = i"
  using assms
  by (simp add: tx_get_src_iface_def tx_set_src_iface_def tx_get_dst_iface_def tx_set_dst_iface_def
      rx_set_dst_iface_cases rx_set_src_iface_cases rx_get_src_after_set_dst rx_get_dst_after_set_src)

end
