(* ===== verification/NF10_State.thy ===== *)
theory NF10_State
  imports NF10_Dma NF10_Opcode
begin

text \<open>
  The state of the kernel module \<^verbatim>\<open>nf10_eth_driver_main.c\<close>: its global variables, the
  kernel memory it shares with the card, the network devices it registered and the
  observable effects of its calls (bus events, packets handed to the stack, freed packet
  buffers, netlink replies).  An operation that dereferences memory outside every live
  allocation, takes a lock it already holds or adds a timer that is already pending has
  no successor state: its result is \<^term>\<open>None\<close>.
\<close>

section \<open>Constants of the driver\<close>

definition NUM_NETDEVS :: nat where "NUM_NETDEVS = 4"
definition HW_FOUND :: u32 where "HW_FOUND = 1"
definition HW_INIT :: u32 where "HW_INIT = 2"
definition NF10_PKT_SIZE_MIN :: u32 where "NF10_PKT_SIZE_MIN = 33"
definition NF10_PKT_SIZE_MAX :: u32 where "NF10_PKT_SIZE_MAX = 1514"
definition RX_POLL_INTERVAL :: u64 where "RX_POLL_INTERVAL = 1"
definition RX_POLL_WEIGHT :: nat where "RX_POLL_WEIGHT = 64"

text \<open>The two compile-time switches of the Makefile.\<close>

record config =
  DRIVER_GHOST :: bool
  DRIVER_LOOPB :: bool

section \<open>Kernel objects\<close>

record net_device_stats =
  tx_packets :: u64
  tx_bytes :: u64
  tx_dropped :: u64
  rx_packets :: u64
  rx_bytes :: u64
  rx_dropped :: u64

record net_device =
  dev_addr :: bytes
  addr_len :: nat
  hard_header_len :: nat
  stats :: net_device_stats
  queue_started :: bool
  trans_start :: u64
  netdev_ops_set :: bool
  header_ops_set :: bool
  iff_noarp :: bool
  watchdog_timeo :: nat

text \<open>
  A packet buffer: the linear data area from \<^verbatim>\<open>skb->data\<close> to its end, of which the first
  \<^verbatim>\<open>skb->len\<close> bytes are the packet.
\<close>

record sk_buff =
  sk_id :: nat
  sk_buf :: bytes
  sk_len :: u32
  sk_dev :: addr
  sk_protocol :: u16
  sk_csum_unnecessary :: bool

definition sk_data :: "sk_buff \<Rightarrow> bytes" where
  "sk_data skb = take (unat (sk_len skb)) (sk_buf skb)"

definition skb_wf :: "sk_buff \<Rightarrow> bool" where
  "skb_wf skb \<longleftrightarrow> unat (sk_len skb) \<le> length (sk_buf skb)"

text \<open>What reaches memory and the card, in program order.\<close>

datatype bus_event = MemWr addr bytes | MmioWr addr u32 | MmioRd addr u32 | Barrier

text \<open>
  What the module holds from the kernel.  Releasing something that is not held is a fault.
\<close>

datatype resource =
    PciDevice | Bar0Region | Bar0Map addr | DmaCoherent addr nat | Kmalloc addr nat
  | NetDev addr | NetDevRegistered addr | NapiAdded | NapiEnabled | GenlFamily | GenlOps nat
  | ProcEntry | PciDriver | PciBound

text \<open>A netlink reply: the command it answers and its attributes.\<close>

type_synonym nl_attrs = "(nat \<times> bytes) list"

record nf10 =
  kmem :: mem
  live :: "(addr \<times> nat) list"
  mmio_live :: "(addr \<times> nat) list"
  bus :: "bus_event list"
  tx_dma_stream :: dma_stream
  rx_dma_stream :: dma_stream
  dma_cpu_bufs :: u32
  dma_region_size :: u32
  tx_dma_reg_va :: addr
  tx_dma_reg_pa :: u64
  rx_dma_reg_va :: addr
  rx_dma_reg_pa :: u64
  hw_state :: u32
  bar0_base_va :: addr
  bar0_size :: u32
  nf10_regs :: addr
  nf10_ctrl :: addr
  nf10_netdevs :: "addr list"
  netdevs :: "addr \<Rightarrow> net_device option"
  tx_locked :: bool
  jiffies :: u64
  timer_pending :: bool
  timer_expires :: u64
  napi_scheduled :: bool
  received :: "sk_buff list"
  freed :: "nat list"
  held :: "resource list"
  unheld :: "resource list"
  replies :: "(nat \<times> nl_attrs) list"
  leaked_replies :: nat

section \<open>Checked access to memory and registers\<close>

definition covered :: "(addr \<times> nat) list \<Rightarrow> addr \<Rightarrow> nat \<Rightarrow> bool" where
  "covered rs a n \<longleftrightarrow> list_ex (\<lambda>(b, k). b \<le> a \<and> a + n \<le> b + k) rs"

definition load32 :: "addr \<Rightarrow> nf10 \<Rightarrow> u32 option" where
  "load32 a s = (if covered (live s) a 4 then Some (rd32 (kmem s) a) else None)"

definition load_bytes :: "addr \<Rightarrow> nat \<Rightarrow> nf10 \<Rightarrow> bytes option" where
  "load_bytes a n s = (if covered (live s) a n then Some (rd_bytes (kmem s) a n) else None)"

definition store_bytes :: "addr \<Rightarrow> bytes \<Rightarrow> nf10 \<Rightarrow> nf10 option" where
  "store_bytes a bs s =
     (if covered (live s) a (length bs)
      then Some (s\<lparr>kmem := wr_bytes (kmem s) a bs, bus := bus s @ [MemWr a bs]\<rparr>)
      else None)"

definition store32 :: "addr \<Rightarrow> u32 \<Rightarrow> nf10 \<Rightarrow> nf10 option" where
  "store32 a v s = store_bytes a (le32 v) s"

definition mmio_wr32 :: "addr \<Rightarrow> u32 \<Rightarrow> nf10 \<Rightarrow> nf10 option" where
  "mmio_wr32 a v s =
     (if covered (mmio_live s) a 4 then Some (s\<lparr>bus := bus s @ [MmioWr a v]\<rparr>) else None)"

text \<open>
  The value a register read returns is the card's business: a function of everything that
  went over the bus before.
\<close>

type_synonym hardware = "bus_event list \<Rightarrow> addr \<Rightarrow> u32"

definition mmio_rd32 :: "hardware \<Rightarrow> addr \<Rightarrow> nf10 \<Rightarrow> (u32 \<times> nf10) option" where
  "mmio_rd32 hw a s =
     (if covered (mmio_live s) a 4
      then Some (hw (bus s) a, s\<lparr>bus := bus s @ [MmioRd a (hw (bus s) a)]\<rparr>)
      else None)"

definition mb :: "nf10 \<Rightarrow> nf10" where
  "mb s = s\<lparr>bus := bus s @ [Barrier]\<rparr>"

definition spin_lock :: "nf10 \<Rightarrow> nf10 option" where
  "spin_lock s = (if tx_locked s then None else Some (s\<lparr>tx_locked := True\<rparr>))"

definition spin_unlock :: "nf10 \<Rightarrow> nf10" where
  "spin_unlock s = s\<lparr>tx_locked := False\<rparr>"

definition add_timer :: "nf10 \<Rightarrow> nf10 option" where
  "add_timer s = (if timer_pending s then None else Some (s\<lparr>timer_pending := True\<rparr>))"

definition del_timer :: "nf10 \<Rightarrow> nf10" where
  "del_timer s = s\<lparr>timer_pending := False\<rparr>"

definition dev_kfree_skb :: "sk_buff \<Rightarrow> nf10 \<Rightarrow> nf10" where
  "dev_kfree_skb skb s = s\<lparr>freed := freed s @ [sk_id skb]\<rparr>"

definition upd_netdev :: "addr \<Rightarrow> (net_device \<Rightarrow> net_device) \<Rightarrow> nf10 \<Rightarrow> nf10 option" where
  "upd_netdev p f s =
     (case netdevs s p of None \<Rightarrow> None | Some d \<Rightarrow> Some (s\<lparr>netdevs := (netdevs s)(p \<mapsto> f d)\<rparr>))"

definition upd_stats :: "addr \<Rightarrow> (net_device_stats \<Rightarrow> net_device_stats) \<Rightarrow> nf10 \<Rightarrow> nf10 option" where
  "upd_stats p f = upd_netdev p (\<lambda>d. d\<lparr>stats := f (stats d)\<rparr>)"

definition acquire :: "resource \<Rightarrow> nf10 \<Rightarrow> nf10" where
  "acquire r s = s\<lparr>held := r # held s\<rparr>"

text \<open>
  Giving a resource back.  Where the kernel follows pointers of the resource (freed memory, a device that was freed, the
  lists of a driver or of a NAPI context that were never set up), a resource that is not held is a fault (\<open>release\<close>).  The other
  services take the request in any case; one for a resource that is not held is recorded in \<open>unheld\<close> (\<open>give_back\<close>).
\<close>

definition release :: "resource \<Rightarrow> nf10 \<Rightarrow> nf10 option" where
  "release r s = (if r \<in> set (held s) then Some (s\<lparr>held := remove1 r (held s)\<rparr>) else None)"

definition give_back :: "resource \<Rightarrow> nf10 \<Rightarrow> nf10" where
  "give_back r s = (if r \<in> set (held s) then s\<lparr>held := remove1 r (held s)\<rparr> else s\<lparr>unheld := unheld s @ [r]\<rparr>)"

lemmas access_defs = load32_def load_bytes_def store32_def store_bytes_def mmio_wr32_def
  mmio_rd32_def mb_def spin_lock_def spin_unlock_def add_timer_def del_timer_def
  dev_kfree_skb_def upd_netdev_def upd_stats_def

section \<open>Well-formed streams\<close>

text \<open>
  A stream that \<open>carve_stream\<close> produced for a ring of \<open>n\<close> slots, with its index inside
  the ring, over memory that is allocated.
\<close>

definition stream_wf :: "u32 \<Rightarrow> dma_stream \<Rightarrow> bool" where
  "stream_wf n st \<longleftrightarrow>
     0 < unat n \<and> unat n \<le> 32768 \<and> unat (buf_index st) < unat n \<and> 0 < buffers st \<and>
     metadata st = buffers st + 2048 * unat n \<and> flags st = buffers st + 2064 * unat n"

definition region_live :: "nf10 \<Rightarrow> dma_stream \<Rightarrow> bool" where
  "region_live s st \<longleftrightarrow> (buffers st, 2068 * unat (dma_cpu_bufs s)) \<in> set (live s)"

lemma stream_wfD:
  assumes "stream_wf n st"
  shows "0 < unat n" "unat n \<le> 32768" "unat (buf_index st) < unat n" "0 < buffers st"
    "metadata st = buffers st + 2048 * unat n" "flags st = buffers st + 2064 * unat n"
  using assms by (simp_all add: stream_wf_def)

lemma unat_mult_buf_size:
  assumes "unat i \<le> 32768"
  shows "unat (i * DMA_BUF_SIZE) = 2048 * unat i"
proof -
  have "unat i * 2048 < 2 ^ 32" using assms by simp
  then show ?thesis by (simp add: DMA_BUF_SIZE_def unat_word_ariths)
qed

lemma stream_addrs:
  assumes "stream_wf n st" and "unat i < unat n"
  shows "buffer_addr st i = slot_buf (buffers st) (unat i)"
    and "metadata_addr st i = slot_meta (buffers st) (unat n) (unat i)"
    and "flag_addr st i = slot_flag (buffers st) (unat n) (unat i)"
proof -
  have "unat i \<le> 32768" using assms stream_wfD(2) by fastforce
  then show "buffer_addr st i = slot_buf (buffers st) (unat i)"
    by (simp add: buffer_addr_def slot_buf_def unat_mult_buf_size)
  show "metadata_addr st i = slot_meta (buffers st) (unat n) (unat i)"
    using stream_wfD(5) [OF assms(1)]
    by (simp add: metadata_addr_def slot_meta_def OCDP_METADATA_SIZE_def)
  show "flag_addr st i = slot_flag (buffers st) (unat n) (unat i)"
    using stream_wfD(6) [OF assms(1)] by (simp add: flag_addr_def slot_flag_def)
qed

lemma carve_stream_wf:
  assumes "0 < va" and "0 < unat n" and "unat n \<le> 32768"
  shows "stream_wf n (carve_stream va n db)"
  using assms by (simp add: stream_wf_def carve_stream_def unat_mult_buf_size OCDP_METADATA_SIZE_def)

lemma unat_dma_region_bytes:
  assumes "unat n \<le> 32768"
  shows "unat (dma_region_bytes n) = 2068 * unat n"
proof -
  have "2068 * unat n < 2 ^ 32" using assms by simp
  then show ?thesis
    by (simp add: dma_region_bytes_def DMA_BUF_SIZE_def OCDP_METADATA_SIZE_def unat_word_ariths)
qed

lemma stream_next_wf:
  "stream_wf n st \<Longrightarrow> stream_wf n (st\<lparr>buf_index := ring_next n (buf_index st)\<rparr>)"
  by (simp add: stream_wf_def ring_next_bound)

section \<open>Accesses inside a live region succeed\<close>

lemma covered_region:
  assumes "(b, k) \<in> set rs" and "b \<le> a" and "a + n \<le> b + k"
  shows "covered rs a n"
  using assms by (auto simp: covered_def list_ex_iff)

lemma slot_covered:
  assumes "(b, 2068 * N) \<in> set rs" and "i < N"
  shows "l \<le> 2048 \<Longrightarrow> covered rs (slot_buf b i) l"
    and "d + 4 \<le> 16 \<Longrightarrow> covered rs (slot_meta b N i + d) 4"
    and "covered rs (slot_flag b N i) 4"
proof -
  show "covered rs (slot_buf b i) l" if "l \<le> 2048"
    using assms that by (intro covered_region [OF assms(1)]) (auto simp: slot_defs)
  show "covered rs (slot_meta b N i + d) 4" if "d + 4 \<le> 16"
    using assms that by (intro covered_region [OF assms(1)]) (auto simp: slot_defs)
  show "covered rs (slot_flag b N i) 4"
    using assms by (intro covered_region [OF assms(1)]) (auto simp: slot_defs)
qed


text \<open>The accesses to one slot of a stream, in terms of the region's layout.\<close>

lemma stream_accesses:
  assumes wf: "stream_wf (dma_cpu_bufs s) st" and lv: "region_live s st"
  defines "b \<equiv> buffers st" and "N \<equiv> unat (dma_cpu_bufs s)" and "i \<equiv> unat (buf_index st)"
  shows "load32 (flag_addr st (buf_index st)) s = Some (rd32 (kmem s) (slot_flag b N i))"
    and "load32 (metadata_addr st (buf_index st) + META_LENGTH) s
          = Some (rd32 (kmem s) (slot_meta b N i + META_LENGTH))"
    and "load32 (metadata_addr st (buf_index st) + META_OPCODE) s
          = Some (rd32 (kmem s) (slot_meta b N i + META_OPCODE))"
    and "l \<le> 2048 \<Longrightarrow> load_bytes (buffer_addr st (buf_index st)) l s
          = Some (rd_bytes (kmem s) (slot_buf b i) l)"
    and "store32 (flag_addr st (buf_index st)) v s
          = Some (s\<lparr>kmem := slot_release b N v (kmem s) i,
                    bus := bus s @ [MemWr (slot_flag b N i) (le32 v)]\<rparr>)"
proof -
  have lvs: "(b, 2068 * N) \<in> set (live s)" and iN: "i < N"
    using lv wf by (auto simp: b_def N_def i_def region_live_def stream_wf_def)
  note cov = slot_covered [OF lvs iN]
    and addrs = stream_addrs [OF wf stream_wfD(3) [OF wf], folded b_def N_def i_def]
  show "load32 (flag_addr st (buf_index st)) s = Some (rd32 (kmem s) (slot_flag b N i))"
    using cov(3) addrs by (simp add: load32_def)
  show "load32 (metadata_addr st (buf_index st) + META_LENGTH) s
          = Some (rd32 (kmem s) (slot_meta b N i + META_LENGTH))"
    using cov(2) [OF meta_offsets(1)] addrs by (simp add: load32_def)
  show "load32 (metadata_addr st (buf_index st) + META_OPCODE) s
          = Some (rd32 (kmem s) (slot_meta b N i + META_OPCODE))"
    using cov(2) [OF meta_offsets(2)] addrs by (simp add: load32_def)
  show "l \<le> 2048 \<Longrightarrow> load_bytes (buffer_addr st (buf_index st)) l s
          = Some (rd_bytes (kmem s) (slot_buf b i) l)"
    using cov(1) addrs by (simp add: load_bytes_def)
  show "store32 (flag_addr st (buf_index st)) v s
          = Some (s\<lparr>kmem := slot_release b N v (kmem s) i,
                    bus := bus s @ [MemWr (slot_flag b N i) (le32 v)]\<rparr>)"
    using cov(3) addrs by (simp add: store32_def store_bytes_def slot_release_def wr32_def)
qed

text \<open>
  Claim C22.  The streams carved out of a region of up to 32768 slots stay inside it: the
  32-bit size does not overflow, every buffer, metadata record and flag of a slot lies in
  the region, and those of two different slots do not overlap.
\<close>

theorem carved_slots_disjoint:
  fixes db :: addr
  assumes "0 < va" and "unat n \<le> 32768" and "unat i < unat n" and "unat j < unat n" and "i \<noteq> j"
  defines "st \<equiv> carve_stream va n db"
  shows "unat (dma_region_bytes n) = 2068 * unat n \<and>
    va \<le> buffer_addr st i \<and> buffer_addr st i + unat DMA_BUF_SIZE \<le> metadata st \<and>
    metadata_addr st i + OCDP_METADATA_SIZE \<le> flags st \<and>
    flag_addr st i + 4 \<le> va + unat (dma_region_bytes n) \<and>
    apart (buffer_addr st i) (unat DMA_BUF_SIZE) (buffer_addr st j) (unat DMA_BUF_SIZE) \<and>
    apart (metadata_addr st i) OCDP_METADATA_SIZE (metadata_addr st j) OCDP_METADATA_SIZE \<and>
    apart (flag_addr st i) 4 (flag_addr st j) 4"
proof -
  have wf: "stream_wf n st" using assms(1-3) carve_stream_wf by (simp add: st_def)
  have ne: "unat i \<noteq> unat j" using assms(5) by (simp add: word_unat_eq_iff)
  have st: "buffers st = va" by (simp add: st_def carve_stream_def)
  note ai = stream_addrs [OF wf assms(3)] and aj = stream_addrs [OF wf assms(4)]
  have "apart (slot_meta va (unat n) (unat i)) 16 (slot_meta va (unat n) (unat j)) 16"
    using meta_meta_apart [OF ne, of 0 16 0 16] by simp
  then show ?thesis
    using assms(3) stream_wfD(5,6) [OF wf] buf_buf_apart [OF ne] flag_flag_apart [OF ne]
    by (simp add: ai aj st unat_dma_region_bytes [OF assms(2)] DMA_BUF_SIZE_def OCDP_METADATA_SIZE_def)
       (auto simp: slot_defs)
qed

theorem carved_slots_disjoint_witness:
  "unat (dma_region_bytes 32768) = 67764224 \<and>
   apart (buffer_addr (carve_stream 0x1000 32768 0) 32767) 2048 (buffer_addr (carve_stream 0x1000 32768 0) 0) 2048"
  using carved_slots_disjoint [of "0x1000" 32768 32767 0 0] by (simp add: DMA_BUF_SIZE_def)

end
