(* ===== verification/NF10_Xmit.thy ===== *)
theory NF10_Xmit
  imports NF10_State
begin

text \<open>
  The transmit path of \<^verbatim>\<open>nf10_eth_driver_main.c\<close>: \<^verbatim>\<open>nf10_ndo_start_xmit\<close>,
  \<^verbatim>\<open>nf10_ghost_xmit\<close> and \<^verbatim>\<open>get_iface_from_netdev\<close>.  The lemmas show that a
  transmission never leaves the TX region, appends exactly one packet to the ring when a
  slot is free and drops the packet otherwise, frees the packet buffer exactly once and
  publishes a slot only after a barrier.
\<close>

section \<open>Model\<close>

datatype netdev_tx_t = NETDEV_TX_OK | NETDEV_TX_BUSY

fun iface_index :: "addr list \<Rightarrow> addr \<Rightarrow> nat \<Rightarrow> u32" where
  "iface_index [] netdev i = - 1"
| "iface_index (p # ps) netdev i =
     (if p = netdev then word_of_nat i else iface_index ps netdev (Suc i))"

definition get_iface_from_netdev :: "addr \<Rightarrow> nf10 \<Rightarrow> u32" where
  "get_iface_from_netdev netdev s = iface_index (take NUM_NETDEVS (nf10_netdevs s)) netdev 0"

text \<open>
  The loopback rewriting of an IP packet.  The Ethernet header takes 14 bytes; in the IP
  header the header length is the low nibble of byte 0, the checksum stands at byte 10,
  the source address at byte 12 and the destination address at byte 16.
  \<open>ip_fast_csum\<close> is the kernel's; it gets the header bytes and their number of words.
\<close>

definition is_ip_frame :: "bytes \<Rightarrow> bool" where
  "is_ip_frame buf \<longleftrightarrow> buf ! 12 = 0x08 \<and> buf ! 13 = 0x00"

definition ip_header_words :: "bytes \<Rightarrow> nat" where
  "ip_header_words buf = unat (buf ! 14 AND 0x0F)"

definition flip_addr_bits :: "bytes \<Rightarrow> bytes" where
  "flip_addr_bits buf = buf[28 := buf ! 28 XOR 1, 32 := buf ! 32 XOR 1]"

definition switcharoo :: "(bytes \<Rightarrow> nat \<Rightarrow> u16) \<Rightarrow> bytes \<Rightarrow> bytes option" where
  "switcharoo ip_fast_csum buf =
     (if length buf < 14 then None
      else if is_ip_frame buf then
        (if length buf < 34 \<or> length buf < 14 + 4 * ip_header_words buf then None
         else let buf = flip_addr_bits buf;
                  buf = buf[24 := 0, 25 := 0];
                  ihl = ip_header_words buf;
                  check = le16 (ip_fast_csum (take (4 * ihl) (drop 14 buf)) ihl)
              in Some (buf[24 := check ! 0, 25 := check ! 1]))
      else Some buf)"

definition tx_drop :: "sk_buff \<Rightarrow> addr \<Rightarrow> nf10 \<Rightarrow> nf10 option" where
  "tx_drop skb netdev s = do {
     s \<leftarrow> upd_stats netdev (\<lambda>t. t\<lparr>tx_dropped := tx_dropped t + 1\<rparr>) s;
     Some (dev_kfree_skb skb s)
   }"

text \<open>
  \<^verbatim>\<open>memcpy\<close> of the message into the current TX buffer and the two metadata words of it.
\<close>

definition tx_copy_packet :: "bytes \<Rightarrow> u32 \<Rightarrow> u32 \<Rightarrow> nf10 \<Rightarrow> nf10 option" where
  "tx_copy_packet data len opcode s = (let st = tx_dma_stream s; i = buf_index st in
     if unat len \<le> length data then do {
       s \<leftarrow> store_bytes (buffer_addr st i) (take (unat len) data) s;
       s \<leftarrow> store32 (metadata_addr st i + META_LENGTH) len s;
       store32 (metadata_addr st i + META_OPCODE) opcode s
     } else None)"

definition tx_flag :: "nf10 \<Rightarrow> u32 option" where
  "tx_flag s = load32 (flag_addr (tx_dma_stream s) (buf_index (tx_dma_stream s))) s"

definition set_tx_flag :: "u32 \<Rightarrow> nf10 \<Rightarrow> nf10 option" where
  "set_tx_flag v s = store32 (flag_addr (tx_dma_stream s) (buf_index (tx_dma_stream s))) v s"

definition tx_advance :: "nf10 \<Rightarrow> nf10" where
  "tx_advance s = s\<lparr>tx_dma_stream :=
     (tx_dma_stream s)\<lparr>buf_index := ring_next (dma_cpu_bufs s) (buf_index (tx_dma_stream s))\<rparr>\<rparr>"

definition tx_account :: "sk_buff \<Rightarrow> addr \<Rightarrow> nf10 \<Rightarrow> nf10 option" where
  "tx_account skb netdev s = do {
     s \<leftarrow> upd_stats netdev (\<lambda>t. t\<lparr>tx_packets := tx_packets t + 1,
                                 tx_bytes := tx_bytes t + ucast (sk_len skb)\<rparr>) s;
     Some (dev_kfree_skb skb s)
   }"

definition start_clock :: "addr \<Rightarrow> nf10 \<Rightarrow> nf10 option" where
  "start_clock netdev s = upd_netdev netdev (\<lambda>d. d\<lparr>trans_start := jiffies s\<rparr>) s"

definition nf10_ghost_xmit ::
  "(bytes \<Rightarrow> nat \<Rightarrow> u16) \<Rightarrow> sk_buff \<Rightarrow> addr \<Rightarrow> nf10 \<Rightarrow> (netdev_tx_t \<times> nf10) option" where
  "nf10_ghost_xmit ip_fast_csum skb netdev s = (let len = sk_len skb in
     if DMA_BUF_SIZE < len then map_option (Pair NETDEV_TX_OK) (tx_drop skb netdev s)
     else let src_iface = get_iface_from_netdev netdev s in
     if is_neg src_iface then map_option (Pair NETDEV_TX_OK) (tx_drop skb netdev s)
     else let opcode = rx_set_dst_iface 0 (src_iface XOR 1) in do {
       buf \<leftarrow> switcharoo ip_fast_csum (sk_buf skb);
       s \<leftarrow> start_clock netdev s;
       s \<leftarrow> spin_lock s;
       f \<leftarrow> tx_flag s;
       if f = 1 then map_option (Pair NETDEV_TX_OK) (tx_drop skb netdev (spin_unlock s))
       else do {
         s \<leftarrow> tx_copy_packet buf len opcode (mb s);
         s \<leftarrow> set_tx_flag 1 (mb s);
         s \<leftarrow> tx_account skb netdev (spin_unlock (tx_advance (mb s)));
         Some (NETDEV_TX_OK, s)
       }
     })"

definition nf10_ndo_start_xmit ::
  "config \<Rightarrow> (bytes \<Rightarrow> nat \<Rightarrow> u16) \<Rightarrow> sk_buff \<Rightarrow> addr \<Rightarrow> nf10 \<Rightarrow> (netdev_tx_t \<times> nf10) option" where
  "nf10_ndo_start_xmit cfg ip_fast_csum skb netdev s =
    (if DRIVER_GHOST cfg then nf10_ghost_xmit ip_fast_csum skb netdev s
     else let len = sk_len skb in
     if len < NF10_PKT_SIZE_MIN \<or> NF10_PKT_SIZE_MAX < len
     then map_option (Pair NETDEV_TX_OK) (tx_drop skb netdev s)
     else if DMA_BUF_SIZE < len then map_option (Pair NETDEV_TX_OK) (tx_drop skb netdev s)
     else if \<not> (hw_state s AND HW_FOUND \<noteq> 0 \<and> hw_state s AND HW_INIT \<noteq> 0)
     then map_option (Pair NETDEV_TX_OK) (tx_drop skb netdev s)
     else let iface = get_iface_from_netdev netdev s in
     if is_neg iface then map_option (Pair NETDEV_TX_OK) (tx_drop skb netdev s)
     else let opcode = tx_set_src_iface 0 iface in do {
       buf \<leftarrow> (if DRIVER_LOOPB cfg then switcharoo ip_fast_csum (sk_buf skb)
              else Some (sk_buf skb));
       s \<leftarrow> spin_lock s;
       s \<leftarrow> start_clock netdev s;
       f \<leftarrow> tx_flag s;
       if f = 0 then do {
         s \<leftarrow> tx_drop skb netdev s;
         Some (NETDEV_TX_OK, spin_unlock s)
       } else do {
         s \<leftarrow> tx_copy_packet buf len opcode s;
         s \<leftarrow> set_tx_flag 0 (mb s);
         s \<leftarrow> mmio_wr32 (doorbell (tx_dma_stream s)) 1 (mb s);
         s \<leftarrow> tx_account skb netdev (spin_unlock (tx_advance s));
         Some (NETDEV_TX_OK, s)
       }
     })"


section \<open>Invariant of the TX ring\<close>

text \<open>
  \<open>h\<close> is the slot the card reads next and \<open>k\<close> the number of packets it has not yet
  taken; the driver's index stands right behind them.
\<close>

definition tx_packets_queued :: "nf10 \<Rightarrow> nat \<Rightarrow> nat \<Rightarrow> packet list" where
  "tx_packets_queued s h k = (let b = buffers (tx_dma_stream s); N = unat (dma_cpu_bufs s) in
     ring_contents (slot_packet b N) N (kmem s) h k)"

definition tx_ring_inv :: "nf10 \<Rightarrow> nat \<Rightarrow> nat \<Rightarrow> bool" where
  "tx_ring_inv s h k \<longleftrightarrow>
     stream_wf (dma_cpu_bufs s) (tx_dma_stream s) \<and> region_live s (tx_dma_stream s) \<and>
     (let b = buffers (tx_dma_stream s); N = unat (dma_cpu_bufs s) in
      ring_window (tx_full b N) N (kmem s) h k \<and>
      unat (buf_index (tx_dma_stream s)) = ring_slot N h k) \<and>
     list_all fits_slot (tx_packets_queued s h k)"

text \<open>The part of the state that a transmission relies on outside the ring.\<close>

definition tx_ready :: "nf10 \<Rightarrow> addr \<Rightarrow> bool" where
  "tx_ready s netdev \<longleftrightarrow>
     \<not> tx_locked s \<and> netdevs s netdev \<noteq> None \<and>
     covered (mmio_live s) (doorbell (tx_dma_stream s)) 4"

section \<open>Steps of a transmission\<close>

lemma tx_flag_eq:
  assumes "stream_wf (dma_cpu_bufs s) (tx_dma_stream s)" "region_live s (tx_dma_stream s)"
  shows "tx_flag s = Some (rd32 (kmem s) (slot_flag (buffers (tx_dma_stream s))
           (unat (dma_cpu_bufs s)) (unat (buf_index (tx_dma_stream s)))))"
  using assms slot_covered(3) [of "buffers (tx_dma_stream s)" "unat (dma_cpu_bufs s)" "live s"]
  by (simp add: tx_flag_def load32_def stream_addrs stream_wfD region_live_def)

lemma tx_copy_packet_eq:
  assumes wf: "stream_wf (dma_cpu_bufs s) (tx_dma_stream s)"
    and lv: "region_live s (tx_dma_stream s)"
    and "unat len \<le> 2048" "unat len \<le> length data"
  defines "b \<equiv> buffers (tx_dma_stream s)" and "N \<equiv> unat (dma_cpu_bufs s)"
    and "i \<equiv> unat (buf_index (tx_dma_stream s))"
  shows "tx_copy_packet data len opcode s =
    Some (s\<lparr>kmem := wr32 (wr32 (wr_bytes (kmem s) (slot_buf b i) (take (unat len) data))
                     (slot_meta b N i + META_LENGTH) len) (slot_meta b N i + META_OPCODE) opcode,
            bus := bus s @ [MemWr (slot_buf b i) (take (unat len) data),
                            MemWr (slot_meta b N i + META_LENGTH) (le32 len),
                            MemWr (slot_meta b N i + META_OPCODE) (le32 opcode)]\<rparr>)"
proof -
  have lvs: "(b, 2068 * N) \<in> set (live s)" and iN: "i < N"
    using lv wf by (auto simp: b_def N_def i_def region_live_def stream_wf_def)
  note cov = slot_covered [OF lvs iN]
  have "covered (live s) (slot_buf b i) (unat len)"
    using cov(1) assms(3) by simp
  moreover have "covered (live s) (slot_meta b N i + META_LENGTH) 4"
    "covered (live s) (slot_meta b N i + META_OPCODE) 4"
    using cov(2) [OF meta_offsets(1)] cov(2) [OF meta_offsets(2)] by simp_all
  moreover have "buffer_addr (tx_dma_stream s) (buf_index (tx_dma_stream s)) = slot_buf b i"
    "metadata_addr (tx_dma_stream s) (buf_index (tx_dma_stream s)) = slot_meta b N i"
    using stream_addrs [OF wf stream_wfD(3) [OF wf]] by (simp_all add: b_def N_def i_def)
  ultimately show ?thesis
    using assms(4) by (simp add: tx_copy_packet_def Let_def store32_def store_bytes_def wr32_def)
qed

lemma set_tx_flag_eq:
  assumes wf: "stream_wf (dma_cpu_bufs s) (tx_dma_stream s)"
    and lv: "region_live s (tx_dma_stream s)"
  defines "b \<equiv> buffers (tx_dma_stream s)" and "N \<equiv> unat (dma_cpu_bufs s)"
    and "i \<equiv> unat (buf_index (tx_dma_stream s))"
  shows "set_tx_flag v s = Some (s\<lparr>kmem := wr32 (kmem s) (slot_flag b N i) v,
                                   bus := bus s @ [MemWr (slot_flag b N i) (le32 v)]\<rparr>)"
proof -
  have lvs: "(b, 2068 * N) \<in> set (live s)" and iN: "i < N"
    using lv wf by (auto simp: b_def N_def i_def region_live_def stream_wf_def)
  have "flag_addr (tx_dma_stream s) (buf_index (tx_dma_stream s)) = slot_flag b N i"
    using stream_addrs [OF wf stream_wfD(3) [OF wf]] by (simp add: b_def N_def i_def)
  then show ?thesis
    using slot_covered(3) [OF lvs iN]
    by (simp add: set_tx_flag_def store32_def store_bytes_def wr32_def)
qed


section \<open>The complete effect of a call\<close>

definition count_sent :: "sk_buff \<Rightarrow> nf10 \<Rightarrow> net_device \<Rightarrow> net_device" where
  "count_sent skb s d = d\<lparr>trans_start := jiffies s,
     stats := (stats d)\<lparr>tx_packets := tx_packets (stats d) + 1,
                        tx_bytes := tx_bytes (stats d) + ucast (sk_len skb)\<rparr>\<rparr>"

definition count_dropped :: "nf10 \<Rightarrow> net_device \<Rightarrow> net_device" where
  "count_dropped s d = d\<lparr>trans_start := jiffies s,
     stats := (stats d)\<lparr>tx_dropped := tx_dropped (stats d) + 1\<rparr>\<rparr>"

definition sends :: "nf10 \<Rightarrow> sk_buff \<Rightarrow> addr \<Rightarrow> bool" where
  "sends s skb netdev \<longleftrightarrow>
     NF10_PKT_SIZE_MIN \<le> sk_len skb \<and> sk_len skb \<le> NF10_PKT_SIZE_MAX \<and>
     hw_state s AND HW_FOUND \<noteq> 0 \<and> hw_state s AND HW_INIT \<noteq> 0 \<and>
     \<not> is_neg (get_iface_from_netdev netdev s)"

lemma sends_len:
  assumes "sends s skb netdev"
  shows "unat (sk_len skb) \<le> 1514" "\<not> DMA_BUF_SIZE < sk_len skb"
    "\<not> (sk_len skb < NF10_PKT_SIZE_MIN \<or> NF10_PKT_SIZE_MAX < sk_len skb)"
proof -
  show "unat (sk_len skb) \<le> 1514"
    using assms by (simp add: sends_def NF10_PKT_SIZE_MAX_def word_le_nat_alt)
  then show "\<not> DMA_BUF_SIZE < sk_len skb"
    by (simp add: DMA_BUF_SIZE_def word_less_nat_alt)
  show "\<not> (sk_len skb < NF10_PKT_SIZE_MIN \<or> NF10_PKT_SIZE_MAX < sk_len skb)"
    using assms by (simp add: sends_def not_less)
qed

lemma start_xmit_refused:
  assumes "\<not> sends s skb netdev" and "netdevs s netdev = Some d" and "\<not> DRIVER_GHOST cfg"
  shows "nf10_ndo_start_xmit cfg csum skb netdev s =
    Some (NETDEV_TX_OK, s\<lparr>netdevs := (netdevs s)(netdev \<mapsto>
            d\<lparr>stats := (stats d)\<lparr>tx_dropped := tx_dropped (stats d) + 1\<rparr>\<rparr>),
          freed := freed s @ [sk_id skb]\<rparr>)"
proof -
  have "tx_drop skb netdev s = Some (s\<lparr>netdevs := (netdevs s)(netdev \<mapsto>
            d\<lparr>stats := (stats d)\<lparr>tx_dropped := tx_dropped (stats d) + 1\<rparr>\<rparr>),
          freed := freed s @ [sk_id skb]\<rparr>)"
    using assms(2) by (simp add: tx_drop_def upd_stats_def upd_netdev_def dev_kfree_skb_def)
  moreover have "sk_len skb < NF10_PKT_SIZE_MIN \<or> NF10_PKT_SIZE_MAX < sk_len skb \<or>
      \<not> (hw_state s AND HW_FOUND \<noteq> 0 \<and> hw_state s AND HW_INIT \<noteq> 0) \<or>
      is_neg (get_iface_from_netdev netdev s)"
    using assms(1) by (auto simp: sends_def not_le)
  ultimately show ?thesis
    using assms(3) by (auto simp: nf10_ndo_start_xmit_def Let_def)
qed

lemma start_xmit_full:
  assumes "sends s skb netdev" and "netdevs s netdev = Some d"
    and cfg: "\<not> DRIVER_GHOST cfg" "\<not> DRIVER_LOOPB cfg"
    and "\<not> tx_locked s" and "tx_flag s = Some 0"
  shows "nf10_ndo_start_xmit cfg csum skb netdev s =
    Some (NETDEV_TX_OK, s\<lparr>netdevs := (netdevs s)(netdev \<mapsto> count_dropped s d),
                          tx_locked := False, freed := freed s @ [sk_id skb]\<rparr>)"
proof -
  have flag: "tx_flag (s\<lparr>tx_locked := True, netdevs := x\<rparr>) = tx_flag s" for x
    by (simp add: tx_flag_def load32_def)
  note len = sends_len [OF assms(1)]
  show ?thesis
    using assms len flag
    by (simp add: nf10_ndo_start_xmit_def Let_def sends_def spin_lock_def start_clock_def
        upd_netdev_def tx_drop_def upd_stats_def dev_kfree_skb_def spin_unlock_def count_dropped_def)
qed

lemma start_xmit_sent:
  assumes "sends s skb netdev" and "netdevs s netdev = Some d" and "skb_wf skb"
    and cfg: "\<not> DRIVER_GHOST cfg" "\<not> DRIVER_LOOPB cfg"
    and ready: "tx_ready s netdev"
    and wf: "stream_wf (dma_cpu_bufs s) (tx_dma_stream s)" "region_live s (tx_dma_stream s)"
    and free: "tx_flag s \<noteq> Some 0"
  defines "b \<equiv> buffers (tx_dma_stream s)" and "N \<equiv> unat (dma_cpu_bufs s)"
    and "i \<equiv> unat (buf_index (tx_dma_stream s))"
    and "opcode \<equiv> tx_set_src_iface 0 (get_iface_from_netdev netdev s)"
  shows "nf10_ndo_start_xmit cfg csum skb netdev s =
    Some (NETDEV_TX_OK,
      s\<lparr>kmem := slot_fill b N 0 (kmem s) i (sk_data skb, opcode),
        bus := bus s @ [MemWr (slot_buf b i) (sk_data skb),
                        MemWr (slot_meta b N i + META_LENGTH) (le32 (sk_len skb)),
                        MemWr (slot_meta b N i + META_OPCODE) (le32 opcode), Barrier,
                        MemWr (slot_flag b N i) (le32 0), Barrier,
                        MmioWr (doorbell (tx_dma_stream s)) 1],
        tx_dma_stream := (tx_dma_stream s)\<lparr>buf_index :=
                            ring_next (dma_cpu_bufs s) (buf_index (tx_dma_stream s))\<rparr>,
        netdevs := (netdevs s)(netdev \<mapsto> count_sent skb s d),
        tx_locked := False, freed := freed s @ [sk_id skb]\<rparr>)"
proof -
  note len = sends_len [OF assms(1)]
  define s1 where "s1 = s\<lparr>tx_locked := True,
    netdevs := (netdevs s)(netdev \<mapsto> d\<lparr>trans_start := jiffies s\<rparr>)\<rparr>"
  have same: "tx_dma_stream s1 = tx_dma_stream s" "dma_cpu_bufs s1 = dma_cpu_bufs s"
    "kmem s1 = kmem s" "bus s1 = bus s" "live s1 = live s" "mmio_live s1 = mmio_live s"
    by (simp_all add: s1_def)
  have lv1: "region_live s1 (tx_dma_stream s1)" using wf(2) by (simp add: region_live_def same)
  have flag: "tx_flag s1 = tx_flag s"
    by (simp add: tx_flag_def load32_def same)
  have copied: "unat (sk_len skb) \<le> 2048" "unat (sk_len skb) \<le> length (sk_buf skb)"
    using len(1) \<open>skb_wf skb\<close> by (simp_all add: skb_wf_def)
  have lendata: "word_of_nat (length (sk_data skb)) = sk_len skb"
    using copied by (simp add: sk_data_def min_def)
  obtain f where f: "tx_flag s = Some f" "f \<noteq> 0"
    using free tx_flag_eq [OF wf] by auto
  have wf1: "stream_wf (dma_cpu_bufs s1) (tx_dma_stream s1)" using wf(1) by (simp add: same)
  note cp = tx_copy_packet_eq [OF wf1 lv1 copied, of opcode, unfolded same, folded b_def N_def i_def]
  define s2 where "s2 = mb (s1\<lparr>kmem := wr32 (wr32 (wr_bytes (kmem s) (slot_buf b i) (sk_data skb))
        (slot_meta b N i + META_LENGTH) (sk_len skb)) (slot_meta b N i + META_OPCODE) opcode,
      bus := bus s @ [MemWr (slot_buf b i) (sk_data skb),
                      MemWr (slot_meta b N i + META_LENGTH) (le32 (sk_len skb)),
                      MemWr (slot_meta b N i + META_OPCODE) (le32 opcode)]\<rparr>)"
  have wf2: "stream_wf (dma_cpu_bufs s2) (tx_dma_stream s2)" "region_live s2 (tx_dma_stream s2)"
    using wf lv1 by (simp_all add: s2_def mb_def same region_live_def)
  have same2: "tx_dma_stream s2 = tx_dma_stream s" "dma_cpu_bufs s2 = dma_cpu_bufs s"
    by (simp_all add: s2_def mb_def same)
  note fl = set_tx_flag_eq [OF wf2, of 0, unfolded same2, folded b_def N_def i_def]
  show ?thesis
    using assms(1,2) cfg ready len f flag cp fl lendata
    by (simp add: nf10_ndo_start_xmit_def Let_def sends_def spin_lock_def start_clock_def tx_ready_def
        upd_netdev_def s1_def [symmetric] opcode_def [symmetric] sk_data_def [symmetric] s2_def [symmetric])
       (simp add: s2_def s1_def mb_def mmio_wr32_def tx_account_def tx_advance_def upd_stats_def
        upd_netdev_def dev_kfree_skb_def spin_unlock_def slot_fill_def count_sent_def)
qed


section \<open>The TX ring as a bounded queue\<close>

definition packet_of :: "nf10 \<Rightarrow> sk_buff \<Rightarrow> addr \<Rightarrow> packet" where
  "packet_of s skb netdev = (sk_data skb, tx_set_src_iface 0 (get_iface_from_netdev netdev s))"

text \<open>What no transmission changes.\<close>

definition tx_static :: "nf10 \<Rightarrow> nf10 \<Rightarrow> bool" where
  "tx_static s s' \<longleftrightarrow>
     hw_state s' = hw_state s \<and> nf10_netdevs s' = nf10_netdevs s \<and> dma_cpu_bufs s' = dma_cpu_bufs s \<and>
     mmio_live s' = mmio_live s \<and> live s' = live s \<and> dom (netdevs s') = dom (netdevs s) \<and>
     doorbell (tx_dma_stream s') = doorbell (tx_dma_stream s) \<and>
     buffers (tx_dma_stream s') = buffers (tx_dma_stream s) \<and> rx_dma_stream s' = rx_dma_stream s \<and>
     (\<forall>x. x < buffers (tx_dma_stream s) \<or> buffers (tx_dma_stream s) + 2068 * unat (dma_cpu_bufs s) \<le> x \<longrightarrow>
          kmem s' x = kmem s x)"

lemma slot_fill_outside:
  assumes "i < N" and "fits_slot p" and "x < b \<or> b + 2068 * N \<le> x"
  shows "slot_fill b N fv m i p x = m x"
proof -
  have "x < slot_buf b i \<or> slot_buf b i + length (fst p) \<le> x"
    "x < slot_meta b N i + META_LENGTH \<or> slot_meta b N i + META_LENGTH + 4 \<le> x"
    "x < slot_meta b N i + META_OPCODE \<or> slot_meta b N i + META_OPCODE + 4 \<le> x"
    "x < slot_flag b N i \<or> slot_flag b N i + 4 \<le> x"
    using assms by (auto simp: slot_defs fits_slot_def)
  then show ?thesis
    by (simp add: slot_fill_def wr32_other wr_bytes_other)
qed

lemma fits_packet_of:
  assumes "sends s skb netdev"
  shows "fits_slot (packet_of s skb netdev)"
  using sends_len(1) [OF assms] by (simp add: fits_slot_def packet_of_def sk_data_def)

lemma tx_ring_invD:
  assumes "tx_ring_inv s h k"
  shows "stream_wf (dma_cpu_bufs s) (tx_dma_stream s)" "region_live s (tx_dma_stream s)"
    "ring_window (tx_full (buffers (tx_dma_stream s)) (unat (dma_cpu_bufs s))) (unat (dma_cpu_bufs s)) (kmem s) h k"
    "unat (buf_index (tx_dma_stream s)) = ring_slot (unat (dma_cpu_bufs s)) h k"
    "list_all fits_slot (tx_packets_queued s h k)"
  using assms by (simp_all add: tx_ring_inv_def Let_def)

lemma tx_flag_full_iff:
  assumes "tx_ring_inv s h k"
  shows "tx_flag s = Some 0 \<longleftrightarrow> k = unat (dma_cpu_bufs s)"
  using ring_window_producer [OF tx_ring_invD(3) [OF assms]] tx_ring_invD(4) [OF assms]
    tx_flag_eq [OF tx_ring_invD(1,2) [OF assms]]
  by (simp add: tx_full_def)

lemma tx_ring_window_fun: "tx_full b N = (\<lambda>m i. rd32 m (slot_flag b N i) = 0)"
  by (simp add: tx_full_def fun_eq_iff)

lemma tx_slot_filled:
  assumes inv: "tx_ring_inv s h k" and room: "k < unat (dma_cpu_bufs s)" and fits: "fits_slot p"
    and same: "dma_cpu_bufs s' = dma_cpu_bufs s" "live s' = live s"
      "tx_dma_stream s' = (tx_dma_stream s)\<lparr>buf_index :=
         ring_next (dma_cpu_bufs s) (buf_index (tx_dma_stream s))\<rparr>"
    and filled: "kmem s' = slot_fill (buffers (tx_dma_stream s)) (unat (dma_cpu_bufs s)) 0 (kmem s)
         (unat (buf_index (tx_dma_stream s))) p"
  shows "tx_ring_inv s' h (Suc k)" "tx_packets_queued s' h (Suc k) = tx_packets_queued s h k @ [p]"
    "x < buffers (tx_dma_stream s) \<or> buffers (tx_dma_stream s) + 2068 * unat (dma_cpu_bufs s) \<le> x
       \<Longrightarrow> kmem s' x = kmem s x"
proof -
  define b where "b = buffers (tx_dma_stream s)"
  define N where "N = unat (dma_cpu_bufs s)"
  note parts = tx_ring_invD [OF inv, folded b_def N_def]
  have q: "tx_packets_queued s h k = ring_contents (slot_packet b N) N (kmem s) h k"
    by (simp add: tx_packets_queued_def Let_def b_def N_def)
  have mem: "kmem s' = slot_fill b N 0 (kmem s) (ring_slot N h k) p"
    using filled parts(4) by (simp add: b_def N_def)
  note moved = tx_flags.produce [OF parts(3) [unfolded tx_ring_window_fun] room [folded N_def] fits
      parts(5) [unfolded q]]
  have st: "buffers (tx_dma_stream s') = b" "unat (dma_cpu_bufs s') = N"
    by (simp_all add: same b_def N_def)
  show q': "tx_packets_queued s' h (Suc k) = tx_packets_queued s h k @ [p]"
    using moved q by (simp add: tx_packets_queued_def Let_def st mem)
  have idx: "unat (ring_next (dma_cpu_bufs s) (buf_index (tx_dma_stream s))) = ring_slot N h (Suc k)"
    using unat_ring_next [OF stream_wfD(3) [OF parts(1)]] parts(4) by (simp add: N_def Suc_ring_slot)
  show "tx_ring_inv s' h (Suc k)"
    using moved q' parts(1,2,5) fits idx stream_next_wf [OF parts(1)]
    by (simp add: tx_ring_inv_def Let_def mem tx_ring_window_fun same region_live_def b_def N_def)
  show "kmem s' x = kmem s x"
    if "x < buffers (tx_dma_stream s) \<or> buffers (tx_dma_stream s) + 2068 * unat (dma_cpu_bufs s) \<le> x"
    using slot_fill_outside [OF _ fits that [folded b_def N_def], of "ring_slot N h k"] room
    by (simp add: mem N_def)
qed

lemma start_xmit_step:
  assumes inv: "tx_ring_inv s h k" and ready: "tx_ready s netdev" and "skb_wf skb"
    and cfg: "\<not> DRIVER_GHOST cfg" "\<not> DRIVER_LOOPB cfg"
  shows "\<exists>s'. nf10_ndo_start_xmit cfg csum skb netdev s = Some (NETDEV_TX_OK, s') \<and>
     tx_static s s' \<and> tx_ready s' netdev \<and> \<not> tx_locked s' \<and>
     (if sends s skb netdev \<and> k < unat (dma_cpu_bufs s)
      then tx_ring_inv s' h (Suc k) \<and>
           tx_packets_queued s' h (Suc k) = tx_packets_queued s h k @ [packet_of s skb netdev]
      else tx_ring_inv s' h k \<and> tx_packets_queued s' h k = tx_packets_queued s h k)"
proof -
  obtain d where d: "netdevs s netdev = Some d" and unlocked: "\<not> tx_locked s"
    using ready by (auto simp: tx_ready_def)
  note wf = tx_ring_invD(1,2) [OF inv] and win = tx_ring_invD(3) [OF inv]
  consider (refused) "\<not> sends s skb netdev"
    | (full) "sends s skb netdev" "k = unat (dma_cpu_bufs s)"
    | (sent) "sends s skb netdev" "k < unat (dma_cpu_bufs s)"
    using ring_windowD(2) [OF win] by linarith
  then show ?thesis
  proof cases
    case refused
    then show ?thesis
      using start_xmit_refused [OF refused d cfg(1)] inv ready d unlocked
      by (auto simp: tx_static_def tx_ready_def tx_ring_inv_def tx_packets_queued_def Let_def region_live_def)
  next
    case full
    then have "tx_flag s = Some 0" using tx_flag_full_iff [OF inv] by simp
    from start_xmit_full [OF full(1) d cfg unlocked this] full inv ready d show ?thesis
      by (auto simp: tx_static_def tx_ready_def tx_ring_inv_def tx_packets_queued_def Let_def region_live_def)
  next
    case sent
    have "tx_flag s \<noteq> Some 0" using tx_flag_full_iff [OF inv] sent(2) by simp
    note call = start_xmit_sent [OF sent(1) d assms(3) cfg ready wf this]
    have fits: "fits_slot (packet_of s skb netdev)" by (rule fits_packet_of [OF sent(1)])
    let ?s = "s\<lparr>kmem := slot_fill (buffers (tx_dma_stream s)) (unat (dma_cpu_bufs s)) 0 (kmem s)
          (unat (buf_index (tx_dma_stream s))) (packet_of s skb netdev),
        tx_dma_stream := (tx_dma_stream s)\<lparr>buf_index :=
          ring_next (dma_cpu_bufs s) (buf_index (tx_dma_stream s))\<rparr>\<rparr>"
    note step = tx_slot_filled [where s' = ?s, OF inv sent(2) fits, simplified]
    show ?thesis
      using call sent ready d step
      by (auto simp: tx_static_def tx_ready_def tx_ring_inv_def tx_packets_queued_def Let_def region_live_def
          packet_of_def)
  qed
qed

section \<open>Driver and card as one system\<close>

text \<open>
  The driver transmits; the card, whenever it likes, takes the packet of the slot it stands
  at, if that slot is full, and hands the slot back with any non-zero flag.  The abstract
  system is a bounded queue of packets.
\<close>

datatype tx_event = Xmit sk_buff addr | CardTake u32

type_synonym tx_system = "nf10 \<times> nat \<times> packet list"

definition card_take :: "u32 \<Rightarrow> tx_system \<Rightarrow> tx_system" where
  "card_take v = (\<lambda>(s, h, taken). let b = buffers (tx_dma_stream s); N = unat (dma_cpu_bufs s) in
     if tx_full b N (kmem s) h
     then (s\<lparr>kmem := slot_release b N v (kmem s) h\<rparr>, Suc h mod N, taken @ [slot_packet b N (kmem s) h])
     else (s, h, taken))"

fun tx_run :: "config \<Rightarrow> (bytes \<Rightarrow> nat \<Rightarrow> u16) \<Rightarrow> tx_event list \<Rightarrow> tx_system \<Rightarrow> tx_system option" where
  "tx_run cfg csum [] sys = Some sys"
| "tx_run cfg csum (Xmit skb netdev # es) (s, h, taken) =
     (case nf10_ndo_start_xmit cfg csum skb netdev s of
        None \<Rightarrow> None | Some (_, s') \<Rightarrow> tx_run cfg csum es (s', h, taken))"
| "tx_run cfg csum (CardTake v # es) sys = tx_run cfg csum es (card_take v sys)"

fun tx_spec :: "nat \<Rightarrow> (sk_buff \<Rightarrow> addr \<Rightarrow> packet option) \<Rightarrow> tx_event list \<Rightarrow>
    packet list \<times> packet list \<Rightarrow> packet list \<times> packet list" where
  "tx_spec cap offer [] q = q"
| "tx_spec cap offer (Xmit skb netdev # es) (q, taken) =
     (case offer skb netdev of
        Some p \<Rightarrow> tx_spec cap offer es (if length q < cap then q @ [p] else q, taken)
      | None \<Rightarrow> tx_spec cap offer es (q, taken))"
| "tx_spec cap offer (CardTake v # es) (q, taken) =
     (case q of [] \<Rightarrow> tx_spec cap offer es (q, taken)
      | p # q' \<Rightarrow> tx_spec cap offer es (q', taken @ [p]))"

definition offered :: "nf10 \<Rightarrow> sk_buff \<Rightarrow> addr \<Rightarrow> packet option" where
  "offered s skb netdev = (if sends s skb netdev then Some (packet_of s skb netdev) else None)"

fun tx_event_ok :: "nf10 \<Rightarrow> tx_event \<Rightarrow> bool" where
  "tx_event_ok s (Xmit skb netdev) \<longleftrightarrow> skb_wf skb \<and> netdevs s netdev \<noteq> None"
| "tx_event_ok s (CardTake v) \<longleftrightarrow> v \<noteq> 0"

lemma offered_static: "tx_static s s' \<Longrightarrow> offered s' = offered s"
  by (simp add: fun_eq_iff offered_def sends_def packet_of_def tx_static_def get_iface_from_netdev_def)

lemma tx_event_ok_static: "tx_static s s' \<Longrightarrow> tx_event_ok s' e = tx_event_ok s e"
  by (cases e) (auto simp: tx_static_def dom_def)

lemma tx_staticD:
  assumes "tx_static s s'"
  shows "offered s' = offered s" "tx_event_ok s' = tx_event_ok s" "dma_cpu_bufs s' = dma_cpu_bufs s"
    "mmio_live s' = mmio_live s" "doorbell (tx_dma_stream s') = doorbell (tx_dma_stream s)"
  using offered_static [OF assms] tx_event_ok_static [OF assms] assms
  by (simp_all only: fun_eq_iff tx_static_def simp_thms)

lemma tx_static_trans: "tx_static s s' \<Longrightarrow> tx_static s' s'' \<Longrightarrow> tx_static s s''"
  by (auto simp: tx_static_def)

lemma length_tx_packets_queued [simp]: "length (tx_packets_queued s h k) = k"
  by (simp add: tx_packets_queued_def Let_def)

lemma slot_release_outside:
  "i < N \<Longrightarrow> x < b \<or> b + 2068 * N \<le> x \<Longrightarrow> slot_release b N v m i x = m x"
  by (auto simp: slot_release_def slot_defs intro!: wr32_other)

lemma card_take_step:
  assumes inv: "tx_ring_inv s h k" and "v \<noteq> 0"
    and take: "card_take v (s, h, taken) = (s', h', taken')"
  shows "tx_static s s' \<and> tx_locked s' = tx_locked s \<and>
    (if k = 0 then s' = s \<and> h' = h \<and> taken' = taken
     else tx_ring_inv s' h' (k - 1) \<and>
          taken' = taken @ [hd (tx_packets_queued s h k)] \<and>
          tx_packets_queued s' h' (k - 1) = tl (tx_packets_queued s h k))"
proof -
  define b where "b = buffers (tx_dma_stream s)"
  define N where "N = unat (dma_cpu_bufs s)"
  have fc: "flag_convention (\<lambda>f. f = 0) 0 v" using \<open>v \<noteq> 0\<close> by unfold_locales simp_all
  note win = tx_ring_invD(3) [OF inv, folded b_def N_def]
  have hN: "h < N" by (rule ring_windowD(1) [OF win])
  show ?thesis
  proof (cases k)
    case 0
    then have "\<not> tx_full b N (kmem s) h" using ring_window_consumer [OF win] by simp
    then show ?thesis using take 0 by (simp add: card_take_def b_def N_def tx_static_def)
  next
    case (Suc k')
    then have full: "tx_full b N (kmem s) h" using ring_window_consumer [OF win] by simp
    have s': "s' = s\<lparr>kmem := slot_release b N v (kmem s) h\<rparr>" "h' = Suc h mod N"
      "taken' = taken @ [slot_packet b N (kmem s) h]"
      using take full by (simp_all add: card_take_def b_def N_def Let_def)
    have q: "tx_packets_queued s h k = ring_contents (slot_packet b N) N (kmem s) h (Suc k')"
      by (simp add: tx_packets_queued_def b_def N_def Let_def Suc)
    have fits: "list_all fits_slot (ring_contents (slot_packet b N) N (kmem s) h (Suc k'))"
      using tx_ring_invD(5) [OF inv] q by simp
    note moved = flag_convention.consume [OF fc win [unfolded Suc tx_ring_window_fun] fits]
    have "list_all fits_slot (tl (ring_contents (slot_packet b N) N (kmem s) h (Suc k')))"
      by (rule list_all_tl [OF fits])
    moreover have "hd (ring_contents (slot_packet b N) N (kmem s) h (Suc k'))
        = slot_packet b N (kmem s) h"
      by (simp add: ring_contents_Suc_front [OF hN])
    ultimately show ?thesis
      using s' moved q tx_ring_invD(1,2,4) [OF inv] Suc slot_release_outside [OF hN]
      by (simp add: tx_ring_inv_def tx_packets_queued_def tx_static_def region_live_def Let_def
          b_def [symmetric] N_def [symmetric] tx_ring_window_fun ring_slot_Suc)
  qed
qed



end
