(* ===== verification/NF10_Poll.thy ===== *)
theory NF10_Poll
  imports NF10_State
begin

text \<open>
  The receive path of \<^verbatim>\<open>nf10_eth_driver_main.c\<close>: the timer callback
  \<^verbatim>\<open>rx_poll_timer_cb\<close> and the NAPI function \<^verbatim>\<open>nf10_napi_struct_poll\<close>.  The card may
  act before every test of the loop; what it does there is the argument \<open>dev\<close>, indexed by
  the number of loop tests made so far.  The result of the loop is \<^term>\<open>None\<close> when it
  never returns and \<^term>\<open>Some None\<close> when it faults.
\<close>

section \<open>Model\<close>

text \<open>
  The kernel functions the receive path calls: \<^verbatim>\<open>dev_alloc_skb\<close>, which may fail at any
  time, and \<^verbatim>\<open>eth_type_trans\<close>, which strips the Ethernet header of the packet buffer and
  returns its protocol.
\<close>

record kernel_rx =
  dev_alloc_skb :: "nat \<Rightarrow> u32 \<Rightarrow> nat option"
  eth_type_trans :: "sk_buff \<Rightarrow> addr \<Rightarrow> u16 \<times> sk_buff"

definition rx_flag :: "nf10 \<Rightarrow> u32 option" where
  "rx_flag s = load32 (flag_addr (rx_dma_stream s) (buf_index (rx_dma_stream s))) s"

definition set_rx_flag :: "u32 \<Rightarrow> nf10 \<Rightarrow> nf10 option" where
  "set_rx_flag v s = store32 (flag_addr (rx_dma_stream s) (buf_index (rx_dma_stream s))) v s"

definition rx_ring_doorbell :: "config \<Rightarrow> nf10 \<Rightarrow> nf10 option" where
  "rx_ring_doorbell cfg s =
     (if DRIVER_GHOST cfg then Some s else mmio_wr32 (doorbell (rx_dma_stream s)) 1 s)"

definition rx_advance :: "nf10 \<Rightarrow> nf10" where
  "rx_advance s = s\<lparr>rx_dma_stream :=
     (rx_dma_stream s)\<lparr>buf_index := ring_next (dma_cpu_bufs s) (buf_index (rx_dma_stream s))\<rparr>\<rparr>"

definition napi_schedule :: "nf10 \<Rightarrow> nf10" where
  "napi_schedule s = s\<lparr>napi_scheduled := True\<rparr>"

definition napi_complete :: "nf10 \<Rightarrow> nf10" where
  "napi_complete s = s\<lparr>napi_scheduled := False\<rparr>"

text \<open>The callback runs when the timer has fired, so the timer is no longer pending.\<close>

definition rx_poll_timer_cb :: "nf10 \<Rightarrow> nf10 option" where
  "rx_poll_timer_cb s = do {
     f \<leftarrow> rx_flag s;
     if f = 1 then Some (napi_schedule s)
     else add_timer (s\<lparr>timer_expires := timer_expires s + RX_POLL_INTERVAL\<rparr>)
   }"

definition netdev_at :: "u32 \<Rightarrow> nf10 \<Rightarrow> addr option" where
  "netdev_at iface s =
     (if unat iface < length (nf10_netdevs s) then Some (nf10_netdevs s ! unat iface) else None)"

text \<open>The packet buffer that is handed to the network stack.\<close>

definition rx_skb :: "config \<Rightarrow> kernel_rx \<Rightarrow> nat \<Rightarrow> bytes \<Rightarrow> addr \<Rightarrow> sk_buff" where
  "rx_skb cfg k sid data netdev =
     (let skb = \<lparr>sk_id = sid, sk_buf = data, sk_len = word_of_nat (length data),
                 sk_dev = netdev, sk_protocol = 0, sk_csum_unnecessary = False\<rparr>;
          (protocol, skb) = eth_type_trans k skb netdev;
          skb = skb\<lparr>sk_protocol := protocol\<rparr>
      in if DRIVER_GHOST cfg \<or> DRIVER_LOOPB cfg then skb\<lparr>sk_csum_unnecessary := True\<rparr> else skb)"

definition netif_receive_skb :: "sk_buff \<Rightarrow> nf10 \<Rightarrow> nf10" where
  "netif_receive_skb skb s = s\<lparr>received := received s @ [skb]\<rparr>"

text \<open>
  One turn of the loop, on a slot whose flag is 1: no interface in the opcode, no memory,
  or a packet for the stack.  The Boolean says whether \<open>n_rx\<close> is incremented.
\<close>

definition poll_no_iface :: "config \<Rightarrow> nf10 \<Rightarrow> (bool \<times> nf10) option" where
  "poll_no_iface cfg s = do {
     s \<leftarrow> set_rx_flag 0 (mb s);
     s \<leftarrow> rx_ring_doorbell cfg (mb s);
     Some (False, rx_advance s)
   }"

definition poll_no_skb :: "config \<Rightarrow> u32 \<Rightarrow> nf10 \<Rightarrow> (bool \<times> nf10) option" where
  "poll_no_skb cfg dst_iface s = do {
     s \<leftarrow> set_rx_flag 0 (mb s);
     s \<leftarrow> rx_ring_doorbell cfg s;
     netdev \<leftarrow> netdev_at dst_iface (rx_advance s);
     s \<leftarrow> upd_stats netdev (\<lambda>t. t\<lparr>rx_dropped := rx_dropped t + 1\<rparr>) (rx_advance s);
     Some (False, s)
   }"

definition poll_deliver :: "config \<Rightarrow> kernel_rx \<Rightarrow> nat \<Rightarrow> u32 \<Rightarrow> u32 \<Rightarrow> nf10 \<Rightarrow> (bool \<times> nf10) option" where
  "poll_deliver cfg k sid dst_iface len s = do {
     data \<leftarrow> load_bytes (buffer_addr (rx_dma_stream s) (buf_index (rx_dma_stream s))) (unat len) s;
     netdev \<leftarrow> netdev_at dst_iface s;
     s \<leftarrow> upd_stats netdev (\<lambda>t. t\<lparr>rx_packets := rx_packets t + 1, rx_bytes := rx_bytes t + ucast len\<rparr>)
           (netif_receive_skb (rx_skb cfg k sid data netdev) s);
     s \<leftarrow> set_rx_flag 0 (mb s);
     s \<leftarrow> rx_ring_doorbell cfg s;
     Some (True, rx_advance (mb s))
   }"

definition poll_packet :: "config \<Rightarrow> kernel_rx \<Rightarrow> nat \<Rightarrow> nf10 \<Rightarrow> (bool \<times> nf10) option" where
  "poll_packet cfg k n s = (let meta = metadata_addr (rx_dma_stream s) (buf_index (rx_dma_stream s)) in
     do {
       opcode \<leftarrow> load32 (meta + META_OPCODE) s;
       let dst_iface = rx_get_dst_iface opcode;
       if is_neg dst_iface then poll_no_iface cfg s
       else do {
         len \<leftarrow> load32 (meta + META_LENGTH) s;
         (case dev_alloc_skb k n len of
            None \<Rightarrow> poll_no_skb cfg dst_iface s
          | Some sid \<Rightarrow> poll_deliver cfg k sid dst_iface len s)
       }
     })"

partial_function (option) poll_loop ::
  "config \<Rightarrow> kernel_rx \<Rightarrow> (nat \<Rightarrow> nf10 \<Rightarrow> nf10) \<Rightarrow> int \<Rightarrow> nat \<Rightarrow> int \<Rightarrow> nf10 \<Rightarrow> (int \<times> nat \<times> nf10) option option"
where
  "poll_loop cfg k dev budget n n_rx s =
     (if n_rx < budget then
        (case rx_flag (dev n s) of
           None \<Rightarrow> Some None
         | Some f \<Rightarrow>
             if f = 1 then
               (case poll_packet cfg k n (dev n s) of
                  None \<Rightarrow> Some None
                | Some (d, s') \<Rightarrow> poll_loop cfg k dev budget (Suc n) (if d then n_rx + 1 else n_rx) s')
             else Some (Some (n_rx, Suc n, dev n s)))
      else Some (Some (n_rx, n, s)))"

text \<open>After the loop: the flag is read once more, and the timer restarted if it is 0.\<close>

definition poll_end :: "int \<Rightarrow> nf10 \<Rightarrow> (int \<times> nf10) option" where
  "poll_end n_rx s = do {
     f \<leftarrow> rx_flag s;
     if f = 0 then do {
       s \<leftarrow> add_timer ((napi_complete s)\<lparr>timer_expires := jiffies s + RX_POLL_INTERVAL\<rparr>);
       Some (0, s)
     } else Some (n_rx, s)
   }"

definition nf10_napi_struct_poll ::
  "config \<Rightarrow> kernel_rx \<Rightarrow> (nat \<Rightarrow> nf10 \<Rightarrow> nf10) \<Rightarrow> int \<Rightarrow> nf10 \<Rightarrow> (int \<times> nf10) option option" where
  "nf10_napi_struct_poll cfg k dev budget s =
     map_option (\<lambda>r. case r of None \<Rightarrow> None | Some (n_rx, n, s) \<Rightarrow> poll_end n_rx (dev n s))
       (poll_loop cfg k dev budget 0 0 s)"


section \<open>Invariant of the RX ring\<close>

text \<open>
  The driver is the consumer: it stands at its own index and the next \<open>k\<close> slots hold
  packets of the card.
\<close>

definition rx_packets_queued :: "nf10 \<Rightarrow> nat \<Rightarrow> packet list" where
  "rx_packets_queued s k =
     ring_contents (slot_packet (buffers (rx_dma_stream s)) (unat (dma_cpu_bufs s)))
       (unat (dma_cpu_bufs s)) (kmem s) (unat (buf_index (rx_dma_stream s))) k"

definition rx_flags_binary :: "nf10 \<Rightarrow> bool" where
  "rx_flags_binary s \<longleftrightarrow> (\<forall>i<unat (dma_cpu_bufs s).
     rd32 (kmem s) (slot_flag (buffers (rx_dma_stream s)) (unat (dma_cpu_bufs s)) i) \<in> {0, 1})"

definition rx_ring_inv :: "nf10 \<Rightarrow> nat \<Rightarrow> bool" where
  "rx_ring_inv s k \<longleftrightarrow>
     stream_wf (dma_cpu_bufs s) (rx_dma_stream s) \<and> region_live s (rx_dma_stream s) \<and>
     ring_window (\<lambda>m i. rd32 m (slot_flag (buffers (rx_dma_stream s)) (unat (dma_cpu_bufs s)) i) = 1)
       (unat (dma_cpu_bufs s)) (kmem s) (unat (buf_index (rx_dma_stream s))) k \<and>
     rx_flags_binary s \<and> list_all fits_slot (rx_packets_queued s k)"

text \<open>The four network devices exist, and the doorbell is mapped unless ghosting.\<close>

definition rx_ready :: "config \<Rightarrow> nf10 \<Rightarrow> bool" where
  "rx_ready cfg s \<longleftrightarrow>
     (DRIVER_GHOST cfg \<or> covered (mmio_live s) (doorbell (rx_dma_stream s)) 4) \<and>
     length (nf10_netdevs s) = NUM_NETDEVS \<and> list_all (\<lambda>p. netdevs s p \<noteq> None) (nf10_netdevs s)"

text \<open>The slot behind the queue, where the card puts its next packet.\<close>

definition rx_card_slot :: "nf10 \<Rightarrow> nat \<Rightarrow> nat" where
  "rx_card_slot s k = ring_slot (unat (dma_cpu_bufs s)) (unat (buf_index (rx_dma_stream s))) k"

lemma length_rx_packets_queued [simp]: "length (rx_packets_queued s k) = k"
  by (simp add: rx_packets_queued_def)

lemma rx_ring_invD:
  assumes "rx_ring_inv s k"
  shows "stream_wf (dma_cpu_bufs s) (rx_dma_stream s)" "region_live s (rx_dma_stream s)"
    "ring_window (\<lambda>m i. rd32 m (slot_flag (buffers (rx_dma_stream s)) (unat (dma_cpu_bufs s)) i) = 1)
       (unat (dma_cpu_bufs s)) (kmem s) (unat (buf_index (rx_dma_stream s))) k"
    "rx_flags_binary s" "list_all fits_slot (rx_packets_queued s k)"
  using assms by (simp_all add: rx_ring_inv_def)

lemma rx_ring_inv_frame [simp]:
  "rx_ring_inv (s\<lparr>netdevs := d\<rparr>) k = rx_ring_inv s k"
  "rx_ring_inv (s\<lparr>received := r\<rparr>) k = rx_ring_inv s k"
  "rx_ring_inv (s\<lparr>timer_pending := t\<rparr>) k = rx_ring_inv s k"
  "rx_ring_inv (s\<lparr>timer_expires := e\<rparr>) k = rx_ring_inv s k"
  "rx_ring_inv (s\<lparr>napi_scheduled := b\<rparr>) k = rx_ring_inv s k"
  by (simp_all add: rx_ring_inv_def rx_packets_queued_def rx_flags_binary_def region_live_def)

lemma rx_packets_queued_frame [simp]:
  "rx_packets_queued (s\<lparr>netdevs := d\<rparr>) k = rx_packets_queued s k"
  "rx_packets_queued (s\<lparr>received := r\<rparr>) k = rx_packets_queued s k"
  "rx_packets_queued (s\<lparr>timer_pending := t\<rparr>) k = rx_packets_queued s k"
  "rx_packets_queued (s\<lparr>timer_expires := e\<rparr>) k = rx_packets_queued s k"
  "rx_packets_queued (s\<lparr>napi_scheduled := b\<rparr>) k = rx_packets_queued s k"
  by (simp_all add: rx_packets_queued_def)

lemma rx_card_slot_frame [simp]:
  "rx_card_slot (s\<lparr>netdevs := d\<rparr>) k = rx_card_slot s k"
  "rx_card_slot (s\<lparr>received := r\<rparr>) k = rx_card_slot s k"
  "rx_card_slot (s\<lparr>timer_pending := t\<rparr>) k = rx_card_slot s k"
  "rx_card_slot (s\<lparr>timer_expires := e\<rparr>) k = rx_card_slot s k"
  "rx_card_slot (s\<lparr>napi_scheduled := b\<rparr>) k = rx_card_slot s k"
  by (simp_all add: rx_card_slot_def)

lemma rx_flag_eq:
  assumes "rx_ring_inv s k"
  shows "rx_flag s = Some (if k = 0 then 0 else 1)"
proof -
  let ?f = "rd32 (kmem s) (slot_flag (buffers (rx_dma_stream s)) (unat (dma_cpu_bufs s))
             (unat (buf_index (rx_dma_stream s))))"
  note inv = rx_ring_invD [OF assms]
  have "?f \<in> {0, 1}"
    using inv(4) stream_wfD(3) [OF inv(1)] by (auto simp: rx_flags_binary_def)
  then show ?thesis
    using stream_accesses(1) [OF inv(1,2)] ring_window_consumer [OF inv(3)]
    by (auto simp: rx_flag_def)
qed

section \<open>One turn of the loop\<close>

text \<open>The slot at the driver's index goes back to the card.\<close>

definition rx_consumed :: "bus_event list \<Rightarrow> nf10 \<Rightarrow> nf10" where
  "rx_consumed evs s = rx_advance (s\<lparr>
     kmem := slot_release (buffers (rx_dma_stream s)) (unat (dma_cpu_bufs s)) 0 (kmem s)
               (unat (buf_index (rx_dma_stream s))),
     bus := bus s @ evs\<rparr>)"

definition rx_flag_cleared :: "nf10 \<Rightarrow> bus_event" where
  "rx_flag_cleared s = MemWr (slot_flag (buffers (rx_dma_stream s)) (unat (dma_cpu_bufs s))
                               (unat (buf_index (rx_dma_stream s)))) (le32 0)"

definition rx_doorbell_rung :: "config \<Rightarrow> nf10 \<Rightarrow> bus_event list" where
  "rx_doorbell_rung cfg s =
     (if DRIVER_GHOST cfg then [] else [MmioWr (doorbell (rx_dma_stream s)) 1])"

lemma slot_release_binary:
  assumes "\<forall>i<N. rd32 m (slot_flag b N i) \<in> {0, 1}" and "v \<in> {0, 1}"
  shows "\<forall>i<N. rd32 (slot_release b N v m j) (slot_flag b N i) \<in> {0, 1}"
  using assms by (simp add: flag_after_release)

lemma rx_consumed_step:
  assumes inv: "rx_ring_inv s (Suc k)"
  shows "rx_ring_inv (rx_consumed evs s) k"
    and "rx_packets_queued (rx_consumed evs s) k = tl (rx_packets_queued s (Suc k))"
    and "rx_card_slot (rx_consumed evs s) k = rx_card_slot s (Suc k)"
proof -
  define b where "b = buffers (rx_dma_stream s)"
  define N where "N = unat (dma_cpu_bufs s)"
  define i where "i = unat (buf_index (rx_dma_stream s))"
  note parts = rx_ring_invD [OF inv, folded b_def N_def i_def]
  have q: "rx_packets_queued s (Suc k) = ring_contents (slot_packet b N) N (kmem s) i (Suc k)"
    by (simp add: rx_packets_queued_def b_def N_def i_def)
  note moved = rx_flags.consume [OF parts(3) parts(5) [unfolded q]]
  have nxt: "unat (ring_next (dma_cpu_bufs s) (buf_index (rx_dma_stream s))) = Suc i mod N"
    using unat_ring_next [OF stream_wfD(3) [OF parts(1)]] by (simp add: N_def i_def)
  show tl: "rx_packets_queued (rx_consumed evs s) k = tl (rx_packets_queued s (Suc k))"
    using moved q nxt
    by (simp add: rx_packets_queued_def rx_consumed_def rx_advance_def b_def N_def i_def)
  show "rx_card_slot (rx_consumed evs s) k = rx_card_slot s (Suc k)"
    using nxt by (simp add: rx_card_slot_def rx_consumed_def rx_advance_def ring_slot_Suc N_def i_def)
  have "rx_flags_binary (rx_consumed evs s)"
    using slot_release_binary [of N "kmem s" b 0 i] parts(4)
    by (simp add: rx_flags_binary_def rx_consumed_def rx_advance_def b_def N_def i_def)
  moreover have "list_all fits_slot (rx_packets_queued (rx_consumed evs s) k)"
    using list_all_tl [OF parts(5)] tl by simp
  ultimately show "rx_ring_inv (rx_consumed evs s) k"
    using moved nxt stream_next_wf [OF parts(1)] parts(2)
    by (simp add: rx_ring_inv_def rx_consumed_def rx_advance_def region_live_def b_def N_def i_def)
qed


lemma set_rx_flag_eq:
  assumes "stream_wf (dma_cpu_bufs s) (rx_dma_stream s)" "region_live s (rx_dma_stream s)"
  shows "set_rx_flag v s = Some (s\<lparr>
     kmem := slot_release (buffers (rx_dma_stream s)) (unat (dma_cpu_bufs s)) v (kmem s)
               (unat (buf_index (rx_dma_stream s))),
     bus := bus s @ [MemWr (slot_flag (buffers (rx_dma_stream s)) (unat (dma_cpu_bufs s))
                               (unat (buf_index (rx_dma_stream s)))) (le32 v)]\<rparr>)"
  using stream_accesses(5) [OF assms] by (simp add: set_rx_flag_def)

lemma rx_ring_doorbell_eq:
  assumes "DRIVER_GHOST cfg \<or> covered (mmio_live s) (doorbell (rx_dma_stream s)) 4"
  shows "rx_ring_doorbell cfg s = Some (s\<lparr>bus := bus s @ rx_doorbell_rung cfg s\<rparr>)"
  using assms by (auto simp: rx_ring_doorbell_def mmio_wr32_def rx_doorbell_rung_def)

lemmas rx_effect_simps = set_rx_flag_eq rx_ring_doorbell_eq mb_def rx_consumed_def
  rx_flag_cleared_def rx_doorbell_rung_def rx_advance_def region_live_def

lemma poll_no_iface_eq:
  assumes "stream_wf (dma_cpu_bufs s) (rx_dma_stream s)" "region_live s (rx_dma_stream s)"
    and "rx_ready cfg s"
  shows "poll_no_iface cfg s = Some (False,
    rx_consumed ([Barrier, rx_flag_cleared s, Barrier] @ rx_doorbell_rung cfg s) s)"
  using assms by (simp add: poll_no_iface_def rx_ready_def rx_effect_simps)

lemma rx_ready_netdev:
  assumes "rx_ready cfg s" and "\<not> is_neg (rx_get_dst_iface opcode)"
  obtains d where "netdev_at (rx_get_dst_iface opcode) s
      = Some (nf10_netdevs s ! unat (rx_get_dst_iface opcode))"
    and "netdevs s (nf10_netdevs s ! unat (rx_get_dst_iface opcode)) = Some d"
proof -
  have "unat (rx_get_dst_iface opcode) < 4"
    using assms(2) rx_get_dst_iface_range [of opcode] by (auto simp: word_less_nat_alt)
  then have "unat (rx_get_dst_iface opcode) < length (nf10_netdevs s)"
    using assms(1) by (simp add: rx_ready_def NUM_NETDEVS_def)
  then show ?thesis
    using assms(1) that by (auto simp: rx_ready_def netdev_at_def list_all_length)
qed


text \<open>
  What the stack gets from a packet: nothing when its opcode names no interface or no
  memory is left, one packet buffer for the device of the interface otherwise.
\<close>

definition delivery :: "config \<Rightarrow> kernel_rx \<Rightarrow> addr list \<Rightarrow> nat \<Rightarrow> packet \<Rightarrow> sk_buff list" where
  "delivery cfg k devs n p =
     (if is_neg (rx_get_dst_iface (snd p)) then []
      else case dev_alloc_skb k n (word_of_nat (length (fst p))) of
        None \<Rightarrow> []
      | Some sid \<Rightarrow> [rx_skb cfg k sid (fst p) (devs ! unat (rx_get_dst_iface (snd p)))])"

text \<open>What no turn of the loop changes.\<close>

definition rx_static :: "nf10 \<Rightarrow> nf10 \<Rightarrow> bool" where
  "rx_static s s' \<longleftrightarrow>
     nf10_netdevs s' = nf10_netdevs s \<and> dma_cpu_bufs s' = dma_cpu_bufs s \<and>
     mmio_live s' = mmio_live s \<and> live s' = live s \<and> dom (netdevs s') = dom (netdevs s) \<and>
     doorbell (rx_dma_stream s') = doorbell (rx_dma_stream s) \<and>
     buffers (rx_dma_stream s') = buffers (rx_dma_stream s) \<and> tx_dma_stream s' = tx_dma_stream s \<and>
     timer_pending s' = timer_pending s \<and> napi_scheduled s' = napi_scheduled s \<and>
     jiffies s' = jiffies s \<and> tx_locked s' = tx_locked s \<and> freed s' = freed s \<and>
     (\<forall>x. x < buffers (rx_dma_stream s) \<or> buffers (rx_dma_stream s) + 2068 * unat (dma_cpu_bufs s) \<le> x \<longrightarrow>
          kmem s' x = kmem s x)"

lemma rx_static_refl [simp]: "rx_static s s"
  by (simp add: rx_static_def)

lemma rx_static_trans: "rx_static s s' \<Longrightarrow> rx_static s' s'' \<Longrightarrow> rx_static s s''"
  by (auto simp: rx_static_def)

lemma rx_ready_static:
  assumes "rx_static s s'"
  shows "rx_ready cfg s' \<longleftrightarrow> rx_ready cfg s"
proof -
  have "netdevs s' p \<noteq> None \<longleftrightarrow> netdevs s p \<noteq> None" for p
    using assms by (auto simp: rx_static_def dom_def set_eq_iff)
  then show ?thesis using assms by (simp add: rx_ready_def rx_static_def)
qed

lemma rx_consumed_static:
  assumes "rx_ring_inv s k"
  shows "rx_static s (rx_consumed evs s)"
proof -
  have "unat (buf_index (rx_dma_stream s)) < unat (dma_cpu_bufs s)"
    by (rule stream_wfD(3) [OF rx_ring_invD(1) [OF assms]])
  then show ?thesis
    by (auto simp: rx_static_def rx_consumed_def rx_advance_def slot_release_def slot_defs
        intro!: wr32_other)
qed

lemma rx_static_upd:
  assumes "rx_static s s'" and "netdevs s p \<noteq> None"
  shows "rx_static s (s'\<lparr>netdevs := (netdevs s')(p \<mapsto> d)\<rparr>)" "rx_static s (s'\<lparr>received := r\<rparr>)"
    "rx_static s (s'\<lparr>netdevs := (netdevs s')(p \<mapsto> d), received := r\<rparr>)"
  using assms by (auto simp: rx_static_def dom_def)

lemma rx_consumed_commute:
  "rx_consumed evs (s\<lparr>netdevs := d\<rparr>) = (rx_consumed evs s)\<lparr>netdevs := d\<rparr>"
  "rx_consumed evs (s\<lparr>received := r\<rparr>) = (rx_consumed evs s)\<lparr>received := r\<rparr>"
  by (simp_all add: rx_consumed_def rx_advance_def)

lemma rx_consumed_fields [simp]:
  "netdevs (rx_consumed evs s) = netdevs s" "received (rx_consumed evs s) = received s"
  "nf10_netdevs (rx_consumed evs s) = nf10_netdevs s" "bus (rx_consumed evs s) = bus s @ evs"
  by (simp_all add: rx_consumed_def rx_advance_def)

lemma poll_no_skb_eq:
  assumes "stream_wf (dma_cpu_bufs s) (rx_dma_stream s)" "region_live s (rx_dma_stream s)"
    and "rx_ready cfg s" and "netdev_at iface s = Some p" and "netdevs s p = Some d"
  shows "poll_no_skb cfg iface s = Some (False,
    (rx_consumed ([Barrier, rx_flag_cleared s] @ rx_doorbell_rung cfg s) s)
      \<lparr>netdevs := (netdevs s)(p \<mapsto> d\<lparr>stats := (stats d)\<lparr>rx_dropped := rx_dropped (stats d) + 1\<rparr>\<rparr>)\<rparr>)"
  using assms
  by (simp add: poll_no_skb_def rx_ready_def rx_effect_simps netdev_at_def upd_stats_def upd_netdev_def
      split: if_splits)

lemma poll_deliver_eq:
  assumes "stream_wf (dma_cpu_bufs s) (rx_dma_stream s)" "region_live s (rx_dma_stream s)"
    and "rx_ready cfg s" and "netdev_at iface s = Some p" and "netdevs s p = Some d"
    and "unat len \<le> 2048"
  shows "poll_deliver cfg k sid iface len s = Some (True,
    (rx_consumed ([Barrier, rx_flag_cleared s] @ rx_doorbell_rung cfg s @ [Barrier]) s)
      \<lparr>netdevs := (netdevs s)(p \<mapsto> d\<lparr>stats := (stats d)\<lparr>rx_packets := rx_packets (stats d) + 1,
                     rx_bytes := rx_bytes (stats d) + ucast len\<rparr>\<rparr>),
       received := received s @ [rx_skb cfg k sid (rd_bytes (kmem s) (slot_buf (buffers (rx_dma_stream s))
                     (unat (buf_index (rx_dma_stream s)))) (unat len)) p]\<rparr>)"
  using assms stream_accesses(4) [OF assms(1,2,6)]
  by (simp add: poll_deliver_def rx_ready_def rx_effect_simps upd_stats_def upd_netdev_def
      netif_receive_skb_def)

lemma poll_packet_step:
  assumes inv: "rx_ring_inv s (Suc k)" and ready: "rx_ready cfg s"
  defines "p \<equiv> hd (rx_packets_queued s (Suc k))"
  shows "\<exists>s'. poll_packet cfg kr n s = Some (delivery cfg kr (nf10_netdevs s) n p \<noteq> [], s') \<and>
     rx_ring_inv s' k \<and> rx_packets_queued s' k = tl (rx_packets_queued s (Suc k)) \<and>
     received s' = received s @ delivery cfg kr (nf10_netdevs s) n p \<and> rx_static s s' \<and>
     rx_card_slot s' k = rx_card_slot s (Suc k)"
proof -
  note parts = rx_ring_invD [OF inv]
  note acc = stream_accesses [OF parts(1,2)]
  note step = rx_consumed_step [OF inv] and static = rx_consumed_static [OF inv]
  have iN: "unat (buf_index (rx_dma_stream s)) < unat (dma_cpu_bufs s)"
    by (rule stream_wfD(3) [OF parts(1)])
  have p: "p = slot_packet (buffers (rx_dma_stream s)) (unat (dma_cpu_bufs s)) (kmem s)
                 (unat (buf_index (rx_dma_stream s)))"
    using iN by (simp add: p_def rx_packets_queued_def ring_contents_Suc_front)
  have "fits_slot p"
    using parts(5) by (cases "rx_packets_queued s (Suc k)") (auto simp: p_def dest: arg_cong [where f = length])
  define len where "len = rd32 (kmem s) (slot_meta (buffers (rx_dma_stream s)) (unat (dma_cpu_bufs s))
                   (unat (buf_index (rx_dma_stream s))) + META_LENGTH)"
  have len: "length (fst p) = unat len" "unat len \<le> 2048"
    using \<open>fits_slot p\<close> by (simp_all add: p slot_packet_def len_def fits_slot_def)
  show ?thesis
  proof (cases "is_neg (rx_get_dst_iface (snd p))")
    case True
    then have "poll_packet cfg kr n s = poll_no_iface cfg s"
      using acc by (simp add: poll_packet_def Let_def p slot_packet_def)
    then show ?thesis
      using True poll_no_iface_eq [OF parts(1,2) ready] step static by (simp add: delivery_def)
  next
    case False
    then have pk: "poll_packet cfg kr n s = (case dev_alloc_skb kr n len of
        None \<Rightarrow> poll_no_skb cfg (rx_get_dst_iface (snd p)) s
      | Some sid \<Rightarrow> poll_deliver cfg kr sid (rx_get_dst_iface (snd p)) len s)"
      using acc by (simp add: poll_packet_def Let_def p slot_packet_def len_def split: option.split)
    obtain d where d: "netdev_at (rx_get_dst_iface (snd p)) s
        = Some (nf10_netdevs s ! unat (rx_get_dst_iface (snd p)))"
      "netdevs s (nf10_netdevs s ! unat (rx_get_dst_iface (snd p))) = Some d"
      by (rule rx_ready_netdev [OF ready False])
    show ?thesis
    proof (cases "dev_alloc_skb kr n len")
      case None
      then show ?thesis
        using pk False len d poll_no_skb_eq [OF parts(1,2) ready d] step rx_static_upd(1) [OF static]
        by (simp add: delivery_def)
    next
      case (Some sid)
      have "rd_bytes (kmem s) (slot_buf (buffers (rx_dma_stream s))
              (unat (buf_index (rx_dma_stream s)))) (unat len) = fst p"
        by (simp add: p slot_packet_def len_def)
      then show ?thesis
        using Some pk False len d poll_deliver_eq [OF parts(1,2) ready d len(2)] step
          rx_static_upd(3) [OF static]
        by (simp add: delivery_def)
    qed
  qed
qed


section \<open>The loop on a quiet card\<close>

text \<open>
  The specification of the loop: it takes packets from the front of the queue; a packet
  that is not delivered does not count against the budget.
\<close>

fun poll_spec :: "(nat \<Rightarrow> packet \<Rightarrow> sk_buff list) \<Rightarrow> nat \<Rightarrow> nat \<Rightarrow> packet list \<Rightarrow> sk_buff list \<times> packet list" where
  "poll_spec dlv n b [] = ([], [])"
| "poll_spec dlv n 0 (p # q) = ([], p # q)"
| "poll_spec dlv n (Suc b) (p # q) =
     (let (ds, rest) = poll_spec dlv (Suc n) (if dlv n p = [] then Suc b else b) q
      in (dlv n p @ ds, rest))"

abbreviation quiet :: "nat \<Rightarrow> nf10 \<Rightarrow> nf10" where
  "quiet \<equiv> \<lambda>n s. s"

lemma delivery_length: "delivery cfg k devs n p \<noteq> [] \<Longrightarrow> length (delivery cfg k devs n p) = 1"
  by (auto simp: delivery_def split: if_splits option.splits)

lemma poll_loop_quiet:
  assumes "rx_ring_inv s k" and "rx_ready cfg s" and "n_rx \<le> budget"
  shows "\<exists>n' s' k' ds. poll_loop cfg kr quiet budget n n_rx s
      = Some (Some (n_rx + int (length ds), n', s')) \<and>
    rx_ring_inv s' k' \<and> rx_static s s' \<and> received s' = received s @ ds \<and>
    rx_card_slot s' k' = rx_card_slot s k \<and>
    poll_spec (delivery cfg kr (nf10_netdevs s)) n (nat (budget - n_rx)) (rx_packets_queued s k)
      = (ds, rx_packets_queued s' k') \<and>
    (k' = 0 \<or> n_rx + int (length ds) = budget)"
  using assms
proof (induction k arbitrary: s n n_rx)
  case 0
  then show ?case
    using rx_flag_eq [OF 0(1)] poll_loop.simps [of cfg kr quiet budget n n_rx s]
    by (auto simp: rx_packets_queued_def ring_contents_def)
next
  case (Suc k)
  let ?dlv = "delivery cfg kr (nf10_netdevs s)"
  obtain p q where q: "rx_packets_queued s (Suc k) = p # q"
    using length_rx_packets_queued [of s "Suc k"] by (cases "rx_packets_queued s (Suc k)") auto
  show ?case
  proof (cases "n_rx < budget")
    case False
    then show ?thesis
      using Suc.prems q poll_loop.simps [of cfg kr quiet budget n n_rx s]
      by (intro exI [of _ n] exI [of _ s] exI [of _ "Suc k"] exI [of _ "[]"]) auto
  next
    case True
    obtain s1 where s1: "poll_packet cfg kr n s = Some (?dlv n p \<noteq> [], s1)"
        "rx_ring_inv s1 k" "rx_packets_queued s1 k = q"
        "received s1 = received s @ ?dlv n p" "rx_static s s1" "rx_card_slot s1 k = rx_card_slot s (Suc k)"
      using poll_packet_step [OF Suc.prems(1,2), of kr n] q by auto
    define m where "m = n_rx + int (length (?dlv n p))"
    have m: "m = (if ?dlv n p \<noteq> [] then n_rx + 1 else n_rx)" "m \<le> budget"
      using True delivery_length [of cfg kr "nf10_netdevs s" n p]
      by (cases "?dlv n p = []"; simp add: m_def)+
    have devs: "nf10_netdevs s1 = nf10_netdevs s" using s1(5) by (simp add: rx_static_def)
    from Suc.IH [OF s1(2) _ m(2), of "Suc n"] rx_ready_static [OF s1(5)] Suc.prems(2)
    obtain n' s' k' ds where IH: "poll_loop cfg kr quiet budget (Suc n) m s1
          = Some (Some (m + int (length ds), n', s'))"
        "rx_ring_inv s' k'" "rx_static s1 s'" "received s' = received s1 @ ds" "rx_card_slot s' k' = rx_card_slot s1 k"
        "poll_spec ?dlv (Suc n) (nat (budget - m)) q = (ds, rx_packets_queued s' k')"
        "k' = 0 \<or> m + int (length ds) = budget"
      by (auto simp: devs s1(3))
    have "poll_loop cfg kr quiet budget n n_rx s = poll_loop cfg kr quiet budget (Suc n) m s1"
      using True rx_flag_eq [OF Suc.prems(1)] s1(1) m(1)
        poll_loop.simps [of cfg kr quiet budget n n_rx s] by simp
    moreover obtain b where b: "nat (budget - n_rx) = Suc b"
      using True by (cases "nat (budget - n_rx)") auto
    moreover have "nat (budget - m) = (if ?dlv n p = [] then Suc b else b)"
      using b m(1) by (auto simp: nat_eq_iff split: if_splits)
    ultimately show ?thesis
      using IH s1(4,6) rx_static_trans [OF s1(5) IH(3)] q
      by (intro exI [of _ n'] exI [of _ s'] exI [of _ k'] exI [of _ "?dlv n p @ ds"])
         (auto simp: m_def)
  qed
qed

text \<open>
  The state after a call that found \<open>NAPI\<close> scheduled and the timer idle: the same up to
  the ring, the received packets, the counters and the two polling flags.
\<close>

lemma napi_poll_effect:
  assumes "rx_ring_inv s k" and "rx_ready cfg s" and "0 \<le> budget" and "\<not> timer_pending s"
  shows "\<exists>r s' k' ds. nf10_napi_struct_poll cfg kr quiet budget s = Some (Some (r, s')) \<and>
    rx_ring_inv s' k' \<and> received s' = received s @ ds \<and> rx_card_slot s' k' = rx_card_slot s k \<and>
    rx_ready cfg s' \<and> nf10_netdevs s' = nf10_netdevs s \<and> dma_cpu_bufs s' = dma_cpu_bufs s \<and>
    poll_spec (delivery cfg kr (nf10_netdevs s)) 0 (nat budget) (rx_packets_queued s k)
      = (ds, rx_packets_queued s' k') \<and>
    (if k' = 0 then r = 0 \<and> timer_pending s' \<and> \<not> napi_scheduled s'
     else r = budget \<and> \<not> timer_pending s' \<and> napi_scheduled s' = napi_scheduled s)"
proof -
  obtain n' s1 k' ds where r: "poll_loop cfg kr quiet budget 0 0 s
      = Some (Some (int (length ds), n', s1))"
    "rx_ring_inv s1 k'" "rx_static s s1" "received s1 = received s @ ds"
    "rx_card_slot s1 k' = rx_card_slot s k"
    "poll_spec (delivery cfg kr (nf10_netdevs s)) 0 (nat budget) (rx_packets_queued s k)
      = (ds, rx_packets_queued s1 k')" "k' = 0 \<or> int (length ds) = budget"
    using poll_loop_quiet [OF assms(1-3), of kr 0] by auto
  have idle: "\<not> timer_pending s1" "napi_scheduled s1 = napi_scheduled s"
    "nf10_netdevs s1 = nf10_netdevs s" "dma_cpu_bufs s1 = dma_cpu_bufs s" "rx_ready cfg s1"
    using r(3) assms(2,4) rx_ready_static [OF r(3)] by (simp_all add: rx_static_def)
  have frame: "rx_ready cfg (s1\<lparr>napi_scheduled := x, timer_expires := y, timer_pending := z\<rparr>)" for x y z
    using idle(5) by (simp add: rx_ready_def)
  show ?thesis
    using r idle frame rx_flag_eq [OF r(2)]
    by (cases "k' = 0")
       (auto simp: nf10_napi_struct_poll_def poll_end_def napi_complete_def add_timer_def)
qed

text \<open>
  Claim C17.  On a card that is quiet during the call, the poll function returns: it hands to
  the stack exactly the packets the specification takes from the front of the queue, and
  either empties the ring, completes NAPI, restarts the timer and returns 0, or uses up the
  whole budget, leaves NAPI scheduled and returns the budget.
\<close>

theorem napi_poll_correct:
  assumes "rx_ring_inv s k" and "rx_ready cfg s" and "0 \<le> budget" and "\<not> timer_pending s"
  shows "\<exists>r s' k' ds. nf10_napi_struct_poll cfg kr quiet budget s = Some (Some (r, s')) \<and>
    rx_ring_inv s' k' \<and> received s' = received s @ ds \<and>
    poll_spec (delivery cfg kr (nf10_netdevs s)) 0 (nat budget) (rx_packets_queued s k)
      = (ds, rx_packets_queued s' k') \<and>
    (if k' = 0 then r = 0 \<and> timer_pending s' \<and> \<not> napi_scheduled s'
     else r = budget \<and> \<not> timer_pending s' \<and> napi_scheduled s' = napi_scheduled s)"
  using napi_poll_effect [OF assms] by blast

end
