(* ===== verification/NF10_RxSystem.thy ===== *)
theory NF10_RxSystem
  imports NF10_Poll
begin

text \<open>
  The receive side as a system: the card fills slots of the RX ring, the timer fires, NAPI
  polls.  The system refines a bounded queue whose packets go to the network stack in
  order, and the polling never dies: at any moment either the timer is pending or a poll
  is scheduled, never both.  A last section shows what the budget does not bound.
\<close>

section \<open>System and specification\<close>

datatype rx_event = RxPut packet | RxTick | RxPoll nat

text \<open>The second component is the slot the card fills next; a full ring makes it wait.\<close>

definition card_put :: "packet \<Rightarrow> nf10 \<times> nat \<Rightarrow> nf10 \<times> nat" where
  "card_put p = (\<lambda>(s, t). let b = buffers (rx_dma_stream s); N = unat (dma_cpu_bufs s) in
     if rx_full b N (kmem s) t then (s, t)
     else (s\<lparr>kmem := slot_fill b N 1 (kmem s) t p\<rparr>, Suc t mod N))"

fun rx_event_run :: "config \<Rightarrow> kernel_rx \<Rightarrow> rx_event \<Rightarrow> nf10 \<times> nat \<Rightarrow> (nf10 \<times> nat) option" where
  "rx_event_run cfg kr (RxPut p) (s, t) = Some (card_put p (s, t))"
| "rx_event_run cfg kr RxTick (s, t) =
     (if timer_pending s
      then map_option (\<lambda>s'. (s', t)) (rx_poll_timer_cb (s\<lparr>timer_pending := False\<rparr>))
      else Some (s, t))"
| "rx_event_run cfg kr (RxPoll budget) (s, t) =
     (if napi_scheduled s
      then (case nf10_napi_struct_poll cfg kr quiet (int budget) s of
              Some (Some (r, s')) \<Rightarrow> Some (s', t) | _ \<Rightarrow> None)
      else Some (s, t))"

fun rx_run :: "config \<Rightarrow> kernel_rx \<Rightarrow> rx_event list \<Rightarrow> nf10 \<times> nat \<Rightarrow> (nf10 \<times> nat) option" where
  "rx_run cfg kr [] sys = Some sys"
| "rx_run cfg kr (e # es) sys = Option.bind (rx_event_run cfg kr e sys) (rx_run cfg kr es)"

text \<open>Abstract state: the queue, what the stack has received, whether a poll is scheduled.\<close>

type_synonym rx_abstract = "packet list \<times> sk_buff list \<times> bool"

fun rx_spec_event :: "nat \<Rightarrow> (nat \<Rightarrow> packet \<Rightarrow> sk_buff list) \<Rightarrow> rx_event \<Rightarrow> rx_abstract \<Rightarrow> rx_abstract" where
  "rx_spec_event cap dlv (RxPut p) (q, out, sched) =
     (if length q < cap then q @ [p] else q, out, sched)"
| "rx_spec_event cap dlv RxTick (q, out, sched) = (q, out, sched \<or> q \<noteq> [])"
| "rx_spec_event cap dlv (RxPoll b) (q, out, sched) =
     (if sched then let (ds, rest) = poll_spec dlv 0 b q in (rest, out @ ds, rest \<noteq> [])
      else (q, out, sched))"

definition rx_spec :: "nat \<Rightarrow> (nat \<Rightarrow> packet \<Rightarrow> sk_buff list) \<Rightarrow> rx_event list \<Rightarrow> rx_abstract \<Rightarrow> rx_abstract" where
  "rx_spec cap dlv = fold (rx_spec_event cap dlv)"

definition rx_event_ok :: "rx_event \<Rightarrow> bool" where
  "rx_event_ok e \<longleftrightarrow> (case e of RxPut p \<Rightarrow> fits_slot p | _ \<Rightarrow> True)"

definition rx_sys_inv :: "config \<Rightarrow> nat \<Rightarrow> nf10 \<times> nat \<Rightarrow> bool" where
  "rx_sys_inv cfg k = (\<lambda>(s, t). rx_ring_inv s k \<and> rx_ready cfg s \<and>
     t = rx_card_slot s k \<and>
     timer_pending s \<noteq> napi_scheduled s)"

definition rx_abs :: "nat \<Rightarrow> nf10 \<times> nat \<Rightarrow> rx_abstract" where
  "rx_abs k = (\<lambda>(s, t). (rx_packets_queued s k, received s, napi_scheduled s))"

section \<open>Refinement\<close>

lemma slot_fill_binary:
  assumes "\<forall>i<N. rd32 m (slot_flag b N i) \<in> {0, 1}" and "v \<in> {0, 1}" and "j < N" and "fits_slot p"
  shows "\<forall>i<N. rd32 (slot_fill b N v m j p) (slot_flag b N i) \<in> {0, 1}"
  using assms flag_after_fill_other [of j N _ p b v m]
  by (metis flag_after_fill_same)

lemma rx_slot_filled:
  assumes inv: "rx_ring_inv s k" and room: "k < unat (dma_cpu_bufs s)" and fits: "fits_slot p"
    and same: "dma_cpu_bufs s' = dma_cpu_bufs s" "live s' = live s" "rx_dma_stream s' = rx_dma_stream s"
    and filled: "kmem s' = slot_fill (buffers (rx_dma_stream s)) (unat (dma_cpu_bufs s)) 1 (kmem s)
         (rx_card_slot s k) p"
  shows "rx_ring_inv s' (Suc k)" "rx_packets_queued s' (Suc k) = rx_packets_queued s k @ [p]"
    "rx_card_slot s' (Suc k) = Suc (rx_card_slot s k) mod unat (dma_cpu_bufs s)"
proof -
  define b where "b = buffers (rx_dma_stream s)"
  define N where "N = unat (dma_cpu_bufs s)"
  define h where "h = unat (buf_index (rx_dma_stream s))"
  note parts = rx_ring_invD [OF inv, folded b_def N_def h_def]
  have q: "rx_packets_queued s k = ring_contents (slot_packet b N) N (kmem s) h k"
    by (simp add: rx_packets_queued_def b_def N_def h_def)
  have mem: "kmem s' = slot_fill b N 1 (kmem s) (ring_slot N h k) p"
    using filled by (simp add: rx_card_slot_def b_def N_def h_def)
  note moved = rx_flags.produce [OF parts(3) room [folded N_def] fits parts(5) [unfolded q]]
  show q': "rx_packets_queued s' (Suc k) = rx_packets_queued s k @ [p]"
    using moved q by (simp add: rx_packets_queued_def mem same b_def N_def h_def)
  have "0 < N" using room by (simp add: N_def)
  then have "rx_flags_binary s'"
    using slot_fill_binary [of N "kmem s" b 1 "ring_slot N h k" p] parts(4) fits
    by (simp add: rx_flags_binary_def mem same b_def N_def)
  then show "rx_ring_inv s' (Suc k)"
    using moved parts(1,2,5) q' fits
    by (simp add: rx_ring_inv_def region_live_def mem same b_def N_def h_def)
  show "rx_card_slot s' (Suc k) = Suc (rx_card_slot s k) mod unat (dma_cpu_bufs s)"
    by (simp add: rx_card_slot_def same Suc_ring_slot)
qed

lemma rx_card_slot_full:
  assumes "rx_ring_inv s k"
  shows "rx_full (buffers (rx_dma_stream s)) (unat (dma_cpu_bufs s)) (kmem s) (rx_card_slot s k)
    \<longleftrightarrow> k = unat (dma_cpu_bufs s)"
  using ring_window_producer [OF rx_ring_invD(3) [OF assms]] by (simp add: rx_card_slot_def rx_full_def)

lemma card_put_step:
  assumes inv: "rx_sys_inv cfg k (s, t)" and fits: "fits_slot p"
  shows "\<exists>k' s' t'. card_put p (s, t) = (s', t') \<and> rx_sys_inv cfg k' (s', t') \<and>
    nf10_netdevs s' = nf10_netdevs s \<and> dma_cpu_bufs s' = dma_cpu_bufs s \<and>
    rx_abs k' (s', t') = rx_spec_event (unat (dma_cpu_bufs s)) dlv (RxPut p) (rx_abs k (s, t))"
proof -
  have ring: "rx_ring_inv s k" and t: "t = rx_card_slot s k"
    using inv by (simp_all add: rx_sys_inv_def)
  show ?thesis
  proof (cases "k = unat (dma_cpu_bufs s)")
    case True
    then show ?thesis
      using rx_card_slot_full [OF ring] inv t
      by (intro exI [of _ k]) (simp add: card_put_def Let_def rx_abs_def)
  next
    case False
    then have room: "k < unat (dma_cpu_bufs s)"
      using ring_windowD(2) [OF rx_ring_invD(3) [OF ring]] by simp
    define s' where "s' = s\<lparr>kmem := slot_fill (buffers (rx_dma_stream s)) (unat (dma_cpu_bufs s)) 1
        (kmem s) t p\<rparr>"
    note step = rx_slot_filled [of s k p s', OF ring room fits, simplified s'_def t, simplified,
        folded t, folded s'_def]
    have "rx_ready cfg s' = rx_ready cfg s" by (simp add: rx_ready_def s'_def)
    moreover have "card_put p (s, t) = (s', Suc t mod unat (dma_cpu_bufs s))"
      using rx_card_slot_full [OF ring] False by (simp add: card_put_def Let_def s'_def t)
    ultimately show ?thesis
      using inv step room
      by (intro exI [of _ "Suc k"]) (simp add: rx_sys_inv_def rx_abs_def s'_def)
  qed
qed

lemma rx_tick_step:
  assumes inv: "rx_sys_inv cfg k (s, t)"
  shows "\<exists>s'. rx_event_run cfg kr RxTick (s, t) = Some (s', t) \<and> rx_sys_inv cfg k (s', t) \<and>
    nf10_netdevs s' = nf10_netdevs s \<and> dma_cpu_bufs s' = dma_cpu_bufs s \<and>
    rx_abs k (s', t) = rx_spec_event cap dlv RxTick (rx_abs k (s, t))"
proof (cases "timer_pending s")
  case False
  then show ?thesis using inv by (simp add: rx_sys_inv_def rx_abs_def)
next
  case True
  have ring: "rx_ring_inv (s\<lparr>timer_pending := False\<rparr>) k" and unsched: "\<not> napi_scheduled s"
    using inv True by (auto simp: rx_sys_inv_def)
  have ready: "rx_ready cfg (s\<lparr>timer_expires := e, timer_pending := x\<rparr>) = rx_ready cfg s"
    "rx_ready cfg (s\<lparr>timer_pending := x, napi_scheduled := y\<rparr>) = rx_ready cfg s" for x e y
    by (simp_all add: rx_ready_def)
  have "rx_packets_queued s k = [] \<longleftrightarrow> k = 0"
    by (metis length_0_conv length_rx_packets_queued)
  then show ?thesis
    using True inv rx_flag_eq [OF ring] unsched
    by (cases "k = 0")
       (auto simp: rx_sys_inv_def rx_abs_def rx_poll_timer_cb_def add_timer_def napi_schedule_def ready)
qed

lemma rx_poll_step:
  assumes inv: "rx_sys_inv cfg k (s, t)"
  shows "\<exists>s' k'. rx_event_run cfg kr (RxPoll b) (s, t) = Some (s', t) \<and> rx_sys_inv cfg k' (s', t) \<and>
    nf10_netdevs s' = nf10_netdevs s \<and> dma_cpu_bufs s' = dma_cpu_bufs s \<and>
    rx_abs k' (s', t) = rx_spec_event cap (delivery cfg kr (nf10_netdevs s)) (RxPoll b) (rx_abs k (s, t))"
proof (cases "napi_scheduled s")
  case False
  then show ?thesis using inv by (intro exI [of _ s] exI [of _ k]) (simp add: rx_abs_def)
next
  case True
  have ring: "rx_ring_inv s k" and ready: "rx_ready cfg s" and idle: "\<not> timer_pending s"
    and t: "t = rx_card_slot s k"
    using inv True by (auto simp: rx_sys_inv_def)
  from napi_poll_effect [OF ring ready _ idle, of "int b" kr]
  obtain r s' k' ds where
    e: "nf10_napi_struct_poll cfg kr quiet (int b) s = Some (Some (r, s'))"
      "rx_ring_inv s' k'" "received s' = received s @ ds" "rx_card_slot s' k' = rx_card_slot s k"
      "rx_ready cfg s'" "nf10_netdevs s' = nf10_netdevs s" "dma_cpu_bufs s' = dma_cpu_bufs s"
      "poll_spec (delivery cfg kr (nf10_netdevs s)) 0 b (rx_packets_queued s k)
        = (ds, rx_packets_queued s' k')"
    and st: "if k' = 0 then r = 0 \<and> timer_pending s' \<and> \<not> napi_scheduled s'
      else r = int b \<and> \<not> timer_pending s' \<and> napi_scheduled s' = napi_scheduled s"
    by auto
  have "rx_packets_queued s' k' = [] \<longleftrightarrow> k' = 0"
    by (metis length_0_conv length_rx_packets_queued)
  then show ?thesis
    using e st True t
    by (intro exI [of _ s'] exI [of _ k']) (auto simp: rx_sys_inv_def rx_abs_def split: if_splits)
qed

lemma rx_event_refines:
  assumes "rx_sys_inv cfg k sys" and "rx_event_ok e"
  shows "\<exists>sys' k'. rx_event_run cfg kr e sys = Some sys' \<and> rx_sys_inv cfg k' sys' \<and>
    nf10_netdevs (fst sys') = nf10_netdevs (fst sys) \<and> dma_cpu_bufs (fst sys') = dma_cpu_bufs (fst sys) \<and>
    rx_abs k' sys' = rx_spec_event (unat (dma_cpu_bufs (fst sys)))
      (delivery cfg kr (nf10_netdevs (fst sys))) e (rx_abs k sys)"
proof -
  obtain s t where sys: "sys = (s, t)" by (cases sys)
  note inv = assms(1) [unfolded sys]
  show ?thesis
  proof (cases e)
    case (RxPut p)
    then have "fits_slot p" using assms(2) by (simp add: rx_event_ok_def)
    from card_put_step [OF inv this] show ?thesis by (fastforce simp: sys RxPut)
  next
    case RxTick
    then show ?thesis using rx_tick_step [OF inv] by (fastforce simp: sys)
  next
    case (RxPoll b)
    then show ?thesis using rx_poll_step [OF inv] by (fastforce simp: sys)
  qed
qed

lemma rx_run_refines:
  assumes "rx_sys_inv cfg k sys" and "list_all rx_event_ok es"
  shows "\<exists>sys' k'. rx_run cfg kr es sys = Some sys' \<and> rx_sys_inv cfg k' sys' \<and>
    rx_abs k' sys' = rx_spec (unat (dma_cpu_bufs (fst sys)))
      (delivery cfg kr (nf10_netdevs (fst sys))) es (rx_abs k sys)"
  using assms
proof (induction es arbitrary: sys k)
  case Nil
  then show ?case by (auto simp: rx_spec_def)
next
  case (Cons e es)
  from rx_event_refines [OF Cons.prems(1), of e kr] Cons.prems(2)
  obtain sys1 k1 where one: "rx_event_run cfg kr e sys = Some sys1" "rx_sys_inv cfg k1 sys1"
    "nf10_netdevs (fst sys1) = nf10_netdevs (fst sys)" "dma_cpu_bufs (fst sys1) = dma_cpu_bufs (fst sys)"
    "rx_abs k1 sys1 = rx_spec_event (unat (dma_cpu_bufs (fst sys)))
      (delivery cfg kr (nf10_netdevs (fst sys))) e (rx_abs k sys)"
    by auto
  from Cons.IH [OF one(2)] Cons.prems(2) show ?case
    by (simp add: one(1,3,4) one(5) [symmetric] rx_spec_def)
qed


text \<open>
  Claim C3.  For every interleaving of the card filling slots, timer ticks and NAPI polls,
  nothing faults and nothing loops, and queue, delivered packets and scheduling state are
  those of the abstract receive queue.  At the end either the timer is pending or a poll is
  scheduled, and not both.
\<close>

theorem rx_system_refines_queue:
  assumes "rx_ring_inv s k" and "rx_ready cfg s" and "t = rx_card_slot s k"
    and "timer_pending s \<noteq> napi_scheduled s" and "list_all rx_event_ok es"
  shows "\<exists>s' t' k'. rx_run cfg kr es (s, t) = Some (s', t') \<and>
    rx_ring_inv s' k' \<and> timer_pending s' \<noteq> napi_scheduled s' \<and>
    (rx_packets_queued s' k', received s', napi_scheduled s')
      = rx_spec (unat (dma_cpu_bufs s)) (delivery cfg kr (nf10_netdevs s)) es
          (rx_packets_queued s k, received s, napi_scheduled s)"
proof -
  have "rx_sys_inv cfg k (s, t)" using assms by (simp add: rx_sys_inv_def)
  from rx_run_refines [OF this assms(5), of kr] show ?thesis
    by (force simp: rx_sys_inv_def rx_abs_def)
qed

section \<open>Every queued packet is consumed\<close>

lemma poll_spec_rest_le: "length (snd (poll_spec dlv n b q)) \<le> length q"
  by (induction dlv n b q rule: poll_spec.induct) (simp_all add: split_def Let_def)

lemma poll_spec_shrinks:
  "poll_spec dlv n (Suc b) (p # q) = (ds, rest) \<Longrightarrow> length rest \<le> length q"
  using poll_spec_rest_le [of dlv "Suc n" "if dlv n p = [] then Suc b else b" q]
  by (auto simp: split_def Let_def)

lemma rx_spec_polls_drain:
  "rx_spec cap dlv (replicate j (RxPoll (Suc b))) (q, out, q \<noteq> []) = (q', out', sched')
     \<Longrightarrow> length q' \<le> length q - j \<and> (sched' \<longleftrightarrow> q' \<noteq> [])"
proof (induction j arbitrary: q out)
  case 0
  then show ?case by (auto simp: rx_spec_def)
next
  case (Suc j)
  show ?case
  proof (cases q)
    case Nil
    then have "rx_spec cap dlv (replicate j (RxPoll (Suc b))) ([], out, [] \<noteq> ([] :: packet list))
        = (q', out', sched')"
      using Suc.prems by (simp add: rx_spec_def)
    from Suc.IH [OF this] show ?thesis by auto
  next
    case (Cons p q1)
    obtain ds rest where r: "poll_spec dlv 0 (Suc b) q = (ds, rest)" by fastforce
    then have "rx_spec cap dlv (replicate j (RxPoll (Suc b))) (rest, out @ ds, rest \<noteq> [])
        = (q', out', sched')"
      using Suc.prems Cons by (simp add: rx_spec_def split_def Let_def del: poll_spec.simps)
    from Suc.IH [OF this] poll_spec_shrinks r Cons show ?thesis by fastforce
  qed
qed

text \<open>
  Claim C18.  Liveness of reception: when \<open>k\<close> packets are queued and the timer is pending,
  one tick and \<open>k\<close> polls with any positive budget empty the ring and leave the timer
  running again.
\<close>

theorem rx_queue_is_drained:
  assumes "rx_ring_inv s k" and "rx_ready cfg s" and "t = rx_card_slot s k"
    and "timer_pending s" and "\<not> napi_scheduled s" and "0 < budget"
  shows "\<exists>s' t'. rx_run cfg kr (RxTick # replicate k (RxPoll budget)) (s, t) = Some (s', t') \<and>
    rx_ring_inv s' 0 \<and> timer_pending s' \<and> \<not> napi_scheduled s'"
proof -
  have inv: "rx_sys_inv cfg k (s, t)" using assms by (simp add: rx_sys_inv_def)
  have ok: "list_all rx_event_ok (RxTick # replicate k (RxPoll budget))"
    by (simp add: list_all_iff rx_event_ok_def)
  obtain b where b: "budget = Suc b" using assms(6) by (cases budget) auto
  from rx_run_refines [OF inv ok, of kr]
  obtain s' t' k' where run: "rx_run cfg kr (RxTick # replicate k (RxPoll budget)) (s, t) = Some (s', t')"
    "rx_sys_inv cfg k' (s', t')"
    and abs: "rx_spec (unat (dma_cpu_bufs s)) (delivery cfg kr (nf10_netdevs s))
        (replicate k (RxPoll (Suc b))) (rx_packets_queued s k, received s, rx_packets_queued s k \<noteq> [])
        = (rx_packets_queued s' k', received s', napi_scheduled s')"
    using assms(5) by (force simp: rx_abs_def rx_spec_def b)
  have "k' = 0 \<and> \<not> napi_scheduled s'"
    using rx_spec_polls_drain [OF abs] by (simp add: length_0_conv [symmetric] del: length_0_conv)
  then show ?thesis using run by (auto simp: rx_sys_inv_def)
qed

section \<open>What the budget does not bound\<close>

text \<open>
  A card that, whenever the driver has emptied a slot, fills it with an empty packet whose
  opcode names no interface.  It respects the flags: it only writes a slot that is free.
\<close>

definition refill :: "nat \<Rightarrow> nf10 \<Rightarrow> nf10" where
  "refill n s = (let b = buffers (rx_dma_stream s); N = unat (dma_cpu_bufs s);
                     i = unat (buf_index (rx_dma_stream s)) in
     if rx_full b N (kmem s) i then s else s\<lparr>kmem := slot_fill b N 1 (kmem s) i ([], 0)\<rparr>)"

definition all_free :: "nf10 \<Rightarrow> bool" where
  "all_free s \<longleftrightarrow> (\<forall>i<unat (dma_cpu_bufs s).
     \<not> rx_full (buffers (rx_dma_stream s)) (unat (dma_cpu_bufs s)) (kmem s) i)"

lemma refill_turn:
  assumes wf: "stream_wf (dma_cpu_bufs s) (rx_dma_stream s)" "region_live s (rx_dma_stream s)"
    and ready: "rx_ready cfg s" and free: "all_free s"
  shows "rx_flag (refill n s) = Some 1"
    and "\<exists>s'. poll_packet cfg kr n (refill n s) = Some (False, s') \<and>
      stream_wf (dma_cpu_bufs s') (rx_dma_stream s') \<and> region_live s' (rx_dma_stream s') \<and>
      rx_ready cfg s' \<and> all_free s'"
proof -
  define b where "b = buffers (rx_dma_stream s)"
  define N where "N = unat (dma_cpu_bufs s)"
  define i where "i = unat (buf_index (rx_dma_stream s))"
  have iN: "i < N" using stream_wfD(3) [OF wf(1)] by (simp add: i_def N_def)
  define m where "m = slot_fill b N 1 (kmem s) i ([], 0)"
  have r: "refill n s = s\<lparr>kmem := m\<rparr>"
    using free iN by (simp add: refill_def all_free_def m_def b_def N_def i_def Let_def)
  have wf': "stream_wf (dma_cpu_bufs (s\<lparr>kmem := m\<rparr>)) (rx_dma_stream (s\<lparr>kmem := m\<rparr>))"
    "region_live (s\<lparr>kmem := m\<rparr>) (rx_dma_stream (s\<lparr>kmem := m\<rparr>))" "rx_ready cfg (s\<lparr>kmem := m\<rparr>)"
    using wf ready by (simp_all add: region_live_def rx_ready_def)
  note acc = stream_accesses [OF wf'(1,2)]
  show "rx_flag (refill n s) = Some 1"
    using acc(1) by (simp add: r rx_flag_def m_def flag_after_fill_same b_def N_def i_def)
  have "rd32 m (slot_meta b N i + META_OPCODE) = 0"
    using iN by (simp add: m_def slot_fill_def mem_laws)
  then have "poll_packet cfg kr n (refill n s) = poll_no_iface cfg (s\<lparr>kmem := m\<rparr>)"
    using acc(3) by (simp add: r poll_packet_def rx_get_dst_iface_bits b_def N_def i_def)
  also have "\<dots> = Some (False, rx_consumed ([Barrier, rx_flag_cleared (s\<lparr>kmem := m\<rparr>), Barrier] @
      rx_doorbell_rung cfg (s\<lparr>kmem := m\<rparr>)) (s\<lparr>kmem := m\<rparr>))"
    by (rule poll_no_iface_eq [OF wf'])
  finally show "\<exists>s'. poll_packet cfg kr n (refill n s) = Some (False, s') \<and>
      stream_wf (dma_cpu_bufs s') (rx_dma_stream s') \<and> region_live s' (rx_dma_stream s') \<and>
      rx_ready cfg s' \<and> all_free s'"
    using wf ready free iN stream_next_wf [OF wf(1)] flag_after_fill_other [of i N _ "([], 0)" b 1 "kmem s"]
    by (auto simp: rx_consumed_def rx_advance_def region_live_def rx_ready_def all_free_def rx_full_def
        flag_after_release m_def fits_slot_def b_def N_def i_def)
qed

definition refill_ok :: "config \<Rightarrow> nf10 \<Rightarrow> bool" where
  "refill_ok cfg s \<longleftrightarrow> stream_wf (dma_cpu_bufs s) (rx_dma_stream s) \<and>
     region_live s (rx_dma_stream s) \<and> rx_ready cfg s \<and> all_free s"

lemma refill_loop_diverges:
  assumes "poll_loop cfg kr dev budget n n_rx s = Some r"
  shows "dev = refill \<longrightarrow> n_rx < budget \<longrightarrow> \<not> refill_ok cfg s"
  using assms
proof (rule poll_loop.raw_induct [rotated, where
    P = "\<lambda>cfg kr dev budget n n_rx s r. dev = refill \<longrightarrow> n_rx < budget \<longrightarrow> \<not> refill_ok cfg s"],
    goal_cases)
  case (1 loop cfg kr dev budget n n_rx s r)
  show ?case
  proof (intro impI notI)
    assume asm: "dev = refill" "n_rx < budget" "refill_ok cfg s"
    then obtain s' where turn: "rx_flag (refill n s) = Some 1"
        "poll_packet cfg kr n (refill n s) = Some (False, s')" "refill_ok cfg s'"
      using refill_turn(1) [of s cfg n] refill_turn(2) [of s cfg kr n] by (auto simp: refill_ok_def)
    then have "loop cfg kr dev budget (Suc n) n_rx s' = Some r"
      using 1(2) asm by simp
    from 1(1) [OF this] asm turn(3) show False by simp
  qed
qed

text \<open>
  Claim C29.  Dropped packets do not count against the budget: on a card that keeps filling
  the slots it gets back with packets for no interface, the poll function never returns,
  whatever positive budget it is given.
\<close>

theorem poll_not_bounded_by_budget:
  assumes "stream_wf (dma_cpu_bufs s) (rx_dma_stream s)" and "region_live s (rx_dma_stream s)"
    and "rx_ready cfg s" and "all_free s" and "0 < budget"
  shows "nf10_napi_struct_poll cfg kr refill budget s = None"
proof (cases "poll_loop cfg kr refill budget 0 0 s")
  case None
  then show ?thesis by (simp add: nf10_napi_struct_poll_def)
next
  case (Some r)
  then show ?thesis
    using refill_loop_diverges [OF Some] assms by (simp add: refill_ok_def)
qed

end
