(* ===== verification/NF10_Ocpi.thy ===== *)
theory NF10_Ocpi
  imports NF10_State
begin

text \<open>
  The OpenCPI view of the card's BAR0 region (\<^verbatim>\<open>occp.h\<close>, \<^verbatim>\<open>ocdp.h\<close>): the administration
  page, 15 worker control pages of 64 KiB, 15 worker configuration areas of 1 MiB, and
  the window through which the driver reaches the 32-bit register space of the design.
\<close>

section \<open>Layout\<close>

text \<open>\<^verbatim>\<open>OccpWorkerRegisters\<close>: sixteen 32-bit words.\<close>

datatype worker_reg =
    R_initialize | R_start | R_stop | R_release | R_test | R_beforeQuery | R_afterConfigure
  | R_reserved7 | R_status | R_control | R_lastConfig | R_clearError | R_pageWindow

fun worker_reg_offset :: "worker_reg \<Rightarrow> nat" where
  "worker_reg_offset R_initialize = 0x00"
| "worker_reg_offset R_start = 0x04"
| "worker_reg_offset R_stop = 0x08"
| "worker_reg_offset R_release = 0x0c"
| "worker_reg_offset R_test = 0x10"
| "worker_reg_offset R_beforeQuery = 0x14"
| "worker_reg_offset R_afterConfigure = 0x18"
| "worker_reg_offset R_reserved7 = 0x1c"
| "worker_reg_offset R_status = 0x20"
| "worker_reg_offset R_control = 0x24"
| "worker_reg_offset R_lastConfig = 0x28"
| "worker_reg_offset R_clearError = 0x2c"
| "worker_reg_offset R_pageWindow = 0x30"

text \<open>\<^verbatim>\<open>OcdpProperties\<close>, the fields the driver writes.\<close>

datatype ocdp_prop =
    P_nLocalBuffers | P_nRemoteBuffers | P_localBufferBase | P_localMetadataBase
  | P_localBufferSize | P_localMetadataSize | P_nRemoteDone | P_nReady | P_memoryBytes
  | P_remoteBufferBase | P_remoteMetadataBase | P_remoteBufferSize | P_remoteMetadataSize
  | P_remoteFlagBase | P_remoteFlagPitch | P_control

fun ocdp_prop_offset :: "ocdp_prop \<Rightarrow> nat" where
  "ocdp_prop_offset P_nLocalBuffers = 0x00"
| "ocdp_prop_offset P_nRemoteBuffers = 0x04"
| "ocdp_prop_offset P_localBufferBase = 0x08"
| "ocdp_prop_offset P_localMetadataBase = 0x0c"
| "ocdp_prop_offset P_localBufferSize = 0x10"
| "ocdp_prop_offset P_localMetadataSize = 0x14"
| "ocdp_prop_offset P_nRemoteDone = 0x18"
| "ocdp_prop_offset P_nReady = 0x20"
| "ocdp_prop_offset P_memoryBytes = 0x4c"
| "ocdp_prop_offset P_remoteBufferBase = 0x50"
| "ocdp_prop_offset P_remoteMetadataBase = 0x54"
| "ocdp_prop_offset P_remoteBufferSize = 0x58"
| "ocdp_prop_offset P_remoteMetadataSize = 0x5c"
| "ocdp_prop_offset P_remoteFlagBase = 0x60"
| "ocdp_prop_offset P_remoteFlagPitch = 0x64"
| "ocdp_prop_offset P_control = 0x68"

definition OCCP_CONTROL_ENABLE :: u32 where "OCCP_CONTROL_ENABLE = 0x80000000"
definition OCCP_LOG_TIMEOUT :: u32 where "OCCP_LOG_TIMEOUT = 30"
definition OCCP_SUCCESS_RESULT :: u32 where "OCCP_SUCCESS_RESULT = 0xc0de4201"
definition OCCP_WORKER_CONTROL_SIZE :: nat where "OCCP_WORKER_CONTROL_SIZE = 0x10000"
definition OCCP_WORKER_CONFIG_SIZE :: nat where "OCCP_WORKER_CONFIG_SIZE = 0x100000"
definition OCCP_MAX_WORKERS :: nat where "OCCP_MAX_WORKERS = 15"

definition WORKER_NF10 :: nat where "WORKER_NF10 = 0"
definition WORKER_SMA0 :: nat where "WORKER_SMA0 = 2"
definition WORKER_BIAS :: nat where "WORKER_BIAS = 3"
definition WORKER_SMA1 :: nat where "WORKER_SMA1 = 4"
definition WORKER_DP0 :: nat where "WORKER_DP0 = 13"
definition WORKER_DP1 :: nat where "WORKER_DP1 = 14"

text \<open>\<^verbatim>\<open>OCDP_CONTROL(dir, role)\<close> with the directions and roles of \<^verbatim>\<open>ocdp.h\<close>.\<close>

definition OCDP_CONTROL_PRODUCER :: u32 where "OCDP_CONTROL_PRODUCER = 1"
definition OCDP_CONTROL_CONSUMER :: u32 where "OCDP_CONTROL_CONSUMER = 2"
definition OCDP_ACTIVE_MESSAGE :: u32 where "OCDP_ACTIVE_MESSAGE = 1"

definition OCDP_CONTROL :: "u32 \<Rightarrow> u32 \<Rightarrow> u32" where
  "OCDP_CONTROL dir role = (push_bit 2 dir) OR role"

text \<open>\<^verbatim>\<open>OccpSpace\<close>: offsets of \<open>worker[i].control\<close> and \<open>config[i]\<close>, and its size.\<close>

definition worker_ctrl :: "addr \<Rightarrow> nat \<Rightarrow> addr" where
  "worker_ctrl occp i = occp + OCCP_WORKER_CONTROL_SIZE + OCCP_WORKER_CONTROL_SIZE * i"

definition worker_config :: "addr \<Rightarrow> nat \<Rightarrow> addr" where
  "worker_config occp i =
     occp + OCCP_WORKER_CONTROL_SIZE + OCCP_WORKER_CONTROL_SIZE * OCCP_MAX_WORKERS
       + OCCP_WORKER_CONFIG_SIZE * i"

definition sizeof_OccpSpace :: nat where
  "sizeof_OccpSpace =
     OCCP_WORKER_CONTROL_SIZE + OCCP_WORKER_CONTROL_SIZE * OCCP_MAX_WORKERS
       + OCCP_WORKER_CONFIG_SIZE * OCCP_MAX_WORKERS"

lemmas occp_sizes = OCCP_WORKER_CONTROL_SIZE_def OCCP_WORKER_CONFIG_SIZE_def OCCP_MAX_WORKERS_def

lemma sizeof_OccpSpace_eq: "sizeof_OccpSpace = 0x1000000"
  by (simp add: sizeof_OccpSpace_def occp_sizes)

lemma worker_reg_offset_bound: "worker_reg_offset r + 4 \<le> 0x40"
  by (cases r) simp_all

lemma ocdp_prop_offset_bound: "ocdp_prop_offset p + 4 \<le> 0x70"
  by (cases p) simp_all

lemma worker_reg_offset_inj: "worker_reg_offset r = worker_reg_offset r' \<longleftrightarrow> r = r'"
  by (cases r; cases r') simp_all

lemma ocdp_prop_offset_inj: "ocdp_prop_offset p = ocdp_prop_offset p' \<longleftrightarrow> p = p'"
  by (cases p; cases p') simp_all

text \<open>Every register of every worker lies inside BAR0 when BAR0 has the size of the structure.\<close>

lemma occp_covered:
  assumes "(bar0, n) \<in> set rs" and "sizeof_OccpSpace \<le> n" and "i < OCCP_MAX_WORKERS"
  shows "covered rs (worker_ctrl bar0 i + worker_reg_offset r) 4"
    and "d + 4 \<le> OCCP_WORKER_CONFIG_SIZE \<Longrightarrow> covered rs (worker_config bar0 i + d) 4"
proof -
  have n: "0x1000000 \<le> n" using assms(2) by (simp add: sizeof_OccpSpace_eq)
  have i: "i \<le> 14" using assms(3) by (simp add: OCCP_MAX_WORKERS_def)
  show "covered rs (worker_ctrl bar0 i + worker_reg_offset r) 4"
    using n i worker_reg_offset_bound [of r]
    by (intro covered_region [OF assms(1)]) (simp_all add: worker_ctrl_def occp_sizes)
  show "covered rs (worker_config bar0 i + d) 4" if "d + 4 \<le> OCCP_WORKER_CONFIG_SIZE"
    using n i that
    by (intro covered_region [OF assms(1)]) (simp_all add: worker_config_def occp_sizes)
qed

section \<open>The paged register window\<close>

text \<open>
  A 32-bit register address is split into a page, which goes to the page register of the
  NF10 worker, and an offset into its configuration area.
\<close>

definition reg_page :: "u32 \<Rightarrow> u32" where
  "reg_page reg_addr = reg_addr div word_of_nat OCCP_WORKER_CONFIG_SIZE"

definition reg_offset :: "u32 \<Rightarrow> u32" where
  "reg_offset reg_addr = reg_addr mod word_of_nat OCCP_WORKER_CONFIG_SIZE"

definition reg_window_addr :: "addr \<Rightarrow> u32 \<Rightarrow> addr" where
  "reg_window_addr regs offset = regs + 4 * unat (drop_bit 2 offset)"

lemma unat_reg_page: "unat (reg_page a) = unat a div 0x100000"
  by (simp add: reg_page_def OCCP_WORKER_CONFIG_SIZE_def unat_div)

lemma unat_reg_offset: "unat (reg_offset a) = unat a mod 0x100000"
  by (simp add: reg_offset_def OCCP_WORKER_CONFIG_SIZE_def unat_mod)

lemma reg_page_12_bits: "unat (reg_page a) < 4096"
  using unat_u32_less [of a] by (simp add: unat_reg_page div_less_iff_less_mult)

lemma unat_drop_bit_2: "unat (drop_bit 2 (w :: u32)) = unat w div 4"
  by (simp add: drop_bit_eq_div unat_div)

lemma reg_window_aligned:
  assumes "reg_offset a mod 4 = 0"
  shows "reg_window_addr regs (reg_offset a) = regs + unat a mod 0x100000"
proof -
  have "unat (reg_offset a) mod 4 = 0"
    using arg_cong [OF assms, of unat] by (simp add: unat_mod)
  then show ?thesis
    by (simp add: reg_window_addr_def unat_drop_bit_2 unat_reg_offset mod_0_imp_dvd)
qed

lemma reg_window_inside: "reg_window_addr regs (reg_offset a) + 4 \<le> regs + OCCP_WORKER_CONFIG_SIZE"
proof -
  have "unat (reg_offset a) < 0x100000" by (simp add: unat_reg_offset)
  then show ?thesis by (simp add: reg_window_addr_def unat_drop_bit_2 OCCP_WORKER_CONFIG_SIZE_def)
qed

text \<open>Page and offset determine the address.\<close>

lemma reg_split_inj:
  assumes "reg_page a = reg_page a'" and "reg_offset a = reg_offset a'"
  shows "a = a'"
proof -
  have "unat a div 0x100000 = unat a' div 0x100000" "unat a mod 0x100000 = unat a' mod 0x100000"
    using assms unat_reg_page unat_reg_offset by metis+
  then have "unat a = unat a'" by (metis div_mult_mod_eq)
  then show ?thesis by (simp add: word_unat_eq_iff)
qed

end
