(* ===== verification/NF10_Genl.thy ===== *)
theory NF10_Genl
  imports NF10_Xmit NF10_RxSystem NF10_Ocpi
begin

text \<open>
  The generic netlink family of the driver (\<^verbatim>\<open>nf10_genl.h\<close> and the \<^verbatim>\<open>genl_cmd_*\<close>
  handlers of \<^verbatim>\<open>nf10_eth_driver_main.c\<close>).  A handler gets the attributes of the request
  and returns an error code; a reply it sends is recorded in the state, a reply buffer it
  allocates and neither sends nor frees is counted as leaked.  What the kernel's netlink
  functions answer is the argument of type \<open>genl_kernel\<close>.
\<close>

section \<open>The protocol\<close>

definition NF10_GENL_A_MSG :: nat where "NF10_GENL_A_MSG = 1"
definition NF10_GENL_A_DMA_BUF :: nat where "NF10_GENL_A_DMA_BUF = 2"
definition NF10_GENL_A_ADDR32 :: nat where "NF10_GENL_A_ADDR32 = 3"
definition NF10_GENL_A_REGVAL32 :: nat where "NF10_GENL_A_REGVAL32 = 4"
definition NF10_GENL_A_OPCODE :: nat where "NF10_GENL_A_OPCODE = 5"
definition NF10_GENL_A_ERRNO :: nat where "NF10_GENL_A_ERRNO = 6"
definition NF10_GENL_A_MAX :: nat where "NF10_GENL_A_MAX = 6"

definition NF10_GENL_C_ECHO :: nat where "NF10_GENL_C_ECHO = 1"
definition NF10_GENL_C_DMA_TX :: nat where "NF10_GENL_C_DMA_TX = 2"
definition NF10_GENL_C_DMA_RX :: nat where "NF10_GENL_C_DMA_RX = 3"
definition NF10_GENL_C_REG_RD :: nat where "NF10_GENL_C_REG_RD = 4"
definition NF10_GENL_C_REG_WR :: nat where "NF10_GENL_C_REG_WR = 5"
definition NF10_GENL_C_NAPI_ENABLE :: nat where "NF10_GENL_C_NAPI_ENABLE = 6"
definition NF10_GENL_C_NAPI_DISABLE :: nat where "NF10_GENL_C_NAPI_DISABLE = 7"

lemmas genl_attr_defs = NF10_GENL_A_MSG_def NF10_GENL_A_DMA_BUF_def NF10_GENL_A_ADDR32_def
  NF10_GENL_A_REGVAL32_def NF10_GENL_A_OPCODE_def NF10_GENL_A_ERRNO_def

lemmas genl_cmd_defs = NF10_GENL_C_ECHO_def NF10_GENL_C_DMA_TX_def NF10_GENL_C_DMA_RX_def
  NF10_GENL_C_REG_RD_def NF10_GENL_C_REG_WR_def NF10_GENL_C_NAPI_ENABLE_def
  NF10_GENL_C_NAPI_DISABLE_def

definition EINVAL :: i32 where "EINVAL = 22"
definition ENOMEM :: i32 where "ENOMEM = 12"
definition EADDRNOTAVAIL :: i32 where "EADDRNOTAVAIL = 99"

text \<open>The attributes of a request: the payload of each attribute that is present.\<close>

type_synonym genl_info = "nat \<Rightarrow> bytes option"

text \<open>
  Answers of the kernel: whether a reply can be allocated and started, the error of
  appending an attribute of a type and length to the attributes so far (0 is success),
  and the error of sending a reply.
\<close>

record genl_kernel =
  genlmsg_new_ok :: bool
  genlmsg_put_reply_ok :: bool
  nla_put_err :: "nl_attrs \<Rightarrow> nat \<Rightarrow> u32 \<Rightarrow> i32"
  genlmsg_reply_err :: "nl_attrs \<Rightarrow> i32"

text \<open>
  The payload of an attribute starts right behind its header, so its address is never
  \<^verbatim>\<open>NULL\<close>; the handlers test for it all the same.
\<close>

definition kernel_nla_data :: "bytes \<Rightarrow> bytes option" where
  "kernel_nla_data na = Some na"

text \<open>\<^verbatim>\<open>*(uint32_t*)nla_data(na)\<close>: reading past the payload is a fault.\<close>

definition load_u32 :: "bytes \<Rightarrow> u32 option" where
  "load_u32 data = (if 4 \<le> length data then Some (of_le32 data) else None)"

text \<open>\<^verbatim>\<open>nla_put_string\<close> copies up to and including the first NUL byte.\<close>

definition c_string :: "bytes \<Rightarrow> bytes option" where
  "c_string bs = (if 0 \<in> set bs then Some (takeWhile (\<lambda>b. b \<noteq> 0) bs @ [0]) else None)"

definition abandon_reply :: "nf10 \<Rightarrow> nf10" where
  "abandon_reply s = s\<lparr>leaked_replies := leaked_replies s + 1\<rparr>"

text \<open>\<^verbatim>\<open>genlmsg_end\<close> and \<^verbatim>\<open>genlmsg_reply\<close>, which consumes the buffer even when it fails.\<close>

definition genlmsg_reply :: "genl_kernel \<Rightarrow> nat \<Rightarrow> nl_attrs \<Rightarrow> nf10 \<Rightarrow> i32 \<times> nf10" where
  "genlmsg_reply k cmd attrs s =
     (let err = genlmsg_reply_err k attrs in
      if err \<noteq> 0 then (err, s) else (0, s\<lparr>replies := replies s @ [(cmd, attrs)]\<rparr>))"

section \<open>Handlers\<close>

definition genl_cmd_echo :: "genl_kernel \<Rightarrow> genl_info option \<Rightarrow> nf10 \<Rightarrow> (i32 \<times> nf10) option" where
  "genl_cmd_echo k info s =
    (case info of
       None \<Rightarrow> Some (- EINVAL, s)
     | Some attrs \<Rightarrow>
        (case attrs NF10_GENL_A_MSG of
           None \<Rightarrow> Some (0, s)
         | Some na \<Rightarrow>
            (case kernel_nla_data na of
               None \<Rightarrow> Some (0, s)
             | Some msg \<Rightarrow>
                if \<not> genlmsg_new_ok k then Some (- ENOMEM, s)
                else if \<not> genlmsg_put_reply_ok k then Some (0, abandon_reply s)
                else do {
                  str \<leftarrow> c_string msg;
                  let err = nla_put_err k [] NF10_GENL_A_MSG (word_of_nat (length str));
                  if err \<noteq> 0 then Some (err, abandon_reply s)
                  else Some (genlmsg_reply k NF10_GENL_C_ECHO [(NF10_GENL_A_MSG, str)] s)
                })))"

text \<open>The message is capped to the size of a DMA buffer; neither the lock nor a barrier is used.\<close>

definition genl_cmd_dma_tx :: "genl_info option \<Rightarrow> nf10 \<Rightarrow> (i32 \<times> nf10) option" where
  "genl_cmd_dma_tx info s =
    (case info of
       None \<Rightarrow> Some (- EINVAL, s)
     | Some attrs \<Rightarrow>
        (case attrs NF10_GENL_A_MSG of
           None \<Rightarrow> Some (0, s)
         | Some na_msg \<Rightarrow>
            if kernel_nla_data na_msg = None then Some (0, s)
            else (case attrs NF10_GENL_A_OPCODE of
               None \<Rightarrow> Some (0, s)
             | Some na_opcode \<Rightarrow>
                if kernel_nla_data na_opcode = None then Some (0, s)
                else do {
                  f \<leftarrow> tx_flag s;
                  if f = 0 then Some (0, s)
                  else do {
                    let msg_len = (if unat DMA_BUF_SIZE < length na_msg then DMA_BUF_SIZE
                                   else word_of_nat (length na_msg));
                    opcode \<leftarrow> load_u32 na_opcode;
                    s \<leftarrow> tx_copy_packet na_msg msg_len opcode s;
                    s \<leftarrow> set_tx_flag 0 s;
                    s \<leftarrow> mmio_wr32 (doorbell (tx_dma_stream s)) 1 s;
                    Some (0, tx_advance s)
                  }
                })))"

text \<open>The part of \<open>genl_cmd_dma_rx\<close> that runs when the slot at the index is full.\<close>

definition dma_rx_take :: "genl_kernel \<Rightarrow> nf10 \<Rightarrow> (i32 \<times> nl_attrs \<times> nf10) option" where
  "dma_rx_take k s = (let st = rx_dma_stream s; i = buf_index st in do {
     len \<leftarrow> load32 (metadata_addr st i + META_LENGTH) s;
     let err = nla_put_err k [] NF10_GENL_A_DMA_BUF len;
     if err \<noteq> 0 then Some (err, [], s)
     else do {
       data \<leftarrow> load_bytes (buffer_addr st i) (unat len) s;
       opcode \<leftarrow> load32 (metadata_addr st i + META_OPCODE) s;
       let attrs = [(NF10_GENL_A_DMA_BUF, data)];
       let err = nla_put_err k attrs NF10_GENL_A_OPCODE 4;
       if err \<noteq> 0 then Some (err, attrs, s)
       else do {
         s \<leftarrow> set_rx_flag 0 s;
         s \<leftarrow> mmio_wr32 (doorbell (rx_dma_stream s)) 1 s;
         Some (0, attrs @ [(NF10_GENL_A_OPCODE, le32 opcode)], rx_advance s)
       }
     }
   })"

definition genl_cmd_dma_rx :: "genl_kernel \<Rightarrow> genl_info option \<Rightarrow> nf10 \<Rightarrow> (i32 \<times> nf10) option" where
  "genl_cmd_dma_rx k info s =
    (case info of
       None \<Rightarrow> Some (- EINVAL, s)
     | Some attrs \<Rightarrow>
        if \<not> genlmsg_new_ok k then Some (- ENOMEM, s)
        else if \<not> genlmsg_put_reply_ok k then Some (0, abandon_reply s)
        else do {
          f \<leftarrow> rx_flag s;
          if f = 1 then do {
            (err, attrs, s) \<leftarrow> dma_rx_take k s;
            if err \<noteq> 0 then Some (err, abandon_reply s)
            else Some (genlmsg_reply k NF10_GENL_C_DMA_RX attrs s)
          } else Some (genlmsg_reply k NF10_GENL_C_DMA_RX [] s)
        })"

text \<open>The label \<^verbatim>\<open>send_error\<close> that ends the two register commands.\<close>

definition send_error :: "genl_kernel \<Rightarrow> nat \<Rightarrow> nl_attrs \<Rightarrow> i32 \<Rightarrow> nf10 \<Rightarrow> i32 \<times> nf10" where
  "send_error k cmd attrs err s =
     (let e = nla_put_err k attrs NF10_GENL_A_ERRNO 4 in
      if e \<noteq> 0 then (e, abandon_reply s)
      else genlmsg_reply k cmd (attrs @ [(NF10_GENL_A_ERRNO, le32 err)]) s)"

definition genl_cmd_reg_rd :: "genl_kernel \<Rightarrow> hardware \<Rightarrow> genl_info option \<Rightarrow> nf10 \<Rightarrow> (i32 \<times> nf10) option" where
  "genl_cmd_reg_rd k hw info s =
    (case info of
       None \<Rightarrow> Some (- EINVAL, s)
     | Some attrs \<Rightarrow>
        if \<not> genlmsg_new_ok k then Some (- ENOMEM, s)
        else if \<not> genlmsg_put_reply_ok k then Some (0, abandon_reply s)
        else (case attrs NF10_GENL_A_ADDR32 of
           None \<Rightarrow> Some (send_error k NF10_GENL_C_REG_RD [] (- 1) s)
         | Some na \<Rightarrow>
            (case kernel_nla_data na of
               None \<Rightarrow> Some (send_error k NF10_GENL_C_REG_RD [] (- 1) s)
             | Some data \<Rightarrow> do {
                 reg_addr \<leftarrow> load_u32 data;
                 if reg_offset reg_addr mod 4 \<noteq> 0
                 then Some (send_error k NF10_GENL_C_REG_RD [] (- 1) s)
                 else do {
                   s \<leftarrow> mmio_wr32 (nf10_ctrl s + worker_reg_offset R_pageWindow) (reg_page reg_addr) s;
                   (reg_val, s) \<leftarrow> mmio_rd32 hw (reg_window_addr (nf10_regs s) (reg_offset reg_addr)) (mb s);
                   let err = nla_put_err k [] NF10_GENL_A_REGVAL32 4;
                   if err \<noteq> 0 then Some (send_error k NF10_GENL_C_REG_RD [] err s)
                   else Some (send_error k NF10_GENL_C_REG_RD [(NF10_GENL_A_REGVAL32, le32 reg_val)] 0 s)
                 }
               })))"

definition genl_cmd_reg_wr :: "genl_kernel \<Rightarrow> genl_info option \<Rightarrow> nf10 \<Rightarrow> (i32 \<times> nf10) option" where
  "genl_cmd_reg_wr k info s =
    (case info of
       None \<Rightarrow> Some (- EINVAL, s)
     | Some attrs \<Rightarrow>
        if \<not> genlmsg_new_ok k then Some (- ENOMEM, s)
        else if \<not> genlmsg_put_reply_ok k then Some (0, abandon_reply s)
        else (case attrs NF10_GENL_A_ADDR32 of
           None \<Rightarrow> Some (send_error k NF10_GENL_C_REG_WR [] (- 1) s)
         | Some na_addr \<Rightarrow>
            if kernel_nla_data na_addr = None then Some (send_error k NF10_GENL_C_REG_WR [] (- 1) s)
            else (case attrs NF10_GENL_A_REGVAL32 of
               None \<Rightarrow> Some (send_error k NF10_GENL_C_REG_WR [] (- 1) s)
             | Some na_val \<Rightarrow>
                if kernel_nla_data na_val = None then Some (send_error k NF10_GENL_C_REG_WR [] (- 1) s)
                else do {
                  reg_addr \<leftarrow> load_u32 na_addr;
                  if reg_offset reg_addr mod 4 \<noteq> 0
                  then Some (send_error k NF10_GENL_C_REG_WR [] (- 1) s)
                  else do {
                    reg_val \<leftarrow> load_u32 na_val;
                    s \<leftarrow> mmio_wr32 (nf10_ctrl s + worker_reg_offset R_pageWindow) (reg_page reg_addr) s;
                    s \<leftarrow> mmio_wr32 (reg_window_addr (nf10_regs s) (reg_offset reg_addr)) reg_val (mb s);
                    Some (send_error k NF10_GENL_C_REG_WR [] 0 s)
                  }
                })))"

definition genl_cmd_napi_enable :: "nf10 \<Rightarrow> (i32 \<times> nf10) option" where
  "genl_cmd_napi_enable s = do {
     s \<leftarrow> add_timer (del_timer (s\<lparr>timer_expires := jiffies s + RX_POLL_INTERVAL\<rparr>));
     Some (0, s)
   }"

definition genl_cmd_napi_disable :: "nf10 \<Rightarrow> (i32 \<times> nf10) option" where
  "genl_cmd_napi_disable s = Some (0, del_timer s)"

text \<open>
  The operations table: the kernel checks the attributes against the policy, in which only
  \<open>NF10_GENL_A_MSG\<close> has an entry, a NUL-terminated string, and calls the handler of the
  command.  A command without an operation is refused by the kernel.
\<close>

definition nf10_genl_policy_ok :: "genl_info \<Rightarrow> bool" where
  "nf10_genl_policy_ok attrs \<longleftrightarrow>
     (case attrs NF10_GENL_A_MSG of None \<Rightarrow> True | Some msg \<Rightarrow> 0 \<in> set msg)"

definition genl_all_ops ::
  "(nat \<times> (genl_kernel \<Rightarrow> hardware \<Rightarrow> genl_info option \<Rightarrow> nf10 \<Rightarrow> (i32 \<times> nf10) option)) list" where
  "genl_all_ops =
    [(NF10_GENL_C_ECHO, \<lambda>k hw info s. genl_cmd_echo k info s),
     (NF10_GENL_C_DMA_TX, \<lambda>k hw info s. genl_cmd_dma_tx info s),
     (NF10_GENL_C_DMA_RX, \<lambda>k hw info s. genl_cmd_dma_rx k info s),
     (NF10_GENL_C_REG_RD, \<lambda>k hw info s. genl_cmd_reg_rd k hw info s),
     (NF10_GENL_C_REG_WR, \<lambda>k hw info s. genl_cmd_reg_wr k info s),
     (NF10_GENL_C_NAPI_ENABLE, \<lambda>k hw info s. genl_cmd_napi_enable s),
     (NF10_GENL_C_NAPI_DISABLE, \<lambda>k hw info s. genl_cmd_napi_disable s)]"


section \<open>Register access\<close>

text \<open>
  The kernel can deliver replies, and the NF10 worker of a probed card is mapped: its
  control page and its 1 MiB register window, which do not overlap.
\<close>

definition genl_up :: "genl_kernel \<Rightarrow> bool" where
  "genl_up k \<longleftrightarrow> genlmsg_new_ok k \<and> genlmsg_put_reply_ok k \<and>
     (\<forall>attrs t n. nla_put_err k attrs t n = 0) \<and> (\<forall>attrs. genlmsg_reply_err k attrs = 0)"

definition regs_mapped :: "nf10 \<Rightarrow> bool" where
  "regs_mapped s \<longleftrightarrow> (\<exists>bar0 n. (bar0, n) \<in> set (mmio_live s) \<and> sizeof_OccpSpace \<le> n \<and>
     nf10_ctrl s = worker_ctrl bar0 WORKER_NF10 \<and> nf10_regs s = worker_config bar0 WORKER_NF10)"

definition page_reg :: "nf10 \<Rightarrow> addr" where
  "page_reg s = nf10_ctrl s + worker_reg_offset R_pageWindow"

definition reg_cell :: "nf10 \<Rightarrow> u32 \<Rightarrow> addr" where
  "reg_cell s a = reg_window_addr (nf10_regs s) (reg_offset a)"

lemma reg_frame [simp]:
  "reg_cell (s\<lparr>bus := t\<rparr>) a = reg_cell s a" "page_reg (s\<lparr>bus := t\<rparr>) = page_reg s"
  by (simp_all add: reg_cell_def page_reg_def)

lemma regs_mapped_covered:
  assumes "regs_mapped s"
  shows "covered (mmio_live s) (page_reg s) 4" "covered (mmio_live s) (reg_cell s a) 4"
    "page_reg s \<noteq> reg_cell s a"
proof -
  obtain bar0 n where b: "(bar0, n) \<in> set (mmio_live s)" "sizeof_OccpSpace \<le> n"
    "nf10_ctrl s = worker_ctrl bar0 WORKER_NF10" "nf10_regs s = worker_config bar0 WORKER_NF10"
    using assms by (auto simp: regs_mapped_def)
  have i: "WORKER_NF10 < OCCP_MAX_WORKERS" by (simp add: WORKER_NF10_def OCCP_MAX_WORKERS_def)
  define d where "d = 4 * unat (drop_bit 2 (reg_offset a))"
  have d: "reg_cell s a = worker_config bar0 WORKER_NF10 + d" "d + 4 \<le> OCCP_WORKER_CONFIG_SIZE"
    using reg_window_inside [of "nf10_regs s" a]
    by (simp_all add: reg_cell_def reg_window_addr_def d_def b(4))
  show "covered (mmio_live s) (page_reg s) 4"
    using occp_covered(1) [OF b(1,2) i, of R_pageWindow] b(3)
    by (simp add: page_reg_def del: worker_reg_offset.simps)
  show "covered (mmio_live s) (reg_cell s a) 4"
    using occp_covered(2) [OF b(1,2) i d(2)] d(1) by simp
  show "page_reg s \<noteq> reg_cell s a"
    using d by (simp add: page_reg_def b(3) worker_ctrl_def worker_config_def occp_sizes WORKER_NF10_def)
qed

lemma genl_upD:
  assumes "genl_up k"
  shows "genlmsg_new_ok k" "genlmsg_put_reply_ok k" "nla_put_err k attrs t n = 0"
    "genlmsg_reply_err k attrs = 0"
  using assms by (simp_all add: genl_up_def)

lemma send_error_up:
  "genl_up k \<Longrightarrow> send_error k cmd attrs err s
     = (0, s\<lparr>replies := replies s @ [(cmd, attrs @ [(NF10_GENL_A_ERRNO, le32 err)])]\<rparr>)"
  by (simp add: send_error_def genlmsg_reply_def genl_upD)

lemma reg_wr_effect:
  assumes "genl_up k" and "regs_mapped s"
    and "attrs NF10_GENL_A_ADDR32 = Some (le32 a)" and "attrs NF10_GENL_A_REGVAL32 = Some (le32 v)"
    and "reg_offset a mod 4 = 0"
  shows "genl_cmd_reg_wr k (Some attrs) s = Some (0, s\<lparr>
    bus := bus s @ [MmioWr (page_reg s) (reg_page a), Barrier, MmioWr (reg_cell s a) v],
    replies := replies s @ [(NF10_GENL_C_REG_WR, [(NF10_GENL_A_ERRNO, le32 0)])]\<rparr>)"
  using assms regs_mapped_covered [OF assms(2)]
  by (simp add: genl_cmd_reg_wr_def genl_upD kernel_nla_data_def load_u32_def mmio_wr32_def mb_def
      page_reg_def [symmetric] reg_cell_def [symmetric] send_error_up del: worker_reg_offset.simps)

lemma reg_rd_effect:
  fixes hw :: hardware
  assumes "genl_up k" and "regs_mapped s"
    and "attrs NF10_GENL_A_ADDR32 = Some (le32 a)" and "reg_offset a mod 4 = 0"
  defines "v \<equiv> hw (bus s @ [MmioWr (page_reg s) (reg_page a), Barrier]) (reg_cell s a)"
  shows "genl_cmd_reg_rd k hw (Some attrs) s = Some (0, s\<lparr>
    bus := bus s @ [MmioWr (page_reg s) (reg_page a), Barrier, MmioRd (reg_cell s a) v],
    replies := replies s @ [(NF10_GENL_C_REG_RD,
      [(NF10_GENL_A_REGVAL32, le32 v), (NF10_GENL_A_ERRNO, le32 0)])]\<rparr>)"
  using assms(1-4) regs_mapped_covered [OF assms(2)]
  by (simp add: genl_cmd_reg_rd_def genl_upD kernel_nla_data_def load_u32_def mmio_wr32_def mmio_rd32_def mb_def
      page_reg_def [symmetric] reg_cell_def [symmetric] send_error_up v_def del: worker_reg_offset.simps)

text \<open>
  A card with a paged register file: a write to the page register selects the page, any
  other write stores into the selected page, a read returns what the selected page holds.
\<close>

fun card_step :: "addr \<Rightarrow> bus_event \<Rightarrow> u32 \<times> (u32 \<Rightarrow> addr \<Rightarrow> u32) \<Rightarrow> u32 \<times> (u32 \<Rightarrow> addr \<Rightarrow> u32)" where
  "card_step pw (MmioWr a v) (page, f) =
     (if a = pw then (v, f) else (page, f(page := (f page)(a := v))))"
| "card_step pw _ st = st"

definition card_regs :: "addr \<Rightarrow> bus_event list \<Rightarrow> u32 \<times> (u32 \<Rightarrow> addr \<Rightarrow> u32)" where
  "card_regs pw trace = fold (card_step pw) trace (0, \<lambda>page a. 0)"

definition paged_card :: "addr \<Rightarrow> hardware" where
  "paged_card pw trace a = (case card_regs pw trace of (page, f) \<Rightarrow> f page a)"

lemma reg_cell_inj:
  assumes "reg_cell s a = reg_cell s b" and "reg_offset a mod 4 = 0" and "reg_offset b mod 4 = 0"
  shows "reg_offset a = reg_offset b"
proof -
  have "unat a mod 0x100000 = unat b mod 0x100000"
    using assms by (simp add: reg_cell_def reg_window_aligned)
  then show ?thesis
    by (simp add: unat_reg_offset [symmetric] word_unat_eq_iff)
qed

lemma reg_write_read_effect:
  assumes up: "genl_up k" and mapped: "regs_mapped s"
    and hw: "\<forall>trace c. hw trace (reg_cell s c) = paged_card (page_reg s) trace (reg_cell s c)"
    and w: "wr NF10_GENL_A_ADDR32 = Some (le32 a)" "wr NF10_GENL_A_REGVAL32 = Some (le32 v)"
    and r: "rd NF10_GENL_A_ADDR32 = Some (le32 b)"
    and align: "reg_offset a mod 4 = 0" "reg_offset b mod 4 = 0"
  shows "\<exists>s1 s2. genl_cmd_reg_wr k (Some wr) s = Some (0, s1) \<and>
    replies s1 = replies s @ [(NF10_GENL_C_REG_WR, [(NF10_GENL_A_ERRNO, le32 0)])] \<and>
    genl_cmd_reg_rd k hw (Some rd) s1 = Some (0, s2) \<and>
    replies s2 = replies s1 @ [(NF10_GENL_C_REG_RD,
      [(NF10_GENL_A_REGVAL32,
        le32 (if b = a then v else snd (card_regs (page_reg s) (bus s)) (reg_page b) (reg_cell s b))),
       (NF10_GENL_A_ERRNO, le32 0)])]"
proof -
  define s1 where "s1 = s\<lparr>
    bus := bus s @ [MmioWr (page_reg s) (reg_page a), Barrier, MmioWr (reg_cell s a) v],
    replies := replies s @ [(NF10_GENL_C_REG_WR, [(NF10_GENL_A_ERRNO, le32 0)])]\<rparr>"
  have s1: "regs_mapped s1" "page_reg s1 = page_reg s" "reg_cell s1 c = reg_cell s c" for c
    using mapped by (simp_all add: s1_def regs_mapped_def page_reg_def reg_cell_def)
  note ne = regs_mapped_covered(3) [OF mapped]
  have "reg_page b = reg_page a \<and> reg_cell s b = reg_cell s a \<longleftrightarrow> b = a"
    using reg_cell_inj [of s b a] reg_split_inj [of b a] align by auto
  moreover obtain page f where "card_regs (page_reg s) (bus s) = (page, f)" by fastforce
  ultimately have "paged_card (page_reg s) (bus s1 @ [MmioWr (page_reg s) (reg_page b), Barrier]) (reg_cell s b)
      = (if b = a then v else snd (card_regs (page_reg s) (bus s)) (reg_page b) (reg_cell s b))"
    using ne [of a, symmetric] by (auto simp: s1_def paged_card_def card_regs_def)
  then show ?thesis
    using reg_wr_effect [where attrs = wr and a = a and v = v, OF up mapped w align(1)]
      reg_rd_effect [where s = s1 and hw = hw and attrs = rd and a = b, OF up s1(1) r align(2)] hw
    by (simp add: s1_def [symmetric] s1(2,3)) (simp add: s1_def)
qed

lemma reg_rejected:
  assumes "genl_up k"
    and "\<forall>data. attrs NF10_GENL_A_ADDR32 = Some data \<longrightarrow>
           4 \<le> length data \<and> reg_offset (of_le32 data) mod 4 \<noteq> 0"
  shows "genl_cmd_reg_rd k hw (Some attrs) s = Some (0, s\<lparr>replies := replies s @
           [(NF10_GENL_C_REG_RD, [(NF10_GENL_A_ERRNO, le32 (- 1))])]\<rparr>) \<and>
    genl_cmd_reg_wr k (Some attrs) s = Some (0, s\<lparr>replies := replies s @
           [(NF10_GENL_C_REG_WR, [(NF10_GENL_A_ERRNO, le32 (- 1))])]\<rparr>)"
  using assms
  by (auto simp: genl_cmd_reg_rd_def genl_cmd_reg_wr_def genl_upD kernel_nla_data_def load_u32_def send_error_up
      split: option.splits)

text \<open>
  Claim C19.  A register write through the family followed by a register read: on a card
  with a paged register file the read returns the written value when the addresses are
  equal, and what that register held before when they are different.
\<close>

theorem reg_write_then_read:
  assumes up: "genl_up k" and mapped: "regs_mapped s"
    and hw: "\<forall>trace c. hw trace (reg_cell s c) = paged_card (page_reg s) trace (reg_cell s c)"
    and w: "wr NF10_GENL_A_ADDR32 = Some (le32 a)" "wr NF10_GENL_A_REGVAL32 = Some (le32 v)"
    and r: "rd NF10_GENL_A_ADDR32 = Some (le32 b)"
    and align: "reg_offset a mod 4 = 0" "reg_offset b mod 4 = 0"
  shows "\<exists>s1 s2. genl_cmd_reg_wr k (Some wr) s = Some (0, s1) \<and>
    genl_cmd_reg_rd k hw (Some rd) s1 = Some (0, s2) \<and>
    last (replies s2) = (NF10_GENL_C_REG_RD,
      [(NF10_GENL_A_REGVAL32,
        le32 (if b = a then v else snd (card_regs (page_reg s) (bus s)) (reg_page b) (reg_cell s b))),
       (NF10_GENL_A_ERRNO, le32 0)])"
  using reg_write_read_effect [where wr = wr and rd = rd and hw = hw, OF assms] by fastforce

text \<open>
  A register command that does not name an aligned register is answered with the
  error code -1 and never touches the card: no bus event, no value in the reply.
\<close>

lemma reg_command_rejected:
  assumes "genl_up k"
    and "\<forall>data. attrs NF10_GENL_A_ADDR32 = Some data \<longrightarrow>
           4 \<le> length data \<and> reg_offset (of_le32 data) mod 4 \<noteq> 0"
  shows "genl_cmd_reg_rd k hw (Some attrs) s = Some (0, s\<lparr>replies := replies s @
           [(NF10_GENL_C_REG_RD, [(NF10_GENL_A_ERRNO, le32 (- 1))])]\<rparr>) \<and>
    genl_cmd_reg_wr k (Some attrs) s = Some (0, s\<lparr>replies := replies s @
           [(NF10_GENL_C_REG_WR, [(NF10_GENL_A_ERRNO, le32 (- 1))])]\<rparr>)"
  using reg_rejected [where attrs = attrs, OF assms] .

section \<open>DMA commands\<close>

definition dma_tx_request :: "bytes \<Rightarrow> bytes \<Rightarrow> genl_info" where
  "dma_tx_request msg opcode = [NF10_GENL_A_MSG \<mapsto> msg, NF10_GENL_A_OPCODE \<mapsto> opcode]"

lemma dma_tx_effect:
  assumes wf: "stream_wf (dma_cpu_bufs s) (tx_dma_stream s)" "region_live s (tx_dma_stream s)"
    and free: "tx_flag s \<noteq> Some 0" and db: "covered (mmio_live s) (doorbell (tx_dma_stream s)) 4"
    and "4 \<le> length oc"
  defines "b \<equiv> buffers (tx_dma_stream s)" and "N \<equiv> unat (dma_cpu_bufs s)"
    and "i \<equiv> unat (buf_index (tx_dma_stream s))"
  shows "genl_cmd_dma_tx (Some (dma_tx_request msg oc)) s =
    Some (0, s\<lparr>kmem := slot_fill b N 0 (kmem s) i (take 2048 msg, of_le32 oc),
        bus := bus s @ [MemWr (slot_buf b i) (take 2048 msg),
                        MemWr (slot_meta b N i + META_LENGTH) (le32 (word_of_nat (min 2048 (length msg)))),
                        MemWr (slot_meta b N i + META_OPCODE) (le32 (of_le32 oc)),
                        MemWr (slot_flag b N i) (le32 0),
                        MmioWr (doorbell (tx_dma_stream s)) 1],
        tx_dma_stream := (tx_dma_stream s)\<lparr>buf_index :=
                            ring_next (dma_cpu_bufs s) (buf_index (tx_dma_stream s))\<rparr>\<rparr>)"
proof -
  define len :: u32 where "len = (if unat DMA_BUF_SIZE < length msg then DMA_BUF_SIZE
                                  else word_of_nat (length msg))"
  have len: "unat len = min 2048 (length msg)" "len = word_of_nat (min 2048 (length msg))"
    by (auto simp: len_def DMA_BUF_SIZE_def unat_of_nat min_def)
  then have bounds: "unat len \<le> 2048" "unat len \<le> length msg" and data: "take (unat len) msg = take 2048 msg"
    by (simp_all add: min_def)
  note cp = tx_copy_packet_eq [OF wf bounds, of "of_le32 oc", folded b_def N_def i_def, unfolded data]
  define s1 where "s1 = s\<lparr>kmem := wr32 (wr32 (wr_bytes (kmem s) (slot_buf b i) (take 2048 msg))
        (slot_meta b N i + META_LENGTH) len) (slot_meta b N i + META_OPCODE) (of_le32 oc),
      bus := bus s @ [MemWr (slot_buf b i) (take 2048 msg),
                      MemWr (slot_meta b N i + META_LENGTH) (le32 len),
                      MemWr (slot_meta b N i + META_OPCODE) (le32 (of_le32 oc))]\<rparr>"
  have wf1: "stream_wf (dma_cpu_bufs s1) (tx_dma_stream s1)" "region_live s1 (tx_dma_stream s1)"
    and same: "tx_dma_stream s1 = tx_dma_stream s" "dma_cpu_bufs s1 = dma_cpu_bufs s"
    using wf by (simp_all add: s1_def region_live_def)
  note fl = set_tx_flag_eq [OF wf1, of 0, unfolded same, folded b_def N_def i_def]
  obtain f where f: "tx_flag s = Some f" "f \<noteq> 0" using free tx_flag_eq [OF wf] by auto
  have "genl_cmd_dma_tx (Some (dma_tx_request msg oc)) s = do {
      s \<leftarrow> tx_copy_packet msg len (of_le32 oc) s;
      s \<leftarrow> set_tx_flag 0 s;
      s \<leftarrow> mmio_wr32 (doorbell (tx_dma_stream s)) 1 s;
      Some (0, tx_advance s)
    }"
    using f assms(5)
    by (simp add: genl_cmd_dma_tx_def dma_tx_request_def kernel_nla_data_def load_u32_def len_def
        genl_attr_defs)
  also have "\<dots> = Some (0, tx_advance (s1\<lparr>kmem := wr32 (kmem s1) (slot_flag b N i) 0,
      bus := bus s1 @ [MemWr (slot_flag b N i) (le32 0), MmioWr (doorbell (tx_dma_stream s)) 1]\<rparr>))"
    using cp fl db by (simp add: s1_def [symmetric] mmio_wr32_def same) (simp add: s1_def)
  finally show ?thesis
    by (simp add: s1_def tx_advance_def slot_fill_def len(2) min.commute)
qed

text \<open>
  The DMA command appends the message, cut to the size of a DMA buffer, with the
  requested opcode to the TX queue when a slot is free, and leaves the queue alone when the
  ring is full.  The answer is 0 in both cases.
\<close>

theorem dma_tx_enqueues:
  assumes inv: "tx_ring_inv s h k" and db: "covered (mmio_live s) (doorbell (tx_dma_stream s)) 4"
    and oc: "4 \<le> length oc"
  shows "\<exists>s'. genl_cmd_dma_tx (Some (dma_tx_request msg oc)) s = Some (0, s') \<and>
    (if k < unat (dma_cpu_bufs s)
     then tx_ring_inv s' h (Suc k) \<and>
          tx_packets_queued s' h (Suc k) = tx_packets_queued s h k @ [(take 2048 msg, of_le32 oc)]
     else s' = s)"
proof (cases "k < unat (dma_cpu_bufs s)")
  case True
  then have free: "tx_flag s \<noteq> Some 0" using tx_flag_full_iff [OF inv] by simp
  note call = dma_tx_effect [OF tx_ring_invD(1,2) [OF inv] free db oc, of msg]
  have fits: "fits_slot (take 2048 msg, of_le32 oc)" by (simp add: fits_slot_def)
  obtain s' where s': "genl_cmd_dma_tx (Some (dma_tx_request msg oc)) s = Some (0, s')"
    "dma_cpu_bufs s' = dma_cpu_bufs s" "live s' = live s"
    "tx_dma_stream s' = (tx_dma_stream s)\<lparr>buf_index :=
       ring_next (dma_cpu_bufs s) (buf_index (tx_dma_stream s))\<rparr>"
    "kmem s' = slot_fill (buffers (tx_dma_stream s)) (unat (dma_cpu_bufs s)) 0 (kmem s)
       (unat (buf_index (tx_dma_stream s))) (take 2048 msg, of_le32 oc)"
    using call by auto
  then show ?thesis
    using tx_slot_filled(1,2) [OF inv True fits s'(2-5)] True by auto
next
  case False
  then have "tx_flag s = Some 0"
    using tx_flag_full_iff [OF inv] ring_windowD(2) [OF tx_ring_invD(3) [OF inv]] by simp
  then show ?thesis
    using False by (simp add: genl_cmd_dma_tx_def dma_tx_request_def kernel_nla_data_def genl_attr_defs)
qed

text \<open>
  Unlike a transmission of the network stack, the DMA command does not look at
  the lock of the TX region, and it publishes the slot and rings the doorbell without any
  barrier: the events it adds to the bus contain none.
\<close>

lemma dma_tx_without_lock_or_barrier:
  assumes "tx_ring_inv s h k" and "k < unat (dma_cpu_bufs s)"
    and "covered (mmio_live s) (doorbell (tx_dma_stream s)) 4" and "4 \<le> length oc" and "tx_locked s"
  shows "\<exists>s' evs. genl_cmd_dma_tx (Some (dma_tx_request msg oc)) s = Some (0, s') \<and>
    bus s' = bus s @ evs \<and> Barrier \<notin> set evs \<and>
    MmioWr (doorbell (tx_dma_stream s)) 1 \<in> set evs \<and> tx_locked s' \<and>
    buf_index (tx_dma_stream s') = ring_next (dma_cpu_bufs s) (buf_index (tx_dma_stream s))"
proof -
  have free: "tx_flag s \<noteq> Some 0" using tx_flag_full_iff [OF assms(1)] assms(2) by simp
  show ?thesis
    using dma_tx_effect [OF tx_ring_invD(1,2) [OF assms(1)] free assms(3,4), of msg] assms(5)
    by auto
qed


lemma dma_rx_take_effect:
  assumes inv: "rx_ring_inv s (Suc k)" and db: "covered (mmio_live s) (doorbell (rx_dma_stream s)) 4"
    and room: "\<forall>attrs ty n. nla_put_err kn attrs ty n = 0"
  defines "p \<equiv> hd (rx_packets_queued s (Suc k))"
  shows "dma_rx_take kn s = Some (0,
    [(NF10_GENL_A_DMA_BUF, fst p), (NF10_GENL_A_OPCODE, le32 (snd p))],
    rx_consumed [rx_flag_cleared s, MmioWr (doorbell (rx_dma_stream s)) 1] s)"
proof -
  note parts = rx_ring_invD [OF inv]
  note acc = stream_accesses [OF parts(1,2)]
  have iN: "unat (buf_index (rx_dma_stream s)) < unat (dma_cpu_bufs s)"
    by (rule stream_wfD(3) [OF parts(1)])
  have p: "p = slot_packet (buffers (rx_dma_stream s)) (unat (dma_cpu_bufs s)) (kmem s)
                 (unat (buf_index (rx_dma_stream s)))"
    using iN by (simp add: p_def rx_packets_queued_def ring_contents_Suc_front)
  have "fits_slot p"
    using parts(5) iN by (simp add: p rx_packets_queued_def ring_contents_Suc_front)
  then have "unat (rd32 (kmem s) (slot_meta (buffers (rx_dma_stream s)) (unat (dma_cpu_bufs s))
      (unat (buf_index (rx_dma_stream s))) + META_LENGTH)) \<le> 2048"
    by (simp add: p slot_packet_def fits_slot_def)
  from acc(4) [OF this] show ?thesis
    using acc(1-3) parts(1,2) room db
    by (simp add: dma_rx_take_def Let_def p slot_packet_def set_rx_flag_eq mmio_wr32_def
        rx_consumed_def rx_flag_cleared_def rx_advance_def)
qed

text \<open>
  The DMA receive command answers with the packet at the front of the RX queue
  and its opcode and removes it from the queue; on an empty ring it answers with no
  attributes and changes nothing else.
\<close>

theorem dma_rx_dequeues:
  assumes "genl_up kn" and "rx_ring_inv s k" and "covered (mmio_live s) (doorbell (rx_dma_stream s)) 4"
  shows "\<exists>s'. genl_cmd_dma_rx kn (Some attrs) s = Some (0, s') \<and>
    (case rx_packets_queued s k of
       [] \<Rightarrow> s' = s\<lparr>replies := replies s @ [(NF10_GENL_C_DMA_RX, [])]\<rparr>
     | (data, opcode) # rest \<Rightarrow>
         rx_ring_inv s' (k - 1) \<and> rx_packets_queued s' (k - 1) = rest \<and> received s' = received s \<and>
         replies s' = replies s @ [(NF10_GENL_C_DMA_RX,
           [(NF10_GENL_A_DMA_BUF, data), (NF10_GENL_A_OPCODE, le32 opcode)])])"
proof (cases k)
  case 0
  then show ?thesis
    using assms rx_flag_eq [OF assms(2)]
    by (simp add: genl_cmd_dma_rx_def genl_upD genlmsg_reply_def rx_packets_queued_def ring_contents_def)
next
  case (Suc k')
  define evs where "evs = [rx_flag_cleared s, MmioWr (doorbell (rx_dma_stream s)) 1]"
  have inv: "rx_ring_inv s (Suc k')" using assms(2) Suc by simp
  have frame: "rx_ring_inv (x\<lparr>replies := y\<rparr>) j = rx_ring_inv x j"
    "rx_packets_queued (x\<lparr>replies := y\<rparr>) j = rx_packets_queued x j" for x y j
    by (simp_all add: rx_ring_inv_def rx_packets_queued_def rx_flags_binary_def region_live_def)
  have "genl_cmd_dma_rx kn (Some attrs) s = Some (0, (rx_consumed evs s)\<lparr>replies := replies s @
      [(NF10_GENL_C_DMA_RX, [(NF10_GENL_A_DMA_BUF, fst (hd (rx_packets_queued s k))),
        (NF10_GENL_A_OPCODE, le32 (snd (hd (rx_packets_queued s k))))])]\<rparr>)"
    using rx_flag_eq [OF inv] dma_rx_take_effect [OF inv assms(3), of kn] assms(1) Suc
    by (simp add: genl_cmd_dma_rx_def genl_upD genlmsg_reply_def evs_def rx_consumed_def rx_advance_def)
  moreover obtain p rest where "rx_packets_queued s k = p # rest"
    using length_rx_packets_queued [of s k] Suc
    by (cases "rx_packets_queued s k") (auto simp del: length_rx_packets_queued)
  ultimately show ?thesis
    using rx_consumed_step(1,2) [OF inv, of evs] Suc
    by (simp add: frame split: prod.splits)
qed

text \<open>
  When the reply to a DMA receive command cannot be sent, the packet is gone: it
  has left the ring, and neither the stack nor a reply has it.
\<close>

lemma dma_rx_reply_failure_loses_packet:
  assumes "genlmsg_new_ok kn" and "genlmsg_put_reply_ok kn"
    and "\<forall>attrs ty n. nla_put_err kn attrs ty n = 0" and "\<forall>attrs. genlmsg_reply_err kn attrs = e"
    and "e \<noteq> 0" and "rx_ring_inv s (Suc k)" and "covered (mmio_live s) (doorbell (rx_dma_stream s)) 4"
  shows "\<exists>s'. genl_cmd_dma_rx kn (Some attrs) s = Some (e, s') \<and>
    rx_packets_queued s' k = tl (rx_packets_queued s (Suc k)) \<and>
    received s' = received s \<and> replies s' = replies s"
  using assms rx_flag_eq [OF assms(6)] dma_rx_take_effect [OF assms(6,7,3)]
    rx_consumed_step(2) [OF assms(6), of "[rx_flag_cleared s, MmioWr (doorbell (rx_dma_stream s)) 1]"]
  by (simp add: genl_cmd_dma_rx_def genlmsg_reply_def)
     (simp add: rx_consumed_def rx_advance_def)

text \<open>
  A request that passed the family's policy is echoed: the reply carries the
  message up to and including its first NUL byte.
\<close>

lemma echo_returns_message:
  assumes "genl_up kn" and "nf10_genl_policy_ok attrs"
  shows "genl_cmd_echo kn (Some attrs) s = Some (0,
    (case attrs NF10_GENL_A_MSG of
       None \<Rightarrow> s
     | Some msg \<Rightarrow> s\<lparr>replies := replies s @
         [(NF10_GENL_C_ECHO, [(NF10_GENL_A_MSG, takeWhile (\<lambda>c. c \<noteq> 0) msg @ [0])])]\<rparr>))"
  using assms
  by (auto simp: genl_cmd_echo_def nf10_genl_policy_ok_def genl_upD kernel_nla_data_def c_string_def
      genlmsg_reply_def split: option.splits)

section \<open>Polling under administration\<close>

text \<open>
  The polling machine with the two commands that stop and start the timer.  Every event is
  one step; a faulting handler has no step.
\<close>

datatype poll_label = L_put | L_tick | L_poll | L_enable | L_disable

inductive poll_step :: "config \<Rightarrow> kernel_rx \<Rightarrow> poll_label \<Rightarrow> nf10 \<times> nat \<Rightarrow> nf10 \<times> nat \<Rightarrow> bool"
  for cfg kr where
  put: "fits_slot p \<Longrightarrow> poll_step cfg kr L_put sys (card_put p sys)"
| tick: "timer_pending s \<Longrightarrow> rx_poll_timer_cb (s\<lparr>timer_pending := False\<rparr>) = Some s' \<Longrightarrow>
         poll_step cfg kr L_tick (s, t) (s', t)"
| poll: "napi_scheduled s \<Longrightarrow> 0 < budget \<Longrightarrow>
         nf10_napi_struct_poll cfg kr quiet budget s = Some (Some (r, s')) \<Longrightarrow>
         poll_step cfg kr L_poll (s, t) (s', t)"
| enable: "genl_cmd_napi_enable s = Some (r, s') \<Longrightarrow> poll_step cfg kr L_enable (s, t) (s', t)"
| disable: "genl_cmd_napi_disable s = Some (r, s') \<Longrightarrow> poll_step cfg kr L_disable (s, t) (s', t)"

inductive_cases poll_stepE: "poll_step cfg kr l sys sys'"

definition never_enabled :: "config \<Rightarrow> kernel_rx \<Rightarrow> nf10 \<times> nat \<Rightarrow> nf10 \<times> nat \<Rightarrow> bool" where
  "never_enabled cfg kr sys sys' \<longleftrightarrow> (\<exists>l. l \<noteq> L_enable \<and> poll_step cfg kr l sys sys')"

definition asleep :: "nf10 \<times> nat \<Rightarrow> bool" where
  "asleep sys \<longleftrightarrow> \<not> timer_pending (fst sys) \<and> \<not> napi_scheduled (fst sys)"

lemma asleep_step:
  assumes "never_enabled cfg kr sys sys'" and "asleep sys"
  shows "asleep sys' \<and> received (fst sys') = received (fst sys)"
proof -
  from assms(1) obtain l where l: "l \<noteq> L_enable" "poll_step cfg kr l sys sys'"
    by (auto simp: never_enabled_def)
  from l(2) show ?thesis
  proof (cases rule: poll_step.cases)
    case (put p)
    then show ?thesis
      using assms(2) by (auto simp: asleep_def card_put_def Let_def split: prod.splits)
  next
    case (disable s r s' t)
    then show ?thesis
      using assms(2) by (auto simp: asleep_def genl_cmd_napi_disable_def del_timer_def)
  qed (use l(1) assms(2) in \<open>simp_all add: asleep_def\<close>)
qed

text \<open>
  Once the timer has been stopped while no poll is scheduled, no packet reaches
  the stack any more, whatever the card does, until the enable command is given.
\<close>

theorem disabled_polling_stays_asleep:
  assumes "genl_cmd_napi_disable s = Some (r, s0)" and "\<not> napi_scheduled s"
    and "(never_enabled cfg kr)\<^sup>*\<^sup>* (s0, t) (s', t')"
  shows "received s' = received s \<and> \<not> timer_pending s' \<and> \<not> napi_scheduled s'"
proof -
  have s0: "asleep (s0, t)" "received s0 = received s"
    using assms(1,2) by (auto simp: asleep_def genl_cmd_napi_disable_def del_timer_def)
  from assms(3) have "asleep (s', t') \<and> received (fst (s', t')) = received s0"
  proof (induction "(s', t')" arbitrary: s' t' rule: rtranclp_induct)
    case base
    then show ?case using s0 by simp
  next
    case (step sys)
    then show ?case using asleep_step [OF step(2)] by (cases sys) simp
  qed
  then show ?thesis using s0(2) by (simp add: asleep_def)
qed

lemma delivery_at_most_one: "length (delivery cfg k devs n p) \<le> 1"
  by (simp add: delivery_def split: option.split)

lemma poll_spec_deliveries_le:
  "length (fst (poll_spec (delivery cfg k devs) n b q)) \<le> length q"
proof (induction q arbitrary: n b)
  case (Cons p q)
  show ?case
  proof (cases b)
    case (Suc b')
    then show ?thesis
      using Cons [of "Suc n" "if delivery cfg k devs n p = [] then Suc b' else b'"]
        delivery_at_most_one [of cfg k devs n p]
      by (simp add: split_def Let_def)
  qed simp
qed simp

text \<open>
  Claim C30.  The enable command during a scheduled poll arms the timer a second time: the
  poll that then empties the ring adds a timer that is already pending, which the kernel
  answers with a fault.
\<close>

theorem enable_during_poll_faults:
  assumes "rx_ring_inv s k" and "rx_ready cfg s" and "napi_scheduled s" and "int k < budget"
  shows "\<exists>s1. genl_cmd_napi_enable s = Some (0, s1) \<and>
    nf10_napi_struct_poll cfg kr quiet budget s1 = Some None"
proof -
  define s1 where "s1 = s\<lparr>timer_expires := jiffies s + RX_POLL_INTERVAL, timer_pending := True\<rparr>"
  have en: "genl_cmd_napi_enable s = Some (0, s1)"
    by (simp add: genl_cmd_napi_enable_def del_timer_def add_timer_def s1_def)
  have inv: "rx_ring_inv s1 k" and ready: "rx_ready cfg s1"
    using assms(1,2) by (simp_all add: s1_def rx_ready_def)
  from poll_loop_quiet [OF inv ready, of 0 budget kr 0] assms(4)
  obtain n' s' k' ds where r: "poll_loop cfg kr quiet budget 0 0 s1 = Some (Some (int (length ds), n', s'))"
    "rx_ring_inv s' k'" "rx_static s1 s'"
    "poll_spec (delivery cfg kr (nf10_netdevs s1)) 0 (nat budget) (rx_packets_queued s1 k)
       = (ds, rx_packets_queued s' k')" "k' = 0 \<or> int (length ds) = budget"
    by auto
  have "length ds \<le> k"
    using poll_spec_deliveries_le [of cfg kr "nf10_netdevs s1" 0 "nat budget" "rx_packets_queued s1 k"] r(4)
    by simp
  then have "k' = 0" using r(5) assms(4) by auto
  moreover have "timer_pending s'" using r(3) by (simp add: rx_static_def s1_def)
  ultimately show ?thesis
    using en r(1) rx_flag_eq [OF r(2)]
    by (simp add: nf10_napi_struct_poll_def poll_end_def add_timer_def napi_complete_def)
qed

end
