(* ===== verification/NF10_Netdev.thy ===== *)
theory NF10_Netdev
  imports NF10_Genl
begin

text \<open>
  The remaining operations of the network devices: opening and stopping, the MAC address,
  and the Ethernet header functions that the driver installs for ghosting and loopback.
  The MAC addresses the module gives its devices and the header functions fit together: a
  header built on one device of a pair is addressed to the other one.
\<close>

section \<open>Model\<close>

definition netif_start_queue :: "addr \<Rightarrow> nf10 \<Rightarrow> nf10 option" where
  "netif_start_queue netdev = upd_netdev netdev (\<lambda>d. d\<lparr>queue_started := True\<rparr>)"

definition netif_stop_queue :: "addr \<Rightarrow> nf10 \<Rightarrow> nf10 option" where
  "netif_stop_queue netdev = upd_netdev netdev (\<lambda>d. d\<lparr>queue_started := False\<rparr>)"

definition nf10_ndo_open :: "addr \<Rightarrow> nf10 \<Rightarrow> (i32 \<times> nf10) option" where
  "nf10_ndo_open netdev s = map_option (Pair 0) (netif_start_queue netdev s)"

definition nf10_ndo_stop :: "addr \<Rightarrow> nf10 \<Rightarrow> (i32 \<times> nf10) option" where
  "nf10_ndo_stop netdev s = map_option (Pair 0) (netif_stop_queue netdev s)"

definition nf10_ndo_tx_timeout :: "addr \<Rightarrow> nf10 \<Rightarrow> nf10" where
  "nf10_ndo_tx_timeout netdev s = s"

definition nf10_ndo_get_stats :: "addr \<Rightarrow> nf10 \<Rightarrow> net_device_stats option" where
  "nf10_ndo_get_stats netdev s = map_option stats (netdevs s netdev)"

text \<open>\<open>is_valid_ether_addr\<close> is the kernel's; \<open>sa_data\<close> is the 14-byte field of \<^verbatim>\<open>struct sockaddr\<close>.\<close>

definition nf10_ndo_set_mac_address ::
  "(bytes \<Rightarrow> bool) \<Rightarrow> addr \<Rightarrow> bytes \<Rightarrow> nf10 \<Rightarrow> (i32 \<times> nf10) option" where
  "nf10_ndo_set_mac_address is_valid_ether_addr netdev sa_data s =
     (if \<not> is_valid_ether_addr sa_data then Some (- EADDRNOTAVAIL, s)
      else do {
        d \<leftarrow> netdevs s netdev;
        src \<leftarrow> take_exact (addr_len d) sa_data;
        mac \<leftarrow> blit 0 src (dev_addr d);
        Some (0, s\<lparr>netdevs := (netdevs s)(netdev \<mapsto> d\<lparr>dev_addr := mac\<rparr>)\<rparr>)
      })"

text \<open>\<^verbatim>\<open>skb_push\<close>: the 14 bytes in front of the data become part of it; too little headroom is a fault.\<close>

definition skb_push :: "bytes \<Rightarrow> nat \<Rightarrow> sk_buff \<Rightarrow> sk_buff option" where
  "skb_push headroom n skb =
     (if n \<le> length headroom
      then Some (skb\<lparr>sk_buf := drop (length headroom - n) headroom @ sk_buf skb,
                     sk_len := sk_len skb + word_of_nat n\<rparr>)
      else None)"

definition htons_bytes :: "u16 \<Rightarrow> bytes" where
  "htons_bytes t = [ucast (drop_bit 8 t), ucast t]"

text \<open>\<^verbatim>\<open>struct ethhdr\<close>: destination at 0, source at 6, protocol at 12; \<open>dest[ETH_ALEN-3] ^= 1\<close>.\<close>

definition flip_dest :: "bytes \<Rightarrow> bytes option" where
  "flip_dest buf = (if 3 < length buf then Some (buf[3 := buf ! 3 XOR 1]) else None)"

definition nf10_ndho_create ::
  "bytes \<Rightarrow> sk_buff \<Rightarrow> net_device \<Rightarrow> u16 \<Rightarrow> bytes option \<Rightarrow> bytes option \<Rightarrow> (nat \<times> sk_buff) option" where
  "nf10_ndho_create headroom skb dev type daddr saddr = do {
     skb \<leftarrow> skb_push headroom 14 skb;
     buf \<leftarrow> blit 12 (htons_bytes type) (sk_buf skb);
     src \<leftarrow> take_exact (addr_len dev) (case saddr of Some a \<Rightarrow> a | None \<Rightarrow> dev_addr dev);
     buf \<leftarrow> blit 6 src buf;
     dst \<leftarrow> take_exact (addr_len dev) (case daddr of Some a \<Rightarrow> a | None \<Rightarrow> dev_addr dev);
     buf \<leftarrow> blit 0 dst buf;
     buf \<leftarrow> flip_dest buf;
     Some (hard_header_len dev, skb\<lparr>sk_buf := buf\<rparr>)
   }"

definition nf10_ndho_rebuild :: "sk_buff \<Rightarrow> nf10 \<Rightarrow> (i32 \<times> sk_buff) option" where
  "nf10_ndho_rebuild skb s = do {
     dev \<leftarrow> netdevs s (sk_dev skb);
     mac \<leftarrow> take_exact (addr_len dev) (dev_addr dev);
     buf \<leftarrow> blit 6 mac (sk_buf skb);
     buf \<leftarrow> blit 0 mac buf;
     buf \<leftarrow> flip_dest buf;
     Some (0, skb\<lparr>sk_buf := buf\<rparr>)
   }"

text \<open>
  The MAC address of device \<open>i\<close>: \<^verbatim>\<open>memset\<close> to 0, \<^verbatim>\<open>snprintf(&mac_addr[1], mac_addr_len, "NF%d", i)\<close>
  and the first \<open>mac_addr_len\<close> bytes of the result.
\<close>

fun decimal :: "nat \<Rightarrow> bytes" where
  "decimal n = (if n < 10 then [word_of_nat (48 + n)] else decimal (n div 10) @ [word_of_nat (48 + n mod 10)])"

definition snprintf_NF :: "nat \<Rightarrow> nat \<Rightarrow> bytes" where
  "snprintf_NF n i = (if n = 0 then [] else take (n - 1) ([0x4E, 0x46] @ decimal i) @ [0])"

definition nf10_mac_addr :: "nat \<Rightarrow> nat \<Rightarrow> bytes option" where
  "nf10_mac_addr mac_addr_len i = do {
     buf \<leftarrow> blit 1 (snprintf_NF mac_addr_len i) (replicate (mac_addr_len + 1) 0);
     Some (take mac_addr_len buf)
   }"

section \<open>Header functions\<close>

lemma header_layout:
  assumes "length h = 14" and "length src = 6" and "length dst = 6" and "length ty = 2"
  shows "do { buf \<leftarrow> blit 12 ty (h @ p); buf \<leftarrow> blit 6 src buf; blit 0 dst buf }
       = Some (dst @ src @ ty @ p)"
  using assms by (simp add: blit_def)

text \<open>
  The header function puts destination, source and protocol in front of the
  packet, in that order, with the lowest bit of the fourth destination byte flipped, and
  leaves the packet itself as it was.
\<close>

lemma ndho_create_header:
  assumes "14 \<le> length headroom" and "addr_len dev = 6"
    and "length src = 6" and "length dst = 6" and "length (dev_addr dev) = 6"
  shows "nf10_ndho_create headroom skb dev type (Some dst) (Some src) =
    Some (hard_header_len dev,
      skb\<lparr>sk_buf := dst[3 := dst ! 3 XOR 1] @ src @ htons_bytes type @ sk_buf skb,
          sk_len := sk_len skb + 14\<rparr>)"
proof -
  have h: "length (drop (length headroom - 14) headroom) = 14" using assms(1) by simp
  have ty: "length (htons_bytes type) = 2" by (simp add: htons_bytes_def)
  from header_layout [OF h assms(3,4) ty, of "sk_buf skb"]
  obtain b1 b2 where "blit 12 (htons_bytes type) (drop (length headroom - 14) headroom @ sk_buf skb) = Some b1"
    "blit 6 src b1 = Some b2" "blit 0 dst b2 = Some (dst @ src @ htons_bytes type @ sk_buf skb)"
    by (auto simp: bind_eq_Some_conv)
  then show ?thesis
    using assms
    by (simp add: nf10_ndho_create_def skb_push_def take_exact_def flip_dest_def
        list_update_append nth_append)
qed

lemma less_4_cases: "i < (4 :: nat) \<Longrightarrow> i = 0 \<or> i = 1 \<or> i = 2 \<or> i = 3"
  by auto

lemma xor1_less_4: "i < 4 \<Longrightarrow> (i XOR 1) < (4 :: nat)"
  by (drule less_4_cases) (elim disjE; simp)

text \<open>
  The MAC addresses of the module pair up under the header function: flipping
  the lowest bit of the fourth byte turns the address of device \<open>i\<close> into that of its
  partner \<open>i XOR 1\<close>, for each of the four devices.
\<close>

lemma mac_of_partner:
  assumes "i < NUM_NETDEVS"
  shows "\<exists>mac. nf10_mac_addr 6 i = Some mac \<and> length mac = 6 \<and>
    nf10_mac_addr 6 (i XOR 1) = Some (mac[3 := mac ! 3 XOR 1])"
proof -
  have "i = 0 \<or> i = 1 \<or> i = 2 \<or> i = 3" using assms less_4_cases [of i] by (simp add: NUM_NETDEVS_def)
  then show ?thesis
    by (elim disjE) (simp_all add: nf10_mac_addr_def snprintf_NF_def blit_def)
qed

end
