(* ===== verification/NF10_Ghost.thy ===== *)
theory NF10_Ghost
  imports NF10_Netdev
begin

text \<open>
  Ghosting mode: there is no card, the TX stream and the RX stream share one region, and
  what a device transmits is received by its partner.  The theory models
  \<^verbatim>\<open>enable_ghosting\<close> and \<^verbatim>\<open>disable_ghosting\<close>, shows that the former sets up an empty ring
  of the largest size the allocator grants, and that a frame transmitted on device \<open>i\<close>
  is delivered on device \<open>i XOR 1\<close>.
\<close>

section \<open>Setting up and tearing down\<close>

text \<open>
  The allocation loop halves the number of slots until an allocation succeeds;
  \<open>kmalloc\<close> maps a size to an address, 0 when it fails.
\<close>

function ghost_alloc :: "(u32 \<Rightarrow> addr) \<Rightarrow> u32 \<Rightarrow> u32 \<Rightarrow> addr \<Rightarrow> u32 \<times> u32 \<times> addr" where
  "ghost_alloc kmalloc bufs region va =
     (if MIN_DMA_CPU_BUFS \<le> bufs then
        (let region = dma_region_bytes bufs; va = kmalloc region in
         if va = 0 then ghost_alloc kmalloc (bufs div 2) region va else (bufs, region, va))
      else (bufs, region, va))"
  by auto

termination
proof (relation "measure (\<lambda>(km, bufs, region, va). unat bufs)", goal_cases)
  case (2 km bufs region va)
  then show ?case by (simp add: MIN_DMA_CPU_BUFS_def word_le_nat_alt unat_div)
qed simp

declare ghost_alloc.simps [simp del]

definition kfree :: "addr \<Rightarrow> nf10 \<Rightarrow> nf10 option" where
  "kfree va s =
     (if va = 0 then Some s
      else case List.find (\<lambda>r. case r of Kmalloc a n \<Rightarrow> a = va | _ \<Rightarrow> False) (held s) of
        Some (Kmalloc a n) \<Rightarrow>
          Some (s\<lparr>held := remove1 (Kmalloc a n) (held s), live := remove1 (a, n) (live s)\<rparr>)
      | _ \<Rightarrow> None)"

definition enable_ghosting :: "(u32 \<Rightarrow> addr) \<Rightarrow> nf10 \<Rightarrow> (i32 \<times> nf10) option" where
  "enable_ghosting kmalloc s =
     (let (bufs, region, va) = ghost_alloc kmalloc DMA_CPU_BUFS (dma_region_size s) (rx_dma_reg_va s);
          s = s\<lparr>dma_cpu_bufs := bufs, dma_region_size := region, rx_dma_reg_va := va\<rparr> in
      if va = 0 then Some (- 1, s)
      else do {
        let s = (acquire (Kmalloc va (unat region)) s)\<lparr>live := (va, unat region) # live s, tx_dma_reg_va := va\<rparr>;
        let s = s\<lparr>rx_dma_stream := carve_stream va bufs (doorbell (rx_dma_stream s))\<rparr>;
        s \<leftarrow> store_bytes (flags (rx_dma_stream s)) (replicate (4 * unat bufs) 0) s;
        let s = s\<lparr>tx_dma_stream := (tx_dma_stream s)\<lparr>buffers := buffers (rx_dma_stream s),
                    metadata := metadata (rx_dma_stream s), flags := flags (rx_dma_stream s), buf_index := 0\<rparr>\<rparr>;
        s \<leftarrow> add_timer (s\<lparr>timer_expires := jiffies s + RX_POLL_INTERVAL\<rparr>);
        Some (0, s)
      })"

definition disable_ghosting :: "nf10 \<Rightarrow> (i32 \<times> nf10) option" where
  "disable_ghosting s = do {
     s \<leftarrow> kfree (rx_dma_reg_va s) (del_timer s);
     Some (0, s\<lparr>rx_dma_stream := (rx_dma_stream s)\<lparr>buffers := 0, metadata := 0, flags := 0\<rparr>,
                tx_dma_stream := (tx_dma_stream s)\<lparr>buffers := 0, metadata := 0, flags := 0\<rparr>\<rparr>)
   }"

lemma ghost_alloc_result:
  assumes "ghost_alloc km bufs region va = (bufs', region', va')" and "unat bufs \<le> 32768" and "va' \<noteq> 0"
    and "0 < unat bufs"
  shows "0 < unat bufs' \<and> unat bufs' \<le> unat bufs \<and> region' = dma_region_bytes bufs' \<and> va' = km region' \<and>
    (\<exists>j. unat bufs' = unat bufs div 2 ^ j \<and> (\<forall>i<j. km (dma_region_bytes (bufs div 2 ^ i)) = 0))"
  using assms
proof (induction km bufs region va rule: ghost_alloc.induct)
  case (1 km bufs region va)
  have le: "MIN_DMA_CPU_BUFS \<le> bufs" using 1(5) by (simp add: MIN_DMA_CPU_BUFS_def word_le_nat_alt)
  show ?case
  proof (cases "km (dma_region_bytes bufs) = 0")
    case False
    then show ?thesis
      using 1(2,5) le by (auto simp: ghost_alloc.simps [of km bufs] Let_def intro: exI [of _ 0])
  next
    case True
    have half: "unat (bufs div 2) = unat bufs div 2" by (simp add: unat_div)
    have rec: "ghost_alloc km (bufs div 2) (dma_region_bytes bufs) 0 = (bufs', region', va')"
      using 1(2) le True by (simp add: ghost_alloc.simps [of km bufs] Let_def)
    have pos: "0 < unat (bufs div 2)"
    proof (rule ccontr)
      assume "\<not> 0 < unat (bufs div 2)"
      then have "\<not> MIN_DMA_CPU_BUFS \<le> bufs div 2" by (simp add: MIN_DMA_CPU_BUFS_def word_le_nat_alt)
      then show False using rec 1(4) by (simp add: ghost_alloc.simps [of km "bufs div 2"])
    qed
    have "0 < unat bufs' \<and> unat bufs' \<le> unat (bufs div 2) \<and> region' = dma_region_bytes bufs' \<and> va' = km region' \<and>
      (\<exists>j. unat bufs' = unat (bufs div 2) div 2 ^ j \<and> (\<forall>i<j. km (dma_region_bytes (bufs div 2 div 2 ^ i)) = 0))"
      using 1(1) [OF le refl refl] True rec 1(3,4) pos half by simp
    then obtain j where j: "0 < unat bufs'" "unat bufs' \<le> unat (bufs div 2)" "region' = dma_region_bytes bufs'"
      "va' = km region'" "unat bufs' = unat (bufs div 2) div 2 ^ j"
      "\<And>i. i < j \<Longrightarrow> km (dma_region_bytes (bufs div 2 div 2 ^ i)) = 0" by blast
    have "km (dma_region_bytes (bufs div 2 ^ i)) = 0" if "i < Suc j" for i
    proof (cases i)
      case (Suc i')
      have "bufs div 2 div 2 ^ i' = bufs div 2 ^ i"
        using drop_bit_drop_bit [of i' 1 bufs]
        by (simp only: drop_bit_eq_div power_one_right Suc Suc_eq_plus1)
      then show ?thesis using j(6) [of i'] that Suc by simp
    qed (use True in simp)
    moreover have "unat bufs' = unat bufs div 2 ^ Suc j"
      using j(5) half by (simp add: div_mult2_eq)
    ultimately show ?thesis using j(1-4) half by (auto intro!: exI [of _ "Suc j"])
  qed
qed


lemma ghost_alloc_failure:
  assumes "ghost_alloc km bufs region va = (bufs', region', 0)" and "0 < unat bufs div 2 ^ j"
  shows "km (dma_region_bytes (bufs div 2 ^ j)) = 0"
  using assms
proof (induction km bufs region va arbitrary: j rule: ghost_alloc.induct)
  case (1 km bufs region va)
  have "0 < unat bufs" using 1(3) by (cases "unat bufs = 0") auto
  then have le: "MIN_DMA_CPU_BUFS \<le> bufs" by (simp add: MIN_DMA_CPU_BUFS_def word_le_nat_alt)
  then have zero: "km (dma_region_bytes bufs) = 0"
    and rec: "ghost_alloc km (bufs div 2) (dma_region_bytes bufs) 0 = (bufs', region', 0)"
    using 1(2) by (auto simp: ghost_alloc.simps [of km bufs] Let_def split: if_splits)
  show ?case
  proof (cases j)
    case (Suc i)
    have "bufs div 2 div 2 ^ i = bufs div 2 ^ j"
      using drop_bit_drop_bit [of i 1 bufs]
      by (simp only: drop_bit_eq_div power_one_right Suc Suc_eq_plus1)
    moreover have "0 < unat (bufs div 2) div 2 ^ i"
      using 1(3) by (simp add: Suc unat_div div_mult2_eq)
    ultimately show ?thesis using 1(1) [OF le refl refl, of i] zero rec by simp
  qed (use zero in simp)
qed

text \<open>TX and RX stream share the region; the TX index stands behind the queue.\<close>

definition ghost_inv :: "nf10 \<Rightarrow> nat \<Rightarrow> bool" where
  "ghost_inv s k \<longleftrightarrow> rx_ring_inv s k \<and>
     buffers (tx_dma_stream s) = buffers (rx_dma_stream s) \<and>
     metadata (tx_dma_stream s) = metadata (rx_dma_stream s) \<and>
     flags (tx_dma_stream s) = flags (rx_dma_stream s) \<and>
     unat (buf_index (tx_dma_stream s)) = rx_card_slot s k"

lemma memset_flags_zero:
  assumes "i < N"
  shows "rd32 (wr_bytes m (slot_flag b N 0) (replicate (4 * N) 0)) (slot_flag b N i) = 0"
proof -
  have "rd32 (memset_bytes m (slot_flag b N 0) 0 (4 * N)) (slot_flag b N i) = of_le32 (replicate 4 0)"
    using assms by (intro rd32_memset) (auto simp: slot_flag_def)
  also have "of_le32 (replicate 4 0) = 0" by (simp add: of_le32_def numeral_eq_Suc)
  finally show ?thesis by (simp add: memset_bytes_def)
qed

lemma fresh_rx_ring:
  assumes "stream_wf (dma_cpu_bufs s) (rx_dma_stream s)" "region_live s (rx_dma_stream s)"
    and "buf_index (rx_dma_stream s) = 0"
    and "\<And>i. i < unat (dma_cpu_bufs s) \<Longrightarrow>
      rd32 (kmem s) (slot_flag (buffers (rx_dma_stream s)) (unat (dma_cpu_bufs s)) i) = 0"
  shows "rx_ring_inv s 0"
  using assms stream_wfD(1) [OF assms(1)]
  by (simp add: rx_ring_inv_def ring_window_def rx_flags_binary_def rx_packets_queued_def ring_contents_def)

text \<open>
  Claim C23.  Enabling ghosting succeeds as soon as one size of the halving sequence can be
  allocated; it takes the first one, and leaves an empty ring shared by both streams, with
  the timer running.
\<close>

theorem enable_ghosting_ring:
  assumes "j \<le> 15" and "kmalloc (dma_region_bytes (DMA_CPU_BUFS div 2 ^ j)) \<noteq> 0"
    and "\<not> timer_pending s"
  shows "\<exists>s' i. enable_ghosting kmalloc s = Some (0, s') \<and> ghost_inv s' 0 \<and> timer_pending s' \<and>
    unat (dma_cpu_bufs s') = 32768 div 2 ^ i \<and>
    (\<forall>l<i. kmalloc (dma_region_bytes (DMA_CPU_BUFS div 2 ^ l)) = 0) \<and>
    Kmalloc (rx_dma_reg_va s') (2068 * unat (dma_cpu_bufs s')) \<in> set (held s')"
proof -
  obtain bufs region va where al: "ghost_alloc kmalloc DMA_CPU_BUFS (dma_region_size s) (rx_dma_reg_va s)
      = (bufs, region, va)" by (metis prod_cases3)
  have n: "unat DMA_CPU_BUFS = 32768" by (simp add: DMA_CPU_BUFS_def)
  have "(2 :: nat) ^ j \<le> 2 ^ 15" using assms(1) by (intro power_increasing) simp_all
  then have "0 < unat DMA_CPU_BUFS div 2 ^ j" by (simp add: n div_greater_zero_iff)
  then have "va \<noteq> 0" using ghost_alloc_failure al assms(2) by metis
  then obtain i where r: "0 < unat bufs" "unat bufs \<le> 32768" "region = dma_region_bytes bufs"
    "unat bufs = 32768 div 2 ^ i" "\<forall>l<i. kmalloc (dma_region_bytes (DMA_CPU_BUFS div 2 ^ l)) = 0"
    using ghost_alloc_result [OF al] n by auto
  have size: "unat region = 2068 * unat bufs" using unat_dma_region_bytes [OF r(2)] r(3) by simp
  define st where "st = carve_stream va bufs (doorbell (rx_dma_stream s))"
  have wf: "stream_wf bufs st" using carve_stream_wf r(1,2) \<open>va \<noteq> 0\<close> by (simp add: st_def)
  have fl: "flags st = slot_flag va (unat bufs) 0"
    using stream_wfD(6) [OF wf] by (simp add: st_def carve_stream_def slot_flag_def)
  have cov: "covered ((va, 2068 * unat bufs) # live s) (slot_flag va (unat bufs) 0) (4 * unat bufs)"
    by (rule covered_region [of va "2068 * unat bufs"]) (simp_all add: slot_flag_def)
  define s' where "s' = s\<lparr>dma_cpu_bufs := bufs, dma_region_size := region, rx_dma_reg_va := va,
     tx_dma_reg_va := va, held := Kmalloc va (2068 * unat bufs) # held s, live := (va, 2068 * unat bufs) # live s,
     rx_dma_stream := st, tx_dma_stream := (tx_dma_stream s)\<lparr>buffers := buffers st,
        metadata := metadata st, flags := flags st, buf_index := 0\<rparr>,
     kmem := wr_bytes (kmem s) (slot_flag va (unat bufs) 0) (replicate (4 * unat bufs) 0),
     bus := bus s @ [MemWr (slot_flag va (unat bufs) 0) (replicate (4 * unat bufs) 0)],
     timer_expires := jiffies s + RX_POLL_INTERVAL, timer_pending := True\<rparr>"
  have call: "enable_ghosting kmalloc s = Some (0, s')"
    using al \<open>va \<noteq> 0\<close> assms(3) size fl cov
    by (simp add: enable_ghosting_def Let_def acquire_def store_bytes_def add_timer_def
        st_def [symmetric] s'_def)
  have st0: "buffers st = va" "buf_index st = 0" by (simp_all add: st_def carve_stream_def)
  have "rx_ring_inv s' 0"
    using wf st0 memset_flags_zero by (intro fresh_rx_ring) (simp_all add: s'_def region_live_def)
  then show ?thesis
    using call r st0 by (auto simp: ghost_inv_def rx_card_slot_def s'_def)
qed


section \<open>Transmission in ghosting mode\<close>

lemma switcharoo_length: "switcharoo csum buf = Some buf' \<Longrightarrow> length buf' = length buf"
  by (auto simp: switcharoo_def flip_addr_bits_def Let_def split: if_splits)

lemma ghost_invD:
  assumes "ghost_inv s k"
  shows "rx_ring_inv s k" "stream_wf (dma_cpu_bufs s) (tx_dma_stream s)" "region_live s (tx_dma_stream s)"
    "buffers (tx_dma_stream s) = buffers (rx_dma_stream s)"
    "unat (buf_index (tx_dma_stream s)) = rx_card_slot s k"
proof -
  show inv: "rx_ring_inv s k" and buf: "buffers (tx_dma_stream s) = buffers (rx_dma_stream s)"
    and idx: "unat (buf_index (tx_dma_stream s)) = rx_card_slot s k"
    using assms by (simp_all add: ghost_inv_def)
  have "0 < unat (dma_cpu_bufs s)" using stream_wfD(1) [OF rx_ring_invD(1) [OF inv]] .
  then show "stream_wf (dma_cpu_bufs s) (tx_dma_stream s)"
    using rx_ring_invD(1) [OF inv] assms idx
    by (simp add: stream_wf_def ghost_inv_def rx_card_slot_def)
  show "region_live s (tx_dma_stream s)"
    using rx_ring_invD(2) [OF inv] buf by (simp add: region_live_def)
qed

lemma ghost_tx_flag:
  assumes "ghost_inv s k"
  shows "tx_flag s = Some 1 \<longleftrightarrow> k = unat (dma_cpu_bufs s)"
  using tx_flag_eq [OF ghost_invD(2,3) [OF assms]] rx_card_slot_full [OF ghost_invD(1) [OF assms]]
    ghost_invD(4,5) [OF assms]
  by (simp add: rx_full_def)

lemma ghost_xmit_sent:
  assumes inv: "ghost_inv s k" and room: "k < unat (dma_cpu_bufs s)"
    and "\<not> tx_locked s" and d: "netdevs s netdev = Some d" and "skb_wf skb"
    and len: "unat (sk_len skb) \<le> 2048" and iface: "\<not> is_neg (get_iface_from_netdev netdev s)"
    and sw: "switcharoo csum (sk_buf skb) = Some buf"
  defines "p \<equiv> (take (unat (sk_len skb)) buf, rx_set_dst_iface 0 (get_iface_from_netdev netdev s XOR 1))"
  shows "\<exists>evs. nf10_ghost_xmit csum skb netdev s = Some (NETDEV_TX_OK, s\<lparr>
      kmem := slot_fill (buffers (rx_dma_stream s)) (unat (dma_cpu_bufs s)) 1 (kmem s) (rx_card_slot s k) p,
      bus := bus s @ evs,
      tx_dma_stream := (tx_dma_stream s)\<lparr>buf_index := ring_next (dma_cpu_bufs s) (buf_index (tx_dma_stream s))\<rparr>,
      netdevs := (netdevs s)(netdev \<mapsto> count_sent skb s d),
      tx_locked := False, freed := freed s @ [sk_id skb]\<rparr>)"
proof -
  note g = ghost_invD [OF inv]
  define b where "b = buffers (rx_dma_stream s)"
  define N where "N = unat (dma_cpu_bufs s)"
  define i where "i = rx_card_slot s k"
  define s1 where "s1 = mb (s\<lparr>netdevs := (netdevs s)(netdev \<mapsto> d\<lparr>trans_start := jiffies s\<rparr>), tx_locked := True\<rparr>)"
  have same: "tx_dma_stream s1 = tx_dma_stream s" "dma_cpu_bufs s1 = dma_cpu_bufs s" "kmem s1 = kmem s"
    by (simp_all add: s1_def mb_def)
  have wf1: "stream_wf (dma_cpu_bufs s1) (tx_dma_stream s1)" "region_live s1 (tx_dma_stream s1)"
    using g(2,3) by (simp_all add: s1_def mb_def region_live_def)
  have lenb: "unat (sk_len skb) \<le> length buf"
    using \<open>skb_wf skb\<close> switcharoo_length [OF sw] by (simp add: skb_wf_def)
  note cp = tx_copy_packet_eq [OF wf1 len lenb, of "snd p", unfolded same g(4,5), folded b_def N_def i_def]
  obtain s2 where s2: "tx_copy_packet buf (sk_len skb) (snd p) s1 = Some s2"
    "s2 = s1\<lparr>kmem := wr32 (wr32 (wr_bytes (kmem s) (slot_buf b i) (fst p))
          (slot_meta b N i + META_LENGTH) (sk_len skb)) (slot_meta b N i + META_OPCODE) (snd p),
        bus := bus s2\<rparr>" "\<exists>evs. bus s2 = bus s1 @ evs"
    using cp by (simp add: p_def)
  have wf2: "stream_wf (dma_cpu_bufs (mb s2)) (tx_dma_stream (mb s2))" "region_live (mb s2) (tx_dma_stream (mb s2))"
    and same2: "tx_dma_stream (mb s2) = tx_dma_stream s" "dma_cpu_bufs (mb s2) = dma_cpu_bufs s"
    using wf1 same by (subst s2(2), simp add: mb_def region_live_def)+
  note fl = set_tx_flag_eq [OF wf2, of 1, unfolded same2 g(4,5), folded b_def N_def i_def]
  obtain f where f: "tx_flag s = Some f" "f \<noteq> 1"
    using ghost_tx_flag [OF inv] room tx_flag_eq [OF g(2,3)] by auto
  have flag: "tx_flag (s\<lparr>netdevs := x, tx_locked := y\<rparr>) = tx_flag s" for x y
    by (simp add: tx_flag_def load32_def)
  have lenw: "word_of_nat (length (fst p)) = sk_len skb" using lenb by (simp add: p_def min_def)
  have step: "nf10_ghost_xmit csum skb netdev s = do {
      s' \<leftarrow> set_tx_flag 1 (mb s2);
      s' \<leftarrow> tx_account skb netdev (spin_unlock (tx_advance (mb s')));
      Some (NETDEV_TX_OK, s')
    }"
    using len iface sw d f flag \<open>\<not> tx_locked s\<close> s2(1)
    by (simp add: nf10_ghost_xmit_def Let_def DMA_BUF_SIZE_def word_less_nat_alt start_clock_def
        upd_netdev_def spin_lock_def s1_def [symmetric] p_def)
  obtain evs where evs: "bus s2 = bus s1 @ evs" using s2(3) by blast
  have "set_tx_flag 1 (mb s2) = Some (s1\<lparr>
      kmem := slot_fill b N 1 (kmem s) i p,
      bus := bus s1 @ evs @ [Barrier, MemWr (slot_flag b N i) (le32 1)]\<rparr>)"
    unfolding fl by (subst s2(2), subst s2(2), simp add: mb_def evs slot_fill_def lenw)
  then show ?thesis
    using step
    by (intro exI [of _ "Barrier # evs @ [Barrier, MemWr (slot_flag b N i) (le32 1), Barrier]"])
       (simp add: s1_def mb_def tx_account_def tx_advance_def spin_unlock_def upd_stats_def upd_netdev_def
        dev_kfree_skb_def count_sent_def b_def N_def i_def)
qed


lemma iface_index_nth:
  assumes "distinct ps" and "i < length ps"
  shows "iface_index ps (ps ! i) j = word_of_nat (j + i)"
  using assms
proof (induction ps arbitrary: i j)
  case (Cons q ps)
  show ?case
  proof (cases i)
    case (Suc i')
    then have "q \<noteq> ps ! i'" using Cons.prems by auto
    then show ?thesis using Cons.IH [of i' "Suc j"] Cons.prems Suc by simp
  qed simp
qed simp

lemma get_iface_nth:
  assumes "distinct (nf10_netdevs s)" and "length (nf10_netdevs s) = NUM_NETDEVS" and "i < NUM_NETDEVS"
  shows "get_iface_from_netdev (nf10_netdevs s ! i) s = word_of_nat i"
  using iface_index_nth [OF assms(1), of i 0] assms(2,3) by (simp add: get_iface_from_netdev_def)

lemma small_iface: "i < 4 \<Longrightarrow> \<not> is_neg (word_of_nat i :: u32) \<and> (word_of_nat i :: u32) XOR 1 = word_of_nat (i XOR 1)"
  by (drule less_4_cases) (elim disjE; simp)

lemma partner_opcode:
  assumes "i < 4"
  shows "rx_get_dst_iface (rx_set_dst_iface 0 (word_of_nat (i XOR 1))) = word_of_nat (i XOR 1)"
  using less_4_cases [OF assms]
  by (elim disjE) (simp_all add: rx_set_dst_iface_def rx_get_dst_iface_bits opcode_cpu_defs bit_simps)

text \<open>A device of the module that can transmit in ghosting mode.\<close>

definition ghost_ready :: "nf10 \<Rightarrow> bool" where
  "ghost_ready s \<longleftrightarrow> \<not> tx_locked s \<and> distinct (nf10_netdevs s) \<and>
     length (nf10_netdevs s) = NUM_NETDEVS \<and> list_all (\<lambda>p. netdevs s p \<noteq> None) (nf10_netdevs s)"

text \<open>The frame as it arrives, and the opcode that names the partner.\<close>

definition ghost_packet :: "(bytes \<Rightarrow> nat \<Rightarrow> u16) \<Rightarrow> sk_buff \<Rightarrow> nat \<Rightarrow> packet option" where
  "ghost_packet csum skb i = map_option
     (\<lambda>buf. (take (unat (sk_len skb)) buf, rx_set_dst_iface 0 (word_of_nat (i XOR 1))))
     (switcharoo csum (sk_buf skb))"

lemma ghost_xmit_step:
  assumes inv: "ghost_inv s k" and ready: "ghost_ready s" and i: "i < NUM_NETDEVS"
    and room: "k < unat (dma_cpu_bufs s)" and "skb_wf skb" and len: "unat (sk_len skb) \<le> 2048"
    and p: "ghost_packet csum skb i = Some p"
  shows "\<exists>s'. nf10_ghost_xmit csum skb (nf10_netdevs s ! i) s = Some (NETDEV_TX_OK, s') \<and>
    ghost_inv s' (Suc k) \<and> ghost_ready s' \<and>
    rx_packets_queued s' (Suc k) = rx_packets_queued s k @ [p] \<and>
    received s' = received s \<and> freed s' = freed s @ [sk_id skb] \<and>
    timer_pending s' = timer_pending s \<and> napi_scheduled s' = napi_scheduled s \<and>
    nf10_netdevs s' = nf10_netdevs s \<and> dma_cpu_bufs s' = dma_cpu_bufs s"
proof -
  let ?dev = "nf10_netdevs s ! i"
  have i4: "i < 4" and len4: "i < length (nf10_netdevs s)"
    using i ready by (simp_all add: NUM_NETDEVS_def ghost_ready_def)
  obtain d where d: "netdevs s ?dev = Some d"
    using ready len4 by (auto simp: ghost_ready_def list_all_length)
  have iface: "get_iface_from_netdev ?dev s = word_of_nat i"
    using get_iface_nth ready i by (simp add: ghost_ready_def)
  obtain buf where sw: "switcharoo csum (sk_buf skb) = Some buf"
    and pe: "p = (take (unat (sk_len skb)) buf, rx_set_dst_iface 0 (word_of_nat (i XOR 1)))"
    using p by (auto simp: ghost_packet_def)
  have unlocked: "\<not> tx_locked s" using ready by (simp add: ghost_ready_def)
  have nneg: "\<not> is_neg (get_iface_from_netdev ?dev s)" using small_iface [OF i4] iface by simp
  obtain evs where call: "nf10_ghost_xmit csum skb ?dev s = Some (NETDEV_TX_OK, s\<lparr>
      kmem := slot_fill (buffers (rx_dma_stream s)) (unat (dma_cpu_bufs s)) 1 (kmem s) (rx_card_slot s k) p,
      bus := bus s @ evs,
      tx_dma_stream := (tx_dma_stream s)\<lparr>buf_index := ring_next (dma_cpu_bufs s) (buf_index (tx_dma_stream s))\<rparr>,
      netdevs := (netdevs s)(?dev \<mapsto> count_sent skb s d),
      tx_locked := False, freed := freed s @ [sk_id skb]\<rparr>)" (is "_ = Some (_, ?s)")
    using ghost_xmit_sent [OF inv room unlocked d assms(5) len nneg sw] small_iface [OF i4]
    by (auto simp: iface pe)
  have fits: "fits_slot p" using len by (simp add: pe fits_slot_def)
  note step = rx_slot_filled [where s' = ?s, OF ghost_invD(1) [OF inv] room fits, simplified]
  have "unat (buf_index (tx_dma_stream ?s)) = rx_card_slot ?s (Suc k)"
    using step(3) unat_ring_next [OF stream_wfD(3) [OF ghost_invD(2) [OF inv]]] ghost_invD(5) [OF inv]
    by simp
  then have "ghost_inv ?s (Suc k)"
    using step(1) inv by (simp add: ghost_inv_def)
  moreover have "ghost_ready ?s" using ready by (auto simp: ghost_ready_def list_all_length)
  ultimately show ?thesis using call step(2) by auto
qed


text \<open>
  Claim C24.  Ghosting connects the devices in pairs: a frame that device \<open>i\<close> transmits
  over an idle ring is handed to the network stack, at the next tick and poll, as a frame
  received by device \<open>i XOR 1\<close>, with its IP addresses rewritten and nothing else
  received; the sender's packet buffer is freed exactly once.
\<close>

theorem ghost_frame_reaches_partner:
  assumes cfg: "DRIVER_GHOST cfg" and inv: "ghost_inv s 0" and ready: "ghost_ready s"
    and i: "i < NUM_NETDEVS" and skb: "skb_wf skb" "unat (sk_len skb) \<le> 2048"
    and p: "ghost_packet csum skb i = Some (frame, opcode)"
    and idle: "timer_pending s" "\<not> napi_scheduled s" and "0 < budget"
    and al: "dev_alloc_skb kr 0 (word_of_nat (length frame)) = Some sid"
  shows "\<exists>s1 s2 t t'. nf10_ndo_start_xmit cfg csum skb (nf10_netdevs s ! i) s = Some (NETDEV_TX_OK, s1) \<and>
    rx_run cfg kr [RxTick, RxPoll budget] (s1, t) = Some (s2, t') \<and>
    received s2 = received s @ [rx_skb cfg kr sid frame (nf10_netdevs s ! (i XOR 1))] \<and>
    freed s1 = freed s @ [sk_id skb]"
proof -
  have i4: "i < 4" using i by (simp add: NUM_NETDEVS_def)
  have room: "0 < unat (dma_cpu_bufs s)"
    using stream_wfD(1) [OF ghost_invD(2) [OF inv]] .
  from ghost_xmit_step [OF inv ready i room skb p]
  obtain s1 where s1: "nf10_ghost_xmit csum skb (nf10_netdevs s ! i) s = Some (NETDEV_TX_OK, s1)"
    "ghost_inv s1 1" "ghost_ready s1"
    "rx_packets_queued s1 1 = rx_packets_queued s 0 @ [(frame, opcode)]"
    "received s1 = received s" "freed s1 = freed s @ [sk_id skb]"
    "timer_pending s1 = timer_pending s" "napi_scheduled s1 = napi_scheduled s"
    "nf10_netdevs s1 = nf10_netdevs s" by auto
  have q: "rx_packets_queued s1 1 = [(frame, opcode)]"
    using s1(4) by (simp add: rx_packets_queued_def ring_contents_def)
  have sys: "rx_sys_inv cfg 1 (s1, rx_card_slot s1 1)"
    using s1 idle cfg ghost_invD(1) [OF s1(2)] by (simp add: rx_sys_inv_def rx_ready_def ghost_ready_def)
  have iface: "rx_get_dst_iface opcode = word_of_nat (i XOR 1)"
    using p partner_opcode [OF i4] by (auto simp: ghost_packet_def)
  have dlv: "delivery cfg kr (nf10_netdevs s1) 0 (frame, opcode)
      = [rx_skb cfg kr sid frame (nf10_netdevs s ! (i XOR 1))]"
    using small_iface [OF xor1_less_4 [OF i4]] al s1(9) xor1_less_4 [OF i4]
    by (simp add: delivery_def iface unat_of_nat)
  obtain b where b: "budget = Suc b" using \<open>0 < budget\<close> by (cases budget) auto
  have ok: "list_all rx_event_ok [RxTick, RxPoll budget]" by (simp add: rx_event_ok_def)
  from rx_run_refines [OF sys ok, of kr] obtain s2 t2 k2 where run:
    "rx_run cfg kr [RxTick, RxPoll budget] (s1, rx_card_slot s1 1) = Some (s2, t2)"
    "rx_abs k2 (s2, t2) = rx_spec (unat (dma_cpu_bufs s1)) (delivery cfg kr (nf10_netdevs s1))
       [RxTick, RxPoll budget] (rx_abs 1 (s1, rx_card_slot s1 1))"
    by (metis fst_conv old.prod.exhaust)
  have "received s2 = received s @ [rx_skb cfg kr sid frame (nf10_netdevs s ! (i XOR 1))]"
    using run(2) s1(5) q dlv by (simp add: rx_abs_def rx_spec_def b)
  moreover have "nf10_ndo_start_xmit cfg csum skb (nf10_netdevs s ! i) s = Some (NETDEV_TX_OK, s1)"
    using s1(1) cfg by (simp add: nf10_ndo_start_xmit_def)
  ultimately show ?thesis using run(1) s1(6) by blast
qed

lemma switcharoo_ip:
  assumes "switcharoo csum buf = Some buf'" and "is_ip_frame buf"
  obtains c0 c1 where "34 \<le> length buf" "buf' = (flip_addr_bits buf)[24 := 0, 25 := 0, 24 := c0, 25 := c1]"
  using assms by (auto simp: switcharoo_def Let_def split: if_splits)

text \<open>
  The loopback rewriting is an involution on the addresses: applied twice it
  restores source and destination address of an IP packet, and it never changes the
  length of a frame nor anything outside the two address bytes and the checksum.
\<close>

lemma switcharoo_twice:
  assumes "switcharoo csum buf = Some buf1" and "switcharoo csum buf1 = Some buf2"
  shows "length buf2 = length buf \<and> (\<forall>j<length buf. j \<notin> {24, 25} \<longrightarrow> buf2 ! j = buf ! j) \<and>
    (\<forall>j<length buf. j \<notin> {24, 25, 28, 32} \<longrightarrow> buf1 ! j = buf ! j)"
proof (cases "is_ip_frame buf")
  case False
  then show ?thesis using assms by (auto simp: switcharoo_def split: if_splits)
next
  case True
  obtain c0 c1 where b1: "34 \<le> length buf"
    "buf1 = (flip_addr_bits buf)[24 := 0, 25 := 0, 24 := c0, 25 := c1]"
    by (rule switcharoo_ip [OF assms(1) True])
  then have len: "length buf1 = length buf" and "is_ip_frame buf1"
    using True by (simp_all add: flip_addr_bits_def is_ip_frame_def nth_list_update)
  obtain e0 e1 where b2: "buf2 = (flip_addr_bits buf1)[24 := 0, 25 := 0, 24 := e0, 25 := e1]"
    by (rule switcharoo_ip [OF assms(2) \<open>is_ip_frame buf1\<close>])
  show ?thesis
    using b1 len by (auto simp: b2 flip_addr_bits_def nth_list_update xor.assoc)
qed

end
