(* ===== verification/NF10_Probe.thy ===== *)
theory NF10_Probe
  imports NF10_Ghost
begin

text \<open>
  \<^verbatim>\<open>probe\<close> and \<^verbatim>\<open>remove\<close> of \<^verbatim>\<open>nf10_eth_driver_main.c\<close>: claiming the PCI device and its BAR0
  region, negotiating and allocating the two DMA regions, resetting, initialising,
  configuring and starting the OpenCPI workers.  The function is cut into its phases, in
  the order of the source.  What the PCI and DMA layers of the kernel answer is the
  argument of type \<open>pci_kernel\<close>, what the card answers to register reads the argument of
  type \<open>hardware\<close>.
\<close>

section \<open>Kernel services\<close>

text \<open>
  \<open>dma_alloc\<close> gets the number of the allocation and its size and returns a virtual address
  (0 when it fails) and a bus address.
\<close>

record pci_kernel =
  pci_enable_err :: i32
  pci_request_err :: i32
  pci_ioremap :: addr
  pci_resource_len :: u64
  dma_mask_err :: i32
  dma_coherent_mask_err :: i32
  dma_alloc :: "nat \<Rightarrow> u32 \<Rightarrow> addr \<times> u64"

definition dma_alloced :: "addr \<Rightarrow> u32 \<Rightarrow> nf10 \<Rightarrow> nf10" where
  "dma_alloced va n s = (acquire (DmaCoherent va (unat n)) s)\<lparr>live := (va, unat n) # live s\<rparr>"

text \<open>Freeing \<^verbatim>\<open>NULL\<close> does nothing; freeing what is not allocated is a fault.\<close>

definition dma_free_coherent :: "u32 \<Rightarrow> addr \<Rightarrow> nf10 \<Rightarrow> nf10 option" where
  "dma_free_coherent n va s =
     (if va = 0 then Some s
      else do {
        s \<leftarrow> release (DmaCoherent va (unat n)) s;
        Some (s\<lparr>live := remove1 (va, unat n) (live s)\<rparr>)
      })"

definition iounmap :: "addr \<Rightarrow> nf10 \<Rightarrow> nf10" where
  "iounmap va s = give_back (Bar0Map va) (s\<lparr>mmio_live := filter (\<lambda>r. fst r \<noteq> va) (mmio_live s)\<rparr>)"

definition pci_release_region :: "nf10 \<Rightarrow> nf10" where
  "pci_release_region = give_back Bar0Region"

definition pci_disable_device :: "nf10 \<Rightarrow> nf10" where
  "pci_disable_device = give_back PciDevice"

text \<open>The release sequences of the error paths.\<close>

definition unmap_bar0 :: "nf10 \<Rightarrow> nf10" where
  "unmap_bar0 s = pci_disable_device (pci_release_region (iounmap (bar0_base_va s) s))"

definition free_dma_regions :: "nf10 \<Rightarrow> nf10 option" where
  "free_dma_regions s = do {
     s \<leftarrow> dma_free_coherent (dma_region_size s) (rx_dma_reg_va s) s;
     dma_free_coherent (dma_region_size s) (tx_dma_reg_va s) s
   }"

definition release_all :: "nf10 \<Rightarrow> nf10 option" where
  "release_all s = map_option unmap_bar0 (free_dma_regions s)"

section \<open>Phases of probe\<close>

text \<open>Claiming the device: the result is an error that ends the call, or the state to go on with.\<close>

definition probe_claim :: "pci_kernel \<Rightarrow> nf10 \<Rightarrow> (i32 \<times> nf10) + nf10" where
  "probe_claim k s = (let s = s\<lparr>hw_state := hw_state s OR HW_FOUND\<rparr> in
     if pci_enable_err k \<noteq> 0 then Inl (pci_enable_err k, s)
     else let s = acquire PciDevice s in
     if pci_request_err k \<noteq> 0 then Inl (pci_request_err k, pci_disable_device s)
     else let s = (acquire Bar0Region s)\<lparr>bar0_base_va := pci_ioremap k\<rparr> in
     if pci_ioremap k = 0 then Inl (- ENOMEM, pci_disable_device (pci_release_region s))
     else let s = (acquire (Bar0Map (pci_ioremap k)) s)\<lparr>
                    mmio_live := (pci_ioremap k, unat (pci_resource_len k)) # mmio_live s,
                    bar0_size := ucast (pci_resource_len k)\<rparr> in
     if \<not> sizeof_OccpSpace \<le> unat (bar0_size s) then Inl (- 1, unmap_bar0 s)
     else if dma_mask_err k \<noteq> 0 then Inl (dma_mask_err k, unmap_bar0 s)
     else if dma_coherent_mask_err k \<noteq> 0 then Inl (dma_coherent_mask_err k, unmap_bar0 s)
     else Inr s)"

text \<open>The allocation loop; \<open>n\<close> counts the allocations made so far.\<close>

function probe_alloc :: "pci_kernel \<Rightarrow> nat \<Rightarrow> nf10 \<Rightarrow> nf10 option" where
  "probe_alloc k n s =
     (if MIN_DMA_CPU_BUFS \<le> dma_cpu_bufs s then
        let region = dma_region_bytes (dma_cpu_bufs s);
            (va, pa) = dma_alloc k n region;
            s = s\<lparr>dma_region_size := region, tx_dma_reg_va := va, tx_dma_reg_pa := pa\<rparr> in
        if va = 0 then probe_alloc k (Suc n) (s\<lparr>dma_cpu_bufs := dma_cpu_bufs s div 2\<rparr>)
        else
          let s = dma_alloced va region s;
              (va', pa') = dma_alloc k (Suc n) region;
              s = s\<lparr>rx_dma_reg_va := va', rx_dma_reg_pa := pa'\<rparr> in
          if va' = 0 then
            (case dma_free_coherent region va s of
               None \<Rightarrow> None
             | Some s' \<Rightarrow> probe_alloc k (Suc (Suc n)) (s'\<lparr>dma_cpu_bufs := dma_cpu_bufs s div 2\<rparr>))
          else Some (dma_alloced va' region s)
      else Some s)"
  by auto

termination
proof (relation "measure (\<lambda>(k, n, s). unat (dma_cpu_bufs s))", goal_cases)
  case (2 k n s)
  then show ?case by (simp add: MIN_DMA_CPU_BUFS_def word_le_nat_alt unat_div)
next
  case (3 k n s)
  then show ?case by (simp add: MIN_DMA_CPU_BUFS_def word_le_nat_alt unat_div dma_alloced_def acquire_def)
qed simp

declare probe_alloc.simps [simp del]

text \<open>Six workers are reset, initialised and started, in this order.\<close>

definition probe_workers :: "nat list" where
  "probe_workers = [WORKER_DP0, WORKER_DP1, WORKER_SMA0, WORKER_SMA1, WORKER_BIAS, WORKER_NF10]"

primrec mmio_wr_seq :: "(addr \<times> u32) list \<Rightarrow> nf10 \<Rightarrow> nf10 option" where
  "mmio_wr_seq [] s = Some s"
| "mmio_wr_seq (w # ws) s = Option.bind (mmio_wr32 (fst w) (snd w) s) (mmio_wr_seq ws)"

definition control_writes :: "addr \<Rightarrow> u32 \<Rightarrow> (addr \<times> u32) list" where
  "control_writes occp v = map (\<lambda>w. (worker_ctrl occp w + worker_reg_offset R_control, v)) probe_workers"

definition probe_reset :: "nf10 \<Rightarrow> nf10 option" where
  "probe_reset s = (let occp = bar0_base_va s;
                        s = s\<lparr>nf10_regs := worker_config occp WORKER_NF10,
                              nf10_ctrl := worker_ctrl occp WORKER_NF10\<rparr> in do {
     s \<leftarrow> mmio_wr_seq (control_writes occp OCCP_LOG_TIMEOUT) s;
     s \<leftarrow> mmio_wr_seq (control_writes occp (OCCP_CONTROL_ENABLE OR OCCP_LOG_TIMEOUT)) (mb s);
     Some (mb s)
   })"

text \<open>
  Reading the \<open>initialize\<close> (or \<open>start\<close>) register of a worker makes it initialise (start);
  all six are read even after a failure.
\<close>

primrec command_workers :: "hardware \<Rightarrow> worker_reg \<Rightarrow> nat list \<Rightarrow> i32 \<Rightarrow> nf10 \<Rightarrow> (i32 \<times> nf10) option" where
  "command_workers hw r [] err s = Some (err, s)"
| "command_workers hw r (w # ws) err s = do {
     (v, s) \<leftarrow> mmio_rd32 hw (worker_ctrl (bar0_base_va s) w + worker_reg_offset r) s;
     command_workers hw r ws (if v \<noteq> OCCP_SUCCESS_RESULT then - 1 else err) s
   }"

text \<open>The properties of a dataplane worker for a region at bus address \<open>pa\<close>.\<close>

definition dp_writes :: "addr \<Rightarrow> nat \<Rightarrow> u64 \<Rightarrow> u32 \<Rightarrow> u32 \<Rightarrow> (addr \<times> u32) list" where
  "dp_writes occp w pa bufs control = map (\<lambda>(p, v). (worker_config occp w + ocdp_prop_offset p, v))
     [(P_nLocalBuffers, DMA_FPGA_BUFS),
      (P_nRemoteBuffers, bufs),
      (P_localBufferBase, 0),
      (P_localMetadataBase, DMA_FPGA_BUFS * DMA_BUF_SIZE),
      (P_localBufferSize, DMA_BUF_SIZE),
      (P_localMetadataSize, word_of_nat OCDP_METADATA_SIZE),
      (P_memoryBytes, 32 * 1024),
      (P_remoteBufferBase, ucast pa),
      (P_remoteMetadataBase, ucast pa + bufs * DMA_BUF_SIZE),
      (P_remoteBufferSize, DMA_BUF_SIZE),
      (P_remoteMetadataSize, word_of_nat OCDP_METADATA_SIZE),
      (P_remoteFlagBase, ucast pa + (DMA_BUF_SIZE + word_of_nat OCDP_METADATA_SIZE) * bufs),
      (P_remoteFlagPitch, 4),
      (P_control, control)]"

definition probe_configure :: "nf10 \<Rightarrow> nf10 option" where
  "probe_configure s = (let occp = bar0_base_va s in do {
     s \<leftarrow> mmio_wr_seq [(worker_config occp WORKER_SMA0, 1), (worker_config occp WORKER_BIAS, 0),
                       (worker_config occp WORKER_SMA1, 2)] s;
     let s = s\<lparr>tx_dma_stream := carve_stream (tx_dma_reg_va s) (dma_cpu_bufs s)
                 (worker_config occp WORKER_DP0 + ocdp_prop_offset P_nRemoteDone)\<rparr>;
     s \<leftarrow> store_bytes (flags (tx_dma_stream s)) (replicate (4 * unat (dma_cpu_bufs s)) 1) s;
     s \<leftarrow> mmio_wr_seq (dp_writes occp WORKER_DP0 (tx_dma_reg_pa s) (dma_cpu_bufs s)
                        (OCDP_CONTROL OCDP_CONTROL_CONSUMER OCDP_ACTIVE_MESSAGE)) s;
     let s = s\<lparr>rx_dma_stream := carve_stream (rx_dma_reg_va s) (dma_cpu_bufs s)
                 (worker_config occp WORKER_DP1 + ocdp_prop_offset P_nRemoteDone)\<rparr>;
     s \<leftarrow> store_bytes (flags (rx_dma_stream s)) (replicate (4 * unat (dma_cpu_bufs s)) 0) s;
     s \<leftarrow> mmio_wr_seq (dp_writes occp WORKER_DP1 (rx_dma_reg_pa s) (dma_cpu_bufs s)
                        (OCDP_CONTROL OCDP_CONTROL_PRODUCER OCDP_ACTIVE_MESSAGE)) s;
     Some (mb s)
   })"

definition probe_go :: "nf10 \<Rightarrow> (i32 \<times> nf10) option" where
  "probe_go s = do {
     s \<leftarrow> add_timer (s\<lparr>hw_state := hw_state s OR HW_INIT,
                        timer_expires := jiffies s + RX_POLL_INTERVAL\<rparr>);
     Some (0, s)
   }"

definition probe :: "pci_kernel \<Rightarrow> hardware \<Rightarrow> nf10 \<Rightarrow> (i32 \<times> nf10) option" where
  "probe k hw s =
     (case probe_claim k s of
        Inl failed \<Rightarrow> Some failed
      | Inr s \<Rightarrow> do {
          s \<leftarrow> probe_alloc k 0 (s\<lparr>dma_cpu_bufs := DMA_CPU_BUFS\<rparr>);
          if tx_dma_reg_va s = 0 \<or> rx_dma_reg_va s = 0 then Some (0, unmap_bar0 s)
          else do {
            s \<leftarrow> probe_reset s;
            (err, s) \<leftarrow> command_workers hw R_initialize probe_workers 0 s;
            if err \<noteq> 0 then do { s \<leftarrow> release_all s; Some (err, s) }
            else do {
              s \<leftarrow> probe_configure (mb s);
              (err, s) \<leftarrow> command_workers hw R_start probe_workers 0 s;
              if err \<noteq> 0 then do { s \<leftarrow> release_all s; Some (err, s) }
              else probe_go s
            }
          }
        })"

definition remove_dev :: "nf10 \<Rightarrow> nf10 option" where
  "remove_dev s = release_all s"


section \<open>Effects of the phases\<close>

definition mmio_events :: "(addr \<times> u32) list \<Rightarrow> bus_event list" where
  "mmio_events ws = map (\<lambda>w. MmioWr (fst w) (snd w)) ws"

lemma mmio_wr_seq_ok:
  assumes "list_all (\<lambda>w. covered (mmio_live s) (fst w) 4) ws"
  shows "mmio_wr_seq ws s = Some (s\<lparr>bus := bus s @ mmio_events ws\<rparr>)"
  using assms
proof (induction ws arbitrary: s)
  case (Cons w ws)
  then show ?case using Cons.IH [of "s\<lparr>bus := bus s @ [MmioWr (fst w) (snd w)]\<rparr>"]
    by (simp add: mmio_wr32_def mmio_events_def)
qed (simp add: mmio_events_def)

definition bar0_mapped :: "nf10 \<Rightarrow> bool" where
  "bar0_mapped s \<longleftrightarrow> (\<exists>n. (bar0_base_va s, n) \<in> set (mmio_live s) \<and> sizeof_OccpSpace \<le> n)"

lemma bar0_mapped_frame [simp]:
  "bar0_mapped (s\<lparr>bus := b\<rparr>) = bar0_mapped s" "bar0_mapped (s\<lparr>nf10_regs := r, nf10_ctrl := c\<rparr>) = bar0_mapped s"
  "bar0_mapped (s\<lparr>tx_dma_stream := st\<rparr>) = bar0_mapped s" "bar0_mapped (s\<lparr>rx_dma_stream := st\<rparr>) = bar0_mapped s"
  "bar0_mapped (s\<lparr>kmem := m\<rparr>) = bar0_mapped s"
  by (simp_all add: bar0_mapped_def)

lemma probe_workers_bound: "w \<in> set probe_workers \<Longrightarrow> w < OCCP_MAX_WORKERS"
  by (auto simp: probe_workers_def OCCP_MAX_WORKERS_def WORKER_DP0_def WORKER_DP1_def WORKER_SMA0_def
      WORKER_SMA1_def WORKER_BIAS_def WORKER_NF10_def)

lemma bar0_reg_covered:
  assumes "bar0_mapped s" and "w \<in> set probe_workers"
  shows "covered (mmio_live s) (worker_ctrl (bar0_base_va s) w + worker_reg_offset r) 4"
    and "d + 4 \<le> OCCP_WORKER_CONFIG_SIZE \<Longrightarrow> covered (mmio_live s) (worker_config (bar0_base_va s) w + d) 4"
  using assms occp_covered probe_workers_bound [OF assms(2)] by (auto simp: bar0_mapped_def)

lemma control_writes_ok:
  assumes "bar0_mapped s"
  shows "mmio_wr_seq (control_writes (bar0_base_va s) v) s
    = Some (s\<lparr>bus := bus s @ mmio_events (control_writes (bar0_base_va s) v)\<rparr>)"
  using bar0_reg_covered(1) [OF assms, of _ R_control]
  by (intro mmio_wr_seq_ok) (simp add: control_writes_def list_all_iff del: worker_reg_offset.simps)

definition reset_events :: "addr \<Rightarrow> bus_event list" where
  "reset_events occp = mmio_events (control_writes occp OCCP_LOG_TIMEOUT) @ [Barrier] @
     mmio_events (control_writes occp (OCCP_CONTROL_ENABLE OR OCCP_LOG_TIMEOUT)) @ [Barrier]"

lemma probe_reset_ok:
  assumes "bar0_mapped s"
  shows "probe_reset s = Some (s\<lparr>nf10_regs := worker_config (bar0_base_va s) WORKER_NF10,
    nf10_ctrl := worker_ctrl (bar0_base_va s) WORKER_NF10,
    bus := bus s @ reset_events (bar0_base_va s)\<rparr>)"
proof -
  define s1 where "s1 = s\<lparr>nf10_regs := worker_config (bar0_base_va s) WORKER_NF10,
    nf10_ctrl := worker_ctrl (bar0_base_va s) WORKER_NF10\<rparr>"
  have m: "bar0_mapped (s1\<lparr>bus := b\<rparr>)" "bar0_base_va (s1\<lparr>bus := b\<rparr>) = bar0_base_va s" for b
    using assms by (simp_all add: s1_def)
  have w: "mmio_wr_seq (control_writes (bar0_base_va s) v) (s1\<lparr>bus := b\<rparr>)
      = Some (s1\<lparr>bus := b @ mmio_events (control_writes (bar0_base_va s) v)\<rparr>)" for v b
    using control_writes_ok [OF m(1) [of b], of v] by (simp add: m(2))
  from w [of _ "bus s1"]
    w [of _ "bus s1 @ mmio_events (control_writes (bar0_base_va s) OCCP_LOG_TIMEOUT) @ [Barrier]"]
  show ?thesis
    by (simp add: probe_reset_def Let_def s1_def [symmetric] mb_def reset_events_def)
       (simp add: s1_def)
qed

lemma command_workers_ok:
  assumes "bar0_mapped s" and "set ws \<subseteq> set probe_workers"
  shows "\<exists>err' evs. command_workers hw r ws err s = Some (err', s\<lparr>bus := bus s @ evs\<rparr>) \<and> err' \<in> {err, - 1}"
  using assms
proof (induction ws arbitrary: s err)
  case Nil
  show ?case by (intro exI [of _ err] exI [of _ "[]"]) simp
next
  case (Cons w ws)
  let ?a = "worker_ctrl (bar0_base_va s) w + worker_reg_offset r"
  let ?v = "hw (bus s) ?a"
  have "covered (mmio_live s) ?a 4" using bar0_reg_covered(1) [OF Cons.prems(1)] Cons.prems(2) by simp
  moreover obtain err' evs where "command_workers hw r ws (if ?v \<noteq> OCCP_SUCCESS_RESULT then - 1 else err)
      (s\<lparr>bus := bus s @ [MmioRd ?a ?v]\<rparr>) = Some (err', s\<lparr>bus := bus s @ [MmioRd ?a ?v] @ evs\<rparr>)"
      "err' \<in> {if ?v \<noteq> OCCP_SUCCESS_RESULT then - 1 else err, - 1}"
    using Cons.IH [of "s\<lparr>bus := bus s @ [MmioRd ?a ?v]\<rparr>"] Cons.prems by fastforce
  ultimately show ?case
    by (intro exI [of _ err'] exI [of _ "[MmioRd ?a ?v] @ evs"])
       (auto simp: mmio_rd32_def split: if_splits)
qed


text \<open>
  The allocation loop ends with both regions, of the same size, or with none; in the second
  case everything it allocated on the way has been freed.
\<close>

definition alloc_result :: "pci_kernel \<Rightarrow> nf10 \<Rightarrow> nf10 \<Rightarrow> bool" where
  "alloc_result k s s' \<longleftrightarrow> (\<exists>bufs region tva tpa rva rpa.
     s' = s\<lparr>dma_cpu_bufs := bufs, dma_region_size := region, tx_dma_reg_va := tva, tx_dma_reg_pa := tpa,
            rx_dma_reg_va := rva, rx_dma_reg_pa := rpa,
            held := (if tva \<noteq> 0 \<and> rva \<noteq> 0
                     then [DmaCoherent rva (unat region), DmaCoherent tva (unat region)] else []) @ held s,
            live := (if tva \<noteq> 0 \<and> rva \<noteq> 0 then [(rva, unat region), (tva, unat region)] else []) @ live s\<rparr> \<and>
     (tva \<noteq> 0 \<and> rva \<noteq> 0 \<longrightarrow> 0 < unat bufs \<and> unat bufs \<le> unat (dma_cpu_bufs s) \<and>
        region = dma_region_bytes bufs \<and>
        (\<exists>m. dma_alloc k m region = (tva, tpa) \<and> dma_alloc k (Suc m) region = (rva, rpa))))"

lemma alloc_result_retry:
  assumes "alloc_result k (s\<lparr>dma_region_size := r, tx_dma_reg_va := a, tx_dma_reg_pa := b,
      rx_dma_reg_va := c, rx_dma_reg_pa := d, dma_cpu_bufs := bufs\<rparr>) s'" and "unat bufs \<le> unat (dma_cpu_bufs s)"
  shows "alloc_result k s s'"
  using assms unfolding alloc_result_def
  by (elim exE conjE, intro exI conjI) (auto intro: order.trans)

lemma dma_free_alloced:
  "va \<noteq> 0 \<Longrightarrow> dma_free_coherent n va ((dma_alloced va n s)\<lparr>rx_dma_reg_va := c, rx_dma_reg_pa := d\<rparr>)
     = Some (s\<lparr>rx_dma_reg_va := c, rx_dma_reg_pa := d\<rparr>)"
  by (simp add: dma_free_coherent_def dma_alloced_def acquire_def release_def)

lemma alloc_result_failed:
  "tva = 0 \<or> rva = 0 \<Longrightarrow> alloc_result k s (s\<lparr>dma_region_size := region, tx_dma_reg_va := tva,
     tx_dma_reg_pa := tpa, rx_dma_reg_va := rva, rx_dma_reg_pa := rpa, dma_cpu_bufs := bufs\<rparr>)"
  unfolding alloc_result_def
  by (rule exI [of _ bufs], rule exI [of _ region], rule exI [of _ tva], rule exI [of _ tpa],
      rule exI [of _ rva], rule exI [of _ rpa]) auto

lemma alloc_result_succeeded:
  assumes "0 < unat (dma_cpu_bufs s)" and "tva \<noteq> 0" and "rva \<noteq> 0"
    and "region = dma_region_bytes (dma_cpu_bufs s)"
    and "dma_alloc k m region = (tva, tpa)" and "dma_alloc k (Suc m) region = (rva, rpa)"
  shows "alloc_result k s (dma_alloced rva region ((dma_alloced tva region
    (s\<lparr>dma_region_size := region, tx_dma_reg_va := tva, tx_dma_reg_pa := tpa\<rparr>))\<lparr>rx_dma_reg_va := rva,
       rx_dma_reg_pa := rpa\<rparr>))"
  unfolding alloc_result_def
  by (rule exI [of _ "dma_cpu_bufs s"], rule exI [of _ region], rule exI [of _ tva], rule exI [of _ tpa],
      rule exI [of _ rva], rule exI [of _ rpa])
     (use assms in \<open>auto simp: dma_alloced_def acquire_def\<close>)

text \<open>One turn of the loop.\<close>

lemma probe_alloc_turn:
  assumes "0 < unat (dma_cpu_bufs s)" and region: "region = dma_region_bytes (dma_cpu_bufs s)"
    and t: "dma_alloc k n region = (tva, tpa)" and r: "dma_alloc k (Suc n) region = (rva, rpa)"
  shows "probe_alloc k n s =
    (if tva = 0 then probe_alloc k (Suc n) (s\<lparr>dma_region_size := region, tx_dma_reg_va := tva,
       tx_dma_reg_pa := tpa, dma_cpu_bufs := dma_cpu_bufs s div 2\<rparr>)
     else if rva = 0 then probe_alloc k (Suc (Suc n)) (s\<lparr>dma_region_size := region, tx_dma_reg_va := tva,
       tx_dma_reg_pa := tpa, rx_dma_reg_va := rva, rx_dma_reg_pa := rpa, dma_cpu_bufs := dma_cpu_bufs s div 2\<rparr>)
     else Some (dma_alloced rva region ((dma_alloced tva region
       (s\<lparr>dma_region_size := region, tx_dma_reg_va := tva, tx_dma_reg_pa := tpa\<rparr>))\<lparr>rx_dma_reg_va := rva,
          rx_dma_reg_pa := rpa\<rparr>)))"
proof -
  have le: "MIN_DMA_CPU_BUFS \<le> dma_cpu_bufs s"
    using assms(1) by (simp add: MIN_DMA_CPU_BUFS_def word_le_nat_alt)
  let ?s1 = "s\<lparr>dma_region_size := region, tx_dma_reg_va := tva, tx_dma_reg_pa := tpa\<rparr>"
  have bufs: "dma_cpu_bufs ((dma_alloced tva region ?s1)\<lparr>rx_dma_reg_va := rva, rx_dma_reg_pa := rpa\<rparr>)
      = dma_cpu_bufs s" by (simp add: dma_alloced_def acquire_def)
  show ?thesis
    using le t r dma_free_alloced [where va = tva and n = region and s = ?s1 and c = rva and d = rpa] bufs
    by (simp only: probe_alloc.simps [of k n s] region [symmetric] Let_def prod.case if_True)
       (cases "tva = 0"; cases "rva = 0"; simp)
qed

lemma probe_alloc_ok:
  assumes "0 < unat (dma_cpu_bufs s)"
  shows "\<exists>s'. probe_alloc k n s = Some s' \<and> alloc_result k s s'"
  using assms
proof (induction "unat (dma_cpu_bufs s)" arbitrary: n s rule: less_induct)
  case less
  define region where "region = dma_region_bytes (dma_cpu_bufs s)"
  obtain tva tpa where t: "dma_alloc k n region = (tva, tpa)" by fastforce
  obtain rva rpa where r: "dma_alloc k (Suc n) region = (rva, rpa)" by fastforce
  note turn = probe_alloc_turn [OF less.prems region_def t r]
  let ?h = "dma_cpu_bufs s div 2"
  have half: "unat ?h < unat (dma_cpu_bufs s)" "unat ?h \<le> unat (dma_cpu_bufs s)"
    using less.prems by (simp_all add: unat_div)
  have retry: "\<exists>s'. probe_alloc k m (s\<lparr>dma_region_size := region, tx_dma_reg_va := a,
      tx_dma_reg_pa := b, rx_dma_reg_va := c, rx_dma_reg_pa := d, dma_cpu_bufs := ?h\<rparr>) = Some s' \<and> alloc_result k s s'"
    (is "\<exists>s'. probe_alloc k m ?s1 = Some s' \<and> _")
    if dead: "a = 0 \<or> c = 0" for m a b c d
  proof (cases "0 < unat ?h")
    case True
    then obtain s' where "probe_alloc k m ?s1 = Some s'" "alloc_result k ?s1 s'"
      using less.hyps [of ?s1 m] half(1) by auto
    then show ?thesis using alloc_result_retry half(2) by blast
  next
    case False
    then have "probe_alloc k m ?s1 = Some ?s1"
      by (simp add: probe_alloc.simps [of k m ?s1] MIN_DMA_CPU_BUFS_def word_le_nat_alt)
    then show ?thesis using alloc_result_failed [OF dead] by blast
  qed
  show ?case
  proof (cases "tva = 0")
    case True
    have "s\<lparr>dma_region_size := region, tx_dma_reg_va := tva, tx_dma_reg_pa := tpa, dma_cpu_bufs := ?h\<rparr>
        = s\<lparr>dma_region_size := region, tx_dma_reg_va := tva, tx_dma_reg_pa := tpa,
            rx_dma_reg_va := rx_dma_reg_va s, rx_dma_reg_pa := rx_dma_reg_pa s, dma_cpu_bufs := ?h\<rparr>"
      by simp
    with turn True retry [of tva "rx_dma_reg_va s" "Suc n" "rx_dma_reg_pa s" tpa]
    show ?thesis by (metis (no_types, lifting))
  next
    case tok: False
    show ?thesis
    proof (cases "rva = 0")
      case True
      with turn tok retry [of tva rva "Suc (Suc n)" rpa tpa] show ?thesis by presburger
    next
      case False
      with turn tok alloc_result_succeeded [OF less.prems tok False region_def t r]
      show ?thesis by simp
    qed
  qed
qed


lemma unat_ucast_le: "unat (ucast (w :: u64) :: u32) \<le> unat w"
  by (simp add: unsigned_ucast_eq take_bit_nat_less_eq_self)

text \<open>Claiming ends with an error and nothing held, or with the device, its region and its mapping.\<close>

definition claimed :: "pci_kernel \<Rightarrow> nf10 \<Rightarrow> nf10" where
  "claimed k s = s\<lparr>hw_state := hw_state s OR HW_FOUND,
     bar0_base_va := pci_ioremap k,
     held := [Bar0Map (pci_ioremap k), Bar0Region, PciDevice] @ held s,
     mmio_live := (pci_ioremap k, unat (pci_resource_len k)) # mmio_live s,
     bar0_size := ucast (pci_resource_len k)\<rparr>"

lemma unmap_bar0_claimed:
  assumes "held s = [Bar0Map (bar0_base_va s), Bar0Region, PciDevice] @ hs"
  shows "unmap_bar0 s = s\<lparr>held := hs, mmio_live := filter (\<lambda>r. fst r \<noteq> bar0_base_va s) (mmio_live s)\<rparr>"
  using assms
  by (simp add: unmap_bar0_def iounmap_def pci_release_region_def pci_disable_device_def give_back_def)

definition given_up :: "nf10 \<Rightarrow> nf10 \<Rightarrow> bool" where
  "given_up s s' \<longleftrightarrow> held s' = held s \<and> unheld s' = unheld s \<and> timer_pending s' = timer_pending s \<and>
     hw_state s' = hw_state s OR HW_FOUND"

lemma probe_claim_ok:
  "(\<exists>e s'. probe_claim k s = Inl (e, s') \<and> e \<noteq> 0 \<and> given_up s s') \<or>
   (probe_claim k s = Inr (claimed k s) \<and> pci_ioremap k \<noteq> 0 \<and>
    sizeof_OccpSpace \<le> unat (pci_resource_len k))"
proof -
  have len: "sizeof_OccpSpace \<le> unat (pci_resource_len k)"
    if "sizeof_OccpSpace \<le> unat (ucast (pci_resource_len k) :: u32)"
    using that unat_ucast_le [of "pci_resource_len k"] by simp
  have held: "held (claimed k s) = [Bar0Map (bar0_base_va (claimed k s)), Bar0Region, PciDevice] @ held s"
    by (simp add: claimed_def)
  note un = unmap_bar0_claimed [OF held]
  consider (enable) "pci_enable_err k \<noteq> 0"
    | (request) "pci_enable_err k = 0" "pci_request_err k \<noteq> 0"
    | (map) "pci_enable_err k = 0" "pci_request_err k = 0" "pci_ioremap k = 0"
    | (mapped) "pci_enable_err k = 0" "pci_request_err k = 0" "pci_ioremap k \<noteq> 0"
    by blast
  then show ?thesis
  proof cases
    case enable
    then show ?thesis by (simp add: probe_claim_def Let_def given_up_def)
  next
    case request
    then show ?thesis
      by (simp add: probe_claim_def Let_def given_up_def pci_disable_device_def give_back_def acquire_def)
  next
    case map
    then show ?thesis
      by (simp add: probe_claim_def Let_def given_up_def pci_disable_device_def pci_release_region_def
          give_back_def acquire_def ENOMEM_def)
  next
    case mapped
    have "probe_claim k s =
       (if \<not> sizeof_OccpSpace \<le> unat (ucast (pci_resource_len k) :: u32)
        then Inl (- 1, unmap_bar0 (claimed k s))
        else if dma_mask_err k \<noteq> 0 then Inl (dma_mask_err k, unmap_bar0 (claimed k s))
        else if dma_coherent_mask_err k \<noteq> 0 then Inl (dma_coherent_mask_err k, unmap_bar0 (claimed k s))
        else Inr (claimed k s))"
      using mapped by (simp add: probe_claim_def Let_def acquire_def claimed_def)
    then show ?thesis
      using un len mapped by (auto simp: given_up_def claimed_def)
  qed
qed

section \<open>Configuration\<close>

definition tx_stream_of :: "nf10 \<Rightarrow> dma_stream" where
  "tx_stream_of s = carve_stream (tx_dma_reg_va s) (dma_cpu_bufs s)
     (worker_config (bar0_base_va s) WORKER_DP0 + ocdp_prop_offset P_nRemoteDone)"

definition rx_stream_of :: "nf10 \<Rightarrow> dma_stream" where
  "rx_stream_of s = carve_stream (rx_dma_reg_va s) (dma_cpu_bufs s)
     (worker_config (bar0_base_va s) WORKER_DP1 + ocdp_prop_offset P_nRemoteDone)"

definition configure_events :: "nf10 \<Rightarrow> bus_event list" where
  "configure_events s = (let occp = bar0_base_va s; n = 4 * unat (dma_cpu_bufs s) in
     mmio_events [(worker_config occp WORKER_SMA0, 1), (worker_config occp WORKER_BIAS, 0),
                  (worker_config occp WORKER_SMA1, 2)] @
     [MemWr (flags (tx_stream_of s)) (replicate n 1)] @
     mmio_events (dp_writes occp WORKER_DP0 (tx_dma_reg_pa s) (dma_cpu_bufs s)
                   (OCDP_CONTROL OCDP_CONTROL_CONSUMER OCDP_ACTIVE_MESSAGE)) @
     [MemWr (flags (rx_stream_of s)) (replicate n 0)] @
     mmio_events (dp_writes occp WORKER_DP1 (rx_dma_reg_pa s) (dma_cpu_bufs s)
                   (OCDP_CONTROL OCDP_CONTROL_PRODUCER OCDP_ACTIVE_MESSAGE)) @
     [Barrier])"

definition configured :: "nf10 \<Rightarrow> nf10" where
  "configured s = s\<lparr>tx_dma_stream := tx_stream_of s, rx_dma_stream := rx_stream_of s,
     kmem := wr_bytes (wr_bytes (kmem s) (flags (tx_stream_of s)) (replicate (4 * unat (dma_cpu_bufs s)) 1))
               (flags (rx_stream_of s)) (replicate (4 * unat (dma_cpu_bufs s)) 0),
     bus := bus s @ configure_events s\<rparr>"

lemma dp_writes_covered:
  assumes "bar0_mapped s" and "w \<in> {WORKER_DP0, WORKER_DP1}"
  shows "list_all (\<lambda>x. covered (mmio_live s) (fst x) 4) (dp_writes (bar0_base_va s) w pa bufs ctl)"
proof -
  have w: "w \<in> set probe_workers" using assms(2) by (auto simp: probe_workers_def)
  have "covered (mmio_live s) (worker_config (bar0_base_va s) w + ocdp_prop_offset p) 4" for p
    using bar0_reg_covered(2) [OF assms(1) w] ocdp_prop_offset_bound [of p]
    by (simp add: OCCP_WORKER_CONFIG_SIZE_def)
  then show ?thesis by (simp add: dp_writes_def del: ocdp_prop_offset.simps)
qed

lemma props_covered:
  assumes "bar0_mapped s" and "w \<in> set probe_workers"
  shows "covered (mmio_live s) (worker_config (bar0_base_va s) w) 4"
  using bar0_reg_covered(2) [OF assms, of 0] by (simp add: OCCP_WORKER_CONFIG_SIZE_def)


text \<open>Both regions are allocated, with the size that belongs to the number of slots.\<close>

definition regions_ready :: "nf10 \<Rightarrow> bool" where
  "regions_ready s \<longleftrightarrow> 0 < unat (dma_cpu_bufs s) \<and> unat (dma_cpu_bufs s) \<le> 32768 \<and>
     tx_dma_reg_va s \<noteq> 0 \<and> rx_dma_reg_va s \<noteq> 0 \<and>
     (tx_dma_reg_va s, 2068 * unat (dma_cpu_bufs s)) \<in> set (live s) \<and>
     (rx_dma_reg_va s, 2068 * unat (dma_cpu_bufs s)) \<in> set (live s)"

lemma streams_of_wf:
  assumes "regions_ready s"
  shows "stream_wf (dma_cpu_bufs s) (tx_stream_of s)" "stream_wf (dma_cpu_bufs s) (rx_stream_of s)"
    "flags (tx_stream_of s) = slot_flag (tx_dma_reg_va s) (unat (dma_cpu_bufs s)) 0"
    "flags (rx_stream_of s) = slot_flag (rx_dma_reg_va s) (unat (dma_cpu_bufs s)) 0"
proof -
  show wf: "stream_wf (dma_cpu_bufs s) (tx_stream_of s)" "stream_wf (dma_cpu_bufs s) (rx_stream_of s)"
    using assms carve_stream_wf by (simp_all add: regions_ready_def tx_stream_of_def rx_stream_of_def)
  show "flags (tx_stream_of s) = slot_flag (tx_dma_reg_va s) (unat (dma_cpu_bufs s)) 0"
    "flags (rx_stream_of s) = slot_flag (rx_dma_reg_va s) (unat (dma_cpu_bufs s)) 0"
    using stream_wfD(6) [OF wf(1)] stream_wfD(6) [OF wf(2)]
    by (simp_all add: slot_flag_def) (simp_all add: tx_stream_of_def rx_stream_of_def carve_stream_def)
qed

lemma flags_covered:
  assumes "(va, 2068 * N) \<in> set rs"
  shows "covered rs (slot_flag va N 0) (4 * N)"
  by (rule covered_region [OF assms]) (simp_all add: slot_flag_def)

lemma probe_configure_ok:
  assumes map: "bar0_mapped s" and reg: "regions_ready s"
  shows "probe_configure s = Some (configured s)"
proof -
  let ?occp = "bar0_base_va s" and ?n = "4 * unat (dma_cpu_bufs s)"
  let ?misc = "[(worker_config ?occp WORKER_SMA0, 1), (worker_config ?occp WORKER_BIAS, 0),
                (worker_config ?occp WORKER_SMA1, 2 :: u32)]"
  let ?dp0 = "dp_writes ?occp WORKER_DP0 (tx_dma_reg_pa s) (dma_cpu_bufs s)
                (OCDP_CONTROL OCDP_CONTROL_CONSUMER OCDP_ACTIVE_MESSAGE)"
  let ?dp1 = "dp_writes ?occp WORKER_DP1 (rx_dma_reg_pa s) (dma_cpu_bufs s)
                (OCDP_CONTROL OCDP_CONTROL_PRODUCER OCDP_ACTIVE_MESSAGE)"
  have misc: "list_all (\<lambda>w. covered (mmio_live s) (fst w) 4) ?misc"
    using props_covered [OF map] by (simp add: probe_workers_def)
  have dp: "list_all (\<lambda>w. covered (mmio_live s) (fst w) 4) ?dp0"
    "list_all (\<lambda>w. covered (mmio_live s) (fst w) 4) ?dp1"
    by (rule dp_writes_covered [OF map], simp)+
  have cov: "covered (live s) (flags (tx_stream_of s)) ?n" "covered (live s) (flags (rx_stream_of s)) ?n"
    using flags_covered reg by (simp_all add: streams_of_wf(3,4) [OF reg] regions_ready_def)
  show ?thesis
    using misc dp cov
    by (simp add: probe_configure_def Let_def mmio_wr_seq_ok store_bytes_def mb_def
        tx_stream_of_def [symmetric] rx_stream_of_def [symmetric] configured_def configure_events_def
        del: ocdp_prop_offset.simps mmio_wr_seq.simps)
qed

section \<open>Outcomes of probe\<close>

lemma release_all_ok:
  assumes "held s = [DmaCoherent (rx_dma_reg_va s) (unat (dma_region_size s)),
      DmaCoherent (tx_dma_reg_va s) (unat (dma_region_size s)), Bar0Map (bar0_base_va s), Bar0Region, PciDevice] @ hs"
    and "tx_dma_reg_va s \<noteq> 0" and "rx_dma_reg_va s \<noteq> 0"
  shows "release_all s = Some (s\<lparr>held := hs,
    live := remove1 (tx_dma_reg_va s, unat (dma_region_size s))
              (remove1 (rx_dma_reg_va s, unat (dma_region_size s)) (live s)),
    mmio_live := filter (\<lambda>r. fst r \<noteq> bar0_base_va s) (mmio_live s)\<rparr>)"
proof -
  define s1 where "s1 = s\<lparr>held := [Bar0Map (bar0_base_va s), Bar0Region, PciDevice] @ hs,
    live := remove1 (tx_dma_reg_va s, unat (dma_region_size s))
              (remove1 (rx_dma_reg_va s, unat (dma_region_size s)) (live s))\<rparr>"
  have "free_dma_regions s = Some s1"
    using assms by (simp add: free_dma_regions_def dma_free_coherent_def release_def s1_def)
  moreover have "unmap_bar0 s1 = s1\<lparr>held := hs,
      mmio_live := filter (\<lambda>r. fst r \<noteq> bar0_base_va s1) (mmio_live s1)\<rparr>"
    by (rule unmap_bar0_claimed) (simp add: s1_def)
  ultimately have "release_all s = Some (s1\<lparr>held := hs,
      mmio_live := filter (\<lambda>r. fst r \<noteq> bar0_base_va s1) (mmio_live s1)\<rparr>)"
    by (simp add: release_all_def)
  then show ?thesis by (simp add: s1_def)
qed


text \<open>A probed, running card.\<close>

definition running :: "pci_kernel \<Rightarrow> nf10 \<Rightarrow> nf10 \<Rightarrow> bool" where
  "running k s s' \<longleftrightarrow> (let n = 2068 * unat (dma_cpu_bufs s') in
     held s' = [DmaCoherent (rx_dma_reg_va s') n, DmaCoherent (tx_dma_reg_va s') n,
                Bar0Map (bar0_base_va s'), Bar0Region, PciDevice] @ held s \<and>
     live s' = [(rx_dma_reg_va s', n), (tx_dma_reg_va s', n)] @ live s \<and>
     unat (dma_region_size s') = n) \<and>
     (\<exists>m. fst (dma_alloc k m (dma_region_size s')) = tx_dma_reg_va s' \<and>
          fst (dma_alloc k (Suc m) (dma_region_size s')) = rx_dma_reg_va s') \<and>
     bar0_mapped s' \<and> regions_ready s' \<and> timer_pending s' \<and>
     hw_state s' = hw_state s OR HW_FOUND OR HW_INIT \<and>
     nf10_regs s' = worker_config (bar0_base_va s') WORKER_NF10 \<and>
     nf10_ctrl s' = worker_ctrl (bar0_base_va s') WORKER_NF10 \<and>
     tx_dma_stream s' = tx_stream_of s' \<and> rx_dma_stream s' = rx_stream_of s' \<and>
     kmem s' = wr_bytes (wr_bytes (kmem s) (flags (tx_stream_of s')) (replicate (4 * unat (dma_cpu_bufs s')) 1))
                 (flags (rx_stream_of s')) (replicate (4 * unat (dma_cpu_bufs s')) 0) \<and>
     nf10_netdevs s' = nf10_netdevs s \<and> netdevs s' = netdevs s \<and> tx_locked s' = tx_locked s \<and>
     napi_scheduled s' = napi_scheduled s \<and> unheld s' = unheld s"

text \<open>The state with both regions allocated, before the workers are touched.\<close>

definition allocated :: "pci_kernel \<Rightarrow> nf10 \<Rightarrow> nf10 \<Rightarrow> bool" where
  "allocated k s s2 \<longleftrightarrow> alloc_result k ((claimed k s)\<lparr>dma_cpu_bufs := DMA_CPU_BUFS\<rparr>) s2 \<and>
     tx_dma_reg_va s2 \<noteq> 0 \<and> rx_dma_reg_va s2 \<noteq> 0 \<and> sizeof_OccpSpace \<le> unat (pci_resource_len k)"

lemma alloc_result_success:
  assumes "alloc_result k s s'" and "tx_dma_reg_va s' \<noteq> 0" and "rx_dma_reg_va s' \<noteq> 0"
  obtains bufs region tva tpa rva rpa where "s' = s\<lparr>dma_cpu_bufs := bufs, dma_region_size := region,
      tx_dma_reg_va := tva, tx_dma_reg_pa := tpa, rx_dma_reg_va := rva, rx_dma_reg_pa := rpa,
      held := [DmaCoherent rva (unat region), DmaCoherent tva (unat region)] @ held s,
      live := [(rva, unat region), (tva, unat region)] @ live s\<rparr>"
    and "tva \<noteq> 0" "rva \<noteq> 0" "0 < unat bufs" "unat bufs \<le> unat (dma_cpu_bufs s)" "region = dma_region_bytes bufs"
    and "\<exists>m. dma_alloc k m region = (tva, tpa) \<and> dma_alloc k (Suc m) region = (rva, rpa)"
proof -
  obtain bufs region tva tpa rva rpa where s': "s' = s\<lparr>dma_cpu_bufs := bufs, dma_region_size := region,
      tx_dma_reg_va := tva, tx_dma_reg_pa := tpa, rx_dma_reg_va := rva, rx_dma_reg_pa := rpa,
      held := (if tva \<noteq> 0 \<and> rva \<noteq> 0
               then [DmaCoherent rva (unat region), DmaCoherent tva (unat region)] else []) @ held s,
      live := (if tva \<noteq> 0 \<and> rva \<noteq> 0 then [(rva, unat region), (tva, unat region)] else []) @ live s\<rparr>"
    and imp: "tva \<noteq> 0 \<and> rva \<noteq> 0 \<longrightarrow> 0 < unat bufs \<and> unat bufs \<le> unat (dma_cpu_bufs s) \<and>
        region = dma_region_bytes bufs \<and>
        (\<exists>m. dma_alloc k m region = (tva, tpa) \<and> dma_alloc k (Suc m) region = (rva, rpa))"
    using assms(1) unfolding alloc_result_def by blast
  have nz: "tva \<noteq> 0" "rva \<noteq> 0" using assms(2,3) by (simp_all add: s')
  have "0 < unat bufs" "unat bufs \<le> unat (dma_cpu_bufs s)" "region = dma_region_bytes bufs"
    "\<exists>m. dma_alloc k m region = (tva, tpa) \<and> dma_alloc k (Suc m) region = (rva, rpa)"
    using imp nz by blast+
  with s' nz show thesis
    by (intro that [where bufs = bufs and region = region and tva = tva and tpa = tpa and rva = rva
          and rpa = rpa]) (simp_all only: simp_thms if_True)
qed

lemma allocatedD:
  assumes "allocated k s s2"
  shows "held s2 = [DmaCoherent (rx_dma_reg_va s2) (unat (dma_region_size s2)),
      DmaCoherent (tx_dma_reg_va s2) (unat (dma_region_size s2)), Bar0Map (bar0_base_va s2), Bar0Region, PciDevice] @ held s"
    "live s2 = [(rx_dma_reg_va s2, unat (dma_region_size s2)), (tx_dma_reg_va s2, unat (dma_region_size s2))] @ live s"
    "unat (dma_region_size s2) = 2068 * unat (dma_cpu_bufs s2)"
    "bar0_mapped s2" "regions_ready s2" "hw_state s2 = hw_state s OR HW_FOUND"
    "timer_pending s2 = timer_pending s" "kmem s2 = kmem s"
    "nf10_netdevs s2 = nf10_netdevs s" "netdevs s2 = netdevs s" "tx_locked s2 = tx_locked s"
    "napi_scheduled s2 = napi_scheduled s"
    "\<exists>m. fst (dma_alloc k m (dma_region_size s2)) = tx_dma_reg_va s2 \<and>
          fst (dma_alloc k (Suc m) (dma_region_size s2)) = rx_dma_reg_va s2"
    "unheld s2 = unheld s"
proof -
  let ?s1 = "(claimed k s)\<lparr>dma_cpu_bufs := DMA_CPU_BUFS\<rparr>"
  obtain bufs region tva tpa rva rpa where s2: "s2 = ?s1\<lparr>dma_cpu_bufs := bufs, dma_region_size := region,
      tx_dma_reg_va := tva, tx_dma_reg_pa := tpa, rx_dma_reg_va := rva, rx_dma_reg_pa := rpa,
      held := [DmaCoherent rva (unat region), DmaCoherent tva (unat region)] @ held ?s1,
      live := [(rva, unat region), (tva, unat region)] @ live ?s1\<rparr>"
    and ok: "tva \<noteq> 0" "rva \<noteq> 0" "0 < unat bufs" "unat bufs \<le> unat (dma_cpu_bufs ?s1)"
      "region = dma_region_bytes bufs"
    and al: "\<exists>m. dma_alloc k m region = (tva, tpa) \<and> dma_alloc k (Suc m) region = (rva, rpa)"
    by (rule alloc_result_success [OF assms [unfolded allocated_def, THEN conjunct1]])
       (use assms in \<open>simp_all add: allocated_def\<close>)
  have n: "unat bufs \<le> 32768" using ok(4) by (simp add: DMA_CPU_BUFS_def)
  have size: "unat region = 2068 * unat bufs" using unat_dma_region_bytes [OF n] ok(5) by simp
  show "held s2 = [DmaCoherent (rx_dma_reg_va s2) (unat (dma_region_size s2)),
      DmaCoherent (tx_dma_reg_va s2) (unat (dma_region_size s2)), Bar0Map (bar0_base_va s2), Bar0Region, PciDevice] @ held s"
    "live s2 = [(rx_dma_reg_va s2, unat (dma_region_size s2)), (tx_dma_reg_va s2, unat (dma_region_size s2))] @ live s"
    "unat (dma_region_size s2) = 2068 * unat (dma_cpu_bufs s2)"
    "hw_state s2 = hw_state s OR HW_FOUND"
    "timer_pending s2 = timer_pending s" "kmem s2 = kmem s"
    "nf10_netdevs s2 = nf10_netdevs s" "netdevs s2 = netdevs s" "tx_locked s2 = tx_locked s"
    "napi_scheduled s2 = napi_scheduled s" "unheld s2 = unheld s"
    using size by (simp_all add: s2 claimed_def)
  show "bar0_mapped s2"
    using assms by (auto simp: s2 claimed_def bar0_mapped_def allocated_def)
  show "regions_ready s2" using ok n size by (simp add: s2 claimed_def regions_ready_def)
  show "\<exists>m. fst (dma_alloc k m (dma_region_size s2)) = tx_dma_reg_va s2 \<and>
          fst (dma_alloc k (Suc m) (dma_region_size s2)) = rx_dma_reg_va s2"
  proof -
    obtain m where "dma_alloc k m region = (tva, tpa)" "dma_alloc k (Suc m) region = (rva, rpa)"
      using al by blast
    then show ?thesis by (intro exI [of _ m]) (simp add: s2)
  qed
qed

lemma release_all_frame:
  assumes "allocated k s s2" and "s3 = s2\<lparr>nf10_regs := r, nf10_ctrl := c, bus := e, tx_dma_stream := t,
    rx_dma_stream := x, kmem := m\<rparr>"
  shows "\<exists>s'. release_all s3 = Some s' \<and> given_up s s'"
proof -
  note a = allocatedD [OF assms(1)]
  have "tx_dma_reg_va s3 \<noteq> 0" "rx_dma_reg_va s3 \<noteq> 0" using a(5) assms(2) by (simp_all add: regions_ready_def)
  from release_all_ok [OF _ this, of "held s"] a(1,6,7,14) show ?thesis
    by (auto simp: assms(2) given_up_def)
qed


lemma allocated_probe:
  assumes al: "allocated k s s2" and idle: "\<not> timer_pending s"
  shows "\<exists>err s'. (do {
      s \<leftarrow> probe_reset s2;
      (err, s) \<leftarrow> command_workers hw R_initialize probe_workers 0 s;
      if err \<noteq> 0 then do { s \<leftarrow> release_all s; Some (err, s) }
      else do {
        s \<leftarrow> probe_configure (mb s);
        (err, s) \<leftarrow> command_workers hw R_start probe_workers 0 s;
        if err \<noteq> 0 then do { s \<leftarrow> release_all s; Some (err, s) }
        else probe_go s
      }
    }) = Some (err, s') \<and> (if err = 0 then running k s s' else given_up s s')"
proof -
  note a = allocatedD [OF al]
  define s3 where "s3 = s2\<lparr>nf10_regs := worker_config (bar0_base_va s2) WORKER_NF10,
    nf10_ctrl := worker_ctrl (bar0_base_va s2) WORKER_NF10, bus := bus s2 @ reset_events (bar0_base_va s2)\<rparr>"
  have s3: "probe_reset s2 = Some s3" "bar0_mapped s3"
    using probe_reset_ok [OF a(4)] a(4) by (simp_all add: s3_def)
  obtain e1 v1 where c1: "command_workers hw R_initialize probe_workers 0 s3 = Some (e1, s3\<lparr>bus := bus s3 @ v1\<rparr>)"
    using command_workers_ok [OF s3(2) order.refl] by blast
  define s4 where "s4 = s3\<lparr>bus := bus s3 @ v1\<rparr>"
  have m4: "bar0_mapped (mb s4)" and r4: "regions_ready (mb s4)"
    using s3(2) a(5) by (simp_all add: s4_def s3_def mb_def regions_ready_def)
  define s5 where "s5 = configured (mb s4)"
  have m5: "bar0_mapped s5" using m4 by (simp add: s5_def configured_def bar0_mapped_def)
  obtain e2 v2 where c2: "command_workers hw R_start probe_workers 0 s5 = Some (e2, s5\<lparr>bus := bus s5 @ v2\<rparr>)"
    using command_workers_ok [OF m5 order.refl] by blast
  define s6 where "s6 = s5\<lparr>bus := bus s5 @ v2\<rparr>"
  have f4: "s4 = s2\<lparr>nf10_regs := nf10_regs s4, nf10_ctrl := nf10_ctrl s4, bus := bus s4,
      tx_dma_stream := tx_dma_stream s4, rx_dma_stream := rx_dma_stream s4, kmem := kmem s4\<rparr>"
    by (simp add: s4_def s3_def)
  have f6: "s6 = s2\<lparr>nf10_regs := nf10_regs s6, nf10_ctrl := nf10_ctrl s6, bus := bus s6,
      tx_dma_stream := tx_dma_stream s6, rx_dma_stream := rx_dma_stream s6, kmem := kmem s6\<rparr>"
    by (simp add: s6_def s5_def s4_def s3_def configured_def mb_def)
  define s7 where "s7 = s6\<lparr>hw_state := hw_state s6 OR HW_INIT, timer_expires := jiffies s6 + RX_POLL_INTERVAL,
    timer_pending := True\<rparr>"
  have "timer_pending s6 = timer_pending s2" by (subst f6) simp
  then have go: "probe_go s6 = Some (0, s7)"
    using a(7) idle by (simp add: probe_go_def add_timer_def s7_def)
  have r7: "regions_ready s7" "bar0_mapped s7" "tx_stream_of s7 = tx_stream_of (mb s4)"
    "rx_stream_of s7 = rx_stream_of (mb s4)" "dma_cpu_bufs s7 = dma_cpu_bufs s2" "dma_cpu_bufs (mb s4) = dma_cpu_bufs s2"
    using r4 m4 by (simp_all add: s7_def s6_def s5_def s4_def s3_def configured_def mb_def regions_ready_def
        bar0_mapped_def tx_stream_of_def rx_stream_of_def)
  have "kmem s7 = wr_bytes (wr_bytes (kmem s) (flags (tx_stream_of s7)) (replicate (4 * unat (dma_cpu_bufs s7)) 1))
      (flags (rx_stream_of s7)) (replicate (4 * unat (dma_cpu_bufs s7)) 0)"
    "tx_dma_stream s7 = tx_stream_of s7" "rx_dma_stream s7 = rx_stream_of s7"
    unfolding r7(3-5)
    using a(8) r7(6) by (simp_all add: s7_def s6_def s5_def configured_def) (simp add: s4_def s3_def mb_def)
  moreover have "held s7 = held s2" "live s7 = live s2" "dma_region_size s7 = dma_region_size s2"
    "tx_dma_reg_va s7 = tx_dma_reg_va s2" "rx_dma_reg_va s7 = rx_dma_reg_va s2"
    "bar0_base_va s7 = bar0_base_va s2" "hw_state s7 = hw_state s2 OR HW_INIT" "timer_pending s7"
    "nf10_regs s7 = worker_config (bar0_base_va s2) WORKER_NF10"
    "nf10_ctrl s7 = worker_ctrl (bar0_base_va s2) WORKER_NF10"
    "nf10_netdevs s7 = nf10_netdevs s2" "netdevs s7 = netdevs s2" "tx_locked s7 = tx_locked s2"
    "napi_scheduled s7 = napi_scheduled s2" "unheld s7 = unheld s2"
    by (simp_all add: s7_def s6_def s5_def configured_def s4_def s3_def mb_def)
  ultimately have run: "running k s s7"
    unfolding running_def Let_def using r7(1,2,5) a by (simp add: or.assoc)
  show ?thesis
    using s3(1) c1 c2 go run release_all_frame [OF al f4] release_all_frame [OF al f6]
      probe_configure_ok [OF m4 r4]
    by (cases "e1 = 0"; cases "e2 = 0") (auto simp: s4_def [symmetric] s5_def [symmetric] s6_def [symmetric])
qed


lemma probe_outcome:
  assumes idle: "\<not> timer_pending s"
  shows "\<exists>err s'. probe k hw s = Some (err, s') \<and>
    (err = 0 \<and> running k s s' \<or>
     given_up s s' \<and> (err = 0 \<longrightarrow> tx_dma_reg_va s' = 0 \<or> rx_dma_reg_va s' = 0))"
  using probe_claim_ok [of k s]
proof (elim disjE exE conjE)
  fix e s' assume "probe_claim k s = Inl (e, s')" "e \<noteq> 0" "given_up s s'"
  then show ?thesis by (simp add: probe_def)
next
  assume c: "probe_claim k s = Inr (claimed k s)" "pci_ioremap k \<noteq> 0"
    "sizeof_OccpSpace \<le> unat (pci_resource_len k)"
  let ?s1 = "(claimed k s)\<lparr>dma_cpu_bufs := DMA_CPU_BUFS\<rparr>"
  obtain s2 where s2: "probe_alloc k 0 ?s1 = Some s2" "alloc_result k ?s1 s2"
    using probe_alloc_ok [of ?s1 k 0] by (auto simp: DMA_CPU_BUFS_def)
  show ?thesis
  proof (cases "tx_dma_reg_va s2 = 0 \<or> rx_dma_reg_va s2 = 0")
    case True
    have f: "held s2 = [Bar0Map (bar0_base_va s2), Bar0Region, PciDevice] @ held s"
      "timer_pending s2 = timer_pending s" "hw_state s2 = hw_state s OR HW_FOUND" "unheld s2 = unheld s"
      using s2(2) True by (auto simp: alloc_result_def claimed_def)
    show ?thesis
      using c s2(1) True f unmap_bar0_claimed [OF f(1)] by (auto simp: probe_def given_up_def)
  next
    case False
    then have al: "allocated k s s2" using s2(2) c(3) by (simp add: allocated_def)
    from allocated_probe [OF al idle, of hw] show ?thesis
      using c(1) s2(1) False by (auto simp: probe_def split: if_splits)
  qed
qed

text \<open>
  The converse direction: a kernel that grants everything and workers that report success
  bring the card up.
\<close>

definition pci_grants :: "pci_kernel \<Rightarrow> bool" where
  "pci_grants k \<longleftrightarrow> pci_enable_err k = 0 \<and> pci_request_err k = 0 \<and> pci_ioremap k \<noteq> 0 \<and>
     sizeof_OccpSpace \<le> unat (ucast (pci_resource_len k) :: u32) \<and>
     dma_mask_err k = 0 \<and> dma_coherent_mask_err k = 0 \<and>
     fst (dma_alloc k 0 (dma_region_bytes DMA_CPU_BUFS)) \<noteq> 0 \<and>
     fst (dma_alloc k 1 (dma_region_bytes DMA_CPU_BUFS)) \<noteq> 0"

lemma command_workers_success:
  assumes "\<And>trace a. hw trace a = OCCP_SUCCESS_RESULT"
  shows "command_workers hw r ws err s = Some (err', s') \<Longrightarrow> err' = err"
  using assms by (induction ws arbitrary: s) (auto simp: mmio_rd32_def bind_eq_Some_conv split: if_splits)

lemma probe_claim_granted:
  assumes "pci_grants k"
  shows "probe_claim k s = Inr (claimed k s)"
  using assms by (simp add: pci_grants_def probe_claim_def Let_def acquire_def claimed_def)

lemma probe_runs:
  assumes grants: "pci_grants k" and hw: "\<And>trace a. hw trace a = OCCP_SUCCESS_RESULT"
    and idle: "\<not> timer_pending s"
  shows "\<exists>s'. probe k hw s = Some (0, s') \<and> running k s s'"
proof -
  let ?s1 = "(claimed k s)\<lparr>dma_cpu_bufs := DMA_CPU_BUFS\<rparr>"
  obtain tva tpa rva rpa where al: "dma_alloc k 0 (dma_region_bytes DMA_CPU_BUFS) = (tva, tpa)"
    "dma_alloc k 1 (dma_region_bytes DMA_CPU_BUFS) = (rva, rpa)" by (metis surj_pair)
  then have nz: "tva \<noteq> 0" "rva \<noteq> 0" using grants by (simp_all add: pci_grants_def)
  have "MIN_DMA_CPU_BUFS \<le> DMA_CPU_BUFS" by (simp add: MIN_DMA_CPU_BUFS_def DMA_CPU_BUFS_def)
  then obtain s2 where s2: "probe_alloc k 0 ?s1 = Some s2" "tx_dma_reg_va s2 = tva" "rx_dma_reg_va s2 = rva"
    using al nz by (simp add: probe_alloc.simps [of k 0 ?s1] Let_def dma_alloced_def acquire_def)
  moreover have "alloc_result k ?s1 s2"
    using probe_alloc_ok [of ?s1 k 0] s2(1) by (auto simp: DMA_CPU_BUFS_def)
  moreover have "sizeof_OccpSpace \<le> unat (pci_resource_len k)"
    using grants unat_ucast_le [of "pci_resource_len k"] by (simp add: pci_grants_def)
  ultimately have "allocated k s s2" using nz by (simp add: allocated_def)
  from allocated_probe [OF this idle, of hw] obtain err s' where
    "probe k hw s = Some (err, s')" "if err = 0 then running k s s' else given_up s s'"
    and rest: "(do {
      s \<leftarrow> probe_reset s2;
      (err, s) \<leftarrow> command_workers hw R_initialize probe_workers 0 s;
      if err \<noteq> 0 then do { s \<leftarrow> release_all s; Some (err, s) }
      else do {
        s \<leftarrow> probe_configure (mb s);
        (err, s) \<leftarrow> command_workers hw R_start probe_workers 0 s;
        if err \<noteq> 0 then do { s \<leftarrow> release_all s; Some (err, s) }
        else probe_go s
      }
    }) = Some (err, s')"
    using probe_claim_granted [OF grants] s2 nz by (auto simp: probe_def)
  moreover have "err = 0"
    using rest command_workers_success [OF hw]
    by (auto simp: bind_eq_Some_conv probe_go_def split: if_splits prod.splits)
  ultimately show ?thesis by simp
qed

section \<open>A timer that is already pending\<close>

text \<open>Nothing before the last phase looks at the timer.\<close>

abbreviation with_timer :: "bool \<Rightarrow> nf10 \<Rightarrow> nf10" where
  "with_timer b s \<equiv> s\<lparr>timer_pending := b\<rparr>"

lemma timer_same: "timer_pending s \<Longrightarrow> with_timer True s = s" "\<not> timer_pending s \<Longrightarrow> with_timer False s = s"
  by (cases s, simp)+

lemma timer_last:
  fixes s :: nf10
  shows "bus_update f (with_timer b s) = with_timer b (bus_update f s)"
    "kmem_update f1 (with_timer b s) = with_timer b (kmem_update f1 s)"
    "held_update f2 (with_timer b s) = with_timer b (held_update f2 s)"
    "live_update f3 (with_timer b s) = with_timer b (live_update f3 s)"
    "dma_cpu_bufs_update f4 (with_timer b s) = with_timer b (dma_cpu_bufs_update f4 s)"
    "dma_region_size_update f4 (with_timer b s) = with_timer b (dma_region_size_update f4 s)"
    "tx_dma_reg_va_update f5 (with_timer b s) = with_timer b (tx_dma_reg_va_update f5 s)"
    "rx_dma_reg_va_update f5 (with_timer b s) = with_timer b (rx_dma_reg_va_update f5 s)"
    "tx_dma_reg_pa_update f6 (with_timer b s) = with_timer b (tx_dma_reg_pa_update f6 s)"
    "rx_dma_reg_pa_update f6 (with_timer b s) = with_timer b (rx_dma_reg_pa_update f6 s)"
    "tx_dma_stream_update f7 (with_timer b s) = with_timer b (tx_dma_stream_update f7 s)"
    "rx_dma_stream_update f7 (with_timer b s) = with_timer b (rx_dma_stream_update f7 s)"
    "nf10_regs_update f5 (with_timer b s) = with_timer b (nf10_regs_update f5 s)"
    "nf10_ctrl_update f5 (with_timer b s) = with_timer b (nf10_ctrl_update f5 s)"
  by simp_all

lemma free_dma_timer: "dma_free_coherent n va (with_timer b s) = map_option (with_timer b) (dma_free_coherent n va s)"
  by (simp add: dma_free_coherent_def release_def)

lemma unmap_timer: "unmap_bar0 (with_timer b s) = with_timer b (unmap_bar0 s)"
  by (simp add: unmap_bar0_def iounmap_def pci_release_region_def pci_disable_device_def give_back_def)

lemma release_all_timer: "release_all (with_timer b s) = map_option (with_timer b) (release_all s)"
  by (cases "dma_free_coherent (dma_region_size s) (rx_dma_reg_va s) s")
     (simp_all add: release_all_def free_dma_regions_def free_dma_timer unmap_timer option.map_comp comp_def)

lemma claim_timer: "probe_claim k (with_timer b s) = map_sum (apsnd (with_timer b)) (with_timer b) (probe_claim k s)"
  by (simp add: probe_claim_def Let_def acquire_def unmap_bar0_def iounmap_def pci_release_region_def pci_disable_device_def give_back_def)

lemma alloced_timer: "dma_alloced va n (with_timer b s) = with_timer b (dma_alloced va n s)"
  by (simp add: dma_alloced_def acquire_def)

lemma alloc_timer: "probe_alloc k n (with_timer b s) = map_option (with_timer b) (probe_alloc k n s)"
proof (induction "unat (dma_cpu_bufs s)" arbitrary: n s rule: less_induct)
  case less
  show ?case
  proof (cases "0 < unat (dma_cpu_bufs s)")
    case True
    define region where "region = dma_region_bytes (dma_cpu_bufs s)"
    obtain tva tpa where t: "dma_alloc k n region = (tva, tpa)" by fastforce
    obtain rva rpa where r: "dma_alloc k (Suc n) region = (rva, rpa)" by fastforce
    note turn = probe_alloc_turn [OF _ _ t r]
    have "unat (dma_cpu_bufs s div 2) < unat (dma_cpu_bufs s)" using True by (simp add: unat_div)
    then show ?thesis
      using True less by (subst (1 2) turn) (simp_all add: region_def [symmetric] timer_last alloced_timer)
  next
    case False
    then show ?thesis
      by (simp add: probe_alloc.simps [of k n] MIN_DMA_CPU_BUFS_def word_le_nat_alt)
  qed
qed

lemma wr_seq_timer: "mmio_wr_seq ws (with_timer b s) = map_option (with_timer b) (mmio_wr_seq ws s)"
  by (induction ws arbitrary: s) (simp_all add: mmio_wr32_def timer_last)

lemma command_timer:
  "command_workers hw r ws err (with_timer b s) = map_option (apsnd (with_timer b)) (command_workers hw r ws err s)"
  by (induction ws arbitrary: s err) (simp_all add: mmio_rd32_def timer_last)

lemma mb_timer: "mb (with_timer b s) = with_timer b (mb s)"
  by (simp add: mb_def)

lemma store_timer: "store_bytes a xs (with_timer b s) = map_option (with_timer b) (store_bytes a xs s)"
  by (simp add: store_bytes_def)

lemma bind_timer: "Option.bind (map_option (with_timer b) m) f = Option.bind m (\<lambda>s. f (with_timer b s))"
  by (cases m) simp_all

lemma map_bind_timer: "map_option g (Option.bind m f) = Option.bind m (\<lambda>s. map_option g (f s))"
  by (cases m) simp_all

lemma reset_timer: "probe_reset (with_timer b s) = map_option (with_timer b) (probe_reset s)"
  by (simp add: probe_reset_def Let_def timer_last wr_seq_timer bind_timer map_bind_timer mb_timer)

lemma configure_timer: "probe_configure (with_timer b s) = map_option (with_timer b) (probe_configure s)"
  by (simp add: probe_configure_def Let_def timer_last wr_seq_timer store_timer bind_timer map_bind_timer mb_timer
      del: mmio_wr_seq.simps ocdp_prop_offset.simps)

text \<open>The outcome with a pending timer, from the outcome without: adding the timer a second time is a fault.\<close>

definition late :: "i32 \<times> nf10 \<Rightarrow> (i32 \<times> nf10) option" where
  "late r = (if timer_pending (snd r) then None else Some (fst r, with_timer True (snd r)))"

lemma late_step:
  "(\<And>x. f (with_timer True x) = Option.bind (f (with_timer False x)) late) \<Longrightarrow>
   Option.bind (map_option (with_timer True) m) f = Option.bind (Option.bind (map_option (with_timer False) m) f) late"
  by (cases m) simp_all

lemma late_command:
  "(\<And>e x. f (e, with_timer True x) = Option.bind (f (e, with_timer False x)) late) \<Longrightarrow>
   Option.bind (map_option (apsnd (with_timer True)) m) f
     = Option.bind (Option.bind (map_option (apsnd (with_timer False)) m) f) late"
  by (cases m) auto

lemma late_ends:
  "probe_go (with_timer True s) = Option.bind (probe_go (with_timer False s)) late"
  "Option.bind (release_all (with_timer True s)) (\<lambda>s. Some (err, s))
     = Option.bind (Option.bind (release_all (with_timer False s)) (\<lambda>s. Some (err, s))) late"
  by (simp_all add: probe_go_def add_timer_def release_all_timer late_def) (cases "release_all s"; simp)

lemma probe_pending: "probe k hw (with_timer True s) = Option.bind (probe k hw (with_timer False s)) late"
proof (cases "probe_claim k s")
  case (Inl failed)
  then show ?thesis by (cases failed) (simp add: probe_def claim_timer late_def)
next
  case (Inr s1)
  have two: "(if c then a else b) = Option.bind (if c' then a' else b') late"
    if "c = c'" "a = Option.bind a' late" "b = Option.bind b' late" for c c' a b a' b'
    using that by simp
  show ?thesis
    unfolding probe_def Inr claim_timer map_sum.simps sum.case timer_last alloc_timer
    apply (rule late_step, rule two, simp, simp add: unmap_timer late_def)
    apply (simp only: reset_timer, rule late_step)
    apply (simp only: command_timer, rule late_command)
    apply (simp only: prod.case, rule two, rule refl, rule late_ends)
    apply (simp only: mb_timer configure_timer, rule late_step)
    apply (simp only: command_timer, rule late_command)
    apply (simp only: prod.case, rule two, rule refl, rule late_ends, rule late_ends)
    done
qed

text \<open>A card that is up, when \<open>s\<close> was the state before.\<close>

definition card_up :: "nf10 \<Rightarrow> nf10 \<Rightarrow> bool" where
  "card_up s s' \<longleftrightarrow> timer_pending s' \<and> hw_state s' = hw_state s OR HW_FOUND OR HW_INIT \<and> unheld s' = unheld s \<and>
     held s' = [DmaCoherent (rx_dma_reg_va s') (2068 * unat (dma_cpu_bufs s')),
                DmaCoherent (tx_dma_reg_va s') (2068 * unat (dma_cpu_bufs s')),
                Bar0Map (bar0_base_va s'), Bar0Region, PciDevice] @ held s"

text \<open>
  Claim C20.  Probing a card has one of three outcomes, whatever the kernel and the card answer.  The card is up, with
  exactly the five resources it needs held, the timer running and both hardware flags set; this
  happens only if the timer was not pending before.  Or everything that was acquired on the way has been released again, each
  resource once, and the timer is as it was.  Or the timer was pending, everything else has succeeded, and the call faults when it adds
  the timer a second time.
\<close>

theorem probe_all_or_nothing:
  "(\<exists>s'. probe k hw s = Some (0, s') \<and> card_up s s' \<and> \<not> timer_pending s) \<or>
   (\<exists>err s'. probe k hw s = Some (err, s') \<and> held s' = held s \<and> unheld s' = unheld s \<and>
      timer_pending s' = timer_pending s \<and> hw_state s' = hw_state s OR HW_FOUND) \<or>
   (timer_pending s \<and> probe k hw s = None \<and>
      (\<exists>s'. probe k hw (s\<lparr>timer_pending := False\<rparr>) = Some (0, s') \<and> card_up s s'))"
proof -
  let ?s = "s\<lparr>timer_pending := False\<rparr>"
  have up: "card_up s s'" if "running k ?s s'" for s'
    using that by (simp add: running_def card_up_def Let_def)
  obtain err s' where p: "probe k hw ?s = Some (err, s')" "err = 0 \<and> running k ?s s' \<or> given_up ?s s'"
    using probe_outcome [of ?s k hw] by auto
  show ?thesis
  proof (cases "timer_pending s")
    case True
    then have "probe k hw s = probe k hw (with_timer True s)" by (simp only: timer_same)
    then have "probe k hw s = (if timer_pending s' then None else Some (err, with_timer True s'))"
      unfolding probe_pending p(1) by (simp add: late_def)
    then show ?thesis using p up True by (auto simp: given_up_def running_def)
  next
    case False
    then have "?s = s" by (rule timer_same)
    then have "probe k hw s = Some (err, s')" "err = 0 \<and> running k ?s s' \<or> given_up s s'" using p by (simp_all only:)
    then show ?thesis using up False unfolding given_up_def by metis
  qed
qed

text \<open>
  When the kernel grants every request and all workers report success, probing
  returns 0 and the card is up: both DMA regions are allocated, the hardware flags are set,
  the receive timer runs and the network devices are as they were.
\<close>

lemma probe_brings_card_up:
  assumes "pci_grants k" and "\<forall>trace a. hw trace a = OCCP_SUCCESS_RESULT" and "\<not> timer_pending s"
  shows "\<exists>s'. probe k hw s = Some (0, s') \<and> timer_pending s' \<and> held s' \<noteq> held s \<and>
    hw_state s' = hw_state s OR HW_FOUND OR HW_INIT \<and> tx_dma_reg_va s' \<noteq> 0 \<and> rx_dma_reg_va s' \<noteq> 0 \<and>
    nf10_netdevs s' = nf10_netdevs s \<and> netdevs s' = netdevs s"
  using probe_runs [of k hw s] assms by (auto simp: running_def Let_def regions_ready_def)

text \<open>The flags area of one region is untouched by writes to the flags of the other.\<close>

lemma running_probe:
  assumes "probe k hw s = Some (err, s')" and "\<not> timer_pending s" and "held s' \<noteq> held s"
  shows "err = 0 \<and> running k s s'"
  using probe_outcome [OF assms(2), of k hw] assms(1,3) by (auto simp: given_up_def)

lemma tx_flags_after_configure:
  assumes "i < N" and "apart tva (2068 * N) rva (2068 * N)"
  shows "rd32 (wr_bytes (wr_bytes m (slot_flag tva N 0) (replicate (4 * N) 1))
           (slot_flag rva N 0) (replicate (4 * N) 0)) (slot_flag tva N i) = 0x01010101"
proof -
  have "apart (slot_flag rva N 0) (length (replicate (4 * N) (0 :: u8))) (slot_flag tva N i) 4"
    using assms by (auto simp: apart_def slot_flag_def)
  then have "rd32 (wr_bytes (wr_bytes m (slot_flag tva N 0) (replicate (4 * N) 1))
      (slot_flag rva N 0) (replicate (4 * N) 0)) (slot_flag tva N i)
      = rd32 (memset_bytes m (slot_flag tva N 0) 1 (4 * N)) (slot_flag tva N i)"
    by (simp add: rd32_wr_bytes_apart memset_bytes_def)
  also have "\<dots> = of_le32 (replicate 4 1)"
    using assms(1) by (intro rd32_memset) (auto simp: slot_flag_def)
  also have "replicate 4 (1 :: u8) = [1, 1, 1, 1]" by (simp add: numeral_eq_Suc)
  also have "of_le32 [1, 1, 1, 1] = 0x01010101" by (simp add: of_le32_def)
  finally show ?thesis .
qed

text \<open>
  Claim C21.  After a successful probe, with regions that do not overlap, both rings are
  empty and well formed, the doorbells and the register window are mapped, and the
  transmit path accepts packets.  The transmit flags hold 0x01010101, not 1: the memset
  fills bytes, and only the test for 0 makes that harmless.
\<close>

theorem probe_sets_up_rings:
  assumes call: "probe k hw s = Some (err, s')" and idle: "\<not> timer_pending s" and up: "held s' \<noteq> held s"
    and alloc: "\<forall>m n. fst (dma_alloc k m n) \<noteq> 0 \<and> fst (dma_alloc k (Suc m) n) \<noteq> 0 \<longrightarrow>
      apart (fst (dma_alloc k m n)) (unat n) (fst (dma_alloc k (Suc m) n)) (unat n)"
  shows "tx_ring_inv s' 0 0 \<and> rx_ring_inv s' 0 \<and> regs_mapped s' \<and>
    covered (mmio_live s') (doorbell (tx_dma_stream s')) 4 \<and>
    covered (mmio_live s') (doorbell (rx_dma_stream s')) 4 \<and>
    hw_state s' AND HW_FOUND \<noteq> 0 \<and> hw_state s' AND HW_INIT \<noteq> 0 \<and>
    (\<forall>i<unat (dma_cpu_bufs s').
       rd32 (kmem s') (slot_flag (buffers (tx_dma_stream s')) (unat (dma_cpu_bufs s')) i) = 0x01010101)"
proof -
  have run: "running k s s'" using running_probe [OF call idle up] by simp
  define N where "N = unat (dma_cpu_bufs s')"
  have reg: "regions_ready s'" and bar: "bar0_mapped s'" and size: "unat (dma_region_size s') = 2068 * N"
    and mem: "kmem s' = wr_bytes (wr_bytes (kmem s) (flags (tx_stream_of s')) (replicate (4 * N) 1))
                 (flags (rx_stream_of s')) (replicate (4 * N) 0)"
    and st: "tx_dma_stream s' = tx_stream_of s'" "rx_dma_stream s' = rx_stream_of s'"
    and hws: "hw_state s' = hw_state s OR HW_FOUND OR HW_INIT"
    and nf: "nf10_regs s' = worker_config (bar0_base_va s') WORKER_NF10"
      "nf10_ctrl s' = worker_ctrl (bar0_base_va s') WORKER_NF10"
    using run by (simp_all add: running_def Let_def N_def)
  note wf = streams_of_wf [OF reg, folded N_def]
  have apart: "apart (tx_dma_reg_va s') (2068 * N) (rx_dma_reg_va s') (2068 * N)"
  proof -
    obtain m where m: "fst (dma_alloc k m (dma_region_size s')) = tx_dma_reg_va s'"
      "fst (dma_alloc k (Suc m) (dma_region_size s')) = rx_dma_reg_va s'"
      using run unfolding running_def by blast
    have "tx_dma_reg_va s' \<noteq> 0" "rx_dma_reg_va s' \<noteq> 0" using reg by (simp_all add: regions_ready_def)
    then show ?thesis using alloc [rule_format, of m "dma_region_size s'"] by (simp add: m size)
  qed
  have b: "buffers (tx_stream_of s') = tx_dma_reg_va s'" "buffers (rx_stream_of s') = rx_dma_reg_va s'"
    "buf_index (tx_stream_of s') = 0" "buf_index (rx_stream_of s') = 0"
    by (simp_all add: tx_stream_of_def rx_stream_of_def carve_stream_def)
  have N0: "0 < N" using stream_wfD(1) [OF wf(1)] by (simp add: N_def)
  have txf: "rd32 (kmem s') (slot_flag (tx_dma_reg_va s') N i) = 0x01010101" if "i < N" for i
    using tx_flags_after_configure [OF that apart, of "kmem s"] by (simp add: mem wf(3,4))
  have rxf: "rd32 (kmem s') (slot_flag (rx_dma_reg_va s') N i) = 0" if "i < N" for i
    using memset_flags_zero [OF that] by (simp add: mem wf(3,4))
  have "tx_ring_inv s' 0 0"
    using wf(1) reg txf N0
    by (simp add: tx_ring_inv_def st b region_live_def regions_ready_def Let_def ring_window_def
        tx_full_def tx_packets_queued_def ring_contents_def N_def [symmetric])
  moreover have "rx_ring_inv s' 0"
    using wf(2) reg rxf
    by (intro fresh_rx_ring) (simp_all add: st b region_live_def regions_ready_def N_def)
  moreover have "regs_mapped s'" using bar nf by (auto simp: regs_mapped_def bar0_mapped_def)
  moreover have "covered (mmio_live s') (worker_config (bar0_base_va s') w + ocdp_prop_offset P_nRemoteDone) 4"
    if "w \<in> set probe_workers" for w
    using bar0_reg_covered(2) [OF bar that] by (simp add: OCCP_WORKER_CONFIG_SIZE_def)
  moreover have "hw_state s' AND HW_FOUND = HW_FOUND" "hw_state s' AND HW_INIT = HW_INIT"
    by (rule bit_word_eqI, auto simp: hws bit_simps)+
  moreover have "HW_FOUND \<noteq> 0" "HW_INIT \<noteq> 0" by (simp_all add: HW_FOUND_def HW_INIT_def)
  ultimately show ?thesis
    using txf by (simp add: st b N_def tx_stream_of_def rx_stream_of_def carve_stream_def probe_workers_def
        del: ocdp_prop_offset.simps)
qed


lemma probe_alloc_none:
  assumes "\<forall>m n. fst (dma_alloc k m n) = 0"
  shows "0 < unat (dma_cpu_bufs s) \<Longrightarrow> probe_alloc k n s = Some s' \<Longrightarrow> tx_dma_reg_va s' = 0 \<and> rx_dma_reg_va s' = rx_dma_reg_va s"
proof (induction "unat (dma_cpu_bufs s)" arbitrary: n s rule: less_induct)
  case less
  define region where "region = dma_region_bytes (dma_cpu_bufs s)"
  obtain tpa where t: "dma_alloc k n region = (0, tpa)" using assms by (metis prod.collapse)
  obtain rpa where r: "dma_alloc k (Suc n) region = (0, rpa)" using assms by (metis prod.collapse)
  let ?h = "dma_cpu_bufs s div 2"
  let ?s1 = "s\<lparr>dma_region_size := region, tx_dma_reg_va := 0, tx_dma_reg_pa := tpa, dma_cpu_bufs := ?h\<rparr>"
  have p: "probe_alloc k (Suc n) ?s1 = Some s'"
    using less.prems(2) probe_alloc_turn [OF less.prems(1) region_def t r] by simp
  show ?case
  proof (cases "0 < unat ?h")
    case True
    then show ?thesis using less.hyps [of ?s1 "Suc n"] p less.prems(1) by (simp add: unat_div)
  next
    case False
    then have "s' = ?s1" using p by (simp add: probe_alloc.simps [of k "Suc n" ?s1] MIN_DMA_CPU_BUFS_def word_le_nat_alt)
    then show ?thesis by simp
  qed
qed

text \<open>
  Claim C26.  When the device can be claimed but no DMA region can be allocated, probing
  reports success although it has given everything back and the card is not initialised.  So the kernel will call
  \<^verbatim>\<open>remove\<close>, which asks it to unmap BAR0, to release the region and to disable the device although none of them is held any more.
\<close>

theorem probe_hides_allocation_failure:
  assumes "probe_claim k s = Inr s1" and "\<forall>m n. fst (dma_alloc k m n) = 0"
    and "held s = []" and "rx_dma_reg_va s = 0"
  shows "\<exists>s' s2. probe k hw s = Some (0, s') \<and> held s' = [] \<and> unheld s' = unheld s \<and>
    hw_state s' AND HW_INIT = hw_state s AND HW_INIT \<and>
    remove_dev s' = Some s2 \<and> unheld s2 = unheld s @ [Bar0Map (bar0_base_va s'), Bar0Region, PciDevice]"
proof -
  have c: "s1 = claimed k s" using probe_claim_ok [of k s] assms(1) by auto
  let ?s1 = "(claimed k s)\<lparr>dma_cpu_bufs := DMA_CPU_BUFS\<rparr>"
  obtain s2 where s2: "probe_alloc k 0 ?s1 = Some s2" "alloc_result k ?s1 s2"
    using probe_alloc_ok [of ?s1 k 0] by (auto simp: DMA_CPU_BUFS_def)
  have none: "tx_dma_reg_va s2 = 0" "rx_dma_reg_va s2 = 0"
    using probe_alloc_none [OF assms(2) _ s2(1)] assms(4) by (simp_all add: claimed_def DMA_CPU_BUFS_def)
  have f: "held s2 = [Bar0Map (bar0_base_va s2), Bar0Region, PciDevice] @ []"
    "hw_state s2 = hw_state s OR HW_FOUND" "unheld s2 = unheld s"
    using s2(2) none assms(3) by (auto simp: alloc_result_def claimed_def)
  define s' where "s' = s2\<lparr>held := [], mmio_live := filter (\<lambda>r. fst r \<noteq> bar0_base_va s2) (mmio_live s2)\<rparr>"
  have "probe k hw s = Some (0, s')"
    using assms(1) c s2(1) none unmap_bar0_claimed [OF f(1)] by (simp add: probe_def s'_def)
  moreover have "(hw_state s OR HW_FOUND) AND HW_INIT = hw_state s AND HW_INIT"
    by (simp add: bit.conj_disj_distrib2 HW_FOUND_def HW_INIT_def)
  moreover have "\<exists>s3. remove_dev s' = Some s3 \<and> unheld s3 = unheld s @ [Bar0Map (bar0_base_va s'), Bar0Region, PciDevice]"
    using none f(3)
    by (simp add: remove_dev_def release_all_def free_dma_regions_def dma_free_coherent_def give_back_def
        unmap_bar0_def iounmap_def pci_release_region_def pci_disable_device_def s'_def)
  ultimately show ?thesis using f(2,3) by (auto simp: s'_def)
qed

text \<open>
  Claim C27.  Removing a probed card gives all five resources back, but leaves the hardware
  flags, the stream pointers and the timer as they were: the next transmission of an
  acceptable packet and the next timer tick access memory that has been freed.
\<close>

theorem remove_leaves_dangling_state:
  assumes call: "probe k hw s = Some (err, s')" and idle: "\<not> timer_pending s" and up: "held s' \<noteq> held s"
    and mem: "live s = []" and cfg: "\<not> DRIVER_GHOST cfg" "\<not> DRIVER_LOOPB cfg"
    and pkt: "sends s' skb netdev" "\<not> tx_locked s"
  shows "\<exists>s2. remove_dev s' = Some s2 \<and> held s2 = held s \<and> timer_pending s2 \<and>
    nf10_ndo_start_xmit cfg csum skb netdev s2 = None \<and>
    rx_poll_timer_cb (s2\<lparr>timer_pending := False\<rparr>) = None"
proof -
  have run: "running k s s'" using running_probe [OF call idle up] by simp
  have h: "held s' = [DmaCoherent (rx_dma_reg_va s') (unat (dma_region_size s')),
      DmaCoherent (tx_dma_reg_va s') (unat (dma_region_size s')), Bar0Map (bar0_base_va s'), Bar0Region, PciDevice] @ held s"
    and l: "live s' = [(rx_dma_reg_va s', unat (dma_region_size s')), (tx_dma_reg_va s', unat (dma_region_size s'))]"
    and nz: "tx_dma_reg_va s' \<noteq> 0" "rx_dma_reg_va s' \<noteq> 0" and t: "timer_pending s'" and lk: "\<not> tx_locked s'"
    using run mem pkt(2) by (simp_all add: running_def Let_def regions_ready_def)
  define s2 where "s2 = s'\<lparr>held := held s, live := [],
    mmio_live := filter (\<lambda>r. fst r \<noteq> bar0_base_va s') (mmio_live s')\<rparr>"
  have rem: "remove_dev s' = Some s2"
    using release_all_ok [OF h nz] l by (simp add: remove_dev_def s2_def)
  have snd: "sends s2 skb netdev" using pkt(1) by (simp add: sends_def s2_def get_iface_from_netdev_def)
  have none: "load32 a s3 = None" if "live s3 = []" for a s3
    using that by (simp add: load32_def covered_def)
  note len = sends_len [OF snd]
  have "nf10_ndo_start_xmit cfg csum skb netdev s2 = None"
    using snd len cfg lk none
    by (cases "netdevs s2 netdev")
       (simp_all add: nf10_ndo_start_xmit_def Let_def sends_def spin_lock_def start_clock_def upd_netdev_def
         tx_flag_def s2_def)
  moreover have "rx_poll_timer_cb (s2\<lparr>timer_pending := False\<rparr>) = None"
    using none by (simp add: rx_poll_timer_cb_def rx_flag_def s2_def)
  ultimately show ?thesis using rem t by (simp add: s2_def)
qed

text \<open>
  Claim C28.  While a card is up, and also after it has been removed, the timer stays pending: probing a second card, or the same card
  again, faults when everything else succeeds.
\<close>

theorem second_probe_faults:
  assumes "probe k hw s = Some (err, s')" and "\<not> timer_pending s" and "held s' \<noteq> held s"
    and "pci_grants k2" and "\<forall>trace a. hw2 trace a = OCCP_SUCCESS_RESULT"
  shows "probe k2 hw2 s' = None \<and> (\<exists>s2. remove_dev s' = Some s2 \<and> held s2 = held s \<and> probe k2 hw2 s2 = None)"
proof -
  have run: "running k s s'" using running_probe [OF assms(1-3)] by simp
  have again: "probe k2 hw2 t = None" if t: "timer_pending t" for t
  proof -
    obtain t' where "probe k2 hw2 (with_timer False t) = Some (0, t')" "timer_pending t'"
      using probe_runs [of k2 hw2 "with_timer False t"] assms(4,5) by (auto simp: running_def)
    then have "probe k2 hw2 (with_timer True t) = None" by (simp add: probe_pending late_def)
    then show ?thesis using t by (simp only: timer_same)
  qed
  have h: "held s' = [DmaCoherent (rx_dma_reg_va s') (unat (dma_region_size s')),
      DmaCoherent (tx_dma_reg_va s') (unat (dma_region_size s')), Bar0Map (bar0_base_va s'), Bar0Region, PciDevice] @ held s"
    and nz: "tx_dma_reg_va s' \<noteq> 0" "rx_dma_reg_va s' \<noteq> 0" and t: "timer_pending s'"
    using run by (simp_all add: running_def Let_def regions_ready_def)
  then show ?thesis using release_all_ok [OF h nz] again by (simp add: remove_dev_def)
qed

end
