(* ===== verification/NF10_Init.thy ===== *)
theory NF10_Init
  imports NF10_Probe
begin

text \<open>
  Loading and unloading the module: \<^verbatim>\<open>nf10_eth_driver_init\<close>, \<^verbatim>\<open>nf10_eth_driver_exit\<close>,
  \<^verbatim>\<open>nf10_netdev_init\<close> and the \<^verbatim>\<open>/proc\<close> file.  What the kernel answers to the registrations
  is the argument of type \<open>init_kernel\<close>; registering the PCI driver probes the card, if
  there is one.
\<close>

section \<open>Kernel services\<close>

record init_kernel =
  alloc_netdev :: "nat \<Rightarrow> addr"
  ether_setup :: "net_device \<Rightarrow> net_device"
  register_netdev_err :: "nat \<Rightarrow> i32"
  genl_register_family_err :: i32
  genl_register_ops_err :: "nat \<Rightarrow> i32"
  pci_register_err :: i32
  card_present :: bool
  HZ :: nat
  kmalloc_fn :: "u32 \<Rightarrow> addr"

text \<open>A freshly allocated, zeroed device; \<^verbatim>\<open>MAX_ADDR_LEN\<close> is 32.\<close>

definition blank_netdev :: net_device where
  "blank_netdev = \<lparr>dev_addr = replicate 32 0, addr_len = 0, hard_header_len = 0,
     stats = \<lparr>tx_packets = 0, tx_bytes = 0, tx_dropped = 0, rx_packets = 0, rx_bytes = 0, rx_dropped = 0\<rparr>,
     queue_started = False, trans_start = 0, netdev_ops_set = False, header_ops_set = False,
     iff_noarp = False, watchdog_timeo = 0\<rparr>"

definition nf10_netdev_init :: "config \<Rightarrow> init_kernel \<Rightarrow> net_device \<Rightarrow> net_device" where
  "nf10_netdev_init cfg k netdev =
     (let netdev = (ether_setup k netdev)\<lparr>netdev_ops_set := True\<rparr>;
          netdev = (if DRIVER_GHOST cfg \<or> DRIVER_LOOPB cfg
                    then netdev\<lparr>header_ops_set := True, iff_noarp := True\<rparr> else netdev)
      in netdev\<lparr>watchdog_timeo := 5 * HZ k\<rparr>)"

definition free_netdev :: "addr \<Rightarrow> nf10 \<Rightarrow> nf10 option" where
  "free_netdev p s = do {
     s \<leftarrow> release (NetDev p) s;
     Some (s\<lparr>netdevs := (netdevs s)(p := None)\<rparr>)
   }"

definition unregister_netdev :: "addr \<Rightarrow> nf10 \<Rightarrow> nf10 option" where
  "unregister_netdev p s = Some (give_back (NetDevRegistered p) s)"

text \<open>
  The driver is called to remove the card if it was bound to it, that is, if \<^verbatim>\<open>probe\<close> has returned 0.  The lists of a driver
  that was never registered are null pointers.
\<close>

definition pci_unregister_driver :: "nf10 \<Rightarrow> nf10 option" where
  "pci_unregister_driver s = do {
     s \<leftarrow> release PciDriver s;
     if PciBound \<in> set (held s) then remove_dev (give_back PciBound s) else Some s
   }"

definition genl_unregister_family :: "nf10 \<Rightarrow> nf10" where
  "genl_unregister_family s =
     (let s = give_back GenlFamily s in s\<lparr>held := filter (\<lambda>r. case r of GenlOps i \<Rightarrow> False | _ \<Rightarrow> True) (held s)\<rparr>)"

definition netif_napi_del :: "nf10 \<Rightarrow> nf10 option" where
  "netif_napi_del = release NapiAdded"

primrec each :: "('a \<Rightarrow> nf10 \<Rightarrow> nf10 option) \<Rightarrow> 'a list \<Rightarrow> nf10 \<Rightarrow> nf10 option" where
  "each f [] s = Some s"
| "each f (x # xs) s = Option.bind (f x s) (each f xs)"

text \<open>\<^verbatim>\<open>nf10_netdevs[i]\<close>; there are four elements.\<close>

definition netdev_slot :: "nat \<Rightarrow> nf10 \<Rightarrow> addr option" where
  "netdev_slot i s = (if i < length (nf10_netdevs s) then Some (nf10_netdevs s ! i) else None)"

section \<open>Phases of the initialisation\<close>

text \<open>Allocation of the devices; a failure frees those before it, in reverse order.\<close>

fun init_alloc :: "config \<Rightarrow> init_kernel \<Rightarrow> nat list \<Rightarrow> nf10 \<Rightarrow> ((i32 \<times> nf10) + nf10) option" where
  "init_alloc cfg k [] s = Some (Inr s)"
| "init_alloc cfg k (i # is) s =
     (let p = alloc_netdev k i; s = s\<lparr>nf10_netdevs := (nf10_netdevs s)[i := p]\<rparr> in
      if p = 0 then do {
        s \<leftarrow> each free_netdev (rev (take i (nf10_netdevs s))) s;
        s \<leftarrow> pci_unregister_driver s;
        Some (Inl (- ENOMEM, s))
      } else init_alloc cfg k is
          ((acquire (NetDev p) s)\<lparr>netdevs := (netdevs s)(p \<mapsto> nf10_netdev_init cfg k blank_netdev)\<rparr>))"

definition set_mac :: "nat \<Rightarrow> nat \<Rightarrow> nf10 \<Rightarrow> nf10 option" where
  "set_mac mac_addr_len i s = do {
     p \<leftarrow> netdev_slot i s;
     d \<leftarrow> netdevs s p;
     mac \<leftarrow> nf10_mac_addr mac_addr_len i;
     mac \<leftarrow> blit 0 mac (dev_addr d);
     Some (s\<lparr>netdevs := (netdevs s)(p \<mapsto> d\<lparr>dev_addr := mac\<rparr>)\<rparr>)
   }"

definition init_macs :: "nf10 \<Rightarrow> nf10 option" where
  "init_macs s = do {
     p \<leftarrow> netdev_slot 0 s;
     d \<leftarrow> netdevs s p;
     each (set_mac (addr_len d)) [0..<NUM_NETDEVS] s
   }"

text \<open>
  Registration of the devices.  In the error path the loop over the devices to free has an
  empty body: with \<open>i\<close> at \<open>NUM_NETDEVS\<close>, the statement behind it frees the element
  after the last one.
\<close>

fun init_register :: "init_kernel \<Rightarrow> nat list \<Rightarrow> nf10 \<Rightarrow> ((i32 \<times> nf10) + nf10) option" where
  "init_register k [] s = Some (Inr s)"
| "init_register k (i # is) s =
     (if register_netdev_err k i \<noteq> 0 then do {
        s \<leftarrow> each unregister_netdev (rev (take i (nf10_netdevs s))) s;
        s \<leftarrow> netif_napi_del s;
        p \<leftarrow> netdev_slot NUM_NETDEVS s;
        s \<leftarrow> free_netdev p s;
        s \<leftarrow> pci_unregister_driver s;
        Some (Inl (register_netdev_err k i, s))
      } else do {
        p \<leftarrow> netdev_slot i s;
        init_register k is (acquire (NetDevRegistered p) s)
      })"

definition undo_netdevs :: "nf10 \<Rightarrow> nf10 option" where
  "undo_netdevs s = do {
     s \<leftarrow> each unregister_netdev (nf10_netdevs s) s;
     s \<leftarrow> netif_napi_del s;
     each free_netdev (nf10_netdevs s) s
   }"

fun init_genl_ops :: "init_kernel \<Rightarrow> nat list \<Rightarrow> nf10 \<Rightarrow> ((i32 \<times> nf10) + nf10) option" where
  "init_genl_ops k [] s = Some (Inr s)"
| "init_genl_ops k (i # is) s =
     (if genl_register_ops_err k i \<noteq> 0 then do {
        s \<leftarrow> undo_netdevs (genl_unregister_family s);
        s \<leftarrow> pci_unregister_driver s;
        Some (Inl (genl_register_ops_err k i, s))
      } else init_genl_ops k is (acquire (GenlOps i) s))"

definition init_genl :: "init_kernel \<Rightarrow> nf10 \<Rightarrow> ((i32 \<times> nf10) + nf10) option" where
  "init_genl k s =
     (if genl_register_family_err k \<noteq> 0 then do {
        s \<leftarrow> undo_netdevs s;
        s \<leftarrow> pci_unregister_driver s;
        Some (Inl (genl_register_family_err k, s))
      } else init_genl_ops k [0..<length genl_all_ops] (acquire GenlFamily s))"

text \<open>The last phase: the proc file, NAPI, and the PCI driver or the ghosting mode.\<close>

definition init_start :: "config \<Rightarrow> init_kernel \<Rightarrow> pci_kernel \<Rightarrow> hardware \<Rightarrow> nf10 \<Rightarrow> (i32 \<times> nf10) option" where
  "init_start cfg k pk hw s =
     (let s = (acquire NapiEnabled (acquire ProcEntry s))\<lparr>napi_scheduled := False\<rparr> in
      if \<not> DRIVER_GHOST cfg then
        (if pci_register_err k \<noteq> 0 then Some (pci_register_err k, s)
         else let s = acquire PciDriver s in
           if card_present k then do { (err, s) \<leftarrow> probe pk hw s; Some (0, if err = 0 then acquire PciBound s else s) }
           else Some (0, s))
      else do {
        (err, s) \<leftarrow> enable_ghosting (kmalloc_fn k) s;
        Some (if err \<noteq> 0 then (err, s) else (0, s))
      })"

definition nf10_eth_driver_init ::
  "config \<Rightarrow> init_kernel \<Rightarrow> pci_kernel \<Rightarrow> hardware \<Rightarrow> nf10 \<Rightarrow> (i32 \<times> nf10) option" where
  "nf10_eth_driver_init cfg k pk hw s = do {
     r \<leftarrow> init_alloc cfg k [0..<NUM_NETDEVS] s;
     (case r of Inl failed \<Rightarrow> Some failed | Inr s \<Rightarrow> do {
       s \<leftarrow> init_macs s;
       r \<leftarrow> init_register k [0..<NUM_NETDEVS] (acquire NapiAdded s);
       (case r of Inl failed \<Rightarrow> Some failed | Inr s \<Rightarrow> do {
         r \<leftarrow> init_genl k s;
         (case r of Inl failed \<Rightarrow> Some failed | Inr s \<Rightarrow> init_start cfg k pk hw s)
       })
     })
   }"

definition nf10_eth_driver_exit :: "config \<Rightarrow> nf10 \<Rightarrow> nf10 option" where
  "nf10_eth_driver_exit cfg s = do {
     s \<leftarrow> release NapiEnabled s;
     let s = give_back ProcEntry (del_timer s);
     s \<leftarrow> undo_netdevs (genl_unregister_family s);
     if \<not> DRIVER_GHOST cfg then pci_unregister_driver s
     else do { (err, s) \<leftarrow> disable_ghosting s; Some s }
   }"

section \<open>The proc file\<close>

definition ascii :: "string \<Rightarrow> bytes" where
  "ascii str = map (\<lambda>c. word_of_nat (of_char c)) str"

definition decimal_signed :: "u32 \<Rightarrow> bytes" where
  "decimal_signed w = (if is_neg w then 0x2D # decimal (nat (- sint w)) else decimal (unat w))"

text \<open>One \<^verbatim>\<open>"\t%d: %d\n"\<close> line for each flag of a stream.\<close>

primrec flag_lines :: "dma_stream \<Rightarrow> nat \<Rightarrow> nf10 \<Rightarrow> bytes option" where
  "flag_lines st 0 s = Some []"
| "flag_lines st (Suc i) s = do {
     pre \<leftarrow> flag_lines st i s;
     f \<leftarrow> load32 (flag_addr st (word_of_nat i)) s;
     Some (pre @ [0x09] @ decimal i @ [0x3A, 0x20] @ decimal_signed f @ [0x0A])
   }"

text \<open>The kernel hands in one page; text that does not fit with its terminating NUL is a fault.\<close>

definition PAGE_SIZE :: nat where "PAGE_SIZE = 4096"

definition read_proc :: "nf10 \<Rightarrow> bytes option" where
  "read_proc s = do {
     tx \<leftarrow> flag_lines (tx_dma_stream s) (unat (dma_cpu_bufs s)) s;
     rx \<leftarrow> flag_lines (rx_dma_stream s) (unat (dma_cpu_bufs s)) s;
     let out = ascii ''NetFPGA-10G Ethernet Driver'' @ [0x0A] @ ascii ''-----------------------------'' @ [0x0A]
       @ ascii ''TX Flags:'' @ [0x0A] @ tx @ ascii ''RX Flags:'' @ [0x0A] @ rx;
     if length out < PAGE_SIZE then Some out else None
   }"


section \<open>Failure paths\<close>

lemma give_back_fields:
  "nf10_netdevs (give_back r s) = nf10_netdevs s" "set (held (give_back r s)) \<subseteq> set (held s)"
  using set_remove1_subset [of r "held s"] by (simp_all add: give_back_def)

lemma release_fields:
  "release r s = Some s' \<Longrightarrow> nf10_netdevs s' = nf10_netdevs s \<and> set (held s') \<subseteq> set (held s)"
  using set_remove1_subset [of r "held s"] by (simp add: release_def split: if_splits) auto

text \<open>Clean-up steps give resources back and leave the table of devices alone.\<close>

definition gives_back :: "('a \<Rightarrow> nf10 \<Rightarrow> nf10 option) \<Rightarrow> bool" where
  "gives_back f \<longleftrightarrow> (\<forall>x s s'. f x s = Some s' \<longrightarrow>
     nf10_netdevs s' = nf10_netdevs s \<and> set (held s') \<subseteq> set (held s))"

lemma gives_backD:
  "gives_back f \<Longrightarrow> f x s = Some s' \<Longrightarrow> nf10_netdevs s' = nf10_netdevs s \<and> set (held s') \<subseteq> set (held s)"
  by (simp add: gives_back_def)

lemma each_fields:
  assumes "gives_back f"
  shows "each f xs s = Some s' \<Longrightarrow> nf10_netdevs s' = nf10_netdevs s \<and> set (held s') \<subseteq> set (held s)"
proof (induction xs arbitrary: s)
  case (Cons x xs)
  then obtain s1 where "f x s = Some s1" "each f xs s1 = Some s'" by (auto simp: bind_eq_Some_conv)
  then show ?case using gives_backD [OF assms, of x s s1] Cons.IH [of s1] by auto
qed simp

lemma free_netdev_fields: "gives_back free_netdev"
  using release_fields by (fastforce simp: gives_back_def free_netdev_def bind_eq_Some_conv)

lemma unregister_netdev_fields: "gives_back unregister_netdev"
  by (simp add: gives_back_def unregister_netdev_def give_back_fields)

lemma set_mac_fields: "gives_back (set_mac n)"
  by (auto simp: gives_back_def set_mac_def bind_eq_Some_conv)

lemma undo_netdevs_fields:
  assumes "undo_netdevs s = Some s'"
  shows "set (held s') \<subseteq> set (held s)"
proof -
  obtain s1 s2 where "each unregister_netdev (nf10_netdevs s) s = Some s1" "netif_napi_del s1 = Some s2"
    "each free_netdev (nf10_netdevs s2) s2 = Some s'"
    using assms by (auto simp: undo_netdevs_def bind_eq_Some_conv)
  then show ?thesis
    using each_fields [OF unregister_netdev_fields]
      each_fields [OF free_netdev_fields] release_fields [of NapiAdded s1 s2]
    unfolding netif_napi_del_def by blast
qed

lemma pci_unregister_unheld: "PciDriver \<notin> set (held s) \<Longrightarrow> pci_unregister_driver s = None"
  by (simp add: pci_unregister_driver_def release_def)

lemma bind_None_all: "(\<And>x. m = Some x \<Longrightarrow> f x = None) \<Longrightarrow> Option.bind m f = None"
  by (cases m) auto

lemma init_alloc_faults:
  assumes "\<exists>i\<in>set is. alloc_netdev k i = 0" and "PciDriver \<notin> set (held s)"
  shows "init_alloc cfg k is s = None"
  using assms
proof (induction "is" arbitrary: s)
  case (Cons i "is")
  show ?case
  proof (cases "alloc_netdev k i = 0")
    case True
    have "pci_unregister_driver s' = None" if "each free_netdev ps s1 = Some s'" "held s1 = held s" for s1 s' ps
      using each_fields [OF free_netdev_fields that(1)] that(2) Cons.prems(2)
      by (intro pci_unregister_unheld) auto
    note gone = this
    show ?thesis
      unfolding init_alloc.simps Let_def using True
      by (simp only: simp_thms if_True) (rule bind_None_all, simp add: gone)
  next
    case False
    then have "\<exists>i\<in>set is. alloc_netdev k i = 0" using Cons.prems(1) by auto
    from Cons.IH [OF this] show ?thesis using False Cons.prems(2) by (simp add: Let_def acquire_def)
  qed
qed simp

lemma init_alloc_keeps:
  "init_alloc cfg k is s = Some (Inr s') \<Longrightarrow>
     length (nf10_netdevs s') = length (nf10_netdevs s) \<and> (PciDriver \<in> set (held s') \<longrightarrow> PciDriver \<in> set (held s))"
proof (induction "is" arbitrary: s)
  case (Cons i "is")
  then show ?case
    by (cases "alloc_netdev k i = 0") (fastforce simp: acquire_def bind_eq_Some_conv Let_def)+
qed simp

lemma init_register_faults:
  assumes "\<exists>i\<in>set is. register_netdev_err k i \<noteq> 0" and "length (nf10_netdevs s) = NUM_NETDEVS"
  shows "init_register k is s = None"
  using assms
proof (induction "is" arbitrary: s)
  case (Cons i "is")
  show ?case
  proof (cases "register_netdev_err k i \<noteq> 0")
    case True
    have "netdev_slot NUM_NETDEVS s2 = None"
      if "each unregister_netdev ps s = Some s1" "netif_napi_del s1 = Some s2" for ps s1 s2
      using each_fields [OF unregister_netdev_fields that(1)] release_fields [of NapiAdded s1 s2] that(2) Cons.prems(2)
      by (simp add: netif_napi_del_def netdev_slot_def)
    then show ?thesis using True by (simp add: bind_None_all)
  next
    case False
    then have "\<exists>i\<in>set is. register_netdev_err k i \<noteq> 0" using Cons.prems(1) by auto
    from Cons.IH [OF this] show ?thesis using False Cons.prems(2) by (simp add: acquire_def bind_None_all)
  qed
qed simp

lemma init_register_keeps:
  "init_register k is s = Some (Inr s') \<Longrightarrow> PciDriver \<in> set (held s') \<Longrightarrow> PciDriver \<in> set (held s)"
proof (induction "is" arbitrary: s)
  case (Cons i "is")
  then show ?case
    by (cases "register_netdev_err k i = 0") (fastforce simp: acquire_def bind_eq_Some_conv)+
qed simp

lemma undo_then_unregister_faults:
  "PciDriver \<notin> set (held s) \<Longrightarrow> Option.bind (undo_netdevs s) (\<lambda>s. Option.bind (pci_unregister_driver s) f) = None"
  using undo_netdevs_fields [of s] pci_unregister_unheld by (intro bind_None_all) fastforce

lemma init_genl_ops_faults:
  assumes "\<exists>i\<in>set is. genl_register_ops_err k i \<noteq> 0" and "PciDriver \<notin> set (held s)"
  shows "init_genl_ops k is s = None"
  using assms
proof (induction "is" arbitrary: s)
  case (Cons i "is")
  show ?case
  proof (cases "genl_register_ops_err k i \<noteq> 0")
    case True
    have "PciDriver \<notin> set (held (genl_unregister_family s))"
      using Cons.prems(2) give_back_fields(2) [of GenlFamily s] by (auto simp: genl_unregister_family_def Let_def)
    then show ?thesis using True by (simp add: undo_then_unregister_faults)
  next
    case False
    then have "\<exists>i\<in>set is. genl_register_ops_err k i \<noteq> 0" using Cons.prems(1) by auto
    from Cons.IH [OF this] show ?thesis using False Cons.prems(2) by (simp add: acquire_def)
  qed
qed simp

lemma init_alloc_Inr:
  "\<forall>i\<in>set is. alloc_netdev k i \<noteq> 0 \<Longrightarrow> \<exists>s'. init_alloc cfg k is s = Some (Inr s')"
  by (induction "is" arbitrary: s) (simp_all add: Let_def)

lemma init_register_no_Inl:
  "\<forall>i\<in>set is. register_netdev_err k i = 0 \<Longrightarrow> init_register k is s \<noteq> Some (Inl r)"
  by (induction "is" arbitrary: s) (auto simp: bind_eq_Some_conv)

lemma init_macs_fields:
  "init_macs s = Some s' \<Longrightarrow> nf10_netdevs s' = nf10_netdevs s \<and> set (held s') \<subseteq> set (held s)"
  by (simp add: init_macs_def bind_eq_Some_conv) (blast dest: each_fields [OF set_mac_fields])

lemma init_genl_faults:
  assumes "genl_register_family_err k \<noteq> 0 \<or> (\<exists>i<length genl_all_ops. genl_register_ops_err k i \<noteq> 0)"
    and "PciDriver \<notin> set (held s)"
  shows "init_genl k s = None"
proof (cases "genl_register_family_err k = 0")
  case True
  then have "\<exists>i\<in>set [0..<length genl_all_ops]. genl_register_ops_err k i \<noteq> 0" using assms(1) by auto
  then show ?thesis
    using init_genl_ops_faults [of _ k "acquire GenlFamily s"] assms(2) True
    by (simp add: init_genl_def acquire_def)
next
  case False
  then show ?thesis using undo_then_unregister_faults [OF assms(2)] by (simp add: init_genl_def)
qed

text \<open>
  Claim C25.  No failure before the registration of the PCI driver is survived: when a device
  cannot be allocated or registered, or the netlink family or one of its operations cannot
  be registered, the clean-up unregisters a PCI driver that was never registered, or frees
  the element behind the array of devices.
\<close>

theorem init_failure_paths_fault:
  assumes "length (nf10_netdevs s) = NUM_NETDEVS" and "PciDriver \<notin> set (held s)"
    and "(\<exists>i<NUM_NETDEVS. alloc_netdev k i = 0 \<or> register_netdev_err k i \<noteq> 0) \<or>
         genl_register_family_err k \<noteq> 0 \<or> (\<exists>i<length genl_all_ops. genl_register_ops_err k i \<noteq> 0)"
  shows "nf10_eth_driver_init cfg k pk hw s = None"
proof (cases "\<exists>i<NUM_NETDEVS. alloc_netdev k i = 0")
  case True
  then have "\<exists>i\<in>set [0..<NUM_NETDEVS]. alloc_netdev k i = 0" by auto
  from init_alloc_faults [OF this assms(2)] show ?thesis by (simp add: nf10_eth_driver_init_def)
next
  case False
  then have "\<forall>i\<in>set [0..<NUM_NETDEVS]. alloc_netdev k i \<noteq> 0" by auto
  from init_alloc_Inr [OF this] obtain s1 where s1: "init_alloc cfg k [0..<NUM_NETDEVS] s = Some (Inr s1)"
    by blast
  have k1: "length (nf10_netdevs s1) = NUM_NETDEVS" "PciDriver \<notin> set (held s1)"
    using init_alloc_keeps [OF s1] assms(1,2) by auto
  have "(case r of Inl failed \<Rightarrow> Some failed | Inr s3 \<Rightarrow> Option.bind (init_genl k s3)
      (case_sum Some (init_start cfg k pk hw))) = None"
    if m: "init_macs s1 = Some s2" and r: "init_register k [0..<NUM_NETDEVS] (acquire NapiAdded s2) = Some r" for s2 r
  proof -
    have f: "length (nf10_netdevs (acquire NapiAdded s2)) = NUM_NETDEVS" "PciDriver \<notin> set (held (acquire NapiAdded s2))"
      using init_macs_fields [OF m] k1 by (auto simp: acquire_def)
    then have ok: "\<forall>i\<in>set [0..<NUM_NETDEVS]. register_netdev_err k i = 0"
      using init_register_faults r by fastforce
    then obtain s3 where s3: "r = Inr s3"
      using init_register_no_Inl [OF ok, of "acquire NapiAdded s2"] r by (cases r) auto
    have "PciDriver \<notin> set (held s3)" using init_register_keeps r s3 f(2) by blast
    moreover have "genl_register_family_err k \<noteq> 0 \<or> (\<exists>i<length genl_all_ops. genl_register_ops_err k i \<noteq> 0)"
      using assms(3) False ok by auto
    ultimately show ?thesis using init_genl_faults [of k s3] s3 by simp
  qed
  then show ?thesis
    by (auto simp: nf10_eth_driver_init_def s1 intro!: bind_None_all)
qed


section \<open>Loading and unloading\<close>

text \<open>A kernel in which every registration succeeds and devices get distinct addresses.\<close>

definition init_succeeds :: "init_kernel \<Rightarrow> bool" where
  "init_succeeds k \<longleftrightarrow>
     distinct (map (alloc_netdev k) [0..<NUM_NETDEVS]) \<and> (\<forall>i<NUM_NETDEVS. alloc_netdev k i \<noteq> 0) \<and>
     (\<forall>i<NUM_NETDEVS. register_netdev_err k i = 0) \<and> genl_register_family_err k = 0 \<and>
     (\<forall>i<length genl_all_ops. genl_register_ops_err k i = 0) \<and> pci_register_err k = 0 \<and>
     addr_len (ether_setup k blank_netdev) = 6 \<and> length (dev_addr (ether_setup k blank_netdev)) = 32"

text \<open>What the module holds after the devices and the family are registered.\<close>

definition registered_held :: "init_kernel \<Rightarrow> resource list" where
  "registered_held k = rev (map GenlOps [0..<length genl_all_ops]) @ [GenlFamily] @
     rev (map (\<lambda>i. NetDevRegistered (alloc_netdev k i)) [0..<NUM_NETDEVS]) @ [NapiAdded] @
     rev (map (\<lambda>i. NetDev (alloc_netdev k i)) [0..<NUM_NETDEVS])"

definition device_with_mac :: "config \<Rightarrow> init_kernel \<Rightarrow> nat \<Rightarrow> net_device" where
  "device_with_mac cfg k i = (let d = nf10_netdev_init cfg k blank_netdev in
     d\<lparr>dev_addr := [0, 0x4E, 0x46, word_of_nat (48 + i), 0, 0] @ drop 6 (dev_addr d)\<rparr>)"

lemma init_alloc_result:
  "\<forall>i\<in>set is. alloc_netdev k i \<noteq> 0 \<Longrightarrow> \<forall>i\<in>set is. i < length (nf10_netdevs s) \<Longrightarrow>
   init_alloc cfg k is s = Some (Inr (s\<lparr>
     nf10_netdevs := fold (\<lambda>i ps. ps[i := alloc_netdev k i]) is (nf10_netdevs s),
     held := rev (map (\<lambda>i. NetDev (alloc_netdev k i)) is) @ held s,
     netdevs := fold (\<lambda>i m. m(alloc_netdev k i \<mapsto> nf10_netdev_init cfg k blank_netdev)) is (netdevs s)\<rparr>))"
proof (induction "is" arbitrary: s)
  case (Cons i "is")
  then show ?case by (simp add: Let_def acquire_def fun_upd_def)
qed simp

lemma init_register_result:
  "\<forall>i\<in>set is. register_netdev_err k i = 0 \<Longrightarrow> \<forall>i\<in>set is. i < length (nf10_netdevs s) \<Longrightarrow>
   init_register k is s = Some (Inr (s\<lparr>
     held := rev (map (\<lambda>i. NetDevRegistered (nf10_netdevs s ! i)) is) @ held s\<rparr>))"
  by (induction "is" arbitrary: s) (simp_all add: netdev_slot_def acquire_def)

lemma init_genl_ops_result:
  "\<forall>i\<in>set is. genl_register_ops_err k i = 0 \<Longrightarrow>
   init_genl_ops k is s = Some (Inr (s\<lparr>held := rev (map GenlOps is) @ held s\<rparr>))"
  by (induction "is" arbitrary: s) (simp_all add: acquire_def)

lemma netdev_range: "[0..<NUM_NETDEVS] = [0, 1, 2, 3]"
  by (simp add: NUM_NETDEVS_def upt_rec)

lemma length_genl_all_ops: "length genl_all_ops = 7"
  by (simp add: genl_all_ops_def)

lemma ops_range: "[0..<length genl_all_ops] = [0, 1, 2, 3, 4, 5, 6]"
  by (simp add: length_genl_all_ops upt_rec)

lemma length_4_list: "length xs = 4 \<Longrightarrow> \<exists>a b c d. xs = [a, b, c, d]"
  by (auto simp: numeral_eq_Suc length_Suc_conv)


lemma init_succeedsD:
  assumes "init_succeeds k"
  shows "\<forall>i\<in>set [0..<NUM_NETDEVS]. alloc_netdev k i \<noteq> 0" "\<forall>i\<in>set [0..<NUM_NETDEVS]. register_netdev_err k i = 0"
    "\<forall>i\<in>set [0..<length genl_all_ops]. genl_register_ops_err k i = 0"
    "genl_register_family_err k = 0" "pci_register_err k = 0"
    "addr_len (ether_setup k blank_netdev) = 6" "length (dev_addr (ether_setup k blank_netdev)) = 32"
    "distinct [alloc_netdev k 0, alloc_netdev k 1, alloc_netdev k 2, alloc_netdev k 3]"
proof -
  show "distinct [alloc_netdev k 0, alloc_netdev k 1, alloc_netdev k 2, alloc_netdev k 3]"
    using assms unfolding init_succeeds_def netdev_range by simp
qed (use assms in \<open>simp_all add: init_succeeds_def\<close>)

lemma set_mac_device:
  assumes "nf10_mac_addr 6 i = Some mac" and "i < length (nf10_netdevs s)" and "netdevs s (nf10_netdevs s ! i) = Some d"
    and "length (dev_addr d) = 32" and "length mac = 6"
  shows "set_mac 6 i s = Some (s\<lparr>netdevs := (netdevs s)(nf10_netdevs s ! i \<mapsto>
    d\<lparr>dev_addr := mac @ drop 6 (dev_addr d)\<rparr>)\<rparr>)"
  using assms by (simp add: set_mac_def netdev_slot_def blit_def)

lemma mac_values:
  "i < 4 \<Longrightarrow> nf10_mac_addr 6 i = Some [0, 0x4E, 0x46, word_of_nat (48 + i), 0, 0]"
  by (drule less_4_cases) (elim disjE; simp add: nf10_mac_addr_def snprintf_NF_def blit_def)

text \<open>The state in which the last phase starts.\<close>

definition registered :: "config \<Rightarrow> init_kernel \<Rightarrow> nf10 \<Rightarrow> nf10" where
  "registered cfg k s = s\<lparr>nf10_netdevs := map (alloc_netdev k) [0..<NUM_NETDEVS],
     held := registered_held k @ held s,
     netdevs := (netdevs s)(alloc_netdev k 0 \<mapsto> device_with_mac cfg k 0, alloc_netdev k 1 \<mapsto> device_with_mac cfg k 1,
       alloc_netdev k 2 \<mapsto> device_with_mac cfg k 2, alloc_netdev k 3 \<mapsto> device_with_mac cfg k 3)\<rparr>"

lemma init_reaches_start:
  assumes ok: "init_succeeds k" and len: "length (nf10_netdevs s) = NUM_NETDEVS"
  shows "nf10_eth_driver_init cfg k pk hw s = init_start cfg k pk hw (registered cfg k s)"
proof -
  note k = init_succeedsD [OF ok]
  let ?d = "nf10_netdev_init cfg k blank_netdev"
  let ?p = "alloc_netdev k"
  define s1 where "s1 = s\<lparr>nf10_netdevs := [?p 0, ?p 1, ?p 2, ?p 3],
     held := [NetDev (?p 3), NetDev (?p 2), NetDev (?p 1), NetDev (?p 0)] @ held s,
     netdevs := (netdevs s)(?p 0 \<mapsto> ?d, ?p 1 \<mapsto> ?d, ?p 2 \<mapsto> ?d, ?p 3 \<mapsto> ?d)\<rparr>"
  obtain a b c e where ps: "nf10_netdevs s = [a, b, c, e]"
    using length_4_list [of "nf10_netdevs s"] len by (auto simp: NUM_NETDEVS_def)
  have al: "init_alloc cfg k [0..<NUM_NETDEVS] s = Some (Inr s1)"
    using init_alloc_result [OF k(1), of s cfg] len ps unfolding netdev_range
    by (simp add: s1_def fun_upd_def NUM_NETDEVS_def)
  have d: "addr_len ?d = 6" "length (dev_addr ?d) = 32"
    using k(6,7) by (simp_all add: nf10_netdev_init_def Let_def)
  define s2 where "s2 = s1\<lparr>netdevs := (netdevs s)(?p 0 \<mapsto> device_with_mac cfg k 0, ?p 1 \<mapsto> device_with_mac cfg k 1,
      ?p 2 \<mapsto> device_with_mac cfg k 2, ?p 3 \<mapsto> device_with_mac cfg k 3)\<rparr>"
  have mac: "init_macs s1 = Some s2"
    using d k(8) mac_values [of 0] mac_values [of 1] mac_values [of 2] mac_values [of 3] unfolding netdev_range
    by (simp add: init_macs_def netdev_range netdev_slot_def s1_def set_mac_device s2_def device_with_mac_def Let_def
        fun_upd_twist)
  have held2: "held s2 = [NetDev (?p 3), NetDev (?p 2), NetDev (?p 1), NetDev (?p 0)] @ held s"
    "nf10_netdevs s2 = [?p 0, ?p 1, ?p 2, ?p 3]"
    by (simp_all add: s2_def s1_def)
  define s3 where "s3 = s2\<lparr>held := rev (map (\<lambda>i. NetDevRegistered (?p i)) [0..<NUM_NETDEVS]) @
      [NapiAdded] @ rev (map (\<lambda>i. NetDev (?p i)) [0..<NUM_NETDEVS]) @ held s\<rparr>"
  have reg: "init_register k [0..<NUM_NETDEVS] (acquire NapiAdded s2) = Some (Inr s3)"
    using init_register_result [OF k(2), of "acquire NapiAdded s2"] held2
    by (simp add: acquire_def s3_def NUM_NETDEVS_def netdev_range [unfolded NUM_NETDEVS_def])
  have "init_genl k s3 = Some (Inr (registered cfg k s))"
    using init_genl_ops_result [OF k(3), of "acquire GenlFamily s3"] k(4)
    by (simp add: init_genl_def acquire_def s3_def s2_def s1_def registered_def registered_held_def netdev_range)
  then show ?thesis by (simp add: nf10_eth_driver_init_def al mac reg)
qed

text \<open>
  When every registration succeeds and no card is present, loading the module
  returns 0 with four devices whose MAC addresses are 00:4E:46:3x:00:00, x being the number
  of the device, and unloading it gives back everything it had acquired.
\<close>

lemma load_then_unload:
  assumes ok: "init_succeeds k" and len: "length (nf10_netdevs s) = NUM_NETDEVS" and "held s = []"
    and cfg: "\<not> DRIVER_GHOST cfg" and "\<not> card_present k"
  shows "\<exists>s1 s2. nf10_eth_driver_init cfg k pk hw s = Some (0, s1) \<and>
    nf10_netdevs s1 = map (alloc_netdev k) [0..<NUM_NETDEVS] \<and>
    (\<forall>i<NUM_NETDEVS. \<exists>d. netdevs s1 (nf10_netdevs s1 ! i) = Some d \<and>
       take 6 (dev_addr d) = [0, 0x4E, 0x46, word_of_nat (48 + i), 0, 0]) \<and>
    nf10_eth_driver_exit cfg s1 = Some s2 \<and> held s2 = []"
proof -
  note k = init_succeedsD [OF ok]
  let ?p = "alloc_netdev k"
  define s1 where "s1 = (registered cfg k s)\<lparr>held := [PciDriver, NapiEnabled, ProcEntry] @ registered_held k,
    napi_scheduled := False\<rparr>"
  have init: "nf10_eth_driver_init cfg k pk hw s = Some (0, s1)"
    using init_reaches_start [OF ok len, of cfg pk hw] assms(3,4,5) k(5)
    by (simp add: init_start_def acquire_def s1_def registered_def)
  have devs: "nf10_netdevs s1 = [?p 0, ?p 1, ?p 2, ?p 3]"
    by (simp add: s1_def registered_def netdev_range)
  have "\<exists>d. netdevs s1 (nf10_netdevs s1 ! i) = Some d \<and>
      take 6 (dev_addr d) = [0, 0x4E, 0x46, word_of_nat (48 + i), 0, 0]" if "i < NUM_NETDEVS" for i
    using less_4_cases [of i] that k(8) unfolding devs
    by (auto simp: NUM_NETDEVS_def s1_def registered_def device_with_mac_def Let_def)
  moreover have "\<exists>s2. nf10_eth_driver_exit cfg s1 = Some s2 \<and> held s2 = []"
    using k(8) cfg
    by (simp add: nf10_eth_driver_exit_def s1_def registered_def registered_held_def ops_range netdev_range
        release_def give_back_def del_timer_def genl_unregister_family_def undo_netdevs_def unregister_netdev_def
        netif_napi_del_def free_netdev_def pci_unregister_driver_def)
  ultimately show ?thesis using init devs by (auto simp: netdev_range)
qed


section \<open>The size of the proc file\<close>

declare decimal.simps [simp del]

lemma length_decimal_ge: "1 \<le> length (decimal n)"
  by (subst decimal.simps) simp

lemma length_decimal_le: "n < 10 ^ m \<Longrightarrow> 0 < m \<Longrightarrow> length (decimal n) \<le> m"
proof (induction m arbitrary: n)
  case (Suc m)
  show ?case
  proof (cases "n < 10")
    case True
    then show ?thesis by (subst decimal.simps) simp
  next
    case False
    then have "0 < m" using Suc.prems(1) by (cases m) auto
    moreover have "n div 10 < 10 ^ m" using Suc.prems(1) by (simp add: div_less_iff_less_mult mult.commute)
    ultimately have "length (decimal (n div 10)) \<le> m" using Suc.IH by blast
    then show ?thesis using False by (subst decimal.simps) simp
  qed
qed simp

lemma length_decimal_signed_le: "length (decimal_signed w) \<le> 11"
proof -
  have "- (2 ^ 31) \<le> sint w" "sint w < 2 ^ 31"
    using sint_ge [of w] sint_lt [of w] by simp_all
  then have "nat (- sint w) < 10 ^ 10" by simp
  moreover have "unat w < 10 ^ 10" using unat_u32_less [of w] by simp
  ultimately show ?thesis
    using length_decimal_le [of "nat (- sint w)" 10] length_decimal_le [of "unat w" 10]
    by (simp add: decimal_signed_def)
qed

lemma length_decimal_signed_ge: "1 \<le> length (decimal_signed w)"
  using length_decimal_ge by (simp add: decimal_signed_def)

lemma flag_lines_min: "flag_lines st n s = Some out \<Longrightarrow> 6 * n \<le> length out"
proof (induction n arbitrary: out)
  case (Suc n)
  then obtain pre f where "flag_lines st n s = Some pre" "length out = length pre + length (decimal n)
      + length (decimal_signed f) + 4"
    by (auto simp: bind_eq_Some_conv)
  then show ?case using Suc.IH [of pre] length_decimal_ge [of n] length_decimal_signed_ge [of f] by simp
qed simp

lemma flag_lines_max:
  assumes "\<And>i. i < n \<Longrightarrow> covered (live s) (flag_addr st (word_of_nat i)) 4" and "n \<le> 100"
  shows "\<exists>out. flag_lines st n s = Some out \<and> length out \<le> 17 * n"
  using assms
proof (induction n)
  case (Suc n)
  then obtain pre where pre: "flag_lines st n s = Some pre" "length pre \<le> 17 * n" by auto
  have "length (decimal n) \<le> 2" using Suc.prems(2) by (intro length_decimal_le) simp_all
  then show ?case
    using pre Suc.prems(1) [of n]
      length_decimal_signed_le [of "rd32 (kmem s) (flag_addr st (word_of_nat n))"]
    by (simp add: load32_def)
qed simp

lemma stream_flags_covered:
  assumes "stream_wf (dma_cpu_bufs s) st" "region_live s st" "i < unat (dma_cpu_bufs s)"
  shows "covered (live s) (flag_addr st (word_of_nat i)) 4"
proof -
  have i: "unat (word_of_nat i :: u32) = i"
    using assms(3) unat_u32_less [of "dma_cpu_bufs s"] by (simp add: unat_of_nat)
  then show ?thesis
    using stream_addrs(3) [OF assms(1), of "word_of_nat i"] assms slot_covered(3)
    by (simp add: region_live_def)
qed

text \<open>
  The proc file prints one line per slot of both rings into a single page: with
  up to 64 slots it fits, from 512 slots on it writes past the end of the page, and the
  driver asks for 32768 slots.
\<close>

theorem read_proc_page:
  assumes "stream_wf (dma_cpu_bufs s) (tx_dma_stream s)" "region_live s (tx_dma_stream s)"
    and "stream_wf (dma_cpu_bufs s) (rx_dma_stream s)" "region_live s (rx_dma_stream s)"
  shows "(unat (dma_cpu_bufs s) \<le> 64 \<longrightarrow> read_proc s \<noteq> None) \<and>
         (512 \<le> unat (dma_cpu_bufs s) \<longrightarrow> read_proc s = None)"
proof (intro conjI impI)
  let ?n = "unat (dma_cpu_bufs s)"
  assume n: "?n \<le> 64"
  obtain tx where "flag_lines (tx_dma_stream s) ?n s = Some tx" "length tx \<le> 17 * ?n"
    using flag_lines_max [of ?n s "tx_dma_stream s"] stream_flags_covered [OF assms(1,2)] n by auto
  moreover obtain rx where "flag_lines (rx_dma_stream s) ?n s = Some rx" "length rx \<le> 17 * ?n"
    using flag_lines_max [of ?n s "rx_dma_stream s"] stream_flags_covered [OF assms(3,4)] n by auto
  ultimately show "read_proc s \<noteq> None"
    using n by (simp add: read_proc_def ascii_def PAGE_SIZE_def)
next
  let ?n = "unat (dma_cpu_bufs s)"
  assume n: "512 \<le> ?n"
  have "\<not> length tx + length rx < 4018" if "flag_lines (tx_dma_stream s) ?n s = Some tx"
    "flag_lines (rx_dma_stream s) ?n s = Some rx" for tx rx
    using flag_lines_min [OF that(1)] flag_lines_min [OF that(2)] n by simp
  then show "read_proc s = None"
    unfolding read_proc_def by (intro bind_None_all) (simp add: ascii_def PAGE_SIZE_def)
qed

end
