(* ===== verification/NF10_Examples.thy ===== *)
theory NF10_Examples
  imports NF10_Init
begin

text \<open>
  Concrete runs of the driver model: a small card with two slots per ring, four network
  devices and the registers of BAR0 mapped, and the same driver in ghosting mode.  Each
  theorem of this theory evaluates one of the general properties on them, so that the
  hypotheses of the property are seen to hold of a state the module can be in.
\<close>

section \<open>A probed card with two slots per ring\<close>

definition sample_stats :: net_device_stats where
  "sample_stats = \<lparr>tx_packets = 0, tx_bytes = 0, tx_dropped = 0,
     rx_packets = 0, rx_bytes = 0, rx_dropped = 0\<rparr>"

definition sample_netdev :: net_device where
  "sample_netdev = \<lparr>dev_addr = [0, 0x4E, 0x46, 0x30, 0, 0], addr_len = 6, hard_header_len = 14,
     stats = sample_stats, queue_started = True, trans_start = 0, netdev_ops_set = True,
     header_ops_set = False, iff_noarp = False, watchdog_timeo = 5\<rparr>"

text \<open>The TX flags stand at 0x2020 and 0x2024 and are 1, the RX flags are 0.\<close>

definition sample_mem :: mem where
  "sample_mem a = (if a = 0x2020 \<or> a = 0x2024 then 1 else 0)"

definition sample_card :: nf10 where
  "sample_card = \<lparr>kmem = sample_mem, live = [(0x10000, 4136), (0x1000, 4136)],
     mmio_live = [(0x1000000, 0x1000000)], bus = [],
     tx_dma_stream = carve_stream 0x1000 2 0x1E00018,
     rx_dma_stream = carve_stream 0x10000 2 0x1F00018,
     dma_cpu_bufs = 2, dma_region_size = 4136, tx_dma_reg_va = 0x1000, tx_dma_reg_pa = 0x1000,
     rx_dma_reg_va = 0x10000, rx_dma_reg_pa = 0x10000, hw_state = 3, bar0_base_va = 0x1000000,
     bar0_size = 0x1000000, nf10_regs = 0x1100000, nf10_ctrl = 0x1010000,
     nf10_netdevs = [11, 12, 13, 14],
     netdevs = [11 \<mapsto> sample_netdev, 12 \<mapsto> sample_netdev, 13 \<mapsto> sample_netdev, 14 \<mapsto> sample_netdev],
     tx_locked = False, jiffies = 0, timer_pending = True, timer_expires = 1, napi_scheduled = False,
     received = [], freed = [], held = [], unheld = [], replies = [], leaked_replies = 0\<rparr>"

definition plain :: config where "plain = \<lparr>DRIVER_GHOST = False, DRIVER_LOOPB = False\<rparr>"
definition ghost :: config where "ghost = \<lparr>DRIVER_GHOST = True, DRIVER_LOOPB = False\<rparr>"

definition zero_csum :: "bytes \<Rightarrow> nat \<Rightarrow> u16" where "zero_csum bs n = 0"

definition sample_skb :: sk_buff where
  "sample_skb = \<lparr>sk_id = 7, sk_buf = replicate 60 0xAB, sk_len = 60, sk_dev = 11,
     sk_protocol = 0, sk_csum_unnecessary = False\<rparr>"

lemma sample_card_fields [simp]:
  "kmem sample_card = sample_mem" "live sample_card = [(0x10000, 4136), (0x1000, 4136)]"
  "mmio_live sample_card = [(0x1000000, 0x1000000)]" "bus sample_card = []"
  "tx_dma_stream sample_card = carve_stream 0x1000 2 0x1E00018"
  "rx_dma_stream sample_card = carve_stream 0x10000 2 0x1F00018"
  "dma_cpu_bufs sample_card = 2" "hw_state sample_card = 3" "nf10_regs sample_card = 0x1100000"
  "nf10_ctrl sample_card = 0x1010000" "nf10_netdevs sample_card = [11, 12, 13, 14]"
  "netdevs sample_card = [11 \<mapsto> sample_netdev, 12 \<mapsto> sample_netdev, 13 \<mapsto> sample_netdev, 14 \<mapsto> sample_netdev]"
  "\<not> tx_locked sample_card" "timer_pending sample_card" "\<not> napi_scheduled sample_card"
  "received sample_card = []" "replies sample_card = []" "held sample_card = []" "freed sample_card = []"
  by (simp_all add: sample_card_def)

lemma sample_stream:
  "carve_stream va 2 db = \<lparr>buffers = va, metadata = va + 4096, flags = va + 4128, doorbell = db, buf_index = 0\<rparr>"
  by (simp add: carve_stream_def DMA_BUF_SIZE_def OCDP_METADATA_SIZE_def)

lemma sample_flags:
  "rd32 sample_mem 0x2020 = 1" "rd32 sample_mem 0x2024 = 1"
  "rd32 sample_mem 0x11020 = 0" "rd32 sample_mem 0x11024 = 0"
  by (simp_all add: rd32_def rd_bytes_def of_le32_def sample_mem_def upt_rec)

lemma less_2: "i < (2 :: nat) \<longleftrightarrow> i = 0 \<or> i = 1"
  by auto

lemma all_less_2: "(\<forall>i<(2 :: nat). P i) \<longleftrightarrow> P 0 \<and> P 1"
  by (auto simp: less_2)

lemma sample_tx_ring: "tx_ring_inv sample_card 0 0"
  by (simp add: tx_ring_inv_def stream_wf_def region_live_def ring_window_def tx_full_def
      tx_packets_queued_def ring_contents_def sample_stream all_less_2 ring_slot_def slot_flag_def sample_flags)

lemma sample_rx_ring: "rx_ring_inv sample_card 0"
  by (rule fresh_rx_ring)
     (auto simp: stream_wf_def region_live_def sample_stream less_2 slot_flag_def sample_flags)

lemma sample_rx_ready: "rx_ready cfg sample_card"
  by (simp add: rx_ready_def NUM_NETDEVS_def covered_def sample_stream)

lemma sample_doorbells:
  "covered (mmio_live sample_card) (doorbell (tx_dma_stream sample_card)) 4"
  "covered (mmio_live sample_card) (doorbell (rx_dma_stream sample_card)) 4"
  by (simp_all add: covered_def sample_stream)

lemma sample_regs: "regs_mapped sample_card"
  by (simp add: regs_mapped_def sizeof_OccpSpace_eq worker_ctrl_def worker_config_def occp_sizes WORKER_NF10_def)

lemma sample_card_slot: "rx_card_slot sample_card 0 = 0"
  by (simp add: rx_card_slot_def sample_stream)

text \<open>One packet for interface 0 in the RX ring.\<close>

definition sample_packet :: packet where
  "sample_packet = ([0xDE, 0xAD], OPCODE_CPU0)"

definition sample_loaded :: nf10 where
  "sample_loaded = sample_card\<lparr>kmem := slot_fill 0x10000 2 1 sample_mem 0 sample_packet\<rparr>"

lemma sample_loaded_ring:
  "rx_ring_inv sample_loaded 1" "rx_packets_queued sample_loaded 1 = [sample_packet]"
  "rx_card_slot sample_loaded 1 = 1"
proof -
  have "fits_slot sample_packet" by (simp add: fits_slot_def sample_packet_def)
  note step = rx_slot_filled [OF sample_rx_ring _ this, of sample_loaded]
  show "rx_ring_inv sample_loaded 1" "rx_packets_queued sample_loaded 1 = [sample_packet]"
    "rx_card_slot sample_loaded 1 = 1"
    using step
    by (simp_all add: sample_loaded_def sample_card_slot sample_stream rx_packets_queued_def ring_contents_def)
qed


definition sample_kr :: kernel_rx where
  "sample_kr = \<lparr>dev_alloc_skb = \<lambda>n len. Some n,
     eth_type_trans = \<lambda>skb dev. (0x0800, skb\<lparr>sk_buf := drop 14 (sk_buf skb), sk_len := sk_len skb - 14\<rparr>)\<rparr>"

definition netlink_up :: genl_kernel where
  "netlink_up = \<lparr>genlmsg_new_ok = True, genlmsg_put_reply_ok = True, nla_put_err = \<lambda>attrs t n. 0,
     genlmsg_reply_err = \<lambda>attrs. 0\<rparr>"

lemma genl_up_netlink_up: "genl_up netlink_up"
  by (simp add: genl_up_def netlink_up_def)

lemma sample_packet_iface: "rx_get_dst_iface (snd sample_packet) = 0"
  by (simp add: sample_packet_def rx_get_dst_iface_def opcode_cpu_defs)

lemma sample_delivery:
  "delivery cfg sample_kr [11, 12, 13, 14] n sample_packet = [rx_skb cfg sample_kr n [0xDE, 0xAD] 11]"
  using sample_packet_iface by (simp add: delivery_def sample_packet_def) (simp add: sample_kr_def)

lemma sample_fits: "fits_slot sample_packet"
  by (simp add: fits_slot_def sample_packet_def)

section \<open>Transmission\<close>

lemma sample_offered: "offered sample_card sample_skb 11 = Some (replicate 60 0xAB, OPCODE_CPU0)"
  by (simp add: offered_def sends_def packet_of_def get_iface_from_netdev_def NUM_NETDEVS_def sample_skb_def
      sk_data_def NF10_PKT_SIZE_MIN_def NF10_PKT_SIZE_MAX_def HW_FOUND_def HW_INIT_def tx_set_src_iface_def
      rx_set_dst_iface_def)


section \<open>Reception\<close>

text \<open>The state in which NAPI has been scheduled.\<close>

definition sample_scheduled :: nf10 where
  "sample_scheduled = sample_loaded\<lparr>timer_pending := False, napi_scheduled := True\<rparr>"

lemma sample_scheduled_ring:
  "rx_ring_inv sample_scheduled 1" "rx_packets_queued sample_scheduled 1 = [sample_packet]"
  "rx_ready cfg sample_scheduled" "\<not> timer_pending sample_scheduled" "napi_scheduled sample_scheduled"
  "nf10_netdevs sample_scheduled = [11, 12, 13, 14]" "received sample_scheduled = []"
  "rx_ready cfg sample_loaded"
  using sample_loaded_ring sample_rx_ready [of cfg]
  by (simp_all add: sample_scheduled_def sample_loaded_def rx_ready_def)

lemma poll_one_sample:
  "poll_spec (delivery plain sample_kr [11, 12, 13, 14]) 0 64 [sample_packet]
     = ([rx_skb plain sample_kr 0 [0xDE, 0xAD] 11], [])"
  using poll_spec.simps(3) [of "delivery plain sample_kr [11, 12, 13, 14]" 0 63 sample_packet "[]"]
  by (simp add: sample_delivery del: poll_spec.simps(3))

theorem napi_poll_witness:
  "\<exists>r s' k' ds. nf10_napi_struct_poll plain sample_kr quiet 64 sample_scheduled = Some (Some (r, s')) \<and>
     rx_ring_inv s' k' \<and> received s' = [rx_skb plain sample_kr 0 [0xDE, 0xAD] 11] \<and>
     r = 0 \<and> timer_pending s' \<and> \<not> napi_scheduled s'"
proof -
  from napi_poll_correct [OF sample_scheduled_ring(1) sample_scheduled_ring(3) _ sample_scheduled_ring(4),
      of 64 plain sample_kr]
  obtain r s' k' where "nf10_napi_struct_poll plain sample_kr quiet 64 sample_scheduled = Some (Some (r, s'))"
    "rx_ring_inv s' k'" "received s' = [rx_skb plain sample_kr 0 [0xDE, 0xAD] 11]" "rx_packets_queued s' k' = []"
    "if k' = 0 then r = 0 \<and> timer_pending s' \<and> \<not> napi_scheduled s'
     else r = 64 \<and> \<not> timer_pending s' \<and> napi_scheduled s' = napi_scheduled sample_scheduled"
    using sample_scheduled_ring(2,6,7) poll_one_sample by auto
  moreover from this(4) have "k' = 0" using length_rx_packets_queued [of s' k'] by simp
  ultimately show ?thesis by auto
qed

theorem rx_system_witness:
  "\<exists>s' t' k'. rx_run plain sample_kr [RxPut sample_packet, RxTick, RxPoll 64] (sample_card, 0) = Some (s', t') \<and>
     rx_ring_inv s' k' \<and> timer_pending s' \<noteq> napi_scheduled s' \<and>
     (rx_packets_queued s' k', received s', napi_scheduled s')
       = ([], [rx_skb plain sample_kr 0 [0xDE, 0xAD] 11], False)"
proof -
  have "list_all rx_event_ok [RxPut sample_packet, RxTick, RxPoll 64]"
    by (simp add: rx_event_ok_def sample_fits)
  moreover have "rx_packets_queued sample_card 0 = []"
    by (simp add: rx_packets_queued_def ring_contents_def)
  moreover have "rx_spec 2 (delivery plain sample_kr [11, 12, 13, 14]) [RxPut sample_packet, RxTick, RxPoll 64]
      ([], [], False) = ([], [rx_skb plain sample_kr 0 [0xDE, 0xAD] 11], False)"
    using poll_one_sample by (simp add: rx_spec_def)
  ultimately show ?thesis
    using rx_system_refines_queue [OF sample_rx_ring sample_rx_ready sample_card_slot [symmetric], of _ plain sample_kr]
    by (fastforce simp del: rx_run.simps)
qed

theorem rx_drained_witness:
  "\<exists>s' t'. rx_run plain sample_kr [RxTick, RxPoll 64] (sample_loaded, 1) = Some (s', t') \<and>
     rx_ring_inv s' 0 \<and> timer_pending s' \<and> \<not> napi_scheduled s'"
  using rx_queue_is_drained [OF sample_loaded_ring(1) sample_scheduled_ring(8) _ _ _, of 1 64 plain sample_kr]
    sample_loaded_ring(3)
  by (simp add: sample_loaded_def)

theorem poll_not_bounded_witness:
  "nf10_napi_struct_poll plain sample_kr refill 64 sample_card = None"
  using rx_ring_invD(1,2) [OF sample_rx_ring]
  by (intro poll_not_bounded_by_budget)
     (auto simp: sample_rx_ready all_free_def rx_full_def less_2 slot_flag_def sample_stream sample_flags)


section \<open>Netlink commands\<close>

theorem reg_write_then_read_witness:
  "\<exists>s1 s2. genl_cmd_reg_wr netlink_up (Some [NF10_GENL_A_ADDR32 \<mapsto> le32 0x44000008,
         NF10_GENL_A_REGVAL32 \<mapsto> le32 0xCAFE]) sample_card = Some (0, s1) \<and>
     genl_cmd_reg_rd netlink_up (paged_card (page_reg sample_card))
       (Some [NF10_GENL_A_ADDR32 \<mapsto> le32 0x44000008]) s1 = Some (0, s2) \<and>
     last (replies s2) = (NF10_GENL_C_REG_RD,
       [(NF10_GENL_A_REGVAL32, le32 0xCAFE), (NF10_GENL_A_ERRNO, le32 0)])"
  using reg_write_then_read [OF genl_up_netlink_up sample_regs, of "paged_card (page_reg sample_card)"
      "[NF10_GENL_A_ADDR32 \<mapsto> le32 0x44000008, NF10_GENL_A_REGVAL32 \<mapsto> le32 0xCAFE]" "0x44000008" "0xCAFE"
      "[NF10_GENL_A_ADDR32 \<mapsto> le32 0x44000008]" "0x44000008"]
  by (simp add: genl_attr_defs reg_offset_def OCCP_WORKER_CONFIG_SIZE_def)

theorem dma_tx_enqueues_witness:
  "\<exists>s'. genl_cmd_dma_tx (Some (dma_tx_request [1, 2, 3, 0] (le32 OPCODE_CPU1))) sample_card = Some (0, s') \<and>
     tx_ring_inv s' 0 1 \<and> tx_packets_queued s' 0 1 = [([1, 2, 3, 0], OPCODE_CPU1)]"
  using dma_tx_enqueues [OF sample_tx_ring sample_doorbells(1), of "le32 OPCODE_CPU1" "[1, 2, 3, 0]"]
  by (simp add: tx_packets_queued_def ring_contents_def)

lemma sample_loaded_doorbell: "covered (mmio_live sample_loaded) (doorbell (rx_dma_stream sample_loaded)) 4"
  using sample_doorbells(2) by (simp add: sample_loaded_def)

theorem dma_rx_dequeues_witness:
  "\<exists>s'. genl_cmd_dma_rx netlink_up (Some Map.empty) sample_loaded = Some (0, s') \<and>
     rx_ring_inv s' 0 \<and> replies s' = [(NF10_GENL_C_DMA_RX,
       [(NF10_GENL_A_DMA_BUF, [0xDE, 0xAD]), (NF10_GENL_A_OPCODE, le32 OPCODE_CPU0)])]"
  using dma_rx_dequeues [OF genl_up_netlink_up sample_loaded_ring(1) sample_loaded_doorbell, of Map.empty]
    sample_loaded_ring(2)
  by (auto simp: sample_packet_def) (auto simp: sample_loaded_def)

theorem disabled_polling_witness:
  "received (del_timer sample_loaded) = [] \<and> \<not> timer_pending (del_timer sample_loaded) \<and>
   \<not> napi_scheduled (del_timer sample_loaded)"
  using disabled_polling_stays_asleep [of sample_loaded 0 "del_timer sample_loaded" plain sample_kr 1
      "del_timer sample_loaded" 1]
  by (simp add: genl_cmd_napi_disable_def) (simp add: sample_loaded_def)

theorem enable_during_poll_witness:
  "\<exists>s1. genl_cmd_napi_enable sample_scheduled = Some (0, s1) \<and>
     nf10_napi_struct_poll plain sample_kr quiet 64 s1 = Some None"
  by (rule enable_during_poll_faults [OF sample_scheduled_ring(1,3,5)]) simp


section \<open>Ghosting\<close>

text \<open>An allocator that grants half of the 32768 slots, but not all of them.\<close>

definition small_kmalloc :: "u32 \<Rightarrow> addr" where
  "small_kmalloc n = (if n = dma_region_bytes DMA_CPU_BUFS then 0 else 0x1000)"

theorem enable_ghosting_witness:
  "\<exists>s' i. enable_ghosting small_kmalloc (sample_card\<lparr>timer_pending := False\<rparr>) = Some (0, s') \<and>
     ghost_inv s' 0 \<and> timer_pending s' \<and> unat (dma_cpu_bufs s') = 32768 div 2 ^ i"
  using enable_ghosting_ring [of 1 small_kmalloc "sample_card\<lparr>timer_pending := False\<rparr>"]
  by (auto simp: small_kmalloc_def dma_region_bytes_def DMA_CPU_BUFS_def DMA_BUF_SIZE_def OCDP_METADATA_SIZE_def)

definition sample_ghost :: nf10 where
  "sample_ghost = sample_card\<lparr>tx_dma_stream := rx_dma_stream sample_card\<rparr>"

lemma sample_ghost_inv: "ghost_inv sample_ghost 0" "ghost_ready sample_ghost"
  using sample_rx_ring
  by (simp_all add: ghost_inv_def ghost_ready_def sample_ghost_def NUM_NETDEVS_def rx_card_slot_def
      sample_stream rx_ring_inv_def rx_packets_queued_def rx_flags_binary_def region_live_def)

text \<open>An IP frame of 60 bytes from 10.0.0.1 to 10.0.1.1, without options.\<close>

definition sample_ip :: bytes where
  "sample_ip = replicate 12 0 @ [8, 0, 0x45] @ replicate 11 0 @ [10, 0, 0, 1, 10, 0, 1, 1] @ replicate 26 0"

definition sample_ip_skb :: sk_buff where
  "sample_ip_skb = sample_skb\<lparr>sk_buf := sample_ip\<rparr>"

definition sample_ip_flipped :: bytes where
  "sample_ip_flipped = replicate 12 0 @ [8, 0, 0x45] @ replicate 11 0 @ [10, 0, 1, 1, 10, 0, 0, 1] @ replicate 26 0"

lemma replicate_update: "(replicate n x)[i := x] = replicate n x"
  by (cases "i < n") (auto intro!: nth_equalityI simp: nth_list_update)

lemma le16_0: "le16 0 = [0, 0]"
  by (simp add: le16_def numeral_2_eq_2)

lemma sample_switcharoo:
  "switcharoo zero_csum sample_ip = Some sample_ip_flipped"
  "switcharoo zero_csum sample_ip_flipped = Some sample_ip"
  by (simp_all add: switcharoo_def sample_ip_def sample_ip_flipped_def is_ip_frame_def ip_header_words_def flip_addr_bits_def
      zero_csum_def le16_0 replicate_update nth_append list_update_append Let_def)

theorem ghost_frame_witness:
  "\<exists>s1 s2 t t'. nf10_ndo_start_xmit ghost zero_csum sample_ip_skb 11 sample_ghost = Some (NETDEV_TX_OK, s1) \<and>
     rx_run ghost sample_kr [RxTick, RxPoll 64] (s1, t) = Some (s2, t') \<and>
     received s2 = [rx_skb ghost sample_kr 0 sample_ip_flipped 12] \<and> freed s1 = [7]"
proof -
  have len: "length sample_ip_flipped = 60" by (simp add: sample_ip_flipped_def)
  have pkt: "ghost_packet zero_csum sample_ip_skb 0 = Some (sample_ip_flipped, rx_set_dst_iface 0 1)"
    by (simp add: ghost_packet_def sample_ip_skb_def sample_switcharoo sample_skb_def len)
  have "skb_wf sample_ip_skb" "unat (sk_len sample_ip_skb) \<le> 2048" "sk_id sample_ip_skb = 7"
    by (simp_all add: skb_wf_def sample_ip_skb_def sample_skb_def sample_ip_def)
  then show ?thesis
    using ghost_frame_reaches_partner [OF _ sample_ghost_inv, of ghost 0 sample_ip_skb zero_csum sample_ip_flipped
        "rx_set_dst_iface 0 1" 64 sample_kr 0] pkt
    by (simp add: ghost_def NUM_NETDEVS_def sample_kr_def sample_ghost_def)
qed

section \<open>Probing and removing\<close>

definition sample_pci :: pci_kernel where
  "sample_pci = \<lparr>pci_enable_err = 0, pci_request_err = 0, pci_ioremap = 0x1000000,
     pci_resource_len = 0x1000000, dma_mask_err = 0, dma_coherent_mask_err = 0,
     dma_alloc = \<lambda>m n. ((m mod 2) * 0x100000000 + 0x200000000, 0)\<rparr>"

definition no_dma :: pci_kernel where
  "no_dma = sample_pci\<lparr>dma_alloc := \<lambda>m n. (0, 0)\<rparr>"

definition good_card :: hardware where
  "good_card trace a = OCCP_SUCCESS_RESULT"

definition unprobed :: nf10 where
  "unprobed = sample_card\<lparr>timer_pending := False, live := [], mmio_live := [], hw_state := 0, tx_dma_reg_va := 0, rx_dma_reg_va := 0\<rparr>"

lemma unprobed_fields [simp]:
  "\<not> timer_pending unprobed" "live unprobed = []" "hw_state unprobed = 0" "held unprobed = []" "unheld unprobed = []" "rx_dma_reg_va unprobed = 0"
  "\<not> tx_locked unprobed" "nf10_netdevs unprobed = [11, 12, 13, 14]"
  by (simp_all add: unprobed_def) (simp add: sample_card_def)

lemma sample_pci_grants: "pci_grants sample_pci"
  by (simp add: pci_grants_def sample_pci_def sizeof_OccpSpace_eq)

lemma sample_probe:
  obtains s' where "probe sample_pci good_card unprobed = Some (0, s')" "held s' \<noteq> held unprobed"
    "hw_state s' = HW_FOUND OR HW_INIT" "nf10_netdevs s' = [11, 12, 13, 14]"
  using probe_runs [OF sample_pci_grants, of good_card unprobed]
  by (auto simp: good_card_def running_def Let_def)

lemma sample_pci_regions_apart:
  "\<forall>m n. fst (dma_alloc sample_pci m n) \<noteq> 0 \<and> fst (dma_alloc sample_pci (Suc m) n) \<noteq> 0 \<longrightarrow>
     apart (fst (dma_alloc sample_pci m n)) (unat n) (fst (dma_alloc sample_pci (Suc m) n)) (unat n)"
proof (intro allI impI)
  fix m :: nat and n :: u32
  have "m mod 2 = 0 \<or> m mod 2 = 1" by auto
  then show "apart (fst (dma_alloc sample_pci m n)) (unat n) (fst (dma_alloc sample_pci (Suc m) n)) (unat n)"
    using unat_u32_less [of n] by (auto simp: sample_pci_def apart_def mod_Suc)
qed

theorem probe_sets_up_rings_witness:
  "\<exists>s'. probe sample_pci good_card unprobed = Some (0, s') \<and>
     tx_ring_inv s' 0 0 \<and> rx_ring_inv s' 0 \<and> regs_mapped s' \<and>
     covered (mmio_live s') (doorbell (tx_dma_stream s')) 4 \<and>
     covered (mmio_live s') (doorbell (rx_dma_stream s')) 4"
proof -
  obtain s' where s': "probe sample_pci good_card unprobed = Some (0, s')" "held s' \<noteq> held unprobed"
    by (rule sample_probe)
  from probe_sets_up_rings [OF s'(1) _ s'(2) sample_pci_regions_apart] s'(1) show ?thesis by auto
qed

theorem probe_hides_failure_witness:
  "\<exists>s' s2. probe no_dma good_card unprobed = Some (0, s') \<and> held s' = [] \<and>
     hw_state s' AND HW_INIT = 0 \<and> remove_dev s' = Some s2 \<and> unheld s2 = [Bar0Map (bar0_base_va s'), Bar0Region, PciDevice]"
proof -
  have "probe_claim no_dma unprobed = Inr (claimed no_dma unprobed)"
    by (simp add: probe_claim_def Let_def acquire_def claimed_def no_dma_def sample_pci_def sizeof_OccpSpace_eq)
  from probe_hides_allocation_failure [OF this, of good_card] show ?thesis
    by (auto simp: no_dma_def)
qed

theorem second_probe_witness:
  "\<exists>s' s2. probe sample_pci good_card unprobed = Some (0, s') \<and> probe sample_pci good_card s' = None \<and>
     remove_dev s' = Some s2 \<and> probe sample_pci good_card s2 = None"
proof -
  obtain s' where s': "probe sample_pci good_card unprobed = Some (0, s')" "held s' \<noteq> held unprobed"
    by (rule sample_probe)
  from second_probe_faults [OF s'(1) _ s'(2) sample_pci_grants, of good_card] s'(1) show ?thesis
    by (auto simp: good_card_def)
qed

theorem remove_dangling_witness:
  "\<exists>s' s2. probe sample_pci good_card unprobed = Some (0, s') \<and> remove_dev s' = Some s2 \<and>
     held s2 = [] \<and> timer_pending s2 \<and> nf10_ndo_start_xmit plain zero_csum sample_skb 11 s2 = None \<and>
     rx_poll_timer_cb (s2\<lparr>timer_pending := False\<rparr>) = None"
proof -
  obtain s' where s': "probe sample_pci good_card unprobed = Some (0, s')" "held s' \<noteq> held unprobed"
    "hw_state s' = HW_FOUND OR HW_INIT" "nf10_netdevs s' = [11, 12, 13, 14]"
    by (rule sample_probe)
  have "sends s' sample_skb 11"
    by (simp add: sends_def s'(3,4) get_iface_from_netdev_def NUM_NETDEVS_def sample_skb_def
        NF10_PKT_SIZE_MIN_def NF10_PKT_SIZE_MAX_def HW_FOUND_def HW_INIT_def)
  from remove_leaves_dangling_state [OF s'(1) _ s'(2) _ _ _ this, of plain zero_csum] s'(1) show ?thesis
    by (auto simp: plain_def)
qed

section \<open>Loading and unloading the module\<close>

definition sample_init :: init_kernel where
  "sample_init = \<lparr>alloc_netdev = \<lambda>i. 11 + i,
     ether_setup = \<lambda>d. d\<lparr>addr_len := 6, hard_header_len := 14\<rparr>,
     register_netdev_err = \<lambda>i. 0, genl_register_family_err = 0, genl_register_ops_err = \<lambda>i. 0,
     pci_register_err = 0, card_present = False, HZ = 100, kmalloc_fn = small_kmalloc\<rparr>"

theorem init_failure_witness:
  "nf10_eth_driver_init plain (sample_init\<lparr>genl_register_family_err := - 17\<rparr>) sample_pci good_card unprobed = None"
  by (rule init_failure_paths_fault) (simp_all add: NUM_NETDEVS_def)

theorem read_proc_witness:
  "read_proc sample_card \<noteq> None"
  using read_proc_page [OF tx_ring_invD(1,2) [OF sample_tx_ring] rx_ring_invD(1,2) [OF sample_rx_ring]] by simp

end
