(* ===== verification/NL_Msg.thy ===== *)
theory NL_Msg
  imports NF10_Prelude
begin

text \<open>
  Netlink messages of the user-space library (\<^verbatim>\<open>libnl-3.0/lib/msg.c\<close>).  A message is a byte
  buffer that starts with the 16-byte header \<^verbatim>\<open>struct nlmsghdr\<close>; a pointer into it is an
  offset, and an access outside the buffer, like \<^verbatim>\<open>BUG()\<close>, is the value \<^term>\<open>None\<close>.
  The C types are kept at their width: an \<^verbatim>\<open>int\<close> and a \<^verbatim>\<open>uint32_t\<close> are 32-bit words, a
  \<^verbatim>\<open>size_t\<close> is a 64-bit word.  Debug output (\<^verbatim>\<open>NL_DBG\<close>) is left out.
\<close>

section \<open>Error codes\<close>

text \<open>The codes of \<^verbatim>\<open>netlink/errno.h\<close> that the modelled functions return.\<close>

definition NLE_FAILURE :: i32 where "NLE_FAILURE = 1"
definition NLE_INTR :: i32 where "NLE_INTR = 2"
definition NLE_BAD_SOCK :: i32 where "NLE_BAD_SOCK = 3"
definition NLE_AGAIN :: i32 where "NLE_AGAIN = 4"
definition NLE_NOMEM :: i32 where "NLE_NOMEM = 5"
definition NLE_EXIST :: i32 where "NLE_EXIST = 6"
definition NLE_INVAL :: i32 where "NLE_INVAL = 7"
definition NLE_RANGE :: i32 where "NLE_RANGE = 8"
definition NLE_MSGSIZE :: i32 where "NLE_MSGSIZE = 9"
definition NLE_OPNOTSUPP :: i32 where "NLE_OPNOTSUPP = 10"
definition NLE_AF_NOSUPPORT :: i32 where "NLE_AF_NOSUPPORT = 11"
definition NLE_OBJ_NOTFOUND :: i32 where "NLE_OBJ_NOTFOUND = 12"
definition NLE_NOATTR :: i32 where "NLE_NOATTR = 13"
definition NLE_MISSING_ATTR :: i32 where "NLE_MISSING_ATTR = 14"
definition NLE_AF_MISMATCH :: i32 where "NLE_AF_MISMATCH = 15"
definition NLE_SEQ_MISMATCH :: i32 where "NLE_SEQ_MISMATCH = 16"
definition NLE_MSG_OVERFLOW :: i32 where "NLE_MSG_OVERFLOW = 17"
definition NLE_MSG_TRUNC :: i32 where "NLE_MSG_TRUNC = 18"
definition NLE_NOADDR :: i32 where "NLE_NOADDR = 19"
definition NLE_MSG_TOOSHORT :: i32 where "NLE_MSG_TOOSHORT = 21"
definition NLE_MSGTYPE_NOSUPPORT :: i32 where "NLE_MSGTYPE_NOSUPPORT = 22"
definition NLE_OBJ_MISMATCH :: i32 where "NLE_OBJ_MISMATCH = 23"
definition NLE_NOCACHE :: i32 where "NLE_NOCACHE = 24"
definition NLE_BUSY :: i32 where "NLE_BUSY = 25"
definition NLE_PROTO_MISMATCH :: i32 where "NLE_PROTO_MISMATCH = 26"
definition NLE_NOACCESS :: i32 where "NLE_NOACCESS = 27"
definition NLE_PERM :: i32 where "NLE_PERM = 28"

lemmas nle_defs = NLE_FAILURE_def NLE_INTR_def NLE_BAD_SOCK_def NLE_AGAIN_def NLE_NOMEM_def
  NLE_EXIST_def NLE_INVAL_def NLE_RANGE_def NLE_MSGSIZE_def NLE_OPNOTSUPP_def
  NLE_AF_NOSUPPORT_def NLE_OBJ_NOTFOUND_def NLE_NOATTR_def NLE_MISSING_ATTR_def
  NLE_SEQ_MISMATCH_def NLE_MSG_OVERFLOW_def NLE_MSG_TRUNC_def NLE_NOADDR_def
  NLE_MSG_TOOSHORT_def NLE_MSGTYPE_NOSUPPORT_def NLE_BUSY_def NLE_PROTO_MISMATCH_def
  NLE_NOACCESS_def NLE_PERM_def NLE_OBJ_MISMATCH_def NLE_NOCACHE_def NLE_AF_MISMATCH_def

section \<open>Messages\<close>

record sockaddr_nl =
  nl_family :: u16
  nl_pid :: u32
  nl_groups :: u32

record ucred =
  cr_pid :: i32
  cr_uid :: u32
  cr_gid :: u32

record nl_msg =
  nm_protocol :: i32
  nm_flags :: i32
  nm_src :: sockaddr_nl
  nm_dst :: sockaddr_nl
  nm_creds :: ucred
  nm_nlh :: bytes
  nm_size :: u64
  nm_refcnt :: i32

definition NL_MSG_CRED_PRESENT :: i32 where "NL_MSG_CRED_PRESENT = 1"

definition NLMSG_ALIGN :: "u32 \<Rightarrow> u32" where
  "NLMSG_ALIGN len = (len + 4 - 1) AND NOT (4 - 1)"

definition NLMSG_HDRLEN :: i32 where "NLMSG_HDRLEN = NLMSG_ALIGN 16"

text \<open>Offsets of the fields of \<^verbatim>\<open>struct nlmsghdr\<close>.\<close>

abbreviation (input) NLH_LEN :: nat where "NLH_LEN \<equiv> 0"
abbreviation (input) NLH_TYPE :: nat where "NLH_TYPE \<equiv> 4"
abbreviation (input) NLH_FLAGS :: nat where "NLH_FLAGS \<equiv> 6"
abbreviation (input) NLH_SEQ :: nat where "NLH_SEQ \<equiv> 8"
abbreviation (input) NLH_PID :: nat where "NLH_PID \<equiv> 12"

subsection \<open>Sizes\<close>

definition nlmsg_size :: "i32 \<Rightarrow> i32" where
  "nlmsg_size payload = NLMSG_HDRLEN + payload"

definition nlmsg_msg_size :: "i32 \<Rightarrow> i32" where
  "nlmsg_msg_size payload = nlmsg_size payload"

definition nlmsg_total_size :: "i32 \<Rightarrow> i32" where
  "nlmsg_total_size payload = NLMSG_ALIGN (nlmsg_msg_size payload)"

definition nlmsg_padlen :: "i32 \<Rightarrow> i32" where
  "nlmsg_padlen payload = nlmsg_total_size payload - nlmsg_msg_size payload"

subsection \<open>Access to header, payload and attributes\<close>

text \<open>\<open>b\<close> is the buffer and \<open>h\<close> the offset of the header in it.\<close>

definition nlmsg_data :: "nat \<Rightarrow> nat" where
  "nlmsg_data h = h + unat NLMSG_HDRLEN"

definition nlmsg_tail :: "bytes \<Rightarrow> nat \<Rightarrow> nat option" where
  "nlmsg_tail b h = do {
     len \<leftarrow> ld32 b (h + NLH_LEN);
     Some (h + unat (NLMSG_ALIGN len))
   }"

definition nlmsg_datalen :: "bytes \<Rightarrow> nat \<Rightarrow> i32 option" where
  "nlmsg_datalen b h = do {
     len \<leftarrow> ld32 b (h + NLH_LEN);
     Some (len - NLMSG_HDRLEN)
   }"

definition nlmsg_len :: "bytes \<Rightarrow> nat \<Rightarrow> i32 option" where
  "nlmsg_len b h = nlmsg_datalen b h"

definition nlmsg_attrdata :: "nat \<Rightarrow> i32 \<Rightarrow> nat" where
  "nlmsg_attrdata h hdrlen = nlmsg_data h + unat (NLMSG_ALIGN hdrlen)"

definition nlmsg_attrlen :: "bytes \<Rightarrow> nat \<Rightarrow> i32 \<Rightarrow> i32 option" where
  "nlmsg_attrlen b h hdrlen = do {
     len \<leftarrow> nlmsg_len b h;
     Some (len - NLMSG_ALIGN hdrlen)
   }"

subsection \<open>Parsing a stream of messages\<close>

text \<open>The comparison of \<^verbatim>\<open>nlmsg_len\<close> with an \<^verbatim>\<open>int\<close> is unsigned.\<close>

definition nlmsg_valid_hdr :: "bytes \<Rightarrow> nat \<Rightarrow> i32 \<Rightarrow> bool option" where
  "nlmsg_valid_hdr b h hdrlen = do {
     len \<leftarrow> ld32 b (h + NLH_LEN);
     Some (\<not> len < nlmsg_msg_size hdrlen)
   }"

definition nlmsg_ok :: "bytes \<Rightarrow> nat \<Rightarrow> i32 \<Rightarrow> bool option" where
  "nlmsg_ok b h remaining =
     (if \<not> 16 \<le> sint remaining then Some False
      else do {
        len \<leftarrow> ld32 b (h + NLH_LEN);
        Some (16 \<le> len \<and> len \<le> remaining)
      })"

text \<open>A step backwards leaves the buffer and is a fault.\<close>

definition nlmsg_next :: "bytes \<Rightarrow> nat \<Rightarrow> i32 \<Rightarrow> (nat \<times> i32) option" where
  "nlmsg_next b h remaining = do {
     len \<leftarrow> ld32 b (h + NLH_LEN);
     let totlen = NLMSG_ALIGN len;
     if is_neg totlen then None else Some (h + unat totlen, remaining - totlen)
   }"

subsection \<open>Building messages\<close>

text \<open>
  The two Booleans of \<open>__nlmsg_alloc\<close> say whether each of its two \<^verbatim>\<open>calloc\<close>s succeeds;
  the inner \<^term>\<open>None\<close> is \<^verbatim>\<open>NULL\<close>.
\<close>

definition null_addr :: sockaddr_nl where
  "null_addr = \<lparr>nl_family = 0, nl_pid = 0, nl_groups = 0\<rparr>"

definition nlmsg_alloc_raw :: "bool \<Rightarrow> bool \<Rightarrow> u64 \<Rightarrow> nl_msg option option" where
  "nlmsg_alloc_raw ok_nm ok_nlh maxlen =
    (let len = (if maxlen < 16 then 16 else maxlen) in
     if \<not> ok_nm then Some None
     else if \<not> ok_nlh then Some None
     else do {
       nlh \<leftarrow> blit 0 (replicate 16 0) (replicate (unat len) 0);
       nlh \<leftarrow> st32 NLH_LEN (nlmsg_total_size 0) nlh;
       Some (Some \<lparr>nm_protocol = - 1, nm_flags = 0, nm_src = null_addr, nm_dst = null_addr,
                   nm_creds = \<lparr>cr_pid = 0, cr_uid = 0, cr_gid = 0\<rparr>,
                   nm_nlh = nlh, nm_size = len, nm_refcnt = 1\<rparr>)
     })"

definition nlmsg_alloc :: "bool \<Rightarrow> bool \<Rightarrow> u64 \<Rightarrow> nl_msg option option" where
  "nlmsg_alloc ok_nm ok_nlh default_msg_size = nlmsg_alloc_raw ok_nm ok_nlh default_msg_size"

definition nlmsg_alloc_size :: "bool \<Rightarrow> bool \<Rightarrow> u64 \<Rightarrow> nl_msg option option" where
  "nlmsg_alloc_size ok_nm ok_nlh maxlen = nlmsg_alloc_raw ok_nm ok_nlh maxlen"

text \<open>A header template: type, flags, sequence number and port.\<close>

record nlmsghdr =
  hd_type :: u16
  hd_flags :: u16
  hd_seq :: u32
  hd_pid :: u32

definition nlmsg_inherit :: "bool \<Rightarrow> bool \<Rightarrow> u64 \<Rightarrow> nlmsghdr option \<Rightarrow> nl_msg option option" where
  "nlmsg_inherit ok_nm ok_nlh default_msg_size hdr = do {
     nm \<leftarrow> nlmsg_alloc ok_nm ok_nlh default_msg_size;
     (case (nm, hdr) of
        (Some m, Some t) \<Rightarrow> do {
          b \<leftarrow> st16 NLH_TYPE (hd_type t) (nm_nlh m);
          b \<leftarrow> st16 NLH_FLAGS (hd_flags t) b;
          b \<leftarrow> st32 NLH_SEQ (hd_seq t) b;
          b \<leftarrow> st32 NLH_PID (hd_pid t) b;
          Some (Some (m\<lparr>nm_nlh := b\<rparr>))
        }
      | _ \<Rightarrow> Some nm)
   }"

definition nlmsg_alloc_simple :: "bool \<Rightarrow> bool \<Rightarrow> u64 \<Rightarrow> i32 \<Rightarrow> i32 \<Rightarrow> nl_msg option option" where
  "nlmsg_alloc_simple ok_nm ok_nlh default_msg_size nlmsgtype flags =
     nlmsg_inherit ok_nm ok_nlh default_msg_size
       (Some \<lparr>hd_type = ucast nlmsgtype, hd_flags = ucast flags, hd_seq = 0, hd_pid = 0\<rparr>)"

definition nlmsg_set_default_size :: "u64 \<Rightarrow> u64" where
  "nlmsg_set_default_size maxlen =
     (if maxlen < scast (nlmsg_total_size 0) then scast (nlmsg_total_size 0) else maxlen)"

definition nlmsg_convert :: "bool \<Rightarrow> bool \<Rightarrow> bytes \<Rightarrow> nat \<Rightarrow> nl_msg option option" where
  "nlmsg_convert ok_nm ok_nlh b h = do {
     len \<leftarrow> ld32 b (h + NLH_LEN);
     nm \<leftarrow> nlmsg_alloc_raw ok_nm ok_nlh (ucast (NLMSG_ALIGN len));
     (case nm of
        None \<Rightarrow> Some None
      | Some m \<Rightarrow> do {
          src \<leftarrow> ld_bytes b h (unat len);
          nlh \<leftarrow> blit 0 src (nm_nlh m);
          Some (Some (m\<lparr>nm_nlh := nlh\<rparr>))
        })
   }"

definition nlmsg_reserve :: "nl_msg \<Rightarrow> u64 \<Rightarrow> i32 \<Rightarrow> (nat option \<times> nl_msg) option" where
  "nlmsg_reserve n len pad = do {
     nlmsg_len \<leftarrow> ld32 (nm_nlh n) NLH_LEN;
     let tlen = (if pad \<noteq> 0 then (len + scast (pad - 1)) AND scast (NOT (pad - 1)) else len);
     if tlen + ucast nlmsg_len > nm_size n then Some (None, n)
     else do {
       let buf = unat nlmsg_len;
       b \<leftarrow> st32 NLH_LEN (nlmsg_len + ucast tlen) (nm_nlh n);
       b \<leftarrow> (if tlen > len then blit (buf + unat len) (replicate (unat (tlen - len)) 0) b else Some b);
       Some (Some buf, n\<lparr>nm_nlh := b\<rparr>)
     }
   }"

definition nlmsg_append :: "nl_msg \<Rightarrow> bytes \<Rightarrow> u64 \<Rightarrow> i32 \<Rightarrow> (i32 \<times> nl_msg) option" where
  "nlmsg_append n data len pad = do {
     (tmp, n) \<leftarrow> nlmsg_reserve n len pad;
     (case tmp of
        None \<Rightarrow> Some (- NLE_NOMEM, n)
      | Some off \<Rightarrow> do {
          src \<leftarrow> take_exact (unat len) data;
          b \<leftarrow> blit off src (nm_nlh n);
          Some (0, n\<lparr>nm_nlh := b\<rparr>)
        })
   }"

text \<open>\<open>tail\<close> is what \<^verbatim>\<open>realloc\<close> leaves in the bytes behind the old block, \<^term>\<open>None\<close> its failure.\<close>

definition nlmsg_expand :: "(nat \<Rightarrow> bytes option) \<Rightarrow> nl_msg \<Rightarrow> u64 \<Rightarrow> i32 \<times> nl_msg" where
  "nlmsg_expand tail n newlen =
    (if newlen \<le> nm_size n then (- NLE_INVAL, n)
     else (case tail (unat newlen - length (nm_nlh n)) of
        None \<Rightarrow> (- NLE_NOMEM, n)
      | Some bs \<Rightarrow> (0, n\<lparr>nm_nlh := nm_nlh n @ bs, nm_size := newlen\<rparr>)))"

text \<open>\<^verbatim>\<open>BUG()\<close> is an assertion failure.\<close>

definition nlmsg_put :: "nl_msg \<Rightarrow> u32 \<Rightarrow> u32 \<Rightarrow> i32 \<Rightarrow> i32 \<Rightarrow> i32 \<Rightarrow> (nat option \<times> nl_msg) option" where
  "nlmsg_put n pid seq type payload flags = do {
     len \<leftarrow> ld32 (nm_nlh n) NLH_LEN;
     if len < NLMSG_HDRLEN then None
     else do {
       b \<leftarrow> st16 NLH_TYPE (ucast type) (nm_nlh n);
       b \<leftarrow> st16 NLH_FLAGS (ucast flags) b;
       b \<leftarrow> st32 NLH_PID pid b;
       b \<leftarrow> st32 NLH_SEQ seq b;
       let n = n\<lparr>nm_nlh := b\<rparr>;
       if 0 < sint payload
       then do {
         (p, n) \<leftarrow> nlmsg_reserve n (scast payload) 4;
         Some (case p of None \<Rightarrow> (None, n) | Some _ \<Rightarrow> (Some 0, n))
       }
       else Some (Some 0, n)
     }
   }"

definition nlmsg_hdr :: "nl_msg \<Rightarrow> bytes" where
  "nlmsg_hdr n = nm_nlh n"

definition nlmsg_get :: "nl_msg \<Rightarrow> nl_msg" where
  "nlmsg_get msg = msg\<lparr>nm_refcnt := nm_refcnt msg + 1\<rparr>"

text \<open>The message that is left: none when the last reference is gone.\<close>

definition nlmsg_free :: "nl_msg option \<Rightarrow> nl_msg option option" where
  "nlmsg_free msg =
    (case msg of
       None \<Rightarrow> Some None
     | Some m \<Rightarrow>
        (let m = m\<lparr>nm_refcnt := nm_refcnt m - 1\<rparr> in
         if is_neg (nm_refcnt m) then None
         else if sint (nm_refcnt m) \<le> 0 then Some None
         else Some (Some m)))"

subsection \<open>Attributes of the message object\<close>

definition nlmsg_set_proto :: "nl_msg \<Rightarrow> i32 \<Rightarrow> nl_msg" where
  "nlmsg_set_proto msg protocol = msg\<lparr>nm_protocol := protocol\<rparr>"

definition nlmsg_get_proto :: "nl_msg \<Rightarrow> i32" where
  "nlmsg_get_proto msg = nm_protocol msg"

definition nlmsg_get_max_size :: "nl_msg \<Rightarrow> u64" where
  "nlmsg_get_max_size msg = nm_size msg"

definition nlmsg_set_src :: "nl_msg \<Rightarrow> sockaddr_nl \<Rightarrow> nl_msg" where
  "nlmsg_set_src msg a = msg\<lparr>nm_src := a\<rparr>"

definition nlmsg_get_src :: "nl_msg \<Rightarrow> sockaddr_nl" where
  "nlmsg_get_src msg = nm_src msg"

definition nlmsg_set_dst :: "nl_msg \<Rightarrow> sockaddr_nl \<Rightarrow> nl_msg" where
  "nlmsg_set_dst msg a = msg\<lparr>nm_dst := a\<rparr>"

definition nlmsg_get_dst :: "nl_msg \<Rightarrow> sockaddr_nl" where
  "nlmsg_get_dst msg = nm_dst msg"

definition nlmsg_set_creds :: "nl_msg \<Rightarrow> ucred \<Rightarrow> nl_msg" where
  "nlmsg_set_creds msg creds =
     msg\<lparr>nm_creds := creds, nm_flags := nm_flags msg OR NL_MSG_CRED_PRESENT\<rparr>"

definition nlmsg_get_creds :: "nl_msg \<Rightarrow> ucred option" where
  "nlmsg_get_creds msg =
     (if nm_flags msg AND NL_MSG_CRED_PRESENT \<noteq> 0 then Some (nm_creds msg) else None)"

section \<open>Alignment\<close>

lemma NLMSG_HDRLEN_16 [simp]: "NLMSG_HDRLEN = 16"
  by (simp add: NLMSG_HDRLEN_def NLMSG_ALIGN_def)

lemma and_not_3: "(y :: 'a::len word) AND NOT 3 = push_bit 2 (drop_bit 2 y)"
proof -
  have three: "(3 :: 'a word) = mask 2" by (simp add: mask_eq_exp_minus_1)
  show ?thesis
    unfolding three by (rule bit_word_eqI) (auto simp: bit_simps not_less simp flip: Suc_diff_le)
qed

lemma unat_u32_and_not_3: "unat ((y :: u32) AND NOT 3) = unat y div 4 * 4"
proof -
  have "unat y div 4 * 4 < 4294967296"
    using unat_u32_less [of y] by simp
  then show ?thesis
    unfolding and_not_3
    by (simp add: push_bit_eq_mult drop_bit_eq_div unat_div unat_word_ariths)
qed

lemma unat_u64_and_not_3: "unat ((y :: u64) AND NOT 3) = unat y div 4 * 4"
proof -
  have "unat y div 4 * 4 < 18446744073709551616"
    using unsigned_less [of y, where ?'a = nat] by simp
  then show ?thesis
    unfolding and_not_3
    by (simp add: push_bit_eq_mult drop_bit_eq_div unat_div unat_word_ariths)
qed

text \<open>The multiple of four at or above a number, and how the aligning macros compute it.\<close>

definition align4 :: "nat \<Rightarrow> nat" where
  "align4 n = (n + 3) div 4 * 4"

lemma align4_ge: "n \<le> align4 n" and align4_less: "align4 n < n + 4" and dvd_align4 [simp]: "4 dvd align4 n"
  unfolding align4_def by presburger+

lemma align4_id: "4 dvd n \<Longrightarrow> align4 n = n"
  unfolding align4_def by presburger

lemma align4_add: "4 dvd m \<Longrightarrow> align4 (m + n) = m + align4 n"
  unfolding align4_def by presburger

lemma unat_NLMSG_ALIGN:
  "unat x < 4294967293 \<Longrightarrow> unat (NLMSG_ALIGN x) = align4 (unat x)"
  using unat_u32_and_not_3 [of "3 + x"]
  by (simp add: NLMSG_ALIGN_def align4_def unat_word_ariths)

lemma NLMSG_ALIGN_of_nat:
  assumes "n < 4294967293"
  shows "NLMSG_ALIGN (word_of_nat n) = word_of_nat (align4 n)"
proof -
  have "align4 n < 4294967296" using assms unfolding align4_def by linarith
  then show ?thesis
    using assms by (intro word_unat_eq_iff [THEN iffD2]) (simp add: unat_NLMSG_ALIGN unat_of_nat)
qed

section \<open>Messages as header and contents\<close>

lemma le_bytes_le_nat: "length bs = n \<Longrightarrow> le_bytes n (le_nat bs) = bs"
proof (induction bs arbitrary: n)
  case (Cons b bs)
  have "unat b < 256" using unsigned_less [of b, where ?'a = nat] by simp
  then show ?case using Cons by (cases n) auto
qed simp

text \<open>
  \<open>msg_at L w\<close> are the first bytes of a message whose length field is \<open>L\<close>: the field, then
  the rest of the header and the contents \<open>w\<close>.
\<close>

definition msg_at :: "nat \<Rightarrow> bytes \<Rightarrow> bytes" where
  "msg_at L w = le32 (word_of_nat L) @ w"

lemma length_msg_at [simp]: "length (msg_at L w) = 4 + length w"
  by (simp add: msg_at_def)

lemma ld32_msg_at [simp]: "ld32 (msg_at L w) 0 = Some (word_of_nat L)"
  by (simp add: msg_at_def ld32_def)

lemma st32_msg_at [simp]: "st32 0 v (msg_at L w) = Some (msg_at (unat v) w)"
  by (simp add: msg_at_def st32_def blit_def)

lemma blit_msg_at:
  assumes "off = 4 + length w" and "length bs = length old"
  shows "blit off bs (msg_at L (w @ old @ z)) = Some (msg_at L (w @ bs @ z))"
  using assms by (simp add: msg_at_def blit_def)

text \<open>Reserving, with room for \<open>x\<close>, the bytes handed out, and \<open>y\<close>, the padding.\<close>

lemma nlmsg_reserve_fits:
  assumes buf: "nm_nlh n = msg_at (4 + length w) (w @ x @ y @ z)"
    and sz: "length (nm_nlh n) = unat (nm_size n)" "unat (nm_size n) < 2 ^ 30"
    and len: "length x = unat len"
    and pad: "pad = 4 \<and> length y = align4 (unat len) - unat len \<or> pad = 0 \<and> y = []"
  shows "nlmsg_reserve n len pad = Some (Some (4 + length w),
           n\<lparr>nm_nlh := msg_at (4 + length w + length x + length y) (w @ x @ replicate (length y) 0 @ z)\<rparr>)"
proof -
  define tlen :: u64 where "tlen = word_of_nat (length x + length y)"
  define L :: u32 where "L = word_of_nat (4 + length w)"
  have small: "4 + length w + length x + length y + length z = unat (nm_size n)"
    using buf sz by simp
  have ut: "unat tlen = length x + length y"
    unfolding tlen_def using small sz by (subst unat_of_nat) simp
  have uL: "unat L = 4 + length w"
    unfolding L_def using small sz by (subst unat_of_nat) simp
  have t4: "(len + scast (4 - 1 :: i32)) AND scast (NOT (4 - 1) :: i32) = tlen" if "pad = 4"
  proof -
    have "unat ((len + 3) AND NOT 3) = align4 (unat len)"
      using small sz len by (subst unat_u64_and_not_3) (simp add: align4_def unat_word_ariths)
    then show ?thesis
      using that pad len align4_ge [of "unat len"] ut by (simp add: word_unat_eq_iff)
  qed
  have t0: "len = tlen" if "pad = 0"
    using that pad len ut by (simp add: word_unat_eq_iff)
  have tl: "(if pad \<noteq> 0 then (len + scast (pad - 1)) AND scast (NOT (pad - 1)) else len) = tlen"
    using t4 t0 pad by auto
  have fits: "\<not> nm_size n < tlen + ucast L"
    using small sz ut uL by (simp add: word_less_nat_alt unat_word_ariths not_less)
  have newlen: "unat (L + ucast tlen) = 4 + length w + length x + length y"
    using small sz ut uL by (simp add: unat_word_ariths unat_u64_u32)
  have more: "len < tlen \<longleftrightarrow> y \<noteq> []" and dif: "unat (tlen - len) = length y"
    using ut len by (auto simp: word_less_nat_alt unat_sub word_le_nat_alt)
  have b0: "ld32 (nm_nlh n) 0 = Some L" "st32 0 (L + ucast tlen) (nm_nlh n)
      = Some (msg_at (4 + length w + length x + length y) (w @ x @ y @ z))"
    using buf newlen by (simp_all add: L_def del: of_nat_add)
  have pd: "blit (4 + length w + unat len) (replicate (length y) 0)
      (msg_at (4 + length w + length x + length y) (w @ x @ y @ z))
      = Some (msg_at (4 + length w + length x + length y) (w @ x @ replicate (length y) 0 @ z))"
    using blit_msg_at [of "4 + length w + unat len" "w @ x" "replicate (length y) 0" y _ z] len by simp
  show ?thesis
    using pd by (auto simp: nlmsg_reserve_def Let_def tl fits b0 more dif uL)
qed

lemma nlmsg_reserve_full:
  assumes "nm_nlh n = msg_at L w" and "L < 2 ^ 30" and "unat len < 2 ^ 30"
    and "t = (if pad = 0 then unat len else align4 (unat len))" and "pad = 4 \<or> pad = 0"
    and "unat (nm_size n) < L + t"
  shows "nlmsg_reserve n len pad = Some (None, n)"
proof -
  define tlen where "tlen = (if pad \<noteq> 0 then (len + scast (pad - 1)) AND scast (NOT (pad - 1)) else len)"
  have "unat ((len + 3) AND NOT 3) = align4 (unat len)"
    using assms by (subst unat_u64_and_not_3) (simp add: align4_def unat_word_ariths)
  then have ut: "unat tlen = t"
    using assms by (auto simp: tlen_def)
  have "t < 2 ^ 31" using assms align4_less [of "unat len"] by (auto split: if_splits)
  moreover have "unat (word_of_nat L :: u32) = L" using assms by (simp add: unat_of_nat)
  ultimately have "nm_size n < tlen + ucast (word_of_nat L :: u32)"
    using assms ut by (simp add: word_less_nat_alt unat_word_ariths)
  then show ?thesis
    using assms by (simp add: nlmsg_reserve_def tlen_def [symmetric])
qed

text \<open>The fields of a header behind the length.\<close>

definition nlh_fields :: "u16 \<Rightarrow> u16 \<Rightarrow> u32 \<Rightarrow> u32 \<Rightarrow> bytes" where
  "nlh_fields ty fl sq pid = le16 ty @ le16 fl @ le32 sq @ le32 pid"

lemma length_nlh_fields [simp]: "length (nlh_fields ty fl sq pid) = 12"
  by (simp add: nlh_fields_def)

lemma ld_nlh_fields [simp]:
  "ld16 (msg_at L (nlh_fields ty fl sq pid @ z)) 4 = Some ty"
  "ld16 (msg_at L (nlh_fields ty fl sq pid @ z)) 6 = Some fl"
  "ld32 (msg_at L (nlh_fields ty fl sq pid @ z)) 8 = Some sq"
  "ld32 (msg_at L (nlh_fields ty fl sq pid @ z)) 12 = Some pid"
  by (simp_all add: msg_at_def nlh_fields_def ld16_def ld32_def)

lemma st_nlh_fields [simp]:
  "st16 4 v (msg_at L (nlh_fields ty fl sq pid @ z)) = Some (msg_at L (nlh_fields v fl sq pid @ z))"
  "st16 6 v (msg_at L (nlh_fields ty fl sq pid @ z)) = Some (msg_at L (nlh_fields ty v sq pid @ z))"
  "st32 8 x (msg_at L (nlh_fields ty fl sq pid @ z)) = Some (msg_at L (nlh_fields ty fl x pid @ z))"
  "st32 12 x (msg_at L (nlh_fields ty fl sq pid @ z)) = Some (msg_at L (nlh_fields ty fl sq x @ z))"
  by (simp_all add: msg_at_def nlh_fields_def st16_def st32_def blit_def)

lemma split_12:
  assumes "length h = 12"
  obtains a b c d where "h = a @ b @ c @ d" "length a = 2" "length b = 2" "length c = 4" "length d = 4"
proof
  show "h = take 2 h @ take 2 (drop 2 h) @ take 4 (drop 4 h) @ drop 8 h"
    using append_take_drop_id [of 2 h] append_take_drop_id [of 2 "drop 2 h"]
      append_take_drop_id [of 4 "drop 4 h"] by simp
qed (use assms in auto)

lemma nlmsg_put_header:
  assumes "length h = 12"
  shows "do {
       b \<leftarrow> st16 4 ty (msg_at L (h @ z));
       b \<leftarrow> st16 6 fl b;
       b \<leftarrow> st32 12 pid b;
       st32 8 sq b
     } = Some (msg_at L (nlh_fields ty fl sq pid @ z))"
  using assms
  by (elim split_12) (simp add: msg_at_def nlh_fields_def st16_def st32_def blit_def)

lemma nlmsg_put_fits:
  assumes buf: "nm_nlh n = msg_at 16 (h @ x @ z)" and h: "length h = 12"
    and sz: "length (nm_nlh n) = unat (nm_size n)" "unat (nm_size n) < 2 ^ 30"
    and x: "length x = unat payload" "4 dvd length x" "x \<noteq> []"
  shows "nlmsg_put n pid sq type payload flags = Some (Some 0,
           n\<lparr>nm_nlh := msg_at (16 + length x) (nlh_fields (ucast type) (ucast flags) sq pid @ x @ z)\<rparr>)"
proof -
  define b where "b = msg_at 16 (nlh_fields (ucast type) (ucast flags) sq pid @ x @ z)"
  have small: "16 + length x + length z = unat (nm_size n)"
    using buf sz h by simp
  have lim: "unat payload < 2147483648" using small sz x by simp
  have len: "unat (scast payload :: u64) = length x"
    using x unat_scast_u64 [OF lim] by simp
  have "0 < length x" using x(3) by (rule length_greater_0_conv [THEN iffD2])
  then have pos: "0 < sint payload"
    using sint_nonneg_u32 [OF lim] x(1) by linarith
  have res: "nlmsg_reserve (n\<lparr>nm_nlh := b\<rparr>) (scast payload) 4 = Some (Some 16,
      n\<lparr>nm_nlh := msg_at (16 + length x) (nlh_fields (ucast type) (ucast flags) sq pid @ x @ z)\<rparr>)"
    using nlmsg_reserve_fits [of "n\<lparr>nm_nlh := b\<rparr>" "nlh_fields (ucast type) (ucast flags) sq pid" x "[]" z
        "scast payload" 4] small sz len x align4_id [of "length x"]
    by (simp add: b_def)
  have "nlmsg_put n pid sq type payload flags =
      do { (p, n) \<leftarrow> nlmsg_reserve (n\<lparr>nm_nlh := b\<rparr>) (scast payload) 4;
           Some (case p of None \<Rightarrow> (None, n) | Some _ \<Rightarrow> (Some 0, n)) }"
    using nlmsg_put_header [OF h, of "ucast type" 16 "x @ z" "ucast flags" pid sq] pos buf
    by (auto simp: nlmsg_put_def b_def bind_eq_Some_conv)
  then show ?thesis
    using res by simp
qed

definition fresh_msg :: "u64 \<Rightarrow> nl_msg" where
  "fresh_msg sz = \<lparr>nm_protocol = - 1, nm_flags = 0, nm_src = null_addr, nm_dst = null_addr,
     nm_creds = \<lparr>cr_pid = 0, cr_uid = 0, cr_gid = 0\<rparr>,
     nm_nlh = msg_at 16 (replicate (unat sz - 4) 0), nm_size = sz, nm_refcnt = 1\<rparr>"

lemma nlmsg_total_size_0 [simp]: "nlmsg_total_size 0 = 16"
  by (simp add: nlmsg_total_size_def nlmsg_msg_size_def nlmsg_size_def NLMSG_ALIGN_def)

lemma nlmsg_alloc_fresh:
  assumes "16 \<le> sz"
  shows "nlmsg_alloc_raw True True sz = Some (Some (fresh_msg sz))"
proof -
  have n: "16 \<le> unat sz" using assms by (simp add: word_le_nat_alt)
  have big: "\<not> sz < 16" using assms by (simp add: not_less)
  have "take 16 (replicate (unat sz) (0 :: u8)) = replicate 16 0"
    using n by (simp add: min_def)
  then have "blit 0 (replicate 16 0) (replicate (unat sz) 0) = Some (replicate (unat sz) (0 :: u8))"
    using n by (simp add: blit_def flip: replicate_add)
  moreover have "st32 0 16 (replicate (unat sz) 0) = Some (msg_at 16 (replicate (unat sz - 4) 0))"
    using n by (simp add: st32_def blit_def msg_at_def)
  ultimately show ?thesis
    using big by (simp add: nlmsg_alloc_raw_def fresh_msg_def)
qed

lemma nlmsg_alloc_simple_fresh:
  assumes "16 \<le> unat sz"
  shows "nlmsg_alloc_simple True True sz type flags = Some (Some ((fresh_msg sz)\<lparr>nm_nlh :=
    msg_at 16 (nlh_fields (ucast type) (ucast flags) 0 0 @ replicate (unat sz - 16) 0)\<rparr>))"
proof -
  have al: "nlmsg_alloc_raw True True sz = Some (Some (fresh_msg sz))"
    by (rule nlmsg_alloc_fresh) (use assms in \<open>simp add: word_le_nat_alt\<close>)
  have "replicate (unat sz - 4) (0 :: u8) = nlh_fields 0 0 0 0 @ replicate (unat sz - 16) 0"
  proof -
    have "nlh_fields 0 0 0 0 = replicate 12 (0 :: u8)" by code_simp
    then show ?thesis using assms by (simp flip: replicate_add)
  qed
  then have "nm_nlh (fresh_msg sz) = msg_at 16 (nlh_fields 0 0 0 0 @ replicate (unat sz - 16) 0)"
    by (simp add: fresh_msg_def)
  then show ?thesis
    using al by (simp add: nlmsg_alloc_simple_def nlmsg_inherit_def nlmsg_alloc_def)
qed

section \<open>Well-formed messages\<close>

text \<open>
  The buffer has the size the object says, and the length field covers the header and stays
  inside the buffer.  Buffers of a gigabyte and more are left out: the sums of sizes below
  are computed in 32 bits.
\<close>

definition wf_msg :: "nl_msg \<Rightarrow> bool" where
  "wf_msg n \<longleftrightarrow> length (nm_nlh n) = unat (nm_size n) \<and> unat (nm_size n) < 2 ^ 30
     \<and> 16 \<le> unat (of_le32 (nm_nlh n)) \<and> unat (of_le32 (nm_nlh n)) \<le> unat (nm_size n)"

lemma msg_at_split:
  assumes "4 \<le> length b"
  shows "b = msg_at (unat (of_le32 b)) (drop 4 b)"
proof -
  have "le_nat (take 4 b) < 4294967296"
  proof -
    have "le_bytes 4 (le_nat (take 4 b)) = take 4 b" using assms by (simp add: le_bytes_le_nat)
    then have "le_nat (take 4 b) = le_nat (take 4 b) mod 256 ^ 4" by (metis le_nat_le_bytes)
    then show ?thesis by (metis mod_less_divisor zero_less_numeral zero_less_power power_numeral
          Num.pow.simps Num.sqr.simps Num.mult_num_simps numeral_plus_numeral)
  qed
  then have "le32 (of_le32 b) = take 4 b"
    using assms by (simp add: le32_def of_le32_def unat_of_nat le_bytes_le_nat)
  then show ?thesis by (simp add: msg_at_def)
qed

lemma wf_msgE:
  assumes "wf_msg n"
  obtains w z where "nm_nlh n = msg_at (4 + length w) (w @ z)" "12 \<le> length w"
    "length (nm_nlh n) = unat (nm_size n)" "unat (nm_size n) < 2 ^ 30"
proof -
  define L where "L = unat (of_le32 (nm_nlh n))"
  have L: "16 \<le> L" "L \<le> length (nm_nlh n)"
    using assms by (auto simp: wf_msg_def L_def)
  have "nm_nlh n = msg_at L (drop 4 (nm_nlh n))"
    unfolding L_def by (rule msg_at_split) (use L in linarith)
  then have "nm_nlh n = msg_at L (take (L - 4) (drop 4 (nm_nlh n)) @ drop (L - 4) (drop 4 (nm_nlh n)))"
    by (simp only: append_take_drop_id)
  moreover have "length (take (L - 4) (drop 4 (nm_nlh n))) = L - 4"
    using L by simp
  ultimately show thesis
    using that [of "take (L - 4) (drop 4 (nm_nlh n))" "drop (L - 4) (drop 4 (nm_nlh n))"] assms L
    by (simp add: wf_msg_def)
qed

lemma wf_msgI:
  assumes "nm_nlh n = msg_at L w" and "16 \<le> L" and "L \<le> 4 + length w"
    and "4 + length w = unat (nm_size n)" and "unat (nm_size n) < 2 ^ 30"
  shows "wf_msg n"
  using assms by (simp add: wf_msg_def msg_at_def unat_of_nat)

end
