(* ===== verification/NL_Attr.thy ===== *)
theory NL_Attr
  imports NL_Msg
begin

text \<open>
  Netlink attributes (\<^verbatim>\<open>libnl-3.0/lib/attr.c\<close>).  An attribute is the offset of its header
  (\<^verbatim>\<open>nla_len\<close>, \<^verbatim>\<open>nla_type\<close>, 16 bits each) in a message buffer, its payload follows at the next
  multiple of four.  The second half shows that the attributes put into a message are the
  ones a parser finds there.
\<close>

section \<open>Attributes\<close>

definition NLA_ALIGN :: "i32 \<Rightarrow> i32" where
  "NLA_ALIGN len = (len + 4 - 1) AND NOT (4 - 1)"

definition NLA_HDRLEN :: i32 where "NLA_HDRLEN = NLA_ALIGN 4"

definition NLA_TYPE_MASK :: i32 where "NLA_TYPE_MASK = NOT (push_bit 15 1 OR push_bit 14 1)"

definition NLA_UNSPEC :: u16 where "NLA_UNSPEC = 0"
definition NLA_U8 :: u16 where "NLA_U8 = 1"
definition NLA_U16 :: u16 where "NLA_U16 = 2"
definition NLA_U32 :: u16 where "NLA_U32 = 3"
definition NLA_U64 :: u16 where "NLA_U64 = 4"
definition NLA_STRING :: u16 where "NLA_STRING = 5"
definition NLA_FLAG :: u16 where "NLA_FLAG = 6"
definition NLA_MSECS :: u16 where "NLA_MSECS = 7"
definition NLA_NESTED :: u16 where "NLA_NESTED = 8"
definition NLA_TYPE_MAX :: u16 where "NLA_TYPE_MAX = 8"

lemmas nla_type_defs = NLA_UNSPEC_def NLA_U8_def NLA_U16_def NLA_U32_def NLA_U64_def
  NLA_STRING_def NLA_FLAG_def NLA_MSECS_def NLA_NESTED_def NLA_TYPE_MAX_def

record nla_policy =
  pol_type :: u16
  pol_minlen :: u16
  pol_maxlen :: u16

abbreviation (input) NLA_LEN :: nat where "NLA_LEN \<equiv> 0"
abbreviation (input) NLA_TYPE :: nat where "NLA_TYPE \<equiv> 2"

subsection \<open>Sizes\<close>

definition nla_attr_size :: "i32 \<Rightarrow> i32" where
  "nla_attr_size payload = NLA_HDRLEN + payload"

definition nla_total_size :: "i32 \<Rightarrow> i32" where
  "nla_total_size payload = NLA_ALIGN (nla_attr_size payload)"

definition nla_padlen :: "i32 \<Rightarrow> i32" where
  "nla_padlen payload = nla_total_size payload - nla_attr_size payload"

subsection \<open>Parsing\<close>

definition nla_type :: "bytes \<Rightarrow> nat \<Rightarrow> i32 option" where
  "nla_type b nla = do {
     t \<leftarrow> ld16 b (nla + NLA_TYPE);
     Some (ucast t AND NLA_TYPE_MASK)
   }"

definition nla_data :: "nat \<Rightarrow> nat" where
  "nla_data nla = nla + unat NLA_HDRLEN"

definition nla_len :: "bytes \<Rightarrow> nat \<Rightarrow> i32 option" where
  "nla_len b nla = do {
     l \<leftarrow> ld16 b (nla + NLA_LEN);
     Some (ucast l - NLA_HDRLEN)
   }"

text \<open>
  \<^verbatim>\<open>remaining >= sizeof(*nla)\<close> compares as \<^verbatim>\<open>size_t\<close>: a negative \<^verbatim>\<open>remaining\<close> passes it, and
  the length is read.
\<close>

definition nla_ok :: "bytes \<Rightarrow> nat \<Rightarrow> i32 \<Rightarrow> bool option" where
  "nla_ok b nla remaining =
     (if \<not> (4 :: u64) \<le> scast remaining then Some False
      else do {
        l \<leftarrow> ld16 b (nla + NLA_LEN);
        Some (4 \<le> unat l \<and> int (unat l) \<le> sint remaining)
      })"

definition nla_next :: "bytes \<Rightarrow> nat \<Rightarrow> i32 \<Rightarrow> (nat \<times> i32) option" where
  "nla_next b nla remaining = do {
     l \<leftarrow> ld16 b (nla + NLA_LEN);
     let totlen = NLA_ALIGN (ucast l);
     Some (nla + unat totlen, remaining - totlen)
   }"

definition nla_attr_minlen :: "u16 \<Rightarrow> u16" where
  "nla_attr_minlen t =
     (if t = NLA_U8 then 1 else if t = NLA_U16 then 2 else if t = NLA_U32 then 4
      else if t = NLA_U64 then 8 else if t = NLA_STRING then 1 else 0)"

definition validate_nla :: "bytes \<Rightarrow> nat \<Rightarrow> i32 \<Rightarrow> (nat \<Rightarrow> nla_policy) \<Rightarrow> i32 option" where
  "validate_nla b nla maxtype policy = do {
     type \<leftarrow> nla_type b nla;
     if sint type \<le> 0 \<or> sint type > sint maxtype then Some 0
     else do {
       let pt = policy (unat type);
       if pol_type pt > NLA_TYPE_MAX then None
       else do {
         let minlen = (if pol_minlen pt \<noteq> 0 then pol_minlen pt
                       else if pol_type pt \<noteq> NLA_UNSPEC then nla_attr_minlen (pol_type pt) else 0);
         len \<leftarrow> nla_len b nla;
         if pol_type pt = NLA_FLAG \<and> sint len > 0 then Some (- NLE_RANGE)
         else if sint len < int (unat minlen) then Some (- NLE_RANGE)
         else if pol_maxlen pt \<noteq> 0 \<and> sint len > int (unat (pol_maxlen pt)) then Some (- NLE_RANGE)
         else if pol_type pt = NLA_STRING then do {
           c \<leftarrow> ld8 b (nla_data nla + unat (len - 1));
           Some (if c \<noteq> 0 then - NLE_INVAL else 0)
         }
         else Some 0
       }
     }
   }"

text \<open>
  The loop \<^verbatim>\<open>nla_for_each_attr\<close>: the body returns \<^term>\<open>Inl r\<close> to leave it with the result \<open>r\<close>.
  A negative remainder ends it, so the remainder is a measure.
\<close>

lemma NLA_HDRLEN_4 [simp]: "NLA_HDRLEN = 4"
  by (simp add: NLA_HDRLEN_def NLA_ALIGN_def)

lemma unat_NLA_ALIGN:
  "unat x < 4294967293 \<Longrightarrow> unat (NLA_ALIGN x) = align4 (unat x)"
  using unat_NLMSG_ALIGN [of x] by (simp add: NLA_ALIGN_def NLMSG_ALIGN_def)

lemma nla_step:
  assumes "nla_ok b nla rem = Some True"
  obtains l where "ld16 b nla = Some l" and "4 \<le> unat l" and "int (unat l) \<le> sint rem"
    and "\<exists>rem'. nla_next b nla rem = Some (nla + align4 (unat l), rem')
           \<and> sint rem' = sint rem - int (align4 (unat l))"
proof -
  obtain l where l: "ld16 b nla = Some l" "4 \<le> unat l" "int (unat l) \<le> sint rem"
    using assms by (auto simp: nla_ok_def bind_eq_Some_conv split: if_splits)
  define t where "t = NLA_ALIGN (ucast l)"
  have t: "unat t = align4 (unat l)"
    using unat_u16_less [of l] by (simp add: t_def unat_NLA_ALIGN)
  have al: "align4 (unat l) < unat l + 4" "unat l \<le> align4 (unat l)"
    by (rule align4_less, rule align4_ge)
  have st: "sint t = int (align4 (unat l))"
    using sint_nonneg_u32 [of t] t al unat_u16_less [of l] by simp
  have r: "sint rem < 2147483648"
    using sint_less [of rem] by simp
  have "sint (rem - t) = sint rem - sint t"
    by (rule sint_minus_i32) (use st al l(3) r in linarith)+
  then have "\<exists>rem'. nla_next b nla rem = Some (nla + align4 (unat l), rem')
           \<and> sint rem' = sint rem - int (align4 (unat l))"
    using l(1) t st by (simp add: nla_next_def t_def)
  then show thesis using that l by blast
qed

lemma sint_nla_step:
  assumes "nla_ok b nla rem = Some True" and "nla_next b nla rem = Some (nla', rem')"
  shows "sint rem' < sint rem \<and> 4 \<le> sint rem"
proof (rule nla_step [OF assms(1)])
  fix l
  assume "4 \<le> unat l" and "int (unat l) \<le> sint rem"
    and "\<exists>rem'. nla_next b nla rem = Some (nla + align4 (unat l), rem')
           \<and> sint rem' = sint rem - int (align4 (unat l))"
  then show ?thesis using assms(2) align4_ge [of "unat l"] by (auto simp del: of_nat_unat)
qed

function nla_for_each_attr ::
  "bytes \<Rightarrow> (nat \<Rightarrow> 's \<Rightarrow> ('r + 's) option) \<Rightarrow> nat \<Rightarrow> i32 \<Rightarrow> 's \<Rightarrow> ('r + 's \<times> i32) option" where
  "nla_for_each_attr b body pos rem s = do {
     ok \<leftarrow> nla_ok b pos rem;
     if \<not> ok then Some (Inr (s, rem))
     else do {
       r \<leftarrow> body pos s;
       (case r of
          Inl x \<Rightarrow> Some (Inl x)
        | Inr s \<Rightarrow> do {
            (pos, rem) \<leftarrow> nla_next b pos rem;
            nla_for_each_attr b body pos rem s
          })
     }
   }"
  by pat_completeness auto

termination
  by (relation "measure (\<lambda>(b, body, pos, rem, s). nat (sint rem))")
    (auto dest: sint_nla_step)

declare nla_for_each_attr.simps [simp del]

type_synonym attr_table = "nat \<Rightarrow> nat option"

text \<open>The body of the loop of \<open>nla_parse\<close> and the function itself; messages on \<^verbatim>\<open>stderr\<close> are left out.\<close>

definition nla_parse_attr ::
  "bytes \<Rightarrow> i32 \<Rightarrow> (nat \<Rightarrow> nla_policy) option \<Rightarrow> nat \<Rightarrow> attr_table \<Rightarrow> (i32 \<times> attr_table + attr_table) option" where
  "nla_parse_attr b maxtype policy nla tb = do {
     type \<leftarrow> nla_type b nla;
     if type = 0 then Some (Inr tb)
     else if sint type \<le> sint maxtype then do {
       err \<leftarrow> (case policy of None \<Rightarrow> Some 0 | Some p \<Rightarrow> validate_nla b nla maxtype p);
       Some (if is_neg err then Inl (err, tb) else Inr (tb(unat type \<mapsto> nla)))
     }
     else Some (Inr tb)
   }"

definition nla_parse ::
  "bytes \<Rightarrow> i32 \<Rightarrow> nat \<Rightarrow> i32 \<Rightarrow> (nat \<Rightarrow> nla_policy) option \<Rightarrow> (i32 \<times> attr_table) option" where
  "nla_parse b maxtype head len policy = do {
     r \<leftarrow> nla_for_each_attr b (nla_parse_attr b maxtype policy) head len Map.empty;
     Some (case r of Inl (err, tb) \<Rightarrow> (err, tb) | Inr (tb, rem) \<Rightarrow> (0, tb))
   }"

definition nla_validate ::
  "bytes \<Rightarrow> nat \<Rightarrow> i32 \<Rightarrow> i32 \<Rightarrow> (nat \<Rightarrow> nla_policy) \<Rightarrow> i32 option" where
  "nla_validate b head len maxtype policy = do {
     r \<leftarrow> nla_for_each_attr b
       (\<lambda>nla _. do {
          err \<leftarrow> validate_nla b nla maxtype policy;
          Some (if is_neg err then Inl err else Inr ())
        }) head len ();
     Some (case r of Inl err \<Rightarrow> err | Inr _ \<Rightarrow> 0)
   }"

definition nla_find :: "bytes \<Rightarrow> nat \<Rightarrow> i32 \<Rightarrow> i32 \<Rightarrow> nat option option" where
  "nla_find b head len attrtype = do {
     r \<leftarrow> nla_for_each_attr b
       (\<lambda>nla _. do {
          type \<leftarrow> nla_type b nla;
          Some (if type = attrtype then Inl nla else Inr ())
        }) head len ();
     Some (case r of Inl nla \<Rightarrow> Some nla | Inr _ \<Rightarrow> None)
   }"

definition nlmsg_parse ::
  "bytes \<Rightarrow> nat \<Rightarrow> i32 \<Rightarrow> i32 \<Rightarrow> (nat \<Rightarrow> nla_policy) option \<Rightarrow> attr_table \<Rightarrow> (i32 \<times> attr_table) option" where
  "nlmsg_parse b nlh hdrlen maxtype policy tb = do {
     valid \<leftarrow> nlmsg_valid_hdr b nlh hdrlen;
     if \<not> valid then Some (- NLE_MSG_TOOSHORT, tb)
     else do {
       len \<leftarrow> nlmsg_attrlen b nlh hdrlen;
       nla_parse b maxtype (nlmsg_attrdata nlh hdrlen) len policy
     }
   }"

definition nlmsg_find_attr :: "bytes \<Rightarrow> nat \<Rightarrow> i32 \<Rightarrow> i32 \<Rightarrow> nat option option" where
  "nlmsg_find_attr b nlh hdrlen attrtype = do {
     len \<leftarrow> nlmsg_attrlen b nlh hdrlen;
     nla_find b (nlmsg_attrdata nlh hdrlen) len attrtype
   }"

definition nlmsg_validate ::
  "bytes \<Rightarrow> nat \<Rightarrow> i32 \<Rightarrow> i32 \<Rightarrow> (nat \<Rightarrow> nla_policy) \<Rightarrow> i32 option" where
  "nlmsg_validate b nlh hdrlen maxtype policy = do {
     valid \<leftarrow> nlmsg_valid_hdr b nlh hdrlen;
     if \<not> valid then Some (- NLE_MSG_TOOSHORT)
     else do {
       len \<leftarrow> nlmsg_attrlen b nlh hdrlen;
       nla_validate b (nlmsg_attrdata nlh hdrlen) len maxtype policy
     }
   }"

subsection \<open>Helper functions\<close>

text \<open>\<^verbatim>\<open>memcmp\<close>: the difference of the first two bytes that differ.\<close>

fun memcmp :: "bytes \<Rightarrow> bytes \<Rightarrow> i32" where
  "memcmp (x # xs) (y # ys) = (if x = y then memcmp xs ys else ucast x - ucast y)"
| "memcmp _ _ = 0"

text \<open>
  A copy of a negative number of bytes is converted to a huge \<^verbatim>\<open>size_t\<close> and leaves the buffer.
  The result is the number of bytes and the destination afterwards.
\<close>

definition nla_memcpy :: "bytes \<Rightarrow> bytes \<Rightarrow> nat option \<Rightarrow> i32 \<Rightarrow> (i32 \<times> bytes) option" where
  "nla_memcpy dest b src count =
    (case src of
       None \<Rightarrow> Some (0, dest)
     | Some nla \<Rightarrow> do {
         len \<leftarrow> nla_len b nla;
         let minlen = (if sint count < sint len then count else len);
         data \<leftarrow> ld_bytes b (nla_data nla) (unat (scast minlen :: u64));
         dest \<leftarrow> blit 0 data dest;
         Some (minlen, dest)
       })"

definition nla_strlcpy :: "bytes \<Rightarrow> bytes \<Rightarrow> nat \<Rightarrow> u64 \<Rightarrow> (u64 \<times> bytes) option" where
  "nla_strlcpy dst b nla dstsize = do {
     len \<leftarrow> nla_len b nla;
     let srclen = (scast len :: u64);
     let src = nla_data nla;
     srclen \<leftarrow> (if srclen > 0 then do {
         c \<leftarrow> ld8 b (src + unat (srclen - 1));
         Some (if c = 0 then srclen - 1 else srclen)
       } else Some srclen);
     if dstsize > 0 then do {
       let n = (if srclen \<ge> dstsize then dstsize - 1 else srclen);
       dst \<leftarrow> blit 0 (replicate (unat dstsize) 0) dst;
       data \<leftarrow> ld_bytes b src (unat n);
       dst \<leftarrow> blit 0 data dst;
       Some (srclen, dst)
     }
     else Some (srclen, dst)
   }"

definition nla_memcmp :: "bytes \<Rightarrow> nat \<Rightarrow> bytes \<Rightarrow> u64 \<Rightarrow> i32 option" where
  "nla_memcmp b nla data n = do {
     len \<leftarrow> nla_len b nla;
     let d = (ucast (scast len - n :: u64) :: i32);
     if d = 0 then do {
       p \<leftarrow> ld_bytes b (nla_data nla) (unat n);
       q \<leftarrow> take_exact (unat n) data;
       Some (memcmp p q)
     }
     else Some d
   }"

text \<open>\<open>str\<close> is given without its terminating NUL byte.\<close>

definition nla_strcmp :: "bytes \<Rightarrow> nat \<Rightarrow> bytes \<Rightarrow> i32 option" where
  "nla_strcmp b nla str = do {
     let len = word_of_nat (length str) + 1;
     l \<leftarrow> nla_len b nla;
     let d = l - len;
     if d = 0 then do {
       p \<leftarrow> ld_bytes b (nla_data nla) (unat (scast len :: u64));
       q \<leftarrow> take_exact (unat (scast len :: u64)) (str @ [0]);
       Some (memcmp p q)
     }
     else Some d
   }"

subsection \<open>Building\<close>

definition nla_reserve :: "nl_msg \<Rightarrow> i32 \<Rightarrow> i32 \<Rightarrow> (nat option \<times> nl_msg) option" where
  "nla_reserve msg attrtype attrlen = do {
     nlmsg_len \<leftarrow> ld32 (nm_nlh msg) NLH_LEN;
     let tlen = NLMSG_ALIGN nlmsg_len + nla_total_size attrlen;
     if nm_size msg < ucast (tlen + nlmsg_len) then Some (None, msg)
     else do {
       nla \<leftarrow> nlmsg_tail (nm_nlh msg) 0;
       b \<leftarrow> st16 (nla + NLA_TYPE) (ucast attrtype) (nm_nlh msg);
       b \<leftarrow> st16 (nla + NLA_LEN) (ucast (nla_attr_size attrlen)) b;
       b \<leftarrow> (if attrlen \<noteq> 0
             then blit (nla + unat (ucast (nla_attr_size attrlen) :: u16))
                    (replicate (unat (scast (nla_padlen attrlen) :: u64)) 0) b
             else Some b);
       b \<leftarrow> st32 NLH_LEN tlen b;
       Some (Some nla, msg\<lparr>nm_nlh := b\<rparr>)
     }
   }"

definition nla_put :: "nl_msg \<Rightarrow> i32 \<Rightarrow> i32 \<Rightarrow> bytes \<Rightarrow> (i32 \<times> nl_msg) option" where
  "nla_put msg attrtype datalen data = do {
     (nla, msg) \<leftarrow> nla_reserve msg attrtype datalen;
     (case nla of
        None \<Rightarrow> Some (- NLE_NOMEM, msg)
      | Some nla \<Rightarrow>
         if 0 < sint datalen then do {
           src \<leftarrow> take_exact (unat datalen) data;
           b \<leftarrow> blit (nla_data nla) src (nm_nlh msg);
           Some (0, msg\<lparr>nm_nlh := b\<rparr>)
         }
         else Some (0, msg))
   }"

definition nla_put_u8 :: "nl_msg \<Rightarrow> i32 \<Rightarrow> u8 \<Rightarrow> (i32 \<times> nl_msg) option" where
  "nla_put_u8 msg attrtype v = nla_put msg attrtype 1 [v]"

definition nla_get_u8 :: "bytes \<Rightarrow> nat \<Rightarrow> u8 option" where
  "nla_get_u8 b nla = ld8 b (nla_data nla)"

definition nla_put_u16 :: "nl_msg \<Rightarrow> i32 \<Rightarrow> u16 \<Rightarrow> (i32 \<times> nl_msg) option" where
  "nla_put_u16 msg attrtype v = nla_put msg attrtype 2 (le16 v)"

definition nla_get_u16 :: "bytes \<Rightarrow> nat \<Rightarrow> u16 option" where
  "nla_get_u16 b nla = ld16 b (nla_data nla)"

definition nla_put_u32 :: "nl_msg \<Rightarrow> i32 \<Rightarrow> u32 \<Rightarrow> (i32 \<times> nl_msg) option" where
  "nla_put_u32 msg attrtype v = nla_put msg attrtype 4 (le32 v)"

definition nla_get_u32 :: "bytes \<Rightarrow> nat \<Rightarrow> u32 option" where
  "nla_get_u32 b nla = ld32 b (nla_data nla)"

definition nla_put_u64 :: "nl_msg \<Rightarrow> i32 \<Rightarrow> u64 \<Rightarrow> (i32 \<times> nl_msg) option" where
  "nla_put_u64 msg attrtype v = nla_put msg attrtype 8 (le64 v)"

text \<open>\<open>tmp\<close> is the local variable, whose bytes are indeterminate before the copy.\<close>

definition nla_get_u64 :: "bytes \<Rightarrow> bytes \<Rightarrow> nat option \<Rightarrow> u64 option" where
  "nla_get_u64 tmp b nla = do {
     (_, tmp) \<leftarrow> nla_memcpy tmp b nla 8;
     Some (of_le64 tmp)
   }"

definition nla_put_string :: "nl_msg \<Rightarrow> i32 \<Rightarrow> bytes \<Rightarrow> (i32 \<times> nl_msg) option" where
  "nla_put_string msg attrtype str = nla_put msg attrtype (word_of_nat (length str) + 1) (str @ [0])"

definition nla_get_string :: "nat \<Rightarrow> nat" where
  "nla_get_string nla = nla_data nla"

text \<open>The characters of a NUL-terminated string at an offset; running off the buffer is a fault.\<close>

definition c_str_at :: "bytes \<Rightarrow> nat \<Rightarrow> bytes option" where
  "c_str_at b off = (if 0 \<in> set (drop off b) then Some (takeWhile (\<lambda>c. c \<noteq> 0) (drop off b)) else None)"

text \<open>\<open>ok\<close>: whether \<^verbatim>\<open>strdup\<close> gets memory.\<close>

definition nla_strdup :: "bool \<Rightarrow> bytes \<Rightarrow> nat \<Rightarrow> bytes option option" where
  "nla_strdup ok b nla = do {
     s \<leftarrow> c_str_at b (nla_get_string nla);
     Some (if ok then Some (s @ [0]) else None)
   }"

definition nla_put_flag :: "nl_msg \<Rightarrow> i32 \<Rightarrow> (i32 \<times> nl_msg) option" where
  "nla_put_flag msg attrtype = nla_put msg attrtype 0 []"

definition nla_get_flag :: "nat option \<Rightarrow> i32" where
  "nla_get_flag nla = (if nla \<noteq> None then 1 else 0)"

definition nla_put_msecs :: "nl_msg \<Rightarrow> i32 \<Rightarrow> u64 \<Rightarrow> (i32 \<times> nl_msg) option" where
  "nla_put_msecs n attrtype msecs = nla_put_u64 n attrtype msecs"

definition nla_get_msecs :: "bytes \<Rightarrow> bytes \<Rightarrow> nat option \<Rightarrow> u64 option" where
  "nla_get_msecs tmp b nla = nla_get_u64 tmp b nla"

definition nla_put_nested :: "nl_msg \<Rightarrow> i32 \<Rightarrow> nl_msg \<Rightarrow> (i32 \<times> nl_msg) option" where
  "nla_put_nested msg attrtype nested = do {
     len \<leftarrow> nlmsg_datalen (nm_nlh nested) 0;
     nla_put msg attrtype len (drop (nlmsg_data 0) (nm_nlh nested))
   }"

definition nla_nest_start :: "nl_msg \<Rightarrow> i32 \<Rightarrow> (nat option \<times> nl_msg) option" where
  "nla_nest_start msg attrtype = do {
     start \<leftarrow> nlmsg_tail (nm_nlh msg) 0;
     (err, msg) \<leftarrow> nla_put msg attrtype 0 [];
     Some (if is_neg err then (None, msg) else (Some start, msg))
   }"

definition nla_nest_end :: "nl_msg \<Rightarrow> nat \<Rightarrow> (i32 \<times> nl_msg) option" where
  "nla_nest_end msg start = do {
     t \<leftarrow> nlmsg_tail (nm_nlh msg) 0;
     b \<leftarrow> st16 (start + NLA_LEN) (word_of_int (int t - int start)) (nm_nlh msg);
     let msg = msg\<lparr>nm_nlh := b\<rparr>;
     len \<leftarrow> ld32 (nm_nlh msg) NLH_LEN;
     let pad = (ucast (NLMSG_ALIGN len - len) :: u64);
     if pad > 0 then do {
       (p, msg) \<leftarrow> nlmsg_reserve msg pad 0;
       (case p of None \<Rightarrow> None | Some _ \<Rightarrow> Some (0, msg))
     }
     else Some (0, msg)
   }"

definition nla_parse_nested ::
  "bytes \<Rightarrow> i32 \<Rightarrow> nat \<Rightarrow> (nat \<Rightarrow> nla_policy) option \<Rightarrow> (i32 \<times> attr_table) option" where
  "nla_parse_nested b maxtype nla policy = do {
     len \<leftarrow> nla_len b nla;
     nla_parse b maxtype (nla_data nla) len policy
   }"

section \<open>Building a stream of attributes\<close>

text \<open>The bytes of an attribute: length, type, payload and padding.\<close>

definition enc_attr :: "u16 \<times> bytes \<Rightarrow> bytes" where
  "enc_attr = (\<lambda>(t, d). le16 (word_of_nat (4 + length d)) @ le16 t @ d
                 @ replicate (align4 (length d) - length d) 0)"

definition enc_attrs :: "(u16 \<times> bytes) list \<Rightarrow> bytes" where
  "enc_attrs as = concat (map enc_attr as)"

lemma length_enc_attr [simp]: "length (enc_attr (t, d)) = 4 + align4 (length d)"
  using align4_ge [of "length d"] by (simp add: enc_attr_def)

lemma enc_attrs_simps [simp]:
  "enc_attrs [] = []" "enc_attrs (a # as) = enc_attr a @ enc_attrs as"
  "enc_attrs (as @ bs) = enc_attrs as @ enc_attrs bs"
  by (simp_all add: enc_attrs_def)

lemma dvd_length_enc_attrs [simp]: "4 dvd length (enc_attrs as)"
  by (induction as) auto

lemma nla_sizes:
  assumes "unat n < 2 ^ 30"
  shows "unat (nla_attr_size n) = 4 + unat n"
    and "unat (nla_total_size n) = 4 + align4 (unat n)"
    and "unat (nla_padlen n) = align4 (unat n) - unat n"
proof -
  show 1: "unat (nla_attr_size n) = 4 + unat n"
    using assms by (simp add: nla_attr_size_def unat_word_ariths)
  show 2: "unat (nla_total_size n) = 4 + align4 (unat n)"
    using assms 1 by (simp add: nla_total_size_def unat_NLA_ALIGN align4_add)
  show "unat (nla_padlen n) = align4 (unat n) - unat n"
    using 1 2 align4_ge [of "unat n"] by (simp add: nla_padlen_def unat_sub word_le_nat_alt)
qed

text \<open>
  A put that is accepted: \<open>w\<close> is what the message holds behind its length field, \<open>x\<close> the room
  the attribute takes.  The room has to be there twice over, once more than is used.
\<close>

definition attr_room :: "nl_msg \<Rightarrow> nat \<Rightarrow> nat \<Rightarrow> bool" where
  "attr_room msg L n \<longleftrightarrow> L + (align4 L + 4 + align4 n) \<le> unat (nm_size msg)"

lemma nla_reserve_fits:
  assumes buf: "nm_nlh msg = msg_at N (w @ a @ c @ d @ p @ z)" and w: "4 + length w = align4 N"
    and sz: "length (nm_nlh msg) = unat (nm_size msg)" "unat (nm_size msg) < 2 ^ 30"
    and len: "length a = 2" "length c = 2" "length d = unat n" "length p = align4 (unat n) - unat n"
    and n: "unat n < 65532"
    and room: "attr_room msg N (unat n)"
  shows "nla_reserve msg t n = Some (Some (4 + length w), msg\<lparr>nm_nlh :=
           msg_at (8 + length w + align4 (unat n))
             (w @ le16 (word_of_nat (4 + unat n)) @ le16 (ucast t) @ d @ replicate (length p) 0 @ z)\<rparr>)"
proof -
  define L :: u32 where "L = word_of_nat N"
  define tlen where "tlen = NLMSG_ALIGN L + nla_total_size n"
  have small: "4 + length w + 4 + align4 (unat n) + length z = unat (nm_size msg)"
    using buf sz len align4_ge [of "unat n"] by simp
  have n30: "unat n < 2 ^ 30" using n by simp
  have "N < 2 ^ 30" using small sz w align4_ge [of N] by simp
  then have uL: "unat L = N"
    unfolding L_def by (subst unat_of_nat) simp
  have al: "unat (NLMSG_ALIGN L) = 4 + length w"
    using uL w \<open>N < 2 ^ 30\<close> by (simp add: unat_NLMSG_ALIGN)
  have ut: "unat tlen = 8 + length w + align4 (unat n)"
    using al nla_sizes(2) [OF n30] small sz by (simp add: tlen_def unat_word_ariths)
  have fits: "\<not> nm_size msg < ucast (tlen + L)"
    using ut uL room small sz w \<open>N < 2 ^ 30\<close>
    by (simp add: word_less_nat_alt unat_word_ariths not_less attr_room_def)
  have ty: "ucast (nla_attr_size n) = (word_of_nat (4 + unat n) :: u16)"
    using nla_sizes(1) [OF n30] n
    by (intro word_unat_eq_iff [THEN iffD2]) (simp add: unat_u32_u16 unat_of_nat del: of_nat_add)
  have pad: "unat (scast (nla_padlen n) :: u64) = length p"
    using nla_sizes(3) [OF n30] len align4_less [of "unat n"]
    by (subst unat_scast_u64) simp_all
  have off: "unat (word_of_nat (4 + unat n) :: u16) = 4 + unat n"
    using n by (subst unat_of_nat) simp
  let ?b1 = "msg_at N (w @ a @ le16 (ucast t) @ d @ p @ z)"
  let ?b2 = "msg_at N (w @ le16 (word_of_nat (4 + unat n)) @ le16 (ucast t) @ d @ p @ z)"
  let ?b3 = "msg_at N
    (w @ le16 (word_of_nat (4 + unat n)) @ le16 (ucast t) @ d @ replicate (length p) 0 @ z)"
  have s1: "st16 (4 + length w + 2) (ucast t) (nm_nlh msg) = Some ?b1"
    using blit_msg_at [of "4 + length w + 2" "w @ a" "le16 (ucast t)" c _ "d @ p @ z"] buf len
    by (simp add: st16_def)
  have s2: "st16 (4 + length w) (word_of_nat (4 + unat n)) ?b1 = Some ?b2"
    using len by (simp add: st16_def blit_msg_at del: of_nat_add)
  have s3: "blit (4 + length w + (4 + unat n)) (replicate (length p) 0) ?b2 = Some ?b3"
    using blit_msg_at [of "4 + length w + (4 + unat n)" "w @ le16 (word_of_nat (4 + unat n)) @ le16 (ucast t) @ d"
        "replicate (length p) 0" p _ z] len by simp
  have "?b2 = ?b3" if "n = 0"
    using that len by (simp add: align4_def)
  with s3 have s4: "(if n \<noteq> 0 then blit (4 + length w + unat (ucast (nla_attr_size n) :: u16))
      (replicate (unat (scast (nla_padlen n) :: u64)) 0) ?b2 else Some ?b2) = Some ?b3"
    by (cases "n = 0") (simp_all only: ty off pad if_True if_False not_False_eq_True simp_thms)
  have ld: "ld32 (nm_nlh msg) 0 = Some L"
    using buf by (simp add: L_def del: of_nat_add)
  have tail: "nlmsg_tail (nm_nlh msg) 0 = Some (4 + length w)"
    using al ld by (simp add: nlmsg_tail_def)
  show ?thesis
    using s1 s2 ut unfolding nla_reserve_def
    by (simp add: ld tail fits ty s4 flip: tlen_def del: of_nat_add split del: if_split)
qed

lemma nla_put_fits:
  assumes buf: "nm_nlh msg = msg_at N (w @ x @ z)" and w: "4 + length w = align4 N"
    and sz: "length (nm_nlh msg) = unat (nm_size msg)" "unat (nm_size msg) < 2 ^ 30"
    and x: "length x = 4 + align4 (length d)" and n: "length d = unat n" "unat n < 65532"
    and room: "attr_room msg N (unat n)"
  shows "nla_put msg t n d = Some (0, msg\<lparr>nm_nlh :=
           msg_at (8 + length w + align4 (length d)) (w @ enc_attr (ucast t, d) @ z)\<rparr>)"
proof -
  define a where "a = take 2 x"
  define c where "c = take 2 (drop 2 x)"
  define e where "e = take (length d) (drop 4 x)"
  define p where "p = drop (length d) (drop 4 x)"
  have xx: "x = a @ c @ e @ p"
    unfolding a_def c_def e_def p_def
    using append_take_drop_id [of 2 x] append_take_drop_id [of 2 "drop 2 x"]
      append_take_drop_id [of "length d" "drop 4 x"] by simp
  have len: "length a = 2" "length c = 2" "length e = unat n" "length p = align4 (unat n) - unat n"
    using x n(1) align4_ge [of "length d"] by (auto simp: a_def c_def e_def p_def)
  let ?b = "\<lambda>e. msg_at (8 + length w + align4 (unat n))
    (w @ le16 (word_of_nat (4 + unat n)) @ le16 (ucast t) @ e @ replicate (length p) 0 @ z)"
  have res: "nla_reserve msg t n = Some (Some (4 + length w), msg\<lparr>nm_nlh := ?b e\<rparr>)"
    by (rule nla_reserve_fits [where a = a and c = c and z = z, OF _ w sz len n(2) room])
      (use buf xx in simp)
  have "sint n = int (length d)"
    using sint_nonneg_u32 [of n] n by simp
  then have pos: "0 < sint n \<longleftrightarrow> d \<noteq> []"
    by (simp del: of_nat_unat)
  have "blit (4 + length w + 4) d (?b e) = Some (?b d)"
    using blit_msg_at [of "4 + length w + 4" "w @ le16 (word_of_nat (4 + unat n)) @ le16 (ucast t)"
        d e _ "replicate (length p) 0 @ z"] len n by simp
  moreover have "e = d" if "d = []" using that len n by simp
  moreover have "take_exact (unat n) d = Some d" using n by (simp add: take_exact_def)
  ultimately show ?thesis
    using res pos n(1) len
    by (cases "d = []") (simp_all add: nla_put_def nla_data_def enc_attr_def del: of_nat_add)
qed

lemma nla_put_full:
  assumes buf: "nm_nlh msg = msg_at N w" and N: "N < 2 ^ 30" and n: "unat n < 2 ^ 30"
    and room: "\<not> attr_room msg N (unat n)"
  shows "nla_put msg t n d = Some (- NLE_NOMEM, msg)"
proof -
  define L :: u32 where "L = word_of_nat N"
  have L: "unat L = N" unfolding L_def using N by (subst unat_of_nat) simp
  have "unat (NLMSG_ALIGN L + nla_total_size n) = align4 N + 4 + align4 (unat n)"
    using L N n nla_sizes(2) [OF n] align4_less [of N] align4_less [of "unat n"]
    by (simp add: unat_word_ariths unat_NLMSG_ALIGN)
  then have "nm_size msg < ucast (NLMSG_ALIGN L + nla_total_size n + L)"
    using L N n room align4_less [of N] align4_less [of "unat n"]
    by (simp add: word_less_nat_alt unat_word_ariths attr_room_def)
  then show ?thesis
    using buf by (simp add: nla_put_def nla_reserve_def L_def [symmetric])
qed

section \<open>Reading a stream of attributes\<close>

text \<open>
  Attributes that a message can carry: the length fits its field and the two flag bits of
  the type are clear.
\<close>

definition attr_ok :: "u16 \<times> bytes \<Rightarrow> bool" where
  "attr_ok = (\<lambda>(t, d). length d < 65532 \<and> t < 0x4000)"

text \<open>The loop over a stream, as a recursion over the attributes it holds.\<close>

primrec each_attr ::
  "(nat \<Rightarrow> 's \<Rightarrow> ('r + 's) option) \<Rightarrow> nat \<Rightarrow> (u16 \<times> bytes) list \<Rightarrow> 's \<Rightarrow> ('r + 's \<times> i32) option" where
  "each_attr body pos [] s = Some (Inr (s, 0))"
| "each_attr body pos (a # as) s = do {
     r \<leftarrow> body pos s;
     (case r of
        Inl x \<Rightarrow> Some (Inl x)
      | Inr s \<Rightarrow> each_attr body (pos + length (enc_attr a)) as s)
   }"

lemma type_mask_id:
  assumes "(t :: u16) < 0x4000"
  shows "ucast t AND NLA_TYPE_MASK = ucast t"
proof -
  have "unat t < 2 ^ 14" using assms by (simp add: word_less_nat_alt)
  then have "take_bit 14 t = t"
    by (intro word_unat_eq_iff [THEN iffD2]) (simp add: unsigned_take_bit_eq take_bit_nat_eq_self)
  then have "bit t n \<Longrightarrow> n < 14" for n by (metis bit_take_bit_iff)
  moreover have "bit NLA_TYPE_MASK n" if "n < 14" for n
    unfolding NLA_TYPE_MASK_def using that
    by (auto simp only: bit_not_iff bit_or_iff bit_push_bit_iff bit_1_iff possible_bit_word) simp_all
  ultimately show ?thesis
    by (intro bit_word_eqI) (auto simp: bit_simps)
qed

lemma enc_attr_fields:
  assumes "attr_ok (t, d)"
  shows "ld16 (p @ enc_attr (t, d) @ q) (length p) = Some (word_of_nat (4 + length d))"
    and "nla_type (p @ enc_attr (t, d) @ q) (length p) = Some (ucast t)"
    and "nla_len (p @ enc_attr (t, d) @ q) (length p) = Some (word_of_nat (length d))"
    and "ld_bytes (p @ enc_attr (t, d) @ q) (nla_data (length p)) (length d) = Some d"
proof -
  show l: "ld16 (p @ enc_attr (t, d) @ q) (length p) = Some (word_of_nat (4 + length d))"
    by (simp add: enc_attr_def ld16_def del: of_nat_add)
  have "ld16 (p @ enc_attr (t, d) @ q) (length p + 2) = Some t"
    by (simp add: enc_attr_def ld16_def)
  moreover have "ucast t AND NLA_TYPE_MASK = (ucast t :: i32)"
    using assms by (simp add: attr_ok_def type_mask_id)
  ultimately show "nla_type (p @ enc_attr (t, d) @ q) (length p) = Some (ucast t)"
    by (simp add: nla_type_def)
  have "(ucast (word_of_nat (4 + length d) :: u16) :: i32) = word_of_nat (4 + length d)"
    using assms by (intro ucast_u16_of_nat) (simp add: attr_ok_def)
  then show "nla_len (p @ enc_attr (t, d) @ q) (length p) = Some (word_of_nat (length d))"
    using l by (simp add: nla_len_def)
  show "ld_bytes (p @ enc_attr (t, d) @ q) (nla_data (length p)) (length d) = Some d"
    by (simp add: enc_attr_def nla_data_def ld_bytes_def take_exact_def)
qed

lemma nla_for_each_attr_enc:
  assumes "b = p @ enc_attrs as @ q" and "length b < 2 ^ 30" and "list_all attr_ok as"
  shows "nla_for_each_attr b body (length p) (word_of_nat (length (enc_attrs as))) s
       = each_attr body (length p) as s"
  using assms
proof (induction as arbitrary: p s)
  case Nil
  then show ?case
    by (subst nla_for_each_attr.simps) (simp add: nla_ok_def)
next
  case (Cons a as)
  obtain t d where a: "a = (t, d)" by force
  let ?n = "length (enc_attrs (a # as))"
  define rem :: i32 where "rem = word_of_nat ?n"
  have len: "?n = 4 + align4 (length d) + length (enc_attrs as)" by (simp add: a)
  have urem: "unat rem = ?n"
    unfolding rem_def using Cons.prems by (subst unat_of_nat) simp
  have srem: "sint rem = int ?n"
    using sint_nonneg_u32 [of rem] urem Cons.prems by simp
  define l :: u16 where "l = word_of_nat (4 + length d)"
  have ul: "unat l = 4 + length d"
    unfolding l_def using Cons.prems by (subst unat_of_nat) (simp add: a attr_ok_def)
  have l: "ld16 b (length p) = Some l"
    using enc_attr_fields(1) [of t d p "enc_attrs as @ q"] Cons.prems by (simp add: a l_def)
  have r64: "unat (scast rem :: u64) = ?n"
    using unat_scast_u64 [of rem] urem Cons.prems by simp
  have "int (unat l) \<le> sint rem"
    using srem len ul align4_ge [of "length d"] by linarith
  moreover have "(4 :: u64) \<le> scast rem"
    using r64 len by (simp add: word_le_nat_alt)
  ultimately have ok: "nla_ok b (length p) rem = Some True"
    using l ul by (simp add: nla_ok_def del: of_nat_unat)
  have "NLA_ALIGN (ucast l) = word_of_nat (4 + align4 (length d))"
    using NLMSG_ALIGN_of_nat [of "4 + length d"] ul unat_u16_less [of l]
      ucast_u16_of_nat [of "4 + length d"] unfolding l_def
    by (simp add: NLA_ALIGN_def NLMSG_ALIGN_def align4_add del: of_nat_add)
  then have nxt: "nla_next b (length p) rem = Some (length (p @ enc_attr a), word_of_nat (length (enc_attrs as)))"
    using l len Cons.prems
    by (simp add: nla_next_def rem_def a unat_of_nat unat_word_ariths)
  have IH: "nla_for_each_attr b body (length p + length (enc_attr a)) (word_of_nat (length (enc_attrs as)))
      = each_attr body (length p + length (enc_attr a)) as"
    using Cons.IH [of "p @ enc_attr a"] Cons.prems by (intro ext) simp
  show ?case
    unfolding rem_def [symmetric]
    by (subst nla_for_each_attr.simps) (simp add: ok nxt IH cong: sum.case_cong)
qed

text \<open>The table that a parser without a policy builds from a stream: the last offset of each type.\<close>

primrec attr_index :: "nat \<Rightarrow> nat \<Rightarrow> (u16 \<times> bytes) list \<Rightarrow> attr_table \<Rightarrow> attr_table" where
  "attr_index m pos [] tb = tb"
| "attr_index m pos (a # as) tb =
     attr_index m (pos + length (enc_attr a)) as
       (if fst a \<noteq> 0 \<and> unat (fst a) \<le> m then tb(unat (fst a) \<mapsto> pos) else tb)"

text \<open>An attribute that a policy for the types up to \<open>m\<close> accepts.\<close>

definition policy_minlen :: "nla_policy \<Rightarrow> u16" where
  "policy_minlen pt = (if pol_minlen pt \<noteq> 0 then pol_minlen pt
     else if pol_type pt \<noteq> NLA_UNSPEC then nla_attr_minlen (pol_type pt) else 0)"

definition accepts :: "nla_policy \<Rightarrow> bytes \<Rightarrow> bool" where
  "accepts pt d \<longleftrightarrow> pol_type pt \<le> NLA_TYPE_MAX \<and> (pol_type pt = NLA_FLAG \<longrightarrow> d = [])
     \<and> unat (policy_minlen pt) \<le> length d \<and> (pol_maxlen pt = 0 \<or> length d \<le> unat (pol_maxlen pt))
     \<and> (pol_type pt = NLA_STRING \<longrightarrow> d \<noteq> [] \<and> last d = 0)"

definition policy_ok :: "nat \<Rightarrow> (nat \<Rightarrow> nla_policy) option \<Rightarrow> u16 \<times> bytes \<Rightarrow> bool" where
  "policy_ok m policy = (\<lambda>(t, d). case policy of None \<Rightarrow> True | Some p \<Rightarrow> t \<noteq> 0 \<and> unat t \<le> m \<longrightarrow> accepts (p (unat t)) d)"

lemma validate_nla_enc:
  assumes ok: "attr_ok (t, d)" and acc: "accepts (policy (unat t)) d"
  shows "validate_nla (p @ enc_attr (t, d) @ q) (length p) maxtype policy = Some 0"
proof -
  let ?b = "p @ enc_attr (t, d) @ q"
  let ?pt = "policy (unat t)"
  define len :: i32 where "len = word_of_nat (length d)"
  have len: "length d < 65532" using ok by (simp add: attr_ok_def)
  have ul: "unat len = length d" unfolding len_def using len by (subst unat_of_nat) simp
  have sl: "sint len = int (length d)" using sint_nonneg_u32 [of len] ul len by simp
  have "ld8 ?b (nla_data (length p) + unat (len - 1)) = Some (last d)" if ne: "d \<noteq> []"
  proof -
    have "unat (len - 1) = length d - 1"
      using that ul len by (simp add: unat_minus_one [of len] flip: unat_0_iff)
    moreover obtain k where "length d = Suc k" using ne by (cases d) auto
    ultimately show ?thesis
      using that by (simp add: ld8_def enc_attr_def nla_data_def nth_append last_conv_nth)
  qed
  then have str: "pol_type ?pt = NLA_STRING \<Longrightarrow> ld8 ?b (nla_data (length p) + unat (len - 1)) = Some 0"
    using acc by (simp add: accepts_def)
  have ut: "unat (ucast t :: i32) = unat t" by simp
  have fl: "\<not> (pol_type ?pt = NLA_FLAG \<and> 0 < sint len)" and ty: "\<not> NLA_TYPE_MAX < pol_type ?pt"
    and min: "\<not> sint len < int (unat (policy_minlen ?pt))"
    and max: "\<not> (pol_maxlen ?pt \<noteq> 0 \<and> int (unat (pol_maxlen ?pt)) < sint len)"
    using acc by (auto simp: accepts_def sl simp del: of_nat_unat)
  show ?thesis
    unfolding validate_nla_def policy_minlen_def [symmetric] Let_def enc_attr_fields(2,3) [OF ok] len_def [symmetric]
    by (simp only: bind.bind_lunit ut fl ty min max if_False str) (simp add: str)
qed

lemma nla_parse_enc:
  assumes "b = p @ enc_attrs as @ q" and "length b < 2 ^ 30" and "list_all attr_ok as"
    and m: "m < 2 ^ 31" and pol: "list_all (policy_ok m policy) as"
  shows "nla_parse b (word_of_nat m) (length p) (word_of_nat (length (enc_attrs as))) policy
       = Some (0, attr_index m (length p) as Map.empty)"
proof -
  define maxtype :: i32 where "maxtype = word_of_nat m"
  let ?body = "nla_parse_attr b maxtype policy"
  have um: "unat maxtype = m" unfolding maxtype_def using m by (subst unat_of_nat) simp
  then have sm: "sint maxtype = int m" using m by (simp add: sint_nonneg_u32 del: of_nat_unat)
  have "each_attr ?body (length p) as tb = Some (Inr (attr_index m (length p) as tb, 0))" for tb
    using assms(1,3) pol
  proof (induction as arbitrary: p tb)
    case (Cons a as)
    obtain t d where a: "a = (t, d)" by force
    have ok: "attr_ok (t, d)" using Cons.prems(2) by (simp add: a)
    have bp: "b = p @ enc_attr (t, d) @ enc_attrs as @ q" using Cons.prems(1) by (simp add: a)
    have ty: "nla_type b (length p) = Some (ucast t)"
      using enc_attr_fields(2) [OF ok] bp by simp
    have val: "(case policy of None \<Rightarrow> Some 0 | Some po \<Rightarrow> validate_nla b (length p) maxtype po) = Some 0"
      if "t \<noteq> 0" "unat t \<le> m"
      using that Cons.prems(3) validate_nla_enc [OF ok, of _ p "enc_attrs as @ q" maxtype] bp
      by (cases policy) (auto simp: a policy_ok_def)
    have st: "sint (ucast t :: i32) = int (unat t)"
      using sint_nonneg_u32 [of "ucast t"] unat_u16_less [of t] by simp
    have tz: "(ucast t :: i32) = 0 \<longleftrightarrow> t = 0"
      by (simp add: word_unat_eq_iff)
    have "?body (length p) tb
        = Some (Inr (if t \<noteq> 0 \<and> unat t \<le> m then tb(unat t \<mapsto> length p) else tb))"
      using ty sm st tz val by (simp add: nla_parse_attr_def del: of_nat_unat)
    moreover have "each_attr ?body (length (p @ enc_attr a)) as tb'
        = Some (Inr (attr_index m (length (p @ enc_attr a)) as tb', 0))" for tb'
      using Cons.IH [of "p @ enc_attr a" tb'] Cons.prems by simp
    ultimately show ?case by (simp add: a)
  qed simp
  then show ?thesis
    using nla_for_each_attr_enc [OF assms(1-3), of ?body Map.empty]
    unfolding nla_parse_def maxtype_def by simp
qed

text \<open>What a table entry stands for: the payload behind the offset.\<close>

definition attr_payload :: "bytes \<Rightarrow> nat \<Rightarrow> bytes option" where
  "attr_payload b nla = do { len \<leftarrow> nla_len b nla; ld_bytes b (nla_data nla) (unat len) }"

lemma attr_index_payload:
  assumes "b = p @ enc_attrs as @ q" and "list_all attr_ok as" and "t \<noteq> 0" and "unat t \<le> m"
  shows "Option.bind (attr_index m (length p) as tb (unat t)) (attr_payload b)
       = (case map_of (rev as) t of
            Some d \<Rightarrow> Some d
          | None \<Rightarrow> Option.bind (tb (unat t)) (attr_payload b))"
  using assms
proof (induction as arbitrary: p tb)
  case (Cons a as)
  obtain t' d where a: "a = (t', d)" by force
  have d: "unat (word_of_nat (length d) :: i32) = length d"
    using Cons.prems by (simp add: a attr_ok_def unat_of_nat)
  have "attr_payload b (length p) = Some d"
    using enc_attr_fields(3,4) [of t' d p "enc_attrs as @ q"] Cons.prems d
    by (simp add: a attr_payload_def)
  moreover have "unat t = unat t' \<longleftrightarrow> t = t'" by (simp add: word_unat_eq_iff)
  ultimately show ?case
    using Cons.IH [of "p @ enc_attr a"] Cons.prems
    by (auto simp: a map_of_append map_add_def split: option.splits)
qed simp

lemma attr_index_absent:
  "t \<notin> unat ` fst ` set as \<Longrightarrow> attr_index m pos as tb t = tb t"
  by (induction as arbitrary: pos tb) auto

text \<open>Where the payload of a table entry is, and what it says as a number or a string.\<close>

lemma attr_payload_split:
  assumes "attr_payload b nla = Some d" and "d \<noteq> []"
  obtains p q where "b = p @ d @ q" "length p = nla_data nla" "nla_len b nla = Some (word_of_nat (length d))"
proof -
  obtain len where len: "nla_len b nla = Some len" "ld_bytes b (nla_data nla) (unat len) = Some d"
    using assms(1) by (auto simp: attr_payload_def bind_eq_Some_conv)
  then have d: "d = take (unat len) (drop (nla_data nla) b)" "nla_data nla + unat len \<le> length b"
    using assms(2) by (auto simp: ld_bytes_def take_exact_def split: if_splits)
  then have "b = take (nla_data nla) b @ d @ drop (unat len) (drop (nla_data nla) b)"
    by (metis append_take_drop_id)
  moreover have "length (take (nla_data nla) b) = nla_data nla" "len = word_of_nat (length d)"
    using d by simp_all
  ultimately show thesis using that len(1) by metis
qed

lemma attr_payload_u32:
  assumes "attr_payload b nla = Some (le32 v)"
  shows "nla_get_u32 b nla = Some v"
proof -
  obtain p q where "b = p @ le32 v @ q" "length p = nla_data nla"
    using attr_payload_split [OF assms] by (metis length_le32 list.size(3) zero_neq_numeral)
  then show ?thesis using ld32_app [of p v q] by (simp add: nla_get_u32_def)
qed

lemma attr_payload_u16:
  assumes "attr_payload b nla = Some (le16 v)"
  shows "nla_get_u16 b nla = Some v"
proof -
  obtain p q where "b = p @ le16 v @ q" "length p = nla_data nla"
    using attr_payload_split [OF assms] by (metis length_le16 list.size(3) zero_neq_numeral)
  then show ?thesis using ld16_app [of p v q] by (simp add: nla_get_u16_def)
qed

lemma c_str_at_payload:
  assumes "attr_payload b nla = Some (s @ 0 # rest)" and "0 \<notin> set s"
  shows "c_str_at b (nla_data nla) = Some s"
proof -
  obtain p q where b: "b = p @ (s @ 0 # rest) @ q" "length p = nla_data nla"
    using attr_payload_split [OF assms(1)] by (metis append_is_Nil_conv list.discI)
  moreover have "takeWhile (\<lambda>c. c \<noteq> 0) (s @ 0 # r) = s" for r
    using assms(2) by (subst takeWhile_append2) auto
  ultimately show ?thesis by (simp add: c_str_at_def flip: b(2))
qed

text \<open>A sequence of puts.\<close>

primrec nla_puts :: "nl_msg \<Rightarrow> (u16 \<times> bytes) list \<Rightarrow> (i32 \<times> nl_msg) option" where
  "nla_puts msg [] = Some (0, msg)"
| "nla_puts msg (a # as) = do {
     (err, msg) \<leftarrow> nla_put msg (ucast (fst a)) (word_of_nat (length (snd a))) (snd a);
     if is_neg err then Some (err, msg) else nla_puts msg as
   }"

lemma nla_puts_fits:
  assumes "nm_nlh msg = msg_at (4 + length w) (w @ z)" and "4 dvd length w"
    and "length (nm_nlh msg) = unat (nm_size msg)" and "unat (nm_size msg) < 2 ^ 30"
    and "list_all attr_ok as" and "2 * (4 + length w + length (enc_attrs as)) \<le> unat (nm_size msg)"
  shows "nla_puts msg as = Some (0, msg\<lparr>nm_nlh :=
           msg_at (4 + length w + length (enc_attrs as)) (w @ enc_attrs as @ drop (length (enc_attrs as)) z)\<rparr>)"
  using assms
proof (induction as arbitrary: msg w z)
  case (Cons a as)
  obtain t d where a: "a = (t, d)" by force
  let ?k = "4 + align4 (length d)"
  define msg1 where "msg1 = msg\<lparr>nm_nlh := msg_at (4 + length (w @ enc_attr a)) ((w @ enc_attr a) @ drop ?k z)\<rparr>"
  have room: "2 * (8 + length w + align4 (length d) + length (enc_attrs as)) \<le> unat (nm_size msg)"
    using Cons.prems(6) by (simp add: a)
  have k: "?k \<le> length z" using Cons.prems(1,3) room by simp
  have d: "unat (word_of_nat (length d) :: i32) = length d" "length d < 65532"
    using Cons.prems(5) by (simp_all add: a attr_ok_def unat_of_nat)
  have put: "nla_put msg (ucast t) (word_of_nat (length d)) d = Some (0, msg1)"
  proof -
    have "nla_put msg (ucast t) (word_of_nat (length d)) d = Some (0, msg\<lparr>nm_nlh :=
        msg_at (8 + length w + align4 (length d)) (w @ enc_attr (ucast (ucast t :: i32), d) @ drop ?k z)\<rparr>)"
      by (rule nla_put_fits [where N = "4 + length w" and x = "take ?k z"])
        (use Cons.prems k d room in \<open>simp_all add: attr_room_def align4_id a min_def\<close>)
    then show ?thesis by (simp add: msg1_def a add.assoc)
  qed
  have "nla_puts msg1 as = Some (0, msg1\<lparr>nm_nlh := msg_at (4 + length (w @ enc_attr a) + length (enc_attrs as))
      ((w @ enc_attr a) @ enc_attrs as @ drop (length (enc_attrs as)) (drop ?k z))\<rparr>)"
    by (rule Cons.IH) (use Cons.prems k room in \<open>simp_all add: msg1_def a\<close>)
  with put show ?case by (simp add: msg1_def a ac_simps)
qed simp

section \<open>Safety of the parsers\<close>

text \<open>An attribute that lies between two offsets of the buffer.\<close>

definition attr_in :: "bytes \<Rightarrow> nat \<Rightarrow> nat \<Rightarrow> nat \<Rightarrow> bool" where
  "attr_in b lo hi nla \<longleftrightarrow> lo \<le> nla \<and> hi \<le> length b \<and>
     (\<exists>l. ld16 b nla = Some l \<and> 4 \<le> unat l \<and> nla + unat l \<le> hi)"

text \<open>
  A rule for the loop on arbitrary bytes: if its length is a multiple of four the stream is
  never left, whatever lengths the attributes claim.
\<close>

lemma nla_for_each_attr_safe:
  assumes body: "\<And>nla s. attr_in b lo hi nla \<Longrightarrow> P s \<Longrightarrow>
      \<exists>r. body nla s = Some r \<and> (case r of Inl x \<Rightarrow> Q x | Inr s \<Rightarrow> P s)"
    and "pos + unat rem = hi" and "lo \<le> pos" and "hi \<le> length b" and "4 dvd unat rem"
    and "unat rem < 2 ^ 31" and "P s"
  shows "\<exists>r. nla_for_each_attr b body pos rem s = Some r \<and> (case r of Inl x \<Rightarrow> Q x | Inr (s, _) \<Rightarrow> P s)"
  using assms(2-)
proof (induction "unat rem" arbitrary: pos rem s rule: less_induct)
  case less
  have s: "sint rem = int (unat rem)"
    using sint_nonneg_u32 [of rem] less.prems(5) by simp
  have r64: "unat (scast rem :: u64) = unat rem"
    using unat_scast_u64 [of rem] less.prems(5) by simp
  show ?case
  proof (cases "unat rem = 0")
    case True
    then show ?thesis
      using less.prems r64 by (subst nla_for_each_attr.simps) (simp add: nla_ok_def word_le_nat_alt)
  next
    case False
    then have four: "4 \<le> unat rem" using less.prems(4) by (auto elim: dvdE)
    then obtain l where l: "ld16 b pos = Some l"
      using less.prems by (simp add: ld16_def)
    show ?thesis
    proof (cases "4 \<le> unat l \<and> unat l \<le> unat rem")
      case False
      then have "nla_ok b pos rem = Some False"
        using l s r64 four by (simp add: nla_ok_def word_le_nat_alt del: of_nat_unat)
      then show ?thesis
        using less.prems by (subst nla_for_each_attr.simps) simp
    next
      case True
      then have ok: "nla_ok b pos rem = Some True"
        using l s r64 four by (simp add: nla_ok_def word_le_nat_alt del: of_nat_unat)
      then obtain rem' where nxt: "nla_next b pos rem = Some (pos + align4 (unat l), rem')"
        and r': "sint rem' = sint rem - int (align4 (unat l))"
        using l by (elim nla_step) auto
      have al: "align4 (unat l) \<le> unat rem" "unat l \<le> align4 (unat l)"
        using True less.prems(4) unfolding align4_def by (auto elim!: dvdE)
      then have "0 \<le> sint rem'" using r' s by linarith
      then have u': "unat rem' = unat rem - align4 (unat l)"
        using unat_of_sint [of rem'] r' s al by linarith
      have "attr_in b lo hi pos"
        using l True less.prems by (simp add: attr_in_def)
      with body less.prems obtain r where r: "body pos s = Some r"
        and post: "case r of Inl x \<Rightarrow> Q x | Inr s \<Rightarrow> P s" by blast
      have IH: "\<exists>r. nla_for_each_attr b body (pos + align4 (unat l)) rem' s' = Some r
          \<and> (case r of Inl x \<Rightarrow> Q x | Inr (s, _) \<Rightarrow> P s)" if "P s'" for s'
        by (rule less.hyps) (use less.prems u' al True that in \<open>auto intro: dvd_diff_nat\<close>)
      show ?thesis
        using post IH by (subst nla_for_each_attr.simps, cases r) (simp_all add: ok nxt r)
    qed
  qed
qed

lemma validate_nla_safe:
  assumes "attr_in b lo hi nla" and "\<And>i. pol_type (policy i) \<le> NLA_TYPE_MAX"
  shows "\<exists>err. validate_nla b nla maxtype policy = Some err"
proof -
  obtain l where l: "ld16 b nla = Some l" "4 \<le> unat l" "nla + unat l \<le> length b"
    using assms(1) by (auto simp: attr_in_def)
  then obtain ty where ty: "nla_type b nla = Some ty"
    by (auto simp: nla_type_def ld16_def)
  define len where "len = (ucast l :: i32) - 4"
  have ulen: "unat len = unat l - 4"
    using l(2) by (simp add: len_def unat_sub word_le_nat_alt)
  have slen: "sint len = int (unat len)"
    using ulen unat_u16_less [of l] by (intro sint_nonneg_u32) simp
  have nl: "nla_len b nla = Some len"
    using l(1) by (simp add: nla_len_def len_def)
  have str: "\<exists>c. ld8 b (nla_data nla + unat (len - 1)) = Some c" if "1 \<le> sint len"
  proof -
    have "1 \<le> unat len" using that slen by linarith
    then have "unat (len - 1) = unat len - 1"
      by (simp add: unat_sub word_le_nat_alt)
    then show ?thesis
      using l \<open>1 \<le> unat len\<close> ulen by (simp add: ld8_def nla_data_def)
  qed
  let ?pt = "policy (unat ty)"
  have m: "1 \<le> sint len" if "pol_type ?pt = NLA_STRING"
    and "\<not> sint len < int (unat (if pol_minlen ?pt \<noteq> 0 then pol_minlen ?pt
           else if pol_type ?pt \<noteq> NLA_UNSPEC then nla_attr_minlen (pol_type ?pt) else 0))"
  proof -
    have "pol_minlen ?pt \<noteq> 0 \<Longrightarrow> 1 \<le> unat (pol_minlen ?pt)"
      by (metis less_one linorder_not_less unat_eq_zero)
    then show ?thesis
      using that by (auto simp: nla_attr_minlen_def nla_type_defs simp del: of_nat_unat split: if_splits)
  qed
  show ?thesis
    using assms(2) [of "unat ty"] str m
    by (auto simp: validate_nla_def ty nl Let_def not_less split: if_splits)
qed

text \<open>
  Claim C14.  On a stream of any bytes whose length is a multiple of four and that lies in the
  buffer, the parser returns, without reading outside the stream, and every entry of the
  table it fills is an attribute with header and payload inside the stream.
\<close>

theorem nla_parse_safe:
  assumes "head + unat len \<le> length b" and "4 dvd unat len" and "unat len < 2 ^ 31"
    and "\<And>p i. policy = Some p \<Longrightarrow> pol_type (p i) \<le> NLA_TYPE_MAX"
  shows "\<exists>err tb. nla_parse b maxtype head len policy = Some (err, tb)
           \<and> (\<forall>nla \<in> ran tb. attr_in b head (head + unat len) nla)"
proof -
  let ?P = "\<lambda>tb. \<forall>nla \<in> ran tb. attr_in b head (head + unat len) nla"
  have upd: "?P (tb(k \<mapsto> nla))" if "?P tb" and "attr_in b head (head + unat len) nla" for tb k nla
    using that by (auto simp: ran_def)
  have ty: "\<exists>t. nla_type b nla = Some t" if "attr_in b head (head + unat len) nla" for nla
    using that by (auto simp: attr_in_def nla_type_def ld16_def)
  have val: "\<exists>err. (case policy of None \<Rightarrow> Some 0 | Some p \<Rightarrow> validate_nla b nla maxtype p) = Some err"
    if "attr_in b head (head + unat len) nla" for nla
    using that assms(4) by (cases policy) (auto intro: validate_nla_safe)
  have body: "\<exists>r. nla_parse_attr b maxtype policy nla tb = Some r
      \<and> (case r of Inl (err, tb) \<Rightarrow> ?P tb | Inr tb \<Rightarrow> ?P tb)"
    if "attr_in b head (head + unat len) nla" and "?P tb" for nla tb
    using ty [OF that(1)] val [OF that(1)] upd [OF that(2,1)] that(2)
    by (auto simp: nla_parse_attr_def)
  have "\<exists>r. nla_for_each_attr b (nla_parse_attr b maxtype policy) head len Map.empty = Some r
      \<and> (case r of Inl x \<Rightarrow> (case x of (err, tb) \<Rightarrow> ?P tb) | Inr (tb, _) \<Rightarrow> ?P tb)"
    by (rule nla_for_each_attr_safe [where lo = head and hi = "head + unat len"])
      (use body assms in auto)
  then obtain r where "nla_for_each_attr b (nla_parse_attr b maxtype policy) head len Map.empty = Some r"
    and "case r of Inl x \<Rightarrow> (case x of (err, tb) \<Rightarrow> ?P tb) | Inr (tb, _) \<Rightarrow> ?P tb" by blast
  then show ?thesis
    by (cases r) (auto simp: nla_parse_def)
qed

section \<open>Building keeps messages well-formed\<close>

lemma nlmsg_reserve_wf:
  assumes wf: "wf_msg n" and len: "unat len < 2 ^ 30" and pad: "pad = 4 \<or> pad = 0"
  shows "\<exists>r n'. nlmsg_reserve n len pad = Some (r, n') \<and> wf_msg n' \<and> nm_size n' = nm_size n
           \<and> (\<forall>off. r = Some off \<longrightarrow> 16 \<le> off \<and> off + unat len \<le> length (nm_nlh n'))"
proof -
  obtain w z where b: "nm_nlh n = msg_at (4 + length w) (w @ z)" and w: "12 \<le> length w"
    and sz: "length (nm_nlh n) = unat (nm_size n)" "unat (nm_size n) < 2 ^ 30"
    using wf by (rule wf_msgE)
  define k where "k = (if pad = 0 then unat len else align4 (unat len))"
  have ge: "unat len \<le> k" using align4_ge by (simp add: k_def)
  show ?thesis
  proof (cases "4 + length w + k \<le> unat (nm_size n)")
    case True
    then have z: "k \<le> length z" using b sz by simp
    define x where "x = take (unat len) z"
    define y where "y = take (k - unat len) (drop (unat len) z)"
    have zz: "z = x @ y @ drop k z"
      using ge append_take_drop_id [of "k - unat len" "drop (unat len) z"] by (simp add: x_def y_def)
    have l: "length x = unat len" "length y = k - unat len"
      using z ge by (simp_all add: x_def y_def)
    have "nlmsg_reserve n len pad = Some (Some (4 + length w),
        n\<lparr>nm_nlh := msg_at (4 + length w + length x + length y) (w @ x @ replicate (length y) 0 @ drop k z)\<rparr>)"
      by (rule nlmsg_reserve_fits [OF _ sz l(1)]) (use b zz l pad in \<open>auto simp: k_def\<close>)
    moreover have "wf_msg (n\<lparr>nm_nlh := msg_at (4 + length w + length x + length y)
        (w @ x @ replicate (length y) 0 @ drop k z)\<rparr>)"
      by (rule wf_msgI) (use b sz w z l ge in auto)
    ultimately show ?thesis using l w by auto
  next
    case False
    then have "nlmsg_reserve n len pad = Some (None, n)"
      by (intro nlmsg_reserve_full [OF b, where t = k]) (use sz b len pad in \<open>auto simp: k_def\<close>)
    then show ?thesis using wf by simp
  qed
qed

lemma wf_msg_split:
  assumes "wf_msg n" and "k \<le> unat (nm_size n)" and "4 \<le> k"
  obtains N w z where "nm_nlh n = msg_at N (w @ z)" "length w = k - 4" "16 \<le> N" "N \<le> unat (nm_size n)"
    "length (nm_nlh n) = unat (nm_size n)" "unat (nm_size n) < 2 ^ 30"
proof (rule wf_msgE [OF assms(1)])
  fix w z
  assume b: "nm_nlh n = msg_at (4 + length w) (w @ z)" "12 \<le> length w"
    "length (nm_nlh n) = unat (nm_size n)" "unat (nm_size n) < 2 ^ 30"
  have 1: "nm_nlh n = msg_at (4 + length w) (take (k - 4) (w @ z) @ drop (k - 4) (w @ z))"
    using b(1) by (simp only: append_take_drop_id)
  have 2: "length (take (k - 4) (w @ z)) = k - 4"
    using b assms by (auto simp: min_def)
  show thesis
    by (rule that [OF 1 2]) (use b in simp_all)
qed

text \<open>An attribute that is accepted stands at the aligned end of the message.\<close>

lemma nla_put_room:
  assumes wf: "wf_msg n" and len: "unat len < 65532" "length d = unat len"
    and N: "N = unat (of_le32 (nm_nlh n))" and fits: "attr_room n N (unat len)"
  obtains w z where "4 + length w = align4 N"
    "nla_put n t len d = Some (0, n\<lparr>nm_nlh :=
       msg_at (8 + length w + align4 (length d)) (w @ enc_attr (ucast t, d) @ z)\<rparr>)"
    "wf_msg (n\<lparr>nm_nlh := msg_at (8 + length w + align4 (length d)) (w @ enc_attr (ucast t, d) @ z)\<rparr>)"
proof -
  have N16: "16 \<le> N" "N \<le> unat (nm_size n)" using wf N by (simp_all add: wf_msg_def)
  have al: "N \<le> align4 N" by (rule align4_ge)
  have room: "N + (align4 N + 4 + align4 (unat len)) \<le> unat (nm_size n)"
    using fits by (simp add: attr_room_def)
  obtain N' w z where b: "nm_nlh n = msg_at N' (w @ z)" "length w = align4 N - 4"
    and sz: "length (nm_nlh n) = unat (nm_size n)" "unat (nm_size n) < 2 ^ 30" and N': "N' \<le> unat (nm_size n)"
    by (rule wf_msg_split [OF wf, of "align4 N"]) (use room N16 al in auto)
  have "N' = N" using N N' b(1) sz by (simp add: msg_at_def unat_of_nat)
  let ?k = "4 + align4 (unat len)"
  have z: "?k \<le> length z" using b sz room N16 al by simp
  have "nla_put n t len d = Some (0, n\<lparr>nm_nlh :=
      msg_at (8 + length w + align4 (length d)) (w @ enc_attr (ucast t, d) @ drop ?k z)\<rparr>)"
    by (rule nla_put_fits [where N = N and x = "take ?k z"])
      (use b sz len z fits N16 al \<open>N' = N\<close> in \<open>auto simp: min_def\<close>)
  moreover have "wf_msg (n\<lparr>nm_nlh :=
      msg_at (8 + length w + align4 (length d)) (w @ enc_attr (ucast t, d) @ drop ?k z)\<rparr>)"
    by (rule wf_msgI [where L = "8 + length w + align4 (length d)"
          and w = "w @ enc_attr (ucast t, d) @ drop ?k z"])
      (use b sz len z room N16 al in auto)
  moreover have "4 + length w = align4 N" using b N16 al by simp
  ultimately show thesis using that by blast
qed

lemma nla_put_wf:
  assumes wf: "wf_msg n" and len: "unat len < 65532" "length d = unat len"
    and N: "N = unat (of_le32 (nm_nlh n))"
  shows "\<exists>n'. nla_put n t len d = Some (if attr_room n N (unat len) then 0 else - NLE_NOMEM, n')
           \<and> wf_msg n' \<and> nm_size n' = nm_size n"
proof (cases "attr_room n N (unat len)")
  case True
  then show ?thesis
    by - (rule nla_put_room [OF wf len N True, of t], simp)
next
  case False
  obtain w z where b: "nm_nlh n = msg_at (4 + length w) (w @ z)"
    and sz: "length (nm_nlh n) = unat (nm_size n)" "unat (nm_size n) < 2 ^ 30"
    using wf by (rule wf_msgE)
  have small: "4 + length w < 2 ^ 30" using b sz by simp
  then have N': "4 + length w = N" using N b by (simp add: msg_at_def unat_of_nat del: of_nat_add)
  have "nla_put n t len d = Some (- NLE_NOMEM, n)"
    by (rule nla_put_full [of n N]) (use b small N' len False in auto)
  then show ?thesis using wf False by simp
qed

text \<open>
  Claim C16.  The functions that build messages keep them well-formed: on a well-formed
  message, reserving, appending and putting an attribute return, stay inside the buffer and
  leave a well-formed message of the same capacity.
\<close>

theorem building_keeps_wf:
  assumes "wf_msg n" and "unat len < 65532" and "length d = unat len" and "pad = 4 \<or> pad = 0"
  shows "(\<exists>r n'. nlmsg_reserve n (ucast len) pad = Some (r, n') \<and> wf_msg n' \<and> nm_size n' = nm_size n)
       \<and> (\<exists>r n'. nlmsg_append n d (ucast len) pad = Some (r, n') \<and> wf_msg n' \<and> nm_size n' = nm_size n)
       \<and> (\<exists>r n'. nla_put n t len d = Some (r, n') \<and> wf_msg n' \<and> nm_size n' = nm_size n)"
proof -
  have len: "unat (ucast len :: u64) < 2 ^ 30" using assms(2) by simp
  obtain r n' where res: "nlmsg_reserve n (ucast len) pad = Some (r, n')" "wf_msg n'" "nm_size n' = nm_size n"
    and off: "\<forall>off. r = Some off \<longrightarrow> 16 \<le> off \<and> off + unat len \<le> length (nm_nlh n')"
    using nlmsg_reserve_wf [OF assms(1) len assms(4)] by auto
  have "\<exists>r n'. nlmsg_append n d (ucast len) pad = Some (r, n') \<and> wf_msg n' \<and> nm_size n' = nm_size n"
  proof (cases r)
    case None
    then show ?thesis using res by (simp add: nlmsg_append_def)
  next
    case (Some o')
    then have o': "16 \<le> o'" "o' + length d \<le> length (nm_nlh n')" using off assms(3) by auto
    let ?b = "take o' (nm_nlh n') @ d @ drop (o' + length d) (nm_nlh n')"
    have "nlmsg_append n d (ucast len) pad = Some (0, n'\<lparr>nm_nlh := ?b\<rparr>)"
      using Some res o' assms(3) by (simp add: nlmsg_append_def take_exact_def blit_def)
    moreover have "of_le32 ?b = of_le32 (nm_nlh n')"
      using o' by (simp add: of_le32_def)
    then have "wf_msg (n'\<lparr>nm_nlh := ?b\<rparr>)"
      using res(2) o' by (simp add: wf_msg_def)
    ultimately show ?thesis using res(3) by simp
  qed
  with res nla_put_wf [OF assms(1-3) refl, of t] show ?thesis by blast
qed

text \<open>
  Claim C34.  When an attribute is accepted: the check adds the length of the message to the
  length it will have, so an attribute that would fit is refused with \<^verbatim>\<open>-NLE_NOMEM\<close> as soon
  as the message has used up more than what the attribute leaves of half its capacity.
\<close>

theorem nla_put_accepts_iff:
  assumes "wf_msg n" and "unat len < 65532" and "length d = unat len"
    and "N = unat (of_le32 (nm_nlh n))"
  shows "nla_put n t len d \<noteq> None
       \<and> (fst (the (nla_put n t len d)) = 0 \<longleftrightarrow> N + (align4 N + 4 + align4 (unat len)) \<le> unat (nm_size n))
       \<and> (fst (the (nla_put n t len d)) \<noteq> 0 \<longrightarrow> fst (the (nla_put n t len d)) = - NLE_NOMEM)"
  using nla_put_wf [OF assms, of t] by (auto simp: attr_room_def nle_defs split: if_splits)

end
