(* ===== verification/NL_Genl.thy ===== *)
theory NL_Genl
  imports NL_Attr
begin

text \<open>
  Generic netlink messages (\<^verbatim>\<open>libnl-3.0/lib/genl/genl.c\<close>): a netlink message whose payload
  starts with the four bytes of \<^verbatim>\<open>struct genlmsghdr\<close>, followed by a family header and the
  attributes.
\<close>

section \<open>Generic netlink messages\<close>

definition GENL_HDRLEN :: i32 where "GENL_HDRLEN = NLMSG_ALIGN 4"

lemma GENL_HDRLEN_4 [simp]: "GENL_HDRLEN = 4"
  by (simp add: GENL_HDRLEN_def NLMSG_ALIGN_def)

subsection \<open>Parsing\<close>

text \<open>\<open>g\<close> is the offset of the generic header.\<close>

definition genlmsg_data :: "nat \<Rightarrow> nat" where
  "genlmsg_data g = g + unat GENL_HDRLEN"

definition genlmsg_len :: "bytes \<Rightarrow> nat \<Rightarrow> i32 option" where
  "genlmsg_len b g = do {
     let nlh = g - unat NLMSG_HDRLEN;
     len \<leftarrow> ld32 b (nlh + NLH_LEN);
     Some (len - GENL_HDRLEN - NLMSG_HDRLEN)
   }"

definition genlmsg_attrdata :: "nat \<Rightarrow> i32 \<Rightarrow> nat" where
  "genlmsg_attrdata g hdrlen = genlmsg_data g + unat (NLMSG_ALIGN hdrlen)"

definition genlmsg_attrlen :: "bytes \<Rightarrow> nat \<Rightarrow> i32 \<Rightarrow> i32 option" where
  "genlmsg_attrlen b g hdrlen = do {
     len \<leftarrow> genlmsg_len b g;
     Some (len - NLMSG_ALIGN hdrlen)
   }"

text \<open>The comparison with the aligned header length is unsigned.\<close>

definition genlmsg_valid_hdr :: "bytes \<Rightarrow> nat \<Rightarrow> i32 \<Rightarrow> bool option" where
  "genlmsg_valid_hdr b nlh hdrlen = do {
     valid \<leftarrow> nlmsg_valid_hdr b nlh GENL_HDRLEN;
     if \<not> valid then Some False
     else do {
       let ghdr = nlmsg_data nlh;
       len \<leftarrow> genlmsg_len b ghdr;
       if len < NLMSG_ALIGN hdrlen then Some False else Some True
     }
   }"

definition genlmsg_validate ::
  "bytes \<Rightarrow> nat \<Rightarrow> i32 \<Rightarrow> i32 \<Rightarrow> (nat \<Rightarrow> nla_policy) \<Rightarrow> i32 option" where
  "genlmsg_validate b nlh hdrlen maxtype policy = do {
     valid \<leftarrow> genlmsg_valid_hdr b nlh hdrlen;
     if \<not> valid then Some (- NLE_MSG_TOOSHORT)
     else do {
       let ghdr = nlmsg_data nlh;
       len \<leftarrow> genlmsg_attrlen b ghdr hdrlen;
       nla_validate b (genlmsg_attrdata ghdr hdrlen) len maxtype policy
     }
   }"

text \<open>\<open>tb\<close> is the table before the call, left as it is when the message is too short.\<close>

definition genlmsg_parse ::
  "bytes \<Rightarrow> nat \<Rightarrow> i32 \<Rightarrow> attr_table \<Rightarrow> i32 \<Rightarrow> (nat \<Rightarrow> nla_policy) option \<Rightarrow> (i32 \<times> attr_table) option" where
  "genlmsg_parse b nlh hdrlen tb maxtype policy = do {
     valid \<leftarrow> genlmsg_valid_hdr b nlh hdrlen;
     if \<not> valid then Some (- NLE_MSG_TOOSHORT, tb)
     else do {
       let ghdr = nlmsg_data nlh;
       len \<leftarrow> genlmsg_attrlen b ghdr hdrlen;
       nla_parse b maxtype (genlmsg_attrdata ghdr hdrlen) len policy
     }
   }"

subsection \<open>Building\<close>

text \<open>\<^verbatim>\<open>struct genlmsghdr\<close>: command, version and two reserved bytes.\<close>

definition genlmsghdr :: "u8 \<Rightarrow> u8 \<Rightarrow> bytes" where
  "genlmsghdr cmd version = [cmd, version, 0, 0]"

definition genlmsg_put ::
  "nl_msg \<Rightarrow> u32 \<Rightarrow> u32 \<Rightarrow> i32 \<Rightarrow> i32 \<Rightarrow> i32 \<Rightarrow> u8 \<Rightarrow> u8 \<Rightarrow> (nat option \<times> nl_msg) option" where
  "genlmsg_put msg pid seq family hdrlen flags cmd version = do {
     (nlh, msg) \<leftarrow> nlmsg_put msg pid seq family (GENL_HDRLEN + hdrlen) flags;
     (case nlh of
        None \<Rightarrow> Some (None, msg)
      | Some nlh \<Rightarrow> do {
          b \<leftarrow> blit (nlmsg_data nlh) (genlmsghdr cmd version) (nm_nlh msg);
          Some (Some (nlmsg_data nlh + unat GENL_HDRLEN), msg\<lparr>nm_nlh := b\<rparr>)
        })
   }"

section \<open>A message and its attributes\<close>

text \<open>The bytes of a generic netlink message without family header.\<close>

definition genl_bytes :: "u16 \<Rightarrow> u16 \<Rightarrow> u32 \<Rightarrow> u32 \<Rightarrow> u8 \<Rightarrow> u8 \<Rightarrow> (u16 \<times> bytes) list \<Rightarrow> bytes" where
  "genl_bytes ty fl sq pid cmd ver as = msg_at (20 + length (enc_attrs as))
     (nlh_fields ty fl sq pid @ genlmsghdr cmd ver @ enc_attrs as)"

lemma length_genl_bytes [simp]:
  "length (genl_bytes ty fl sq pid cmd ver as) = 20 + length (enc_attrs as)"
  by (simp add: genl_bytes_def genlmsghdr_def)

lemma genlmsg_put_fresh:
  assumes "20 \<le> unat sz" and "unat sz < 2 ^ 30"
  shows "genlmsg_put (fresh_msg sz) pid sq family 0 flags cmd ver = Some (Some 20, (fresh_msg sz)\<lparr>nm_nlh :=
           msg_at 20 (nlh_fields (ucast family) (ucast flags) sq pid @ genlmsghdr cmd ver
             @ replicate (unat sz - 20) 0)\<rparr>)"
proof -
  have "replicate (unat sz - 4) (0 :: u8) = replicate 12 0 @ replicate 4 0 @ replicate (unat sz - 20) 0"
    using assms by (simp flip: replicate_add)
  then have buf: "nm_nlh (fresh_msg sz) = msg_at 16 (replicate 12 0 @ replicate 4 0 @ replicate (unat sz - 20) 0)"
    by (simp add: fresh_msg_def)
  have "nlmsg_put (fresh_msg sz) pid sq family 4 flags = Some (Some 0, (fresh_msg sz)\<lparr>nm_nlh :=
      msg_at (16 + length (replicate 4 (0 :: u8))) (nlh_fields (ucast family) (ucast flags) sq pid
        @ replicate 4 0 @ replicate (unat sz - 20) 0)\<rparr>)"
    by (rule nlmsg_put_fits [OF buf]) (use assms in \<open>simp_all add: fresh_msg_def\<close>)
  then have "nlmsg_put (fresh_msg sz) pid sq family 4 flags = Some (Some 0, (fresh_msg sz)\<lparr>nm_nlh :=
      msg_at 20 (nlh_fields (ucast family) (ucast flags) sq pid @ replicate 4 0 @ replicate (unat sz - 20) 0)\<rparr>)"
    by simp
  then show ?thesis
    using blit_msg_at [of 16 "nlh_fields (ucast family) (ucast flags) sq pid" "genlmsghdr cmd ver" "replicate 4 0"]
    by (simp add: genlmsg_put_def nlmsg_data_def genlmsghdr_def)
qed

lemma genl_message_built:
  assumes "list_all attr_ok as" and "2 * (20 + length (enc_attrs as)) \<le> unat sz" and "unat sz < 2 ^ 30"
  shows "do { (_, msg) \<leftarrow> genlmsg_put (fresh_msg sz) pid sq family 0 flags cmd ver; nla_puts msg as }
       = Some (0, (fresh_msg sz)\<lparr>nm_nlh := genl_bytes (ucast family) (ucast flags) sq pid cmd ver as
           @ replicate (unat sz - 20 - length (enc_attrs as)) 0\<rparr>)"
proof -
  let ?w = "nlh_fields (ucast family) (ucast flags) sq pid @ genlmsghdr cmd ver"
  let ?m = "(fresh_msg sz)\<lparr>nm_nlh := msg_at 20 (?w @ replicate (unat sz - 20) 0)\<rparr>"
  have "nla_puts ?m as = Some (0, ?m\<lparr>nm_nlh := msg_at (4 + length ?w + length (enc_attrs as))
      (?w @ enc_attrs as @ drop (length (enc_attrs as)) (replicate (unat sz - 20) 0))\<rparr>)"
    by (rule nla_puts_fits) (use assms in \<open>simp_all add: genlmsghdr_def fresh_msg_def\<close>)
  then show ?thesis
    using genlmsg_put_fresh [of sz pid sq family flags cmd ver] assms
    by (simp add: genl_bytes_def msg_at_def genlmsghdr_def)
qed

lemma genl_bytes_fields:
  assumes b: "b = genl_bytes ty fl sq pid cmd ver as @ z" and small: "length b < 2 ^ 30"
  shows "ld32 b 0 = Some (word_of_nat (20 + length (enc_attrs as)))"
    and "ld16 b 4 = Some ty" and "ld16 b 6 = Some fl" and "ld32 b 8 = Some sq" and "ld32 b 12 = Some pid"
    and "ld8 b 16 = Some cmd"
  using assms
  by (simp_all add: genl_bytes_def msg_at_def nlh_fields_def genlmsghdr_def ld8_def ld16_def ld32_def
      nth_append del: of_nat_add)

lemma genlmsg_parse_bytes:
  assumes b: "b = genl_bytes ty fl sq pid cmd ver as @ z" and small: "length b < 2 ^ 30"
    and ok: "list_all attr_ok as" and m: "m < 2 ^ 31"
  shows "genlmsg_parse b 0 0 tb (word_of_nat m) None = Some (0, attr_index m 20 as Map.empty)"
proof -
  let ?p = "msg_at (20 + length (enc_attrs as)) (nlh_fields ty fl sq pid @ genlmsghdr cmd ver)"
  define L :: u32 where "L = word_of_nat (20 + length (enc_attrs as))"
  have uL: "unat L = 20 + length (enc_attrs as)"
    unfolding L_def using b small by (subst unat_of_nat) simp
  have ld: "ld32 b 0 = Some L"
    using genl_bytes_fields(1) [OF b small] by (simp add: L_def)
  have al: "NLMSG_ALIGN 0 = 0" by (simp add: NLMSG_ALIGN_def)
  have valid: "genlmsg_valid_hdr b 0 0 = Some True"
    using ld uL by (simp add: genlmsg_valid_hdr_def nlmsg_valid_hdr_def nlmsg_msg_size_def nlmsg_size_def
        genlmsg_len_def nlmsg_data_def al word_less_nat_alt)
  have len: "genlmsg_attrlen b 16 0 = Some (word_of_nat (length (enc_attrs as)))"
    using ld by (simp add: genlmsg_attrlen_def genlmsg_len_def al L_def)
  have bp: "b = ?p @ enc_attrs as @ z" using b by (simp add: genl_bytes_def msg_at_def)
  have "nla_parse b (word_of_nat m) (length ?p) (word_of_nat (length (enc_attrs as))) None
      = Some (0, attr_index m (length ?p) as Map.empty)"
    by (rule nla_parse_enc [OF bp small ok m]) (simp add: policy_ok_def list_all_iff)
  then show ?thesis
    using valid len
    by (simp add: genlmsg_parse_def genlmsg_attrdata_def genlmsg_data_def nlmsg_data_def al genlmsghdr_def)
qed

lemma genl_attr_payload:
  assumes b: "b = genl_bytes ty fl sq pid cmd ver as @ z"
    and ok: "list_all attr_ok as" and t: "t \<noteq> 0" "unat t \<le> m"
  shows "Option.bind (attr_index m 20 as Map.empty (unat t)) (attr_payload b) = map_of (rev as) t"
proof -
  let ?p = "msg_at (20 + length (enc_attrs as)) (nlh_fields ty fl sq pid @ genlmsghdr cmd ver)"
  have "length ?p = 20" by (simp add: genlmsghdr_def)
  moreover have "b = ?p @ enc_attrs as @ z" using b by (simp add: genl_bytes_def msg_at_def)
  ultimately show ?thesis
    using attr_index_payload [of b ?p as z t m Map.empty] ok t by (simp split: option.splits)
qed

text \<open>
  Claim C15.  Building and parsing are inverse: a message made with \<open>genlmsg_put\<close> and any
  sequence of attribute puts parses without error, and for every type the payload found in
  the table is that of the last attribute put with this type, or nothing if there is none.
\<close>

theorem genl_build_parse:
  assumes "list_all attr_ok as" and "2 * (20 + length (enc_attrs as)) \<le> unat sz" and "unat sz < 2 ^ 30"
    and "m < 2 ^ 31"
  shows "\<exists>msg tb. do { (_, msg) \<leftarrow> genlmsg_put (fresh_msg sz) pid sq family 0 flags cmd ver; nla_puts msg as }
             = Some (0, msg)
           \<and> genlmsg_parse (nm_nlh msg) 0 0 tb\<^sub>0 (word_of_nat m) None = Some (0, tb)
           \<and> (\<forall>t. t \<noteq> 0 \<and> unat t \<le> m \<longrightarrow> Option.bind (tb (unat t)) (attr_payload (nm_nlh msg)) = map_of (rev as) t)"
proof -
  let ?b = "genl_bytes (ucast family) (ucast flags) sq pid cmd ver as
    @ replicate (unat sz - 20 - length (enc_attrs as)) 0"
  have "length ?b < 2 ^ 30" using assms by simp
  then show ?thesis
    using genl_message_built [OF assms(1-3), of pid sq family flags cmd ver]
      genlmsg_parse_bytes [OF refl, where z = "replicate (unat sz - 20 - length (enc_attrs as)) 0"]
      genl_attr_payload [OF refl assms(1)] assms
    by fastforce
qed

end
