(* ===== verification/NL_Socket.thy ===== *)
theory NL_Socket
  imports NL_Genl
begin

text \<open>
  Error codes, callback handles and sockets of the library (\<^verbatim>\<open>libnl-3.0/lib/error.c\<close>,
  \<^verbatim>\<open>handlers.c\<close>, \<^verbatim>\<open>socket.c\<close>) and the sending half of \<^verbatim>\<open>nl.c\<close>.  System calls are the
  functions of a record of type \<open>sys\<close> over a state of the kernel; an error carries its
  \<^verbatim>\<open>errno\<close>.  The overrides \<^verbatim>\<open>cb_send_ow\<close>, \<^verbatim>\<open>cb_recv_ow\<close> and \<^verbatim>\<open>cb_recvmsgs_ow\<close> are set by none
  of the programs here and are taken as \<^verbatim>\<open>NULL\<close>; what handlers print is left out.
\<close>

section \<open>Error codes\<close>

definition abs_i32 :: "i32 \<Rightarrow> i32" where
  "abs_i32 x = (if is_neg x then - x else x)"

definition errmsg :: "string list" where
  "errmsg = [''Success'', ''Unspecific failure'', ''Interrupted system call'', ''Bad socket'',
     ''Try again'', ''Out of memory'', ''Object exists'', ''Invalid input data or parameter'',
     ''Input data out of range'', ''Message size not sufficient'', ''Operation not supported'',
     ''Address family not supported'', ''Object not found'', ''Attribute not available'',
     ''Missing attribute'', ''Address family mismatch'', ''Message sequence number mismatch'',
     ''Kernel reported message overflow'', ''Kernel reported truncated message'',
     ''Invalid address for specified address family'', ''Source based routing not supported'',
     ''Netlink message is too short'', ''Netlink message type is not supported'',
     ''Object type does not match cache'', ''Unknown or invalid cache type'', ''Object busy'',
     ''Protocol mismatch'', ''No Access'', ''Operation not permitted'',
     ''Unable to open packet location file'', ''Unable to parse object'']"

definition NLE_MAX :: i32 where "NLE_MAX = 30"

definition nl_geterror :: "i32 \<Rightarrow> string option" where
  "nl_geterror error =
    (let error = abs_i32 error;
         error = (if sint error > sint NLE_MAX then NLE_FAILURE else error) in
     if is_neg error then None else Some (errmsg ! unat error))"

text \<open>
  The cases of the switch, by number: \<^verbatim>\<open>EBADF\<close> 9, \<^verbatim>\<open>EADDRINUSE\<close> 98, \<^verbatim>\<open>EEXIST\<close> 17, \<^verbatim>\<open>EADDRNOTAVAIL\<close>
  99, \<^verbatim>\<open>ENOENT\<close> 2, \<^verbatim>\<open>EINTR\<close> 4, \<^verbatim>\<open>EAGAIN\<close> 11, \<^verbatim>\<open>ENOTSOCK\<close> 88, \<^verbatim>\<open>ENOPROTOOPT\<close> 92, \<^verbatim>\<open>EFAULT\<close> 14, \<^verbatim>\<open>EACCES\<close>
  13, \<^verbatim>\<open>EINVAL\<close> 22, \<^verbatim>\<open>ENOBUFS\<close> 105, \<^verbatim>\<open>ENOMEM\<close> 12, \<^verbatim>\<open>EAFNOSUPPORT\<close> 97, \<^verbatim>\<open>EPROTONOSUPPORT\<close> 93,
  \<^verbatim>\<open>EOPNOTSUPP\<close> 95, \<^verbatim>\<open>EPERM\<close> 1, \<^verbatim>\<open>EBUSY\<close> 16, \<^verbatim>\<open>ERANGE\<close> 34.
\<close>

definition syserr_table :: "(i32 \<times> i32) list" where
  "syserr_table = [(9, NLE_BAD_SOCK), (98, NLE_EXIST), (17, NLE_EXIST), (99, NLE_NOADDR),
     (2, NLE_OBJ_NOTFOUND), (4, NLE_INTR), (11, NLE_AGAIN), (88, NLE_BAD_SOCK), (92, NLE_INVAL),
     (14, NLE_INVAL), (13, NLE_NOACCESS), (22, NLE_INVAL), (105, NLE_NOMEM), (12, NLE_NOMEM),
     (97, NLE_AF_NOSUPPORT), (93, NLE_PROTO_MISMATCH), (95, NLE_OPNOTSUPP), (1, NLE_PERM),
     (16, NLE_BUSY), (34, NLE_RANGE)]"

definition nl_syserr2nlerr :: "i32 \<Rightarrow> i32" where
  "nl_syserr2nlerr error =
     (case map_of syserr_table (abs_i32 error) of Some e \<Rightarrow> e | None \<Rightarrow> NLE_FAILURE)"

section \<open>Callbacks\<close>

definition NL_OK :: i32 where "NL_OK = 0"
definition NL_SKIP :: i32 where "NL_SKIP = 1"
definition NL_STOP :: i32 where "NL_STOP = 2"

lemmas nl_action_defs = NL_OK_def NL_SKIP_def NL_STOP_def

datatype nl_cb_kind = NL_CB_DEFAULT | NL_CB_VERBOSE | NL_CB_DEBUG | NL_CB_CUSTOM

datatype nl_cb_type = NL_CB_VALID | NL_CB_FINISH | NL_CB_OVERRUN | NL_CB_SKIPPED | NL_CB_ACK
  | NL_CB_MSG_IN | NL_CB_MSG_OUT | NL_CB_INVALID | NL_CB_SEQ_CHECK | NL_CB_SEND_ACK

text \<open>The types in the order of the enumeration, which is the order of the loops over them.\<close>

definition cb_types :: "nl_cb_type list" where
  "cb_types = [NL_CB_VALID, NL_CB_FINISH, NL_CB_OVERRUN, NL_CB_SKIPPED, NL_CB_ACK,
     NL_CB_MSG_IN, NL_CB_MSG_OUT, NL_CB_INVALID, NL_CB_SEQ_CHECK, NL_CB_SEND_ACK]"

lemma set_cb_types [simp]: "set cb_types = UNIV"
proof -
  have "x \<in> set cb_types" for x by (cases x) (simp_all add: cb_types_def)
  then show ?thesis by blast
qed

instantiation nl_cb_type :: enum
begin

definition enum_nl_cb_type :: "nl_cb_type list" where
  "enum_nl_cb_type = cb_types"

definition enum_all_nl_cb_type :: "(nl_cb_type \<Rightarrow> bool) \<Rightarrow> bool" where
  "enum_all_nl_cb_type P = list_all P cb_types"

definition enum_ex_nl_cb_type :: "(nl_cb_type \<Rightarrow> bool) \<Rightarrow> bool" where
  "enum_ex_nl_cb_type P = list_ex P cb_types"

instance
  by standard
    (simp_all add: enum_nl_cb_type_def enum_all_nl_cb_type_def enum_ex_nl_cb_type_def
      list_all_iff list_ex_iff, simp add: cb_types_def)

end

text \<open>
  A callback gets the message and its argument, an address in the memory \<open>'u\<close> of the
  program, and may change that memory.  \<^term>\<open>None\<close> is a fault in the callback.
\<close>

type_synonym 'u msg_cb = "nl_msg \<Rightarrow> addr \<Rightarrow> 'u \<Rightarrow> (i32 \<times> 'u) option"
type_synonym 'u err_cb = "sockaddr_nl \<Rightarrow> i32 \<Rightarrow> addr \<Rightarrow> 'u \<Rightarrow> (i32 \<times> 'u) option"

record 'u nl_cb =
  cb_set :: "nl_cb_type \<Rightarrow> 'u msg_cb option"
  cb_args :: "nl_cb_type \<Rightarrow> addr"
  cb_err :: "'u err_cb option"
  cb_err_arg :: addr
  cb_refcnt :: i32

subsection \<open>Predefined handlers\<close>

definition nl_valid_handler_verbose :: "'u msg_cb" where
  "nl_valid_handler_verbose msg arg u = Some (NL_OK, u)"

definition nl_invalid_handler_verbose :: "'u msg_cb" where
  "nl_invalid_handler_verbose msg arg u = Some (NL_STOP, u)"

definition nl_overrun_handler_verbose :: "'u msg_cb" where
  "nl_overrun_handler_verbose msg arg u = Some (NL_STOP, u)"

definition nl_error_handler_verbose :: "'u err_cb" where
  "nl_error_handler_verbose who e arg u = Some (- nl_syserr2nlerr e, u)"

definition nl_valid_handler_debug :: "'u msg_cb" where
  "nl_valid_handler_debug msg arg u = Some (NL_OK, u)"

definition nl_finish_handler_debug :: "'u msg_cb" where
  "nl_finish_handler_debug msg arg u = Some (NL_STOP, u)"

definition nl_msg_in_handler_debug :: "'u msg_cb" where
  "nl_msg_in_handler_debug msg arg u = Some (NL_OK, u)"

definition nl_msg_out_handler_debug :: "'u msg_cb" where
  "nl_msg_out_handler_debug msg arg u = Some (NL_OK, u)"

definition nl_skipped_handler_debug :: "'u msg_cb" where
  "nl_skipped_handler_debug msg arg u = Some (NL_SKIP, u)"

definition nl_ack_handler_debug :: "'u msg_cb" where
  "nl_ack_handler_debug msg arg u = Some (NL_STOP, u)"

fun cb_def :: "nl_cb_type \<Rightarrow> nl_cb_kind \<Rightarrow> 'u msg_cb option" where
  "cb_def NL_CB_VALID NL_CB_VERBOSE = Some nl_valid_handler_verbose"
| "cb_def NL_CB_VALID NL_CB_DEBUG = Some nl_valid_handler_debug"
| "cb_def NL_CB_FINISH NL_CB_DEBUG = Some nl_finish_handler_debug"
| "cb_def NL_CB_INVALID NL_CB_VERBOSE = Some nl_invalid_handler_verbose"
| "cb_def NL_CB_INVALID NL_CB_DEBUG = Some nl_invalid_handler_verbose"
| "cb_def NL_CB_MSG_IN NL_CB_DEBUG = Some nl_msg_in_handler_debug"
| "cb_def NL_CB_MSG_OUT NL_CB_DEBUG = Some nl_msg_out_handler_debug"
| "cb_def NL_CB_OVERRUN NL_CB_VERBOSE = Some nl_overrun_handler_verbose"
| "cb_def NL_CB_OVERRUN NL_CB_DEBUG = Some nl_overrun_handler_verbose"
| "cb_def NL_CB_SKIPPED NL_CB_DEBUG = Some nl_skipped_handler_debug"
| "cb_def NL_CB_ACK NL_CB_DEBUG = Some nl_ack_handler_debug"
| "cb_def _ _ = None"

fun cb_err_def :: "nl_cb_kind \<Rightarrow> 'u err_cb option" where
  "cb_err_def NL_CB_VERBOSE = Some nl_error_handler_verbose"
| "cb_err_def NL_CB_DEBUG = Some nl_error_handler_verbose"
| "cb_err_def _ = None"

subsection \<open>Callback handles\<close>

text \<open>The range checks on type and kind cannot fail for members of the enumerations.\<close>

definition nl_cb_set ::
  "'u nl_cb \<Rightarrow> nl_cb_type \<Rightarrow> nl_cb_kind \<Rightarrow> 'u msg_cb option \<Rightarrow> addr \<Rightarrow> i32 \<times> 'u nl_cb" where
  "nl_cb_set cb type kind func arg =
     (0, cb\<lparr>cb_set := (cb_set cb)(type := (if kind = NL_CB_CUSTOM then func else cb_def type kind)),
            cb_args := (cb_args cb)(type := arg)\<rparr>)"

definition nl_cb_set_all ::
  "'u nl_cb \<Rightarrow> nl_cb_kind \<Rightarrow> 'u msg_cb option \<Rightarrow> addr \<Rightarrow> i32 \<times> 'u nl_cb" where
  "nl_cb_set_all cb kind func arg =
     fold (\<lambda>type (err, cb). if is_neg err then (err, cb) else nl_cb_set cb type kind func arg) cb_types (0, cb)"

definition nl_cb_err ::
  "'u nl_cb \<Rightarrow> nl_cb_kind \<Rightarrow> 'u err_cb option \<Rightarrow> addr \<Rightarrow> i32 \<times> 'u nl_cb" where
  "nl_cb_err cb kind func arg =
     (0, cb\<lparr>cb_err := (if kind = NL_CB_CUSTOM then func else cb_err_def kind), cb_err_arg := arg\<rparr>)"

text \<open>\<open>ok\<close>: whether \<^verbatim>\<open>calloc\<close> succeeds.\<close>

definition nl_cb_alloc :: "bool \<Rightarrow> nl_cb_kind \<Rightarrow> 'u nl_cb option" where
  "nl_cb_alloc ok kind =
    (if \<not> ok then None
     else (let cb = \<lparr>cb_set = (\<lambda>_. None), cb_args = (\<lambda>_. 0), cb_err = None, cb_err_arg = 0, cb_refcnt = 1\<rparr>;
               cb = fold (\<lambda>type cb. snd (nl_cb_set cb type kind None 0)) cb_types cb in
           Some (snd (nl_cb_err cb kind None 0))))"

definition nl_cb_clone :: "bool \<Rightarrow> 'u nl_cb \<Rightarrow> 'u nl_cb option" where
  "nl_cb_clone ok orig =
     (case nl_cb_alloc ok NL_CB_DEFAULT of
        None \<Rightarrow> None
      | Some (cb :: 'u nl_cb) \<Rightarrow> Some (orig\<lparr>cb_refcnt := 1\<rparr>))"

definition nl_cb_get :: "'u nl_cb \<Rightarrow> 'u nl_cb" where
  "nl_cb_get cb = cb\<lparr>cb_refcnt := cb_refcnt cb + 1\<rparr>"

definition nl_cb_put :: "'u nl_cb option \<Rightarrow> 'u nl_cb option option" where
  "nl_cb_put cb =
    (case cb of
       None \<Rightarrow> Some None
     | Some cb \<Rightarrow>
        (let cb = cb\<lparr>cb_refcnt := cb_refcnt cb - 1\<rparr> in
         if is_neg (cb_refcnt cb) then None
         else if sint (cb_refcnt cb) \<le> 0 then Some None else Some (Some cb)))"

text \<open>Calling an entry that is \<^verbatim>\<open>NULL\<close> is a fault.\<close>

definition nl_cb_call :: "'u nl_cb \<Rightarrow> nl_cb_type \<Rightarrow> nl_msg \<Rightarrow> 'u \<Rightarrow> (i32 \<times> 'u) option" where
  "nl_cb_call cb type msg u =
     (case cb_set cb type of None \<Rightarrow> None | Some f \<Rightarrow> f msg (cb_args cb type) u)"

section \<open>Local ports\<close>

text \<open>The bit map \<^verbatim>\<open>used_ports_map\<close>: 32 words with a bit for each of the 1024 port numbers.\<close>

definition UINT_MAX :: u32 where "UINT_MAX = 0xFFFFFFFF"

primrec port_scan :: "u32 list \<Rightarrow> nat list \<Rightarrow> (nat \<times> nat) option" where
  "port_scan m [] = None"
| "port_scan m (i # is) =
     (if m ! i = 0xFFFFFFFF then port_scan m is
      else case find (\<lambda>n. \<not> bit (m ! i) n) [0..<32] of
             Some n \<Rightarrow> Some (i, n)
           | None \<Rightarrow> port_scan m is)"

definition generate_local_port :: "u32 \<Rightarrow> u32 list \<Rightarrow> u32 \<times> u32 list" where
  "generate_local_port pid m =
    (let pid = pid AND 0x3FFFFF in
     case port_scan m [0..<32] of
       Some (i, n) \<Rightarrow>
         (let m = m[i := m ! i OR push_bit n 1]; n = n + i * 32 in
          (pid + push_bit 22 (word_of_nat n), m))
     | None \<Rightarrow> (UINT_MAX, m))"

definition release_local_port :: "u32 \<Rightarrow> u32 list \<Rightarrow> u32 list" where
  "release_local_port port m =
    (if port = UINT_MAX then m
     else (let nr = unat (drop_bit 22 port) in
           m[nr div 32 := m ! (nr div 32) AND NOT (push_bit (nr mod 32) 1)]))"

section \<open>System calls\<close>

record recv_result =
  r_data :: bytes
  r_len :: i32
  r_name :: sockaddr_nl
  r_namelen :: u32
  r_trunc :: bool
  r_ctrunc :: bool
  r_creds :: "ucred option"

text \<open>
  The environment of the library: memory allocation, clock, process number and the socket
  calls.  The result of a call is \<^term>\<open>Inl errno\<close> or \<^term>\<open>Inr value\<close> with the state after it.
  \<open>sys_recvmsg\<close> gets the descriptor, the buffer length, the length for control data and
  whether it only peeks.
\<close>

record 'k sys =
  sys_alloc :: "'k \<Rightarrow> bool \<times> 'k"
  sys_time :: "'k \<Rightarrow> u32"
  sys_getpid :: "'k \<Rightarrow> u32"
  sys_pagesize :: "u64"
  sys_socket :: "i32 \<Rightarrow> i32 \<Rightarrow> i32 \<Rightarrow> 'k \<Rightarrow> (i32 + i32) \<times> 'k"
  sys_fcntl :: "i32 \<Rightarrow> i32 \<Rightarrow> i32 \<Rightarrow> 'k \<Rightarrow> (i32 + i32) \<times> 'k"
  sys_setsockopt :: "i32 \<Rightarrow> i32 \<Rightarrow> i32 \<Rightarrow> i32 \<Rightarrow> 'k \<Rightarrow> (i32 + unit) \<times> 'k"
  sys_bind :: "i32 \<Rightarrow> sockaddr_nl \<Rightarrow> 'k \<Rightarrow> (i32 + unit) \<times> 'k"
  sys_getsockname :: "i32 \<Rightarrow> 'k \<Rightarrow> (i32 + sockaddr_nl \<times> u32) \<times> 'k"
  sys_close :: "i32 \<Rightarrow> 'k \<Rightarrow> 'k"
  sys_sendto :: "i32 \<Rightarrow> sockaddr_nl \<Rightarrow> bytes \<Rightarrow> 'k \<Rightarrow> (i32 + i32) \<times> 'k"
  sys_sendmsg :: "i32 \<Rightarrow> sockaddr_nl \<Rightarrow> ucred option \<Rightarrow> bytes \<Rightarrow> 'k \<Rightarrow> (i32 + i32) \<times> 'k"
  sys_recvmsg :: "i32 \<Rightarrow> u64 \<Rightarrow> u64 \<Rightarrow> bool \<Rightarrow> 'k \<Rightarrow> (i32 + recv_result) \<times> 'k"

text \<open>The process: the state of the kernel it runs on and its port map.\<close>

record 'k proc =
  kern :: 'k
  used_ports_map :: "u32 list"

section \<open>Sockets\<close>

definition AF_NETLINK :: u16 where "AF_NETLINK = 16"
definition SOCK_RAW :: i32 where "SOCK_RAW = 3"
definition NETLINK_GENERIC :: i32 where "NETLINK_GENERIC = 16"

definition NL_SOCK_BUFSIZE_SET :: i32 where "NL_SOCK_BUFSIZE_SET = 1"
definition NL_SOCK_PASSCRED :: i32 where "NL_SOCK_PASSCRED = 2"
definition NL_OWN_PORT :: i32 where "NL_OWN_PORT = 4"
definition NL_MSG_PEEK :: i32 where "NL_MSG_PEEK = 8"
definition NL_NO_AUTO_ACK :: i32 where "NL_NO_AUTO_ACK = 16"

lemmas nl_flag_defs = NL_SOCK_BUFSIZE_SET_def NL_SOCK_PASSCRED_def NL_OWN_PORT_def NL_MSG_PEEK_def
  NL_NO_AUTO_ACK_def

record 'u nl_sock =
  s_local :: sockaddr_nl
  s_peer :: sockaddr_nl
  s_fd :: i32
  s_proto :: i32
  s_seq_next :: u32
  s_seq_expect :: u32
  s_flags :: i32
  s_cb :: "'u nl_cb"

text \<open>A reference to the callback handle that is not the last one keeps the handle, which is then lost here.\<close>

definition nl_socket_free :: "'k sys \<Rightarrow> 'u nl_sock option \<Rightarrow> 'k proc \<Rightarrow> 'k proc option" where
  "nl_socket_free sys sk p =
    (case sk of
       None \<Rightarrow> Some p
     | Some sk \<Rightarrow>
        (let p = (if \<not> is_neg (s_fd sk) then p\<lparr>kern := sys_close sys (s_fd sk) (kern p)\<rparr> else p);
             p = (if s_flags sk AND NL_OWN_PORT = 0
                  then p\<lparr>used_ports_map := release_local_port (nl_pid (s_local sk)) (used_ports_map p)\<rparr>
                  else p) in do {
         _ \<leftarrow> nl_cb_put (Some (s_cb sk));
         Some p
       }))"

definition alloc_socket :: "'k sys \<Rightarrow> 'u nl_cb \<Rightarrow> 'k proc \<Rightarrow> ('u nl_sock option \<times> 'k proc) option" where
  "alloc_socket sys cb p =
    (let (ok, k) = sys_alloc sys (kern p); p = p\<lparr>kern := k\<rparr> in
     if \<not> ok then Some (None, p)
     else
       (let now = sys_time sys (kern p);
            (port, m) = generate_local_port (sys_getpid sys (kern p)) (used_ports_map p);
            p = p\<lparr>used_ports_map := m\<rparr>;
            sk = \<lparr>s_local = \<lparr>nl_family = AF_NETLINK, nl_pid = port, nl_groups = 0\<rparr>,
                  s_peer = \<lparr>nl_family = AF_NETLINK, nl_pid = 0, nl_groups = 0\<rparr>,
                  s_fd = - 1, s_proto = 0, s_seq_next = now, s_seq_expect = now, s_flags = 0, s_cb = cb\<rparr> in
        if port = UINT_MAX then do {
          p \<leftarrow> nl_socket_free sys (Some sk) p;
          Some (None, p)
        }
        else Some (Some sk, p)))"

definition nl_socket_alloc ::
  "'k sys \<Rightarrow> nl_cb_kind \<Rightarrow> 'k proc \<Rightarrow> ('u nl_sock option \<times> 'k proc) option" where
  "nl_socket_alloc sys default_cb p =
    (let (ok, k) = sys_alloc sys (kern p); p = p\<lparr>kern := k\<rparr> in
     case nl_cb_alloc ok default_cb of
       None \<Rightarrow> Some (None, p)
     | Some cb \<Rightarrow> alloc_socket sys cb p)"

definition nl_socket_alloc_cb ::
  "'k sys \<Rightarrow> 'u nl_cb option \<Rightarrow> 'k proc \<Rightarrow> ('u nl_sock option \<times> 'k proc) option" where
  "nl_socket_alloc_cb sys cb p =
     (case cb of None \<Rightarrow> None | Some cb \<Rightarrow> alloc_socket sys (nl_cb_get cb) p)"

definition noop_seq_check :: "'u msg_cb" where
  "noop_seq_check msg arg u = Some (NL_OK, u)"

definition nl_socket_disable_seq_check :: "'u nl_sock \<Rightarrow> 'u nl_sock" where
  "nl_socket_disable_seq_check sk =
     sk\<lparr>s_cb := snd (nl_cb_set (s_cb sk) NL_CB_SEQ_CHECK NL_CB_CUSTOM (Some noop_seq_check) 0)\<rparr>"

definition nl_socket_use_seq :: "'u nl_sock \<Rightarrow> u32 \<times> 'u nl_sock" where
  "nl_socket_use_seq sk = (s_seq_next sk, sk\<lparr>s_seq_next := s_seq_next sk + 1\<rparr>)"

definition nl_socket_disable_auto_ack :: "'u nl_sock \<Rightarrow> 'u nl_sock" where
  "nl_socket_disable_auto_ack sk = sk\<lparr>s_flags := s_flags sk OR NL_NO_AUTO_ACK\<rparr>"

definition nl_socket_enable_auto_ack :: "'u nl_sock \<Rightarrow> 'u nl_sock" where
  "nl_socket_enable_auto_ack sk = sk\<lparr>s_flags := s_flags sk AND NOT NL_NO_AUTO_ACK\<rparr>"

definition nl_socket_get_local_port :: "'u nl_sock \<Rightarrow> u32" where
  "nl_socket_get_local_port sk = nl_pid (s_local sk)"

definition nl_socket_set_local_port ::
  "'k sys \<Rightarrow> 'u nl_sock \<Rightarrow> u32 \<Rightarrow> 'k proc \<Rightarrow> 'u nl_sock \<times> 'k proc" where
  "nl_socket_set_local_port sys sk port p =
    (if port = 0
     then (let (port, m) = generate_local_port (sys_getpid sys (kern p)) (used_ports_map p) in
           (sk\<lparr>s_flags := s_flags sk AND NOT NL_OWN_PORT, s_local := (s_local sk)\<lparr>nl_pid := port\<rparr>\<rparr>,
            p\<lparr>used_ports_map := m\<rparr>))
     else (let p = (if s_flags sk AND NL_OWN_PORT = 0
                    then p\<lparr>used_ports_map := release_local_port (nl_pid (s_local sk)) (used_ports_map p)\<rparr>
                    else p) in
           (sk\<lparr>s_flags := s_flags sk OR NL_OWN_PORT, s_local := (s_local sk)\<lparr>nl_pid := port\<rparr>\<rparr>, p)))"

definition nl_socket_modify_cb ::
  "'u nl_sock \<Rightarrow> nl_cb_type \<Rightarrow> nl_cb_kind \<Rightarrow> 'u msg_cb option \<Rightarrow> addr \<Rightarrow> i32 \<times> 'u nl_sock" where
  "nl_socket_modify_cb sk type kind func arg =
     (let (err, cb) = nl_cb_set (s_cb sk) type kind func arg in (err, sk\<lparr>s_cb := cb\<rparr>))"

text \<open>\<^verbatim>\<open>SOL_SOCKET\<close> is 1, \<^verbatim>\<open>SO_SNDBUF\<close> 7, \<^verbatim>\<open>SO_RCVBUF\<close> 8 and \<^verbatim>\<open>SO_PASSCRED\<close> 16.\<close>

definition nl_socket_set_buffer_size ::
  "'k sys \<Rightarrow> 'u nl_sock \<Rightarrow> i32 \<Rightarrow> i32 \<Rightarrow> 'k proc \<Rightarrow> i32 \<times> 'u nl_sock \<times> 'k proc" where
  "nl_socket_set_buffer_size sys sk rxbuf txbuf p =
    (let rxbuf = (if sint rxbuf \<le> 0 then 32768 else rxbuf);
         txbuf = (if sint txbuf \<le> 0 then 32768 else txbuf) in
     if s_fd sk = - 1 then (- NLE_BAD_SOCK, sk, p)
     else
       (case sys_setsockopt sys (s_fd sk) 1 7 txbuf (kern p) of
          (Inl errno, k) \<Rightarrow> (- nl_syserr2nlerr errno, sk, p\<lparr>kern := k\<rparr>)
        | (Inr _, k) \<Rightarrow>
           (case sys_setsockopt sys (s_fd sk) 1 8 rxbuf k of
              (Inl errno, k) \<Rightarrow> (- nl_syserr2nlerr errno, sk, p\<lparr>kern := k\<rparr>)
            | (Inr _, k) \<Rightarrow> (0, sk\<lparr>s_flags := s_flags sk OR NL_SOCK_BUFSIZE_SET\<rparr>, p\<lparr>kern := k\<rparr>))))"

definition nl_socket_set_passcred ::
  "'k sys \<Rightarrow> 'u nl_sock \<Rightarrow> i32 \<Rightarrow> 'k proc \<Rightarrow> i32 \<times> 'u nl_sock \<times> 'k proc" where
  "nl_socket_set_passcred sys sk state p =
    (if s_fd sk = - 1 then (- NLE_BAD_SOCK, sk, p)
     else
       (case sys_setsockopt sys (s_fd sk) 1 16 state (kern p) of
          (Inl errno, k) \<Rightarrow> (- nl_syserr2nlerr errno, sk, p\<lparr>kern := k\<rparr>)
        | (Inr _, k) \<Rightarrow>
            (0, sk\<lparr>s_flags := (if state \<noteq> 0 then s_flags sk OR NL_SOCK_PASSCRED
                               else s_flags sk AND NOT NL_SOCK_PASSCRED)\<rparr>, p\<lparr>kern := k\<rparr>)))"

text \<open>
  Group memberships.  The variable arguments are a list, which the loop reads up to the group
  0; running past its end is a fault.  \<^verbatim>\<open>SOL_NETLINK\<close> is 270, \<^verbatim>\<open>NETLINK_ADD_MEMBERSHIP\<close> 1,
  \<^verbatim>\<open>NETLINK_DROP_MEMBERSHIP\<close> 2 and \<^verbatim>\<open>NETLINK_PKTINFO\<close> 3.
\<close>

primrec membership_loop :: "'k sys \<Rightarrow> i32 \<Rightarrow> i32 \<Rightarrow> i32 list \<Rightarrow> 'k proc \<Rightarrow> (i32 \<times> 'k proc) option" where
  "membership_loop sys fd opt [] p = None"
| "membership_loop sys fd opt (grp # ap) p =
     (if grp = 0 then Some (0, p)
      else if is_neg grp then Some (- NLE_INVAL, p)
      else
        (case sys_setsockopt sys fd 270 opt grp (kern p) of
           (Inl errno, k) \<Rightarrow> Some (- nl_syserr2nlerr errno, p\<lparr>kern := k\<rparr>)
         | (Inr _, k) \<Rightarrow> membership_loop sys fd opt ap (p\<lparr>kern := k\<rparr>)))"

definition nl_socket_add_memberships :: "'k sys \<Rightarrow> 'u nl_sock \<Rightarrow> i32 list \<Rightarrow> 'k proc \<Rightarrow> (i32 \<times> 'k proc) option" where
  "nl_socket_add_memberships sys sk groups p =
     (if s_fd sk = - 1 then Some (- NLE_BAD_SOCK, p) else membership_loop sys (s_fd sk) 1 groups p)"

definition nl_socket_add_membership :: "'k sys \<Rightarrow> 'u nl_sock \<Rightarrow> i32 \<Rightarrow> 'k proc \<Rightarrow> (i32 \<times> 'k proc) option" where
  "nl_socket_add_membership sys sk grp p = nl_socket_add_memberships sys sk [grp, 0] p"

definition nl_socket_drop_memberships :: "'k sys \<Rightarrow> 'u nl_sock \<Rightarrow> i32 list \<Rightarrow> 'k proc \<Rightarrow> (i32 \<times> 'k proc) option" where
  "nl_socket_drop_memberships sys sk groups p =
     (if s_fd sk = - 1 then Some (- NLE_BAD_SOCK, p) else membership_loop sys (s_fd sk) 2 groups p)"

definition nl_socket_drop_membership :: "'k sys \<Rightarrow> 'u nl_sock \<Rightarrow> i32 \<Rightarrow> 'k proc \<Rightarrow> (i32 \<times> 'k proc) option" where
  "nl_socket_drop_membership sys sk grp p = nl_socket_drop_memberships sys sk [grp, 0] p"

definition nl_join_groups :: "'u nl_sock \<Rightarrow> u32 \<Rightarrow> 'u nl_sock" where
  "nl_join_groups sk groups = sk\<lparr>s_local := (s_local sk)\<lparr>nl_groups := nl_groups (s_local sk) OR groups\<rparr>\<rparr>"

definition nl_socket_get_peer_port :: "'u nl_sock \<Rightarrow> u32" where
  "nl_socket_get_peer_port sk = nl_pid (s_peer sk)"

definition nl_socket_set_peer_port :: "'u nl_sock \<Rightarrow> u32 \<Rightarrow> 'u nl_sock" where
  "nl_socket_set_peer_port sk port = sk\<lparr>s_peer := (s_peer sk)\<lparr>nl_pid := port\<rparr>\<rparr>"

definition nl_socket_get_peer_groups :: "'u nl_sock \<Rightarrow> u32" where
  "nl_socket_get_peer_groups sk = nl_groups (s_peer sk)"

definition nl_socket_set_peer_groups :: "'u nl_sock \<Rightarrow> u32 \<Rightarrow> 'u nl_sock" where
  "nl_socket_set_peer_groups sk groups = sk\<lparr>s_peer := (s_peer sk)\<lparr>nl_groups := groups\<rparr>\<rparr>"

definition nl_socket_get_fd :: "'u nl_sock \<Rightarrow> i32" where
  "nl_socket_get_fd sk = s_fd sk"

text \<open>\<^verbatim>\<open>F_SETFL\<close> is 4 and \<^verbatim>\<open>O_NONBLOCK\<close> 0x800.\<close>

definition nl_socket_set_nonblocking :: "'k sys \<Rightarrow> 'u nl_sock \<Rightarrow> 'k proc \<Rightarrow> i32 \<times> 'k proc" where
  "nl_socket_set_nonblocking sys sk p =
    (if s_fd sk = - 1 then (- NLE_BAD_SOCK, p)
     else
       (case sys_fcntl sys (s_fd sk) 4 0x800 (kern p) of
          (Inl errno, k) \<Rightarrow> (- nl_syserr2nlerr errno, p\<lparr>kern := k\<rparr>)
        | (Inr _, k) \<Rightarrow> (0, p\<lparr>kern := k\<rparr>)))"

definition nl_socket_enable_msg_peek :: "'u nl_sock \<Rightarrow> 'u nl_sock" where
  "nl_socket_enable_msg_peek sk = sk\<lparr>s_flags := s_flags sk OR NL_MSG_PEEK\<rparr>"

definition nl_socket_disable_msg_peek :: "'u nl_sock \<Rightarrow> 'u nl_sock" where
  "nl_socket_disable_msg_peek sk = sk\<lparr>s_flags := s_flags sk AND NOT NL_MSG_PEEK\<rparr>"

text \<open>The handle the caller gets is the handle of the socket.\<close>

definition nl_socket_get_cb :: "'u nl_sock \<Rightarrow> 'u nl_cb \<times> 'u nl_sock" where
  "nl_socket_get_cb sk = (let cb = nl_cb_get (s_cb sk) in (cb, sk\<lparr>s_cb := cb\<rparr>))"

definition nl_socket_set_cb :: "'u nl_sock \<Rightarrow> 'u nl_cb \<Rightarrow> 'u nl_sock option" where
  "nl_socket_set_cb sk cb = do {
     _ \<leftarrow> nl_cb_put (Some (s_cb sk));
     Some (sk\<lparr>s_cb := nl_cb_get cb\<rparr>)
   }"

definition nl_socket_recv_pktinfo :: "'k sys \<Rightarrow> 'u nl_sock \<Rightarrow> i32 \<Rightarrow> 'k proc \<Rightarrow> i32 \<times> 'k proc" where
  "nl_socket_recv_pktinfo sys sk state p =
    (if s_fd sk = - 1 then (- NLE_BAD_SOCK, p)
     else
       (case sys_setsockopt sys (s_fd sk) 270 3 state (kern p) of
          (Inl errno, k) \<Rightarrow> (- nl_syserr2nlerr errno, p\<lparr>kern := k\<rparr>)
        | (Inr _, k) \<Rightarrow> (0, p\<lparr>kern := k\<rparr>)))"

text \<open>\<^verbatim>\<open>init_default_cb\<close>: the value of the environment variable \<^verbatim>\<open>NLCB\<close>, compared without case.\<close>

definition lower :: "char \<Rightarrow> char" where
  "lower c = (let n = of_char c :: nat in if 65 \<le> n \<and> n \<le> 90 then char_of (n + 32) else c)"

definition strcaseeq :: "string \<Rightarrow> string \<Rightarrow> bool" where
  "strcaseeq s t \<longleftrightarrow> map lower s = map lower t"

definition init_default_cb :: "string option \<Rightarrow> nl_cb_kind" where
  "init_default_cb nlcb =
    (case nlcb of
       None \<Rightarrow> NL_CB_DEFAULT
     | Some s \<Rightarrow>
        if strcaseeq s ''default'' then NL_CB_DEFAULT
        else if strcaseeq s ''verbose'' then NL_CB_VERBOSE
        else if strcaseeq s ''debug'' then NL_CB_DEBUG
        else NL_CB_DEFAULT)"

section \<open>Connecting\<close>

definition connect_failed ::
  "'k sys \<Rightarrow> i32 \<Rightarrow> 'u nl_sock \<Rightarrow> 'k proc \<Rightarrow> i32 \<times> 'u nl_sock \<times> 'k proc" where
  "connect_failed sys err sk p = (err, sk\<lparr>s_fd := - 1\<rparr>, p\<lparr>kern := sys_close sys (s_fd sk) (kern p)\<rparr>)"

text \<open>A failed \<^verbatim>\<open>socket\<close> leaves -1 in \<open>s_fd\<close>, which is then closed.\<close>

definition nl_connect :: "'k sys \<Rightarrow> 'u nl_sock \<Rightarrow> i32 \<Rightarrow> 'k proc \<Rightarrow> i32 \<times> 'u nl_sock \<times> 'k proc" where
  "nl_connect sys sk protocol p =
    (case sys_socket sys (ucast AF_NETLINK) SOCK_RAW protocol (kern p) of
       (Inl errno, k) \<Rightarrow> connect_failed sys (- nl_syserr2nlerr errno) (sk\<lparr>s_fd := - 1\<rparr>) (p\<lparr>kern := k\<rparr>)
     | (Inr fd, k) \<Rightarrow>
        (let sk = sk\<lparr>s_fd := fd\<rparr>; p = p\<lparr>kern := k\<rparr>;
             (err, sk, p) = (if s_flags sk AND NL_SOCK_BUFSIZE_SET = 0
                             then nl_socket_set_buffer_size sys sk 0 0 p else (0, sk, p)) in
         if is_neg err then connect_failed sys err sk p
         else
           (case sys_bind sys (s_fd sk) (s_local sk) (kern p) of
              (Inl errno, k) \<Rightarrow> connect_failed sys (- nl_syserr2nlerr errno) sk (p\<lparr>kern := k\<rparr>)
            | (Inr _, k) \<Rightarrow>
               (case sys_getsockname sys (s_fd sk) k of
                  (Inl errno, k) \<Rightarrow> connect_failed sys (- nl_syserr2nlerr errno) sk (p\<lparr>kern := k\<rparr>)
                | (Inr (name, addrlen), k) \<Rightarrow>
                   (let sk = sk\<lparr>s_local := name\<rparr>; p = p\<lparr>kern := k\<rparr> in
                    if addrlen \<noteq> 12 then connect_failed sys (- NLE_NOADDR) sk p
                    else if nl_family (s_local sk) \<noteq> AF_NETLINK
                    then connect_failed sys (- NLE_AF_NOSUPPORT) sk p
                    else (0, sk\<lparr>s_proto := protocol\<rparr>, p))))))"

definition genl_connect :: "'k sys \<Rightarrow> 'u nl_sock \<Rightarrow> 'k proc \<Rightarrow> i32 \<times> 'u nl_sock \<times> 'k proc" where
  "genl_connect sys sk p = nl_connect sys sk NETLINK_GENERIC p"

definition nl_close :: "'k sys \<Rightarrow> 'u nl_sock \<Rightarrow> 'k proc \<Rightarrow> 'u nl_sock \<times> 'k proc" where
  "nl_close sys sk p =
    (if \<not> is_neg (s_fd sk)
     then (sk\<lparr>s_fd := - 1, s_proto := 0\<rparr>, p\<lparr>kern := sys_close sys (s_fd sk) (kern p)\<rparr>)
     else (sk\<lparr>s_proto := 0\<rparr>, p))"

section \<open>Sending\<close>

definition NLM_F_REQUEST :: u16 where "NLM_F_REQUEST = 1"
definition NLM_F_MULTI :: u16 where "NLM_F_MULTI = 2"
definition NLM_F_ACK :: u16 where "NLM_F_ACK = 4"

definition nl_sendto :: "'k sys \<Rightarrow> 'u nl_sock \<Rightarrow> bytes \<Rightarrow> 'k proc \<Rightarrow> i32 \<times> 'k proc" where
  "nl_sendto sys sk buf p =
     (case sys_sendto sys (s_fd sk) (s_peer sk) buf (kern p) of
        (Inl errno, k) \<Rightarrow> (- nl_syserr2nlerr errno, p\<lparr>kern := k\<rparr>)
      | (Inr ret, k) \<Rightarrow> (ret, p\<lparr>kern := k\<rparr>))"

text \<open>\<open>hdr\<close> is the message header for \<^verbatim>\<open>sendmsg\<close>: destination, credentials and data.\<close>

definition nl_sendmsg :: "'k sys \<Rightarrow> 'u nl_sock \<Rightarrow> nl_msg \<Rightarrow> sockaddr_nl \<times> ucred option \<times> bytes
    \<Rightarrow> 'u \<Rightarrow> 'k proc \<Rightarrow> (i32 \<times> nl_msg \<times> 'u \<times> 'k proc) option" where
  "nl_sendmsg sys sk msg hdr u p = do {
     let msg = nlmsg_set_src msg (s_local sk);
     (ret, u) \<leftarrow> (if cb_set (s_cb sk) NL_CB_MSG_OUT \<noteq> None
                 then nl_cb_call (s_cb sk) NL_CB_MSG_OUT msg u else Some (NL_OK, u));
     if ret \<noteq> NL_OK then Some (ret, msg, u, p)
     else
       (case hdr of (dst, creds, data) \<Rightarrow>
          (case sys_sendmsg sys (s_fd sk) dst creds data (kern p) of
             (Inl errno, k) \<Rightarrow> Some (- nl_syserr2nlerr errno, msg, u, p\<lparr>kern := k\<rparr>)
           | (Inr ret, k) \<Rightarrow> Some (ret, msg, u, p\<lparr>kern := k\<rparr>)))
   }"

definition nl_send_iovec :: "'k sys \<Rightarrow> 'u nl_sock \<Rightarrow> nl_msg \<Rightarrow> bytes
    \<Rightarrow> 'u \<Rightarrow> 'k proc \<Rightarrow> (i32 \<times> nl_msg \<times> 'u \<times> 'k proc) option" where
  "nl_send_iovec sys sk msg iov u p =
    (let dst = nlmsg_get_dst msg;
         name = (if nl_family dst = AF_NETLINK then dst else s_peer sk) in
     nl_sendmsg sys sk msg (name, nlmsg_get_creds msg, iov) u p)"

definition nl_send :: "'k sys \<Rightarrow> 'u nl_sock \<Rightarrow> nl_msg \<Rightarrow> 'u \<Rightarrow> 'k proc
    \<Rightarrow> (i32 \<times> nl_msg \<times> 'u \<times> 'k proc) option" where
  "nl_send sys sk msg u p = do {
     len \<leftarrow> ld32 (nlmsg_hdr msg) NLH_LEN;
     data \<leftarrow> ld_bytes (nlmsg_hdr msg) 0 (unat len);
     nl_send_iovec sys sk msg data u p
   }"

definition nl_complete_msg :: "'u nl_sock \<Rightarrow> nl_msg \<Rightarrow> ('u nl_sock \<times> nl_msg) option" where
  "nl_complete_msg sk msg = do {
     let b = nm_nlh msg;
     pid \<leftarrow> ld32 b NLH_PID;
     b \<leftarrow> (if pid = 0 then st32 NLH_PID (nl_pid (s_local sk)) b else Some b);
     seq \<leftarrow> ld32 b NLH_SEQ;
     (b, sk) \<leftarrow> (if seq = 0
                then do { b \<leftarrow> st32 NLH_SEQ (s_seq_next sk) b; Some (b, sk\<lparr>s_seq_next := s_seq_next sk + 1\<rparr>) }
                else Some (b, sk));
     let msg = (if nm_protocol msg = - 1 then msg\<lparr>nm_protocol := s_proto sk\<rparr> else msg);
     flags \<leftarrow> ld16 b NLH_FLAGS;
     b \<leftarrow> st16 NLH_FLAGS (flags OR NLM_F_REQUEST) b;
     b \<leftarrow> (if s_flags sk AND NL_NO_AUTO_ACK = 0
          then st16 NLH_FLAGS (flags OR NLM_F_REQUEST OR NLM_F_ACK) b else Some b);
     Some (sk, msg\<lparr>nm_nlh := b\<rparr>)
   }"

definition nl_auto_complete :: "'u nl_sock \<Rightarrow> nl_msg \<Rightarrow> ('u nl_sock \<times> nl_msg) option" where
  "nl_auto_complete sk msg = nl_complete_msg sk msg"

definition nl_send_auto :: "'k sys \<Rightarrow> 'u nl_sock \<Rightarrow> nl_msg \<Rightarrow> 'u \<Rightarrow> 'k proc
    \<Rightarrow> (i32 \<times> 'u nl_sock \<times> nl_msg \<times> 'u \<times> 'k proc) option" where
  "nl_send_auto sys sk msg u p = do {
     (sk, msg) \<leftarrow> nl_complete_msg sk msg;
     (ret, msg, u, p) \<leftarrow> nl_send sys sk msg u p;
     Some (ret, sk, msg, u, p)
   }"

definition nl_send_auto_complete :: "'k sys \<Rightarrow> 'u nl_sock \<Rightarrow> nl_msg \<Rightarrow> 'u \<Rightarrow> 'k proc
    \<Rightarrow> (i32 \<times> 'u nl_sock \<times> nl_msg \<times> 'u \<times> 'k proc) option" where
  "nl_send_auto_complete sys sk msg u p = nl_send_auto sys sk msg u p"

text \<open>The message allocation of a process: two blocks, one after the other.\<close>

definition sys_alloc2 :: "'k sys \<Rightarrow> 'k proc \<Rightarrow> (bool \<times> bool) \<times> 'k proc" where
  "sys_alloc2 sys p =
    (let (ok1, k) = sys_alloc sys (kern p);
         (ok2, k) = (if ok1 then sys_alloc sys k else (False, k)) in
     ((ok1, ok2), p\<lparr>kern := k\<rparr>))"

definition nl_send_simple :: "'k sys \<Rightarrow> u64 \<Rightarrow> 'u nl_sock \<Rightarrow> i32 \<Rightarrow> i32 \<Rightarrow> bytes option \<Rightarrow> 'u \<Rightarrow> 'k proc
    \<Rightarrow> (i32 \<times> 'u nl_sock \<times> 'u \<times> 'k proc) option" where
  "nl_send_simple sys default_msg_size sk type flags buf u p =
    (let ((ok1, ok2), p) = sys_alloc2 sys p in do {
       msg \<leftarrow> nlmsg_alloc_simple ok1 ok2 default_msg_size type flags;
       (case msg of
          None \<Rightarrow> Some (- NLE_NOMEM, sk, u, p)
        | Some msg \<Rightarrow> do {
            (err, msg) \<leftarrow> (case buf of
                None \<Rightarrow> Some (0, msg)
              | Some d \<Rightarrow> if d = [] then Some (0, msg) else nlmsg_append msg d (word_of_nat (length d)) 4);
            (err, sk, msg, u, p) \<leftarrow> (if is_neg err then Some (err, sk, msg, u, p)
                                    else nl_send_auto_complete sys sk msg u p);
            _ \<leftarrow> nlmsg_free (Some msg);
            Some (err, sk, u, p)
          })
     })"

definition genl_send_simple :: "'k sys \<Rightarrow> u64 \<Rightarrow> 'u nl_sock \<Rightarrow> i32 \<Rightarrow> i32 \<Rightarrow> i32 \<Rightarrow> i32 \<Rightarrow> 'u \<Rightarrow> 'k proc
    \<Rightarrow> (i32 \<times> 'u nl_sock \<times> 'u \<times> 'k proc) option" where
  "genl_send_simple sys default_msg_size sk family cmd version flags u p =
     nl_send_simple sys default_msg_size sk family flags (Some (genlmsghdr (ucast cmd) (ucast version))) u p"

section \<open>Facts about callbacks, ports and completion\<close>

definition silent_cb :: "'u nl_cb" where
  "silent_cb = \<lparr>cb_set = (\<lambda>_. None), cb_args = (\<lambda>_. 0), cb_err = None, cb_err_arg = 0, cb_refcnt = 1\<rparr>"

lemma cb_def_default [simp]: "cb_def type NL_CB_DEFAULT = None"
  by (cases type) simp_all

lemma nl_cb_alloc_default: "nl_cb_alloc True NL_CB_DEFAULT = Some silent_cb"
  by (simp add: nl_cb_alloc_def nl_cb_set_def nl_cb_err_def cb_types_def silent_cb_def fun_eq_iff)

lemma nl_cb_put_last: "cb_refcnt cb = 1 \<Longrightarrow> nl_cb_put (Some cb) = Some None"
  by (simp add: nl_cb_put_def)

lemma nlmsg_free_last: "nm_refcnt m = 1 \<Longrightarrow> nlmsg_free (Some m) = Some None"
  by (simp add: nlmsg_free_def)

text \<open>Completing and sending a generic netlink message whose port and sequence number are zero.\<close>

lemma nl_complete_msg_genl:
  assumes b: "nm_nlh msg = genl_bytes ty fl 0 0 cmd ver as @ z" and "s_flags sk AND NL_NO_AUTO_ACK = 0"
  shows "nl_complete_msg sk msg = Some (sk\<lparr>s_seq_next := s_seq_next sk + 1\<rparr>,
           msg\<lparr>nm_protocol := (if nm_protocol msg = - 1 then s_proto sk else nm_protocol msg),
               nm_nlh := genl_bytes ty (fl OR NLM_F_REQUEST OR NLM_F_ACK) (s_seq_next sk) (nl_pid (s_local sk)) cmd ver as @ z\<rparr>)"
proof -
  define L z' where "L = 20 + length (enc_attrs as)" and "z' = genlmsghdr cmd ver @ enc_attrs as @ z"
  have gb: "genl_bytes ty fl sq pid cmd ver as @ z = msg_at L (nlh_fields ty fl sq pid @ z')" for fl sq pid
    by (simp add: genl_bytes_def L_def z'_def msg_at_def)
  show ?thesis
    using assms unfolding gb
    by (simp add: nl_complete_msg_def)
qed

lemma nl_send_auto_genl:
  assumes b: "nm_nlh msg = genl_bytes ty fl 0 0 cmd ver as @ z" "20 + length (enc_attrs as) < 2 ^ 30"
    and msg: "nm_dst msg = null_addr" "nm_flags msg = 0" "nm_refcnt msg = 1"
    and sk: "s_flags sk AND NL_NO_AUTO_ACK = 0" "cb_set (s_cb sk) NL_CB_MSG_OUT = None"
    and snd: "sys_sendmsg sys (s_fd sk) (s_peer sk) None (genl_bytes ty (fl OR NLM_F_REQUEST OR NLM_F_ACK)
        (s_seq_next sk) (nl_pid (s_local sk)) cmd ver as) (kern p) = (Inr n, k')"
  obtains m where "nl_send_auto sys sk msg u p = Some (n, sk\<lparr>s_seq_next := s_seq_next sk + 1\<rparr>, m, u, p\<lparr>kern := k'\<rparr>)"
    "nlmsg_free (Some m) = Some None"
proof -
  let ?req = "genl_bytes ty (fl OR NLM_F_REQUEST OR NLM_F_ACK) (s_seq_next sk) (nl_pid (s_local sk)) cmd ver as"
  define m where "m = msg\<lparr>nm_protocol := (if nm_protocol msg = - 1 then s_proto sk else nm_protocol msg), nm_nlh := ?req @ z\<rparr>"
  have L: "unat (word_of_nat (20 + length (enc_attrs as)) :: u32) = 20 + length (enc_attrs as)"
    using b(2) by (subst unat_of_nat) simp
  have "ld32 (nm_nlh m) 0 = Some (word_of_nat (20 + length (enc_attrs as)))"
    by (simp add: m_def genl_bytes_def msg_at_def ld32_def)
  moreover have "ld_bytes (nm_nlh m) 0 (20 + length (enc_attrs as)) = Some ?req"
    by (simp add: m_def ld_bytes_def take_exact_def)
  moreover have "nlmsg_get_dst m = null_addr" "nlmsg_get_creds m = None"
    using msg by (simp_all add: nlmsg_get_dst_def nlmsg_get_creds_def m_def NL_MSG_CRED_PRESENT_def)
  ultimately have "nl_send sys (sk\<lparr>s_seq_next := s_seq_next sk + 1\<rparr>) m u p
      = Some (n, nlmsg_set_src m (s_local sk), u, p\<lparr>kern := k'\<rparr>)"
    using snd sk(2) L
    by (simp add: nl_send_def nlmsg_hdr_def nl_send_iovec_def nl_sendmsg_def null_addr_def AF_NETLINK_def
        nlmsg_set_src_def del: of_nat_add)
  then have "nl_send_auto sys sk msg u p
      = Some (n, sk\<lparr>s_seq_next := s_seq_next sk + 1\<rparr>, nlmsg_set_src m (s_local sk), u, p\<lparr>kern := k'\<rparr>)"
    using nl_complete_msg_genl [OF b(1) sk(1)] by (simp add: nl_send_auto_def m_def)
  moreover have "nlmsg_free (Some (nlmsg_set_src m (s_local sk))) = Some None"
    by (rule nlmsg_free_last) (simp add: nlmsg_set_src_def m_def msg(3))
  ultimately show thesis by (rule that)
qed

lemma port_scan_Some:
  "port_scan m is = Some (i, n) \<Longrightarrow> i \<in> set is \<and> n < 32 \<and> \<not> bit (m ! i) n"
  by (induction "is") (auto simp: find_Some_iff nth_upt split: if_splits option.splits)

lemma port_number:
  assumes "N < 1024"
  shows "unat (drop_bit 22 ((pid AND 0x3FFFFF) + push_bit 22 (word_of_nat N) :: u32)) = N"
proof -
  have "(0x3FFFFF :: u32) = mask 22" by (simp add: mask_eq_exp_minus_1)
  then have "unat (pid AND 0x3FFFFF) = unat pid mod 4194304"
    by (simp only: flip: take_bit_eq_mask) (simp add: take_bit_eq_mod unat_mod)
  moreover have "unat (push_bit 22 (word_of_nat N) :: u32) = N * 4194304"
    using assms by (simp add: push_bit_eq_mult unat_word_ariths unat_of_nat)
  ultimately have "unat ((pid AND 0x3FFFFF) + push_bit 22 (word_of_nat N)) = unat pid mod 4194304 + N * 4194304"
    using assms mod_less_divisor [of 4194304 "unat pid"]
    by (simp add: unat_word_ariths)
  then show ?thesis
    using assms by (simp add: drop_bit_eq_div unat_div)
qed

lemma generate_release:
  assumes len: "length m = 32" and gen: "generate_local_port pid m = (port, m')" and port: "port \<noteq> UINT_MAX"
  obtains i n where "i < 32" "n < 32" "\<not> bit (m ! i) n" "m' = m[i := m ! i OR push_bit n 1]"
    "unat (drop_bit 22 port) = n + i * 32" "release_local_port port m' = m"
proof -
  obtain i n where scan: "port_scan m [0..<32] = Some (i, n)"
    using gen port by (auto simp: generate_local_port_def Let_def split: option.splits)
  then have i: "i < 32" "n < 32" "\<not> bit (m ! i) n"
    using port_scan_Some by fastforce+
  have p: "port = (pid AND 0x3FFFFF) + push_bit 22 (word_of_nat (n + i * 32))"
    and m': "m' = m[i := m ! i OR push_bit n 1]"
    using gen scan by (simp_all add: generate_local_port_def Let_def)
  have num: "unat (drop_bit 22 port) = n + i * 32"
    unfolding p by (rule port_number) (use i in simp)
  have "(m ! i OR push_bit n 1) AND NOT (push_bit n 1) = m ! i"
    using i by (intro bit_word_eqI) (auto simp: bit_simps)
  then have "release_local_port port m' = m"
    using port num i len by (simp add: release_local_port_def m')
  then show thesis using that i m' num by blast
qed

text \<open>
  Claim C32.  Local ports: a port handed out has a number that was free in the bit map and is
  taken afterwards, every other number keeps its state, and releasing the port restores the
  map.
\<close>

theorem port_allocation:
  assumes len: "length m = 32" and gen: "generate_local_port pid m = (port, m')" and port: "port \<noteq> UINT_MAX"
  shows "\<exists>nr < 1024. unat (drop_bit 22 port) = nr
       \<and> \<not> bit (m ! (nr div 32)) (nr mod 32) \<and> bit (m' ! (nr div 32)) (nr mod 32)
       \<and> (\<forall>k < 1024. k \<noteq> nr \<longrightarrow> bit (m' ! (k div 32)) (k mod 32) = bit (m ! (k div 32)) (k mod 32))
       \<and> release_local_port port m' = m"
proof (rule generate_release [OF assms])
  fix i n
  assume i: "i < 32" "n < 32" "\<not> bit (m ! i) n" and m': "m' = m[i := m ! i OR push_bit n 1]"
    and num: "unat (drop_bit 22 port) = n + i * 32" and rel: "release_local_port port m' = m"
  define nr where "nr = n + i * 32"
  have nr: "nr < 1024" "nr div 32 = i" "nr mod 32 = n"
    using i by (simp_all add: nr_def)
  have other: "bit (m' ! (k div 32)) (k mod 32) = bit (m ! (k div 32)) (k mod 32)" if "k \<noteq> nr" for k
  proof (cases "k div 32 = i")
    case True
    then have "k mod 32 \<noteq> n" using that div_mult_mod_eq [of k 32] by (auto simp: nr_def)
    then show ?thesis using True i len by (simp add: m' bit_simps)
  qed (simp add: m')
  show ?thesis
    using nr num i len rel other by (intro exI [of _ nr]) (simp add: m' bit_simps nr_def)
qed

end
