(* ===== verification/NL_Recv.thy ===== *)
theory NL_Recv
  imports NL_Socket
begin

text \<open>
  The receiving half of \<^verbatim>\<open>libnl-3.0/lib/nl.c\<close>.  The labels of \<open>recvmsgs\<close> are values: a callback
  or a check may leave the processing of a message for one of them.  Reading from the
  socket may be repeated without bound, so those two loops are partial functions whose
  \<^term>\<open>None\<close> is also not returning.  Freeing buffers is left out.
\<close>

section \<open>Reading from the socket\<close>

text \<open>
  The loop at the label \<^verbatim>\<open>retry\<close> of \<open>nl_recv\<close>: an interrupted call is repeated (\<^verbatim>\<open>EINTR\<close> is 4),
  a missing message ends it (\<^verbatim>\<open>EAGAIN\<close> is 11), a buffer that is too short is doubled, and
  after a peek the message is read.
\<close>

partial_function (option) nl_recv_retry ::
  "'k sys \<Rightarrow> i32 \<Rightarrow> u64 \<Rightarrow> u64 \<Rightarrow> bool \<Rightarrow> 'k \<Rightarrow> ((i32 \<times> recv_result option) \<times> 'k) option" where
  "nl_recv_retry sys fd iov_len controllen peek k =
    (case sys_recvmsg sys fd iov_len controllen peek k of
       (Inl errno, k) \<Rightarrow>
         if errno = 4 then nl_recv_retry sys fd iov_len controllen peek k
         else if errno = 11 then Some ((0, None), k)
         else Some ((- nl_syserr2nlerr errno, None), k)
     | (Inr r, k) \<Rightarrow>
         if r_len r = 0 then Some ((0, None), k)
         else if iov_len < scast (r_len r) \<or> r_trunc r
         then nl_recv_retry sys fd (iov_len * 2) controllen peek k
         else if r_ctrunc r then nl_recv_retry sys fd iov_len (controllen * 2) peek k
         else if peek then nl_recv_retry sys fd iov_len controllen False k
         else if r_namelen r \<noteq> 12 then Some ((- NLE_NOADDR, None), k)
         else Some ((r_len r, Some r), k))"

text \<open>\<^verbatim>\<open>CMSG_SPACE(sizeof(struct ucred))\<close> is 32.\<close>

definition nl_recv ::
  "'k sys \<Rightarrow> 'u nl_sock \<Rightarrow> 'k proc \<Rightarrow> ((i32 \<times> recv_result option) \<times> 'k proc) option" where
  "nl_recv sys sk p = do {
     (r, k) \<leftarrow> nl_recv_retry sys (s_fd sk) (sys_pagesize sys)
                (if s_flags sk AND NL_SOCK_PASSCRED \<noteq> 0 then 32 else 0)
                (s_flags sk AND NL_MSG_PEEK \<noteq> 0) (kern p);
     Some (r, p\<lparr>kern := k\<rparr>)
   }"

section \<open>Processing a message\<close>

datatype label = L_skip | L_stop | L_out i32

record ('u, 'k) rx =
  rx_sk :: "'u nl_sock"
  rx_multipart :: bool
  rx_user :: 'u
  rx_proc :: "'k proc"

text \<open>A stage returns the label it jumps to, if any; the stages of a message run one after the other.\<close>

type_synonym ('u, 'k) stage = "('u, 'k) rx \<Rightarrow> (label option \<times> ('u, 'k) rx) option"

definition and_then :: "('u, 'k) stage \<Rightarrow> ('u, 'k) stage \<Rightarrow> ('u, 'k) stage" where
  "and_then f g s = do {
     (l, s) \<leftarrow> f s;
     (case l of None \<Rightarrow> g s | Some _ \<Rightarrow> Some (l, s))
   }"

definition proceed :: "('u, 'k) stage" where
  "proceed s = Some (None, s)"

definition goto :: "label \<Rightarrow> ('u, 'k) stage" where
  "goto l s = Some (Some l, s)"

definition NL_CB_CALL :: "'u nl_cb \<Rightarrow> nl_cb_type \<Rightarrow> nl_msg \<Rightarrow> ('u, 'k) stage" where
  "NL_CB_CALL cb type msg s = do {
     (err, u) \<leftarrow> nl_cb_call cb type msg (rx_user s);
     let s = s\<lparr>rx_user := u\<rparr>;
     if err = NL_OK then Some (None, s)
     else if err = NL_SKIP then Some (Some L_skip, s)
     else if err = NL_STOP then Some (Some L_stop, s)
     else Some (Some (L_out err), s)
   }"

definition if_set :: "'u nl_cb \<Rightarrow> nl_cb_type \<Rightarrow> nl_msg \<Rightarrow> ('u, 'k) stage \<Rightarrow> ('u, 'k) stage" where
  "if_set cb type msg otherwise =
     (if cb_set cb type \<noteq> None then NL_CB_CALL cb type msg else otherwise)"

definition NLMSG_NOOP :: u16 where "NLMSG_NOOP = 1"
definition NLMSG_ERROR :: u16 where "NLMSG_ERROR = 2"
definition NLMSG_DONE :: u16 where "NLMSG_DONE = 3"
definition NLMSG_OVERRUN :: u16 where "NLMSG_OVERRUN = 4"

lemmas nlmsg_type_defs = NLMSG_NOOP_def NLMSG_ERROR_def NLMSG_DONE_def NLMSG_OVERRUN_def

text \<open>Sequence numbers: by the callback if there is one, otherwise in auto-ack mode only.\<close>

definition seq_check :: "'u nl_cb \<Rightarrow> nl_msg \<Rightarrow> u32 \<Rightarrow> ('u, 'k) stage" where
  "seq_check cb msg seq s =
     if_set cb NL_CB_SEQ_CHECK msg
       (\<lambda>s. if s_flags (rx_sk s) AND NL_NO_AUTO_ACK = 0 \<and> seq \<noteq> s_seq_expect (rx_sk s)
            then if_set cb NL_CB_INVALID msg (goto (L_out (- NLE_SEQ_MISMATCH))) s
            else proceed s) s"

definition account_msg :: "u16 \<Rightarrow> u16 \<Rightarrow> ('u, 'k) stage" where
  "account_msg type flags s =
    (let s = (if type = NLMSG_DONE \<or> type = NLMSG_ERROR \<or> type = NLMSG_NOOP \<or> type = NLMSG_OVERRUN
              then s\<lparr>rx_sk := (rx_sk s)\<lparr>s_seq_expect := s_seq_expect (rx_sk s) + 1\<rparr>\<rparr> else s);
         s = (if flags AND NLM_F_MULTI \<noteq> 0 then s\<lparr>rx_multipart := True\<rparr> else s) in
     proceed s)"

definition send_ack :: "'u nl_cb \<Rightarrow> nl_msg \<Rightarrow> u16 \<Rightarrow> ('u, 'k) stage" where
  "send_ack cb msg flags =
     (if flags AND NLM_F_ACK \<noteq> 0 then if_set cb NL_CB_SEND_ACK msg proceed else proceed)"

text \<open>\<^verbatim>\<open>struct nlmsgerr\<close> has 20 bytes and starts with the error.\<close>

definition error_msg :: "'u nl_cb \<Rightarrow> nl_msg \<Rightarrow> bytes \<Rightarrow> nat \<Rightarrow> sockaddr_nl \<Rightarrow> ('u, 'k) stage" where
  "error_msg cb msg b hdr nla s = do {
     len \<leftarrow> ld32 b (hdr + NLH_LEN);
     if len < nlmsg_size 20 then if_set cb NL_CB_INVALID msg (goto (L_out (- NLE_MSG_TRUNC))) s
     else do {
       e \<leftarrow> ld32 b (nlmsg_data hdr);
       if e \<noteq> 0 then
         (case cb_err cb of
            None \<Rightarrow> goto (L_out (- nl_syserr2nlerr e)) s
          | Some f \<Rightarrow> do {
              (err, u) \<leftarrow> f nla e (cb_err_arg cb) (rx_user s);
              let s = s\<lparr>rx_user := u\<rparr>;
              if is_neg err then goto (L_out err) s
              else if err = NL_SKIP then goto L_skip s
              else if err = NL_STOP then goto (L_out (- nl_syserr2nlerr e)) s
              else proceed s
            })
       else if_set cb NL_CB_ACK msg proceed s
     }
   }"

definition dispatch_msg :: "'u nl_cb \<Rightarrow> nl_msg \<Rightarrow> bytes \<Rightarrow> nat \<Rightarrow> sockaddr_nl \<Rightarrow> u16 \<Rightarrow> ('u, 'k) stage" where
  "dispatch_msg cb msg b hdr nla type s =
    (if type = NLMSG_DONE then if_set cb NL_CB_FINISH msg proceed (s\<lparr>rx_multipart := False\<rparr>)
     else if type = NLMSG_NOOP then if_set cb NL_CB_SKIPPED msg (goto L_skip) s
     else if type = NLMSG_OVERRUN
     then if_set cb NL_CB_OVERRUN msg (goto (L_out (- NLE_MSG_OVERFLOW))) s
     else if type = NLMSG_ERROR then error_msg cb msg b hdr nla s
     else if_set cb NL_CB_VALID msg proceed s)"

definition recv_msg ::
  "'k sys \<Rightarrow> 'u nl_cb \<Rightarrow> bytes \<Rightarrow> nat \<Rightarrow> sockaddr_nl \<Rightarrow> ucred option \<Rightarrow> ('u, 'k) stage" where
  "recv_msg sys cb b hdr nla creds s =
    (let ((ok1, ok2), p) = sys_alloc2 sys (rx_proc s); s = s\<lparr>rx_proc := p\<rparr> in do {
       msg \<leftarrow> nlmsg_convert ok1 ok2 b hdr;
       (case msg of
          None \<Rightarrow> goto (L_out (- NLE_NOMEM)) s
        | Some msg \<Rightarrow> do {
            let msg = nlmsg_set_src (nlmsg_set_proto msg (s_proto (rx_sk s))) nla;
            let msg = (case creds of None \<Rightarrow> msg | Some c \<Rightarrow> nlmsg_set_creds msg c);
            type \<leftarrow> ld16 b (hdr + NLH_TYPE);
            flags \<leftarrow> ld16 b (hdr + NLH_FLAGS);
            seq \<leftarrow> ld32 b (hdr + NLH_SEQ);
            and_then (if_set cb NL_CB_MSG_IN msg proceed)
              (and_then (seq_check cb msg seq)
                (and_then (account_msg type flags)
                  (and_then (send_ack cb msg flags)
                    (dispatch_msg cb msg b hdr nla type)))) s
          })
     })"

section \<open>The messages of a buffer\<close>

lemma nlmsg_step:
  assumes "nlmsg_ok b h n = Some True" and "nlmsg_next b h n = Some (h', n')"
  shows "sint n' < sint n \<and> 16 \<le> sint n"
proof -
  obtain len where len: "ld32 b h = Some len" "16 \<le> len" "len \<le> n" and n: "16 \<le> sint n"
    using assms(1) by (auto simp: nlmsg_ok_def bind_eq_Some_conv split: if_splits)
  define t where "t = NLMSG_ALIGN len"
  have t: "\<not> is_neg t" "n' = n - t"
    using assms(2) len(1) by (auto simp: nlmsg_next_def t_def Let_def split: if_splits)
  have "unat n < 2147483648"
    using n unat_of_sint [of n] sint_less [of n] by simp
  then have "unat len < 2147483648" using len(3) by (simp add: word_le_nat_alt)
  then have "unat t = align4 (unat len)" by (simp add: t_def unat_NLMSG_ALIGN)
  then have "16 \<le> sint t"
    using t(1) unat_of_sint [of t] len(2) align4_ge [of "unat len"] by (simp add: word_le_nat_alt)
  moreover have "sint (n - t) = sint n - sint t"
    by (rule sint_minus_i32) (use n t sint_less [of t] sint_less [of n] \<open>16 \<le> sint t\<close> in simp_all)
  ultimately show ?thesis using t n by simp
qed

text \<open>The loop over the messages of a buffer; it ends with the label that left it, if any.\<close>

function recv_loop ::
  "'k sys \<Rightarrow> 'u nl_cb \<Rightarrow> bytes \<Rightarrow> sockaddr_nl \<Rightarrow> ucred option \<Rightarrow> nat \<Rightarrow> i32 \<Rightarrow> ('u, 'k) stage" where
  "recv_loop sys cb b nla creds hdr n s = do {
     ok \<leftarrow> nlmsg_ok b hdr n;
     if \<not> ok then proceed s
     else do {
       (l, s) \<leftarrow> recv_msg sys cb b hdr nla creds s;
       if l = None \<or> l = Some L_skip then do {
         (hdr, n) \<leftarrow> nlmsg_next b hdr n;
         recv_loop sys cb b nla creds hdr n s
       }
       else Some (l, s)
     }
   }"
  by pat_completeness auto

termination
  by (relation "measure (\<lambda>(sys, cb, b, nla, creds, hdr, n, s). nat (sint n))")
    (auto dest: nlmsg_step)

declare recv_loop.simps [simp del]

section \<open>Receiving\<close>

partial_function (option) recvmsgs_from ::
  "'k sys \<Rightarrow> 'u nl_cb \<Rightarrow> ('u, 'k) rx \<Rightarrow> (i32 \<times> ('u, 'k) rx) option" where
  "recvmsgs_from sys cb s = do {
     ((n, r), p) \<leftarrow> nl_recv sys (rx_sk s) (rx_proc s);
     let s = s\<lparr>rx_proc := p\<rparr>;
     (case r of
        None \<Rightarrow> Some (n, s)
      | Some r \<Rightarrow> do {
          (l, s) \<leftarrow> recv_loop sys cb (r_data r) (r_name r) (r_creds r) 0 n s;
          (case l of
             Some (L_out err) \<Rightarrow> Some (err, s)
           | Some _ \<Rightarrow> Some (0, s)
           | None \<Rightarrow> if rx_multipart s then recvmsgs_from sys cb s else Some (0, s))
        })
   }"

definition recvmsgs ::
  "'k sys \<Rightarrow> 'u nl_sock \<Rightarrow> 'u nl_cb \<Rightarrow> 'u \<Rightarrow> 'k proc \<Rightarrow> (i32 \<times> 'u nl_sock \<times> 'u \<times> 'k proc) option" where
  "recvmsgs sys sk cb u p = do {
     (err, s) \<leftarrow> recvmsgs_from sys cb \<lparr>rx_sk = sk, rx_multipart = False, rx_user = u, rx_proc = p\<rparr>;
     Some (err, rx_sk s, rx_user s, rx_proc s)
   }"

definition nl_recvmsgs ::
  "'k sys \<Rightarrow> 'u nl_sock \<Rightarrow> 'u nl_cb \<Rightarrow> 'u \<Rightarrow> 'k proc \<Rightarrow> (i32 \<times> 'u nl_sock \<times> 'u \<times> 'k proc) option" where
  "nl_recvmsgs sys sk cb u p = recvmsgs sys sk cb u p"

definition nl_recvmsgs_default ::
  "'k sys \<Rightarrow> 'u nl_sock \<Rightarrow> 'u \<Rightarrow> 'k proc \<Rightarrow> (i32 \<times> 'u nl_sock \<times> 'u \<times> 'k proc) option" where
  "nl_recvmsgs_default sys sk u p = nl_recvmsgs sys sk (s_cb sk) u p"

definition ack_wait_handler :: "'u msg_cb" where
  "ack_wait_handler msg arg u = Some (NL_STOP, u)"

definition nl_wait_for_ack ::
  "'k sys \<Rightarrow> 'u nl_sock \<Rightarrow> 'u \<Rightarrow> 'k proc \<Rightarrow> (i32 \<times> 'u nl_sock \<times> 'u \<times> 'k proc) option" where
  "nl_wait_for_ack sys sk u p =
    (let (ok, k) = sys_alloc sys (kern p); p = p\<lparr>kern := k\<rparr> in
     case nl_cb_clone ok (s_cb sk) of
       None \<Rightarrow> Some (- NLE_NOMEM, sk, u, p)
     | Some cb \<Rightarrow> do {
         let cb = snd (nl_cb_set cb NL_CB_ACK NL_CB_CUSTOM (Some ack_wait_handler) 0);
         (err, sk, u, p) \<leftarrow> nl_recvmsgs sys sk cb u p;
         _ \<leftarrow> nl_cb_put (Some cb);
         Some (err, sk, u, p)
       })"

section \<open>One datagram\<close>

text \<open>A datagram that is a single message: its length field is its length, a multiple of four.\<close>

definition whole_msg :: "bytes \<Rightarrow> bool" where
  "whole_msg d \<longleftrightarrow> 16 \<le> length d \<and> length d < 2 ^ 30 \<and> 4 dvd length d
     \<and> ld32 d 0 = Some (word_of_nat (length d))"

lemma whole_msg_len:
  assumes "whole_msg d"
  defines "n \<equiv> (word_of_nat (length d) :: i32)"
  shows "unat n = length d" "sint n = int (length d)" "ld32 d 0 = Some n" "NLMSG_ALIGN n = n"
proof -
  show u: "unat n = length d"
    unfolding n_def using assms(1) by (subst unat_of_nat) (simp add: whole_msg_def)
  show "sint n = int (length d)"
    using sint_nonneg_u32 [of n] u assms(1) by (simp add: whole_msg_def)
  show "ld32 d 0 = Some n" using assms by (simp add: whole_msg_def)
  show "NLMSG_ALIGN n = n"
    using assms NLMSG_ALIGN_of_nat [of "length d"] by (simp add: whole_msg_def align4_id)
qed

text \<open>Reading a field of a message that stands inside of a buffer.\<close>

lemma ld_mid:
  "off + 2 \<le> length m \<Longrightarrow> ld16 (pre @ m @ post) (length pre + off) = ld16 m off"
  "off + 4 \<le> length m \<Longrightarrow> ld32 (pre @ m @ post) (length pre + off) = ld32 m off"
  by (auto simp: ld16_def ld32_def of_le16_def of_le32_def take_append)

text \<open>One round of the loop over the messages of a buffer, and its end.\<close>

lemma recv_loop_cons:
  assumes m: "whole_msg m" and b: "b = pre @ m @ post" and small: "length b < 2 ^ 30"
  shows "recv_loop sys cb b nla creds (length pre) (word_of_nat (length (m @ post))) s = do {
           (l, s) \<leftarrow> recv_msg sys cb b (length pre) nla creds s;
           if l = None \<or> l = Some L_skip
           then recv_loop sys cb b nla creds (length (pre @ m)) (word_of_nat (length post)) s
           else Some (l, s)
         }"
proof -
  note n = whole_msg_len [OF m]
  define N :: i32 where "N = word_of_nat (length (m @ post))"
  have len: "16 \<le> length m" using m by (simp add: whole_msg_def)
  have uN: "unat N = length (m @ post)"
    unfolding N_def using small b by (subst unat_of_nat) simp
  have sN: "sint N = int (length (m @ post))"
    using sint_nonneg_u32 [of N] uN small b by simp
  have ld: "ld32 b (length pre) = Some (word_of_nat (length m))"
    using ld_mid(2) [of 0 m pre post] n(3) len b by simp
  have "nlmsg_ok b (length pre) N = Some True"
    using ld n sN uN len by (simp add: nlmsg_ok_def word_le_nat_alt)
  moreover have "nlmsg_next b (length pre) N = Some (length (pre @ m), word_of_nat (length post))"
    using ld n by (simp add: nlmsg_next_def N_def)
  ultimately show ?thesis
    unfolding N_def [symmetric]
    by (subst recv_loop.simps) (simp cong: if_cong)
qed

lemma recv_loop_end: "recv_loop sys cb b nla creds hdr 0 s = Some (None, s)"
  by (subst recv_loop.simps) (simp add: nlmsg_ok_def proceed_def)

lemma recv_loop_single:
  assumes "whole_msg d"
  shows "recv_loop sys cb d nla creds 0 (word_of_nat (length d)) s = do {
           (l, s) \<leftarrow> recv_msg sys cb d 0 nla creds s;
           if l = None \<or> l = Some L_skip then Some (None, s) else Some (l, s)
         }"
  using recv_loop_cons [OF assms, of d "[]" "[]" sys cb nla creds s] assms
  by (simp add: whole_msg_def recv_loop_end cong: if_cong)

lemma nlmsg_convert_at:
  assumes "whole_msg m" and "b = pre @ m @ post"
  shows "nlmsg_convert True True b (length pre) = Some (Some ((fresh_msg (word_of_nat (length m)))\<lparr>nm_nlh := m\<rparr>))"
proof -
  define n :: u32 where "n = word_of_nat (length m)"
  note wn = whole_msg_len [OF assms(1), folded n_def]
  have len: "16 \<le> length m" "length m < 2 ^ 30" using assms(1) by (simp_all add: whole_msg_def)
  have ld: "ld32 b (length pre) = Some n"
    using ld_mid(2) [of 0 m pre post] wn(3) len assms(2) by simp
  have sz: "ucast (NLMSG_ALIGN n) = (word_of_nat (length m) :: u64)"
    using wn len by (intro word_unat_eq_iff [THEN iffD2]) (simp add: unat_of_nat)
  have u: "unat (word_of_nat (length m) :: u64) = length m"
    using len by (simp add: unat_of_nat)
  then have "nlmsg_alloc_raw True True (word_of_nat (length m)) = Some (Some (fresh_msg (word_of_nat (length m))))"
    using len by (intro nlmsg_alloc_fresh) (simp add: word_le_nat_alt)
  moreover have "length (nm_nlh (fresh_msg (word_of_nat (length m)))) = length m"
    using u len by (simp add: fresh_msg_def)
  ultimately show ?thesis
    using wn ld sz assms(2) by (simp add: nlmsg_convert_def ld_bytes_def take_exact_def blit_def)
qed

text \<open>
  A message with the sequence number the socket expects, which asks for no acknowledgement, on a
  socket where only the callbacks for valid messages, acknowledgements and the ends of dumps may
  be set: it is counted and dispatched by its type.
\<close>

definition quiet_cb :: "'u nl_cb \<Rightarrow> bool" where
  "quiet_cb cb \<longleftrightarrow> cb_set cb NL_CB_MSG_IN = None \<and> cb_set cb NL_CB_SEQ_CHECK = None
     \<and> cb_set cb NL_CB_SEND_ACK = None \<and> cb_set cb NL_CB_INVALID = None \<and> cb_err cb = None"

definition rcvd_msg :: "bytes \<Rightarrow> 'u nl_sock \<Rightarrow> sockaddr_nl \<Rightarrow> nl_msg" where
  "rcvd_msg d sk nla = (fresh_msg (word_of_nat (length d)))\<lparr>nm_nlh := d, nm_protocol := s_proto sk, nm_src := nla\<rparr>"

definition counted :: "u16 \<Rightarrow> 'u nl_sock \<Rightarrow> 'u nl_sock" where
  "counted ty sk = (if ty \<in> {NLMSG_NOOP, NLMSG_ERROR, NLMSG_DONE, NLMSG_OVERRUN}
     then sk\<lparr>s_seq_expect := s_seq_expect sk + 1\<rparr> else sk)"

lemma recv_msg_quiet:
  assumes m: "whole_msg m" and b: "b = pre @ m @ post"
    and fields: "ld16 m 4 = Some ty" "ld16 m 6 = Some fl" "ld32 m 8 = Some sq" and fl: "fl AND NLM_F_ACK = 0"
    and cb: "quiet_cb cb" and sq: "sq = s_seq_expect (rx_sk s)"
    and ok: "sys_alloc2 sys (rx_proc s) = ((True, True), p)"
  shows "recv_msg sys cb b (length pre) nla None s =
    dispatch_msg cb (rcvd_msg m (rx_sk s) nla) b (length pre) nla ty
      (s\<lparr>rx_proc := p, rx_sk := counted ty (rx_sk s), rx_multipart := rx_multipart s \<or> fl AND NLM_F_MULTI \<noteq> 0\<rparr>)"
proof -
  have len: "16 \<le> length m" using m by (simp add: whole_msg_def)
  have "ld16 b (length pre + 4) = Some ty" "ld16 b (length pre + 6) = Some fl" "ld32 b (length pre + 8) = Some sq"
    using fields ld_mid [of _ m pre post] len b by simp_all
  then show ?thesis
    using fl cb sq ok nlmsg_convert_at [OF m b]
    by (auto simp: recv_msg_def and_then_def if_set_def proceed_def seq_check_def account_msg_def counted_def
        send_ack_def quiet_cb_def rcvd_msg_def nlmsg_set_src_def nlmsg_set_proto_def Let_def)
qed

text \<open>Getting a datagram from the socket, and a call of \<open>recvmsgs\<close> that gets a single message.\<close>

definition datagram :: "bytes \<Rightarrow> sockaddr_nl \<Rightarrow> recv_result" where
  "datagram d nla = \<lparr>r_data = d, r_len = word_of_nat (length d), r_name = nla, r_namelen = 12,
     r_trunc = False, r_ctrunc = False, r_creds = None\<rparr>"

lemma nl_recv_datagram:
  assumes rcv: "sys_recvmsg sys (s_fd sk) (sys_pagesize sys) 0 False (kern p) = (Inr (datagram d nla), k)"
    and d: "d \<noteq> []" "length d < 2 ^ 30" and fits: "length d \<le> unat (sys_pagesize sys)"
    and fl: "s_flags sk AND NL_SOCK_PASSCRED = 0" "s_flags sk AND NL_MSG_PEEK = 0"
  shows "nl_recv sys sk p = Some ((word_of_nat (length d), Some (datagram d nla)), p\<lparr>kern := k\<rparr>)"
proof -
  have u: "unat (word_of_nat (length d) :: i32) = length d"
    using d(2) by (subst unat_of_nat) simp
  then have r0: "word_of_nat (length d) \<noteq> (0 :: i32)" using d(1) by (metis length_0_conv unat_0)
  have "unat (scast (word_of_nat (length d) :: i32) :: u64) = length d"
    using unat_scast_u64 [of "word_of_nat (length d)"] u d(2) by simp
  then have "\<not> sys_pagesize sys < scast (word_of_nat (length d) :: i32)"
    using fits by (simp add: word_less_nat_alt not_less)
  then show ?thesis
    using rcv r0 fl by (simp add: nl_recv_def nl_recv_retry.simps datagram_def)
qed

lemma recvmsgs_one:
  assumes rcv: "sys_recvmsg sys (s_fd sk) (sys_pagesize sys) 0 False (kern p) = (Inr (datagram d nla), k)"
    and d: "whole_msg d" and fits: "length d \<le> unat (sys_pagesize sys)"
    and fl: "s_flags sk AND NL_SOCK_PASSCRED = 0" "s_flags sk AND NL_MSG_PEEK = 0"
    and msg: "recv_msg sys cb d 0 nla None
        \<lparr>rx_sk = sk, rx_multipart = False, rx_user = u, rx_proc = p\<lparr>kern := k\<rparr>\<rparr> = Some (l, s)"
    and one: "\<not> rx_multipart s"
  shows "recvmsgs sys sk cb u p =
    Some ((case l of Some (L_out err) \<Rightarrow> err | _ \<Rightarrow> 0), rx_sk s, rx_user s, rx_proc s)"
proof -
  have "nl_recv sys sk p = Some ((word_of_nat (length d), Some (datagram d nla)), p\<lparr>kern := k\<rparr>)"
    by (rule nl_recv_datagram [OF rcv _ _ fits fl]) (use d in \<open>auto simp: whole_msg_def\<close>)
  then show ?thesis
    using msg one
    by (simp add: recvmsgs_def recvmsgs_from.simps datagram_def recv_loop_single [OF d] split: option.splits label.splits)
qed

end
