(* ===== verification/NL_Object.thy ===== *)
theory NL_Object
  imports NL_Recv
begin

text \<open>
  Objects and caches of the netlink library (\<^verbatim>\<open>libnl-3.0/lib/object.c\<close>, \<^verbatim>\<open>lib/cache.c\<close>).  Objects
  are shared and counted, so they live at addresses of a heap; a cache is the list of the
  addresses of its objects.  An object that is used after it was freed, a reference count
  below zero (\<^verbatim>\<open>BUG()\<close>) and a double free are faults.

  All objects of a heap have the same operations, those of the parameter \<open>ops\<close>; the tests for
  objects of a foreign kind cannot fail.
\<close>

section \<open>Objects\<close>

text \<open>
  \<open>ce_linked\<close> says that \<^verbatim>\<open>ce_list\<close> is not an empty list head: it is set when the object is put
  into a cache, and \<^verbatim>\<open>nl_list_del\<close>, which leaves the pointers of the removed element, does not
  clear it.
\<close>

record 'd nl_object =
  ce_refcnt :: i32
  ce_cache :: "addr option"
  ce_linked :: bool
  ce_msgtype :: i32
  ce_flags :: i32
  ce_mask :: u32
  ce_data :: 'd

text \<open>
  The operations of a kind of objects: the data after allocation and constructor, copying the data
  (with the addresses that can be allocated and the next one; an error code, the data and the next
  address come back), whether the data can be freed without fault, the comparison and the
  attributes that identify an object.
\<close>

record 'd nl_object_ops =
  oo_init :: 'd
  oo_clone :: "'d \<Rightarrow> (addr \<Rightarrow> bool) \<Rightarrow> addr \<Rightarrow> (i32 \<times> 'd \<times> addr) option"
  oo_free_data :: "'d \<Rightarrow> bool"
  oo_compare :: "('d nl_object \<Rightarrow> 'd nl_object \<Rightarrow> u32 \<Rightarrow> i32 \<Rightarrow> u32 option) option"
  oo_id_attrs :: u32

record nl_cache =
  c_items :: "addr list"
  c_nitems :: i32

text \<open>
  \<open>h_next\<close> is the address of the next block and \<open>h_grants\<close> the addresses for which an allocation
  succeeds.
\<close>

record 'd nl_heap =
  h_objs :: "addr \<Rightarrow> 'd nl_object option"
  h_caches :: "addr \<Rightarrow> nl_cache option"
  h_next :: addr
  h_grants :: "addr \<Rightarrow> bool"

definition h_alloc :: "('d, 'x) nl_heap_scheme \<Rightarrow> addr option \<times> ('d, 'x) nl_heap_scheme" where
  "h_alloc h = (if h_grants h (h_next h) then Some (h_next h) else None, h\<lparr>h_next := h_next h + 1\<rparr>)"

definition set_obj :: "addr \<Rightarrow> 'd nl_object \<Rightarrow> ('d, 'x) nl_heap_scheme \<Rightarrow> ('d, 'x) nl_heap_scheme" where
  "set_obj a ob h = h\<lparr>h_objs := (h_objs h)(a \<mapsto> ob)\<rparr>"

definition set_cache :: "addr \<Rightarrow> nl_cache \<Rightarrow> ('d, 'x) nl_heap_scheme \<Rightarrow> ('d, 'x) nl_heap_scheme" where
  "set_cache c ca h = h\<lparr>h_caches := (h_caches h)(c \<mapsto> ca)\<rparr>"

definition nl_object_alloc :: "'d nl_object_ops \<Rightarrow> ('d, 'x) nl_heap_scheme \<Rightarrow> addr option \<times> ('d, 'x) nl_heap_scheme" where
  "nl_object_alloc ops h =
    (case h_alloc h of
       (None, h) \<Rightarrow> (None, h)
     | (Some a, h) \<Rightarrow> (Some a, set_obj a \<lparr>ce_refcnt = 1, ce_cache = None, ce_linked = False, ce_msgtype = 0,
          ce_flags = 0, ce_mask = 0, ce_data = oo_init ops\<rparr> h))"

definition nl_object_get :: "addr \<Rightarrow> ('d, 'x) nl_heap_scheme \<Rightarrow> ('d, 'x) nl_heap_scheme option" where
  "nl_object_get a h = do {
     ob \<leftarrow> h_objs h a;
     Some (set_obj a (ob\<lparr>ce_refcnt := ce_refcnt ob + 1\<rparr>) h)
   }"

text \<open>
  \<open>nl_object_put\<close>, \<open>nl_object_free\<close> and \<open>nl_cache_remove\<close> call one another.  The call of
  \<open>nl_object_put\<close> in \<open>nl_cache_remove\<close> happens after \<^verbatim>\<open>ce_cache\<close> was cleared, so that it frees an
  object outside every cache, with \<open>free_uncached\<close>.
\<close>

definition free_uncached :: "'d nl_object_ops \<Rightarrow> addr \<Rightarrow> ('d, 'x) nl_heap_scheme \<Rightarrow> ('d, 'x) nl_heap_scheme option" where
  "free_uncached ops a h = do {
     ob \<leftarrow> h_objs h a;
     if oo_free_data ops (ce_data ob) then Some (h\<lparr>h_objs := (h_objs h)(a := None)\<rparr>) else None
   }"

definition put_with :: "(addr \<Rightarrow> ('d, 'x) nl_heap_scheme \<Rightarrow> ('d, 'x) nl_heap_scheme option) \<Rightarrow> addr \<Rightarrow> ('d, 'x) nl_heap_scheme \<Rightarrow> ('d, 'x) nl_heap_scheme option" where
  "put_with free a h = do {
     ob \<leftarrow> h_objs h a;
     let ob = ob\<lparr>ce_refcnt := ce_refcnt ob - 1\<rparr>;
     let h = set_obj a ob h;
     if is_neg (ce_refcnt ob) then None
     else if sint (ce_refcnt ob) \<le> 0 then free a h else Some h
   }"

definition nl_cache_remove :: "'d nl_object_ops \<Rightarrow> addr \<Rightarrow> ('d, 'x) nl_heap_scheme \<Rightarrow> ('d, 'x) nl_heap_scheme option" where
  "nl_cache_remove ops a h = do {
     ob \<leftarrow> h_objs h a;
     (case ce_cache ob of
        None \<Rightarrow> Some h
      | Some c \<Rightarrow> do {
          ca \<leftarrow> h_caches h c;
          let h = set_cache c (ca\<lparr>c_items := remove1 a (c_items ca)\<rparr>) h;
          h \<leftarrow> put_with (free_uncached ops) a (set_obj a (ob\<lparr>ce_cache := None\<rparr>) h);
          ca \<leftarrow> h_caches h c;
          Some (set_cache c (ca\<lparr>c_nitems := c_nitems ca - 1\<rparr>) h)
        })
   }"

definition nl_object_free :: "'d nl_object_ops \<Rightarrow> addr \<Rightarrow> ('d, 'x) nl_heap_scheme \<Rightarrow> ('d, 'x) nl_heap_scheme option" where
  "nl_object_free ops a h = do {
     ob \<leftarrow> h_objs h a;
     h \<leftarrow> (if ce_cache ob \<noteq> None then nl_cache_remove ops a h else Some h);
     free_uncached ops a h
   }"

definition nl_object_put :: "'d nl_object_ops \<Rightarrow> addr option \<Rightarrow> ('d, 'x) nl_heap_scheme \<Rightarrow> ('d, 'x) nl_heap_scheme option" where
  "nl_object_put ops obj h =
     (case obj of None \<Rightarrow> Some h | Some a \<Rightarrow> put_with (nl_object_free ops) a h)"

definition nl_object_clone :: "'d nl_object_ops \<Rightarrow> addr \<Rightarrow> ('d, 'x) nl_heap_scheme \<Rightarrow> (addr option \<times> ('d, 'x) nl_heap_scheme) option" where
  "nl_object_clone ops a h = do {
     ob \<leftarrow> h_objs h a;
     (case nl_object_alloc ops h of
        (None, h) \<Rightarrow> Some (None, h)
      | (Some n, h) \<Rightarrow> do {
          new \<leftarrow> h_objs h n;
          (err, d, nxt) \<leftarrow> oo_clone ops (ce_data ob) (h_grants h) (h_next h);
          let h = set_obj n (new\<lparr>ce_msgtype := ce_msgtype ob, ce_mask := ce_mask ob, ce_data := d\<rparr>) (h\<lparr>h_next := nxt\<rparr>);
          if is_neg err then do { h \<leftarrow> nl_object_free ops n h; Some (None, h) } else Some (Some n, h)
        })
   }"

definition nl_object_shared :: "addr \<Rightarrow> ('d, 'x) nl_heap_scheme \<Rightarrow> bool option" where
  "nl_object_shared a h = do { ob \<leftarrow> h_objs h a; Some (1 < sint (ce_refcnt ob)) }"

definition NL_OBJ_MARK :: i32 where "NL_OBJ_MARK = 1"

definition nl_object_mark :: "addr \<Rightarrow> ('d, 'x) nl_heap_scheme \<Rightarrow> ('d, 'x) nl_heap_scheme option" where
  "nl_object_mark a h = do {
     ob \<leftarrow> h_objs h a;
     Some (set_obj a (ob\<lparr>ce_flags := ce_flags ob OR NL_OBJ_MARK\<rparr>) h)
   }"

definition nl_object_unmark :: "addr \<Rightarrow> ('d, 'x) nl_heap_scheme \<Rightarrow> ('d, 'x) nl_heap_scheme option" where
  "nl_object_unmark a h = do {
     ob \<leftarrow> h_objs h a;
     Some (set_obj a (ob\<lparr>ce_flags := ce_flags ob AND NOT NL_OBJ_MARK\<rparr>) h)
   }"

definition nl_object_is_marked :: "addr \<Rightarrow> ('d, 'x) nl_heap_scheme \<Rightarrow> bool option" where
  "nl_object_is_marked a h = do { ob \<leftarrow> h_objs h a; Some (ce_flags ob AND NL_OBJ_MARK \<noteq> 0) }"

definition nl_object_identical :: "'d nl_object_ops \<Rightarrow> addr \<Rightarrow> addr \<Rightarrow> ('d, 'x) nl_heap_scheme \<Rightarrow> bool option" where
  "nl_object_identical ops a b h = do {
     oa \<leftarrow> h_objs h a;
     ob \<leftarrow> h_objs h b;
     let req_attrs = (if oo_id_attrs ops = - 1 then ce_mask oa AND ce_mask ob else oo_id_attrs ops);
     if ce_mask oa AND req_attrs \<noteq> req_attrs \<or> ce_mask ob AND req_attrs \<noteq> req_attrs then Some False
     else (case oo_compare ops of
             None \<Rightarrow> Some False
           | Some compare \<Rightarrow> do { diff \<leftarrow> compare oa ob req_attrs 0; Some (diff = 0) })
   }"

definition nl_object_diff :: "'d nl_object_ops \<Rightarrow> addr \<Rightarrow> addr \<Rightarrow> ('d, 'x) nl_heap_scheme \<Rightarrow> u32 option" where
  "nl_object_diff ops a b h = do {
     oa \<leftarrow> h_objs h a;
     ob \<leftarrow> h_objs h b;
     (case oo_compare ops of None \<Rightarrow> Some UINT_MAX | Some compare \<Rightarrow> compare oa ob (- 1) 0)
   }"

definition nl_object_match_filter :: "'d nl_object_ops \<Rightarrow> addr \<Rightarrow> addr \<Rightarrow> ('d, 'x) nl_heap_scheme \<Rightarrow> bool option" where
  "nl_object_match_filter ops a filt h = do {
     oa \<leftarrow> h_objs h a;
     ob \<leftarrow> h_objs h filt;
     (case oo_compare ops of
        None \<Rightarrow> Some False
      | Some compare \<Rightarrow> do { diff \<leftarrow> compare oa ob (ce_mask ob) 1; Some (diff = 0) })
   }"

definition nl_object_get_refcnt :: "addr \<Rightarrow> ('d, 'x) nl_heap_scheme \<Rightarrow> i32 option" where
  "nl_object_get_refcnt a h = do { ob \<leftarrow> h_objs h a; Some (ce_refcnt ob) }"

definition nl_object_get_cache :: "addr \<Rightarrow> ('d, 'x) nl_heap_scheme \<Rightarrow> addr option option" where
  "nl_object_get_cache a h = do { ob \<leftarrow> h_objs h a; Some (ce_cache ob) }"

section \<open>Caches\<close>

definition nl_cache_nitems :: "addr \<Rightarrow> ('d, 'x) nl_heap_scheme \<Rightarrow> i32 option" where
  "nl_cache_nitems c h = do { ca \<leftarrow> h_caches h c; Some (c_nitems ca) }"

primrec count_matching :: "'d nl_object_ops \<Rightarrow> addr option \<Rightarrow> ('d, 'x) nl_heap_scheme \<Rightarrow> addr list \<Rightarrow> i32 option" where
  "count_matching ops filt h [] = Some 0"
| "count_matching ops filt h (a # as) = do {
     m \<leftarrow> (case filt of None \<Rightarrow> Some True | Some f \<Rightarrow> nl_object_match_filter ops a f h);
     n \<leftarrow> count_matching ops filt h as;
     Some (if m then n + 1 else n)
   }"

definition nl_cache_nitems_filter :: "'d nl_object_ops \<Rightarrow> addr \<Rightarrow> addr option \<Rightarrow> ('d, 'x) nl_heap_scheme \<Rightarrow> i32 option" where
  "nl_cache_nitems_filter ops c filt h = do { ca \<leftarrow> h_caches h c; count_matching ops filt h (c_items ca) }"

definition nl_cache_is_empty :: "addr \<Rightarrow> ('d, 'x) nl_heap_scheme \<Rightarrow> bool option" where
  "nl_cache_is_empty c h = do { ca \<leftarrow> h_caches h c; Some (c_items ca = []) }"

definition nl_cache_get_first :: "addr \<Rightarrow> ('d, 'x) nl_heap_scheme \<Rightarrow> addr option option" where
  "nl_cache_get_first c h = do { ca \<leftarrow> h_caches h c; Some (case c_items ca of [] \<Rightarrow> None | a # _ \<Rightarrow> Some a) }"

definition nl_cache_get_last :: "addr \<Rightarrow> ('d, 'x) nl_heap_scheme \<Rightarrow> addr option option" where
  "nl_cache_get_last c h = do { ca \<leftarrow> h_caches h c; Some (if c_items ca = [] then None else Some (last (c_items ca))) }"

text \<open>The neighbour of an object in the list of its cache; an object outside every cache is a fault.\<close>

fun after :: "addr \<Rightarrow> addr list \<Rightarrow> addr option" where
  "after a (x # y # ys) = (if x = a then Some y else after a (y # ys))"
| "after a _ = None"

definition nl_cache_get_next :: "addr \<Rightarrow> ('d, 'x) nl_heap_scheme \<Rightarrow> addr option option" where
  "nl_cache_get_next a h = do {
     ob \<leftarrow> h_objs h a;
     c \<leftarrow> ce_cache ob;
     ca \<leftarrow> h_caches h c;
     Some (after a (c_items ca))
   }"

definition nl_cache_get_prev :: "addr \<Rightarrow> ('d, 'x) nl_heap_scheme \<Rightarrow> addr option option" where
  "nl_cache_get_prev a h = do {
     ob \<leftarrow> h_objs h a;
     c \<leftarrow> ce_cache ob;
     ca \<leftarrow> h_caches h c;
     Some (after a (rev (c_items ca)))
   }"

definition nl_cache_alloc :: "('d, 'x) nl_heap_scheme \<Rightarrow> addr option \<times> ('d, 'x) nl_heap_scheme" where
  "nl_cache_alloc h =
    (case h_alloc h of
       (None, h) \<Rightarrow> (None, h)
     | (Some c, h) \<Rightarrow> (Some c, set_cache c \<lparr>c_items = [], c_nitems = 0\<rparr> h))"

text \<open>The loop of \<open>nl_cache_clear\<close>, over the items the cache has at its start.\<close>

primrec remove_all :: "'d nl_object_ops \<Rightarrow> addr list \<Rightarrow> ('d, 'x) nl_heap_scheme \<Rightarrow> ('d, 'x) nl_heap_scheme option" where
  "remove_all ops [] h = Some h"
| "remove_all ops (a # as) h = do { h \<leftarrow> nl_cache_remove ops a h; remove_all ops as h }"

definition nl_cache_clear :: "'d nl_object_ops \<Rightarrow> addr \<Rightarrow> ('d, 'x) nl_heap_scheme \<Rightarrow> ('d, 'x) nl_heap_scheme option" where
  "nl_cache_clear ops c h = do { ca \<leftarrow> h_caches h c; remove_all ops (c_items ca) h }"

definition nl_cache_free :: "'d nl_object_ops \<Rightarrow> addr option \<Rightarrow> ('d, 'x) nl_heap_scheme \<Rightarrow> ('d, 'x) nl_heap_scheme option" where
  "nl_cache_free ops cache h =
    (case cache of
       None \<Rightarrow> Some h
     | Some c \<Rightarrow> do {
         h \<leftarrow> nl_cache_clear ops c h;
         Some (h\<lparr>h_caches := (h_caches h)(c := None)\<rparr>)
       })"

text \<open>\<^verbatim>\<open>__cache_add\<close>.\<close>

definition cache_add_tail :: "addr \<Rightarrow> addr \<Rightarrow> ('d, 'x) nl_heap_scheme \<Rightarrow> (i32 \<times> ('d, 'x) nl_heap_scheme) option" where
  "cache_add_tail c a h = do {
     ob \<leftarrow> h_objs h a;
     ca \<leftarrow> h_caches h c;
     Some (0, set_cache c \<lparr>c_items = c_items ca @ [a], c_nitems = c_nitems ca + 1\<rparr>
            (set_obj a (ob\<lparr>ce_cache := Some c, ce_linked := True\<rparr>) h))
   }"

definition nl_cache_add :: "'d nl_object_ops \<Rightarrow> addr \<Rightarrow> addr \<Rightarrow> ('d, 'x) nl_heap_scheme \<Rightarrow> (i32 \<times> ('d, 'x) nl_heap_scheme) option" where
  "nl_cache_add ops c a h = do {
     ob \<leftarrow> h_objs h a;
     if ce_linked ob then do {
       (new, h) \<leftarrow> nl_object_clone ops a h;
       (case new of
          None \<Rightarrow> Some (- NLE_NOMEM, h)
        | Some n \<Rightarrow> cache_add_tail c n h)
     }
     else do {
       h \<leftarrow> nl_object_get a h;
       cache_add_tail c a h
     }
   }"

definition nl_cache_move :: "'d nl_object_ops \<Rightarrow> addr \<Rightarrow> addr \<Rightarrow> ('d, 'x) nl_heap_scheme \<Rightarrow> (i32 \<times> ('d, 'x) nl_heap_scheme) option" where
  "nl_cache_move ops c a h = do {
     h \<leftarrow> nl_object_get a h;
     ob \<leftarrow> h_objs h a;
     h \<leftarrow> (if ce_linked ob then nl_cache_remove ops a h else Some h);
     cache_add_tail c a h
   }"

primrec search_items :: "'d nl_object_ops \<Rightarrow> addr \<Rightarrow> ('d, 'x) nl_heap_scheme \<Rightarrow> addr list \<Rightarrow> addr option option" where
  "search_items ops needle h [] = Some None"
| "search_items ops needle h (a # as) = do {
     eq \<leftarrow> nl_object_identical ops a needle h;
     if eq then Some (Some a) else search_items ops needle h as
   }"

definition nl_cache_search :: "'d nl_object_ops \<Rightarrow> addr \<Rightarrow> addr \<Rightarrow> ('d, 'x) nl_heap_scheme \<Rightarrow> (addr option \<times> ('d, 'x) nl_heap_scheme) option" where
  "nl_cache_search ops c needle h = do {
     ca \<leftarrow> h_caches h c;
     r \<leftarrow> search_items ops needle h (c_items ca);
     (case r of
        None \<Rightarrow> Some (None, h)
      | Some a \<Rightarrow> do { h \<leftarrow> nl_object_get a h; Some (Some a, h) })
   }"

primrec mark_items :: "addr list \<Rightarrow> ('d, 'x) nl_heap_scheme \<Rightarrow> ('d, 'x) nl_heap_scheme option" where
  "mark_items [] h = Some h"
| "mark_items (a # as) h = do { h \<leftarrow> nl_object_mark a h; mark_items as h }"

definition nl_cache_mark_all :: "addr \<Rightarrow> ('d, 'x) nl_heap_scheme \<Rightarrow> ('d, 'x) nl_heap_scheme option" where
  "nl_cache_mark_all c h = do { ca \<leftarrow> h_caches h c; mark_items (c_items ca) h }"

section \<open>Reference counts\<close>

text \<open>
  \<open>refs_ok\<close> with the number of references that users hold on each object: the count of an
  object is this number plus one for its cache, an object without references does not exist,
  and objects and caches agree about which object is where.
\<close>

definition in_cache :: "'d nl_object \<Rightarrow> nat" where
  "in_cache ob = (case ce_cache ob of None \<Rightarrow> 0 | Some _ \<Rightarrow> 1)"

definition obj_ok :: "'d nl_object_ops \<Rightarrow> (addr \<Rightarrow> nl_cache option) \<Rightarrow> addr \<Rightarrow> 'd nl_object \<Rightarrow> nat \<Rightarrow> bool" where
  "obj_ok ops cs a ob n \<longleftrightarrow> ce_refcnt ob = word_of_nat (n + in_cache ob) \<and> 0 < n + in_cache ob \<and> n < 2 ^ 30
     \<and> oo_free_data ops (ce_data ob)
     \<and> (\<forall>c. ce_cache ob = Some c \<longrightarrow> ce_linked ob \<and> (\<exists>ca. cs c = Some ca \<and> a \<in> set (c_items ca)))"

definition cache_ok :: "(addr \<Rightarrow> 'd nl_object option) \<Rightarrow> addr \<Rightarrow> nl_cache \<Rightarrow> bool" where
  "cache_ok objs c ca \<longleftrightarrow> distinct (c_items ca) \<and> c_nitems ca = word_of_nat (length (c_items ca))
     \<and> (\<forall>a \<in> set (c_items ca). \<exists>ob. objs a = Some ob \<and> ce_cache ob = Some c)"

definition refs_ok :: "'d nl_object_ops \<Rightarrow> ('d, 'x) nl_heap_scheme \<Rightarrow> (addr \<Rightarrow> nat) \<Rightarrow> bool" where
  "refs_ok ops h rc \<longleftrightarrow>
     (\<forall>a. case h_objs h a of None \<Rightarrow> rc a = 0 | Some ob \<Rightarrow> obj_ok ops (h_caches h) a ob (rc a))
     \<and> (\<forall>c ca. h_caches h c = Some ca \<longrightarrow> cache_ok (h_objs h) c ca)"

lemma set_obj_simps [simp]:
  "h_objs (set_obj a ob h) = (h_objs h)(a \<mapsto> ob)" "h_caches (set_obj a ob h) = h_caches h"
  "h_next (set_obj a ob h) = h_next h" "h_grants (set_obj a ob h) = h_grants h"
  "h_objs (set_cache c ca h) = h_objs h" "h_caches (set_cache c ca h) = (h_caches h)(c \<mapsto> ca)"
  "h_next (set_cache c ca h) = h_next h" "h_grants (set_cache c ca h) = h_grants h"
  by (simp_all add: set_obj_def set_cache_def)

lemma refs_okD:
  assumes "refs_ok ops h rc"
  shows "h_objs h a = Some ob \<Longrightarrow> obj_ok ops (h_caches h) a ob (rc a)"
    and "h_objs h a = None \<Longrightarrow> rc a = 0"
    and "h_caches h c = Some ca \<Longrightarrow> cache_ok (h_objs h) c ca"
  using assms unfolding refs_ok_def by (fastforce dest: spec [of _ a] split: option.splits)+

lemma refs_okI:
  assumes "\<And>a ob. h_objs h a = Some ob \<Longrightarrow> obj_ok ops (h_caches h) a ob (rc a)"
    and "\<And>a. h_objs h a = None \<Longrightarrow> rc a = 0"
    and "\<And>c ca. h_caches h c = Some ca \<Longrightarrow> cache_ok (h_objs h) c ca"
  shows "refs_ok ops h rc"
  using assms unfolding refs_ok_def by (auto split: option.splits)

text \<open>Changing count and flags of an object, but not its cache.\<close>

lemma refs_ok_set_obj:
  assumes "refs_ok ops h rc" and "h_objs h a = Some ob" and "ce_cache ob' = ce_cache ob" and "ce_linked ob' = ce_linked ob"
    and "oo_free_data ops (ce_data ob')" and "ce_refcnt ob' = word_of_nat (n + in_cache ob)" and "0 < n + in_cache ob" and "n < 2 ^ 30"
  shows "refs_ok ops (set_obj a ob' h) (rc(a := n))"
proof (rule refs_okI, goal_cases)
  case (1 x y)
  then show ?case
    using refs_okD(1) [OF assms(1), of x] refs_okD(1) [OF assms(1,2)] assms(3-)
    by (cases "x = a") (auto simp: obj_ok_def in_cache_def)
next
  case (2 x)
  then show ?case using refs_okD(2) [OF assms(1), of x] by (auto split: if_splits)
next
  case (3 c ca)
  then show ?case
    using refs_okD(3) [OF assms(1), of c ca] assms(2,3) by (auto simp: cache_ok_def)
qed

lemma refs_ok_delete:
  assumes "refs_ok ops h rc" and "h_objs h a = Some ob" and "ce_cache ob = None"
  shows "refs_ok ops (h\<lparr>h_objs := (h_objs h)(a := None)\<rparr>) (rc(a := 0))"
proof (rule refs_okI, goal_cases)
  case (1 x y)
  then show ?case using refs_okD(1) [OF assms(1), of x y] by (auto simp: obj_ok_def split: if_splits)
next
  case (2 x)
  then show ?case using refs_okD(2) [OF assms(1), of x] by (auto split: if_splits)
next
  case (3 c ca)
  then show ?case
    using refs_okD(3) [OF assms(1), of c ca] assms(2,3) by (fastforce simp: cache_ok_def)
qed

lemma sint_count:
  assumes "m < 2 ^ 31"
  shows "sint (word_of_nat m :: i32) = int m"
proof -
  have "unat (word_of_nat m :: i32) = m" using assms by (subst unat_of_nat) simp
  then show ?thesis using assms sint_nonneg_u32 [of "word_of_nat m"] by simp
qed

lemma get_ref:
  assumes "refs_ok ops h rc" and "h_objs h a = Some ob" and "rc a + 1 < 2 ^ 30"
  shows "\<exists>h'. nl_object_get a h = Some h' \<and> refs_ok ops h' (rc(a := rc a + 1))
    \<and> h_caches h' = h_caches h \<and> h_objs h' = (h_objs h)(a \<mapsto> ob\<lparr>ce_refcnt := ce_refcnt ob + 1\<rparr>)"
proof -
  let ?ob = "ob\<lparr>ce_refcnt := ce_refcnt ob + 1\<rparr>"
  have "refs_ok ops (set_obj a ?ob h) (rc(a := rc a + 1))"
    by (rule refs_ok_set_obj [OF assms(1,2)]) (use refs_okD(1) [OF assms(1,2)] assms(3) in \<open>auto simp: obj_ok_def\<close>)
  then show ?thesis using assms(2) by (simp add: nl_object_get_def)
qed

text \<open>Giving a reference back, with any way of freeing an object outside every cache.\<close>

lemma put_ref:
  assumes ok: "refs_ok ops h rc" and a: "h_objs h a = Some ob" and pos: "0 < rc a"
    and free: "\<And>h ob. h_objs h a = Some ob \<Longrightarrow> ce_cache ob = None \<Longrightarrow> oo_free_data ops (ce_data ob) \<Longrightarrow>
      free a h = Some (h\<lparr>h_objs := (h_objs h)(a := None)\<rparr>)"
  shows "\<exists>h'. put_with free a h = Some h' \<and> refs_ok ops h' (rc(a := rc a - 1)) \<and> h_caches h' = h_caches h"
proof -
  have ob: "ce_refcnt ob = word_of_nat (rc a + in_cache ob)" "rc a < 2 ^ 30" "oo_free_data ops (ce_data ob)"
    using refs_okD(1) [OF ok a] by (simp_all add: obj_ok_def)
  define m where "m = rc a - 1 + in_cache ob"
  have m: "word_of_nat (rc a + in_cache ob) - 1 = (word_of_nat m :: i32)" "m < 2 ^ 31"
    using pos ob(2) by (auto simp: m_def in_cache_def of_nat_diff split: option.splits)
  have sm: "sint (word_of_nat m :: i32) = int m" by (rule sint_count [OF m(2)])
  let ?ob = "ob\<lparr>ce_refcnt := word_of_nat m\<rparr>"
  show ?thesis
  proof (cases "m = 0")
    case True
    then have r1: "rc a = 1" "ce_cache ob = None" using pos by (simp_all add: m_def in_cache_def split: option.splits)
    have "put_with free a h = Some (h\<lparr>h_objs := (h_objs h)(a := None)\<rparr>)"
      using a ob m sm True free [of "set_obj a ?ob h" ?ob] r1
      by (simp add: put_with_def set_obj_def)
    then show ?thesis using refs_ok_delete [OF ok a r1(2)] r1(1) by simp
  next
    case False
    have "refs_ok ops (set_obj a ?ob h) (rc(a := rc a - 1))"
      by (rule refs_ok_set_obj [OF ok a]) (use ob False in \<open>auto simp: m_def\<close>)
    moreover have "put_with free a h = Some (set_obj a ?ob h)"
      using a ob m sm False by (simp add: put_with_def)
    ultimately show ?thesis by simp
  qed
qed

lemma free_uncached_ok:
  "h_objs h a = Some ob \<Longrightarrow> ce_cache ob = None \<Longrightarrow> oo_free_data ops (ce_data ob) \<Longrightarrow>
    free_uncached ops a h = Some (h\<lparr>h_objs := (h_objs h)(a := None)\<rparr>)"
  "h_objs h a = Some ob \<Longrightarrow> ce_cache ob = None \<Longrightarrow> oo_free_data ops (ce_data ob) \<Longrightarrow>
    nl_object_free ops a h = Some (h\<lparr>h_objs := (h_objs h)(a := None)\<rparr>)"
  by (simp_all add: free_uncached_def nl_object_free_def)

lemma put_with_set_cache:
  "put_with (free_uncached ops) a (set_cache c ca h) = map_option (set_cache c ca) (put_with (free_uncached ops) a h)"
  by (cases "h_objs h a") (auto simp: put_with_def free_uncached_def set_cache_def set_obj_def Let_def)

lemma put_with_caches: "put_with (free_uncached ops) a h = Some h' \<Longrightarrow> h_caches h' = h_caches h"
  by (auto simp: put_with_def free_uncached_def set_obj_def Let_def bind_eq_Some_conv split: if_splits)

lemma nl_cache_remove_eq:
  assumes "h_objs h a = Some ob" and "ce_cache ob = Some c" and "h_caches h c = Some ca"
  shows "nl_cache_remove ops a h = put_with (free_uncached ops) a (set_cache c
     \<lparr>c_items = remove1 a (c_items ca), c_nitems = c_nitems ca - 1\<rparr> (set_obj a (ob\<lparr>ce_cache := None\<rparr>) h))"
proof -
  let ?ob = "ob\<lparr>ce_cache := None\<rparr>"
  let ?ca = "ca\<lparr>c_items := remove1 a (c_items ca)\<rparr>"
  have comm: "set_obj a ?ob (set_cache c x h) = set_cache c x (set_obj a ?ob h)" for x
    by (simp add: set_obj_def set_cache_def)
  have twice: "set_cache c y (set_cache c x h') = set_cache c y h'" for x y and h' :: "('a, 'b) nl_heap_scheme"
    by (simp add: set_cache_def)
  show ?thesis
    using assms
    by (cases ca; cases "put_with (free_uncached ops) a (set_obj a ?ob h)")
       (simp_all add: nl_cache_remove_def comm put_with_set_cache twice Let_def)
qed

lemma remove_ref:
  assumes ok: "refs_ok ops h rc" and a: "h_objs h a = Some ob" and rc: "rc a + 1 < 2 ^ 30"
  shows "\<exists>h'. nl_cache_remove ops a h = Some h' \<and> refs_ok ops h' rc
    \<and> (\<forall>c ca. h_caches h c = Some ca \<longrightarrow> (\<exists>ca'. h_caches h' c = Some ca' \<and> c_items ca' = remove1 a (c_items ca)))
    \<and> (\<forall>c. h_caches h c = None \<longrightarrow> h_caches h' c = None)"
proof (cases "ce_cache ob")
  case None
  have "a \<notin> set (c_items ca)" if "h_caches h c = Some ca" for c ca
    using refs_okD(3) [OF ok that] a None by (auto simp: cache_ok_def)
  then show ?thesis using None a ok by (auto simp: nl_cache_remove_def remove1_idem)
next
  case (Some c)
  have ob: "ce_refcnt ob = word_of_nat (rc a + 1)" "oo_free_data ops (ce_data ob)" "ce_linked ob"
    using refs_okD(1) [OF ok a] Some by (auto simp: obj_ok_def in_cache_def)
  obtain ca where ca: "h_caches h c = Some ca" "a \<in> set (c_items ca)"
    using refs_okD(1) [OF ok a] Some by (auto simp: obj_ok_def)
  have cok: "distinct (c_items ca)" "c_nitems ca = word_of_nat (length (c_items ca))"
    using refs_okD(3) [OF ok ca(1)] by (simp_all add: cache_ok_def)
  define ca' where "ca' = \<lparr>c_items = remove1 a (c_items ca), c_nitems = c_nitems ca - 1\<rparr>"
  define h1 where "h1 = set_cache c ca' (set_obj a (ob\<lparr>ce_cache := None\<rparr>) h)"
  have len: "c_nitems ca' = word_of_nat (length (c_items ca'))"
    using ca(2) cok by (cases "length (c_items ca)") (auto simp: ca'_def length_remove1)
  have other: "a \<notin> set (c_items da)" if "h_caches h d = Some da" and "d \<noteq> c" for d da
    using refs_okD(3) [OF ok that(1)] a Some that(2) by (auto simp: cache_ok_def)
  have "refs_ok ops h1 (rc(a := rc a + 1))"
  proof (rule refs_okI, goal_cases)
    case (1 x y)
    then show ?case
      using refs_okD(1) [OF ok, of x y] ob rc ca
      by (cases "x = a") (auto simp: h1_def obj_ok_def in_cache_def ca'_def)
  next
    case (2 x)
    then show ?case using refs_okD(2) [OF ok, of x] by (auto simp: h1_def split: if_splits)
  next
    case (3 d da)
    show ?case
    proof (cases "d = c")
      case True
      with 3 have "da = ca'" by (simp add: h1_def)
      with True show ?thesis
        using refs_okD(3) [OF ok ca(1)] cok len by (auto simp: cache_ok_def h1_def ca'_def)
    next
      case False
      with 3 have "h_caches h d = Some da" by (simp add: h1_def)
      with False show ?thesis
        using refs_okD(3) [OF ok, of d da] other [of d da] by (auto simp: cache_ok_def h1_def)
    qed
  qed
  moreover have "h_objs h1 a = Some (ob\<lparr>ce_cache := None\<rparr>)" by (simp add: h1_def)
  ultimately obtain h' where h': "put_with (free_uncached ops) a h1 = Some h'" "refs_ok ops h' rc" "h_caches h' = h_caches h1"
    using put_ref [of ops h1 "rc(a := rc a + 1)" a "ob\<lparr>ce_cache := None\<rparr>" "free_uncached ops"] free_uncached_ok(1)
    by fastforce
  have "nl_cache_remove ops a h = Some h'"
    using nl_cache_remove_eq [OF a Some ca(1), of ops] h'(1) by (simp add: h1_def ca'_def)
  moreover have "\<exists>ca''. h_caches h' d = Some ca'' \<and> c_items ca'' = remove1 a (c_items da)" if "h_caches h d = Some da" for d da
    using that h'(3) ca other [of d da] by (cases "d = c") (auto simp: h1_def ca'_def remove1_idem)
  moreover have "h_caches h' d = None" if "h_caches h d = None" for d
    using that h'(3) ca by (auto simp: h1_def)
  ultimately show ?thesis using h'(2) by blast
qed

lemma remove_all_ref:
  assumes "refs_ok ops h rc" and "h_caches h c = Some ca" and "as = c_items ca" and "\<forall>a. rc a + 1 < 2 ^ 30"
  shows "\<exists>h' ca'. remove_all ops as h = Some h' \<and> refs_ok ops h' rc \<and> h_caches h' c = Some ca' \<and> c_items ca' = []
    \<and> (\<forall>d. (h_caches h' d = None) = (h_caches h d = None))"
  using assms
proof (induction as arbitrary: h ca)
  case Nil
  then show ?case by auto
next
  case (Cons a as)
  have "a \<in> set (c_items ca)" by (simp flip: Cons.prems(3))
  then obtain ob where ob: "h_objs h a = Some ob"
    using refs_okD(3) [OF Cons.prems(1,2)] by (auto simp: cache_ok_def)
  obtain h1 where h1: "nl_cache_remove ops a h = Some h1" "refs_ok ops h1 rc"
      "\<forall>c ca. h_caches h c = Some ca \<longrightarrow> (\<exists>ca'. h_caches h1 c = Some ca' \<and> c_items ca' = remove1 a (c_items ca))"
      "\<forall>c. h_caches h c = None \<longrightarrow> h_caches h1 c = None"
    using remove_ref [OF Cons.prems(1) ob] Cons.prems(4) by blast
  then obtain ca1 where ca1: "h_caches h1 c = Some ca1" "as = c_items ca1"
    using Cons.prems(2,3) by (metis remove1.simps(2))
  have "(h_caches h1 d = None) = (h_caches h d = None)" for d
    using h1(3,4) by (cases "h_caches h d") (simp, fastforce)
  then show ?case using Cons.IH [OF h1(2) ca1 Cons.prems(4)] h1(1) by auto
qed

lemma refs_ok_drop_cache:
  assumes "refs_ok ops h rc" and "h_caches h c = Some ca" and "c_items ca = []"
  shows "refs_ok ops (h\<lparr>h_caches := (h_caches h)(c := None)\<rparr>) rc"
proof (rule refs_okI, goal_cases)
  case (1 x y)
  then show ?case using refs_okD(1) [OF assms(1), of x y] assms(2,3) by (fastforce simp: obj_ok_def)
next
  case (2 x)
  then show ?case using refs_okD(2) [OF assms(1), of x] by simp
next
  case (3 d da)
  then show ?case using refs_okD(3) [OF assms(1), of d da] by (auto split: if_splits)
qed

lemma add_ref:
  assumes ok: "refs_ok ops h rc" and a: "h_objs h a = Some ob" and new: "\<not> ce_linked ob" and c: "h_caches h c = Some ca"
  shows "\<exists>h'. nl_cache_add ops c a h = Some (0, h') \<and> refs_ok ops h' rc
    \<and> h_caches h' = (h_caches h)(c \<mapsto> \<lparr>c_items = c_items ca @ [a], c_nitems = c_nitems ca + 1\<rparr>)"
proof -
  define ob' where "ob' = ob\<lparr>ce_refcnt := ce_refcnt ob + 1, ce_cache := Some c, ce_linked := True\<rparr>"
  define ca' where "ca' = \<lparr>c_items = c_items ca @ [a], c_nitems = c_nitems ca + 1\<rparr>"
  define h' where "h' = set_cache c ca' (set_obj a ob' h)"
  have ob: "ce_cache ob = None" "ce_refcnt ob = word_of_nat (rc a)" "rc a < 2 ^ 30" "oo_free_data ops (ce_data ob)"
    using refs_okD(1) [OF ok a] new by (cases "ce_cache ob"; auto simp: obj_ok_def in_cache_def)+
  have fresh: "a \<notin> set (c_items da)" if "h_caches h d = Some da" for d da
    using refs_okD(3) [OF ok that] a ob(1) by (auto simp: cache_ok_def)
  have "refs_ok ops h' rc"
  proof (rule refs_okI, goal_cases)
    case (1 x y)
    then show ?case
      using refs_okD(1) [OF ok, of x y] ob c
      by (cases "x = a") (auto simp: h'_def ob'_def ca'_def obj_ok_def in_cache_def)
  next
    case (2 x)
    then show ?case using refs_okD(2) [OF ok, of x] by (auto simp: h'_def split: if_splits)
  next
    case (3 d da)
    show ?case
    proof (cases "d = c")
      case True
      with 3 have "da = ca'" by (simp add: h'_def)
      with True show ?thesis
        using refs_okD(3) [OF ok c] fresh [OF c] by (auto simp: cache_ok_def h'_def ca'_def ob'_def)
    next
      case False
      with 3 have "h_caches h d = Some da" by (simp add: h'_def)
      then show ?thesis
        using refs_okD(3) [OF ok, of d da] fresh [of d da] by (auto simp: cache_ok_def h'_def)
    qed
  qed
  moreover have "nl_cache_add ops c a h = Some (0, h')"
    using a new c by (simp add: nl_cache_add_def nl_object_get_def cache_add_tail_def h'_def ob'_def ca'_def
        set_obj_def set_cache_def)
  ultimately show ?thesis by (auto simp: h'_def ca'_def)
qed

text \<open>
  Claim C8.  Reference counting: on a heap whose counts are the references held by users plus
  one for the cache, taking a reference, giving one back, adding a new object to a cache,
  removing an object and freeing a cache never fault, keep the counts exact and leave no
  object without a reference; only the first two change the references of a user.
\<close>

theorem object_references:
  assumes ok: "refs_ok ops h rc" and bound: "\<forall>a. rc a + 1 < 2 ^ 30"
    and a: "h_objs h a = Some ob" and c: "h_caches h c = Some ca"
  shows "(\<exists>h'. nl_object_get a h = Some h' \<and> refs_ok ops h' (rc(a := rc a + 1)))
    \<and> (0 < rc a \<longrightarrow> (\<exists>h'. nl_object_put ops (Some a) h = Some h' \<and> refs_ok ops h' (rc(a := rc a - 1))))
    \<and> (\<exists>h'. nl_cache_remove ops a h = Some h' \<and> refs_ok ops h' rc)
    \<and> (\<not> ce_linked ob \<longrightarrow> (\<exists>h'. nl_cache_add ops c a h = Some (0, h') \<and> refs_ok ops h' rc))
    \<and> (\<exists>h'. nl_cache_free ops (Some c) h = Some h' \<and> refs_ok ops h' rc \<and> h_caches h' c = None)"
proof -
  have rca: "rc a + 1 < 2 ^ 30" using bound by blast
  have "\<exists>h'. nl_object_put ops (Some a) h = Some h' \<and> refs_ok ops h' (rc(a := rc a - 1))" if "0 < rc a"
    using put_ref [OF ok a that, of "nl_object_free ops"] free_uncached_ok(2) by (fastforce simp: nl_object_put_def)
  moreover obtain h1 ca1 where h1: "remove_all ops (c_items ca) h = Some h1" "refs_ok ops h1 rc"
      "h_caches h1 c = Some ca1" "c_items ca1 = []"
    using remove_all_ref [OF ok c refl bound] by blast
  then have "nl_cache_free ops (Some c) h = Some (h1\<lparr>h_caches := (h_caches h1)(c := None)\<rparr>)"
    using c by (simp add: nl_cache_free_def nl_cache_clear_def)
  then have "\<exists>h'. nl_cache_free ops (Some c) h = Some h' \<and> refs_ok ops h' rc \<and> h_caches h' c = None"
    using refs_ok_drop_cache [OF h1(2-4)] by simp
  ultimately show ?thesis
    using get_ref [OF ok a rca] remove_ref [OF ok a rca] add_ref [OF ok a _ c] by blast
qed

end
