(* ===== verification/NL_Cache.thy ===== *)
theory NL_Cache
  imports NL_Object
begin

text \<open>
  Updating caches (\<^verbatim>\<open>lib/cache.c\<close>): including an object according to the action of its message
  type, subsets, iteration with callbacks and the removal of objects that a resynchronisation did
  not see again.  An include is proved to be the update of a finite map from the identities of
  the objects to their contents, with the change callback called exactly for what changed.
\<close>

section \<open>Message types\<close>

definition NL_ACT_UNSPEC :: i32 where "NL_ACT_UNSPEC = 0"
definition NL_ACT_NEW :: i32 where "NL_ACT_NEW = 1"
definition NL_ACT_DEL :: i32 where "NL_ACT_DEL = 2"
definition NL_ACT_GET :: i32 where "NL_ACT_GET = 3"
definition NL_ACT_SET :: i32 where "NL_ACT_SET = 4"
definition NL_ACT_CHANGE :: i32 where "NL_ACT_CHANGE = 5"

lemmas nl_act_defs = NL_ACT_UNSPEC_def NL_ACT_NEW_def NL_ACT_DEL_def NL_ACT_GET_def NL_ACT_SET_def NL_ACT_CHANGE_def

record nl_msgtype =
  mt_id :: i32
  mt_act :: i32
  mt_name :: "bytes option"

definition END_OF_MSGTYPES_LIST :: nl_msgtype where
  "END_OF_MSGTYPES_LIST = \<lparr>mt_id = - 1, mt_act = - 1, mt_name = None\<rparr>"

text \<open>The loop over the message types up to the end mark; a table without one is read past its end.\<close>

fun nl_msgtype_lookup :: "nl_msgtype list \<Rightarrow> i32 \<Rightarrow> nl_msgtype option option" where
  "nl_msgtype_lookup [] msgtype = None"
| "nl_msgtype_lookup (m # ms) msgtype =
     (if is_neg (mt_id m) then Some None
      else if mt_id m = msgtype then Some (Some m)
      else nl_msgtype_lookup ms msgtype)"

section \<open>Including objects\<close>

text \<open>
  A change callback is called with cache, object and action.  It is a function on the heap, whose
  extension \<^typ>\<open>'x\<close> holds the data of the callback.
\<close>

type_synonym ('d, 'x) change_func =
  "addr \<Rightarrow> addr \<Rightarrow> i32 \<Rightarrow> ('d, 'x) nl_heap_scheme \<Rightarrow> ('d, 'x) nl_heap_scheme option"

definition call_change ::
  "('d, 'x) change_func option \<Rightarrow> addr \<Rightarrow> addr \<Rightarrow> i32 \<Rightarrow> ('d, 'x) nl_heap_scheme \<Rightarrow> ('d, 'x) nl_heap_scheme option" where
  "call_change cb c a act h = (case cb of None \<Rightarrow> Some h | Some f \<Rightarrow> f c a act h)"

text \<open>The two halves of \<open>cache_include\<close>: taking the old object out, and putting the new one in.\<close>

definition include_old ::
  "'d nl_object_ops \<Rightarrow> addr \<Rightarrow> i32 \<Rightarrow> ('d, 'x) change_func option \<Rightarrow> addr option \<Rightarrow> ('d, 'x) nl_heap_scheme
     \<Rightarrow> ('d, 'x) nl_heap_scheme option" where
  "include_old ops c act cb old h =
    (case old of
       None \<Rightarrow> Some h
     | Some ol \<Rightarrow> do {
         h \<leftarrow> nl_cache_remove ops ol h;
         if act = NL_ACT_DEL then do {
           h \<leftarrow> call_change cb c ol NL_ACT_DEL h;
           nl_object_put ops (Some ol) h
         }
         else Some h
       })"

definition include_new ::
  "'d nl_object_ops \<Rightarrow> addr \<Rightarrow> addr \<Rightarrow> ('d, 'x) change_func option \<Rightarrow> addr option \<Rightarrow> ('d, 'x) nl_heap_scheme
     \<Rightarrow> ('d, 'x) nl_heap_scheme option" where
  "include_new ops c a cb old h = do {
     (_, h) \<leftarrow> nl_cache_move ops c a h;
     (case old of
        None \<Rightarrow> call_change cb c a NL_ACT_NEW h
      | Some ol \<Rightarrow> do {
          diff \<leftarrow> nl_object_diff ops ol a h;
          h \<leftarrow> (if diff \<noteq> 0 then call_change cb c a NL_ACT_CHANGE h else Some h);
          nl_object_put ops (Some ol) h
        })
   }"

definition cache_include ::
  "'d nl_object_ops \<Rightarrow> addr \<Rightarrow> addr \<Rightarrow> i32 \<Rightarrow> ('d, 'x) change_func option \<Rightarrow> ('d, 'x) nl_heap_scheme
     \<Rightarrow> (i32 \<times> ('d, 'x) nl_heap_scheme) option" where
  "cache_include ops c a act cb h =
    (if act = NL_ACT_NEW \<or> act = NL_ACT_DEL then do {
       (old, h) \<leftarrow> nl_cache_search ops c a h;
       h \<leftarrow> include_old ops c act cb old h;
       h \<leftarrow> (if act = NL_ACT_NEW then include_new ops c a cb old h else Some h);
       Some (0, h)
     }
     else Some (0, h))"

definition nl_cache_include ::
  "'d nl_object_ops \<Rightarrow> nl_msgtype list \<Rightarrow> addr \<Rightarrow> addr \<Rightarrow> ('d, 'x) change_func option \<Rightarrow> ('d, 'x) nl_heap_scheme
     \<Rightarrow> (i32 \<times> ('d, 'x) nl_heap_scheme) option" where
  "nl_cache_include ops msgtypes c a change_cb h = do {
     ob \<leftarrow> h_objs h a;
     ty \<leftarrow> nl_msgtype_lookup msgtypes (ce_msgtype ob);
     (case ty of
        None \<Rightarrow> Some (- NLE_MSGTYPE_NOSUPPORT, h)
      | Some m \<Rightarrow> cache_include ops c a (mt_act m) change_cb h)
   }"

section \<open>Subsets and iteration\<close>

primrec add_matching ::
  "'d nl_object_ops \<Rightarrow> addr \<Rightarrow> addr \<Rightarrow> addr list \<Rightarrow> ('d, 'x) nl_heap_scheme \<Rightarrow> ('d, 'x) nl_heap_scheme option" where
  "add_matching ops c filt [] h = Some h"
| "add_matching ops c filt (a # as) h = do {
     m \<leftarrow> nl_object_match_filter ops a filt h;
     h \<leftarrow> (if m then do { (_, h) \<leftarrow> nl_cache_add ops c a h; Some h } else Some h);
     add_matching ops c filt as h
   }"

definition nl_cache_subset ::
  "'d nl_object_ops \<Rightarrow> addr \<Rightarrow> addr option \<Rightarrow> ('d, 'x) nl_heap_scheme \<Rightarrow> (addr option \<times> ('d, 'x) nl_heap_scheme) option" where
  "nl_cache_subset ops orig filt h = do {
     f \<leftarrow> filt;
     og \<leftarrow> h_caches h orig;
     (case nl_cache_alloc h of
        (None, h) \<Rightarrow> Some (None, h)
      | (Some c, h) \<Rightarrow> do { h \<leftarrow> add_matching ops c f (c_items og) h; Some (Some c, h) })
   }"

text \<open>
  \<^verbatim>\<open>nl_list_for_each_entry_safe\<close>: the next element is read before the body runs.  If the body takes
  that element out of the list, the code goes on with the pointers of a removed element; this
  counts as a fault.  A body that keeps adding elements makes the loop run forever.
\<close>

definition next_item :: "addr \<Rightarrow> addr \<Rightarrow> ('d, 'x) nl_heap_scheme \<Rightarrow> addr option option" where
  "next_item c a h = do {
     ca \<leftarrow> h_caches h c;
     if a \<in> set (c_items ca) then Some (after a (c_items ca)) else None
   }"

partial_function (option) each_safe ::
  "addr \<Rightarrow> (addr \<Rightarrow> ('d, 'x) nl_heap_scheme \<Rightarrow> ('d, 'x) nl_heap_scheme option) \<Rightarrow> addr option \<Rightarrow> ('d, 'x) nl_heap_scheme
     \<Rightarrow> ('d, 'x) nl_heap_scheme option" where
  "each_safe c body pos h =
    (case pos of
       None \<Rightarrow> Some h
     | Some a \<Rightarrow> do {
         n \<leftarrow> next_item c a h;
         h \<leftarrow> body a h;
         each_safe c body n h
       })"

definition nl_cache_foreach_filter ::
  "'d nl_object_ops \<Rightarrow> addr \<Rightarrow> addr option \<Rightarrow> (addr \<Rightarrow> ('d, 'x) nl_heap_scheme \<Rightarrow> ('d, 'x) nl_heap_scheme option)
     \<Rightarrow> ('d, 'x) nl_heap_scheme \<Rightarrow> ('d, 'x) nl_heap_scheme option" where
  "nl_cache_foreach_filter ops c filt cb h = do {
     first \<leftarrow> nl_cache_get_first c h;
     each_safe c (\<lambda>a h. do {
         m \<leftarrow> (case filt of None \<Rightarrow> Some True | Some f \<Rightarrow> nl_object_match_filter ops a f h);
         if m then do { h \<leftarrow> nl_object_get a h; h \<leftarrow> cb a h; nl_object_put ops (Some a) h } else Some h
       }) first h
   }"

definition nl_cache_foreach ::
  "'d nl_object_ops \<Rightarrow> addr \<Rightarrow> (addr \<Rightarrow> ('d, 'x) nl_heap_scheme \<Rightarrow> ('d, 'x) nl_heap_scheme option)
     \<Rightarrow> ('d, 'x) nl_heap_scheme \<Rightarrow> ('d, 'x) nl_heap_scheme option" where
  "nl_cache_foreach ops c cb h = nl_cache_foreach_filter ops c None cb h"

text \<open>The last loop of \<open>nl_cache_resync\<close>: an object that still has its mark is removed.\<close>

definition drop_marked ::
  "'d nl_object_ops \<Rightarrow> addr \<Rightarrow> ('d, 'x) change_func option \<Rightarrow> addr \<Rightarrow> ('d, 'x) nl_heap_scheme \<Rightarrow> ('d, 'x) nl_heap_scheme option" where
  "drop_marked ops c cb a h = do {
     m \<leftarrow> nl_object_is_marked a h;
     if m then do {
       h \<leftarrow> nl_object_get a h;
       h \<leftarrow> nl_cache_remove ops a h;
       h \<leftarrow> call_change cb c a NL_ACT_DEL h;
       nl_object_put ops (Some a) h
     }
     else Some h
   }"

definition resync_sweep ::
  "'d nl_object_ops \<Rightarrow> addr \<Rightarrow> ('d, 'x) change_func option \<Rightarrow> ('d, 'x) nl_heap_scheme \<Rightarrow> ('d, 'x) nl_heap_scheme option" where
  "resync_sweep ops c cb h = do {
     first \<leftarrow> nl_cache_get_first c h;
     each_safe c (drop_marked ops c cb) first h
   }"

section \<open>What the operations leave alone\<close>

definition touches :: "addr \<Rightarrow> ('d, 'x) nl_heap_scheme \<Rightarrow> ('d, 'x) nl_heap_scheme \<Rightarrow> bool" where
  "touches a h h' \<longleftrightarrow> nl_heap.more h' = nl_heap.more h \<and> (\<forall>x. x \<noteq> a \<longrightarrow> h_objs h' x = h_objs h x)
     \<and> (\<forall>ob'. h_objs h' a = Some ob' \<longrightarrow>
         (\<exists>ob. h_objs h a = Some ob \<and> ce_mask ob' = ce_mask ob \<and> ce_data ob' = ce_data ob \<and> ce_flags ob' = ce_flags ob))"

lemma more_set [simp]:
  "nl_heap.more (set_obj a ob h) = nl_heap.more h" "nl_heap.more (set_cache c ca h) = nl_heap.more h"
  by (simp_all add: set_obj_def set_cache_def)

lemma touches_refl [simp]: "touches a h h"
  by (simp add: touches_def)

lemma touches_trans [trans]: "touches a h1 h2 \<Longrightarrow> touches a h2 h3 \<Longrightarrow> touches a h1 h3"
  unfolding touches_def by metis

lemma touches_get: "nl_object_get a h = Some h' \<Longrightarrow> touches a h h'"
  by (auto simp: nl_object_get_def touches_def bind_eq_Some_conv)

lemma touches_put_with:
  assumes "put_with free a h = Some h'" and "\<And>h h'. free a h = Some h' \<Longrightarrow> touches a h h'"
  shows "touches a h h'"
proof -
  obtain ob where ob: "h_objs h a = Some ob" using assms(1) by (auto simp: put_with_def bind_eq_Some_conv)
  let ?h = "set_obj a (ob\<lparr>ce_refcnt := ce_refcnt ob - 1\<rparr>) h"
  have "touches a h ?h" using ob by (simp add: touches_def)
  moreover have "?h = h' \<or> free a ?h = Some h'" using assms(1) ob by (auto simp: put_with_def Let_def split: if_splits)
  ultimately show ?thesis using assms(2) touches_trans by blast
qed

lemma touches_free_uncached: "free_uncached ops a h = Some h' \<Longrightarrow> touches a h h'"
  by (auto simp: free_uncached_def touches_def bind_eq_Some_conv split: if_splits)

lemma touches_set_cache: "touches a h h' \<Longrightarrow> touches a h (set_cache c ca h')"
  by (simp add: touches_def)

lemma touches_remove:
  assumes "nl_cache_remove ops a h = Some h'"
  shows "touches a h h'"
proof -
  obtain ob where ob: "h_objs h a = Some ob" using assms by (auto simp: nl_cache_remove_def bind_eq_Some_conv)
  show ?thesis
  proof (cases "ce_cache ob")
    case None
    then show ?thesis using assms ob by (simp add: nl_cache_remove_def)
  next
    case (Some c)
    then obtain ca where ca: "h_caches h c = Some ca" using assms ob by (auto simp: nl_cache_remove_def bind_eq_Some_conv)
    let ?h = "set_cache c \<lparr>c_items = remove1 a (c_items ca), c_nitems = c_nitems ca - 1\<rparr> (set_obj a (ob\<lparr>ce_cache := None\<rparr>) h)"
    have "put_with (free_uncached ops) a ?h = Some h'"
      using nl_cache_remove_eq [OF ob Some ca, of ops] assms by simp
    then have "touches a ?h h'" using touches_put_with touches_free_uncached by blast
    moreover have "touches a h ?h" using ob by (simp add: touches_def)
    ultimately show ?thesis using touches_trans by blast
  qed
qed

lemma touches_free: "nl_object_free ops a h = Some h' \<Longrightarrow> touches a h h'"
  by (auto simp: nl_object_free_def bind_eq_Some_conv split: if_splits
      dest!: touches_remove touches_free_uncached intro: touches_trans)

lemma touches_put: "nl_object_put ops (Some a) h = Some h' \<Longrightarrow> touches a h h'"
  by (auto simp: nl_object_put_def intro: touches_put_with touches_free)

lemma put_object_ref:
  assumes "refs_ok ops h rc" and "h_objs h a = Some ob" and "0 < rc a"
  obtains h' where "nl_object_put ops (Some a) h = Some h'" "refs_ok ops h' (rc(a := rc a - 1))"
    "h_caches h' = h_caches h" "touches a h h'"
proof -
  obtain h' where h': "put_with (nl_object_free ops) a h = Some h'" "refs_ok ops h' (rc(a := rc a - 1))" "h_caches h' = h_caches h"
    using put_ref [OF assms, of "nl_object_free ops"] free_uncached_ok(2) by fastforce
  then have "nl_object_put ops (Some a) h = Some h'" by (simp add: nl_object_put_def)
  then show thesis using that h'(2,3) touches_put by blast
qed

text \<open>Taking a reference and removing the object from its cache: the object stays alive.\<close>

lemma take_out:
  assumes ok: "refs_ok ops h rc" and a: "h_objs h a = Some ob" and rc: "rc a + 2 < 2 ^ 30"
  obtains h1 h2 ob2 where "nl_object_get a h = Some h1" "nl_cache_remove ops a h1 = Some h2"
    "refs_ok ops h2 (rc(a := rc a + 1))" "touches a h h2" "h_objs h2 a = Some ob2"
    "ce_mask ob2 = ce_mask ob" "ce_data ob2 = ce_data ob"
    "\<forall>c ca. h_caches h c = Some ca \<longrightarrow> (\<exists>ca'. h_caches h2 c = Some ca' \<and> c_items ca' = remove1 a (c_items ca))"
proof -
  have rc1: "rc a + 1 < 2 ^ 30" using rc by simp
  obtain h1 where h1: "nl_object_get a h = Some h1" "refs_ok ops h1 (rc(a := rc a + 1))" "h_caches h1 = h_caches h"
      "h_objs h1 a = Some (ob\<lparr>ce_refcnt := ce_refcnt ob + 1\<rparr>)"
    using get_ref [OF ok a rc1] by auto
  obtain h2 where h2: "nl_cache_remove ops a h1 = Some h2" "refs_ok ops h2 (rc(a := rc a + 1))"
      "\<forall>c ca. h_caches h1 c = Some ca \<longrightarrow> (\<exists>ca'. h_caches h2 c = Some ca' \<and> c_items ca' = remove1 a (c_items ca))"
    using remove_ref [OF h1(2,4)] rc by auto
  have t: "touches a h h2" using touches_get [OF h1(1)] touches_remove [OF h2(1)] by (rule touches_trans)
  obtain ob2 where "h_objs h2 a = Some ob2" using refs_okD(2) [OF h2(2), of a] by (cases "h_objs h2 a") auto
  moreover from this have "ce_mask ob2 = ce_mask ob" "ce_data ob2 = ce_data ob" using t a by (auto simp: touches_def)
  ultimately show thesis using that h1(1,3) h2 t by auto
qed

lemma move_unlinked: "h_objs h a = Some ob \<Longrightarrow> \<not> ce_linked ob \<Longrightarrow> nl_cache_move ops c a h = nl_cache_add ops c a h"
  by (simp add: nl_cache_move_def nl_cache_add_def nl_object_get_def set_obj_def)

lemma touches_move:
  assumes "h_objs h a = Some ob" and "\<not> ce_linked ob" and "nl_cache_add ops c a h = Some (e, h')"
  shows "touches a h h'"
  using assms by (auto simp: nl_cache_add_def nl_object_get_def cache_add_tail_def touches_def bind_eq_Some_conv)

section \<open>A cache as a finite map\<close>

definition entry :: "('d \<Rightarrow> 'k) \<Rightarrow> ('d, 'x) nl_heap_scheme \<Rightarrow> addr \<Rightarrow> 'k \<times> u32 \<times> 'd" where
  "entry key h a = (let ob = the (h_objs h a) in (key (ce_data ob), ce_mask ob, ce_data ob))"

definition view :: "('d \<Rightarrow> 'k) \<Rightarrow> addr \<Rightarrow> ('d, 'x) nl_heap_scheme \<Rightarrow> 'k \<rightharpoonup> u32 \<times> 'd" where
  "view key c h = (case h_caches h c of None \<Rightarrow> Map.empty | Some ca \<Rightarrow> map_of (map (entry key h) (c_items ca)))"

text \<open>The objects of the cache are well-formed, and no two of them have the same identity.\<close>

definition keyed :: "(u32 \<Rightarrow> 'd \<Rightarrow> bool) \<Rightarrow> ('d \<Rightarrow> 'k) \<Rightarrow> addr \<Rightarrow> ('d, 'x) nl_heap_scheme \<Rightarrow> bool" where
  "keyed good key c h \<longleftrightarrow> (\<exists>ca. h_caches h c = Some ca \<and> distinct (map (fst \<circ> entry key h) (c_items ca))
     \<and> (\<forall>a \<in> set (c_items ca). \<exists>ob. h_objs h a = Some ob \<and> good (ce_mask ob) (ce_data ob)))"

text \<open>What including an object with identity \<open>k\<close> and contents \<open>v\<close> does, and what it reports.\<close>

definition include_spec ::
  "i32 \<Rightarrow> 'k \<Rightarrow> 'v \<Rightarrow> ('v \<Rightarrow> 'v \<Rightarrow> bool) \<Rightarrow> ('k \<rightharpoonup> 'v) \<Rightarrow> ('k \<rightharpoonup> 'v) \<times> (i32 \<times> 'v) option" where
  "include_spec act k v differ m =
    (if act = NL_ACT_NEW then
       (m(k \<mapsto> v), case m k of None \<Rightarrow> Some (NL_ACT_NEW, v) | Some w \<Rightarrow> if differ w v then Some (NL_ACT_CHANGE, v) else None)
     else if act = NL_ACT_DEL then (m(k := None), map_option (Pair NL_ACT_DEL) (m k))
     else (m, None))"

text \<open>A callback that keeps record of the action and the contents of the object it is given.\<close>

definition recorder :: "('x \<Rightarrow> i32 \<times> u32 \<times> 'd \<Rightarrow> 'x) \<Rightarrow> ('d, 'x) change_func" where
  "recorder g c a act h = do {
     ob \<leftarrow> h_objs h a;
     Some (nl_heap.more_update (\<lambda>x. g x (act, ce_mask ob, ce_data ob)) h)
   }"

lemma more_update_simps [simp]:
  "h_objs (nl_heap.more_update f h) = h_objs h" "h_caches (nl_heap.more_update f h) = h_caches h"
  "nl_heap.more (nl_heap.more_update f h) = f (nl_heap.more h)"
  by (cases h; simp)+

lemma refs_ok_more [simp]: "refs_ok ops (nl_heap.more_update f h) rc = refs_ok ops h rc"
  by (simp add: refs_ok_def cong: option.case_cong)

lemma entry_more [simp]: "entry key (nl_heap.more_update f h) = entry key h"
  by (simp add: entry_def fun_eq_iff)

lemma entry_touches: "touches a h h' \<Longrightarrow> h_objs h' x = Some ob \<Longrightarrow> entry key h' x = entry key h x"
  by (cases "x = a") (auto simp: touches_def entry_def)

lemma map_of_remove1:
  assumes "distinct (map (fst \<circ> e) as)" and "a \<in> set as"
  shows "map_of (map e (remove1 a as)) = (map_of (map e as))(fst (e a) := None)"
  using assms
proof (induction as)
  case (Cons x as)
  show ?case
  proof (cases "x = a")
    case True
    then have "map_of (map e as) (fst (e a)) = None"
      using Cons.prems(1) by (auto simp: map_of_eq_None_iff)
    then show ?thesis using True by (cases "e a") (auto simp: fun_eq_iff)
  next
    case False
    then have "fst (e x) \<noteq> fst (e a)" using Cons.prems by (auto simp: rev_image_eqI)
    then show ?thesis using Cons False by (cases "e x") (auto simp: fun_upd_twist)
  qed
qed simp

lemma view_eq: "h_caches h c = Some ca \<Longrightarrow> view key c h = map_of (map (entry key h) (c_items ca))"
  by (simp add: view_def)

text \<open>The map after one object was removed, and after one was appended.\<close>

lemma view_removed:
  assumes "keyed good key c h" and "h_caches h c = Some ca" and "a \<in> set (c_items ca)" and "refs_ok ops h2 rc"
    and "touches a h h2" and "h_caches h2 c = Some ca2" and "c_items ca2 = remove1 a (c_items ca)"
  shows "view key c h2 = (view key c h)(fst (entry key h a) := None)" and "keyed good key c h2"
proof -
  have d: "distinct (map (fst \<circ> entry key h) (c_items ca))"
    and g: "\<forall>x \<in> set (c_items ca). \<exists>ob. h_objs h x = Some ob \<and> good (ce_mask ob) (ce_data ob)"
    using assms(1,2) by (auto simp: keyed_def)
  have da: "distinct (c_items ca)" using d by (simp add: distinct_map)
  have ex: "\<exists>ob. h_objs h2 x = Some ob" if "x \<in> set (c_items ca2)" for x
    using refs_okD(3) [OF assms(4,6)] that by (auto simp: cache_ok_def)
  have e: "map (entry key h2) (c_items ca2) = map (entry key h) (c_items ca2)"
    using ex entry_touches [OF assms(5)] by (metis (no_types, lifting) map_eq_conv)
  have v: "view key c h2 = map_of (map (entry key h) (c_items ca2))" unfolding view_eq [OF assms(6)] e ..
  show "view key c h2 = (view key c h)(fst (entry key h a) := None)"
    unfolding v view_eq [OF assms(2)] assms(7) by (rule map_of_remove1 [OF d assms(3)])
  have "map (fst \<circ> entry key h2) (c_items ca2) = map (fst \<circ> entry key h) (remove1 a (c_items ca))"
    using e assms(7) by (metis map_map)
  moreover have "distinct (map (fst \<circ> entry key h) (remove1 a (c_items ca)))"
    using d da by (auto simp: distinct_map set_remove1_eq intro: inj_on_subset)
  moreover have "\<exists>ob. h_objs h2 x = Some ob \<and> good (ce_mask ob) (ce_data ob)" if "x \<in> set (c_items ca2)" for x
    using that g assms(5,7) da by (auto simp: touches_def)
  ultimately show "keyed good key c h2" using assms(6) by (auto simp: keyed_def)
qed

lemma view_appended:
  assumes "keyed good key c h" and "h_caches h c = Some ca" and "h_objs h a = Some ob" and "good (ce_mask ob) (ce_data ob)"
    and "view key c h (key (ce_data ob)) = None" and "refs_ok ops h2 rc"
    and "touches a h h2" and "h_caches h2 c = Some ca2" and "c_items ca2 = c_items ca @ [a]"
  shows "view key c h2 = (view key c h)(key (ce_data ob) \<mapsto> (ce_mask ob, ce_data ob))" and "keyed good key c h2"
proof -
  have d: "distinct (map (fst \<circ> entry key h) (c_items ca))"
    and g: "\<forall>x \<in> set (c_items ca). \<exists>ob. h_objs h x = Some ob \<and> good (ce_mask ob) (ce_data ob)"
    using assms(1,2) by (auto simp: keyed_def)
  have ea: "entry key h a = (key (ce_data ob), ce_mask ob, ce_data ob)" using assms(3) by (simp add: entry_def)
  have new: "key (ce_data ob) \<notin> fst ` entry key h ` set (c_items ca)"
    using assms(2,5) by (simp add: view_eq map_of_eq_None_iff)
  have ex: "\<exists>ob. h_objs h2 x = Some ob" if "x \<in> set (c_items ca2)" for x
    using refs_okD(3) [OF assms(6,8)] that by (auto simp: cache_ok_def)
  have e: "map (entry key h2) (c_items ca2) = map (entry key h) (c_items ca2)"
    using ex entry_touches [OF assms(7)] by (metis (no_types, lifting) map_eq_conv)
  have none: "map_of (map (entry key h) (c_items ca)) (key (ce_data ob)) = None"
    using assms(2,5) by (simp add: view_eq)
  have v: "view key c h2 = map_of (map (entry key h) (c_items ca2))" unfolding view_eq [OF assms(8)] e ..
  show "view key c h2 = (view key c h)(key (ce_data ob) \<mapsto> (ce_mask ob, ce_data ob))"
    unfolding v view_eq [OF assms(2)] assms(9) using none by (auto simp: ea map_add_def fun_eq_iff split: option.splits)
  have "map (fst \<circ> entry key h2) (c_items ca2) = map (fst \<circ> entry key h) (c_items ca @ [a])"
    using e assms(9) by (metis map_map)
  moreover have "distinct (map (fst \<circ> entry key h) (c_items ca @ [a]))"
    using d new ea by (auto simp: image_comp)
  moreover have "\<exists>ob. h_objs h2 x = Some ob \<and> good (ce_mask ob) (ce_data ob)" if x: "x \<in> set (c_items ca2)" for x
  proof -
    obtain ob' where "h_objs h x = Some ob'" "good (ce_mask ob') (ce_data ob')" using x g assms(3,4,9) by auto
    then show ?thesis using ex [OF x] assms(7) by (cases "x = a") (auto simp: touches_def)
  qed
  ultimately show "keyed good key c h2" using assms(8) by (auto simp: keyed_def)
qed

lemma view_same:
  assumes "keyed good key c h" and "refs_ok ops h2 rc" and "touches a h h2" and "h_caches h2 = h_caches h"
  shows "view key c h2 = view key c h" and "keyed good key c h2"
proof -
  obtain ca where ca: "h_caches h c = Some ca" and d: "distinct (map (fst \<circ> entry key h) (c_items ca))"
    and g: "\<forall>x \<in> set (c_items ca). \<exists>ob. h_objs h x = Some ob \<and> good (ce_mask ob) (ce_data ob)"
    using assms(1) by (auto simp: keyed_def)
  have ca2: "h_caches h2 c = Some ca" using ca assms(4) by simp
  have ex: "\<exists>ob. h_objs h2 x = Some ob" if "x \<in> set (c_items ca)" for x
    using refs_okD(3) [OF assms(2) ca2] that by (auto simp: cache_ok_def)
  have e: "map (entry key h2) (c_items ca) = map (entry key h) (c_items ca)"
    using ex entry_touches [OF assms(3)] by (metis (no_types, lifting) map_eq_conv)
  show "view key c h2 = view key c h" unfolding view_eq [OF ca2] view_eq [OF ca] e ..
  have "distinct (map (fst \<circ> entry key h2) (c_items ca))"
    using d e by (metis map_map)
  moreover have "\<exists>ob. h_objs h2 x = Some ob \<and> good (ce_mask ob) (ce_data ob)" if x: "x \<in> set (c_items ca)" for x
    using ex [OF x] g x assms(3) by (cases "x = a") (auto simp: touches_def)
  ultimately show "keyed good key c h2" using ca2 by (auto simp: keyed_def)
qed

lemma view_more [simp]:
  "view key c (nl_heap.more_update f h) = view key c h" "keyed good key c (nl_heap.more_update f h) = keyed good key c h"
  by (simp_all add: view_def keyed_def cong: option.case_cong)

lemma move_appends:
  assumes ok: "refs_ok ops h rc" and k: "keyed good key c h" and a: "h_objs h a = Some ob" "\<not> ce_linked ob" "good (ce_mask ob) (ce_data ob)"
    and new: "view key c h (key (ce_data ob)) = None"
  obtains h' ob' where "nl_cache_move ops c a h = Some (0, h')" "refs_ok ops h' rc" "keyed good key c h'"
    "view key c h' = (view key c h)(key (ce_data ob) \<mapsto> (ce_mask ob, ce_data ob))"
    "touches a h h'" "h_objs h' a = Some ob'" "ce_mask ob' = ce_mask ob" "ce_data ob' = ce_data ob"
proof -
  obtain ca where ca: "h_caches h c = Some ca" using k by (auto simp: keyed_def)
  obtain h' where h': "nl_cache_add ops c a h = Some (0, h')" "refs_ok ops h' rc"
      "h_caches h' = (h_caches h)(c \<mapsto> \<lparr>c_items = c_items ca @ [a], c_nitems = c_nitems ca + 1\<rparr>)"
    using add_ref [OF ok a(1,2) ca] by blast
  have t: "touches a h h'" by (rule touches_move [OF a(1,2) h'(1)])
  have c: "h_caches h' c = Some \<lparr>c_items = c_items ca @ [a], c_nitems = c_nitems ca + 1\<rparr>" using h'(3) by simp
  obtain ob' where ob': "h_objs h' a = Some ob'" using refs_okD(3) [OF h'(2) c] by (auto simp: cache_ok_def)
  then have "ce_mask ob' = ce_mask ob" "ce_data ob' = ce_data ob" using t a(1) by (auto simp: touches_def)
  then show thesis
    using that h'(1,2) t ob' view_appended [OF k ca a(1,3) new h'(2) t c] move_unlinked [OF a(1,2), of ops c] by simp
qed

text \<open>An object that a parser has just made.\<close>

lemma refs_ok_fresh:
  assumes "refs_ok ops h rc" and "h_objs h a = None"
    and "ce_refcnt ob = 1" "ce_cache ob = None" "oo_free_data ops (ce_data ob)"
  shows "refs_ok ops (set_obj a ob (h\<lparr>h_next := k\<rparr>)) (rc(a := 1))"
proof (rule refs_okI, goal_cases)
  case (1 x y)
  then show ?case
    using refs_okD(1) [OF assms(1), of x] assms(3-5) by (cases "x = a") (auto simp: obj_ok_def in_cache_def)
next
  case (2 x)
  then show ?case using refs_okD(2) [OF assms(1), of x] by (auto split: if_splits)
next
  case (3 c ca)
  then have c: "cache_ok (h_objs h) c ca" using refs_okD(3) [OF assms(1)] by simp
  then have "a \<notin> set (c_items ca)" using assms(2) by (auto simp: cache_ok_def)
  then show ?case using c by (auto simp: cache_ok_def)
qed

lemma view_fresh:
  assumes "refs_ok ops h rc" and "h_objs h a = None" and "keyed good key c h"
  shows "view key c (set_obj a ob (h\<lparr>h_next := k\<rparr>)) = view key c h" "keyed good key c (set_obj a ob (h\<lparr>h_next := k\<rparr>))"
proof -
  let ?h = "set_obj a ob (h\<lparr>h_next := k\<rparr>)"
  obtain ca where ca: "h_caches h c = Some ca" using assms(3) by (auto simp: keyed_def)
  have a: "a \<notin> set (c_items ca)" using refs_okD(3) [OF assms(1) ca] assms(2) by (auto simp: cache_ok_def)
  have e: "entry key ?h x = entry key h x" if "x \<in> set (c_items ca)" for x
    using that a by (auto simp: entry_def)
  have m: "map (entry key ?h) (c_items ca) = map (entry key h) (c_items ca)"
    "map (fst \<circ> entry key ?h) (c_items ca) = map (fst \<circ> entry key h) (c_items ca)" using e by simp_all
  have ca': "h_caches ?h c = Some ca" using ca by simp
  show "view key c ?h = view key c h" unfolding view_eq [OF ca] view_eq [OF ca'] m(1) ..
  have g: "\<forall>x \<in> set (c_items ca). \<exists>ob. h_objs ?h x = Some ob \<and> good (ce_mask ob) (ce_data ob)"
    using assms(3) ca a by (auto simp: keyed_def)
  have "distinct (map (fst \<circ> entry key ?h) (c_items ca))" unfolding m(2) using assms(3) ca by (simp add: keyed_def)
  then show "keyed good key c ?h" unfolding keyed_def using g ca' by blast
qed

text \<open>
  The interface of a kind of objects: for well-formed objects, the comparison of identities is
  equality of keys, and the comparison of all attributes depends on the contents only.
\<close>

locale object_keys =
  fixes ops :: "'d nl_object_ops" and good :: "u32 \<Rightarrow> 'd \<Rightarrow> bool" and key :: "'d \<Rightarrow> 'k" and differ :: "u32 \<times> 'd \<Rightarrow> u32 \<times> 'd \<Rightarrow> bool"
  assumes identical: "h_objs h a = Some oa \<Longrightarrow> h_objs h b = Some ob \<Longrightarrow> good (ce_mask oa) (ce_data oa) \<Longrightarrow>
      good (ce_mask ob) (ce_data ob) \<Longrightarrow> nl_object_identical ops a b (h :: ('d, 'x) nl_heap_scheme) = Some (key (ce_data oa) = key (ce_data ob))"
    and diff: "h_objs h a = Some oa \<Longrightarrow> h_objs h b = Some ob \<Longrightarrow> good (ce_mask oa) (ce_data oa) \<Longrightarrow>
      good (ce_mask ob) (ce_data ob) \<Longrightarrow>
      \<exists>d. nl_object_diff ops a b (h :: ('d, 'x) nl_heap_scheme) = Some d \<and> (d \<noteq> 0) = differ (ce_mask oa, ce_data oa) (ce_mask ob, ce_data ob)"
begin

lemma search_items_find:
  assumes "\<forall>x \<in> set as. \<exists>ob. h_objs (h :: ('d, 'x) nl_heap_scheme) x = Some ob \<and> good (ce_mask ob) (ce_data ob)"
    and "h_objs h a = Some oa" and "good (ce_mask oa) (ce_data oa)"
  shows "search_items ops a h as = Some (find (\<lambda>x. fst (entry key h x) = key (ce_data oa)) as)"
  using assms(1)
proof (induction as)
  case (Cons x as)
  then obtain ox where "h_objs h x = Some ox" "good (ce_mask ox) (ce_data ox)" by auto
  then show ?case using Cons identical [of h x ox a oa] assms(2,3) by (simp add: entry_def)
qed simp

text \<open>The search of an include, in terms of the map.\<close>

lemma search_absent:
  fixes h :: "('d, 'x) nl_heap_scheme"
  assumes "keyed good key c h" and "h_objs h a = Some ob" and "good (ce_mask ob) (ce_data ob)"
    and "view key c h (key (ce_data ob)) = None"
  shows "nl_cache_search ops c a h = Some (None, h)"
proof -
  obtain ca where ca: "h_caches h c = Some ca"
    and gd: "\<forall>x \<in> set (c_items ca). \<exists>ob. h_objs h x = Some ob \<and> good (ce_mask ob) (ce_data ob)"
    using assms(1) by (auto simp: keyed_def)
  have "key (ce_data ob) \<notin> fst ` entry key h ` set (c_items ca)"
    using assms(4) ca by (simp add: view_eq map_of_eq_None_iff)
  then have "find (\<lambda>x. fst (entry key h x) = key (ce_data ob)) (c_items ca) = None" by (force simp: find_None_iff)
  then show ?thesis using ca search_items_find [OF gd assms(2,3)] by (simp add: nl_cache_search_def)
qed

text \<open>An old object is found, referenced and removed from the cache.\<close>

lemma search_remove:
  fixes h :: "('d, 'x) nl_heap_scheme"
  assumes ok: "refs_ok ops h rc" and bound: "\<forall>x. rc x + 2 < 2 ^ 30" and k: "keyed good key c h"
    and a: "h_objs h a = Some ob" "\<not> ce_linked ob" "good (ce_mask ob) (ce_data ob)"
    and w: "view key c h (key (ce_data ob)) = Some w"
  obtains ol h1 h2 oo where "nl_cache_search ops c a h = Some (Some ol, h1)" "nl_cache_remove ops ol h1 = Some h2" "ol \<noteq> a"
    "refs_ok ops h2 (rc(ol := rc ol + 1))" "keyed good key c h2" "view key c h2 = (view key c h)(key (ce_data ob) := None)"
    "touches ol h h2" "h_objs h2 ol = Some oo" "w = (ce_mask oo, ce_data oo)" "good (ce_mask oo) (ce_data oo)"
proof -
  obtain ca where ca: "h_caches h c = Some ca" and d: "distinct (map (fst \<circ> entry key h) (c_items ca))"
    and gd: "\<forall>x \<in> set (c_items ca). \<exists>ob. h_objs h x = Some ob \<and> good (ce_mask ob) (ce_data ob)"
    using k by (auto simp: keyed_def)
  let ?k = "key (ce_data ob)" and ?old = "find (\<lambda>x. fst (entry key h x) = key (ce_data ob)) (c_items ca)"
  have "(?k, w) \<in> entry key h ` set (c_items ca)"
    using w ca map_of_SomeD [of "map (entry key h) (c_items ca)" ?k w] by (simp add: view_eq)
  then have "\<exists>x \<in> set (c_items ca). fst (entry key h x) = ?k" by (metis fst_conv imageE)
  then obtain ol where ol: "?old = Some ol" by (cases ?old) (auto simp: find_None_iff)
  then have ol2: "ol \<in> set (c_items ca)" "fst (entry key h ol) = ?k" by (auto simp: find_Some_iff)
  then obtain oo where oo: "h_objs h ol = Some oo" "good (ce_mask oo) (ce_data oo)" using gd by blast
  have "map_of (map (entry key h) (c_items ca)) (fst (entry key h ol)) = Some (snd (entry key h ol))"
    by (rule map_of_is_SomeI) (use d ol2(1) in \<open>simp_all add: comp_def\<close>)
  then have w2: "w = (ce_mask oo, ce_data oo)" using w ol2(2) oo(1) ca by (simp add: view_eq entry_def)
  have "ol \<noteq> a" using refs_okD(1) [OF ok a(1)] refs_okD(3) [OF ok ca] ol2(1) a(1,2) by (auto simp: obj_ok_def cache_ok_def)
  have b2: "rc ol + 2 < 2 ^ 30" using bound by blast
  obtain h1 h2 o2 where h2: "nl_object_get ol h = Some h1" "nl_cache_remove ops ol h1 = Some h2"
      "refs_ok ops h2 (rc(ol := rc ol + 1))" "touches ol h h2" "h_objs h2 ol = Some o2"
      "ce_mask o2 = ce_mask oo" "ce_data o2 = ce_data oo"
      "\<forall>c ca. h_caches h c = Some ca \<longrightarrow> (\<exists>ca'. h_caches h2 c = Some ca' \<and> c_items ca' = remove1 ol (c_items ca))"
    by (rule take_out [OF ok oo(1) b2])
  obtain ca2 where ca2: "h_caches h2 c = Some ca2" "c_items ca2 = remove1 ol (c_items ca)" using h2(8) ca by blast
  have "view key c h2 = (view key c h)(?k := None)" "keyed good key c h2"
    using view_removed [OF k ca ol2(1) h2(3,4) ca2] ol2(2) by simp_all
  moreover have "nl_cache_search ops c a h = Some (Some ol, h1)"
    using ca ol h2(1) search_items_find [OF gd a(1,3)] by (simp add: nl_cache_search_def)
  ultimately show thesis using that h2(2-7) w2 oo(2) \<open>ol \<noteq> a\<close> by simp
qed

text \<open>The reference that the search has taken is given back; the map stays.\<close>

lemma put_found:
  fixes h :: "('d, 'x) nl_heap_scheme"
  assumes "refs_ok ops h (rc(ol := rc ol + 1))" and "h_objs h ol = Some oo" and "keyed good key c h"
  obtains h' where "nl_object_put ops (Some ol) h = Some h'" "refs_ok ops h' rc" "keyed good key c h'"
    "view key c h' = view key c h" "nl_heap.more h' = nl_heap.more h"
proof -
  obtain h' where h': "nl_object_put ops (Some ol) h = Some h'"
      "refs_ok ops h' ((rc(ol := rc ol + 1))(ol := (rc(ol := rc ol + 1)) ol - 1))"
      "h_caches h' = h_caches h" "touches ol h h'"
    by (rule put_object_ref [OF assms(1,2)]) simp_all
  then show thesis
    using that view_same [OF assms(3) h'(2,4,3)] by (simp add: touches_def)
qed

lemma include_delete:
  fixes h :: "('d, 'x) nl_heap_scheme"
  assumes ok: "refs_ok ops h rc" and bound: "\<forall>x. rc x + 2 < 2 ^ 30" and k: "keyed good key c h"
    and a: "h_objs h a = Some ob" "\<not> ce_linked ob" "good (ce_mask ob) (ce_data ob)"
    and w: "view key c h (key (ce_data ob)) = Some w"
  shows "\<exists>h'. cache_include ops c a NL_ACT_DEL (Some (recorder g)) h = Some (0, h') \<and> refs_ok ops h' rc \<and> keyed good key c h'
    \<and> view key c h' = (view key c h)(key (ce_data ob) := None) \<and> nl_heap.more h' = g (nl_heap.more h) (NL_ACT_DEL, w)"
proof -
  obtain ol h1 h2 oo where h2: "nl_cache_search ops c a h = Some (Some ol, h1)" "nl_cache_remove ops ol h1 = Some h2" "ol \<noteq> a"
      "refs_ok ops h2 (rc(ol := rc ol + 1))" "keyed good key c h2" "view key c h2 = (view key c h)(key (ce_data ob) := None)"
      "touches ol h h2" "h_objs h2 ol = Some oo" "w = (ce_mask oo, ce_data oo)" "good (ce_mask oo) (ce_data oo)"
    by (rule search_remove [OF assms])
  obtain h3 where "nl_object_put ops (Some ol) (nl_heap.more_update (\<lambda>x. g x (NL_ACT_DEL, w)) h2) = Some h3" "refs_ok ops h3 rc"
      "keyed good key c h3" "view key c h3 = view key c (nl_heap.more_update (\<lambda>x. g x (NL_ACT_DEL, w)) h2)"
      "nl_heap.more h3 = nl_heap.more (nl_heap.more_update (\<lambda>x. g x (NL_ACT_DEL, w)) h2)"
    by (rule put_found [of "nl_heap.more_update (\<lambda>x. g x (NL_ACT_DEL, w)) h2" rc ol oo c]) (use h2(4,5,8) in simp_all)
  then show ?thesis
    using h2(1,2,6-9)
    by (auto simp: cache_include_def include_old_def call_change_def recorder_def touches_def nl_act_defs)
qed

lemma include_replace:
  fixes h :: "('d, 'x) nl_heap_scheme"
  assumes ok: "refs_ok ops h rc" and bound: "\<forall>x. rc x + 2 < 2 ^ 30" and k: "keyed good key c h"
    and a: "h_objs h a = Some ob" "\<not> ce_linked ob" "good (ce_mask ob) (ce_data ob)"
    and w: "view key c h (key (ce_data ob)) = Some w"
  shows "\<exists>h'. cache_include ops c a NL_ACT_NEW (Some (recorder g)) h = Some (0, h') \<and> refs_ok ops h' rc \<and> keyed good key c h'
    \<and> view key c h' = (view key c h)(key (ce_data ob) \<mapsto> (ce_mask ob, ce_data ob))
    \<and> nl_heap.more h' = (if differ w (ce_mask ob, ce_data ob)
        then g (nl_heap.more h) (NL_ACT_CHANGE, ce_mask ob, ce_data ob) else nl_heap.more h)"
proof -
  let ?k = "key (ce_data ob)" and ?v = "(ce_mask ob, ce_data ob)"
  obtain ol h1 h2 oo where h2: "nl_cache_search ops c a h = Some (Some ol, h1)" "nl_cache_remove ops ol h1 = Some h2" "ol \<noteq> a"
      "refs_ok ops h2 (rc(ol := rc ol + 1))" "keyed good key c h2" "view key c h2 = (view key c h)(?k := None)"
      "touches ol h h2" "h_objs h2 ol = Some oo" "w = (ce_mask oo, ce_data oo)" "good (ce_mask oo) (ce_data oo)"
    by (rule search_remove [OF assms])
  have a2: "h_objs h2 a = Some ob" using h2(3,7) a(1) by (auto simp: touches_def)
  obtain h3 ob3 where h3: "nl_cache_move ops c a h2 = Some (0, h3)" "refs_ok ops h3 (rc(ol := rc ol + 1))" "keyed good key c h3"
      "view key c h3 = (view key c h2)(?k \<mapsto> ?v)" "touches a h2 h3" "h_objs h3 a = Some ob3"
      "ce_mask ob3 = ce_mask ob" "ce_data ob3 = ce_data ob"
    by (rule move_appends [OF h2(4,5) a2 a(2,3)]) (simp add: h2(6))
  have o3: "h_objs h3 ol = Some oo" using h3(5) h2(3,8) by (auto simp: touches_def)
  obtain d where d: "nl_object_diff ops ol a h3 = Some d" "(d \<noteq> 0) = differ w ?v"
    using diff [OF o3 h3(6)] h2(9,10) h3(7,8) a(3) by auto
  define h4 where "h4 = (if d \<noteq> 0 then nl_heap.more_update (\<lambda>x. g x (NL_ACT_CHANGE, ?v)) h3 else h3)"
  have h4: "refs_ok ops h4 (rc(ol := rc ol + 1))" "h_objs h4 ol = Some oo" "keyed good key c h4" "view key c h4 = view key c h3"
      "(if d \<noteq> 0 then call_change (Some (recorder g)) c a NL_ACT_CHANGE h3 else Some h3) = Some h4"
    using h3(2,3,6-8) o3 by (simp_all add: h4_def call_change_def recorder_def)
  obtain h5 where h5: "nl_object_put ops (Some ol) h4 = Some h5" "refs_ok ops h5 rc" "keyed good key c h5"
      "view key c h5 = view key c h4" "nl_heap.more h5 = nl_heap.more h4"
    by (rule put_found [OF h4(1-3)])
  have "nl_heap.more h4 = (if d \<noteq> 0 then g (nl_heap.more h) (NL_ACT_CHANGE, ?v) else nl_heap.more h)"
    using h3(5) h2(7) by (simp add: touches_def h4_def)
  then show ?thesis
    using h2(1,2,6) h3(1,4) d h4(4,5) h5
    by (auto simp: cache_include_def include_old_def include_new_def nl_act_defs)
qed

text \<open>An include is the update of the map, and the callback is told exactly what has changed.\<close>

lemma include_step:
  fixes h :: "('d, 'x) nl_heap_scheme"
  assumes ok: "refs_ok ops h rc" and bound: "\<forall>x. rc x + 2 < 2 ^ 30" and k: "keyed good key c h"
    and a: "h_objs h a = Some ob" "\<not> ce_linked ob" "good (ce_mask ob) (ce_data ob)"
    and spec: "include_spec act (key (ce_data ob)) (ce_mask ob, ce_data ob) differ (view key c h) = (m, report)"
  shows "\<exists>h'. cache_include ops c a act (Some (recorder g)) h = Some (0, h') \<and> refs_ok ops h' rc \<and> keyed good key c h'
    \<and> view key c h' = m \<and> nl_heap.more h' = (case report of None \<Rightarrow> nl_heap.more h | Some r \<Rightarrow> g (nl_heap.more h) r)"
proof (cases "view key c h (key (ce_data ob))")
  case None
  note srch = search_absent [OF k a(1,3) None]
  show ?thesis
  proof (cases "act = NL_ACT_NEW")
    case True
    obtain h' ob' where "nl_cache_move ops c a h = Some (0, h')" "refs_ok ops h' rc" "keyed good key c h'"
        "view key c h' = (view key c h)(key (ce_data ob) \<mapsto> (ce_mask ob, ce_data ob))" "touches a h h'" "h_objs h' a = Some ob'"
        "ce_mask ob' = ce_mask ob" "ce_data ob' = ce_data ob"
      by (rule move_appends [OF ok k a None])
    then show ?thesis
      using True srch None spec
      by (auto simp: cache_include_def include_old_def include_new_def call_change_def recorder_def include_spec_def touches_def)
  next
    case False
    then show ?thesis
      using srch None ok k spec by (auto simp: cache_include_def include_old_def include_spec_def fun_upd_idem split: if_splits)
  qed
next
  case (Some w)
  consider (new) "act = NL_ACT_NEW" | (del) "act = NL_ACT_DEL" | (other) "act \<noteq> NL_ACT_NEW" "act \<noteq> NL_ACT_DEL" by blast
  then show ?thesis
  proof cases
    case new
    then show ?thesis using include_replace [OF ok bound k a Some, of g] Some spec by (auto simp: include_spec_def split: if_splits)
  next
    case del
    then show ?thesis using include_delete [OF ok bound k a Some, of g] Some spec by (auto simp: include_spec_def nl_act_defs)
  next
    case other
    then show ?thesis using ok k spec by (auto simp: cache_include_def include_spec_def)
  qed
qed

text \<open>A parser's object is included and then released by the parser.\<close>

lemma include_fresh:
  fixes h :: "('d, 'x) nl_heap_scheme"
  assumes ok: "refs_ok ops h rc" and bound: "\<forall>x. rc x + 2 < 2 ^ 30" and k: "keyed good key c h"
    and a: "h_objs h a = None" and ob: "ce_refcnt ob = 1" "ce_cache ob = None" "\<not> ce_linked ob"
    and gd: "good (ce_mask ob) (ce_data ob)" "oo_free_data ops (ce_data ob)"
    and spec: "include_spec act (key (ce_data ob)) (ce_mask ob, ce_data ob) differ (view key c h) = (m, report)"
  shows "\<exists>h1 h2. cache_include ops c a act (Some (recorder g)) (set_obj a ob (h\<lparr>h_next := n\<rparr>)) = Some (0, h1)
    \<and> nl_object_put ops (Some a) h1 = Some h2 \<and> refs_ok ops h2 rc \<and> keyed good key c h2 \<and> view key c h2 = m
    \<and> nl_heap.more h2 = (case report of None \<Rightarrow> nl_heap.more h | Some r \<Rightarrow> g (nl_heap.more h) r)"
proof -
  let ?h = "set_obj a ob (h\<lparr>h_next := n\<rparr>)"
  have z: "rc a = 0" by (rule refs_okD(2) [OF ok a])
  have ok1: "refs_ok ops ?h (rc(a := 1))" by (rule refs_ok_fresh [OF ok a ob(1,2) gd(2)])
  have b1: "\<forall>x. (rc(a := 1)) x + 2 < 2 ^ 30" using bound by simp
  have o1: "h_objs ?h a = Some ob" by simp
  have s1: "include_spec act (key (ce_data ob)) (ce_mask ob, ce_data ob) differ (view key c ?h) = (m, report)"
    using spec view_fresh(1) [OF ok a k] by simp
  obtain h1 where h1: "cache_include ops c a act (Some (recorder g)) ?h = Some (0, h1)" "refs_ok ops h1 (rc(a := 1))"
      "keyed good key c h1" "view key c h1 = m"
      "nl_heap.more h1 = (case report of None \<Rightarrow> nl_heap.more ?h | Some r \<Rightarrow> g (nl_heap.more ?h) r)"
    using include_step [OF ok1 b1 view_fresh(2) [OF ok a k] o1 ob(3) gd(1) s1] by blast
  have "rc(a := 1) = rc(a := rc a + 1)" using z by simp
  then have ok2: "refs_ok ops h1 (rc(a := rc a + 1))" using h1(2) by simp
  obtain o2 where o2: "h_objs h1 a = Some o2" using refs_okD(2) [OF h1(2), of a] by (cases "h_objs h1 a") auto
  obtain h2 where "nl_object_put ops (Some a) h1 = Some h2" "refs_ok ops h2 rc" "keyed good key c h2"
      "view key c h2 = view key c h1" "nl_heap.more h2 = nl_heap.more h1"
    by (rule put_found [OF ok2 o2 h1(3)])
  moreover have "nl_heap.more ?h = nl_heap.more h" by simp
  ultimately show ?thesis using h1(1,4,5) by (intro exI [of _ h1] exI [of _ h2]) (simp only: simp_thms)
qed

end

section \<open>Removing what a resynchronisation has not seen\<close>

definition marked :: "('d, 'x) nl_heap_scheme \<Rightarrow> addr \<Rightarrow> bool" where
  "marked h a \<longleftrightarrow> ce_flags (the (h_objs h a)) AND NL_OBJ_MARK \<noteq> 0"

definition first_of :: "'a list \<Rightarrow> 'a option" where
  "first_of as = (case as of [] \<Rightarrow> None | a # _ \<Rightarrow> Some a)"

lemma after_split: "a \<notin> set pre \<Longrightarrow> after a (pre @ a # rest) = first_of rest"
  by (induction pre rule: induct_list012) (cases rest; auto simp: first_of_def)+

lemma next_item_split:
  assumes "h_caches h c = Some ca" and "c_items ca = pre @ a # rest" and "distinct (c_items ca)"
  shows "next_item c a h = Some (first_of rest)"
  using assms by (simp add: next_item_def after_split)

text \<open>One round of the loop.\<close>

lemma drop_marked_step:
  assumes ok: "refs_ok ops h rc" and bound: "\<forall>x. rc x + 2 < 2 ^ 30" and ca: "h_caches h c = Some ca" and a: "a \<in> set (c_items ca)"
  obtains h' ca' where "drop_marked ops c (Some (recorder g)) a h = Some h'" "refs_ok ops h' rc" "h_caches h' c = Some ca'"
    "c_items ca' = (if marked h a then remove1 a (c_items ca) else c_items ca)" "\<forall>x. x \<noteq> a \<longrightarrow> h_objs h' x = h_objs h x"
    "nl_heap.more h' = (if marked h a then g (nl_heap.more h) (NL_ACT_DEL, snd (entry (\<lambda>_. ()) h a)) else nl_heap.more h)"
proof -
  obtain ob where ob: "h_objs h a = Some ob" using refs_okD(3) [OF ok ca] a by (auto simp: cache_ok_def)
  have m: "nl_object_is_marked a h = Some (marked h a)" using ob by (simp add: nl_object_is_marked_def marked_def)
  show thesis
  proof (cases "marked h a")
    case False
    then show thesis using that [of h ca] m ok ca by (simp add: drop_marked_def)
  next
    case True
    have b2: "rc a + 2 < 2 ^ 30" using bound by blast
    obtain h1 h2 o2 where h2: "nl_object_get a h = Some h1" "nl_cache_remove ops a h1 = Some h2"
        "refs_ok ops h2 (rc(a := rc a + 1))" "touches a h h2" "h_objs h2 a = Some o2"
        "ce_mask o2 = ce_mask ob" "ce_data o2 = ce_data ob"
        "\<forall>c ca. h_caches h c = Some ca \<longrightarrow> (\<exists>ca'. h_caches h2 c = Some ca' \<and> c_items ca' = remove1 a (c_items ca))"
      by (rule take_out [OF ok ob b2])
    define h3 where "h3 = nl_heap.more_update (\<lambda>x. g x (NL_ACT_DEL, ce_mask ob, ce_data ob)) h2"
    obtain h4 where h4: "nl_object_put ops (Some a) h3 = Some h4" "refs_ok ops h4 ((rc(a := rc a + 1))(a := (rc(a := rc a + 1)) a - 1))"
        "h_caches h4 = h_caches h3" "touches a h3 h4"
      by (rule put_object_ref [where h = h3 and a = a and ob = o2 and rc = "rc(a := rc a + 1)" and ops = ops])
        (use h2(3,5) in \<open>simp_all add: h3_def\<close>)
    obtain ca' where ca': "h_caches h4 c = Some ca'" "c_items ca' = remove1 a (c_items ca)"
      using h2(8) ca h4(3) by (auto simp: h3_def)
    show thesis
      by (rule that [of h4 ca'])
        (use True m h2 h4 ca' ob in \<open>auto simp: drop_marked_def call_change_def recorder_def h3_def touches_def entry_def\<close>)
  qed
qed

lemma sweep_from:
  assumes "refs_ok ops h rc" and "\<forall>x. rc x + 2 < 2 ^ 30" and "h_caches h c = Some ca" and "c_items ca = pre @ rest"
  shows "\<exists>h' ca'. each_safe c (drop_marked ops c (Some (recorder g))) (first_of rest) h = Some h' \<and> refs_ok ops h' rc
    \<and> h_caches h' c = Some ca' \<and> c_items ca' = pre @ filter (\<lambda>a. \<not> marked h a) rest
    \<and> nl_heap.more h' = foldl g (nl_heap.more h) (map (\<lambda>a. (NL_ACT_DEL, snd (entry (\<lambda>_. ()) h a))) (filter (marked h) rest))"
  using assms
proof (induction rest arbitrary: h ca pre)
  case Nil
  then show ?case by (auto simp: first_of_def each_safe.simps)
next
  case (Cons a rest)
  have d: "distinct (c_items ca)" using refs_okD(3) [OF Cons.prems(1,3)] by (simp add: cache_ok_def)
  have a: "a \<in> set (c_items ca)" using Cons.prems(4) by simp
  obtain h1 ca1 where h1: "drop_marked ops c (Some (recorder g)) a h = Some h1" "refs_ok ops h1 rc" "h_caches h1 c = Some ca1"
      "c_items ca1 = (if marked h a then remove1 a (c_items ca) else c_items ca)" "\<forall>x. x \<noteq> a \<longrightarrow> h_objs h1 x = h_objs h x"
      "nl_heap.more h1 = (if marked h a then g (nl_heap.more h) (NL_ACT_DEL, snd (entry (\<lambda>_. ()) h a)) else nl_heap.more h)"
    by (rule drop_marked_step [OF Cons.prems(1-3) a])
  let ?pre = "if marked h a then pre else pre @ [a]"
  have it: "c_items ca1 = ?pre @ rest" using h1(4) Cons.prems(4) d by (auto simp: remove1_append)
  have "x \<noteq> a" if "x \<in> set rest" for x using that d Cons.prems(4) by auto
  then have same: "filter (marked h1) rest = filter (marked h) rest" "filter (\<lambda>a. \<not> marked h1 a) rest = filter (\<lambda>a. \<not> marked h a) rest"
      "map (\<lambda>a. (NL_ACT_DEL, snd (entry (\<lambda>_. ()) h1 a))) (filter (marked h) rest)
       = map (\<lambda>a. (NL_ACT_DEL, snd (entry (\<lambda>_. ()) h a))) (filter (marked h) rest)"
    using h1(5) by (auto simp: marked_def entry_def cong: filter_cong)
  note IH = Cons.IH [OF h1(2) Cons.prems(2) h1(3) it]
  have "each_safe c (drop_marked ops c (Some (recorder g))) (first_of (a # rest)) h
      = each_safe c (drop_marked ops c (Some (recorder g))) (first_of rest) h1"
    using next_item_split [OF Cons.prems(3,4) d] h1(1) by (subst each_safe.simps) (simp add: first_of_def)
  then show ?case
    using IH h1(6) unfolding same by (auto split: if_splits)
qed

text \<open>Exactly the marked objects leave the cache, each of them is reported once, in order.\<close>

lemma sweep_removes_marked:
  assumes "refs_ok ops h rc" and "\<forall>x. rc x + 2 < 2 ^ 30" and "h_caches h c = Some ca"
  shows "\<exists>h' ca'. resync_sweep ops c (Some (recorder g)) h = Some h' \<and> refs_ok ops h' rc
    \<and> h_caches h' c = Some ca' \<and> c_items ca' = filter (\<lambda>a. \<not> marked h a) (c_items ca)
    \<and> nl_heap.more h' = foldl g (nl_heap.more h) (map (\<lambda>a. (NL_ACT_DEL, snd (entry (\<lambda>_. ()) h a))) (filter (marked h) (c_items ca)))"
  using sweep_from [OF assms, of "[]" "c_items ca" g] assms(3)
  by (simp add: resync_sweep_def nl_cache_get_first_def first_of_def)

end
