(* ===== verification/NL_Mngt.thy ===== *)
theory NL_Mngt
  imports NL_Cache
begin

text \<open>
  The registries of the netlink library: cache operations (\<^verbatim>\<open>lib/cache_mngt.c\<close>), a singly linked list
  through the registered structures themselves, and generic netlink operations
  (\<^verbatim>\<open>lib/genl/mngt.c\<close>).  The structures lie at addresses and the list is followed pointer by
  pointer, so a cycle makes a search run forever and a dangling pointer is a fault.  As long as
  the list is well-formed, the registry is proved to be a finite map from names to structures.

  \<^typ>\<open>'h\<close> is the type of the heap the parsers work on.
\<close>

section \<open>Cache operations\<close>

text \<open>
  The request for a dump, \<^verbatim>\<open>co_request_update\<close>, is left out of the structure; the functions that call
  it have it as a parameter.
\<close>

type_synonym 'h pp_cb = "addr \<Rightarrow> 'h \<Rightarrow> (i32 \<times> 'h) option"

type_synonym 'h msg_parser = "bytes \<Rightarrow> nat \<Rightarrow> 'h pp_cb \<Rightarrow> 'h \<Rightarrow> (i32 \<times> 'h) option"

record 'h nl_cache_ops =
  co_name :: "bytes option"
  co_hdrsize :: i32
  co_protocol :: i32
  co_groups :: "(i32 \<times> i32) list option"
  co_msg_parser :: "'h msg_parser option"
  co_obj_ops :: "addr option"
  co_next :: "addr option"
  co_major_cache :: "addr option"
  co_genl :: "addr option"
  co_msgtypes :: "nl_msgtype list"

text \<open>The loop of \<open>nl_cache_parse\<close>; a parser that does not support the message leaves it to the next type.\<close>

fun parse_types :: "nl_msgtype list \<Rightarrow> i32 \<Rightarrow> ('h \<Rightarrow> (i32 \<times> 'h) option) \<Rightarrow> 'h \<Rightarrow> (i32 \<times> 'h) option" where
  "parse_types [] type parser h = None"
| "parse_types (m # ms) type parser h =
     (if is_neg (mt_id m) then Some (- NLE_MSGTYPE_NOSUPPORT, h)
      else if mt_id m = type then do {
        (err, h) \<leftarrow> parser h;
        if err \<noteq> - NLE_OPNOTSUPP then Some (err, h) else parse_types ms type parser h
      }
      else parse_types ms type parser h)"

definition nl_cache_parse :: "'h nl_cache_ops \<Rightarrow> bytes \<Rightarrow> nat \<Rightarrow> 'h pp_cb \<Rightarrow> 'h \<Rightarrow> (i32 \<times> 'h) option" where
  "nl_cache_parse ops b nlh params h = do {
     valid \<leftarrow> nlmsg_valid_hdr b nlh (co_hdrsize ops);
     if \<not> valid then Some (- NLE_MSG_TOOSHORT, h)
     else do {
       type \<leftarrow> ld16 b (nlh + NLH_TYPE);
       parse_types (co_msgtypes ops) (ucast type) (\<lambda>h. do { p \<leftarrow> co_msg_parser ops; p b nlh params h }) h
     }
   }"

section \<open>Generic netlink operations\<close>

record 'h genl_cmd =
  c_id :: i32
  c_name :: bytes
  c_maxattr :: i32
  c_msg_parser :: "(bytes \<Rightarrow> nat \<Rightarrow> attr_table \<Rightarrow> 'h pp_cb \<Rightarrow> 'h \<Rightarrow> (i32 \<times> 'h) option) option"
  c_attr_policy :: "(nat \<Rightarrow> nla_policy) option"

record 'h genl_ops =
  o_family :: i32
  o_id :: i32
  o_name :: "bytes option"
  o_cache_ops :: "addr option"
  o_cmds :: "'h genl_cmd list"

definition GENL_HDRSIZE :: "i32 \<Rightarrow> i32" where
  "GENL_HDRSIZE hdrlen = GENL_HDRLEN + hdrlen"

text \<open>The parameters \<open>hdrsize\<close> and \<open>cmds\<close> are read from the cache operations.\<close>

definition genl_msg_parser :: "i32 \<Rightarrow> 'h genl_cmd list \<Rightarrow> 'h msg_parser" where
  "genl_msg_parser hdrsize cmds b nlh pp h = do {
     ghdr_cmd \<leftarrow> ld8 b (nlmsg_data nlh);
     (case find (\<lambda>cmd. c_id cmd = ucast ghdr_cmd) cmds of
        None \<Rightarrow> Some (- NLE_MSGTYPE_NOSUPPORT, h)
      | Some cmd \<Rightarrow>
         (case c_msg_parser cmd of
            None \<Rightarrow> Some (- NLE_OPNOTSUPP, h)
          | Some parser \<Rightarrow> do {
              (err, tb) \<leftarrow> nlmsg_parse b nlh hdrsize (c_maxattr cmd) (c_attr_policy cmd) Map.empty;
              if is_neg err then Some (err, h) else parser b nlh tb pp h
            }))
   }"

section \<open>The registries\<close>

record 'h registry =
  ops_at :: "addr \<Rightarrow> 'h nl_cache_ops option"
  genl_at :: "addr \<Rightarrow> 'h genl_ops option"
  cache_ops :: "addr option"
  genl_ops_list :: "addr list"

partial_function (option) ops_walk ::
  "(addr \<Rightarrow> 'h nl_cache_ops option) \<Rightarrow> ('h nl_cache_ops \<Rightarrow> bool option) \<Rightarrow> addr option \<Rightarrow> addr option option" where
  "ops_walk mem test p =
    (case p of
       None \<Rightarrow> Some None
     | Some a \<Rightarrow> do {
         ops \<leftarrow> mem a;
         m \<leftarrow> test ops;
         if m then Some (Some a) else ops_walk mem test (co_next ops)
       })"

definition name_is :: "bytes \<Rightarrow> 'h nl_cache_ops \<Rightarrow> bool option" where
  "name_is name ops = map_option (\<lambda>n. n = name) (co_name ops)"

definition nl_cache_ops_lookup :: "bytes \<Rightarrow> 'h registry \<Rightarrow> addr option option" where
  "nl_cache_ops_lookup name r = ops_walk (ops_at r) (name_is name) (cache_ops r)"

definition nl_cache_ops_associate :: "i32 \<Rightarrow> i32 \<Rightarrow> 'h registry \<Rightarrow> addr option option" where
  "nl_cache_ops_associate protocol msgtype r =
     ops_walk (ops_at r)
       (\<lambda>ops. if co_protocol ops \<noteq> protocol then Some False
          else map_option (\<lambda>m. m \<noteq> None) (nl_msgtype_lookup (co_msgtypes ops) msgtype)) (cache_ops r)"

definition cache_ops_lookup_for_obj :: "addr option \<Rightarrow> 'h registry \<Rightarrow> addr option option" where
  "cache_ops_lookup_for_obj obj_ops r = ops_walk (ops_at r) (\<lambda>ops. Some (co_obj_ops ops = obj_ops)) (cache_ops r)"

partial_function (option) ops_each ::
  "(addr \<Rightarrow> 'u \<Rightarrow> 'u option) \<Rightarrow> (addr \<Rightarrow> 'h nl_cache_ops option) \<Rightarrow> addr option \<Rightarrow> 'u \<Rightarrow> 'u option" where
  "ops_each cb mem p u =
    (case p of
       None \<Rightarrow> Some u
     | Some a \<Rightarrow> do {
         u \<leftarrow> cb a u;
         ops \<leftarrow> mem a;
         ops_each cb mem (co_next ops) u
       })"

definition nl_cache_ops_foreach :: "(addr \<Rightarrow> 'u \<Rightarrow> 'u option) \<Rightarrow> 'h registry \<Rightarrow> 'u \<Rightarrow> 'u option" where
  "nl_cache_ops_foreach cb r u = ops_each cb (ops_at r) (cache_ops r) u"

definition set_ops :: "addr \<Rightarrow> 'h nl_cache_ops \<Rightarrow> 'h registry \<Rightarrow> 'h registry" where
  "set_ops a ops r = r\<lparr>ops_at := (ops_at r)(a \<mapsto> ops)\<rparr>"

definition nl_cache_mngt_register :: "addr \<Rightarrow> 'h registry \<Rightarrow> (i32 \<times> 'h registry) option" where
  "nl_cache_mngt_register a r = do {
     ops \<leftarrow> ops_at r a;
     (case co_name ops of
        None \<Rightarrow> Some (- NLE_INVAL, r)
      | Some name \<Rightarrow>
          if co_obj_ops ops = None then Some (- NLE_INVAL, r)
          else do {
            other \<leftarrow> nl_cache_ops_lookup name r;
            (case other of
               Some _ \<Rightarrow> Some (- NLE_EXIST, r)
             | None \<Rightarrow> Some (0, (set_ops a (ops\<lparr>co_next := cache_ops r\<rparr>) r)\<lparr>cache_ops := Some a\<rparr>))
          })
   }"

text \<open>
  The pointer \<^verbatim>\<open>tp\<close> of the search points to the head of the list (\<^term>\<open>None\<close>) or to the \<^verbatim>\<open>co_next\<close> of
  a structure.
\<close>

definition read_link :: "addr option \<Rightarrow> 'h registry \<Rightarrow> addr option option" where
  "read_link tp r = (case tp of None \<Rightarrow> Some (cache_ops r) | Some a \<Rightarrow> map_option co_next (ops_at r a))"

definition write_link :: "addr option \<Rightarrow> addr option \<Rightarrow> 'h registry \<Rightarrow> 'h registry option" where
  "write_link tp v r =
    (case tp of
       None \<Rightarrow> Some (r\<lparr>cache_ops := v\<rparr>)
     | Some a \<Rightarrow> do { ops \<leftarrow> ops_at r a; Some (set_ops a (ops\<lparr>co_next := v\<rparr>) r) })"

partial_function (option) unlink_from :: "addr \<Rightarrow> addr option \<Rightarrow> 'h registry \<Rightarrow> (i32 \<times> 'h registry) option" where
  "unlink_from a tp r = do {
     t \<leftarrow> read_link tp r;
     (case t of
        None \<Rightarrow> Some (- NLE_NOCACHE, r)
      | Some x \<Rightarrow>
          if x = a then do {
            ops \<leftarrow> ops_at r x;
            r \<leftarrow> write_link tp (co_next ops) r;
            Some (0, r)
          }
          else unlink_from a (Some x) r)
   }"

definition nl_cache_mngt_unregister :: "addr \<Rightarrow> 'h registry \<Rightarrow> (i32 \<times> 'h registry) option" where
  "nl_cache_mngt_unregister a r = unlink_from a None r"

text \<open>Sharing caches; \<open>c_ops\<close> are the operations of the cache \<open>cache\<close>.\<close>

definition nl_cache_mngt_provide :: "addr \<Rightarrow> addr \<Rightarrow> 'h registry \<Rightarrow> 'h registry option" where
  "nl_cache_mngt_provide cache c_ops r = do {
     co \<leftarrow> ops_at r c_ops;
     found \<leftarrow> cache_ops_lookup_for_obj (co_obj_ops co) r;
     a \<leftarrow> found;
     ops \<leftarrow> ops_at r a;
     Some (set_ops a (ops\<lparr>co_major_cache := Some cache\<rparr>) r)
   }"

definition nl_cache_mngt_unprovide :: "addr \<Rightarrow> addr \<Rightarrow> 'h registry \<Rightarrow> 'h registry option" where
  "nl_cache_mngt_unprovide cache c_ops r = do {
     co \<leftarrow> ops_at r c_ops;
     found \<leftarrow> cache_ops_lookup_for_obj (co_obj_ops co) r;
     a \<leftarrow> found;
     ops \<leftarrow> ops_at r a;
     Some (if co_major_cache ops = Some cache then set_ops a (ops\<lparr>co_major_cache := None\<rparr>) r else r)
   }"

definition nl_cache_mngt_require :: "bytes \<Rightarrow> 'h registry \<Rightarrow> addr option option" where
  "nl_cache_mngt_require name r = do {
     found \<leftarrow> nl_cache_ops_lookup name r;
     (case found of
        None \<Rightarrow> Some None
      | Some a \<Rightarrow> do { ops \<leftarrow> ops_at r a; Some (co_major_cache ops) })
   }"

definition nl_cache_alloc_name :: "bytes \<Rightarrow> 'h registry \<Rightarrow> ('d, 'x) nl_heap_scheme \<Rightarrow> (i32 \<times> addr option \<times> ('d, 'x) nl_heap_scheme) option" where
  "nl_cache_alloc_name kind r h = do {
     found \<leftarrow> nl_cache_ops_lookup kind r;
     (case found of
        None \<Rightarrow> Some (- NLE_NOCACHE, None, h)
      | Some _ \<Rightarrow>
         (case nl_cache_alloc h of
            (None, h) \<Rightarrow> Some (- NLE_NOMEM, None, h)
          | (Some c, h) \<Rightarrow> Some (0, Some c, h)))
   }"

text \<open>\<open>obj_ops_at\<close> are the object operations at an address.\<close>

definition nl_object_alloc_name ::
  "(addr \<Rightarrow> 'd nl_object_ops option) \<Rightarrow> bytes \<Rightarrow> 'h registry \<Rightarrow> ('d, 'x) nl_heap_scheme \<Rightarrow> (i32 \<times> addr option \<times> ('d, 'x) nl_heap_scheme) option" where
  "nl_object_alloc_name obj_ops_at kind r h = do {
     found \<leftarrow> nl_cache_ops_lookup kind r;
     (case found of
        None \<Rightarrow> Some (- NLE_OPNOTSUPP, None, h)
      | Some a \<Rightarrow> do {
          ops \<leftarrow> ops_at r a;
          p \<leftarrow> co_obj_ops ops;
          obj_ops \<leftarrow> obj_ops_at p;
          (case nl_object_alloc obj_ops h of
             (None, h) \<Rightarrow> Some (- NLE_NOMEM, None, h)
           | (Some x, h) \<Rightarrow> Some (0, Some x, h))
        })
   }"

section \<open>Registering generic netlink operations\<close>

text \<open>
  The type of the first message type is read before its end mark is looked at.  The structure is
  appended to the list of all generic netlink operations whether or not the registration below
  succeeds; appending an element that is already in the list breaks the list, a fault.
\<close>

definition genl_register :: "addr \<Rightarrow> 'h registry \<Rightarrow> (i32 \<times> 'h registry) option" where
  "genl_register a r = do {
     ops \<leftarrow> ops_at r a;
     if co_protocol ops \<noteq> NETLINK_GENERIC then Some (- NLE_PROTO_MISMATCH, r)
     else if sint (co_hdrsize ops) < sint (GENL_HDRSIZE 0) then Some (- NLE_INVAL, r)
     else
       (case co_genl ops of
          None \<Rightarrow> Some (- NLE_INVAL, r)
        | Some g \<Rightarrow> do {
            genl \<leftarrow> genl_at r g;
            ty \<leftarrow> (case co_msgtypes ops of [] \<Rightarrow> None | ty # _ \<Rightarrow> Some ty);
            let genl = genl\<lparr>o_cache_ops := Some a, o_name := mt_name ty, o_family := mt_id ty\<rparr>;
            let ops = ops\<lparr>co_msg_parser := Some (genl_msg_parser (co_hdrsize ops) (o_cmds genl))\<rparr>;
            if g \<in> set (genl_ops_list r) then None
            else nl_cache_mngt_register a
              ((set_ops a ops r)\<lparr>genl_at := (genl_at r)(g \<mapsto> genl), genl_ops_list := genl_ops_list r @ [g]\<rparr>)
          })
   }"

definition genl_unregister :: "addr \<Rightarrow> 'h registry \<Rightarrow> 'h registry option" where
  "genl_unregister a r = do {
     (_, r) \<leftarrow> nl_cache_mngt_unregister a r;
     ops \<leftarrow> ops_at r a;
     g \<leftarrow> co_genl ops;
     if g \<in> set (genl_ops_list r) then Some (r\<lparr>genl_ops_list := remove1 g (genl_ops_list r)\<rparr>) else None
   }"

text \<open>
  The name of an operation is copied with \<^verbatim>\<open>strncpy(buf, name, len - 1)\<close>: up to \<open>len - 1\<close> bytes, filled up
  with NUL; the last byte of the buffer is not written, and the length 0 is a request for the
  largest size.
\<close>

definition strncpy :: "bytes \<Rightarrow> bytes \<Rightarrow> nat \<Rightarrow> bytes option" where
  "strncpy buf str n =
     (if n \<le> length buf then Some (take n (str @ replicate n 0) @ drop n buf) else None)"

primrec find_op_name :: "'h registry \<Rightarrow> i32 \<Rightarrow> i32 \<Rightarrow> addr list \<Rightarrow> bytes option option" where
  "find_op_name r family opn [] = Some None"
| "find_op_name r family opn (g # gs) = do {
     genl \<leftarrow> genl_at r g;
     (case (if o_family genl = family then find (\<lambda>cmd. c_id cmd = opn) (o_cmds genl) else None) of
        Some cmd \<Rightarrow> Some (Some (c_name cmd))
      | None \<Rightarrow> find_op_name r family opn gs)
   }"

definition unknown_name :: bytes where
  "unknown_name = [0x75, 0x6e, 0x6b, 0x6e, 0x6f, 0x77, 0x6e]"

text \<open>The result says whether the buffer was returned, and holds the buffer.\<close>

definition genl_op2name :: "i32 \<Rightarrow> i32 \<Rightarrow> bytes \<Rightarrow> u64 \<Rightarrow> 'h registry \<Rightarrow> (bool \<times> bytes) option" where
  "genl_op2name family opn buf len r = do {
     found \<leftarrow> find_op_name r family opn (genl_ops_list r);
     (case found of
        Some str \<Rightarrow> do { buf \<leftarrow> strncpy buf str (unat (len - 1)); Some (True, buf) }
      | None \<Rightarrow> do { buf \<leftarrow> strncpy buf unknown_name (unat (len - 1)); Some (False, buf) })
   }"

section \<open>A well-formed registry\<close>

text \<open>\<open>chain mem p as\<close>: following \<^verbatim>\<open>co_next\<close> from \<open>p\<close> visits the structures at \<open>as\<close> and ends.\<close>

primrec chain :: "(addr \<Rightarrow> 'h nl_cache_ops option) \<Rightarrow> addr option \<Rightarrow> addr list \<Rightarrow> bool" where
  "chain mem p [] \<longleftrightarrow> p = None"
| "chain mem p (a # as) \<longleftrightarrow> p = Some a \<and> (\<exists>ops. mem a = Some ops \<and> chain mem (co_next ops) as)"

definition names_of :: "'h registry \<Rightarrow> addr list \<Rightarrow> bytes list" where
  "names_of r as = map (\<lambda>a. the (co_name (the (ops_at r a)))) as"

definition registry_ok :: "'h registry \<Rightarrow> addr list \<Rightarrow> bool" where
  "registry_ok r as \<longleftrightarrow> chain (ops_at r) (cache_ops r) as \<and> distinct as \<and> distinct (names_of r as)
     \<and> (\<forall>a \<in> set as. \<exists>ops. ops_at r a = Some ops \<and> co_name ops \<noteq> None \<and> co_obj_ops ops \<noteq> None)"

definition named :: "'h registry \<Rightarrow> addr list \<Rightarrow> bytes \<rightharpoonup> addr" where
  "named r as = map_of (zip (names_of r as) as)"

lemma chain_upd: "a \<notin> set as \<Longrightarrow> chain (mem(a \<mapsto> ops)) p as = chain mem p as"
  by (induction as arbitrary: p) auto

lemma ops_walk_chain:
  assumes "chain mem p as" and "\<forall>a \<in> set as. test (the (mem a)) = Some (q a)"
  shows "ops_walk mem test p = Some (find q as)"
  using assms
proof (induction as arbitrary: p)
  case Nil
  then show ?case by (simp add: ops_walk.simps)
next
  case (Cons a as)
  then obtain ops where "p = Some a" "mem a = Some ops" "chain mem (co_next ops) as" by auto
  then show ?case using Cons by (simp add: ops_walk.simps)
qed

lemma find_named:
  assumes "distinct (map f as)"
  shows "find (\<lambda>a. f a = n) as = map_of (zip (map f as) as) n"
  using assms by (induction as) auto

lemma lookup_named:
  assumes "registry_ok r as"
  shows "nl_cache_ops_lookup name r = Some (named r as name)"
proof -
  let ?f = "\<lambda>a. the (co_name (the (ops_at r a)))"
  have "nl_cache_ops_lookup name r = Some (find (\<lambda>a. ?f a = name) as)"
    unfolding nl_cache_ops_lookup_def
    by (rule ops_walk_chain) (use assms in \<open>fastforce simp: registry_ok_def name_is_def\<close>)+
  then show ?thesis
    using assms find_named [of ?f as name] by (simp add: registry_ok_def names_of_def named_def)
qed

lemma named_None_iff: "named r as name = None \<longleftrightarrow> name \<notin> set (names_of r as)"
  by (simp add: named_def names_of_def map_of_zip_is_None)

lemma names_of_cong: "(\<And>a. a \<in> set as \<Longrightarrow> co_name (the (ops_at r' a)) = co_name (the (ops_at r a))) \<Longrightarrow> names_of r' as = names_of r as"
  by (simp add: names_of_def)

lemma register_ok:
  assumes ok: "registry_ok r as" and a: "ops_at r a = Some ops" "co_name ops = Some name" "co_obj_ops ops \<noteq> None" "a \<notin> set as"
  shows "\<exists>r'. nl_cache_mngt_register a r = Some (if named r as name = None then 0 else - NLE_EXIST, r')
    \<and> (if named r as name = None then registry_ok r' (a # as) \<and> named r' (a # as) = (named r as)(name \<mapsto> a) else r' = r)"
proof (cases "named r as name")
  case None
  define r' where "r' = (set_ops a (ops\<lparr>co_next := cache_ops r\<rparr>) r)\<lparr>cache_ops := Some a\<rparr>"
  have nm: "names_of r' as = names_of r as" using a(4) by (intro names_of_cong) (auto simp: r'_def set_ops_def)
  have nm2: "names_of r' (a # as) = name # names_of r as"
    using nm a(2) by (simp add: names_of_def r'_def set_ops_def)
  have "chain (ops_at r') (cache_ops r') (a # as)"
    using ok a(4) chain_upd [OF a(4), of "ops_at r" "ops\<lparr>co_next := cache_ops r\<rparr>"]
    by (auto simp: r'_def set_ops_def registry_ok_def)
  moreover have "\<forall>x \<in> set (a # as). \<exists>ops. ops_at r' x = Some ops \<and> co_name ops \<noteq> None \<and> co_obj_ops ops \<noteq> None"
    using ok a by (auto simp: r'_def set_ops_def registry_ok_def)
  moreover have "name \<notin> set (names_of r as)" using None by (simp add: named_None_iff)
  ultimately have "registry_ok r' (a # as)"
    using ok a(4) nm2 by (simp add: registry_ok_def)
  moreover have "named r' (a # as) = (named r as)(name \<mapsto> a)" by (simp add: named_def nm2)
  moreover have "nl_cache_mngt_register a r = Some (0, r')"
    using a None lookup_named [OF ok, of name] by (auto simp: nl_cache_mngt_register_def r'_def)
  ultimately show ?thesis using None by auto
next
  case (Some x)
  then show ?thesis using a lookup_named [OF ok, of name] by (auto simp: nl_cache_mngt_register_def)
qed

lemma chain_first: "chain mem p as \<Longrightarrow> p = first_of as"
  by (cases as) (auto simp: first_of_def)

lemma chain_next: "chain mem p (pre @ x # rest) \<Longrightarrow> \<exists>ops. mem x = Some ops \<and> chain mem (co_next ops) rest"
  by (induction pre arbitrary: p) auto

lemma chain_relink:
  assumes "chain mem p (pre @ x # a # rest)" and "distinct (pre @ x # a # rest)" and "mem x = Some xo" and "mem a = Some ao"
  shows "chain (mem(x \<mapsto> xo\<lparr>co_next := co_next ao\<rparr>)) p (pre @ x # rest)"
  using assms
proof (induction pre arbitrary: p)
  case Nil
  then show ?case using chain_upd [of x rest mem "xo\<lparr>co_next := co_next ao\<rparr>" "co_next ao"] by (auto simp: fun_upd_def)
next
  case (Cons y pre)
  then show ?case by auto
qed

definition link_after :: "addr list \<Rightarrow> addr option" where
  "link_after pre = (if pre = [] then None else Some (last pre))"

lemma read_link_after:
  assumes "chain (ops_at r) (cache_ops r) (pre @ rest)"
  shows "read_link (link_after pre) r = Some (first_of rest)"
proof (cases pre rule: rev_cases)
  case Nil
  then show ?thesis using assms chain_first by (auto simp: read_link_def link_after_def)
next
  case (snoc ys y)
  then show ?thesis using assms chain_next [of "ops_at r" "cache_ops r" ys y rest] chain_first
    by (auto simp: read_link_def link_after_def)
qed

lemma write_link_after:
  assumes ok: "registry_ok r (pre @ a # rest)" and a: "ops_at r a = Some ao"
  obtains r' where "write_link (link_after pre) (co_next ao) r = Some r'" "registry_ok r' (pre @ rest)"
    "names_of r' (pre @ rest) = names_of r (pre @ rest)" "ops_at r' a = Some ao" "genl_ops_list r' = genl_ops_list r"
proof (cases pre rule: rev_cases)
  case Nil
  have "names_of (r\<lparr>cache_ops := co_next ao\<rparr>) rest = names_of r rest" by (simp add: names_of_def)
  then show thesis
    using that [of "r\<lparr>cache_ops := co_next ao\<rparr>"] ok a Nil
    by (auto simp: write_link_def link_after_def registry_ok_def names_of_def)
next
  case (snoc ys y)
  then obtain yo where y: "ops_at r y = Some yo" and yo: "co_name yo \<noteq> None" "co_obj_ops yo \<noteq> None"
    using ok by (fastforce simp: registry_ok_def)
  define r' where "r' = set_ops y (yo\<lparr>co_next := co_next ao\<rparr>) r"
  have nm: "names_of r' xs = names_of r xs" for xs
    by (rule names_of_cong) (use y in \<open>simp add: r'_def set_ops_def\<close>)
  have "chain (ops_at r') (cache_ops r') (pre @ rest)"
    using chain_relink [of "ops_at r" "cache_ops r" ys y a rest yo ao] ok y a snoc by (simp add: registry_ok_def r'_def set_ops_def)
  moreover have "distinct (names_of r (pre @ rest))" using ok by (auto simp: registry_ok_def names_of_def)
  ultimately have "registry_ok r' (pre @ rest)"
    using ok yo nm unfolding registry_ok_def by (simp add: r'_def set_ops_def)
  moreover have "write_link (link_after pre) (co_next ao) r = Some r'"
    using snoc y by (simp add: write_link_def link_after_def r'_def)
  moreover have "a \<noteq> y" using ok snoc by (auto simp: registry_ok_def)
  ultimately show thesis using that [of r'] nm a by (simp add: r'_def set_ops_def)
qed

lemma unlink_from_chain:
  assumes "registry_ok r (pre @ rest)"
  shows "\<exists>r'. unlink_from a (link_after pre) r = Some (if a \<in> set rest then 0 else - NLE_NOCACHE, r')
    \<and> (if a \<in> set rest then registry_ok r' (pre @ remove1 a rest) \<and> names_of r' (pre @ remove1 a rest) = names_of r (pre @ remove1 a rest)
       else r' = r)"
  using assms
proof (induction rest arbitrary: pre)
  case Nil
  then show ?case using read_link_after [of r pre "[]"]
    by (simp add: unlink_from.simps registry_ok_def first_of_def)
next
  case (Cons x rest)
  have rd: "read_link (link_after pre) r = Some (Some x)"
    using Cons.prems read_link_after [of r pre "x # rest"] by (simp add: registry_ok_def first_of_def)
  obtain xo where x: "ops_at r x = Some xo" using Cons.prems by (auto simp: registry_ok_def)
  show ?case
  proof (cases "x = a")
    case True
    obtain r' where "write_link (link_after pre) (co_next xo) r = Some r'" "registry_ok r' (pre @ rest)"
        "names_of r' (pre @ rest) = names_of r (pre @ rest)"
      using write_link_after [OF Cons.prems x] by metis
    then show ?thesis using rd x True by (simp add: unlink_from.simps)
  next
    case False
    have "unlink_from a (link_after pre) r = unlink_from a (link_after (pre @ [x])) r"
      using rd False by (subst unlink_from.simps) (simp add: link_after_def)
    then show ?thesis using Cons.IH [of "pre @ [x]"] Cons.prems False by (auto split: if_splits)
  qed
qed

lemma unregister_ok:
  assumes "registry_ok r as"
  shows "\<exists>r'. nl_cache_mngt_unregister a r = Some (if a \<in> set as then 0 else - NLE_NOCACHE, r')
    \<and> (if a \<in> set as then registry_ok r' (remove1 a as) \<and> names_of r' (remove1 a as) = names_of r (remove1 a as) else r' = r)"
proof -
  have "link_after [] = None" by (simp add: link_after_def)
  then show ?thesis
    using unlink_from_chain [of r "[]" as a] assms by (simp only: nl_cache_mngt_unregister_def append_Nil)
qed

lemma named_removed:
  assumes "registry_ok r as" and "ops_at r a = Some ops" and "co_name ops = Some name" and "a \<in> set as"
  shows "map_of (zip (names_of r (remove1 a as)) (remove1 a as)) = (map_of (zip (names_of r as) as))(name := None)"
  using assms map_of_remove1 [of "\<lambda>a. (the (co_name (the (ops_at r a))), a)" as a]
  by (simp add: registry_ok_def names_of_def zip_map1 zip_same_conv_map comp_def split_def)

text \<open>
  Claim C11.  The registry of cache operations is a map from names to structures: a lookup is the
  application of the map; registering adds the structure under its name, unless the name is
  taken, which is reported and changes nothing; unregistering deletes exactly this structure,
  and one that is not registered is reported.
\<close>

theorem registry_refines_map:
  assumes ok: "registry_ok r as" and a: "ops_at r a = Some ops" "co_name ops = Some name" "co_obj_ops ops \<noteq> None"
  shows "nl_cache_ops_lookup n r = Some (named r as n)
    \<and> (a \<notin> set as \<longrightarrow> named r as name = None \<longrightarrow> (\<exists>r'. nl_cache_mngt_register a r = Some (0, r')
        \<and> registry_ok r' (a # as) \<and> named r' (a # as) = (named r as)(name \<mapsto> a)))
    \<and> (named r as name \<noteq> None \<longrightarrow> nl_cache_mngt_register a r = Some (- NLE_EXIST, r))
    \<and> (a \<in> set as \<longrightarrow> (\<exists>r'. nl_cache_mngt_unregister a r = Some (0, r')
        \<and> registry_ok r' (remove1 a as) \<and> named r' (remove1 a as) = (named r as)(name := None)))
    \<and> (a \<notin> set as \<longrightarrow> nl_cache_mngt_unregister a r = Some (- NLE_NOCACHE, r))"
proof (intro conjI impI)
  show "nl_cache_ops_lookup n r = Some (named r as n)" by (rule lookup_named [OF ok])
next
  assume "a \<notin> set as" and "named r as name = None"
  then show "\<exists>r'. nl_cache_mngt_register a r = Some (0, r') \<and> registry_ok r' (a # as) \<and> named r' (a # as) = (named r as)(name \<mapsto> a)"
    using register_ok [OF ok a] by auto
next
  assume "named r as name \<noteq> None"
  then show "nl_cache_mngt_register a r = Some (- NLE_EXIST, r)"
    using a lookup_named [OF ok, of name] by (auto simp: nl_cache_mngt_register_def)
next
  assume "a \<in> set as"
  then show "\<exists>r'. nl_cache_mngt_unregister a r = Some (0, r') \<and> registry_ok r' (remove1 a as) \<and> named r' (remove1 a as) = (named r as)(name := None)"
    using unregister_ok [OF ok, of a] named_removed [OF ok a(1,2)] by (auto simp: named_def)
next
  assume "a \<notin> set as"
  then show "nl_cache_mngt_unregister a r = Some (- NLE_NOCACHE, r)" using unregister_ok [OF ok, of a] by auto
qed

text \<open>A change of a structure that is not registered.\<close>

lemma registry_ok_other:
  assumes "registry_ok r as" and "a \<notin> set as"
  shows "registry_ok ((set_ops a ops r)\<lparr>genl_at := m, genl_ops_list := gs\<rparr>) as"
    and "named ((set_ops a ops r)\<lparr>genl_at := m, genl_ops_list := gs\<rparr>) as = named r as"
proof -
  have nm: "names_of ((set_ops a ops r)\<lparr>genl_at := m, genl_ops_list := gs\<rparr>) as = names_of r as"
    by (rule names_of_cong) (use assms(2) in \<open>auto simp: set_ops_def\<close>)
  then show "named ((set_ops a ops r)\<lparr>genl_at := m, genl_ops_list := gs\<rparr>) as = named r as" by (simp add: named_def)
  show "registry_ok ((set_ops a ops r)\<lparr>genl_at := m, genl_ops_list := gs\<rparr>) as"
    using assms nm chain_upd [OF assms(2), of "ops_at r" ops "cache_ops r"]
    by (auto simp: registry_ok_def set_ops_def)
qed

lemma unlink_keeps_lists:
  assumes "registry_ok r (a # as)" and "ops_at r a = Some ops"
  shows "\<exists>r'. nl_cache_mngt_unregister a r = Some (0, r') \<and> registry_ok r' as \<and> ops_at r' = ops_at r
    \<and> genl_ops_list r' = genl_ops_list r \<and> named r' as = named r as"
proof -
  have "chain (ops_at r) (cache_ops r) (a # as)" using assms(1) by (simp add: registry_ok_def)
  then have "nl_cache_mngt_unregister a r = Some (0, r\<lparr>cache_ops := co_next ops\<rparr>)"
    using assms(2) by (auto simp: nl_cache_mngt_unregister_def unlink_from.simps read_link_def write_link_def)
  moreover have "registry_ok (r\<lparr>cache_ops := co_next ops\<rparr>) as"
    using assms by (auto simp: registry_ok_def names_of_def)
  ultimately show ?thesis by (simp add: named_def names_of_def)
qed

text \<open>
  Registering generic netlink operations: with a new name the structure is in both
  registries afterwards, with the dispatcher of generic netlink messages as its parser, and
  unregistering it restores them; with a name that is taken the call fails, but leaves the
  operations in the list of all generic netlink operations.
\<close>

lemma genl_registration:
  assumes ok: "registry_ok r as" and a: "ops_at r a = Some ops" "co_name ops = Some name" "co_obj_ops ops \<noteq> None" "a \<notin> set as"
    and genl: "co_protocol ops = NETLINK_GENERIC" "\<not> sint (co_hdrsize ops) < sint (GENL_HDRSIZE 0)" "co_genl ops = Some g"
      "genl_at r g = Some go" "co_msgtypes ops = ty # tys" "g \<notin> set (genl_ops_list r)"
  shows "if named r as name = None
    then \<exists>r' r''. genl_register a r = Some (0, r') \<and> named r' (a # as) = (named r as)(name \<mapsto> a)
        \<and> genl_ops_list r' = genl_ops_list r @ [g]
        \<and> map_option co_msg_parser (ops_at r' a) = Some (Some (genl_msg_parser (co_hdrsize ops) (o_cmds go)))
        \<and> genl_unregister a r' = Some r'' \<and> registry_ok r'' as \<and> named r'' as = named r as \<and> genl_ops_list r'' = genl_ops_list r
    else \<exists>r'. genl_register a r = Some (- NLE_EXIST, r') \<and> genl_ops_list r' = genl_ops_list r @ [g] \<and> named r' as = named r as"
proof -
  let ?ops = "ops\<lparr>co_msg_parser := Some (genl_msg_parser (co_hdrsize ops) (o_cmds go))\<rparr>"
  define r1 where "r1 = (set_ops a ?ops r)\<lparr>genl_at := (genl_at r)(g \<mapsto> go\<lparr>o_cache_ops := Some a, o_name := mt_name ty, o_family := mt_id ty\<rparr>),
    genl_ops_list := genl_ops_list r @ [g]\<rparr>"
  have reg: "genl_register a r = nl_cache_mngt_register a r1"
    using a genl by (simp add: genl_register_def r1_def)
  have ok1: "registry_ok r1 as" "named r1 as = named r as"
    unfolding r1_def by (rule registry_ok_other [OF ok a(4)])+
  have a1: "ops_at r1 a = Some ?ops" "co_name ?ops = Some name" "co_obj_ops ?ops \<noteq> None" "genl_ops_list r1 = genl_ops_list r @ [g]"
    using a by (simp_all add: r1_def set_ops_def)
  note lk = lookup_named [OF ok1(1), of name]
  show ?thesis
  proof (cases "named r as name")
    case None
    define r2 where "r2 = (set_ops a (?ops\<lparr>co_next := cache_ops r1\<rparr>) r1)\<lparr>cache_ops := Some a\<rparr>"
    have r2: "nl_cache_mngt_register a r1 = Some (0, r2)"
      using a1 lk None ok1(2) by (auto simp: nl_cache_mngt_register_def r2_def)
    have ok2: "registry_ok r2 (a # as)" "named r2 (a # as) = (named r as)(name \<mapsto> a)"
      using register_ok [OF ok1(1) a1(1-3) a(4)] None ok1(2) r2 by auto
    have a2: "ops_at r2 a = Some (?ops\<lparr>co_next := cache_ops r1\<rparr>)" "genl_ops_list r2 = genl_ops_list r @ [g]"
      using a1(4) by (simp_all add: r2_def set_ops_def)
    obtain r3 where r3: "nl_cache_mngt_unregister a r2 = Some (0, r3)" "registry_ok r3 as" "ops_at r3 = ops_at r2"
        "genl_ops_list r3 = genl_ops_list r2" "named r3 as = named r2 as"
      using unlink_keeps_lists [OF ok2(1) a2(1)] by blast
    have "names_of r2 as = names_of r1 as"
      by (rule names_of_cong) (use a(4) in \<open>auto simp: r2_def set_ops_def\<close>)
    then have nm: "named r2 as = named r as" using ok1(2) by (simp add: named_def)
    define r4 where "r4 = r3\<lparr>genl_ops_list := remove1 g (genl_ops_list r3)\<rparr>"
    have "genl_unregister a r2 = Some r4"
      using r3(1,3,4) a2 genl(3) by (simp add: genl_unregister_def r4_def)
    moreover have "genl_ops_list r4 = genl_ops_list r" using genl(6) r3(4) a2(2) by (simp add: r4_def remove1_append)
    moreover have "registry_ok r4 as" "named r4 as = named r3 as"
      using r3(2) by (auto simp: r4_def registry_ok_def named_def names_of_def)
    ultimately show ?thesis
      using None reg r2 ok2 a2 r3(5) nm by auto
  next
    case (Some x)
    have "nl_cache_mngt_register a r1 = Some (- NLE_EXIST, r1)"
      using a1 lk Some ok1(2) by (auto simp: nl_cache_mngt_register_def)
    then show ?thesis using Some reg a1(4) ok1(2) by auto
  qed
qed

end
