(* ===== verification/NL_Update.thy ===== *)
theory NL_Update
  imports NL_Mngt
begin

text \<open>
  Filling caches from a socket (\<^verbatim>\<open>lib/cache.c\<close>): requesting a dump, picking up the answer, refilling
  and resynchronising a cache.  \<open>oops\<close> are the operations of the objects, \<open>ops\<close> those of the cache,
  and \<open>req\<close> is the request of the latter.
\<close>

section \<open>Comparing and parsing objects\<close>

definition ATTR_DIFF :: "u32 \<Rightarrow> u32 \<Rightarrow> u32 \<Rightarrow> u32 \<Rightarrow> bool \<Rightarrow> u32" where
  "ATTR_DIFF attrs attr mask_a mask_b differ =
     (if attrs AND attr \<noteq> 0
         \<and> ((mask_a XOR mask_b) AND attr \<noteq> 0 \<or> (mask_a AND mask_b) AND attr \<noteq> 0 \<and> differ)
      then attr else 0)"

text \<open>What an object says of an attribute: nothing, if its mask does not have it.\<close>

definition known :: "u32 \<Rightarrow> u32 \<Rightarrow> 'a \<Rightarrow> 'a option" where
  "known msk attr x = (if msk AND attr \<noteq> 0 then Some x else None)"

lemma ATTR_DIFF_zero:
  assumes "attr = push_bit k (1 :: u32)" "attr \<noteq> 0" and "ma AND attr \<noteq> 0 \<Longrightarrow> mb AND attr \<noteq> 0 \<Longrightarrow> d = (x \<noteq> y)"
  shows "ATTR_DIFF (- 1) attr ma mb d = 0 \<longleftrightarrow> known ma attr x = known mb attr y"
proof -
  have b: "m AND attr \<noteq> 0 \<longleftrightarrow> bit m k" for m by (simp only: assms(1) bit_iff_and_push_bit_not_eq_0)
  have "ATTR_DIFF (- 1) attr ma mb d = 0 \<longleftrightarrow> \<not> (bit (ma XOR mb) k \<or> bit (ma AND mb) k \<and> d)"
    unfolding ATTR_DIFF_def b using assms(2) b [of "- 1"] by simp
  also have "\<dots> \<longleftrightarrow> known ma attr x = known mb attr y"
    using assms(3) unfolding b known_def by (auto simp: bit_xor_iff bit_and_iff)
  finally show ?thesis .
qed

definition no_policy :: nla_policy where
  "no_policy = \<lparr>pol_type = NLA_UNSPEC, pol_minlen = 0, pol_maxlen = 0\<rparr>"

definition of_type :: "u16 \<Rightarrow> nla_policy" where
  "of_type t = no_policy\<lparr>pol_type := t\<rparr>"

section \<open>Filling a cache\<close>

definition pickup_cb :: "'d nl_object_ops \<Rightarrow> addr \<Rightarrow> addr \<Rightarrow> 'd nl_heap \<Rightarrow> (i32 \<times> 'd nl_heap) option" where
  "pickup_cb oops cache obj h = nl_cache_add oops cache obj h"

definition nl_cache_parse_and_add ::
  "'d nl_object_ops \<Rightarrow> 'd nl_heap nl_cache_ops \<Rightarrow> addr \<Rightarrow> nl_msg \<Rightarrow> 'd nl_heap \<Rightarrow> (i32 \<times> 'd nl_heap) option" where
  "nl_cache_parse_and_add oops ops cache msg h = nl_cache_parse ops (nlmsg_hdr msg) 0 (pickup_cb oops cache) h"

text \<open>The state of a program contains the heap of the library; programs extend this record.\<close>

record 'd libstate =
  lib :: "'d nl_heap"

definition update_msg_parser ::
  "'d nl_heap nl_cache_ops \<Rightarrow> 'd nl_heap pp_cb \<Rightarrow> ('d, 'u) libstate_scheme msg_cb" where
  "update_msg_parser ops params msg arg u = do {
     (err, h) \<leftarrow> nl_cache_parse ops (nm_nlh msg) 0 params (lib u);
     Some (err, u\<lparr>lib := h\<rparr>)
   }"

text \<open>\<^verbatim>\<open>__cache_pickup\<close>; \<open>ops\<close> are the operations of the cache.\<close>

definition cache_pickup ::
  "'d nl_heap nl_cache_ops \<Rightarrow> 'k sys \<Rightarrow> ('d, 'u) libstate_scheme nl_sock \<Rightarrow> 'd nl_heap pp_cb \<Rightarrow> ('d, 'u) libstate_scheme \<Rightarrow> 'k proc
     \<Rightarrow> (i32 \<times> ('d, 'u) libstate_scheme nl_sock \<times> ('d, 'u) libstate_scheme \<times> 'k proc) option" where
  "cache_pickup ops sys sk params u p =
    (let (ok, k) = sys_alloc sys (kern p); p = p\<lparr>kern := k\<rparr> in
     case nl_cb_clone ok (s_cb sk) of
       None \<Rightarrow> Some (- NLE_NOMEM, sk, u, p)
     | Some cb \<Rightarrow> do {
         let cb = snd (nl_cb_set cb NL_CB_VALID NL_CB_CUSTOM (Some (update_msg_parser ops params)) 0);
         (err, sk, u, p) \<leftarrow> nl_recvmsgs sys sk cb u p;
         _ \<leftarrow> nl_cb_put (Some cb);
         Some (err, sk, u, p)
       })"

definition nl_cache_pickup ::
  "'d nl_object_ops \<Rightarrow> 'd nl_heap nl_cache_ops \<Rightarrow> 'k sys \<Rightarrow> ('d, 'u) libstate_scheme nl_sock \<Rightarrow> addr \<Rightarrow> ('d, 'u) libstate_scheme \<Rightarrow> 'k proc
     \<Rightarrow> (i32 \<times> ('d, 'u) libstate_scheme nl_sock \<times> ('d, 'u) libstate_scheme \<times> 'k proc) option" where
  "nl_cache_pickup oops ops sys sk cache u p = cache_pickup ops sys sk (pickup_cb oops cache) u p"

text \<open>The request of the operations, \<^verbatim>\<open>co_request_update\<close>, is a parameter; there may be none.\<close>

type_synonym ('u, 'k) request_update = "'u nl_sock \<Rightarrow> 'u \<Rightarrow> 'k proc \<Rightarrow> (i32 \<times> 'u nl_sock \<times> 'u \<times> 'k proc) option"

definition nl_cache_request_full_dump ::
  "('u, 'k) request_update option \<Rightarrow> 'u nl_sock \<Rightarrow> 'u \<Rightarrow> 'k proc \<Rightarrow> (i32 \<times> 'u nl_sock \<times> 'u \<times> 'k proc) option" where
  "nl_cache_request_full_dump req sk u p =
    (case req of None \<Rightarrow> Some (- NLE_OPNOTSUPP, sk, u, p) | Some f \<Rightarrow> f sk u p)"

definition nl_cache_refill ::
  "'d nl_object_ops \<Rightarrow> 'd nl_heap nl_cache_ops \<Rightarrow> (('d, 'u) libstate_scheme, 'k) request_update option \<Rightarrow> 'k sys \<Rightarrow> ('d, 'u) libstate_scheme nl_sock \<Rightarrow> addr \<Rightarrow> ('d, 'u) libstate_scheme \<Rightarrow> 'k proc
     \<Rightarrow> (i32 \<times> ('d, 'u) libstate_scheme nl_sock \<times> ('d, 'u) libstate_scheme \<times> 'k proc) option" where
  "nl_cache_refill oops ops req sys sk cache u p = do {
     (err, sk, u, p) \<leftarrow> nl_cache_request_full_dump req sk u p;
     if is_neg err then Some (err, sk, u, p)
     else do {
       h \<leftarrow> nl_cache_clear oops cache (lib u);
       nl_cache_pickup oops ops sys sk cache (u\<lparr>lib := h\<rparr>) p
     }
   }"

text \<open>The cache is in the result when the code is 0.\<close>

definition nl_cache_alloc_and_fill ::
  "'d nl_object_ops \<Rightarrow> 'd nl_heap nl_cache_ops \<Rightarrow> (('d, 'u) libstate_scheme, 'k) request_update option \<Rightarrow> 'k sys \<Rightarrow> ('d, 'u) libstate_scheme nl_sock \<Rightarrow> ('d, 'u) libstate_scheme \<Rightarrow> 'k proc
     \<Rightarrow> (i32 \<times> addr option \<times> ('d, 'u) libstate_scheme nl_sock \<times> ('d, 'u) libstate_scheme \<times> 'k proc) option" where
  "nl_cache_alloc_and_fill oops ops req sys sk u p =
    (case nl_cache_alloc (lib u) of
       (None, h) \<Rightarrow> Some (- NLE_NOMEM, None, sk, u\<lparr>lib := h\<rparr>, p)
     | (Some cache, h) \<Rightarrow> do {
         (err, sk, u, p) \<leftarrow> nl_cache_refill oops ops req sys sk cache (u\<lparr>lib := h\<rparr>) p;
         if is_neg err then do {
           h \<leftarrow> nl_cache_free oops (Some cache) (lib u);
           Some (err, None, sk, u\<lparr>lib := h\<rparr>, p)
         }
         else Some (0, Some cache, sk, u, p)
       })"

section \<open>Resynchronising a cache\<close>

definition resync_cb ::
  "'d nl_object_ops \<Rightarrow> 'd nl_heap nl_cache_ops \<Rightarrow> addr \<Rightarrow> ('d, unit) change_func option \<Rightarrow> 'd nl_heap pp_cb" where
  "resync_cb oops ops cache change_cb obj h = nl_cache_include oops (co_msgtypes ops) cache obj change_cb h"

definition nl_cache_resync ::
  "'d nl_object_ops \<Rightarrow> 'd nl_heap nl_cache_ops \<Rightarrow> (('d, 'u) libstate_scheme, 'k) request_update option \<Rightarrow> 'k sys
     \<Rightarrow> ('d, 'u) libstate_scheme nl_sock \<Rightarrow> addr \<Rightarrow> ('d, unit) change_func option \<Rightarrow> ('d, 'u) libstate_scheme \<Rightarrow> 'k proc
     \<Rightarrow> (i32 \<times> ('d, 'u) libstate_scheme nl_sock \<times> ('d, 'u) libstate_scheme \<times> 'k proc) option" where
  "nl_cache_resync oops ops req sys sk cache change_cb u p = do {
     h \<leftarrow> nl_cache_mark_all cache (lib u);
     (err, sk, u, p) \<leftarrow> nl_cache_request_full_dump req sk (u\<lparr>lib := h\<rparr>) p;
     if is_neg err then Some (err, sk, u, p)
     else do {
       (err, sk, u, p) \<leftarrow> cache_pickup ops sys sk (resync_cb oops ops cache change_cb) u p;
       if is_neg err then Some (err, sk, u, p)
       else do {
         h \<leftarrow> resync_sweep oops cache change_cb (lib u);
         Some (0, sk, u\<lparr>lib := h\<rparr>, p)
       }
     }
   }"

end
