(* ===== verification/NL_Ctrl.thy ===== *)
theory NL_Ctrl
  imports NL_Update
begin

text \<open>
  Generic netlink families: the family objects (\<^verbatim>\<open>lib/genl/family.c\<close>), the parser of the
  controller's messages and the resolver (\<^verbatim>\<open>lib/genl/ctrl.c\<close>), the dispatch of messages to parsers
  (\<^verbatim>\<open>lib/genl/mngt.c\<close>) over the caches of \<open>NL_Update\<close>.
\<close>

section \<open>Families\<close>

definition FAMILY_ATTR_ID :: u32 where "FAMILY_ATTR_ID = 0x01"
definition FAMILY_ATTR_NAME :: u32 where "FAMILY_ATTR_NAME = 0x02"
definition FAMILY_ATTR_VERSION :: u32 where "FAMILY_ATTR_VERSION = 0x04"
definition FAMILY_ATTR_HDRSIZE :: u32 where "FAMILY_ATTR_HDRSIZE = 0x08"
definition FAMILY_ATTR_MAXATTR :: u32 where "FAMILY_ATTR_MAXATTR = 0x10"
definition FAMILY_ATTR_OPS :: u32 where "FAMILY_ATTR_OPS = 0x20"

lemmas family_attr_defs = FAMILY_ATTR_ID_def FAMILY_ATTR_NAME_def FAMILY_ATTR_VERSION_def
  FAMILY_ATTR_HDRSIZE_def FAMILY_ATTR_MAXATTR_def FAMILY_ATTR_OPS_def

definition GENL_NAMSIZ :: nat where "GENL_NAMSIZ = 16"

text \<open>
  Names are given without the NUL bytes that follow them in their array of 16 bytes.
  \<open>gf_borrowed\<close> marks a copy whose list heads still are those of the original.
\<close>

record genl_family =
  gf_id :: u16
  gf_name :: bytes
  gf_version :: u32
  gf_hdrsize :: u32
  gf_maxattr :: u32
  gf_ops :: "(u32 \<times> u32) list"
  gf_mc_grps :: "(u32 \<times> bytes) list"
  gf_borrowed :: bool

definition family_constructor :: genl_family where
  "family_constructor = \<lparr>gf_id = 0, gf_name = [], gf_version = 0, gf_hdrsize = 0, gf_maxattr = 0,
     gf_ops = [], gf_mc_grps = [], gf_borrowed = False\<rparr>"

text \<open>
  \<open>nl_object_clone\<close> has copied the list heads before \<open>family_clone\<close> runs.  With an element in one
  of the lists, adding to the list of the copy appends to the list the loop runs over, which
  never ends; with empty lists the copy is made, but its lists run into the original, and
  \<open>family_free_data\<close> would free an address inside of that.
\<close>

definition family_clone :: "genl_family \<Rightarrow> (addr \<Rightarrow> bool) \<Rightarrow> addr \<Rightarrow> (i32 \<times> genl_family \<times> addr) option" where
  "family_clone src grants nxt =
     (if gf_ops src = [] \<and> gf_mc_grps src = [] then Some (0, src\<lparr>gf_borrowed := True\<rparr>, nxt) else None)"

definition family_free_data :: "genl_family \<Rightarrow> bool" where
  "family_free_data family \<longleftrightarrow> \<not> gf_borrowed family"

definition family_compare ::
  "genl_family nl_object \<Rightarrow> genl_family nl_object \<Rightarrow> u32 \<Rightarrow> i32 \<Rightarrow> u32" where
  "family_compare oa ob attrs flags =
    (let a = ce_data oa; b = ce_data ob;
         diff = (\<lambda>attr differ. ATTR_DIFF attrs attr (ce_mask oa) (ce_mask ob) differ) in
     diff FAMILY_ATTR_ID (gf_id a \<noteq> gf_id b)
     OR diff FAMILY_ATTR_VERSION (gf_version a \<noteq> gf_version b)
     OR diff FAMILY_ATTR_HDRSIZE (gf_hdrsize a \<noteq> gf_hdrsize b)
     OR diff FAMILY_ATTR_MAXATTR (gf_maxattr a \<noteq> gf_maxattr b)
     OR diff FAMILY_ATTR_NAME (gf_name a \<noteq> gf_name b))"

definition genl_family_ops :: "genl_family nl_object_ops" where
  "genl_family_ops = \<lparr>oo_init = family_constructor, oo_clone = family_clone, oo_free_data = family_free_data,
     oo_compare = Some (\<lambda>a b attrs flags. Some (family_compare a b attrs flags)), oo_id_attrs = FAMILY_ATTR_ID\<rparr>"

type_synonym fheap = "genl_family nl_heap"

definition genl_family_alloc :: "fheap \<Rightarrow> addr option \<times> fheap" where
  "genl_family_alloc h = nl_object_alloc genl_family_ops h"

definition genl_family_put :: "addr option \<Rightarrow> fheap \<Rightarrow> fheap option" where
  "genl_family_put family h = nl_object_put genl_family_ops family h"

text \<open>Changing the data of a family and marking an attribute as present.\<close>

definition family_set :: "u32 \<Rightarrow> (genl_family \<Rightarrow> genl_family) \<Rightarrow> addr \<Rightarrow> fheap \<Rightarrow> fheap option" where
  "family_set attr f a h = do {
     ob \<leftarrow> h_objs h a;
     Some (set_obj a (ob\<lparr>ce_mask := ce_mask ob OR attr, ce_data := f (ce_data ob)\<rparr>) h)
   }"

definition GENL_ID_GENERATE :: u32 where "GENL_ID_GENERATE = 0"

definition genl_family_get_id :: "addr \<Rightarrow> fheap \<Rightarrow> u32 option" where
  "genl_family_get_id a h = do {
     ob \<leftarrow> h_objs h a;
     Some (if ce_mask ob AND FAMILY_ATTR_ID \<noteq> 0 then ucast (gf_id (ce_data ob)) else GENL_ID_GENERATE)
   }"

definition genl_family_set_id :: "addr \<Rightarrow> u32 \<Rightarrow> fheap \<Rightarrow> fheap option" where
  "genl_family_set_id a v h = family_set FAMILY_ATTR_ID (\<lambda>f. f\<lparr>gf_id := ucast v\<rparr>) a h"

definition genl_family_get_name :: "addr \<Rightarrow> fheap \<Rightarrow> bytes option option" where
  "genl_family_get_name a h = do {
     ob \<leftarrow> h_objs h a;
     Some (if ce_mask ob AND FAMILY_ATTR_NAME \<noteq> 0 then Some (gf_name (ce_data ob)) else None)
   }"

definition genl_family_set_name :: "addr \<Rightarrow> bytes \<Rightarrow> fheap \<Rightarrow> fheap option" where
  "genl_family_set_name a str h = family_set FAMILY_ATTR_NAME (\<lambda>f. f\<lparr>gf_name := take (GENL_NAMSIZ - 1) str\<rparr>) a h"

definition genl_family_get_version :: "addr \<Rightarrow> fheap \<Rightarrow> u8 option" where
  "genl_family_get_version a h = do {
     ob \<leftarrow> h_objs h a;
     Some (if ce_mask ob AND FAMILY_ATTR_VERSION \<noteq> 0 then ucast (gf_version (ce_data ob)) else 0)
   }"

definition genl_family_set_version :: "addr \<Rightarrow> u8 \<Rightarrow> fheap \<Rightarrow> fheap option" where
  "genl_family_set_version a v h = family_set FAMILY_ATTR_VERSION (\<lambda>f. f\<lparr>gf_version := ucast v\<rparr>) a h"

definition genl_family_get_hdrsize :: "addr \<Rightarrow> fheap \<Rightarrow> u32 option" where
  "genl_family_get_hdrsize a h = do {
     ob \<leftarrow> h_objs h a;
     Some (if ce_mask ob AND FAMILY_ATTR_HDRSIZE \<noteq> 0 then gf_hdrsize (ce_data ob) else 0)
   }"

definition genl_family_set_hdrsize :: "addr \<Rightarrow> u32 \<Rightarrow> fheap \<Rightarrow> fheap option" where
  "genl_family_set_hdrsize a v h = family_set FAMILY_ATTR_HDRSIZE (\<lambda>f. f\<lparr>gf_hdrsize := v\<rparr>) a h"

text \<open>Both branches of \<open>genl_family_get_maxattr\<close> return the field.\<close>

definition genl_family_get_maxattr :: "addr \<Rightarrow> fheap \<Rightarrow> u32 option" where
  "genl_family_get_maxattr a h = do {
     ob \<leftarrow> h_objs h a;
     Some (if ce_mask ob AND FAMILY_ATTR_MAXATTR \<noteq> 0 then gf_maxattr (ce_data ob) else gf_maxattr (ce_data ob))
   }"

definition genl_family_set_maxattr :: "addr \<Rightarrow> u32 \<Rightarrow> fheap \<Rightarrow> fheap option" where
  "genl_family_set_maxattr a v h = family_set FAMILY_ATTR_MAXATTR (\<lambda>f. f\<lparr>gf_maxattr := v\<rparr>) a h"

definition genl_family_add_op :: "addr \<Rightarrow> u32 \<Rightarrow> u32 \<Rightarrow> fheap \<Rightarrow> (i32 \<times> fheap) option" where
  "genl_family_add_op a ident flags h =
    (case h_alloc h of
       (None, h) \<Rightarrow> Some (- NLE_NOMEM, h)
     | (Some _, h) \<Rightarrow> do {
         h \<leftarrow> family_set FAMILY_ATTR_OPS (\<lambda>f. f\<lparr>gf_ops := gf_ops f @ [(ident, flags)]\<rparr>) a h;
         Some (0, h)
       })"

definition genl_family_add_grp :: "addr \<Rightarrow> u32 \<Rightarrow> bytes \<Rightarrow> fheap \<Rightarrow> (i32 \<times> fheap) option" where
  "genl_family_add_grp a ident str h =
    (case h_alloc h of
       (None, h) \<Rightarrow> Some (- NLE_NOMEM, h)
     | (Some _, h) \<Rightarrow> do {
         h \<leftarrow> family_set 0 (\<lambda>f. f\<lparr>gf_mc_grps := gf_mc_grps f @ [(ident, take (GENL_NAMSIZ - 1) str)]\<rparr>) a h;
         Some (0, h)
       })"

section \<open>Messages of the controller\<close>

definition GENL_ID_CTRL :: i32 where "GENL_ID_CTRL = 16"
definition CTRL_VERSION :: i32 where "CTRL_VERSION = 1"
definition NLM_F_DUMP :: i32 where "NLM_F_DUMP = 0x300"

definition CTRL_CMD_NEWFAMILY :: i32 where "CTRL_CMD_NEWFAMILY = 1"
definition CTRL_CMD_DELFAMILY :: i32 where "CTRL_CMD_DELFAMILY = 2"
definition CTRL_CMD_GETFAMILY :: i32 where "CTRL_CMD_GETFAMILY = 3"
definition CTRL_CMD_NEWOPS :: i32 where "CTRL_CMD_NEWOPS = 4"
definition CTRL_CMD_DELOPS :: i32 where "CTRL_CMD_DELOPS = 5"

definition CTRL_ATTR_FAMILY_ID :: nat where "CTRL_ATTR_FAMILY_ID = 1"
definition CTRL_ATTR_FAMILY_NAME :: nat where "CTRL_ATTR_FAMILY_NAME = 2"
definition CTRL_ATTR_VERSION :: nat where "CTRL_ATTR_VERSION = 3"
definition CTRL_ATTR_HDRSIZE :: nat where "CTRL_ATTR_HDRSIZE = 4"
definition CTRL_ATTR_MAXATTR :: nat where "CTRL_ATTR_MAXATTR = 5"
definition CTRL_ATTR_OPS :: nat where "CTRL_ATTR_OPS = 6"
definition CTRL_ATTR_MCAST_GROUPS :: nat where "CTRL_ATTR_MCAST_GROUPS = 7"
definition CTRL_ATTR_MAX :: nat where "CTRL_ATTR_MAX = 7"

definition CTRL_ATTR_OP_ID :: nat where "CTRL_ATTR_OP_ID = 1"
definition CTRL_ATTR_OP_FLAGS :: nat where "CTRL_ATTR_OP_FLAGS = 2"
definition CTRL_ATTR_OP_MAX :: nat where "CTRL_ATTR_OP_MAX = 2"

definition CTRL_ATTR_MCAST_GRP_NAME :: nat where "CTRL_ATTR_MCAST_GRP_NAME = 1"
definition CTRL_ATTR_MCAST_GRP_ID :: nat where "CTRL_ATTR_MCAST_GRP_ID = 2"
definition CTRL_ATTR_MCAST_GRP_MAX :: nat where "CTRL_ATTR_MCAST_GRP_MAX = 2"

lemmas ctrl_attr_defs = CTRL_ATTR_FAMILY_ID_def CTRL_ATTR_FAMILY_NAME_def CTRL_ATTR_VERSION_def
  CTRL_ATTR_HDRSIZE_def CTRL_ATTR_MAXATTR_def CTRL_ATTR_OPS_def CTRL_ATTR_MCAST_GROUPS_def CTRL_ATTR_MAX_def
  CTRL_ATTR_OP_ID_def CTRL_ATTR_OP_FLAGS_def CTRL_ATTR_OP_MAX_def
  CTRL_ATTR_MCAST_GRP_NAME_def CTRL_ATTR_MCAST_GRP_ID_def CTRL_ATTR_MCAST_GRP_MAX_def

definition ctrl_policy :: "nat \<Rightarrow> nla_policy" where
  "ctrl_policy t =
    (if t = CTRL_ATTR_FAMILY_ID then of_type NLA_U16
     else if t = CTRL_ATTR_FAMILY_NAME then (of_type NLA_STRING)\<lparr>pol_maxlen := word_of_nat GENL_NAMSIZ\<rparr>
     else if t = CTRL_ATTR_VERSION then of_type NLA_U32
     else if t = CTRL_ATTR_HDRSIZE then of_type NLA_U32
     else if t = CTRL_ATTR_MAXATTR then of_type NLA_U32
     else if t = CTRL_ATTR_OPS then of_type NLA_NESTED
     else if t = CTRL_ATTR_MCAST_GROUPS then of_type NLA_NESTED
     else no_policy)"

definition family_op_policy :: "nat \<Rightarrow> nla_policy" where
  "family_op_policy t =
    (if t = CTRL_ATTR_OP_ID then of_type NLA_U32
     else if t = CTRL_ATTR_OP_FLAGS then of_type NLA_U32
     else no_policy)"

definition family_grp_policy :: "nat \<Rightarrow> nla_policy" where
  "family_grp_policy t =
    (if t = CTRL_ATTR_MCAST_GRP_NAME then of_type NLA_STRING
     else if t = CTRL_ATTR_MCAST_GRP_ID then of_type NLA_U32
     else no_policy)"

text \<open>
  The bodies of the loops over the operations and the groups of a family; an error leaves the
  parser with the heap as it is.
\<close>

definition parse_op :: "bytes \<Rightarrow> addr \<Rightarrow> nat \<Rightarrow> fheap \<Rightarrow> (i32 \<times> fheap + fheap) option" where
  "parse_op b family nla h = do {
     (err, tb) \<leftarrow> nla_parse_nested b (word_of_nat CTRL_ATTR_OP_MAX) nla (Some family_op_policy);
     if is_neg err then Some (Inl (err, h))
     else
       (case tb CTRL_ATTR_OP_ID of
          None \<Rightarrow> Some (Inl (- NLE_MISSING_ATTR, h))
        | Some na_id \<Rightarrow> do {
            ident \<leftarrow> nla_get_u32 b na_id;
            flags \<leftarrow> (case tb CTRL_ATTR_OP_FLAGS of None \<Rightarrow> Some 0 | Some na \<Rightarrow> nla_get_u32 b na);
            (err, h) \<leftarrow> genl_family_add_op family ident flags h;
            Some (if is_neg err then Inl (err, h) else Inr h)
          })
   }"

definition parse_grp :: "bytes \<Rightarrow> addr \<Rightarrow> nat \<Rightarrow> fheap \<Rightarrow> (i32 \<times> fheap + fheap) option" where
  "parse_grp b family nla h = do {
     (err, tb) \<leftarrow> nla_parse_nested b (word_of_nat CTRL_ATTR_MCAST_GRP_MAX) nla (Some family_grp_policy);
     if is_neg err then Some (Inl (err, h))
     else
       (case tb CTRL_ATTR_MCAST_GRP_ID of
          None \<Rightarrow> Some (Inl (- NLE_MISSING_ATTR, h))
        | Some na_id \<Rightarrow> do {
            ident \<leftarrow> nla_get_u32 b na_id;
            (case tb CTRL_ATTR_MCAST_GRP_NAME of
               None \<Rightarrow> Some (Inl (- NLE_MISSING_ATTR, h))
             | Some na_name \<Rightarrow> do {
                 str \<leftarrow> c_str_at b (nla_get_string na_name);
                 (err, h) \<leftarrow> genl_family_add_grp family ident str h;
                 Some (if is_neg err then Inl (err, h) else Inr h)
               })
          })
   }"

text \<open>\<^verbatim>\<open>nla_for_each_nested\<close>: the loop over the attributes inside of an attribute, if it is there.\<close>

definition each_nested ::
  "bytes \<Rightarrow> (nat \<Rightarrow> fheap \<Rightarrow> (i32 \<times> fheap + fheap) option) \<Rightarrow> nat option \<Rightarrow> fheap \<Rightarrow> (i32 \<times> fheap + fheap) option" where
  "each_nested b body nla h =
    (case nla of
       None \<Rightarrow> Some (Inr h)
     | Some nla \<Rightarrow> do {
         len \<leftarrow> nla_len b nla;
         r \<leftarrow> nla_for_each_attr b body (nla_data nla) len h;
         Some (case r of Inl e \<Rightarrow> Inl e | Inr (h, _) \<Rightarrow> Inr h)
       })"

text \<open>An optional attribute with a 32-bit value.\<close>

definition set_u32 :: "bytes \<Rightarrow> nat option \<Rightarrow> (u32 \<Rightarrow> fheap \<Rightarrow> fheap option) \<Rightarrow> fheap \<Rightarrow> fheap option" where
  "set_u32 b nla setter h = (case nla of None \<Rightarrow> Some h | Some na \<Rightarrow> do { v \<leftarrow> nla_get_u32 b na; setter v h })"

text \<open>
  \<open>fill_family\<close> is the body of \<open>ctrl_msg_parser\<close> between the allocation and the label
  \<^verbatim>\<open>errout\<close>; \<open>pp_cb\<close> is the callback of the caller.
\<close>

definition fill_family ::
  "bytes \<Rightarrow> nat \<Rightarrow> attr_table \<Rightarrow> (addr \<Rightarrow> fheap \<Rightarrow> (i32 \<times> fheap) option) \<Rightarrow> addr \<Rightarrow> fheap \<Rightarrow> (i32 \<times> fheap) option" where
  "fill_family b nlh attrs pp_cb family h =
    (case attrs CTRL_ATTR_FAMILY_NAME of
       None \<Rightarrow> Some (- NLE_MISSING_ATTR, h)
     | Some na_name \<Rightarrow>
        (case attrs CTRL_ATTR_FAMILY_ID of
           None \<Rightarrow> Some (- NLE_MISSING_ATTR, h)
         | Some na_id \<Rightarrow> do {
             msgtype \<leftarrow> ld16 b (nlh + NLH_TYPE);
             ob \<leftarrow> h_objs h family;
             let h = set_obj family (ob\<lparr>ce_msgtype := ucast msgtype\<rparr>) h;
             ident \<leftarrow> nla_get_u16 b na_id;
             h \<leftarrow> genl_family_set_id family (ucast ident) h;
             str \<leftarrow> c_str_at b (nla_get_string na_name);
             h \<leftarrow> genl_family_set_name family str h;
             h \<leftarrow> set_u32 b (attrs CTRL_ATTR_VERSION) (\<lambda>v. genl_family_set_version family (ucast v)) h;
             h \<leftarrow> set_u32 b (attrs CTRL_ATTR_HDRSIZE) (genl_family_set_hdrsize family) h;
             h \<leftarrow> set_u32 b (attrs CTRL_ATTR_MAXATTR) (genl_family_set_maxattr family) h;
             r \<leftarrow> each_nested b (parse_op b family) (attrs CTRL_ATTR_OPS) h;
             (case r of
                Inl e \<Rightarrow> Some e
              | Inr h \<Rightarrow> do {
                  r \<leftarrow> each_nested b (parse_grp b family) (attrs CTRL_ATTR_MCAST_GROUPS) h;
                  (case r of Inl e \<Rightarrow> Some e | Inr h \<Rightarrow> pp_cb family h)
                })
           }))"

definition ctrl_msg_parser ::
  "bytes \<Rightarrow> nat \<Rightarrow> attr_table \<Rightarrow> (addr \<Rightarrow> fheap \<Rightarrow> (i32 \<times> fheap) option) \<Rightarrow> fheap \<Rightarrow> (i32 \<times> fheap) option" where
  "ctrl_msg_parser b nlh attrs pp_cb h =
    (case genl_family_alloc h of
       (None, h) \<Rightarrow> do { h \<leftarrow> genl_family_put None h; Some (- NLE_NOMEM, h) }
     | (Some family, h) \<Rightarrow> do {
         (err, h) \<leftarrow> fill_family b nlh attrs pp_cb family h;
         h \<leftarrow> genl_family_put (Some family) h;
         Some (err, h)
       })"

text \<open>
  The commands of the controller; only the first one has a parser.  \<open>genl_ctrl_ops\<close> are the cache
  operations as \<open>ctrl_init\<close> leaves them, with the parser that \<open>genl_register\<close> has set; \<open>1\<close> and \<open>2\<close> are the
  addresses of \<^verbatim>\<open>genl_family_ops\<close> and \<^verbatim>\<open>genl_ops\<close>.
\<close>

definition plain_cmd :: "i32 \<Rightarrow> string \<Rightarrow> fheap genl_cmd" where
  "plain_cmd ident str = \<lparr>c_id = ident, c_name = map of_char str, c_maxattr = 0, c_msg_parser = None, c_attr_policy = None\<rparr>"

definition genl_cmds :: "fheap genl_cmd list" where
  "genl_cmds =
    [(plain_cmd CTRL_CMD_NEWFAMILY ''NEWFAMILY'')
       \<lparr>c_maxattr := word_of_nat CTRL_ATTR_MAX, c_attr_policy := Some ctrl_policy, c_msg_parser := Some ctrl_msg_parser\<rparr>,
     plain_cmd CTRL_CMD_DELFAMILY ''DELFAMILY'', plain_cmd CTRL_CMD_GETFAMILY ''GETFAMILY'',
     plain_cmd CTRL_CMD_NEWOPS ''NEWOPS'', plain_cmd CTRL_CMD_DELOPS ''DELOPS'']"

definition GENL_FAMILY :: "i32 \<Rightarrow> string \<Rightarrow> nl_msgtype list" where
  "GENL_FAMILY ident str =
    [\<lparr>mt_id = ident, mt_act = NL_ACT_UNSPEC, mt_name = Some (map of_char str)\<rparr>, END_OF_MSGTYPES_LIST]"

definition genl_ctrl_ops :: "fheap nl_cache_ops" where
  "genl_ctrl_ops = \<lparr>co_name = Some (map of_char ''genl/family''), co_hdrsize = GENL_HDRSIZE 0,
     co_protocol = NETLINK_GENERIC, co_groups = None, co_msg_parser = Some (genl_msg_parser (GENL_HDRSIZE 0) genl_cmds),
     co_obj_ops = Some 1, co_next = None, co_major_cache = None, co_genl = Some 2,
     co_msgtypes = GENL_FAMILY GENL_ID_CTRL ''nlctrl''\<rparr>"

text \<open>The dispatch of the controller's messages, with its one message type and its one parser.\<close>

lemma genl_ctrl_dispatch:
  "nl_cache_parse genl_ctrl_ops b nlh params h = do {
     valid \<leftarrow> nlmsg_valid_hdr b nlh (GENL_HDRSIZE 0);
     if \<not> valid then Some (- NLE_MSG_TOOSHORT, h)
     else do {
       type \<leftarrow> ld16 b (nlh + NLH_TYPE);
       if ucast type = GENL_ID_CTRL then do {
         (err, h) \<leftarrow> genl_msg_parser (GENL_HDRSIZE 0) genl_cmds b nlh params h;
         Some (if err \<noteq> - NLE_OPNOTSUPP then err else - NLE_MSGTYPE_NOSUPPORT, h)
       }
       else Some (- NLE_MSGTYPE_NOSUPPORT, h)
     }
   }"
  by (cases "nlmsg_valid_hdr b nlh (GENL_HDRSIZE 0)"; cases "ld16 b (nlh + NLH_TYPE)";
      cases "genl_msg_parser (GENL_HDRSIZE 0) genl_cmds b nlh params h")
     (auto simp: nl_cache_parse_def genl_ctrl_ops_def GENL_FAMILY_def END_OF_MSGTYPES_LIST_def GENL_ID_CTRL_def)

section \<open>Requesting families\<close>

definition ctrl_request_update ::
  "'k sys \<Rightarrow> u64 \<Rightarrow> 'u nl_sock \<Rightarrow> 'u \<Rightarrow> 'k proc \<Rightarrow> (i32 \<times> 'u nl_sock \<times> 'u \<times> 'k proc) option" where
  "ctrl_request_update sys default_msg_size sk u p =
     genl_send_simple sys default_msg_size sk GENL_ID_CTRL CTRL_CMD_GETFAMILY CTRL_VERSION NLM_F_DUMP u p"

section \<open>Resolving names\<close>

definition genl_ctrl_alloc_cache ::
  "'k sys \<Rightarrow> u64 \<Rightarrow> (genl_family, 'u) libstate_scheme nl_sock \<Rightarrow> (genl_family, 'u) libstate_scheme \<Rightarrow> 'k proc
     \<Rightarrow> (i32 \<times> addr option \<times> (genl_family, 'u) libstate_scheme nl_sock \<times> (genl_family, 'u) libstate_scheme \<times> 'k proc) option" where
  "genl_ctrl_alloc_cache sys default_msg_size sk u p =
     nl_cache_alloc_and_fill genl_family_ops genl_ctrl_ops (Some (ctrl_request_update sys default_msg_size)) sys sk u p"

text \<open>The loops over the families of a cache: the first one with the property, with a new reference.\<close>

primrec find_family :: "(genl_family \<Rightarrow> bool) \<Rightarrow> fheap \<Rightarrow> addr list \<Rightarrow> (addr option \<times> fheap) option" where
  "find_family q h [] = Some (None, h)"
| "find_family q h (a # as) = do {
     ob \<leftarrow> h_objs h a;
     if q (ce_data ob) then do { h \<leftarrow> nl_object_get a h; Some (Some a, h) } else find_family q h as
   }"

definition genl_ctrl_search :: "addr \<Rightarrow> u32 \<Rightarrow> fheap \<Rightarrow> (addr option \<times> fheap) option" where
  "genl_ctrl_search cache ident h = do {
     ca \<leftarrow> h_caches h cache;
     find_family (\<lambda>f. ucast (gf_id f) = ident) h (c_items ca)
   }"

definition genl_ctrl_search_by_name :: "addr \<Rightarrow> bytes \<Rightarrow> fheap \<Rightarrow> (addr option \<times> fheap) option" where
  "genl_ctrl_search_by_name cache str h = do {
     ca \<leftarrow> h_caches h cache;
     find_family (\<lambda>f. str = gf_name f) h (c_items ca)
   }"

text \<open>
  What \<open>genl_ctrl_resolve\<close> and \<open>genl_ctrl_resolve_grp\<close> have in common: with the family of the
  given name, \<open>answer\<close> is computed and the reference given back.
\<close>

definition with_family ::
  "'k sys \<Rightarrow> u64 \<Rightarrow> (genl_family, 'u) libstate_scheme nl_sock \<Rightarrow> bytes \<Rightarrow> (addr \<Rightarrow> fheap \<Rightarrow> i32 option) \<Rightarrow> (genl_family, 'u) libstate_scheme \<Rightarrow> 'k proc
     \<Rightarrow> (i32 \<times> (genl_family, 'u) libstate_scheme nl_sock \<times> (genl_family, 'u) libstate_scheme \<times> 'k proc) option" where
  "with_family sys default_msg_size sk str answer u p = do {
     (err, cache, sk, u, p) \<leftarrow> genl_ctrl_alloc_cache sys default_msg_size sk u p;
     if is_neg err then Some (err, sk, u, p)
     else do {
       c \<leftarrow> cache;
       (family, h) \<leftarrow> genl_ctrl_search_by_name c str (lib u);
       (err, h) \<leftarrow> (case family of
           None \<Rightarrow> Some (- NLE_OBJ_NOTFOUND, h)
         | Some a \<Rightarrow> do {
             err \<leftarrow> answer a h;
             h \<leftarrow> genl_family_put (Some a) h;
             Some (err, h)
           });
       h \<leftarrow> nl_cache_free genl_family_ops (Some c) h;
       Some (err, sk, u\<lparr>lib := h\<rparr>, p)
     }
   }"

definition genl_ctrl_resolve ::
  "'k sys \<Rightarrow> u64 \<Rightarrow> (genl_family, 'u) libstate_scheme nl_sock \<Rightarrow> bytes \<Rightarrow> (genl_family, 'u) libstate_scheme \<Rightarrow> 'k proc
     \<Rightarrow> (i32 \<times> (genl_family, 'u) libstate_scheme nl_sock \<times> (genl_family, 'u) libstate_scheme \<times> 'k proc) option" where
  "genl_ctrl_resolve sys default_msg_size sk str u p =
     with_family sys default_msg_size sk str genl_family_get_id u p"

definition genl_ctrl_grp_by_name :: "bytes \<Rightarrow> addr \<Rightarrow> fheap \<Rightarrow> i32 option" where
  "genl_ctrl_grp_by_name grp_name family h = do {
     ob \<leftarrow> h_objs h family;
     Some (case find (\<lambda>grp. snd grp = grp_name) (gf_mc_grps (ce_data ob)) of None \<Rightarrow> 0 | Some grp \<Rightarrow> fst grp)
   }"

definition genl_ctrl_resolve_grp ::
  "'k sys \<Rightarrow> u64 \<Rightarrow> (genl_family, 'u) libstate_scheme nl_sock \<Rightarrow> bytes \<Rightarrow> bytes \<Rightarrow> (genl_family, 'u) libstate_scheme \<Rightarrow> 'k proc
     \<Rightarrow> (i32 \<times> (genl_family, 'u) libstate_scheme nl_sock \<times> (genl_family, 'u) libstate_scheme \<times> 'k proc) option" where
  "genl_ctrl_resolve_grp sys default_msg_size sk family_name grp_name u p =
     with_family sys default_msg_size sk family_name (genl_ctrl_grp_by_name grp_name) u p"

section \<open>Families in caches\<close>

text \<open>
  The identity of a family is its number, once that is known.
\<close>

definition family_good :: "u32 \<Rightarrow> genl_family \<Rightarrow> bool" where
  "family_good msk f \<longleftrightarrow> msk AND FAMILY_ATTR_ID \<noteq> 0"

text \<open>
  A description is changed if it says something else about the number, the version, the size of the header, the largest attribute or
  the name.  The operations and the multicast groups do not count.
\<close>

definition family_header :: "u32 \<times> genl_family \<Rightarrow> u16 option \<times> u32 option \<times> u32 option \<times> u32 option \<times> bytes option" where
  "family_header x = (case x of (msk, f) \<Rightarrow>
     (known msk FAMILY_ATTR_ID (gf_id f), known msk FAMILY_ATTR_VERSION (gf_version f), known msk FAMILY_ATTR_HDRSIZE (gf_hdrsize f),
      known msk FAMILY_ATTR_MAXATTR (gf_maxattr f), known msk FAMILY_ATTR_NAME (gf_name f)))"

definition family_differ :: "u32 \<times> genl_family \<Rightarrow> u32 \<times> genl_family \<Rightarrow> bool" where
  "family_differ x y \<longleftrightarrow> family_header x \<noteq> family_header y"

lemma family_attr_diff:
  "ATTR_DIFF (- 1) FAMILY_ATTR_ID ma mb (x \<noteq> y) = 0 \<longleftrightarrow> known ma FAMILY_ATTR_ID x = known mb FAMILY_ATTR_ID y"
  "ATTR_DIFF (- 1) FAMILY_ATTR_NAME ma mb (x \<noteq> y) = 0 \<longleftrightarrow> known ma FAMILY_ATTR_NAME x = known mb FAMILY_ATTR_NAME y"
  "ATTR_DIFF (- 1) FAMILY_ATTR_VERSION ma mb (x \<noteq> y) = 0 \<longleftrightarrow> known ma FAMILY_ATTR_VERSION x = known mb FAMILY_ATTR_VERSION y"
  "ATTR_DIFF (- 1) FAMILY_ATTR_HDRSIZE ma mb (x \<noteq> y) = 0 \<longleftrightarrow> known ma FAMILY_ATTR_HDRSIZE x = known mb FAMILY_ATTR_HDRSIZE y"
  "ATTR_DIFF (- 1) FAMILY_ATTR_MAXATTR ma mb (x \<noteq> y) = 0 \<longleftrightarrow> known ma FAMILY_ATTR_MAXATTR x = known mb FAMILY_ATTR_MAXATTR y"
  by (rule ATTR_DIFF_zero [where k = 0] ATTR_DIFF_zero [where k = 1] ATTR_DIFF_zero [where k = 2] ATTR_DIFF_zero [where k = 3]
      ATTR_DIFF_zero [where k = 4]; simp add: family_attr_defs)+

lemma family_compare_zero:
  "family_compare oa ob (- 1) flags = 0 \<longleftrightarrow> \<not> family_differ (ce_mask oa, ce_data oa) (ce_mask ob, ce_data ob)"
  unfolding family_compare_def Let_def or_eq_0_iff family_attr_diff by (auto simp: family_differ_def family_header_def)

text \<open>A change of the operations or of the groups alone goes unnoticed.\<close>

lemma ops_not_compared: "\<not> family_differ (msk, f) (msk, f\<lparr>gf_ops := ops, gf_mc_grps := grps\<rparr>)"
  by (simp add: family_differ_def family_header_def)

lemma mask_id: "m AND FAMILY_ATTR_ID \<noteq> 0 \<longleftrightarrow> m AND FAMILY_ATTR_ID = FAMILY_ATTR_ID" for m :: u32
  by (simp add: FAMILY_ATTR_ID_def and_one_eq mod2_eq_if)

lemma family_identical:
  assumes "h_objs h a = Some oa" and "h_objs h b = Some ob"
    and "family_good (ce_mask oa) (ce_data oa)" and "family_good (ce_mask ob) (ce_data ob)"
  shows "nl_object_identical genl_family_ops a b h = Some (gf_id (ce_data oa) = gf_id (ce_data ob))"
proof -
  have m: "ce_mask oa AND FAMILY_ATTR_ID = FAMILY_ATTR_ID" "ce_mask ob AND FAMILY_ATTR_ID = FAMILY_ATTR_ID"
    using assms(3,4) mask_id by (simp_all add: family_good_def)
  have x: "(ce_mask oa XOR ce_mask ob) AND FAMILY_ATTR_ID = 0" "(ce_mask oa AND ce_mask ob) AND FAMILY_ATTR_ID = FAMILY_ATTR_ID"
    by (simp_all only: bit.conj_xor_distrib2 and.assoc m xor_self_eq)
  show ?thesis
    using assms(1,2) m x
    by (simp add: nl_object_identical_def genl_family_ops_def family_compare_def ATTR_DIFF_def)
       (simp add: family_attr_defs)
qed

interpretation fam: object_keys genl_family_ops family_good gf_id family_differ
proof unfold_locales
  fix h :: "(genl_family, 'x) nl_heap_scheme" and a b oa ob
  assume "h_objs h a = Some oa" and "h_objs h b = Some ob"
  then show "\<exists>d. nl_object_diff genl_family_ops a b h = Some d
    \<and> (d \<noteq> 0) = family_differ (ce_mask oa, ce_data oa) (ce_mask ob, ce_data ob)"
    by (simp add: nl_object_diff_def genl_family_ops_def family_compare_zero)
qed (rule family_identical)

text \<open>
  Claim C9.  Including a family in a cache is the update of a map from family numbers to
  descriptions: a new description replaces the old one of the same number or is added, a
  deletion removes it, any other action does nothing.  The callback is called once for an added or deleted
  family, with the object still alive, and for a replaced one exactly if it says something else about number, version, header size,
  largest attribute or name; operations and groups that have changed replace the old ones without a call.  All reference counts stay
  exact.
\<close>

theorem family_include_refines_map:
  fixes h :: "(genl_family, 'x) nl_heap_scheme"
  assumes "refs_ok genl_family_ops h rc" and "\<forall>x. rc x + 2 < 2 ^ 30" and "keyed family_good gf_id c h"
    and "h_objs h a = Some ob" and "\<not> ce_linked ob" and "family_good (ce_mask ob) (ce_data ob)"
    and "include_spec act (gf_id (ce_data ob)) (ce_mask ob, ce_data ob) family_differ (view gf_id c h) = (m, report)"
  shows "\<exists>h'. cache_include genl_family_ops c a act (Some (recorder g)) h = Some (0, h') \<and> refs_ok genl_family_ops h' rc
    \<and> keyed family_good gf_id c h' \<and> view gf_id c h' = m
    \<and> nl_heap.more h' = (case report of None \<Rightarrow> nl_heap.more h | Some r \<Rightarrow> g (nl_heap.more h) r)"
  using assms by (rule fam.include_step)

end
