(* ===== verification/NL_Family.thy ===== *)
theory NL_Family
  imports NL_Ctrl
begin

text \<open>
  Families as the kernel's controller describes them (\<^verbatim>\<open>CTRL_CMD_NEWFAMILY\<close> messages), and that the
  parser of \<^verbatim>\<open>lib/genl/ctrl.c\<close> recovers them: the object a message is parsed into, a cache filled
  with such objects, the search in it and its release.
\<close>

section \<open>What the controller sends\<close>

text \<open>
  The attributes of a family as the kernel encodes them: an operation or a group is an attribute
  whose number is its position, from 1, around the attributes that describe it.
\<close>

definition op_attrs :: "u32 \<times> u32 \<Rightarrow> (u16 \<times> bytes) list" where
  "op_attrs = (\<lambda>(ident, flags). [(1, le32 ident), (2, le32 flags)])"

definition grp_attrs :: "u32 \<times> bytes \<Rightarrow> (u16 \<times> bytes) list" where
  "grp_attrs = (\<lambda>(ident, str). [(2, le32 ident), (1, str @ [0])])"

primrec nest :: "('a \<Rightarrow> (u16 \<times> bytes) list) \<Rightarrow> nat \<Rightarrow> 'a list \<Rightarrow> (u16 \<times> bytes) list" where
  "nest f n [] = []"
| "nest f n (x # xs) = (word_of_nat n, enc_attrs (f x)) # nest f (Suc n) xs"

definition family_attrs :: "genl_family \<Rightarrow> (u16 \<times> bytes) list" where
  "family_attrs f =
    [(2, gf_name f @ [0]), (1, le16 (gf_id f)), (3, le32 (gf_version f)), (4, le32 (gf_hdrsize f)), (5, le32 (gf_maxattr f))]
    @ (if gf_ops f = [] then [] else [(6, enc_attrs (nest op_attrs 1 (gf_ops f)))])
    @ (if gf_mc_grps f = [] then [] else [(7, enc_attrs (nest grp_attrs 1 (gf_mc_grps f)))])"

text \<open>Families that fit into a message: the kernel bounds names to 16 bytes with the NUL.\<close>

definition name_ok :: "bytes \<Rightarrow> bool" where
  "name_ok str \<longleftrightarrow> 0 \<notin> set str \<and> length str < GENL_NAMSIZ"

definition family_ok :: "genl_family \<Rightarrow> bool" where
  "family_ok f \<longleftrightarrow> name_ok (gf_name f) \<and> unat (gf_version f) < 256 \<and> \<not> gf_borrowed f
     \<and> list_all (\<lambda>g. name_ok (snd g)) (gf_mc_grps f) \<and> length (gf_ops f) \<le> 1000 \<and> length (gf_mc_grps f) \<le> 1000"

section \<open>Loops over nested attributes\<close>

lemma enc_attrs_nonempty: "as \<noteq> [] \<Longrightarrow> enc_attrs as \<noteq> []"
  by (cases as) (auto dest: arg_cong [of _ _ length])

lemma nest_Nil_iff [simp]: "nest f n xs = [] \<longleftrightarrow> xs = []"
  by (cases xs) simp_all

text \<open>Parsing the attributes inside of an attribute.\<close>

lemma nla_parse_nested_payload:
  assumes "attr_payload b nla = Some (enc_attrs as)" and "as \<noteq> []" and "length b < 2 ^ 30"
    and "list_all attr_ok as" and "m < 2 ^ 31" and "list_all (policy_ok m policy) as"
  obtains tb where "nla_parse_nested b (word_of_nat m) nla policy = Some (0, tb)"
    "\<And>t d. map_of (rev as) t = Some d \<Longrightarrow> t \<noteq> 0 \<Longrightarrow> unat t \<le> m \<Longrightarrow>
      \<exists>off. tb (unat t) = Some off \<and> attr_payload b off = Some d"
proof -
  obtain p q where b: "b = p @ enc_attrs as @ q" "length p = nla_data nla"
      "nla_len b nla = Some (word_of_nat (length (enc_attrs as)))"
    using attr_payload_split [OF assms(1) enc_attrs_nonempty [OF assms(2)]] by blast
  have "nla_parse_nested b (word_of_nat m) nla policy = Some (0, attr_index m (length p) as Map.empty)"
    using nla_parse_enc [OF b(1) assms(3-6)] b(2,3) by (simp add: nla_parse_nested_def)
  moreover have "\<exists>off. attr_index m (length p) as Map.empty (unat t) = Some off \<and> attr_payload b off = Some d"
    if "map_of (rev as) t = Some d" "t \<noteq> 0" "unat t \<le> m" for t d
    using attr_index_payload [OF b(1) assms(4) that(2,3), of Map.empty] that(1) by (simp add: bind_eq_Some_conv)
  ultimately show thesis by (rule that)
qed

text \<open>A loop whose rounds are steps of a state \<open>c\<close> that the heap represents.\<close>

lemma each_attr_nest:
  assumes "b = p @ enc_attrs (nest f n xs) @ q" and "list_all attr_ok (nest f n xs)"
    and body: "\<And>nla x c. x \<in> set xs \<Longrightarrow> attr_payload b nla = Some (enc_attrs (f x)) \<Longrightarrow>
      body nla (R c) = Some (Inr (R (g x c)))"
  shows "each_attr body (length p) (nest f n xs) (R c) = Some (Inr (R (fold g xs c), 0))"
  using assms
proof (induction xs arbitrary: n p c)
  case (Cons x xs)
  let ?d = "enc_attrs (f x)"
  have ok: "attr_ok (word_of_nat n, ?d)" using Cons.prems(2) by simp
  have "unat (word_of_nat (length ?d) :: i32) = length ?d"
    using ok by (simp add: attr_ok_def unat_of_nat)
  then have "attr_payload b (length p) = Some ?d"
    using enc_attr_fields(3,4) [OF ok, of p "enc_attrs (nest f (Suc n) xs) @ q"] Cons.prems(1)
    by (simp add: attr_payload_def)
  then have "body (length p) (R c) = Some (Inr (R (g x c)))" by (simp add: Cons.prems(3))
  moreover have "each_attr body (length (p @ enc_attr (word_of_nat n, ?d))) (nest f (Suc n) xs) (R (g x c))
      = Some (Inr (R (fold g xs (g x c)), 0))"
    by (rule Cons.IH) (use Cons.prems in auto)
  ultimately show ?case by simp
qed simp

lemma each_nested_nest:
  assumes "attr_payload b nla = Some (enc_attrs (nest f n xs))" and "xs \<noteq> []" and "length b < 2 ^ 30"
    and "list_all attr_ok (nest f n xs)"
    and body: "\<And>nla x c. x \<in> set xs \<Longrightarrow> attr_payload b nla = Some (enc_attrs (f x)) \<Longrightarrow>
      body nla (R c) = Some (Inr (R (g x c)))"
  shows "each_nested b body (Some nla) (R c) = Some (Inr (R (fold g xs c)))"
proof -
  have "enc_attrs (nest f n xs) \<noteq> []" by (rule enc_attrs_nonempty) (simp add: assms(2))
  then obtain p q where b: "b = p @ enc_attrs (nest f n xs) @ q" "length p = nla_data nla"
      "nla_len b nla = Some (word_of_nat (length (enc_attrs (nest f n xs))))"
    using attr_payload_split [OF assms(1)] by blast
  show ?thesis
    using nla_for_each_attr_enc [OF b(1) assms(3,4), of body "R c"] each_attr_nest [where R = R and g = g and body = body, OF b(1) assms(4) body, of c] b(2,3)
    by (simp add: each_nested_def)
qed

lemma nest_ok:
  assumes "\<And>x. x \<in> set xs \<Longrightarrow> length (enc_attrs (f x)) \<le> k" and "k < 65532" and "n + length xs < 0x4000"
  shows "list_all attr_ok (nest f n xs) \<and> length (enc_attrs (nest f n xs)) \<le> length xs * (8 + k)"
  using assms
proof (induction xs arbitrary: n)
  case (Cons x xs)
  have x: "length (enc_attrs (f x)) \<le> k" using Cons.prems(1) by simp
  have "unat (word_of_nat n :: u16) = n" using Cons.prems(3) by (subst unat_of_nat) simp
  then have "attr_ok (word_of_nat n, enc_attrs (f x))"
    using Cons.prems(2,3) x by (simp add: attr_ok_def word_less_nat_alt)
  moreover have "list_all attr_ok (nest f (Suc n) xs) \<and> length (enc_attrs (nest f (Suc n) xs)) \<le> length xs * (8 + k)"
    by (rule Cons.IH) (use Cons.prems in auto)
  moreover have "4 + align4 (length (enc_attrs (f x))) \<le> 8 + k"
    using x align4_less [of "length (enc_attrs (f x))"] by linarith
  ultimately show ?case by simp
qed simp


section \<open>Parsing a family\<close>

text \<open>A heap with one object more, that of the family; \<open>c\<close> is the next address and the object.\<close>

definition fam_heap :: "addr \<Rightarrow> fheap \<Rightarrow> addr \<times> genl_family nl_object \<Rightarrow> fheap" where
  "fam_heap a h = (\<lambda>(n, ob). set_obj a ob (h\<lparr>h_next := n\<rparr>))"

definition push_op :: "u32 \<times> u32 \<Rightarrow> addr \<times> genl_family nl_object \<Rightarrow> addr \<times> genl_family nl_object" where
  "push_op x = (\<lambda>(n, ob). (n + 1, ob\<lparr>ce_mask := ce_mask ob OR FAMILY_ATTR_OPS,
     ce_data := (ce_data ob)\<lparr>gf_ops := gf_ops (ce_data ob) @ [x]\<rparr>\<rparr>))"

definition push_grp :: "u32 \<times> bytes \<Rightarrow> addr \<times> genl_family nl_object \<Rightarrow> addr \<times> genl_family nl_object" where
  "push_grp x = (\<lambda>(n, ob). (n + 1, ob\<lparr>ce_data := (ce_data ob)\<lparr>gf_mc_grps := gf_mc_grps (ce_data ob) @ [x]\<rparr>\<rparr>))"

lemma fold_push_op:
  "fold push_op xs (n, ob) = (n + length xs, if xs = [] then ob else ob\<lparr>ce_mask := ce_mask ob OR FAMILY_ATTR_OPS,
     ce_data := (ce_data ob)\<lparr>gf_ops := gf_ops (ce_data ob) @ xs\<rparr>\<rparr>)"
  by (induction xs arbitrary: n ob) (auto simp: push_op_def or.assoc)

lemma fold_push_grp:
  "fold push_grp xs (n, ob) = (n + length xs,
     ob\<lparr>ce_data := (ce_data ob)\<lparr>gf_mc_grps := gf_mc_grps (ce_data ob) @ xs\<rparr>\<rparr>)"
  by (induction xs arbitrary: n ob) (auto simp: push_grp_def)

lemma family_set_fam_heap:
  "family_set attr f a (fam_heap a h (n, ob))
     = Some (fam_heap a h (n, ob\<lparr>ce_mask := ce_mask ob OR attr, ce_data := f (ce_data ob)\<rparr>))"
  by (simp add: family_set_def fam_heap_def set_obj_def)

lemma h_alloc_fam_heap:
  "(\<forall>x. h_grants h x) \<Longrightarrow> h_alloc (fam_heap a h (n, ob)) = (Some n, fam_heap a h (n + 1, ob))"
  by (simp add: h_alloc_def fam_heap_def set_obj_def)

lemmas family_policy_defs = policy_ok_def accepts_def policy_minlen_def nla_attr_minlen_def of_type_def no_policy_def
  nla_type_defs

lemma parse_op_step:
  assumes "attr_payload b nla = Some (enc_attrs (op_attrs x))" and b: "length b < 2 ^ 30" and g: "\<forall>x. h_grants h x"
  shows "parse_op b a nla (fam_heap a h c) = Some (Inr (fam_heap a h (push_op x c)))"
proof -
  obtain i fl where x: "x = (i, fl)" by force
  obtain n ob where c: "c = (n, ob)" by force
  have as: "op_attrs x \<noteq> []" "list_all attr_ok (op_attrs x)"
      "list_all (policy_ok CTRL_ATTR_OP_MAX (Some family_op_policy)) (op_attrs x)"
    by (simp_all add: x op_attrs_def attr_ok_def family_policy_defs family_op_policy_def ctrl_attr_defs)
  obtain tb where tb: "nla_parse_nested b (word_of_nat CTRL_ATTR_OP_MAX) nla (Some family_op_policy) = Some (0, tb)"
    "\<And>t d. map_of (rev (op_attrs x)) t = Some d \<Longrightarrow> t \<noteq> 0 \<Longrightarrow> unat t \<le> CTRL_ATTR_OP_MAX \<Longrightarrow>
      \<exists>off. tb (unat t) = Some off \<and> attr_payload b off = Some d"
    using nla_parse_nested_payload [OF assms(1) as(1) b as(2) _ as(3)] by (auto simp: CTRL_ATTR_OP_MAX_def)
  obtain o1 o2 where o: "tb 1 = Some o1" "nla_get_u32 b o1 = Some i" "tb 2 = Some o2" "nla_get_u32 b o2 = Some fl"
    using tb(2) [of 1 "le32 i"] tb(2) [of 2 "le32 fl"] attr_payload_u32
    by (auto simp: x op_attrs_def CTRL_ATTR_OP_MAX_def)
  show ?thesis
    using tb(1) o g
    by (simp add: parse_op_def ctrl_attr_defs genl_family_add_op_def h_alloc_fam_heap family_set_fam_heap c push_op_def x)
qed

lemma parse_grp_step:
  assumes "attr_payload b nla = Some (enc_attrs (grp_attrs x))" and b: "length b < 2 ^ 30" and g: "\<forall>x. h_grants h x"
    and ok: "name_ok (snd x)"
  shows "parse_grp b a nla (fam_heap a h c) = Some (Inr (fam_heap a h (push_grp x c)))"
proof -
  obtain i str where x: "x = (i, str)" by force
  obtain n ob where c: "c = (n, ob)" by force
  have str: "0 \<notin> set str" "length str \<le> 15" using ok by (simp_all add: x name_ok_def GENL_NAMSIZ_def)
  have as: "grp_attrs x \<noteq> []" "list_all attr_ok (grp_attrs x)"
      "list_all (policy_ok CTRL_ATTR_MCAST_GRP_MAX (Some family_grp_policy)) (grp_attrs x)"
    using str by (simp_all add: x grp_attrs_def attr_ok_def family_policy_defs family_grp_policy_def ctrl_attr_defs)
  obtain tb where tb: "nla_parse_nested b (word_of_nat CTRL_ATTR_MCAST_GRP_MAX) nla (Some family_grp_policy) = Some (0, tb)"
    "\<And>t d. map_of (rev (grp_attrs x)) t = Some d \<Longrightarrow> t \<noteq> 0 \<Longrightarrow> unat t \<le> CTRL_ATTR_MCAST_GRP_MAX \<Longrightarrow>
      \<exists>off. tb (unat t) = Some off \<and> attr_payload b off = Some d"
    using nla_parse_nested_payload [OF assms(1) as(1) b as(2) _ as(3)] by (auto simp: CTRL_ATTR_MCAST_GRP_MAX_def)
  obtain o1 o2 where o: "tb 2 = Some o1" "nla_get_u32 b o1 = Some i" "tb 1 = Some o2" "attr_payload b o2 = Some (str @ [0])"
    using tb(2) [of 2 "le32 i"] tb(2) [of 1 "str @ [0]"] attr_payload_u32
    by (auto simp: x grp_attrs_def CTRL_ATTR_MCAST_GRP_MAX_def)
  have "c_str_at b (nla_get_string o2) = Some str"
    using c_str_at_payload [OF o(4)] str(1) by (simp add: nla_get_string_def)
  then show ?thesis
    using tb(1) o g str(2)
    by (simp add: parse_grp_def ctrl_attr_defs genl_family_add_grp_def h_alloc_fam_heap family_set_fam_heap c push_grp_def x
        GENL_NAMSIZ_def)
qed


text \<open>The sizes of the attributes, and that the policy of the controller accepts them.\<close>

lemma op_attrs_len: "length (enc_attrs (op_attrs x)) = 16"
  by (cases x) (simp add: op_attrs_def align4_def)

lemma grp_attrs_len: "name_ok (snd x) \<Longrightarrow> length (enc_attrs (grp_attrs x)) \<le> 31"
  using align4_less [of "length (snd x @ [0 :: u8])"]
  by (cases x) (simp add: grp_attrs_def name_ok_def GENL_NAMSIZ_def, simp add: align4_def)

lemma nest_family_ok:
  assumes "family_ok f"
  shows "list_all attr_ok (nest op_attrs 1 (gf_ops f))" "length (enc_attrs (nest op_attrs 1 (gf_ops f))) \<le> 24000"
    "list_all attr_ok (nest grp_attrs 1 (gf_mc_grps f))" "length (enc_attrs (nest grp_attrs 1 (gf_mc_grps f))) \<le> 39000"
proof -
  have n: "length (gf_ops f) \<le> 1000" "length (gf_mc_grps f) \<le> 1000"
    "\<And>x. x \<in> set (gf_mc_grps f) \<Longrightarrow> length (enc_attrs (grp_attrs x)) \<le> 31"
    using assms grp_attrs_len by (auto simp: family_ok_def list_all_iff)
  show "list_all attr_ok (nest op_attrs 1 (gf_ops f))" "length (enc_attrs (nest op_attrs 1 (gf_ops f))) \<le> 24000"
    using nest_ok [of "gf_ops f" op_attrs 16 1] n(1) by (auto simp: op_attrs_len)
  show "list_all attr_ok (nest grp_attrs 1 (gf_mc_grps f))" "length (enc_attrs (nest grp_attrs 1 (gf_mc_grps f))) \<le> 39000"
    using nest_ok [of "gf_mc_grps f" grp_attrs 31 1] n(2,3) by auto
qed

lemma family_attrs_ok:
  assumes "family_ok f"
  shows "list_all attr_ok (family_attrs f)" "list_all (policy_ok CTRL_ATTR_MAX (Some ctrl_policy)) (family_attrs f)"
    "length (enc_attrs (family_attrs f)) \<le> 65000"
proof -
  note n = nest_family_ok [OF assms]
  have str: "length (gf_name f) \<le> 15" using assms by (simp add: family_ok_def name_ok_def GENL_NAMSIZ_def)
  show "list_all attr_ok (family_attrs f)"
    using n(2,4) str by (simp add: family_attrs_def attr_ok_def)
  show "list_all (policy_ok CTRL_ATTR_MAX (Some ctrl_policy)) (family_attrs f)"
    using str by (simp add: family_attrs_def family_policy_defs ctrl_policy_def ctrl_attr_defs GENL_NAMSIZ_def)
  have "align4 (Suc (length (gf_name f))) \<le> 19"
    "align4 (length (enc_attrs (nest op_attrs 1 (gf_ops f)))) \<le> 24003"
    "align4 (length (enc_attrs (nest grp_attrs 1 (gf_mc_grps f)))) \<le> 39003"
    using align4_less [of "Suc (length (gf_name f))"] align4_less [of "length (enc_attrs (nest op_attrs 1 (gf_ops f)))"]
      align4_less [of "length (enc_attrs (nest grp_attrs 1 (gf_mc_grps f)))"] n(2,4) str by linarith+
  moreover have "align4 4 = 4" "align4 2 = 4" by (simp_all add: align4_def)
  ultimately show "length (enc_attrs (family_attrs f)) \<le> 65000"
    by (simp add: family_attrs_def del: One_nat_def)
qed

text \<open>The object of a family, with its one reference and the mask of the attributes that are set.\<close>

definition family_mask :: "genl_family \<Rightarrow> u32" where
  "family_mask f = FAMILY_ATTR_ID OR FAMILY_ATTR_NAME OR FAMILY_ATTR_VERSION OR FAMILY_ATTR_HDRSIZE OR FAMILY_ATTR_MAXATTR
     OR (if gf_ops f = [] then 0 else FAMILY_ATTR_OPS)"

definition family_obj :: "genl_family \<Rightarrow> genl_family nl_object" where
  "family_obj f = \<lparr>ce_refcnt = 1, ce_cache = None, ce_linked = False, ce_msgtype = GENL_ID_CTRL, ce_flags = 0,
     ce_mask = family_mask f, ce_data = f\<rparr>"

definition family_msg :: "u16 \<Rightarrow> u32 \<Rightarrow> u32 \<Rightarrow> u8 \<Rightarrow> genl_family \<Rightarrow> bytes" where
  "family_msg fl sq pid ver f = genl_bytes 16 fl sq pid (ucast CTRL_CMD_NEWFAMILY) ver (family_attrs f)"

text \<open>The table that the parser with a policy makes of a generic netlink message.\<close>

lemma nlmsg_parse_genl:
  assumes b: "b = genl_bytes ty fl sq pid cmd ver as" and small: "length b < 2 ^ 30"
    and ok: "list_all attr_ok as" "m < 2 ^ 31" "list_all (policy_ok m policy) as"
  shows "nlmsg_valid_hdr b 0 4 = Some True"
    and "nlmsg_parse b 0 4 (word_of_nat m) policy tb = Some (0, attr_index m 20 as Map.empty)"
proof -
  let ?p = "msg_at (20 + length (enc_attrs as)) (nlh_fields ty fl sq pid @ genlmsghdr cmd ver)"
  define L :: u32 where "L = word_of_nat (20 + length (enc_attrs as))"
  have uL: "unat L = 20 + length (enc_attrs as)"
    unfolding L_def using b small by (subst unat_of_nat) simp
  have b': "b = genl_bytes ty fl sq pid cmd ver as @ []" using b by simp
  have ld: "ld32 b 0 = Some L" using genl_bytes_fields(1) [OF b' small] by (simp add: L_def)
  have al: "NLMSG_ALIGN 4 = 4" by (simp add: NLMSG_ALIGN_def)
  show valid: "nlmsg_valid_hdr b 0 4 = Some True"
    using ld uL by (simp add: nlmsg_valid_hdr_def nlmsg_msg_size_def nlmsg_size_def word_less_nat_alt)
  have len: "nlmsg_attrlen b 0 4 = Some (word_of_nat (length (enc_attrs as)))"
    using ld by (simp add: nlmsg_attrlen_def nlmsg_len_def nlmsg_datalen_def al L_def)
  have bp: "b = ?p @ enc_attrs as @ []" using b by (simp add: genl_bytes_def msg_at_def)
  have "nla_parse b (word_of_nat m) (length ?p) (word_of_nat (length (enc_attrs as))) policy
      = Some (0, attr_index m (length ?p) as Map.empty)"
    by (rule nla_parse_enc [OF bp small ok])
  then show "nlmsg_parse b 0 4 (word_of_nat m) policy tb = Some (0, attr_index m 20 as Map.empty)"
    using valid len by (simp add: nlmsg_parse_def nlmsg_attrdata_def nlmsg_data_def al genlmsghdr_def)
qed


text \<open>What the table of a family message says.\<close>

lemma family_table:
  assumes ok: "family_ok f" and b: "b = family_msg fl sq pid ver f"
  defines "tb \<equiv> attr_index CTRL_ATTR_MAX 20 (family_attrs f) Map.empty"
  obtains o1 o2 o3 o4 o5 where "tb 1 = Some o1" "nla_get_u16 b o1 = Some (gf_id f)"
    "tb 2 = Some o2" "c_str_at b (nla_get_string o2) = Some (gf_name f)"
    "tb 3 = Some o3" "nla_get_u32 b o3 = Some (gf_version f)"
    "tb 4 = Some o4" "nla_get_u32 b o4 = Some (gf_hdrsize f)"
    "tb 5 = Some o5" "nla_get_u32 b o5 = Some (gf_maxattr f)"
    "if gf_ops f = [] then tb 6 = None
     else \<exists>o6. tb 6 = Some o6 \<and> attr_payload b o6 = Some (enc_attrs (nest op_attrs 1 (gf_ops f)))"
    "if gf_mc_grps f = [] then tb 7 = None
     else \<exists>o7. tb 7 = Some o7 \<and> attr_payload b o7 = Some (enc_attrs (nest grp_attrs 1 (gf_mc_grps f)))"
proof -
  have b': "b = genl_bytes 16 fl sq pid (ucast CTRL_CMD_NEWFAMILY) ver (family_attrs f) @ []"
    using b by (simp add: family_msg_def)
  have here: "\<exists>off. tb (unat t) = Some off \<and> attr_payload b off = Some d"
    if "map_of (rev (family_attrs f)) t = Some d" "t \<noteq> 0" "unat t \<le> CTRL_ATTR_MAX" for t d
    using genl_attr_payload [OF b' family_attrs_ok(1) [OF ok] that(2,3)] that(1) by (simp add: tb_def bind_eq_Some_conv)
  have gone: "tb t = None" if "t \<notin> unat ` fst ` set (family_attrs f)" for t
    unfolding tb_def using attr_index_absent [OF that] by simp
  have mo: "map_of (rev (family_attrs f)) 1 = Some (le16 (gf_id f))"
    "map_of (rev (family_attrs f)) 2 = Some (gf_name f @ [0])"
    "map_of (rev (family_attrs f)) 3 = Some (le32 (gf_version f))"
    "map_of (rev (family_attrs f)) 4 = Some (le32 (gf_hdrsize f))"
    "map_of (rev (family_attrs f)) 5 = Some (le32 (gf_maxattr f))"
    "gf_ops f \<noteq> [] \<Longrightarrow> map_of (rev (family_attrs f)) 6 = Some (enc_attrs (nest op_attrs 1 (gf_ops f)))"
    "gf_mc_grps f \<noteq> [] \<Longrightarrow> map_of (rev (family_attrs f)) 7 = Some (enc_attrs (nest grp_attrs 1 (gf_mc_grps f)))"
    by (simp_all add: family_attrs_def del: One_nat_def)
  obtain o1 where o1: "tb 1 = Some o1" "attr_payload b o1 = Some (le16 (gf_id f))"
    using here [OF mo(1)] by (auto simp: CTRL_ATTR_MAX_def)
  obtain o2 where o2: "tb 2 = Some o2" "attr_payload b o2 = Some (gf_name f @ [0])"
    using here [OF mo(2)] by (auto simp: CTRL_ATTR_MAX_def)
  obtain o3 where o3: "tb 3 = Some o3" "attr_payload b o3 = Some (le32 (gf_version f))"
    using here [OF mo(3)] by (auto simp: CTRL_ATTR_MAX_def)
  obtain o4 where o4: "tb 4 = Some o4" "attr_payload b o4 = Some (le32 (gf_hdrsize f))"
    using here [OF mo(4)] by (auto simp: CTRL_ATTR_MAX_def)
  obtain o5 where o5: "tb 5 = Some o5" "attr_payload b o5 = Some (le32 (gf_maxattr f))"
    using here [OF mo(5)] by (auto simp: CTRL_ATTR_MAX_def)
  have o6: "if gf_ops f = [] then tb 6 = None
     else \<exists>o6. tb 6 = Some o6 \<and> attr_payload b o6 = Some (enc_attrs (nest op_attrs 1 (gf_ops f)))"
    using here [OF mo(6)] gone [of 6] by (simp add: CTRL_ATTR_MAX_def family_attrs_def image_iff del: One_nat_def)
  have o7: "if gf_mc_grps f = [] then tb 7 = None
     else \<exists>o7. tb 7 = Some o7 \<and> attr_payload b o7 = Some (enc_attrs (nest grp_attrs 1 (gf_mc_grps f)))"
    using here [OF mo(7)] gone [of 7] by (simp add: CTRL_ATTR_MAX_def family_attrs_def image_iff del: One_nat_def)
  have "c_str_at b (nla_get_string o2) = Some (gf_name f)"
    using c_str_at_payload [OF o2(2)] ok by (simp add: family_ok_def name_ok_def nla_get_string_def)
  then show thesis
    using that [of o1 o2 o3 o4 o5] o1 o2 o3 o4 o5 o6 o7 attr_payload_u16 attr_payload_u32 by blast
qed

lemma each_nested_ops:
  assumes "family_ok f" and b: "length b < 2 ^ 30" and g: "\<forall>x. h_grants h x"
    and "if gf_ops f = [] then t = None
     else \<exists>o6. t = Some o6 \<and> attr_payload b o6 = Some (enc_attrs (nest op_attrs 1 (gf_ops f)))"
  shows "each_nested b (parse_op b a) t (fam_heap a h c) = Some (Inr (fam_heap a h (fold push_op (gf_ops f) c)))"
proof (cases "gf_ops f = []")
  case False
  then obtain o6 where "t = Some o6" "attr_payload b o6 = Some (enc_attrs (nest op_attrs 1 (gf_ops f)))"
    using assms(4) by auto
  then show ?thesis
    using each_nested_nest [where R = "fam_heap a h" and g = push_op and body = "parse_op b a", OF _ False b nest_family_ok(1) [OF assms(1)]]
      parse_op_step [OF _ b g] by blast
qed (use assms(4) in \<open>simp add: each_nested_def\<close>)

lemma each_nested_grps:
  assumes "family_ok f" and b: "length b < 2 ^ 30" and g: "\<forall>x. h_grants h x"
    and "if gf_mc_grps f = [] then t = None
     else \<exists>o7. t = Some o7 \<and> attr_payload b o7 = Some (enc_attrs (nest grp_attrs 1 (gf_mc_grps f)))"
  shows "each_nested b (parse_grp b a) t (fam_heap a h c) = Some (Inr (fam_heap a h (fold push_grp (gf_mc_grps f) c)))"
proof (cases "gf_mc_grps f = []")
  case False
  then obtain o7 where "t = Some o7" "attr_payload b o7 = Some (enc_attrs (nest grp_attrs 1 (gf_mc_grps f)))"
    using assms(4) by auto
  moreover have "parse_grp b a nla (fam_heap a h c) = Some (Inr (fam_heap a h (push_grp x c)))"
    if "x \<in> set (gf_mc_grps f)" "attr_payload b nla = Some (enc_attrs (grp_attrs x))" for x nla c
    using parse_grp_step [OF that(2) b g] that(1) assms(1) by (simp add: family_ok_def list_all_iff)
  ultimately show ?thesis
    using each_nested_nest [where R = "fam_heap a h" and g = push_grp and body = "parse_grp b a", OF _ False b nest_family_ok(3) [OF assms(1)]]
    by blast
qed (use assms(4) in \<open>simp add: each_nested_def\<close>)

text \<open>The object that is filled from a message is the object of the family the message encodes.\<close>

lemma fill_family_msg:
  assumes ok: "family_ok f" and b: "b = family_msg fl sq pid ver f" and g: "\<forall>x. h_grants h x"
  shows "fill_family b 0 (attr_index CTRL_ATTR_MAX 20 (family_attrs f) Map.empty) pp_cb a
      (fam_heap a h (n, \<lparr>ce_refcnt = 1, ce_cache = None, ce_linked = False, ce_msgtype = 0, ce_flags = 0, ce_mask = 0,
         ce_data = family_constructor\<rparr>))
    = pp_cb a (fam_heap a h (n + length (gf_ops f) + length (gf_mc_grps f), family_obj f))"
proof -
  let ?tb = "attr_index CTRL_ATTR_MAX 20 (family_attrs f) Map.empty"
  have small: "length b < 2 ^ 30" using family_attrs_ok(3) [OF ok] by (simp add: b family_msg_def)
  have b': "b = genl_bytes 16 fl sq pid (ucast CTRL_CMD_NEWFAMILY) ver (family_attrs f) @ []" using b by (simp add: family_msg_def)
  obtain o1 o2 o3 o4 o5 where o: "?tb 1 = Some o1" "nla_get_u16 b o1 = Some (gf_id f)"
    "?tb 2 = Some o2" "c_str_at b (nla_get_string o2) = Some (gf_name f)"
    "?tb 3 = Some o3" "nla_get_u32 b o3 = Some (gf_version f)"
    "?tb 4 = Some o4" "nla_get_u32 b o4 = Some (gf_hdrsize f)"
    "?tb 5 = Some o5" "nla_get_u32 b o5 = Some (gf_maxattr f)"
    "if gf_ops f = [] then ?tb 6 = None
     else \<exists>o6. ?tb 6 = Some o6 \<and> attr_payload b o6 = Some (enc_attrs (nest op_attrs 1 (gf_ops f)))"
    "if gf_mc_grps f = [] then ?tb 7 = None
     else \<exists>o7. ?tb 7 = Some o7 \<and> attr_payload b o7 = Some (enc_attrs (nest grp_attrs 1 (gf_mc_grps f)))"
    by (rule family_table [OF ok b])
  define ob where "ob = \<lparr>ce_refcnt = 1, ce_cache = None, ce_linked = False, ce_msgtype = GENL_ID_CTRL, ce_flags = 0,
     ce_mask = family_mask (f\<lparr>gf_ops := []\<rparr>), ce_data = f\<lparr>gf_ops := [], gf_mc_grps := []\<rparr>\<rparr>"
  have obj: "h_objs (fam_heap a h (n, ob)) a = Some ob" "set_obj a ob' (fam_heap a h (n, ob)) = fam_heap a h (n, ob')" for n ob ob'
    by (simp_all add: fam_heap_def set_obj_def)
  have ver: "ucast (ucast (gf_version f) :: u8) = gf_version f"
    using ok by (intro word_unat_eq_iff [THEN iffD2]) (simp add: family_ok_def unsigned_ucast_eq take_bit_eq_mod unat_mod)
  have str: "take 15 (gf_name f) = gf_name f" "\<not> gf_borrowed f"
    using ok by (simp_all add: family_ok_def name_ok_def GENL_NAMSIZ_def)
  have "fold push_grp (gf_mc_grps f) (fold push_op (gf_ops f) (n, ob))
      = (n + length (gf_ops f) + length (gf_mc_grps f), family_obj f)"
    by (simp add: fold_push_op fold_push_grp ob_def family_obj_def family_mask_def or.assoc)
  moreover have "fill_family b 0 ?tb pp_cb a
      (fam_heap a h (n, \<lparr>ce_refcnt = 1, ce_cache = None, ce_linked = False, ce_msgtype = 0, ce_flags = 0, ce_mask = 0,
         ce_data = family_constructor\<rparr>))
    = pp_cb a (fam_heap a h (fold push_grp (gf_mc_grps f) (fold push_op (gf_ops f) (n, ob))))"
  proof -
    have ob: "\<lparr>ce_refcnt = 1, ce_cache = None, ce_linked = False, ce_msgtype = 16, ce_flags = 0,
        ce_mask = FAMILY_ATTR_ID OR FAMILY_ATTR_NAME OR FAMILY_ATTR_VERSION OR FAMILY_ATTR_HDRSIZE OR FAMILY_ATTR_MAXATTR,
        ce_data = \<lparr>gf_id = gf_id f, gf_name = gf_name f, gf_version = gf_version f, gf_hdrsize = gf_hdrsize f,
          gf_maxattr = gf_maxattr f, gf_ops = [], gf_mc_grps = [], gf_borrowed = False\<rparr>\<rparr> = ob"
      using str(2) by (cases f) (simp add: ob_def family_mask_def GENL_ID_CTRL_def)
    show ?thesis
      using o(1-10) genl_bytes_fields(2) [OF b' small]
      by (simp add: fill_family_def ctrl_attr_defs obj set_u32_def family_constructor_def genl_family_set_id_def
          genl_family_set_name_def genl_family_set_version_def genl_family_set_hdrsize_def genl_family_set_maxattr_def
          family_set_fam_heap ver GENL_NAMSIZ_def str or.assoc ob
          each_nested_ops [OF ok small g o(11) [unfolded ctrl_attr_defs]] each_nested_grps [OF ok small g o(12) [unfolded ctrl_attr_defs]]
          del: attr_index.simps)
  qed
  ultimately show ?thesis by simp
qed

text \<open>An object of a family inside of a cache: the reference of the cache is the only one.\<close>

definition cached :: "addr \<Rightarrow> genl_family \<Rightarrow> genl_family nl_object" where
  "cached c f = (family_obj f)\<lparr>ce_cache := Some c, ce_linked := True\<rparr>"

text \<open>Its number is known.\<close>

lemma get_id_cached:
  "h_objs h a = Some ((cached c f)\<lparr>ce_refcnt := n\<rparr>) \<Longrightarrow> genl_family_get_id a h = Some (ucast (gf_id f))"
proof -
  have "bit (family_mask f AND FAMILY_ATTR_ID) 0" by (simp add: family_mask_def family_attr_defs bit_simps)
  then have "family_mask f AND FAMILY_ATTR_ID \<noteq> 0" by (auto simp del: bit_0)
  then show "h_objs h a = Some ((cached c f)\<lparr>ce_refcnt := n\<rparr>) \<Longrightarrow> ?thesis"
    by (simp add: genl_family_get_id_def cached_def family_obj_def)
qed

text \<open>The heap after the message of a family was put into the cache \<open>c\<close> with the contents \<open>ca\<close>.\<close>

definition picked :: "addr \<Rightarrow> nl_cache \<Rightarrow> genl_family \<Rightarrow> fheap \<Rightarrow> fheap" where
  "picked c ca f h = set_cache c \<lparr>c_items = c_items ca @ [h_next h], c_nitems = c_nitems ca + 1\<rparr>
     (fam_heap (h_next h) h (h_next h + 1 + length (gf_ops f) + length (gf_mc_grps f), cached c f))"

lemma genl_msg_parser_family:
  assumes ok: "family_ok f" and b: "b = family_msg fl sq pid ver f" and g: "\<forall>x. h_grants h x"
  shows "genl_msg_parser (GENL_HDRSIZE 0) genl_cmds b 0 pp_cb h = do {
      (err, h') \<leftarrow> pp_cb (h_next h) (fam_heap (h_next h) h (h_next h + 1 + length (gf_ops f) + length (gf_mc_grps f), family_obj f));
      h' \<leftarrow> genl_family_put (Some (h_next h)) h';
      Some (err, h')
    }"
    and "nlmsg_valid_hdr b 0 4 = Some True" "ld16 b 4 = Some 16"
proof -
  have small: "length b < 2 ^ 30" using family_attrs_ok(3) [OF ok] by (simp add: b family_msg_def)
  have bg: "b = genl_bytes 16 fl sq pid (ucast CTRL_CMD_NEWFAMILY) ver (family_attrs f)" using b by (simp add: family_msg_def)
  then have b': "b = genl_bytes 16 fl sq pid (ucast CTRL_CMD_NEWFAMILY) ver (family_attrs f) @ []" by simp
  note p = nlmsg_parse_genl [OF bg small family_attrs_ok(1) [OF ok] _ family_attrs_ok(2) [OF ok]]
  have al: "genl_family_alloc h = (Some (h_next h), fam_heap (h_next h) h (h_next h + 1,
      \<lparr>ce_refcnt = 1, ce_cache = None, ce_linked = False, ce_msgtype = 0, ce_flags = 0, ce_mask = 0,
         ce_data = family_constructor\<rparr>))"
    using g by (simp add: genl_family_alloc_def nl_object_alloc_def h_alloc_def fam_heap_def genl_family_ops_def)
  show "genl_msg_parser (GENL_HDRSIZE 0) genl_cmds b 0 pp_cb h = do {
      (err, h') \<leftarrow> pp_cb (h_next h) (fam_heap (h_next h) h (h_next h + 1 + length (gf_ops f) + length (gf_mc_grps f), family_obj f));
      h' \<leftarrow> genl_family_put (Some (h_next h)) h';
      Some (err, h')
    }"
    using genl_bytes_fields(6) [OF b' small] p(2) fill_family_msg [OF ok b g]
    by (simp add: genl_msg_parser_def genl_cmds_def plain_cmd_def CTRL_CMD_NEWFAMILY_def nlmsg_data_def GENL_HDRSIZE_def CTRL_ATTR_MAX_def
        ctrl_msg_parser_def al)
  show "nlmsg_valid_hdr b 0 4 = Some True" using p(1) by (simp add: CTRL_ATTR_MAX_def)
  show "ld16 b 4 = Some 16" by (rule genl_bytes_fields(2) [OF b' small])
qed

lemma nl_cache_parse_family:
  assumes ok: "family_ok f" and b: "b = family_msg fl sq pid ver f" and g: "\<forall>x. h_grants h x"
    and c: "h_caches h c = Some ca"
  shows "nl_cache_parse genl_ctrl_ops b 0 (pickup_cb genl_family_ops c) h = Some (0, picked c ca f h)"
proof -
  let ?a = "h_next h" and ?n = "h_next h + 1 + length (gf_ops f) + length (gf_mc_grps f)"
  have add: "pickup_cb genl_family_ops c ?a (fam_heap ?a h (?n, family_obj f)) = Some (0, set_cache c
      \<lparr>c_items = c_items ca @ [?a], c_nitems = c_nitems ca + 1\<rparr>
      (fam_heap ?a h (?n, (cached c f)\<lparr>ce_refcnt := 2\<rparr>)))"
    using c by (simp add: pickup_cb_def nl_cache_add_def nl_object_get_def cache_add_tail_def fam_heap_def family_obj_def
        cached_def set_obj_def set_cache_def)
  have put: "genl_family_put (Some ?a) (set_cache c ca' (fam_heap ?a h (?n, (cached c f)\<lparr>ce_refcnt := 2\<rparr>)))
      = Some (set_cache c ca' (fam_heap ?a h (?n, cached c f)))" for ca'
    by (simp add: genl_family_put_def nl_object_put_def put_with_def fam_heap_def cached_def family_obj_def set_obj_def
        set_cache_def)
  show ?thesis
    using genl_msg_parser_family(1) [OF ok b g, of "pickup_cb genl_family_ops c"] genl_msg_parser_family(2,3) [OF ok b g] add put
    by (simp add: genl_ctrl_dispatch GENL_HDRSIZE_def GENL_ID_CTRL_def picked_def NLE_OPNOTSUPP_def)
qed

section \<open>A cache of families\<close>

text \<open>A heap on which allocations succeed and nothing is stored from the next address on.\<close>

definition heap_free :: "fheap \<Rightarrow> bool" where
  "heap_free h \<longleftrightarrow> (\<forall>a. h_grants h a) \<and> (\<forall>a \<ge> h_next h. h_objs h a = None \<and> h_caches h a = None)"

text \<open>The heap \<open>h\<close> is \<open>h0\<close> with the cache \<open>c\<close> and its objects, the families \<open>fs\<close> at the addresses \<open>as\<close>.\<close>

definition filled :: "addr \<Rightarrow> addr list \<Rightarrow> genl_family list \<Rightarrow> fheap \<Rightarrow> fheap \<Rightarrow> bool" where
  "filled c as fs h0 h \<longleftrightarrow> length as = length fs \<and> distinct as \<and> (\<forall>a \<in> set as. h_objs h0 a = None \<and> a < h_next h)
     \<and> h_objs h = h_objs h0 ++ map_of (zip as (map (cached c) fs))
     \<and> h_caches h = (h_caches h0)(c \<mapsto> \<lparr>c_items = as, c_nitems = word_of_nat (length as)\<rparr>)
     \<and> h_grants h = h_grants h0 \<and> h_next h0 \<le> h_next h"

lemma map_of_zip_None: "x \<notin> set as \<Longrightarrow> map_of (zip as xs) x = None"
  by (auto simp: map_of_eq_None_iff dest: set_zip_leftD)

lemma filled_picked:
  assumes "filled c as fs h0 h" and "heap_free h0"
  shows "filled c (as @ [h_next h]) (fs @ [f]) h0
    (picked c \<lparr>c_items = as, c_nitems = word_of_nat (length as)\<rparr> f h)"
proof -
  have "h_next h \<notin> set as" "h_objs h0 (h_next h) = None"
    using assms by (auto simp: filled_def heap_free_def)
  moreover have "map_of (zip as xs @ [(a, x)]) = (map_of (zip as xs))(a \<mapsto> x)"
    if "a \<notin> set as" for a x and xs :: "genl_family nl_object list"
    using map_of_zip_None [OF that, of xs] by (auto simp: fun_eq_iff map_add_def split: option.splits)
  moreover have "(o0 ++ m)(a \<mapsto> x) = o0 ++ m(a \<mapsto> x)" for o0 m :: "addr \<Rightarrow> genl_family nl_object option" and a x
    by (simp add: map_add_upd)
  ultimately show ?thesis
    using assms(1)
    by (auto simp: filled_def picked_def fam_heap_def set_obj_def set_cache_def add.commute dest: less_imp_le)
qed

lemma filled_objs:
  assumes "filled c as fs h0 h"
  shows "list_all2 (\<lambda>a f. h_objs h a = Some (cached c f)) as fs"
proof -
  have len: "length as = length fs" "distinct as" and h: "h_objs h = h_objs h0 ++ map_of (zip as (map (cached c) fs))"
    using assms by (simp_all add: filled_def)
  have "h_objs h (as ! i) = Some (cached c (fs ! i))" if "i < length as" for i
    unfolding h by (rule map_add_find_right) (use len that in \<open>simp add: map_of_zip_nth\<close>)
  then show ?thesis using len(1) by (simp add: list_all2_conv_all_nth)
qed

text \<open>Searching such a cache, and freeing it: the heap is then as it was.\<close>

lemma find_family_filled:
  assumes "list_all2 (\<lambda>a f. h_objs h a = Some (cached c f)) as fs"
  shows "case find q fs of
      None \<Rightarrow> find_family q h as = Some (None, h)
    | Some f \<Rightarrow> \<exists>a. h_objs h a = Some (cached c f)
        \<and> find_family q h as = Some (Some a, set_obj a ((cached c f)\<lparr>ce_refcnt := 2\<rparr>) h)"
  using assms
  by (induction rule: list_all2_induct) (auto simp: nl_object_get_def cached_def family_obj_def split: option.splits)

lemma remove_all_filled:
  assumes "distinct as" and "length as = length fs" and "\<forall>a \<in> set as. o0 a = None" and "list_all (\<lambda>f. \<not> gf_borrowed f) fs"
    and "h_objs h = o0 ++ map_of (zip as (map (cached c) fs))"
    and "h_caches h c = Some \<lparr>c_items = as, c_nitems = word_of_nat (length as)\<rparr>"
  shows "remove_all genl_family_ops as h
    = Some (h\<lparr>h_objs := o0, h_caches := (h_caches h)(c \<mapsto> \<lparr>c_items = [], c_nitems = 0\<rparr>)\<rparr>)"
  using assms
proof (induction as arbitrary: fs h)
  case Nil
  then show ?case by (simp add: fun_upd_idem)
next
  case (Cons a as)
  obtain f fs' where fs: "fs = f # fs'" using Cons.prems(2) by (cases fs) auto
  have a: "h_objs h a = Some (cached c f)" using Cons.prems(5) by (simp add: fs)
  define h1 where "h1 = h\<lparr>h_objs := (h_objs h)(a := None),
    h_caches := (h_caches h)(c \<mapsto> \<lparr>c_items = as, c_nitems = word_of_nat (length as)\<rparr>)\<rparr>"
  have rem: "nl_cache_remove genl_family_ops a h = Some h1"
    using nl_cache_remove_eq [OF a _ Cons.prems(6), of genl_family_ops] Cons.prems(4)
    by (simp add: cached_def family_obj_def put_with_def free_uncached_def set_obj_def set_cache_def genl_family_ops_def
        family_free_data_def fs h1_def)
  have "(h_objs h)(a := None) = o0 ++ map_of (zip as (map (cached c) fs'))"
    using Cons.prems(1,3) map_of_zip_None [of a as "map (cached c) fs'"]
    by (auto simp: Cons.prems(5) fs fun_eq_iff map_add_def)
  then have "remove_all genl_family_ops as h1
    = Some (h1\<lparr>h_objs := o0, h_caches := (h_caches h1)(c \<mapsto> \<lparr>c_items = [], c_nitems = 0\<rparr>)\<rparr>)"
    by (intro Cons.IH [of fs']) (use Cons.prems in \<open>simp_all add: fs h1_def\<close>)
  moreover have "h1\<lparr>h_objs := o0, h_caches := (h_caches h1)(c \<mapsto> z)\<rparr> = h\<lparr>h_objs := o0, h_caches := (h_caches h)(c \<mapsto> z)\<rparr>" for z
    by (simp add: h1_def)
  ultimately show ?case by (simp only: remove_all.simps rem bind.bind_lunit)
qed

lemma free_filled:
  assumes "filled c as fs h0 h" and "h_caches h0 c = None" and "list_all family_ok fs"
  shows "nl_cache_free genl_family_ops (Some c) h = Some (h0\<lparr>h_next := h_next h\<rparr>)"
proof -
  have "remove_all genl_family_ops as h
    = Some (h\<lparr>h_objs := h_objs h0, h_caches := (h_caches h)(c \<mapsto> \<lparr>c_items = [], c_nitems = 0\<rparr>)\<rparr>)"
    by (rule remove_all_filled [of as fs]) (use assms in \<open>auto simp: filled_def list_all_iff family_ok_def\<close>)
  then show ?thesis
    using assms(1,2) by (auto simp: nl_cache_free_def nl_cache_clear_def filled_def fun_upd_idem)
qed

text \<open>
  Claim C7.  Parsing a family: the message in which the kernel describes a family, with all
  its operations and groups, is parsed into an object that holds exactly this family; the
  object is the last of the cache, the cache has its only reference, and nothing else on the
  heap changes.
\<close>

theorem family_parse_roundtrip:
  assumes "family_ok f" and "\<forall>a. h_grants h a" and "h_caches h c = Some ca"
  shows "\<exists>h' ob. nl_cache_parse genl_ctrl_ops (family_msg fl sq pid ver f) 0 (pickup_cb genl_family_ops c) h = Some (0, h')
    \<and> h_caches h' = (h_caches h)(c \<mapsto> \<lparr>c_items = c_items ca @ [h_next h], c_nitems = c_nitems ca + 1\<rparr>)
    \<and> h_objs h' = (h_objs h)(h_next h \<mapsto> ob) \<and> ce_data ob = f \<and> ce_refcnt ob = 1 \<and> ce_cache ob = Some c"
  using nl_cache_parse_family [OF assms(1) refl assms(2,3), of fl sq pid ver]
  by (intro exI [of _ "picked c ca f h"] exI [of _ "cached c f"])
    (simp add: picked_def fam_heap_def set_obj_def set_cache_def cached_def family_obj_def)

end
