(* ===== verification/NL_Resolve.thy ===== *)
theory NL_Resolve
  imports NL_Family
begin

text \<open>
  The resolver of generic netlink families at work: asking the controller for a dump, receiving
  its datagrams into a cache, looking a name up and freeing the cache.  The kernel's side is
  the contract of the locale \<open>ctrl_link\<close>.
\<close>

section \<open>Asking for the families\<close>

lemma genl_send_simple_ok:
  assumes sz: "20 \<le> unat sz" "unat sz < 2 ^ 30" and al: "sys_alloc2 sys p = ((True, True), p1)"
    and sk: "s_flags sk AND NL_NO_AUTO_ACK = 0" "cb_set (s_cb sk) NL_CB_MSG_OUT = None"
    and snd: "sys_sendmsg sys (s_fd sk) (s_peer sk) None (genl_bytes (ucast family) (ucast flags OR NLM_F_REQUEST OR NLM_F_ACK)
        (s_seq_next sk) (nl_pid (s_local sk)) (ucast cmd) (ucast version) []) (kern p1) = (Inr n, k')"
  shows "genl_send_simple sys sz sk family cmd version flags u p
    = Some (n, sk\<lparr>s_seq_next := s_seq_next sk + 1\<rparr>, u, p1\<lparr>kern := k'\<rparr>)"
proof -
  let ?w = "nlh_fields (ucast family) (ucast flags) 0 0" and ?d = "genlmsghdr (ucast cmd) (ucast version)"
  define m where "m = (fresh_msg sz)\<lparr>nm_nlh := msg_at 16 (?w @ replicate (unat sz - 16) 0)\<rparr>"
  have x: "replicate (unat sz - 16) (0 :: u8) = replicate 4 0 @ [] @ replicate (unat sz - 20) 0"
    using sz by (simp flip: replicate_add)
  have "nlmsg_reserve m 4 4 = Some (Some (4 + length ?w), m\<lparr>nm_nlh :=
      msg_at (4 + length ?w + length (replicate 4 (0 :: u8)) + length ([] :: bytes))
        (?w @ replicate 4 0 @ replicate (length ([] :: bytes)) 0 @ replicate (unat sz - 20) 0)\<rparr>)"
    by (rule nlmsg_reserve_fits) (use sz in \<open>simp_all add: m_def x fresh_msg_def align4_def\<close>)
  then have app: "nlmsg_append m ?d 4 4 = Some (0, m\<lparr>nm_nlh := msg_at 20 (?w @ ?d @ replicate (unat sz - 20) 0)\<rparr>)"
    using blit_msg_at [of 16 ?w ?d "replicate 4 0"]
    by (simp add: nlmsg_append_def take_exact_def genlmsghdr_def)
  let ?m = "m\<lparr>nm_nlh := msg_at 20 (?w @ ?d @ replicate (unat sz - 20) 0)\<rparr>"
  have b: "nm_nlh ?m = genl_bytes (ucast family) (ucast flags) 0 0 (ucast cmd) (ucast version) [] @ replicate (unat sz - 20) 0"
    by (simp add: genl_bytes_def msg_at_def)
  obtain m' where "nl_send_auto sys sk ?m u p1 = Some (n, sk\<lparr>s_seq_next := s_seq_next sk + 1\<rparr>, m', u, p1\<lparr>kern := k'\<rparr>)"
      "nlmsg_free (Some m') = Some None"
    by (rule nl_send_auto_genl [OF b _ _ _ _ sk snd, of u]) (simp_all add: m_def fresh_msg_def)
  moreover have "nlmsg_alloc_simple True True sz family flags = Some (Some m)"
    using nlmsg_alloc_simple_fresh [of sz family flags] sz(1) by (simp add: m_def)
  moreover have "?d \<noteq> []" "length ?d = 4" by (simp_all add: genlmsghdr_def)
  ultimately show ?thesis
    using al app by (simp add: genl_send_simple_def nl_send_simple_def nl_send_auto_complete_def)
qed

section \<open>Receiving a dump\<close>

text \<open>The datagrams of a dump: messages of several parts, then the message that ends it.\<close>

definition family_datagram :: "u32 \<Rightarrow> u32 \<Rightarrow> genl_family list \<Rightarrow> bytes" where
  "family_datagram sq pid fs = concat (map (family_msg NLM_F_MULTI sq pid 2) fs)"

definition done_msg :: "u32 \<Rightarrow> u32 \<Rightarrow> bytes" where
  "done_msg sq pid = msg_at 20 (nlh_fields NLMSG_DONE NLM_F_MULTI sq pid @ le32 0)"

definition kernel_addr :: sockaddr_nl where
  "kernel_addr = \<lparr>nl_family = AF_NETLINK, nl_pid = 0, nl_groups = 0\<rparr>"

text \<open>Calls that change neither what the driver is nor what waits on the socket.\<close>

definition keeps :: "('k \<Rightarrow> bool) \<Rightarrow> ('k \<Rightarrow> 'd) \<Rightarrow> ('k \<Rightarrow> bytes list) \<Rightarrow> 'k \<Rightarrow> 'k \<Rightarrow> bool" where
  "keeps linked drv inbox k k' \<longleftrightarrow> linked k' \<and> drv k' = drv k \<and> inbox k' = inbox k"

lemma whole_genl_bytes:
  "20 + length (enc_attrs as) < 2 ^ 30 \<Longrightarrow> whole_msg (genl_bytes ty fl sq pid cmd ver as)"
  using genl_bytes_fields(1) [of "genl_bytes ty fl sq pid cmd ver as" ty fl sq pid cmd ver as "[]"]
    dvd_length_enc_attrs [of as] by (auto simp: whole_msg_def intro: dvd_add)

lemma family_msg_whole:
  assumes "family_ok f"
  shows "whole_msg (family_msg fl sq pid ver f)" "ld16 (family_msg fl sq pid ver f) 4 = Some 16"
    "ld16 (family_msg fl sq pid ver f) 6 = Some fl" "ld32 (family_msg fl sq pid ver f) 8 = Some sq"
proof -
  have len: "20 + length (enc_attrs (family_attrs f)) < 2 ^ 30" using family_attrs_ok(3) [OF assms] by simp
  then show "whole_msg (family_msg fl sq pid ver f)" unfolding family_msg_def by (rule whole_genl_bytes)
  have "family_msg fl sq pid ver f = genl_bytes 16 fl sq pid (ucast CTRL_CMD_NEWFAMILY) ver (family_attrs f) @ []"
    by (simp add: family_msg_def)
  note x = genl_bytes_fields(2-4) [OF this]
  show "ld16 (family_msg fl sq pid ver f) 4 = Some 16"
    "ld16 (family_msg fl sq pid ver f) 6 = Some fl" "ld32 (family_msg fl sq pid ver f) 8 = Some sq"
    using x len by (simp_all add: family_msg_def)
qed

lemma done_msg_whole:
  "whole_msg (done_msg sq pid)" "ld16 (done_msg sq pid) 4 = Some NLMSG_DONE" "ld16 (done_msg sq pid) 6 = Some NLM_F_MULTI"
  "ld32 (done_msg sq pid) 8 = Some sq" "length (done_msg sq pid) = 20"
  by (simp_all add: done_msg_def whole_msg_def msg_at_def nlh_fields_def ld16_def ld32_def)

text \<open>
  What the resolver relies on in the kernel.  \<open>inbox\<close> are the datagrams that wait on the socket,
  \<open>drv\<close> is the rest of the kernel's state that matters to the caller, \<open>linked\<close> holds while the calls
  succeed, and \<open>dump\<close> are the registered families, one list for each datagram.  A dump is not
  acknowledged, although the request asks for it.
\<close>

locale ctrl_link =
  fixes sys :: "'k sys" and msg_size :: u64 and linked :: "'k \<Rightarrow> bool" and drv :: "'k \<Rightarrow> 'd" and inbox :: "'k \<Rightarrow> bytes list"
    and dump :: "genl_family list list"
  assumes sizes: "4096 \<le> unat msg_size" "unat msg_size < 2 ^ 30" "4096 \<le> unat (sys_pagesize sys)"
    and alloc: "linked k \<Longrightarrow> \<exists>k'. sys_alloc sys k = (True, k') \<and> keeps linked drv inbox k k'"
    and recv: "linked k \<Longrightarrow> inbox k = dg # dgs \<Longrightarrow> length dg \<le> unat (sys_pagesize sys) \<Longrightarrow>
      \<exists>k'. sys_recvmsg sys fd (sys_pagesize sys) 0 False k = (Inr (datagram dg kernel_addr), k')
        \<and> linked k' \<and> drv k' = drv k \<and> inbox k' = dgs"
    and dump_ok: "fs \<in> set dump \<Longrightarrow> fs \<noteq> [] \<and> list_all family_ok fs \<and> length (family_datagram 0 0 fs) \<le> 4096"
    and send_dump: "linked k \<Longrightarrow> inbox k = [] \<Longrightarrow>
      \<exists>n k'. sys_sendmsg sys fd dst None (genl_bytes 16 (ucast NLM_F_DUMP OR NLM_F_REQUEST OR NLM_F_ACK) sq pid 3 1 []) k
          = (Inr n, k') \<and> \<not> is_neg n \<and> linked k' \<and> drv k' = drv k
        \<and> inbox k' = map (family_datagram sq pid) dump @ [done_msg sq pid]"
begin

lemma alloc2_ok:
  assumes "linked (kern p)"
  obtains k where "sys_alloc2 sys p = ((True, True), p\<lparr>kern := k\<rparr>)" "keeps linked drv inbox (kern p) k"
proof -
  obtain k1 where k1: "sys_alloc sys (kern p) = (True, k1)" "keeps linked drv inbox (kern p) k1"
    using alloc [OF assms] by blast
  then obtain k2 where "sys_alloc sys k1 = (True, k2)" "keeps linked drv inbox k1 k2"
    using alloc [of k1] by (auto simp: keeps_def)
  with k1 show thesis
    using that [of k2] by (auto simp: sys_alloc2_def keeps_def)
qed

text \<open>
  The loop over the messages of one datagram hands its families to the parser, one after the
  other: \<open>I\<close> is what holds of the library's heap after a number of families.
\<close>

lemma recv_families:
  fixes s :: "((genl_family, 'u) libstate_scheme, 'k) rx"
  assumes "list_all family_ok fs" and "b = pre @ family_datagram sq pid fs" and "length b < 2 ^ 30"
    and "quiet_cb cb" and "cb_set cb NL_CB_VALID = Some (update_msg_parser genl_ctrl_ops params)"
    and "sq = s_seq_expect (rx_sk s)" and "linked (kern (rx_proc s))" and "I gs (lib (rx_user s))"
    and "\<And>f gs h. family_ok f \<Longrightarrow> I gs h \<Longrightarrow>
      \<exists>h'. nl_cache_parse genl_ctrl_ops (family_msg NLM_F_MULTI sq pid 2 f) 0 params h = Some (0, h') \<and> I (gs @ [f]) h'"
  shows "\<exists>s' h'. recv_loop sys cb b nla None (length pre) (word_of_nat (length (family_datagram sq pid fs))) s = Some (None, s')
    \<and> rx_sk s' = rx_sk s \<and> rx_multipart s' = (rx_multipart s \<or> fs \<noteq> []) \<and> keeps linked drv inbox (kern (rx_proc s)) (kern (rx_proc s'))
    \<and> used_ports_map (rx_proc s') = used_ports_map (rx_proc s)
    \<and> rx_user s' = (rx_user s)\<lparr>lib := h'\<rparr> \<and> I (gs @ fs) h'"
  using assms
proof (induction fs arbitrary: pre s gs)
  case Nil
  then have "rx_user s = (rx_user s)\<lparr>lib := lib (rx_user s)\<rparr>" by simp
  with Nil show ?case
    by (intro exI [of _ s] exI [of _ "lib (rx_user s)"]) (simp add: family_datagram_def recv_loop_end keeps_def)
next
  case (Cons f fs)
  let ?m = "family_msg NLM_F_MULTI sq pid 2 f" and ?rest = "family_datagram sq pid fs"
  have ok: "family_ok f" using Cons.prems(1) by simp
  have d: "family_datagram sq pid (f # fs) = ?m @ ?rest" by (simp add: family_datagram_def)
  have b: "b = pre @ ?m @ ?rest" using Cons.prems(2) d by simp
  note w = family_msg_whole [OF ok, of NLM_F_MULTI sq pid 2]
  obtain k where k: "sys_alloc2 sys (rx_proc s) = ((True, True), (rx_proc s)\<lparr>kern := k\<rparr>)"
      "keeps linked drv inbox (kern (rx_proc s)) k"
    using alloc2_ok [OF Cons.prems(7)] by blast
  obtain h1 where h1: "nl_cache_parse genl_ctrl_ops ?m 0 params (lib (rx_user s)) = Some (0, h1)" "I (gs @ [f]) h1"
    using Cons.prems(9) [OF ok Cons.prems(8)] by blast
  define s1 where "s1 = s\<lparr>rx_proc := (rx_proc s)\<lparr>kern := k\<rparr>, rx_multipart := True, rx_user := (rx_user s)\<lparr>lib := h1\<rparr>\<rparr>"
  have parse: "update_msg_parser genl_ctrl_ops params (rcvd_msg ?m (rx_sk s) nla) arg (rx_user s) = Some (0, (rx_user s)\<lparr>lib := h1\<rparr>)" for arg
    using h1(1) by (simp add: update_msg_parser_def rcvd_msg_def)
  have nf: "NLM_F_MULTI AND NLM_F_ACK = 0" "NLM_F_MULTI AND NLM_F_MULTI \<noteq> 0"
    by (simp_all add: NLM_F_MULTI_def NLM_F_ACK_def)
  have rm: "recv_msg sys cb b (length pre) nla None s = Some (None, s1)"
    using recv_msg_quiet [OF w(1) b w(2-4) nf(1) Cons.prems(4,6) k(1), of nla] parse Cons.prems(5) nf
    by (simp add: counted_def nlmsg_type_defs dispatch_msg_def if_set_def NL_CB_CALL_def nl_cb_call_def nl_action_defs s1_def)
  have "\<exists>s' h'. recv_loop sys cb b nla None (length (pre @ ?m)) (word_of_nat (length ?rest)) s1 = Some (None, s')
      \<and> rx_sk s' = rx_sk s1 \<and> rx_multipart s' = (rx_multipart s1 \<or> fs \<noteq> []) \<and> keeps linked drv inbox (kern (rx_proc s1)) (kern (rx_proc s'))
      \<and> used_ports_map (rx_proc s') = used_ports_map (rx_proc s1)
      \<and> rx_user s' = (rx_user s1)\<lparr>lib := h'\<rparr> \<and> I ((gs @ [f]) @ fs) h'"
    by (rule Cons.IH) (use Cons.prems(1,3-7,9) b k(2) h1(2) in \<open>simp_all add: s1_def keeps_def\<close>)
  then obtain s' h' where s': "recv_loop sys cb b nla None (length (pre @ ?m)) (word_of_nat (length ?rest)) s1 = Some (None, s')"
      "rx_sk s' = rx_sk s1" "rx_multipart s' = (rx_multipart s1 \<or> fs \<noteq> [])" "keeps linked drv inbox (kern (rx_proc s1)) (kern (rx_proc s'))"
      "used_ports_map (rx_proc s') = used_ports_map (rx_proc s1)"
      "rx_user s' = (rx_user s1)\<lparr>lib := h'\<rparr>" "I ((gs @ [f]) @ fs) h'"
    by blast
  have "recv_loop sys cb b nla None (length pre) (word_of_nat (length (?m @ ?rest))) s = Some (None, s')"
    using recv_loop_cons [OF w(1) b Cons.prems(3), of sys cb nla None s] rm s'(1) by simp
  then show ?case
    using s'(2-7) k(2) by (intro exI [of _ s'] exI [of _ h']) (simp add: d s1_def keeps_def)
qed

text \<open>The message that ends the dump ends the call, and the next sequence number is expected.\<close>

lemma recv_done:
  fixes s :: "((genl_family, 'u) libstate_scheme, 'k) rx"
  assumes cb: "quiet_cb cb" "cb_set cb NL_CB_FINISH = None" and sk: "s_flags (rx_sk s) = NL_SOCK_BUFSIZE_SET"
    and link: "linked (kern (rx_proc s))" "inbox (kern (rx_proc s)) = [done_msg (s_seq_expect (rx_sk s)) pid]"
  shows "\<exists>s'. recvmsgs_from sys cb s = Some (0, s') \<and> rx_sk s' = (rx_sk s)\<lparr>s_seq_expect := s_seq_expect (rx_sk s) + 1\<rparr>
    \<and> linked (kern (rx_proc s')) \<and> drv (kern (rx_proc s')) = drv (kern (rx_proc s)) \<and> inbox (kern (rx_proc s')) = []
    \<and> used_ports_map (rx_proc s') = used_ports_map (rx_proc s) \<and> rx_user s' = rx_user s"
proof -
  let ?d = "done_msg (s_seq_expect (rx_sk s)) pid"
  note w = done_msg_whole [of "s_seq_expect (rx_sk s)" pid]
  have fits: "length ?d \<le> unat (sys_pagesize sys)" using sizes(3) w(5) by simp
  obtain k where k: "sys_recvmsg sys (s_fd (rx_sk s)) (sys_pagesize sys) 0 False (kern (rx_proc s)) = (Inr (datagram ?d kernel_addr), k)"
      "linked k" "drv k = drv (kern (rx_proc s))" "inbox k = []"
    using recv [OF link fits] by blast
  have fl: "s_flags (rx_sk s) AND NL_SOCK_PASSCRED = 0" "s_flags (rx_sk s) AND NL_MSG_PEEK = 0"
    by (simp_all add: sk nl_flag_defs)
  have ne: "?d \<noteq> []" "length ?d < 2 ^ 30" using w(5) by (auto dest: arg_cong [of _ _ length])
  have nr: "nl_recv sys (rx_sk s) (rx_proc s) = Some ((word_of_nat (length ?d), Some (datagram ?d kernel_addr)), (rx_proc s)\<lparr>kern := k\<rparr>)"
    by (rule nl_recv_datagram [OF k(1) ne fits fl])
  define s1 where "s1 = s\<lparr>rx_proc := (rx_proc s)\<lparr>kern := k\<rparr>\<rparr>"
  obtain k2 where k2: "sys_alloc2 sys (rx_proc s1) = ((True, True), (rx_proc s1)\<lparr>kern := k2\<rparr>)" "keeps linked drv inbox k k2"
    using alloc2_ok [of "rx_proc s1"] k(2) by (auto simp: s1_def)
  have nf: "NLM_F_MULTI AND NLM_F_ACK = 0" by (simp add: NLM_F_MULTI_def NLM_F_ACK_def)
  have sq: "s_seq_expect (rx_sk s) = s_seq_expect (rx_sk s1)" by (simp add: s1_def)
  define s' where "s' = s1\<lparr>rx_proc := (rx_proc s1)\<lparr>kern := k2\<rparr>, rx_multipart := False,
    rx_sk := (rx_sk s)\<lparr>s_seq_expect := s_seq_expect (rx_sk s) + 1\<rparr>\<rparr>"
  have d: "?d = [] @ ?d @ []" by simp
  have "recv_msg sys cb ?d (length ([] :: bytes)) kernel_addr None s1 = Some (None, s')"
    using recv_msg_quiet [OF w(1) d w(2-4) nf cb(1) sq k2(1), of kernel_addr] cb(2)
    by (simp add: counted_def nlmsg_type_defs dispatch_msg_def if_set_def proceed_def s'_def s1_def)
  then have "recv_loop sys cb ?d kernel_addr None 0 (word_of_nat (length ?d)) s1 = Some (None, s')"
    using recv_loop_single [OF w(1), of sys cb kernel_addr None s1] by simp
  then have "recvmsgs_from sys cb s = Some (0, s')"
    using nr by (subst recvmsgs_from.simps) (simp add: s1_def s'_def datagram_def)
  then show ?thesis
    using k k2(2) by (intro exI [of _ s']) (simp add: s'_def s1_def keeps_def)
qed

lemma length_family_datagram: "length (family_datagram sq pid fs) = length (family_datagram 0 0 fs)"
  by (induction fs) (simp_all add: family_datagram_def family_msg_def)

text \<open>The whole dump.\<close>

lemma recv_dump:
  fixes s :: "((genl_family, 'u) libstate_scheme, 'k) rx"
  assumes "\<And>fs. fs \<in> set ds \<Longrightarrow> fs \<noteq> [] \<and> list_all family_ok fs \<and> length (family_datagram 0 0 fs) \<le> 4096"
    and "quiet_cb cb" and "cb_set cb NL_CB_VALID = Some (update_msg_parser genl_ctrl_ops params)" and "cb_set cb NL_CB_FINISH = None"
    and "s_flags (rx_sk s) = NL_SOCK_BUFSIZE_SET" and "sq = s_seq_expect (rx_sk s)"
    and "linked (kern (rx_proc s))" and "inbox (kern (rx_proc s)) = map (family_datagram sq pid) ds @ [done_msg sq pid]"
    and "I gs (lib (rx_user s))"
    and "\<And>f gs h. family_ok f \<Longrightarrow> I gs h \<Longrightarrow>
      \<exists>h'. nl_cache_parse genl_ctrl_ops (family_msg NLM_F_MULTI sq pid 2 f) 0 params h = Some (0, h') \<and> I (gs @ [f]) h'"
  shows "\<exists>s' h'. recvmsgs_from sys cb s = Some (0, s') \<and> rx_sk s' = (rx_sk s)\<lparr>s_seq_expect := s_seq_expect (rx_sk s) + 1\<rparr>
    \<and> linked (kern (rx_proc s')) \<and> drv (kern (rx_proc s')) = drv (kern (rx_proc s)) \<and> inbox (kern (rx_proc s')) = []
    \<and> used_ports_map (rx_proc s') = used_ports_map (rx_proc s)
    \<and> rx_user s' = (rx_user s)\<lparr>lib := h'\<rparr> \<and> I (gs @ concat ds) h'"
  using assms
proof (induction ds arbitrary: s gs)
  case Nil
  have "rx_user s = (rx_user s)\<lparr>lib := lib (rx_user s)\<rparr>" by simp
  then show ?case using recv_done [OF Nil(2,4,5,7), of pid] Nil(6,8,9) by (metis append_Nil append_Nil2 concat.simps(1) list.map(1))
next
  case (Cons fs ds)
  let ?d = "family_datagram sq pid fs"
  have fs: "fs \<noteq> []" "list_all family_ok fs" "length ?d \<le> 4096"
    using Cons.prems(1) [of fs] length_family_datagram [of sq pid fs] by auto
  have inb: "inbox (kern (rx_proc s)) = ?d # map (family_datagram sq pid) ds @ [done_msg sq pid]"
    using Cons.prems(8) by simp
  have fits: "length ?d \<le> unat (sys_pagesize sys)" using sizes(3) fs(3) by simp
  obtain k where k: "sys_recvmsg sys (s_fd (rx_sk s)) (sys_pagesize sys) 0 False (kern (rx_proc s)) = (Inr (datagram ?d kernel_addr), k)"
      "linked k" "drv k = drv (kern (rx_proc s))" "inbox k = map (family_datagram sq pid) ds @ [done_msg sq pid]"
    using recv [OF Cons.prems(7) inb fits] by blast
  have fl: "s_flags (rx_sk s) AND NL_SOCK_PASSCRED = 0" "s_flags (rx_sk s) AND NL_MSG_PEEK = 0"
    using Cons.prems(5) by (simp_all add: nl_flag_defs)
  have ne: "?d \<noteq> []" "length ?d < 2 ^ 30"
    using fs(1,3) by (cases fs; auto simp: family_datagram_def family_msg_def dest: arg_cong [of _ _ length])+
  have nr: "nl_recv sys (rx_sk s) (rx_proc s) = Some ((word_of_nat (length ?d), Some (datagram ?d kernel_addr)), (rx_proc s)\<lparr>kern := k\<rparr>)"
    by (rule nl_recv_datagram [OF k(1) ne fits fl])
  define s1 where "s1 = s\<lparr>rx_proc := (rx_proc s)\<lparr>kern := k\<rparr>\<rparr>"
  have pre: "?d = [] @ family_datagram sq pid fs" by simp
  have s1: "sq = s_seq_expect (rx_sk s1)" "linked (kern (rx_proc s1))" "I gs (lib (rx_user s1))"
    using Cons.prems(6,9) k(2) by (simp_all add: s1_def)
  obtain s2 h2 where s2: "recv_loop sys cb ?d kernel_addr None 0 (word_of_nat (length ?d)) s1 = Some (None, s2)"
    "rx_sk s2 = rx_sk s" "rx_multipart s2" "linked (kern (rx_proc s2))" "drv (kern (rx_proc s2)) = drv (kern (rx_proc s))"
    "inbox (kern (rx_proc s2)) = map (family_datagram sq pid) ds @ [done_msg sq pid]"
    "used_ports_map (rx_proc s2) = used_ports_map (rx_proc s)" "rx_user s2 = (rx_user s)\<lparr>lib := h2\<rparr>" "I (gs @ fs) h2"
    using recv_families [OF fs(2) pre ne(2) Cons.prems(2,3) s1 Cons.prems(10), of kernel_addr] fs(1) k(2-4)
    by (auto simp: keeps_def s1_def)
  have step: "recvmsgs_from sys cb s = recvmsgs_from sys cb s2"
    using nr s2(1,3) by (subst recvmsgs_from.simps) (simp add: s1_def datagram_def)
  have "\<exists>s' h'. recvmsgs_from sys cb s2 = Some (0, s') \<and> rx_sk s' = (rx_sk s2)\<lparr>s_seq_expect := s_seq_expect (rx_sk s2) + 1\<rparr>
    \<and> linked (kern (rx_proc s')) \<and> drv (kern (rx_proc s')) = drv (kern (rx_proc s2)) \<and> inbox (kern (rx_proc s')) = []
    \<and> used_ports_map (rx_proc s') = used_ports_map (rx_proc s2)
    \<and> rx_user s' = (rx_user s2)\<lparr>lib := h'\<rparr> \<and> I ((gs @ fs) @ concat ds) h'"
    by (rule Cons.IH) (use Cons.prems s2 in simp_all)
  then show ?case using step s2(2,5,7,8) by auto
qed

end

section \<open>Resolving a name\<close>

text \<open>The addresses of a program that has called the resolver: only the next address has moved.\<close>

definition bump :: "addr \<Rightarrow> (genl_family, 'u) libstate_scheme \<Rightarrow> (genl_family, 'u) libstate_scheme" where
  "bump n u = u\<lparr>lib := (lib u)\<lparr>h_next := h_next (lib u) + n\<rparr>\<rparr>"

lemma heap_free_bump: "heap_free (lib u) \<Longrightarrow> heap_free (lib (bump n u))"
  by (simp add: heap_free_def bump_def)

text \<open>A socket on which nothing is outstanding and no callback is set.\<close>

definition answers :: "'u nl_sock \<Rightarrow> bool" where
  "answers sk \<longleftrightarrow> s_cb sk = silent_cb \<and> s_flags sk = NL_SOCK_BUFSIZE_SET \<and> s_seq_next sk = s_seq_expect sk"

context ctrl_link
begin

lemma pickup_with:
  fixes u :: "(genl_family, 'u) libstate_scheme"
  assumes sk: "s_cb sk = silent_cb" "s_flags sk = NL_SOCK_BUFSIZE_SET" "sq = s_seq_expect sk"
    and link: "linked (kern p)" "inbox (kern p) = map (family_datagram sq pid) dump @ [done_msg sq pid]"
    and I: "I [] (lib u)"
    and step: "\<And>f gs h. family_ok f \<Longrightarrow> I gs h \<Longrightarrow>
      \<exists>h'. nl_cache_parse genl_ctrl_ops (family_msg NLM_F_MULTI sq pid 2 f) 0 params h = Some (0, h') \<and> I (gs @ [f]) h'"
  shows "\<exists>p' h. cache_pickup genl_ctrl_ops sys sk params u p = Some (0, sk\<lparr>s_seq_expect := s_seq_expect sk + 1\<rparr>, u\<lparr>lib := h\<rparr>, p')
    \<and> linked (kern p') \<and> drv (kern p') = drv (kern p) \<and> inbox (kern p') = [] \<and> used_ports_map p' = used_ports_map p
    \<and> I (concat dump) h"
proof -
  obtain k where k: "sys_alloc sys (kern p) = (True, k)" "keeps linked drv inbox (kern p) k"
    using alloc [OF link(1)] by blast
  define cb :: "(genl_family, 'u) libstate_scheme nl_cb" where
    "cb = snd (nl_cb_set silent_cb NL_CB_VALID NL_CB_CUSTOM (Some (update_msg_parser genl_ctrl_ops params)) 0)"
  have cb: "quiet_cb cb" "cb_set cb NL_CB_VALID = Some (update_msg_parser genl_ctrl_ops params)" "cb_set cb NL_CB_FINISH = None"
      "cb_refcnt cb = 1" and cl: "nl_cb_clone True silent_cb = Some (silent_cb :: (genl_family, 'u) libstate_scheme nl_cb)"
    by (simp_all add: cb_def nl_cb_set_def silent_cb_def quiet_cb_def nl_cb_clone_def nl_cb_alloc_default)
  define s where "s = \<lparr>rx_sk = sk, rx_multipart = False, rx_user = u, rx_proc = p\<lparr>kern := k\<rparr>\<rparr>"
  have "\<exists>s' h'. recvmsgs_from sys cb s = Some (0, s') \<and> rx_sk s' = (rx_sk s)\<lparr>s_seq_expect := s_seq_expect (rx_sk s) + 1\<rparr>
    \<and> linked (kern (rx_proc s')) \<and> drv (kern (rx_proc s')) = drv (kern (rx_proc s)) \<and> inbox (kern (rx_proc s')) = []
    \<and> used_ports_map (rx_proc s') = used_ports_map (rx_proc s)
    \<and> rx_user s' = (rx_user s)\<lparr>lib := h'\<rparr> \<and> I ([] @ concat dump) h'"
    by (rule recv_dump [where pid = pid and sq = sq and I = I, OF dump_ok cb(1-3) _ _ _ _ _ step])
      (use sk link I k(2) in \<open>simp_all add: s_def keeps_def\<close>)
  then obtain s' h' where s': "recvmsgs_from sys cb s = Some (0, s')" "rx_sk s' = sk\<lparr>s_seq_expect := s_seq_expect sk + 1\<rparr>"
    "linked (kern (rx_proc s'))" "drv (kern (rx_proc s')) = drv (kern p)" "inbox (kern (rx_proc s')) = []"
    "used_ports_map (rx_proc s') = used_ports_map p" "rx_user s' = u\<lparr>lib := h'\<rparr>" "I (concat dump) h'"
    using k(2) by (auto simp: s_def keeps_def)
  then show ?thesis
    using k(1) cl nl_cb_put_last [OF cb(4)]
    by (intro exI [of _ "rx_proc s'"] exI [of _ h'])
      (simp add: cache_pickup_def sk(1) nl_recvmsgs_def recvmsgs_def s_def flip: cb_def)
qed

lemma cache_pickup_ok:
  fixes u :: "(genl_family, 'u) libstate_scheme"
  assumes sk: "s_cb sk = silent_cb" "s_flags sk = NL_SOCK_BUFSIZE_SET" "sq = s_seq_expect sk"
    and link: "linked (kern p)" "inbox (kern p) = map (family_datagram sq pid) dump @ [done_msg sq pid]"
    and h: "filled c [] [] h0 (lib u)" "heap_free h0"
  shows "\<exists>p' as h. nl_cache_pickup genl_family_ops genl_ctrl_ops sys sk c u p = Some (0, sk\<lparr>s_seq_expect := s_seq_expect sk + 1\<rparr>, u\<lparr>lib := h\<rparr>, p')
    \<and> linked (kern p') \<and> drv (kern p') = drv (kern p) \<and> inbox (kern p') = [] \<and> used_ports_map p' = used_ports_map p
    \<and> filled c as (concat dump) h0 h"
proof -
  have "\<exists>p' h. cache_pickup genl_ctrl_ops sys sk (pickup_cb genl_family_ops c) u p = Some (0, sk\<lparr>s_seq_expect := s_seq_expect sk + 1\<rparr>, u\<lparr>lib := h\<rparr>, p')
    \<and> linked (kern p') \<and> drv (kern p') = drv (kern p) \<and> inbox (kern p') = [] \<and> used_ports_map p' = used_ports_map p
    \<and> (\<exists>as. filled c as (concat dump) h0 h)"
  proof (rule pickup_with [OF sk link, of "\<lambda>gs h. \<exists>as. filled c as gs h0 h"])
    fix f gs h
    assume f: "family_ok f" and "\<exists>as. filled c as gs h0 h"
    then obtain as where fl: "filled c as gs h0 h" by blast
    then have ca: "h_caches h c = Some \<lparr>c_items = as, c_nitems = word_of_nat (length as)\<rparr>" "\<forall>x. h_grants h x"
      using h(2) by (simp_all add: filled_def heap_free_def)
    show "\<exists>h'. nl_cache_parse genl_ctrl_ops (family_msg NLM_F_MULTI sq pid 2 f) 0 (pickup_cb genl_family_ops c) h = Some (0, h')
        \<and> (\<exists>as. filled c as (gs @ [f]) h0 h')"
      using nl_cache_parse_family [OF f refl ca(2,1)] filled_picked [OF fl h(2)] by blast
  qed (use h(1) in blast)
  then show ?thesis by (auto simp: nl_cache_pickup_def)
qed

lemma request_dump_ok:
  fixes u :: "(genl_family, 'u) libstate_scheme"
  assumes sk: "answers sk" and link: "linked (kern p)" "inbox (kern p) = []"
  obtains n k where "nl_cache_request_full_dump (Some (ctrl_request_update sys msg_size)) sk u p = Some (n, sk\<lparr>s_seq_next := s_seq_next sk + 1\<rparr>, u, p\<lparr>kern := k\<rparr>)"
    "\<not> is_neg n" "linked k" "drv k = drv (kern p)"
    "inbox k = map (family_datagram (s_seq_next sk) (nl_pid (s_local sk))) dump @ [done_msg (s_seq_next sk) (nl_pid (s_local sk))]"
proof -
  obtain k1 where k1: "sys_alloc2 sys p = ((True, True), p\<lparr>kern := k1\<rparr>)" "keeps linked drv inbox (kern p) k1"
    using alloc2_ok [OF link(1)] by blast
  obtain n k2 where k2: "sys_sendmsg sys (s_fd sk) (s_peer sk) None (genl_bytes 16 (ucast NLM_F_DUMP OR NLM_F_REQUEST OR NLM_F_ACK)
        (s_seq_next sk) (nl_pid (s_local sk)) 3 1 []) k1 = (Inr n, k2)" "\<not> is_neg n" "linked k2" "drv k2 = drv k1"
      "inbox k2 = map (family_datagram (s_seq_next sk) (nl_pid (s_local sk))) dump @ [done_msg (s_seq_next sk) (nl_pid (s_local sk))]"
    using send_dump [of k1 "s_fd sk" "s_peer sk" "s_seq_next sk" "nl_pid (s_local sk)"] k1(2) link by (auto simp: keeps_def)
  have sz: "20 \<le> unat msg_size" using sizes by simp
  have sk': "s_flags sk AND NL_NO_AUTO_ACK = 0" "cb_set (s_cb sk) NL_CB_MSG_OUT = None"
    using sk by (simp_all add: answers_def nl_flag_defs silent_cb_def)
  have "nl_cache_request_full_dump (Some (ctrl_request_update sys msg_size)) sk u p = Some (n, sk\<lparr>s_seq_next := s_seq_next sk + 1\<rparr>, u, p\<lparr>kern := k2\<rparr>)"
    unfolding nl_cache_request_full_dump_def ctrl_request_update_def
    using genl_send_simple_ok [OF sz sizes(2) k1(1) sk', of GENL_ID_CTRL NLM_F_DUMP CTRL_CMD_GETFAMILY CTRL_VERSION n k2] k2(1)
    by (simp add: GENL_ID_CTRL_def CTRL_CMD_GETFAMILY_def CTRL_VERSION_def)
  then show thesis using that [of n k2] k2 k1(2) by (simp add: keeps_def)
qed

lemma alloc_and_fill_ok:
  fixes u :: "(genl_family, 'u) libstate_scheme"
  assumes sk: "answers sk" and link: "linked (kern p)" "inbox (kern p) = []" and h: "heap_free (lib u)"
  shows "\<exists>p' as h. genl_ctrl_alloc_cache sys msg_size sk u p
      = Some (0, Some (h_next (lib u)), sk\<lparr>s_seq_next := s_seq_next sk + 1, s_seq_expect := s_seq_expect sk + 1\<rparr>, u\<lparr>lib := h\<rparr>, p')
    \<and> keeps linked drv inbox (kern p) (kern p') \<and> used_ports_map p' = used_ports_map p
    \<and> filled (h_next (lib u)) as (concat dump) (lib u) h"
proof -
  let ?c = "h_next (lib u)"
  define h1 where "h1 = set_cache ?c \<lparr>c_items = [], c_nitems = 0\<rparr> ((lib u)\<lparr>h_next := ?c + 1\<rparr>)"
  have al: "nl_cache_alloc (lib u) = (Some ?c, h1)"
    using h by (simp add: nl_cache_alloc_def h_alloc_def heap_free_def h1_def)
  have clr: "nl_cache_clear genl_family_ops ?c h1 = Some h1"
    by (simp add: nl_cache_clear_def h1_def set_cache_def)
  have fill: "filled ?c [] [] (lib u) (lib (u\<lparr>lib := h1\<rparr>))"
    by (simp add: filled_def h1_def set_cache_def)
  obtain n k2 where k2: "nl_cache_request_full_dump (Some (ctrl_request_update sys msg_size)) sk (u\<lparr>lib := h1\<rparr>) p
      = Some (n, sk\<lparr>s_seq_next := s_seq_next sk + 1\<rparr>, u\<lparr>lib := h1\<rparr>, p\<lparr>kern := k2\<rparr>)" "\<not> is_neg n" "linked k2" "drv k2 = drv (kern p)"
      "inbox k2 = map (family_datagram (s_seq_next sk) (nl_pid (s_local sk))) dump @ [done_msg (s_seq_next sk) (nl_pid (s_local sk))]"
    by (rule request_dump_ok [OF sk link])
  obtain p' as h2 where pick: "nl_cache_pickup genl_family_ops genl_ctrl_ops sys (sk\<lparr>s_seq_next := s_seq_next sk + 1\<rparr>) ?c (u\<lparr>lib := h1\<rparr>) (p\<lparr>kern := k2\<rparr>)
      = Some (0, sk\<lparr>s_seq_next := s_seq_next sk + 1, s_seq_expect := s_seq_expect sk + 1\<rparr>, u\<lparr>lib := h2\<rparr>, p')"
    "linked (kern p')" "drv (kern p') = drv k2" "inbox (kern p') = []" "used_ports_map p' = used_ports_map p"
    "filled ?c as (concat dump) (lib u) h2"
    using cache_pickup_ok [where sk = "sk\<lparr>s_seq_next := s_seq_next sk + 1\<rparr>" and p = "p\<lparr>kern := k2\<rparr>"
        and u = "u\<lparr>lib := h1\<rparr>" and c = ?c and sq = "s_seq_next sk" and pid = "nl_pid (s_local sk)", OF _ _ _ _ _ fill h] sk k2(3,5)
    by (auto simp: answers_def)
  show ?thesis
    using al k2(1,2,4) clr pick link
    by (intro exI [of _ p'] exI [of _ as] exI [of _ h2])
      (simp add: genl_ctrl_alloc_cache_def nl_cache_alloc_and_fill_def nl_cache_refill_def keeps_def)
qed

lemma free_dump:
  assumes f: "filled (h_next (lib u)) as (concat dump) (lib u) h1" and h: "heap_free (lib u)"
  shows "nl_cache_free genl_family_ops (Some (h_next (lib u))) h1 = Some (lib (bump (h_next h1 - h_next (lib u)) u))"
    "u\<lparr>lib := lib (bump n u)\<rparr> = bump n u"
proof -
  have c: "h_next (lib u) \<le> h_next h1" "h_caches (lib u) (h_next (lib u)) = None"
    using f h by (simp_all add: filled_def heap_free_def)
  have "list_all family_ok (concat dump)" using dump_ok by (auto simp: list_all_iff)
  from free_filled [OF f c(2) this] show "nl_cache_free genl_family_ops (Some (h_next (lib u))) h1 = Some (lib (bump (h_next h1 - h_next (lib u)) u))"
    using c(1) by (simp add: bump_def)
qed (simp add: bump_def)

lemma with_family_ok:
  fixes u :: "(genl_family, 'u) libstate_scheme"
  assumes sk: "answers sk" and link: "linked (kern p)" "inbox (kern p) = []" and h: "heap_free (lib u)"
    and ans: "\<And>a f h. f \<in> set (concat dump) \<Longrightarrow> h_objs h a = Some ((cached (h_next (lib u)) f)\<lparr>ce_refcnt := 2\<rparr>) \<Longrightarrow> answer a h = Some (g f)"
  shows "\<exists>p' n. with_family sys msg_size sk str answer u p
      = Some (case find (\<lambda>f. str = gf_name f) (concat dump) of None \<Rightarrow> - NLE_OBJ_NOTFOUND | Some f \<Rightarrow> g f,
          sk\<lparr>s_seq_next := s_seq_next sk + 1, s_seq_expect := s_seq_expect sk + 1\<rparr>, bump n u, p')
    \<and> keeps linked drv inbox (kern p) (kern p') \<and> used_ports_map p' = used_ports_map p"
proof -
  let ?c = "h_next (lib u)" and ?fs = "concat dump"
  obtain p' as h1 where f: "genl_ctrl_alloc_cache sys msg_size sk u p
      = Some (0, Some ?c, sk\<lparr>s_seq_next := s_seq_next sk + 1, s_seq_expect := s_seq_expect sk + 1\<rparr>, u\<lparr>lib := h1\<rparr>, p')"
      "keeps linked drv inbox (kern p) (kern p')" "used_ports_map p' = used_ports_map p" "filled ?c as ?fs (lib u) h1"
    using alloc_and_fill_ok [OF sk link h] by blast
  have ca: "h_caches h1 ?c = Some \<lparr>c_items = as, c_nitems = word_of_nat (length as)\<rparr>"
    using f(4) by (simp add: filled_def)
  note free = free_dump [OF f(4) h]
  have srch: "genl_ctrl_search_by_name ?c str h1 = find_family (\<lambda>f. str = gf_name f) h1 as"
    using ca by (simp add: genl_ctrl_search_by_name_def)
  note fnd = find_family_filled [OF filled_objs [OF f(4)], of "\<lambda>f. str = gf_name f"]
  have "with_family sys msg_size sk str answer u p
      = Some (case find (\<lambda>f. str = gf_name f) ?fs of None \<Rightarrow> - NLE_OBJ_NOTFOUND | Some f \<Rightarrow> g f,
          sk\<lparr>s_seq_next := s_seq_next sk + 1, s_seq_expect := s_seq_expect sk + 1\<rparr>, bump (h_next h1 - ?c) u, p')"
  proof (cases "find (\<lambda>f. str = gf_name f) ?fs")
    case None
    then have "find_family (\<lambda>f. str = gf_name f) h1 as = Some (None, h1)" using fnd by simp
    then show ?thesis using None f(1) srch free by (simp add: with_family_def)
  next
    case (Some f0)
    then obtain a where a: "h_objs h1 a = Some (cached ?c f0)"
      "find_family (\<lambda>f. str = gf_name f) h1 as = Some (Some a, set_obj a ((cached ?c f0)\<lparr>ce_refcnt := 2\<rparr>) h1)"
      using fnd by auto
    have "f0 \<in> set ?fs" using Some by (auto simp: find_Some_iff simp del: set_concat)
    then have "answer a (set_obj a ((cached ?c f0)\<lparr>ce_refcnt := 2\<rparr>) h1) = Some (g f0)"
      by (rule ans) (simp add: set_obj_def)
    moreover have "genl_family_put (Some a) (set_obj a ((cached ?c f0)\<lparr>ce_refcnt := 2\<rparr>) h1) = Some h1"
      using a(1) by (simp add: genl_family_put_def nl_object_put_def put_with_def set_obj_def cached_def family_obj_def fun_upd_idem)
    ultimately show ?thesis using Some f(1) srch free a(2) by (simp add: with_family_def)
  qed
  then show ?thesis using f(2,3) by blast
qed

text \<open>The two resolvers.\<close>

lemma resolve_ok:
  fixes u :: "(genl_family, 'u) libstate_scheme"
  assumes "answers sk" and "linked (kern p)" "inbox (kern p) = []" and "heap_free (lib u)"
  shows "\<exists>p' n. genl_ctrl_resolve sys msg_size sk str u p
      = Some (case find (\<lambda>f. str = gf_name f) (concat dump) of None \<Rightarrow> - NLE_OBJ_NOTFOUND | Some f \<Rightarrow> ucast (gf_id f),
          sk\<lparr>s_seq_next := s_seq_next sk + 1, s_seq_expect := s_seq_expect sk + 1\<rparr>, bump n u, p')
    \<and> keeps linked drv inbox (kern p) (kern p') \<and> used_ports_map p' = used_ports_map p"
  unfolding genl_ctrl_resolve_def
  by (rule with_family_ok [OF assms]) (rule get_id_cached)

lemma resolve_grp_ok:
  fixes u :: "(genl_family, 'u) libstate_scheme"
  assumes "answers sk" and "linked (kern p)" "inbox (kern p) = []" and "heap_free (lib u)"
  shows "\<exists>p' n. genl_ctrl_resolve_grp sys msg_size sk str grp u p
      = Some (case find (\<lambda>f. str = gf_name f) (concat dump) of None \<Rightarrow> - NLE_OBJ_NOTFOUND
          | Some f \<Rightarrow> (case find (\<lambda>g. snd g = grp) (gf_mc_grps f) of None \<Rightarrow> 0 | Some g \<Rightarrow> fst g),
          sk\<lparr>s_seq_next := s_seq_next sk + 1, s_seq_expect := s_seq_expect sk + 1\<rparr>, bump n u, p')
    \<and> keeps linked drv inbox (kern p) (kern p') \<and> used_ports_map p' = used_ports_map p"
  unfolding genl_ctrl_resolve_grp_def
  by (rule with_family_ok [OF assms]) (simp add: genl_ctrl_grp_by_name_def cached_def family_obj_def)

end

text \<open>
  Claim C6.  Resolving a family name: against a kernel that answers the controller's dump request,
  \<open>genl_ctrl_resolve\<close> returns the number of the first registered family with that name, or the
  error for a missing object, whatever the number of families and datagrams; no datagram is left
  waiting, the sequence numbers agree again, and every object and cache it has allocated is freed.
\<close>

theorem resolve_family_name:
  fixes u :: "(genl_family, 'u) libstate_scheme" and sk :: "(genl_family, 'u) libstate_scheme nl_sock"
  assumes link: "ctrl_link sys msg_size linked drv inbox dump" and k: "linked (kern p)" "inbox (kern p) = []"
    and sk: "s_cb sk = silent_cb" "s_flags sk = NL_SOCK_BUFSIZE_SET" "s_seq_next sk = s_seq_expect sk"
    and h: "heap_free (lib u)"
  shows "\<exists>u' p'. genl_ctrl_resolve sys msg_size sk str u p
      = Some (case find (\<lambda>f. str = gf_name f) (concat dump) of None \<Rightarrow> - NLE_OBJ_NOTFOUND | Some f \<Rightarrow> ucast (gf_id f),
          sk\<lparr>s_seq_next := s_seq_next sk + 1, s_seq_expect := s_seq_expect sk + 1\<rparr>, u', p')
    \<and> inbox (kern p') = [] \<and> drv (kern p') = drv (kern p)
    \<and> h_objs (lib u') = h_objs (lib u) \<and> h_caches (lib u') = h_caches (lib u)"
proof -
  have "answers sk" using sk by (simp add: answers_def)
  then show ?thesis
    using ctrl_link.resolve_ok [OF link _ k h, of sk str] k(2) by (fastforce simp: bump_def keeps_def)
qed

end
