(* ===== verification/NF10_RegLib.thy ===== *)
theory NF10_RegLib
  imports NL_Resolve NF10_Genl
begin

text \<open>
  The register access library (\<^verbatim>\<open>nf10_reg_lib.c\<close>) on top of the netlink library, and the
  example programs of \<^verbatim>\<open>apps/libnf10reg_example\<close>.  The memory of the program is the heap of the
  netlink library and the map from addresses to 32-bit variables that the callbacks write to.
\<close>

section \<open>Connecting\<close>

record umem = "genl_family libstate" +
  mem :: "addr \<Rightarrow> u32"

definition store :: "addr \<Rightarrow> u32 \<Rightarrow> umem \<Rightarrow> umem" where
  "store a v u = u\<lparr>mem := (mem u)(a := v)\<rparr>"

text \<open>What the programs get from their environment.\<close>

record 'k env =
  env_sys :: "'k sys"
  default_cb :: nl_cb_kind
  default_msg_size :: u64

definition NF10_GENL_FAMILY_NAME :: bytes where "NF10_GENL_FAMILY_NAME = map of_char ''NF10_ETH_DRIVER''"
definition NF10_GENL_FAMILY_VERSION :: u8 where "NF10_GENL_FAMILY_VERSION = 1"

text \<open>The second component is the socket and the family number, when the connection is there.\<close>

definition driver_connect ::
  "'k env \<Rightarrow> (genl_family, 'u) libstate_scheme \<Rightarrow> 'k proc
     \<Rightarrow> (i32 \<times> ((genl_family, 'u) libstate_scheme nl_sock \<times> i32) option \<times> (genl_family, 'u) libstate_scheme \<times> 'k proc) option" where
  "driver_connect env u p = do {
     (sk, p) \<leftarrow> nl_socket_alloc (env_sys env) (default_cb env) p;
     (case sk of
        None \<Rightarrow> Some (- NLE_NOMEM, None, u, p)
      | Some sk \<Rightarrow>
         (let (err, sk, p) = genl_connect (env_sys env) sk p in
          if err \<noteq> 0 then do {
            p \<leftarrow> nl_socket_free (env_sys env) (Some sk) p;
            Some (err, None, u, p)
          }
          else do {
            (family, sk, u, p) \<leftarrow> genl_ctrl_resolve (env_sys env) (default_msg_size env) sk NF10_GENL_FAMILY_NAME u p;
            if is_neg family then do {
              p \<leftarrow> nl_socket_free (env_sys env) (Some sk) p;
              Some (family, None, u, p)
            }
            else Some (0, Some (sk, family), u, p)
          }))
   }"

definition driver_disconnect :: "'k env \<Rightarrow> 'u nl_sock \<Rightarrow> 'k proc \<Rightarrow> 'k proc option" where
  "driver_disconnect env sk p = nl_socket_free (env_sys env) (Some sk) p"

section \<open>Register reads\<close>

text \<open>
  The array \<^verbatim>\<open>attrs\<close> of a callback is not initialised and the result of \<open>genlmsg_parse\<close> is
  ignored: \<open>stack\<close> is what the array holds if the message is too short.
\<close>

definition parse_reply :: "attr_table \<Rightarrow> nl_msg \<Rightarrow> attr_table option" where
  "parse_reply stack msg = do {
     (_, attrs) \<leftarrow> genlmsg_parse (nlmsg_hdr msg) 0 0 stack (word_of_nat NF10_GENL_A_MAX) None;
     Some attrs
   }"

definition nf10_reg_rd_recv_msg_cb :: "attr_table \<Rightarrow> umem msg_cb" where
  "nf10_reg_rd_recv_msg_cb stack msg val_ptr u = do {
     attrs \<leftarrow> parse_reply stack msg;
     (case attrs NF10_GENL_A_ERRNO of
        None \<Rightarrow> Some (- NLE_NOATTR, u)
      | Some na_errno \<Rightarrow> do {
          err \<leftarrow> ld32 (nlmsg_hdr msg) (nla_data na_errno);
          if err \<noteq> 0 then Some (err, u)
          else
            (case attrs NF10_GENL_A_REGVAL32 of
               None \<Rightarrow> Some (- NLE_NOATTR, u)
             | Some na_regval \<Rightarrow> do {
                 v \<leftarrow> ld32 (nlmsg_hdr msg) (nla_data na_regval);
                 Some (0, store val_ptr v u)
               })
        })
   }"

definition nf10_reg_rd ::
  "'k env \<Rightarrow> attr_table \<Rightarrow> u32 \<Rightarrow> addr \<Rightarrow> umem \<Rightarrow> 'k proc \<Rightarrow> (i32 \<times> umem \<times> 'k proc) option" where
  "nf10_reg_rd env stack addr val_ptr u p = do {
     (err, conn, u, p) \<leftarrow> driver_connect env u p;
     (case conn of
        None \<Rightarrow> Some (err, u, p)
      | Some (sk, family) \<Rightarrow>
         (let ((ok1, ok2), p) = sys_alloc2 (env_sys env) p in do {
            msg \<leftarrow> nlmsg_alloc ok1 ok2 (default_msg_size env);
            (case msg of
               None \<Rightarrow> do { p \<leftarrow> driver_disconnect env sk p; Some (- NLE_NOMEM, u, p) }
             | Some msg \<Rightarrow> do {
                 (_, msg) \<leftarrow> genlmsg_put msg 0 0 family 0 0
                   (word_of_nat NF10_GENL_C_REG_RD) NF10_GENL_FAMILY_VERSION;
                 (_, msg) \<leftarrow> nla_put_u32 msg (word_of_nat NF10_GENL_A_ADDR32) addr;
                 (err, sk, msg, u, p) \<leftarrow> nl_send_auto (env_sys env) sk msg u p;
                 _ \<leftarrow> nlmsg_free (Some msg);
                 if is_neg err then do { p \<leftarrow> driver_disconnect env sk p; Some (err, u, p) }
                 else do {
                   let (_, sk) = nl_socket_modify_cb sk NL_CB_VALID NL_CB_CUSTOM
                     (Some (nf10_reg_rd_recv_msg_cb stack)) val_ptr;
                   (err, sk, u, p) \<leftarrow> nl_recvmsgs_default (env_sys env) sk u p;
                   p \<leftarrow> driver_disconnect env sk p;
                   Some (err, u, p)
                 }
               })
          }))
   }"

section \<open>Register writes\<close>

definition nf10_reg_wr_recv_ack_cb :: "attr_table \<Rightarrow> umem msg_cb" where
  "nf10_reg_wr_recv_ack_cb stack msg arg u = do {
     attrs \<leftarrow> parse_reply stack msg;
     (case attrs NF10_GENL_A_ERRNO of
        None \<Rightarrow> Some (- NLE_NOATTR, u)
      | Some na_errno \<Rightarrow> do {
          err \<leftarrow> ld32 (nlmsg_hdr msg) (nla_data na_errno);
          Some (err, u)
        })
   }"

definition nf10_reg_wr ::
  "'k env \<Rightarrow> attr_table \<Rightarrow> u32 \<Rightarrow> u32 \<Rightarrow> umem \<Rightarrow> 'k proc \<Rightarrow> (i32 \<times> umem \<times> 'k proc) option" where
  "nf10_reg_wr env stack addr val u p = do {
     (err, conn, u, p) \<leftarrow> driver_connect env u p;
     (case conn of
        None \<Rightarrow> Some (err, u, p)
      | Some (sk, family) \<Rightarrow>
         (let ((ok1, ok2), p) = sys_alloc2 (env_sys env) p in do {
            msg \<leftarrow> nlmsg_alloc ok1 ok2 (default_msg_size env);
            (case msg of
               None \<Rightarrow> do { p \<leftarrow> driver_disconnect env sk p; Some (- NLE_NOMEM, u, p) }
             | Some msg \<Rightarrow> do {
                 (_, msg) \<leftarrow> genlmsg_put msg 0 0 family 0 0
                   (word_of_nat NF10_GENL_C_REG_WR) NF10_GENL_FAMILY_VERSION;
                 (_, msg) \<leftarrow> nla_put_u32 msg (word_of_nat NF10_GENL_A_ADDR32) addr;
                 (_, msg) \<leftarrow> nla_put_u32 msg (word_of_nat NF10_GENL_A_REGVAL32) val;
                 (err, sk, msg, u, p) \<leftarrow> nl_send_auto (env_sys env) sk msg u p;
                 _ \<leftarrow> nlmsg_free (Some msg);
                 if is_neg err then do { p \<leftarrow> driver_disconnect env sk p; Some (err, u, p) }
                 else do {
                   let (_, sk) = nl_socket_modify_cb sk NL_CB_ACK NL_CB_CUSTOM
                     (Some (nf10_reg_wr_recv_ack_cb stack)) 0;
                   (err, sk, u, p) \<leftarrow> nl_recvmsgs_default (env_sys env) sk u p;
                   p \<leftarrow> driver_disconnect env sk p;
                   Some (err, u, p)
                 }
               })
          }))
   }"

section \<open>The example programs\<close>

text \<open>
  The loops of \<^verbatim>\<open>rd.c\<close> and \<^verbatim>\<open>wr.c\<close> count from 4 in steps of 4 while the counter, an \<^verbatim>\<open>int\<close>, is not 0.  What a program does
  after an addition that overflows is not defined in C, so that the model stops there.  Each line printed is the counter with the
  error text or the value.
\<close>

datatype loop_end = Returned | Overflowed

type_synonym output_line = "u32 \<times> (string + u32)"

definition example_line :: "u32 \<Rightarrow> i32 \<Rightarrow> u32 \<Rightarrow> output_line option" where
  "example_line i err x =
     (if err \<noteq> 0 then do { s \<leftarrow> nl_geterror err; Some (i, Inl s) } else Some (i, Inr x))"

lemma sint_add_4: "sint (i :: i32) + 4 < 2 ^ 31 \<Longrightarrow> sint (i + 4) = sint i + 4"
  using sint_ge [of i] by (simp add: sint_word_ariths signed_take_bit_int_eq_self)

function example_loop ::
  "(i32 \<Rightarrow> 's \<Rightarrow> (output_line \<times> 's) option) \<Rightarrow> i32 \<Rightarrow> 's \<Rightarrow> (output_line list \<times> loop_end \<times> 's) option" where
  "example_loop step i s =
    (if i = 0 then Some ([], Returned, s)
     else do {
       (l, s) \<leftarrow> step i s;
       if 2 ^ 31 \<le> sint i + 4 then Some ([l], Overflowed, s)
       else do {
         (ls, e, s) \<leftarrow> example_loop step (i + 4) s;
         Some (l # ls, e, s)
       }
     })"
  by pat_completeness auto

termination
  by (relation "measure (\<lambda>(step, i, s). nat (2 ^ 31 - sint i))") (use sint_add_4 in \<open>auto simp: not_le\<close>)

declare example_loop.simps [simp del]

text \<open>\<open>x\<close> is the address of the variable the value is read into.\<close>

definition rd_step :: "'k env \<Rightarrow> attr_table \<Rightarrow> addr \<Rightarrow> u32 \<Rightarrow> umem \<times> 'k proc \<Rightarrow> (output_line \<times> umem \<times> 'k proc) option" where
  "rd_step env stack x i s = do {
     (err, u, p) \<leftarrow> nf10_reg_rd env stack i x (fst s) (snd s);
     l \<leftarrow> example_line i err (mem u x);
     Some (l, u, p)
   }"

definition rd_main :: "'k env \<Rightarrow> attr_table \<Rightarrow> addr \<Rightarrow> umem \<Rightarrow> 'k proc \<Rightarrow> (output_line list \<times> loop_end \<times> umem \<times> 'k proc) option" where
  "rd_main env stack x u p = example_loop (rd_step env stack x) 4 (u, p)"

definition wr_step :: "'k env \<Rightarrow> attr_table \<Rightarrow> u32 \<Rightarrow> umem \<times> 'k proc \<Rightarrow> (output_line \<times> umem \<times> 'k proc) option" where
  "wr_step env stack i s = do {
     (err, u, p) \<leftarrow> nf10_reg_wr env stack i i (fst s) (snd s);
     l \<leftarrow> example_line i err i;
     Some (l, u, p)
   }"

definition wr_main :: "'k env \<Rightarrow> attr_table \<Rightarrow> umem \<Rightarrow> 'k proc \<Rightarrow> (output_line list \<times> loop_end \<times> umem \<times> 'k proc) option" where
  "wr_main env stack u p = example_loop (wr_step env stack) 4 (u, p)"

section \<open>The link to the driver\<close>

text \<open>Datagrams of the kernel: a reply of a handler and the acknowledgement of a request.\<close>

definition attrs16 :: "nl_attrs \<Rightarrow> (u16 \<times> bytes) list" where
  "attrs16 = map (\<lambda>(t, d). (word_of_nat t, d))"

definition reply_bytes :: "u16 \<Rightarrow> u32 \<Rightarrow> u32 \<Rightarrow> nat \<times> nl_attrs \<Rightarrow> bytes" where
  "reply_bytes fam sq pid = (\<lambda>(cmd, attrs). genl_bytes fam 0 sq pid (word_of_nat cmd) NF10_GENL_FAMILY_VERSION (attrs16 attrs))"

definition ack_bytes :: "i32 \<Rightarrow> u32 \<Rightarrow> u32 \<Rightarrow> bytes \<Rightarrow> bytes" where
  "ack_bytes err sq pid request = msg_at 36 (nlh_fields NLMSG_ERROR 0 sq pid @ le32 err @ take 16 request)"

definition request_info :: "(u16 \<times> bytes) list \<Rightarrow> genl_info" where
  "request_info as t = (if 0 < t \<and> t \<le> NF10_GENL_A_MAX then map_of (rev as) (word_of_nat t) else None)"

text \<open>
  What the programs rely on in the kernel.  \<open>drv\<close> is the state of the driver in a kernel
  state, \<open>inbox\<close> the datagrams that wait on the socket, \<open>linked\<close> holds while the calls of the
  programs succeed, and \<open>serve\<close> is the driver as the kernel calls it: return code, replies and
  new state for a command with its attributes.
\<close>

definition port_free :: "u32 \<Rightarrow> u32 list \<Rightarrow> bool" where
  "port_free pid m \<longleftrightarrow> length m = 32 \<and> fst (generate_local_port pid m) \<noteq> UINT_MAX"

definition connected :: "'u nl_sock \<Rightarrow> bool" where
  "connected sk \<longleftrightarrow> s_cb sk = silent_cb \<and> s_flags sk = NL_SOCK_BUFSIZE_SET
     \<and> s_seq_next sk = s_seq_expect sk \<and> \<not> is_neg (s_fd sk)"

text \<open>What the table of a parsed reply says about a 32-bit attribute.\<close>

lemma parse_reply_received:
  assumes "list_all attr_ok as" and "20 + length (enc_attrs as) < 2 ^ 30"
  shows "parse_reply stack (rcvd_msg (genl_bytes ty fl sq pid cmd ver as) sk nla)
       = Some (attr_index NF10_GENL_A_MAX 20 as Map.empty)"
  using genlmsg_parse_bytes [where z = "[]" and m = NF10_GENL_A_MAX, OF _ _ assms(1)] assms(2)
  by (simp add: parse_reply_def rcvd_msg_def nlmsg_hdr_def NF10_GENL_A_MAX_def)

lemma reply_u32:
  assumes "list_all attr_ok as" and "map_of (rev as) t = Some (le32 v)" and "t \<noteq> 0" and "unat t \<le> NF10_GENL_A_MAX"
  obtains off where "attr_index NF10_GENL_A_MAX 20 as Map.empty (unat t) = Some off"
    "ld32 (genl_bytes ty fl sq pid cmd ver as) (nla_data off) = Some v"
proof -
  have "Option.bind (attr_index NF10_GENL_A_MAX 20 as Map.empty (unat t))
      (attr_payload (genl_bytes ty fl sq pid cmd ver as)) = Some (le32 v)"
    using genl_attr_payload [where z = "[]" and m = NF10_GENL_A_MAX, OF _ assms(1,3,4)] assms(2) by simp
  then show thesis
    using that attr_payload_u32 by (auto simp: bind_eq_Some_conv nla_get_u32_def)
qed

lemma reg_rd_cb_value:
  "nf10_reg_rd_recv_msg_cb stack (rcvd_msg (reply_bytes fam sq pid
      (c, [(NF10_GENL_A_REGVAL32, le32 v), (NF10_GENL_A_ERRNO, le32 0)])) sk nla) vp u = Some (0, store vp v u)"
proof -
  let ?as = "[(4, le32 v), (6, le32 0)] :: (u16 \<times> bytes) list"
  let ?b = "genl_bytes fam 0 sq pid (word_of_nat c) NF10_GENL_FAMILY_VERSION ?as"
  have ok: "list_all attr_ok ?as" "20 + length (enc_attrs ?as) < 2 ^ 30"
    by (simp_all add: attr_ok_def align4_def)
  obtain o1 where o1: "attr_index NF10_GENL_A_MAX 20 ?as Map.empty (unat (6 :: u16)) = Some o1"
    "ld32 ?b (nla_data o1) = Some 0"
    by (rule reply_u32 [OF ok(1), of 6 0 fam 0 sq pid "word_of_nat c" NF10_GENL_FAMILY_VERSION])
      (simp_all add: NF10_GENL_A_MAX_def)
  obtain o2 where o2: "attr_index NF10_GENL_A_MAX 20 ?as Map.empty (unat (4 :: u16)) = Some o2"
    "ld32 ?b (nla_data o2) = Some v"
    by (rule reply_u32 [OF ok(1), of 4 v fam 0 sq pid "word_of_nat c" NF10_GENL_FAMILY_VERSION])
      (simp_all add: NF10_GENL_A_MAX_def)
  have rb: "reply_bytes fam sq pid (c, [(NF10_GENL_A_REGVAL32, le32 v), (NF10_GENL_A_ERRNO, le32 0)]) = ?b"
    by (simp add: reply_bytes_def attrs16_def genl_attr_defs)
  show ?thesis
    using o1 o2 unfolding rb nf10_reg_rd_recv_msg_cb_def parse_reply_received [OF ok]
    by (simp add: genl_attr_defs rcvd_msg_def nlmsg_hdr_def del: attr_index.simps)
qed

lemma reg_rd_cb_error:
  assumes "e \<noteq> 0"
  shows "nf10_reg_rd_recv_msg_cb stack (rcvd_msg (reply_bytes fam sq pid
      (c, [(NF10_GENL_A_ERRNO, le32 e)])) sk nla) vp u = Some (e, u)"
proof -
  let ?as = "[(6, le32 e)] :: (u16 \<times> bytes) list"
  let ?b = "genl_bytes fam 0 sq pid (word_of_nat c) NF10_GENL_FAMILY_VERSION ?as"
  have ok: "list_all attr_ok ?as" "20 + length (enc_attrs ?as) < 2 ^ 30"
    by (simp_all add: attr_ok_def align4_def)
  obtain o1 where o1: "attr_index NF10_GENL_A_MAX 20 ?as Map.empty (unat (6 :: u16)) = Some o1"
    "ld32 ?b (nla_data o1) = Some e"
    by (rule reply_u32 [OF ok(1), of 6 e fam 0 sq pid "word_of_nat c" NF10_GENL_FAMILY_VERSION])
      (simp_all add: NF10_GENL_A_MAX_def)
  have rb: "reply_bytes fam sq pid (c, [(NF10_GENL_A_ERRNO, le32 e)]) = ?b"
    by (simp add: reply_bytes_def attrs16_def genl_attr_defs)
  show ?thesis
    using o1 assms unfolding rb nf10_reg_rd_recv_msg_cb_def parse_reply_received [OF ok]
    by (simp add: genl_attr_defs rcvd_msg_def nlmsg_hdr_def del: attr_index.simps)
qed

text \<open>
  The contract of the resolver, and: the socket calls succeed, the driver's family is among the
  registered ones, and a request to it is served and acknowledged.
\<close>

locale genl_link = ctrl_link "env_sys env" "default_msg_size env" linked drv inbox dump
  for env :: "'k env" and linked :: "'k \<Rightarrow> bool" and drv :: "'k \<Rightarrow> nf10" and inbox :: "'k \<Rightarrow> bytes list"
    and dump :: "genl_family list list" +
  fixes serve :: "nat \<Rightarrow> genl_info \<Rightarrow> nf10 \<Rightarrow> (i32 \<times> (nat \<times> nl_attrs) list \<times> nf10) option" and mypid :: u32
    and famid :: u16
  assumes kind: "default_cb env = NL_CB_DEFAULT"
    and family: "map_option gf_id (find (\<lambda>f. NF10_GENL_FAMILY_NAME = gf_name f) (concat dump)) = Some famid" "16 < famid"
    and getpid: "linked k \<Longrightarrow> sys_getpid (env_sys env) k = mypid"
    and socket: "linked k \<Longrightarrow> \<exists>fd k'. sys_socket (env_sys env) af ty proto k = (Inr fd, k') \<and> \<not> is_neg fd
      \<and> keeps linked drv inbox k k'"
    and setsockopt: "linked k \<Longrightarrow> \<exists>k'. sys_setsockopt (env_sys env) fd lv opt v k = (Inr (), k')
      \<and> keeps linked drv inbox k k'"
    and bind: "linked k \<Longrightarrow> nl_family a = AF_NETLINK \<Longrightarrow>
      \<exists>k' k''. sys_bind (env_sys env) fd a k = (Inr (), k')
        \<and> sys_getsockname (env_sys env) fd k' = (Inr (a, 12), k'') \<and> keeps linked drv inbox k k''"
    and close: "linked k \<Longrightarrow> linked (sys_close (env_sys env) fd k)
      \<and> drv (sys_close (env_sys env) fd k) = drv k \<and> inbox (sys_close (env_sys env) fd k) = []"
    and send: "linked k \<Longrightarrow> inbox k = [] \<Longrightarrow> list_all attr_ok as \<Longrightarrow> 20 + length (enc_attrs as) < 2 ^ 30 \<Longrightarrow>
      serve (unat cmd) (request_info as) (drv k) = Some (ret, rs, d) \<Longrightarrow>
      \<exists>n k'. sys_sendmsg (env_sys env) fd dst None (genl_bytes famid (NLM_F_REQUEST OR NLM_F_ACK) sq pid cmd
            NF10_GENL_FAMILY_VERSION as) k = (Inr n, k')
        \<and> \<not> is_neg n \<and> linked k' \<and> drv k' = d
        \<and> inbox k' = map (reply_bytes famid sq pid) rs @ [ack_bytes ret sq pid (genl_bytes famid
            (NLM_F_REQUEST OR NLM_F_ACK) sq pid cmd NF10_GENL_FAMILY_VERSION as)]"
begin

lemma connect_ok:
  fixes u :: "(genl_family, 'u) libstate_scheme"
  assumes link: "linked (kern p)" "inbox (kern p) = []" and ports: "port_free mypid (used_ports_map p)"
    and heap: "heap_free (lib u)"
  obtains sk n p' where "driver_connect env u p = Some (0, Some (sk, ucast famid), bump n u, p')" "connected sk"
    "keeps linked drv inbox (kern p) (kern p')"
    "release_local_port (nl_pid (s_local sk)) (used_ports_map p') = used_ports_map p"
proof -
  let ?S = "env_sys env"
  obtain k1 where k1: "sys_alloc ?S (kern p) = (True, k1)" "keeps linked drv inbox (kern p) k1"
    using alloc [OF link(1)] by blast
  then obtain k2 where k2: "sys_alloc ?S k1 = (True, k2)" "keeps linked drv inbox k1 k2"
    using alloc [of k1] by (auto simp: keeps_def)
  have l2: "linked k2" using k2 by (simp add: keeps_def)
  obtain port m' where gen: "generate_local_port mypid (used_ports_map p) = (port, m')" by fastforce
  have port: "port \<noteq> UINT_MAX" "length (used_ports_map p) = 32"
    using ports gen by (simp_all add: port_free_def)
  have rel: "release_local_port port m' = used_ports_map p"
    by (rule generate_release [OF port(2) gen port(1)])
  define me where "me = \<lparr>nl_family = AF_NETLINK, nl_pid = port, nl_groups = 0\<rparr>"
  define sk0 :: "(genl_family, 'u) libstate_scheme nl_sock" where "sk0 = \<lparr>s_local = me,
    s_peer = \<lparr>nl_family = AF_NETLINK, nl_pid = 0, nl_groups = 0\<rparr>, s_fd = - 1, s_proto = 0,
    s_seq_next = sys_time ?S k2, s_seq_expect = sys_time ?S k2, s_flags = 0, s_cb = silent_cb\<rparr>"
  have sock: "nl_socket_alloc ?S (default_cb env) p
      = Some (Some sk0, p\<lparr>kern := k2, used_ports_map := m'\<rparr>)"
    using k1 k2 port gen getpid [OF l2]
    by (simp add: nl_socket_alloc_def alloc_socket_def kind nl_cb_alloc_default sk0_def me_def Let_def)
  obtain fd k3 where k3: "sys_socket ?S (ucast AF_NETLINK) SOCK_RAW NETLINK_GENERIC k2 = (Inr fd, k3)"
      "\<not> is_neg fd" "keeps linked drv inbox k2 k3"
    using socket [OF l2] by blast
  then obtain k4 where k4: "sys_setsockopt ?S fd 1 7 32768 k3 = (Inr (), k4)" "keeps linked drv inbox k3 k4"
    using setsockopt [of k3 fd 1 7 32768] by (auto simp: keeps_def)
  then obtain k5 where k5: "sys_setsockopt ?S fd 1 8 32768 k4 = (Inr (), k5)" "keeps linked drv inbox k4 k5"
    using setsockopt [of k4 fd 1 8 32768] by (auto simp: keeps_def)
  then obtain k6 k7 where k7: "sys_bind ?S fd me k5 = (Inr (), k6)"
      "sys_getsockname ?S fd k6 = (Inr (me, 12), k7)" "keeps linked drv inbox k5 k7"
    using bind [of k5 me fd] by (auto simp: keeps_def me_def)
  define sk1 where "sk1 = sk0\<lparr>s_fd := fd, s_flags := NL_SOCK_BUFSIZE_SET, s_proto := NETLINK_GENERIC\<rparr>"
  define p1 where "p1 = p\<lparr>kern := k7, used_ports_map := m'\<rparr>"
  have fd: "fd \<noteq> - 1" using k3(2) by auto
  have con: "genl_connect ?S sk0 (p\<lparr>kern := k2, used_ports_map := m'\<rparr>) = (0, sk1, p1)"
    using k3 k4 k5 k7 fd
    by (simp add: genl_connect_def nl_connect_def nl_socket_set_buffer_size_def sk0_def sk1_def p1_def
        me_def nl_flag_defs)
  have l7: "linked (kern p1)" "inbox (kern p1) = []"
    using k1 k2 k3 k4 k5 k7 link(2) by (simp_all add: p1_def keeps_def)
  have "answers sk1" by (simp add: answers_def sk1_def sk0_def)
  then obtain n p2 where r: "genl_ctrl_resolve ?S (default_msg_size env) sk1 NF10_GENL_FAMILY_NAME u p1
        = Some (ucast famid, sk1\<lparr>s_seq_next := s_seq_next sk1 + 1, s_seq_expect := s_seq_expect sk1 + 1\<rparr>, bump n u, p2)"
      "used_ports_map p2 = used_ports_map p1" "keeps linked drv inbox (kern p1) (kern p2)"
    using resolve_ok [OF _ l7 heap, of sk1 NF10_GENL_FAMILY_NAME] family(1) by auto
  have "\<not> is_neg (ucast famid :: i32)"
    using sint_nonneg_u32 [of "ucast famid"] unat_u16_less [of famid] by simp
  then have "driver_connect env u p = Some (0, Some (sk1\<lparr>s_seq_next := s_seq_next sk1 + 1,
      s_seq_expect := s_seq_expect sk1 + 1\<rparr>, ucast famid), bump n u, p2)"
    using sock con r by (simp add: driver_connect_def)
  moreover have "keeps linked drv inbox (kern p) (kern p2)"
    using k1 k2 k3 k4 k5 k7 r(3) by (simp add: keeps_def p1_def)
  ultimately show thesis
    using that r(2) k3(2) rel
    by (simp add: connected_def sk1_def sk0_def me_def p1_def)
qed

lemma disconnect_ok:
  assumes "linked (kern p)" and "cb_refcnt (s_cb sk) = 1" and "s_flags sk = NL_SOCK_BUFSIZE_SET"
    and "\<not> is_neg (s_fd sk)"
  obtains p' where "driver_disconnect env sk p = Some p'" "linked (kern p')" "drv (kern p') = drv (kern p)"
    "inbox (kern p') = []" "used_ports_map p' = release_local_port (nl_pid (s_local sk)) (used_ports_map p)"
proof -
  have "NL_SOCK_BUFSIZE_SET AND NL_OWN_PORT = 0" by (simp add: nl_flag_defs)
  then show thesis
    using that close [OF assms(1), of "s_fd sk"] assms
    by (simp add: driver_disconnect_def nl_socket_free_def nl_cb_put_last)
qed

text \<open>Building and sending a request: the message, and what is in the kernel afterwards.\<close>

definition request_msg :: "u8 \<Rightarrow> (u16 \<times> bytes) list \<Rightarrow> nl_msg" where
  "request_msg cmd as = (fresh_msg (default_msg_size env))\<lparr>nm_nlh :=
     genl_bytes famid 0 0 0 cmd NF10_GENL_FAMILY_VERSION as
       @ replicate (unat (default_msg_size env) - 20 - length (enc_attrs as)) 0\<rparr>"

lemma request_built:
  assumes "list_all attr_ok as" and "2 * (20 + length (enc_attrs as)) \<le> 4096"
  obtains m where "nlmsg_alloc True True (default_msg_size env) = Some (Some (fresh_msg (default_msg_size env)))"
    "genlmsg_put (fresh_msg (default_msg_size env)) 0 0 (ucast famid) 0 0 cmd NF10_GENL_FAMILY_VERSION = Some (Some 20, m)"
    "nla_puts m as = Some (0, request_msg cmd as)"
proof -
  have "nlmsg_alloc True True (default_msg_size env) = Some (Some (fresh_msg (default_msg_size env)))"
    unfolding nlmsg_alloc_def by (rule nlmsg_alloc_fresh) (use sizes in \<open>simp add: word_le_nat_alt\<close>)
  moreover obtain m where
    "genlmsg_put (fresh_msg (default_msg_size env)) 0 0 (ucast famid) 0 0 cmd NF10_GENL_FAMILY_VERSION = Some (Some 20, m)"
    using genlmsg_put_fresh [of "default_msg_size env"] sizes by fastforce
  moreover from this have "nla_puts m as = Some (0, request_msg cmd as)"
    using genl_message_built [OF assms(1), of "default_msg_size env" 0 0 "ucast famid" 0 cmd NF10_GENL_FAMILY_VERSION]
      assms(2) sizes by (simp add: request_msg_def)
  ultimately show thesis using that by blast
qed

lemma send_ok:
  assumes link: "linked (kern p)" "inbox (kern p) = []" and con: "connected sk"
    and as: "list_all attr_ok as" "20 + length (enc_attrs as) < 2 ^ 30"
    and srv: "serve (unat cmd) (request_info as) (drv (kern p)) = Some (ret, rs, d)"
  obtains n m p' where
    "nl_send_auto (env_sys env) sk (request_msg cmd as) u p = Some (n, sk\<lparr>s_seq_next := s_seq_next sk + 1\<rparr>, m, u, p')"
    "nlmsg_free (Some m) = Some None" "\<not> is_neg n" "linked (kern p')" "drv (kern p') = d"
    "used_ports_map p' = used_ports_map p"
    "\<exists>ack. inbox (kern p') = map (reply_bytes famid (s_seq_expect sk) (nl_pid (s_local sk))) rs @ [ack]"
proof -
  let ?req = "genl_bytes famid (NLM_F_REQUEST OR NLM_F_ACK) (s_seq_expect sk) (nl_pid (s_local sk)) cmd
    NF10_GENL_FAMILY_VERSION as"
  obtain n k' where snd: "sys_sendmsg (env_sys env) (s_fd sk) (s_peer sk) None ?req (kern p) = (Inr n, k')"
      "\<not> is_neg n" "linked k'" "drv k' = d"
      "inbox k' = map (reply_bytes famid (s_seq_expect sk) (nl_pid (s_local sk))) rs
        @ [ack_bytes ret (s_seq_expect sk) (nl_pid (s_local sk)) ?req]"
    using send [OF link as srv] by blast
  have b: "nm_nlh (request_msg cmd as) = genl_bytes famid 0 0 0 cmd NF10_GENL_FAMILY_VERSION as
      @ replicate (unat (default_msg_size env) - 20 - length (enc_attrs as)) 0"
    by (simp add: request_msg_def)
  have sk: "s_flags sk AND NL_NO_AUTO_ACK = 0" "cb_set (s_cb sk) NL_CB_MSG_OUT = None" "s_seq_next sk = s_seq_expect sk"
    using con by (simp_all add: connected_def nl_flag_defs silent_cb_def)
  obtain m where "nl_send_auto (env_sys env) sk (request_msg cmd as) u p
      = Some (n, sk\<lparr>s_seq_next := s_seq_next sk + 1\<rparr>, m, u, p\<lparr>kern := k'\<rparr>)" "nlmsg_free (Some m) = Some None"
    by (rule nl_send_auto_genl [OF b as(2) _ _ _ sk(1,2), of "env_sys env" p n k' u])
      (use snd(1) sk(3) in \<open>simp_all add: request_msg_def fresh_msg_def\<close>)
  then show thesis using that snd by simp
qed

text \<open>Receiving a reply: the callback for valid messages decides the result.\<close>

lemma recv_reply:
  assumes link: "linked (kern p)" "inbox (kern p) = d # rest"
    and d: "d = genl_bytes famid 0 (s_seq_expect sk) pid cmd ver as" "20 + length (enc_attrs as) \<le> 4096"
    and sk: "s_flags sk = NL_SOCK_BUFSIZE_SET" "quiet_cb (s_cb sk)"
    and cb: "case cb_set (s_cb sk) NL_CB_VALID of
        None \<Rightarrow> e = 0 \<and> u' = u
      | Some f \<Rightarrow> f (rcvd_msg d sk kernel_addr) (cb_args (s_cb sk) NL_CB_VALID) u = Some (e, u')"
  obtains p' where "nl_recvmsgs_default (env_sys env) sk u p
      = Some (if e = 1 \<or> e = 2 then 0 else e, sk, u', p')"
    "linked (kern p')" "drv (kern p') = drv (kern p)" "inbox (kern p') = rest"
    "used_ports_map p' = used_ports_map p"
proof -
  let ?S = "env_sys env"
  have len: "length d \<le> unat (sys_pagesize ?S)" using d sizes by simp
  have wh: "whole_msg d" unfolding d(1) by (rule whole_genl_bytes) (use d(2) in simp)
  obtain k where k: "sys_recvmsg ?S (s_fd sk) (sys_pagesize ?S) 0 False (kern p) = (Inr (datagram d kernel_addr), k)"
      "linked k" "drv k = drv (kern p)" "inbox k = rest"
    using recv [OF link len] by blast
  obtain k2 where k2: "sys_alloc2 ?S (p\<lparr>kern := k\<rparr>) = ((True, True), p\<lparr>kern := k\<rparr>\<lparr>kern := k2\<rparr>)"
      "keeps linked drv inbox k k2"
    using alloc2_ok [of "p\<lparr>kern := k\<rparr>"] k(2) by auto
  define s where "s = \<lparr>rx_sk = sk, rx_multipart = False, rx_user = u, rx_proc = p\<lparr>kern := k\<rparr>\<rparr>"
  have fam: "famid \<notin> {NLMSG_NOOP, NLMSG_ERROR, NLMSG_DONE, NLMSG_OVERRUN}"
    using family(2) by (auto simp: nlmsg_type_defs)
  have small: "length d < 2 ^ 30" using d by simp
  have d': "d = genl_bytes famid 0 (s_seq_expect sk) pid cmd ver as @ []" using d(1) by simp
  have d0: "d = [] @ d @ []" by simp
  note fields = genl_bytes_fields(2-4) [OF d' small]
  have "recv_msg ?S (s_cb sk) d 0 kernel_addr None s
      = dispatch_msg (s_cb sk) (rcvd_msg d sk kernel_addr) d 0 kernel_addr famid (s\<lparr>rx_proc := p\<lparr>kern := k2\<rparr>\<rparr>)"
    using recv_msg_quiet [OF wh d0 fields _ sk(2), of s ?S "p\<lparr>kern := k2\<rparr>" kernel_addr] k2(1) fam
    by (simp add: s_def counted_def)
  moreover have "\<exists>l. dispatch_msg (s_cb sk) (rcvd_msg d sk kernel_addr) d 0 kernel_addr famid (s\<lparr>rx_proc := p\<lparr>kern := k2\<rparr>\<rparr>)
      = Some (l, s\<lparr>rx_proc := p\<lparr>kern := k2\<rparr>, rx_user := u'\<rparr>)
      \<and> (case l of Some (L_out err) \<Rightarrow> err | _ \<Rightarrow> 0) = (if e = 1 \<or> e = 2 then 0 else e)"
    using fam cb
    by (cases "cb_set (s_cb sk) NL_CB_VALID")
      (auto simp: dispatch_msg_def if_set_def NL_CB_CALL_def nl_cb_call_def proceed_def s_def nl_action_defs Let_def)
  ultimately obtain l where l: "recv_msg ?S (s_cb sk) d 0 kernel_addr None s
      = Some (l, s\<lparr>rx_proc := p\<lparr>kern := k2\<rparr>, rx_user := u'\<rparr>)"
      "(case l of Some (L_out err) \<Rightarrow> err | _ \<Rightarrow> 0) = (if e = 1 \<or> e = 2 then 0 else e)"
    by auto
  have fl: "NL_SOCK_BUFSIZE_SET AND NL_SOCK_PASSCRED = 0" "NL_SOCK_BUFSIZE_SET AND NL_MSG_PEEK = 0"
    by (simp_all add: nl_flag_defs)
  have "nl_recvmsgs_default ?S sk u p = Some (if e = 1 \<or> e = 2 then 0 else e, sk, u', p\<lparr>kern := k2\<rparr>)"
    using recvmsgs_one [OF k(1) wh len, of "s_cb sk" u l "s\<lparr>rx_proc := p\<lparr>kern := k2\<rparr>, rx_user := u'\<rparr>"] l fl sk(1)
    by (simp add: nl_recvmsgs_default_def nl_recvmsgs_def s_def)
  then show thesis
    using that k k2(2) by (simp add: keeps_def)
qed

text \<open>
  The part the programs share: connecting, building a request with given attributes and
  sending it.  The first reply of the driver is then the next datagram.
\<close>

lemma exchange:
  fixes u :: "(genl_family, 'u) libstate_scheme"
  assumes link: "linked (kern p)" "inbox (kern p) = []" and ports: "port_free mypid (used_ports_map p)"
    and heap: "heap_free (lib u)"
    and as: "list_all attr_ok as" "2 * (20 + length (enc_attrs as)) \<le> 4096"
    and srv: "serve (unat cmd) (request_info as) (drv (kern p)) = Some (ret, r # rs, d)"
  obtains sk h p1 p2 m n m' p3 rest where
    "driver_connect env u p = Some (0, Some (sk, ucast famid), bump h u, p1)" "connected sk"
    "release_local_port (nl_pid (s_local sk)) (used_ports_map p3) = used_ports_map p"
    "sys_alloc2 (env_sys env) p1 = ((True, True), p2)"
    "nlmsg_alloc True True (default_msg_size env) = Some (Some (fresh_msg (default_msg_size env)))"
    "genlmsg_put (fresh_msg (default_msg_size env)) 0 0 (ucast famid) 0 0 cmd NF10_GENL_FAMILY_VERSION = Some (Some 20, m)"
    "nla_puts m as = Some (0, request_msg cmd as)"
    "nl_send_auto (env_sys env) sk (request_msg cmd as) (bump h u) p2
       = Some (n, sk\<lparr>s_seq_next := s_seq_next sk + 1\<rparr>, m', bump h u, p3)"
    "nlmsg_free (Some m') = Some None" "\<not> is_neg n" "linked (kern p3)" "drv (kern p3) = d"
    "inbox (kern p3) = reply_bytes famid (s_seq_expect sk) (nl_pid (s_local sk)) r # rest"
proof -
  obtain sk h p1 where con: "driver_connect env u p = Some (0, Some (sk, ucast famid), bump h u, p1)" "connected sk"
      "keeps linked drv inbox (kern p) (kern p1)"
      "release_local_port (nl_pid (s_local sk)) (used_ports_map p1) = used_ports_map p"
    by (rule connect_ok [OF link ports heap])
  then have l1: "linked (kern p1)" by (simp add: keeps_def)
  obtain k2 where k2: "sys_alloc2 (env_sys env) p1 = ((True, True), p1\<lparr>kern := k2\<rparr>)"
      "keeps linked drv inbox (kern p1) k2"
    by (rule alloc2_ok [OF l1])
  have srv': "serve (unat cmd) (request_info as) (drv (kern (p1\<lparr>kern := k2\<rparr>))) = Some (ret, r # rs, d)"
    using srv con(3) k2(2) by (simp add: keeps_def)
  have l2: "linked (kern (p1\<lparr>kern := k2\<rparr>))" "inbox (kern (p1\<lparr>kern := k2\<rparr>)) = []"
    using k2(2) con(3) link by (simp_all add: keeps_def)
  have small: "20 + length (enc_attrs as) < 2 ^ 30" using as(2) by simp
  obtain m where m: "nlmsg_alloc True True (default_msg_size env) = Some (Some (fresh_msg (default_msg_size env)))"
      "genlmsg_put (fresh_msg (default_msg_size env)) 0 0 (ucast famid) 0 0 cmd NF10_GENL_FAMILY_VERSION = Some (Some 20, m)"
      "nla_puts m as = Some (0, request_msg cmd as)"
    by (rule request_built [OF as])
  obtain n m' p3 where snd: "nl_send_auto (env_sys env) sk (request_msg cmd as) (bump h u) (p1\<lparr>kern := k2\<rparr>)
        = Some (n, sk\<lparr>s_seq_next := s_seq_next sk + 1\<rparr>, m', bump h u, p3)"
      "nlmsg_free (Some m') = Some None" "\<not> is_neg n" "linked (kern p3)" "drv (kern p3) = d"
      "used_ports_map p3 = used_ports_map (p1\<lparr>kern := k2\<rparr>)"
      "\<exists>ack. inbox (kern p3) = map (reply_bytes famid (s_seq_expect sk) (nl_pid (s_local sk))) (r # rs) @ [ack]"
    by (rule send_ok [OF l2 con(2) as(1) small srv'])
  from snd(7) obtain rest where "inbox (kern p3) = reply_bytes famid (s_seq_expect sk) (nl_pid (s_local sk)) r # rest"
    by auto
  moreover have "release_local_port (nl_pid (s_local sk)) (used_ports_map p3) = used_ports_map p"
    using snd(6) con(4) by simp
  ultimately show thesis
    using that con(1,2) k2(1) m snd(1-5) by blast
qed

text \<open>
  What the commands do behind the exchange: with a callback of their own, receive the reply and
  disconnect.
\<close>

lemma receive_disconnect:
  fixes u :: "(genl_family, 'u) libstate_scheme"
  assumes con: "connected sk" and link: "linked (kern p)"
    and inb: "inbox (kern p) = reply_bytes famid (s_seq_expect sk) (nl_pid (s_local sk)) (c, attrs) # rest"
    and attrs: "20 + length (enc_attrs (attrs16 attrs)) \<le> 4096"
    and sk1: "sk1 = snd (nl_socket_modify_cb (sk\<lparr>s_seq_next := s_seq_next sk + 1\<rparr>) type NL_CB_CUSTOM (Some f) arg)"
    and type: "type = NL_CB_ACK \<or> type = NL_CB_VALID"
    and cb: "if type = NL_CB_VALID
        then \<forall>sq pid (sk :: (genl_family, 'u) libstate_scheme nl_sock) nla. f (rcvd_msg (reply_bytes famid sq pid (c, attrs)) sk nla) arg u = Some (e, u')
        else e = 0 \<and> u' = u"
  obtains p4 p' where "nl_recvmsgs_default (env_sys env) sk1 u p = Some (if e = 1 \<or> e = 2 then 0 else e, sk1, u', p4)"
    "driver_disconnect env sk1 p4 = Some p'" "linked (kern p')" "drv (kern p') = drv (kern p)" "inbox (kern p') = []"
    "used_ports_map p' = release_local_port (nl_pid (s_local sk)) (used_ports_map p)"
proof -
  have s: "s_flags sk1 = NL_SOCK_BUFSIZE_SET" "quiet_cb (s_cb sk1)" "cb_refcnt (s_cb sk1) = 1" "\<not> is_neg (s_fd sk1)"
      "cb_set (s_cb sk1) NL_CB_VALID = (if type = NL_CB_VALID then Some f else None)"
      "type = NL_CB_VALID \<Longrightarrow> cb_args (s_cb sk1) NL_CB_VALID = arg"
      "s_seq_expect sk1 = s_seq_expect sk" "s_local sk1 = s_local sk"
    using con type
    by (auto simp: sk1 nl_socket_modify_cb_def nl_cb_set_def connected_def silent_cb_def quiet_cb_def)
  obtain p4 where rcv: "nl_recvmsgs_default (env_sys env) sk1 u p = Some (if e = 1 \<or> e = 2 then 0 else e, sk1, u', p4)"
      "linked (kern p4)" "drv (kern p4) = drv (kern p)" "inbox (kern p4) = rest" "used_ports_map p4 = used_ports_map p"
    by (rule recv_reply [OF link inb _ attrs s(1,2), of "nl_pid (s_local sk)" "word_of_nat c" NF10_GENL_FAMILY_VERSION e u' u])
      (use cb s(5-7) in \<open>auto simp: reply_bytes_def split: if_splits\<close>)
  obtain p' where "driver_disconnect env sk1 p4 = Some p'" "linked (kern p')" "drv (kern p') = drv (kern p4)"
      "inbox (kern p') = []" "used_ports_map p' = release_local_port (nl_pid (s_local sk1)) (used_ports_map p4)"
    by (rule disconnect_ok [OF rcv(2) s(3,1,4)])
  then show thesis using that rcv s(8) by simp
qed

lemma nf10_reg_rd_result:
  fixes u :: umem
  assumes link: "linked (kern p)" "inbox (kern p) = []" and ports: "port_free mypid (used_ports_map p)"
    and heap: "heap_free (lib u)"
    and srv: "serve NF10_GENL_C_REG_RD (request_info [(3, le32 a)]) (drv (kern p)) = Some (ret, (c, attrs) # rs, d)"
    and attrs: "20 + length (enc_attrs (attrs16 attrs)) \<le> 4096"
    and cb: "\<And>sq pid (sk :: umem nl_sock) nla u. nf10_reg_rd_recv_msg_cb stack (rcvd_msg (reply_bytes famid sq pid (c, attrs)) sk nla) vp u
        = Some (e, g u)"
  obtains h p' where "nf10_reg_rd env stack a vp u p = Some (if e = 1 \<or> e = 2 then 0 else e, g (bump h u), p')"
    "linked (kern p')" "drv (kern p') = d" "inbox (kern p') = []" "used_ports_map p' = used_ports_map p"
proof -
  let ?as = "[(3, le32 a)] :: (u16 \<times> bytes) list"
  let ?cmd = "word_of_nat NF10_GENL_C_REG_RD :: u8"
  have as: "list_all attr_ok ?as" "2 * (20 + length (enc_attrs ?as)) \<le> 4096"
    by (simp_all add: attr_ok_def align4_def)
  have srv': "serve (unat ?cmd) (request_info ?as) (drv (kern p)) = Some (ret, (c, attrs) # rs, d)"
    using srv by (simp add: NF10_GENL_C_REG_RD_def)
  obtain sk h p1 p2 m n m' p3 rest where x:
    "driver_connect env u p = Some (0, Some (sk, ucast famid), bump h u, p1)" "connected sk"
    "release_local_port (nl_pid (s_local sk)) (used_ports_map p3) = used_ports_map p"
    "sys_alloc2 (env_sys env) p1 = ((True, True), p2)"
    "nlmsg_alloc True True (default_msg_size env) = Some (Some (fresh_msg (default_msg_size env)))"
    "genlmsg_put (fresh_msg (default_msg_size env)) 0 0 (ucast famid) 0 0 ?cmd NF10_GENL_FAMILY_VERSION = Some (Some 20, m)"
    "nla_puts m ?as = Some (0, request_msg ?cmd ?as)"
    "nl_send_auto (env_sys env) sk (request_msg ?cmd ?as) (bump h u) p2
       = Some (n, sk\<lparr>s_seq_next := s_seq_next sk + 1\<rparr>, m', bump h u, p3)"
    "nlmsg_free (Some m') = Some None" "\<not> is_neg n" "linked (kern p3)" "drv (kern p3) = d"
    "inbox (kern p3) = reply_bytes famid (s_seq_expect sk) (nl_pid (s_local sk)) (c, attrs) # rest"
    by (rule exchange [OF link ports heap as srv'])
  from x(7) obtain err where put: "nla_put_u32 m (word_of_nat NF10_GENL_A_ADDR32) a = Some (err, request_msg ?cmd ?as)"
    by (auto simp: nla_put_u32_def NF10_GENL_A_ADDR32_def bind_eq_Some_conv split: if_splits)
  define sk1 where "sk1 = snd (nl_socket_modify_cb (sk\<lparr>s_seq_next := s_seq_next sk + 1\<rparr>) NL_CB_VALID NL_CB_CUSTOM
    (Some (nf10_reg_rd_recv_msg_cb stack)) vp)"
  obtain p4 p5 where r: "nl_recvmsgs_default (env_sys env) sk1 (bump h u) p3
        = Some (if e = 1 \<or> e = 2 then 0 else e, sk1, g (bump h u), p4)"
      "driver_disconnect env sk1 p4 = Some p5" "linked (kern p5)" "drv (kern p5) = drv (kern p3)" "inbox (kern p5) = []"
      "used_ports_map p5 = release_local_port (nl_pid (s_local sk)) (used_ports_map p3)"
    by (rule receive_disconnect [OF x(2,11,13) attrs sk1_def, where e = e and u = "bump h u" and u' = "g (bump h u)"]) (simp_all add: cb)
  have "nf10_reg_rd env stack a vp u p = Some (if e = 1 \<or> e = 2 then 0 else e, g (bump h u), p5)"
    using x(1,4-6,8-10) put r(1,2)
    by (simp add: nf10_reg_rd_def sk1_def case_prod_beta Let_def)
  then show thesis
    using that r(3-6) x(3,12) by simp
qed

text \<open>A register write: whatever the reply says, the result is 0.\<close>

lemma nf10_reg_wr_result:
  fixes u :: umem
  assumes link: "linked (kern p)" "inbox (kern p) = []" and ports: "port_free mypid (used_ports_map p)"
    and heap: "heap_free (lib u)"
    and srv: "serve NF10_GENL_C_REG_WR (request_info [(3, le32 a), (4, le32 v)]) (drv (kern p))
        = Some (ret, (c, attrs) # rs, d)"
    and attrs: "20 + length (enc_attrs (attrs16 attrs)) \<le> 4096"
  obtains h p' where "nf10_reg_wr env stack a v u p = Some (0, bump h u, p')"
    "linked (kern p')" "drv (kern p') = d" "inbox (kern p') = []" "used_ports_map p' = used_ports_map p"
proof -
  let ?as = "[(3, le32 a), (4, le32 v)] :: (u16 \<times> bytes) list"
  let ?cmd = "word_of_nat NF10_GENL_C_REG_WR :: u8"
  have as: "list_all attr_ok ?as" "2 * (20 + length (enc_attrs ?as)) \<le> 4096"
    by (simp_all add: attr_ok_def align4_def)
  have srv': "serve (unat ?cmd) (request_info ?as) (drv (kern p)) = Some (ret, (c, attrs) # rs, d)"
    using srv by (simp add: NF10_GENL_C_REG_WR_def)
  obtain sk h p1 p2 m n m' p3 rest where x:
    "driver_connect env u p = Some (0, Some (sk, ucast famid), bump h u, p1)" "connected sk"
    "release_local_port (nl_pid (s_local sk)) (used_ports_map p3) = used_ports_map p"
    "sys_alloc2 (env_sys env) p1 = ((True, True), p2)"
    "nlmsg_alloc True True (default_msg_size env) = Some (Some (fresh_msg (default_msg_size env)))"
    "genlmsg_put (fresh_msg (default_msg_size env)) 0 0 (ucast famid) 0 0 ?cmd NF10_GENL_FAMILY_VERSION = Some (Some 20, m)"
    "nla_puts m ?as = Some (0, request_msg ?cmd ?as)"
    "nl_send_auto (env_sys env) sk (request_msg ?cmd ?as) (bump h u) p2
       = Some (n, sk\<lparr>s_seq_next := s_seq_next sk + 1\<rparr>, m', bump h u, p3)"
    "nlmsg_free (Some m') = Some None" "\<not> is_neg n" "linked (kern p3)" "drv (kern p3) = d"
    "inbox (kern p3) = reply_bytes famid (s_seq_expect sk) (nl_pid (s_local sk)) (c, attrs) # rest"
    by (rule exchange [OF link ports heap as srv'])
  from x(7) obtain e1 e2 m1 where put: "nla_put_u32 m (word_of_nat NF10_GENL_A_ADDR32) a = Some (e1, m1)"
    "nla_put_u32 m1 (word_of_nat NF10_GENL_A_REGVAL32) v = Some (e2, request_msg ?cmd ?as)"
    by (auto simp: nla_put_u32_def NF10_GENL_A_ADDR32_def NF10_GENL_A_REGVAL32_def bind_eq_Some_conv split: if_splits)
  define sk1 where "sk1 = snd (nl_socket_modify_cb (sk\<lparr>s_seq_next := s_seq_next sk + 1\<rparr>) NL_CB_ACK NL_CB_CUSTOM
    (Some (nf10_reg_wr_recv_ack_cb stack)) 0)"
  obtain p4 p5 where r: "nl_recvmsgs_default (env_sys env) sk1 (bump h u) p3
        = Some (if (0 :: i32) = 1 \<or> (0 :: i32) = 2 then 0 else 0, sk1, bump h u, p4)"
      "driver_disconnect env sk1 p4 = Some p5" "linked (kern p5)" "drv (kern p5) = drv (kern p3)" "inbox (kern p5) = []"
      "used_ports_map p5 = release_local_port (nl_pid (s_local sk)) (used_ports_map p3)"
    by (rule receive_disconnect [OF x(2,11,13) attrs sk1_def, where e = 0 and u = "bump h u" and u' = "bump h u"]) simp_all
  have "nf10_reg_wr env stack a v u p = Some (0, bump h u, p5)"
    using x(1,4-6,8-10) put r(1,2)
    by (simp add: nf10_reg_wr_def sk1_def case_prod_beta Let_def)
  then show thesis
    using that r(3-6) x(3,12) by simp
qed

end

section \<open>The driver behind the link\<close>

text \<open>
  The driver as the kernel calls it: an unknown command is refused with \<^verbatim>\<open>EOPNOTSUPP\<close> (95),
  attributes against the policy with \<^verbatim>\<open>EINVAL\<close>, otherwise the handler runs; the replies are
  those it has sent.
\<close>

definition serve_nf10 ::
  "genl_kernel \<Rightarrow> hardware \<Rightarrow> nat \<Rightarrow> genl_info \<Rightarrow> nf10 \<Rightarrow> (i32 \<times> (nat \<times> nl_attrs) list \<times> nf10) option" where
  "serve_nf10 gk hw cmd info s =
    (case map_of genl_all_ops cmd of
       None \<Rightarrow> Some (- 95, [], s)
     | Some f \<Rightarrow>
        if \<not> nf10_genl_policy_ok info then Some (- EINVAL, [], s)
        else do {
          (ret, s') \<leftarrow> f gk hw (Some info) s;
          Some (ret, drop (length (replies s)) (replies s'), s')
        })"

text \<open>
  A kernel for the link: every call succeeds, the controller answers with the two families that are
  registered, in a datagram each, and the other requests go to the driver.
\<close>

record sim =
  sim_drv :: nf10
  sim_inbox :: "bytes list"
  sim_names :: "i32 \<Rightarrow> sockaddr_nl"

definition sim_families :: "genl_family list list" where
  "sim_families =
    [[\<lparr>gf_id = 16, gf_name = map of_char ''nlctrl'', gf_version = 2, gf_hdrsize = 0, gf_maxattr = 7, gf_ops = [(3, 14)],
       gf_mc_grps = [(16, map of_char ''notify'')], gf_borrowed = False\<rparr>],
     [\<lparr>gf_id = 20, gf_name = NF10_GENL_FAMILY_NAME, gf_version = 1, gf_hdrsize = 0,
       gf_maxattr = word_of_nat NF10_GENL_A_MAX, gf_ops = map (\<lambda>(cmd, _). (word_of_nat cmd, 10)) genl_all_ops,
       gf_mc_grps = [], gf_borrowed = False\<rparr>]]"

definition sim_sendmsg :: "genl_kernel \<Rightarrow> hardware \<Rightarrow> bytes \<Rightarrow> sim \<Rightarrow> (i32 + i32) \<times> sim" where
  "sim_sendmsg gk hw data k =
    (let r = do {
       fam \<leftarrow> ld16 data NLH_TYPE;
       sq \<leftarrow> ld32 data NLH_SEQ;
       pid \<leftarrow> ld32 data NLH_PID;
       if fam = 16
       then Some (k\<lparr>sim_inbox := sim_inbox k @ map (family_datagram sq pid) sim_families @ [done_msg sq pid]\<rparr>)
       else do {
         cmd \<leftarrow> ld8 data 16;
         (_, tb) \<leftarrow> genlmsg_parse data 0 0 Map.empty (word_of_nat NF10_GENL_A_MAX) None;
         (ret, rs, d) \<leftarrow> serve_nf10 gk hw (unat cmd)
           (\<lambda>t. if 0 < t \<and> t \<le> NF10_GENL_A_MAX then Option.bind (tb t) (attr_payload data) else None) (sim_drv k);
         Some (k\<lparr>sim_drv := d, sim_inbox := sim_inbox k @ map (reply_bytes fam sq pid) rs @ [ack_bytes ret sq pid data]\<rparr>)
       }
     } in
     case r of None \<Rightarrow> (Inl 22, k) | Some k' \<Rightarrow> (Inr (word_of_nat (length data)), k'))"

definition sim_recvmsg :: "sim \<Rightarrow> (i32 + recv_result) \<times> sim" where
  "sim_recvmsg k =
    (case sim_inbox k of
       [] \<Rightarrow> (Inl 11, k)
     | d # ds \<Rightarrow> (Inr (datagram d kernel_addr), k\<lparr>sim_inbox := ds\<rparr>))"

definition sim_sys :: "genl_kernel \<Rightarrow> hardware \<Rightarrow> sim sys" where
  "sim_sys gk hw = \<lparr>sys_alloc = (\<lambda>k. (True, k)), sys_time = (\<lambda>k. 1000), sys_getpid = (\<lambda>k. 4242),
     sys_pagesize = 4096, sys_socket = (\<lambda>af ty proto k. (Inr 3, k)),
     sys_fcntl = (\<lambda>fd cmd arg k. (Inr 0, k)),
     sys_setsockopt = (\<lambda>fd lv opt v k. (Inr (), k)),
     sys_bind = (\<lambda>fd a k. (Inr (), k\<lparr>sim_names := (sim_names k)(fd := a)\<rparr>)),
     sys_getsockname = (\<lambda>fd k. (Inr (sim_names k fd, 12), k)),
     sys_close = (\<lambda>fd k. k\<lparr>sim_inbox := []\<rparr>),
     sys_sendto = (\<lambda>fd dst data k. sim_sendmsg gk hw data k),
     sys_sendmsg = (\<lambda>fd dst creds data k. sim_sendmsg gk hw data k),
     sys_recvmsg = (\<lambda>fd n ctl peek k. sim_recvmsg k)\<rparr>"

definition sim_env :: "genl_kernel \<Rightarrow> hardware \<Rightarrow> sim env" where
  "sim_env gk hw = \<lparr>env_sys = sim_sys gk hw, default_cb = NL_CB_DEFAULT, default_msg_size = 4096\<rparr>"

lemma sim_request_info:
  assumes "b = genl_bytes ty fl sq pid cmd ver as" and "list_all attr_ok as"
  shows "(\<lambda>t. if 0 < t \<and> t \<le> NF10_GENL_A_MAX
        then Option.bind (attr_index NF10_GENL_A_MAX 20 as Map.empty t) (attr_payload b) else None) = request_info as"
proof (rule ext)
  fix t
  show "(if 0 < t \<and> t \<le> NF10_GENL_A_MAX
      then Option.bind (attr_index NF10_GENL_A_MAX 20 as Map.empty t) (attr_payload b) else None) = request_info as t"
  proof (cases "0 < t \<and> t \<le> NF10_GENL_A_MAX")
    case True
    then have u: "unat (word_of_nat t :: u16) = t"
      by (simp add: unat_of_nat NF10_GENL_A_MAX_def)
    moreover from u True have "word_of_nat t \<noteq> (0 :: u16)" by auto
    ultimately show ?thesis
      using True genl_attr_payload [of b ty fl sq pid cmd ver as "[]" "word_of_nat t" NF10_GENL_A_MAX] assms
      by (simp add: request_info_def)
  qed (auto simp: request_info_def)
qed

lemma sim_families_ok:
  assumes "fs \<in> set sim_families"
  shows "fs \<noteq> [] \<and> list_all family_ok fs \<and> length (family_datagram 0 0 fs) \<le> 4096"
  using assms
  by (auto simp: sim_families_def family_ok_def name_ok_def GENL_NAMSIZ_def NF10_GENL_FAMILY_NAME_def genl_all_ops_def
      family_datagram_def family_msg_def family_attrs_def op_attrs_def grp_attrs_def align4_def)

lemma not_neg_length: "n < 2 ^ 31 \<Longrightarrow> \<not> is_neg (word_of_nat n :: i32)"
  using sint_count [of n] by simp

interpretation nf10_ctrl: ctrl_link "env_sys (sim_env gk hw)" "default_msg_size (sim_env gk hw)" "\<lambda>k. True"
    sim_drv sim_inbox sim_families
  for gk :: genl_kernel and hw :: hardware
proof (unfold_locales, goal_cases)
  case (6 fs)
  then show ?case by (rule sim_families_ok)
next
  case (7 k fd dst sq pid)
  let ?b = "genl_bytes 16 (ucast NLM_F_DUMP OR NLM_F_REQUEST OR NLM_F_ACK) sq pid 3 1 []"
  have b: "?b = ?b @ []" "length ?b < 2 ^ 30" by simp_all
  show ?case
    using genl_bytes_fields(2,4,5) [OF b] 7(2) not_neg_length [of 20]
    by (simp add: sim_env_def sim_sys_def sim_sendmsg_def)
qed (auto simp: sim_env_def sim_sys_def keeps_def sim_recvmsg_def)

interpretation nf10_link: genl_link "sim_env gk hw" "\<lambda>k. True" sim_drv sim_inbox sim_families "serve_nf10 gk hw" 4242 20
  for gk :: genl_kernel and hw :: hardware
proof (unfold_locales, goal_cases)
  case 2
  then show ?case by (simp add: sim_families_def NF10_GENL_FAMILY_NAME_def)
next
  case (9 k as cmd ret rs d fd dst sq pid)
  let ?b = "genl_bytes 20 (NLM_F_REQUEST OR NLM_F_ACK) sq pid cmd NF10_GENL_FAMILY_VERSION as"
  have b: "?b = ?b @ []" "length ?b < 2 ^ 30" using 9 by simp_all
  have parse: "genlmsg_parse ?b 0 0 Map.empty (word_of_nat NF10_GENL_A_MAX) None
      = Some (0, attr_index NF10_GENL_A_MAX 20 as Map.empty)"
    by (rule genlmsg_parse_bytes [OF b 9(3)]) (simp add: NF10_GENL_A_MAX_def)
  have "\<not> is_neg (word_of_nat (length ?b))"
    using 9(4) by (intro not_neg_length) simp
  then show ?case
    using genl_bytes_fields [OF b] parse sim_request_info [OF refl 9(3)] 9(2,5)
    by (simp add: sim_env_def sim_sys_def sim_sendmsg_def del: length_genl_bytes)
qed (auto simp: sim_env_def sim_sys_def keeps_def)

lemma request_info_reg:
  fixes a v :: u32
  defines "rd \<equiv> request_info [(3, le32 a)]" and "wr \<equiv> request_info [(3, le32 a), (4, le32 v)]"
  shows "rd NF10_GENL_A_ADDR32 = Some (le32 a)" "wr NF10_GENL_A_ADDR32 = Some (le32 a)"
    "wr NF10_GENL_A_REGVAL32 = Some (le32 v)" "nf10_genl_policy_ok rd" "nf10_genl_policy_ok wr"
  by (simp_all add: rd_def wr_def request_info_def genl_attr_defs NF10_GENL_A_MAX_def nf10_genl_policy_ok_def)

lemma serve_reg:
  "nf10_genl_policy_ok info \<Longrightarrow> genl_cmd_reg_rd gk hw (Some info) s = Some (ret, s') \<Longrightarrow>
     replies s' = replies s @ rs \<Longrightarrow> serve_nf10 gk hw NF10_GENL_C_REG_RD info s = Some (ret, rs, s')"
  "nf10_genl_policy_ok info \<Longrightarrow> genl_cmd_reg_wr gk (Some info) s = Some (ret, s') \<Longrightarrow>
     replies s' = replies s @ rs \<Longrightarrow> serve_nf10 gk hw NF10_GENL_C_REG_WR info s = Some (ret, rs, s')"
  by (simp_all add: serve_nf10_def genl_all_ops_def genl_cmd_defs)

lemma reply_sizes:
  "20 + length (enc_attrs (attrs16 [(NF10_GENL_A_REGVAL32, le32 v), (NF10_GENL_A_ERRNO, le32 e)])) \<le> 4096"
  "20 + length (enc_attrs (attrs16 [(NF10_GENL_A_ERRNO, le32 e)])) \<le> 4096"
  by (simp_all add: attrs16_def align4_def)

text \<open>
  Claim C4.  From program to card and back: through the library, the netlink messages and the
  driver, a register write followed by a register read returns success twice and stores in
  the variable of the caller the value written, when the addresses are equal, or what the
  other register held; both calls resolve the family of the driver by its name, and no object
  or cache they allocate for that is left.
\<close>

theorem reg_lib_write_then_read:
  assumes link: "genl_link env linked drv inbox dump (serve_nf10 gk hw) pid famid"
    and start: "linked (kern p)" "inbox (kern p) = []" "port_free pid (used_ports_map p)" "heap_free (lib u)"
    and s: "s = drv (kern p)" and up: "genl_up gk" and mapped: "regs_mapped s"
    and hw: "\<forall>trace c. hw trace (reg_cell s c) = paged_card (page_reg s) trace (reg_cell s c)"
    and align: "reg_offset a mod 4 = 0" "reg_offset b mod 4 = 0"
  shows "\<exists>u1 p1 u2 p2. nf10_reg_wr env stack a v u p = Some (0, u1, p1) \<and> nf10_reg_rd env stack b vp u1 p1 = Some (0, u2, p2)
    \<and> mem u1 = mem u
    \<and> mem u2 = (mem u)(vp := (if b = a then v else snd (card_regs (page_reg s) (bus s)) (reg_page b) (reg_cell s b)))
    \<and> h_objs (lib u2) = h_objs (lib u) \<and> h_caches (lib u2) = h_caches (lib u)"
proof -
  define old where "old = (if b = a then v else snd (card_regs (page_reg s) (bus s)) (reg_page b) (reg_cell s b))"
  obtain s1 s2 where h: "genl_cmd_reg_wr gk (Some (request_info [(3, le32 a), (4, le32 v)])) s = Some (0, s1)"
    "replies s1 = replies s @ [(NF10_GENL_C_REG_WR, [(NF10_GENL_A_ERRNO, le32 0)])]"
    "genl_cmd_reg_rd gk hw (Some (request_info [(3, le32 b)])) s1 = Some (0, s2)"
    "replies s2 = replies s1 @ [(NF10_GENL_C_REG_RD, [(NF10_GENL_A_REGVAL32, le32 old), (NF10_GENL_A_ERRNO, le32 0)])]"
    using reg_write_read_effect [where wr = "request_info [(3, le32 a), (4, le32 v)]"
        and rd = "request_info [(3, le32 b)]" and hw = hw,
        OF up mapped hw request_info_reg(2,3) request_info_reg(1) align] unfolding old_def by blast
  have srv1: "serve_nf10 gk hw NF10_GENL_C_REG_WR (request_info [(3, le32 a), (4, le32 v)]) (drv (kern p))
      = Some (0, [(NF10_GENL_C_REG_WR, [(NF10_GENL_A_ERRNO, le32 0)])], s1)"
    using serve_reg(2) [OF request_info_reg(5) h(1,2)] s by simp
  obtain h1 p1 where p1: "nf10_reg_wr env stack a v u p = Some (0, bump h1 u, p1)" "linked (kern p1)" "drv (kern p1) = s1"
    "inbox (kern p1) = []" "used_ports_map p1 = used_ports_map p"
    by (rule genl_link.nf10_reg_wr_result [OF link start srv1 reply_sizes(2)])
  have ports: "port_free pid (used_ports_map p1)" "heap_free (lib (bump h1 u))"
    using start(3,4) p1(5) heap_free_bump [of u h1] by simp_all
  have srv2: "serve_nf10 gk hw NF10_GENL_C_REG_RD (request_info [(3, le32 b)]) (drv (kern p1))
      = Some (0, [(NF10_GENL_C_REG_RD, [(NF10_GENL_A_REGVAL32, le32 old), (NF10_GENL_A_ERRNO, le32 0)])], s2)"
    using serve_reg(1) [OF request_info_reg(4) h(3,4)] p1(3) by simp
  obtain h2 p2 where "nf10_reg_rd env stack b vp (bump h1 u) p1 = Some (if (0 :: i32) = 1 \<or> (0 :: i32) = 2 then 0 else 0,
      store vp old (bump h2 (bump h1 u)), p2)"
    by (rule genl_link.nf10_reg_rd_result [OF link p1(2,4) ports srv2 reply_sizes(1) reg_rd_cb_value])
  with p1(1) show ?thesis by (simp add: old_def store_def bump_def)
qed

text \<open>
  Claim C35.  Errors of the driver: a command for an address that is not a multiple of four is
  refused by the driver without touching the card.  A read reports its error -1; a write
  returns 0, the library looks for the error in the acknowledgement and not in the reply.
\<close>

theorem reg_lib_write_error_lost:
  assumes link: "genl_link env linked drv inbox dump (serve_nf10 gk hw) pid famid"
    and start: "linked (kern p)" "inbox (kern p) = []" "port_free pid (used_ports_map p)" "heap_free (lib u)"
    and up: "genl_up gk" and unaligned: "reg_offset a mod 4 \<noteq> 0"
  shows "\<exists>u1 p1 u2 p2. nf10_reg_wr env stack a v u p = Some (0, u1, p1) \<and> bus (drv (kern p1)) = bus (drv (kern p))
    \<and> nf10_reg_rd env stack a vp u p = Some (- 1, u2, p2) \<and> bus (drv (kern p2)) = bus (drv (kern p))
    \<and> mem u1 = mem u \<and> mem u2 = mem u"
proof -
  let ?s = "drv (kern p)"
  let ?wr = "request_info [(3, le32 a), (4, le32 v)]" and ?rd = "request_info [(3, le32 a)]"
  have rej: "genl_cmd_reg_wr gk (Some ?wr) ?s
      = Some (0, ?s\<lparr>replies := replies ?s @ [(NF10_GENL_C_REG_WR, [(NF10_GENL_A_ERRNO, le32 (- 1))])]\<rparr>)"
    "genl_cmd_reg_rd gk hw (Some ?rd) ?s
      = Some (0, ?s\<lparr>replies := replies ?s @ [(NF10_GENL_C_REG_RD, [(NF10_GENL_A_ERRNO, le32 (- 1))])]\<rparr>)"
    using reg_rejected [where attrs = ?wr and k = gk and hw = hw and s = ?s]
      reg_rejected [where attrs = ?rd and k = gk and hw = hw and s = ?s] up unaligned request_info_reg
    by auto
  have srv: "serve_nf10 gk hw NF10_GENL_C_REG_WR ?wr ?s = Some (0, [(NF10_GENL_C_REG_WR, [(NF10_GENL_A_ERRNO, le32 (- 1))])],
      ?s\<lparr>replies := replies ?s @ [(NF10_GENL_C_REG_WR, [(NF10_GENL_A_ERRNO, le32 (- 1))])]\<rparr>)"
    "serve_nf10 gk hw NF10_GENL_C_REG_RD ?rd ?s = Some (0, [(NF10_GENL_C_REG_RD, [(NF10_GENL_A_ERRNO, le32 (- 1))])],
      ?s\<lparr>replies := replies ?s @ [(NF10_GENL_C_REG_RD, [(NF10_GENL_A_ERRNO, le32 (- 1))])]\<rparr>)"
    using serve_reg(2) [OF request_info_reg(5) rej(1)] serve_reg(1) [OF request_info_reg(4) rej(2)] by simp_all
  have ne: "(- 1 :: i32) \<noteq> 0" by simp
  obtain h1 p1 where p1: "nf10_reg_wr env stack a v u p = Some (0, bump h1 u, p1)"
    "drv (kern p1) = ?s\<lparr>replies := replies ?s @ [(NF10_GENL_C_REG_WR, [(NF10_GENL_A_ERRNO, le32 (- 1))])]\<rparr>"
    by (rule genl_link.nf10_reg_wr_result [OF link start srv(1) reply_sizes(2)])
  obtain h2 p2 where p2: "nf10_reg_rd env stack a vp u p
      = Some (if (- 1 :: i32) = 1 \<or> (- 1 :: i32) = 2 then 0 else - 1, bump h2 u, p2)"
    "drv (kern p2) = ?s\<lparr>replies := replies ?s @ [(NF10_GENL_C_REG_RD, [(NF10_GENL_A_ERRNO, le32 (- 1))])]\<rparr>"
    by (rule genl_link.nf10_reg_rd_result [OF link start srv(2) reply_sizes(2) reg_rd_cb_error [OF ne]])
  show ?thesis
    using p1 p2 by (simp add: bump_def)
qed

section \<open>The example programs\<close>

lemma counter_value: "j < 2 ^ 29 \<Longrightarrow> sint (word_of_nat (4 * j) :: i32) = 4 * int j"
  using sint_nonneg_u32 [of "word_of_nat (4 * j)"] by (simp add: unat_of_nat del: of_nat_mult)

lemma example_loop_from:
  assumes step: "\<And>j s. j < 2 ^ 29 \<Longrightarrow> I s \<Longrightarrow>
      \<exists>l s'. step (word_of_nat (4 * j)) s = Some (l, s') \<and> fst l = word_of_nat (4 * j) \<and> Q l \<and> I s'"
    and "I s" and "k < 2 ^ 29" and "0 < k"
  shows "\<exists>ls s'. example_loop step (word_of_nat (4 * k)) s = Some (ls, Overflowed, s')
           \<and> map fst ls = map (\<lambda>j. word_of_nat (4 * j)) [k..<2 ^ 29] \<and> list_all Q ls \<and> I s'"
  using assms(2-)
proof (induction "2 ^ 29 - Suc k" arbitrary: k s)
  case 0
  then have k: "k = 2 ^ 29 - 1" by simp
  let ?i = "word_of_nat (4 * k) :: i32"
  obtain l s1 where l: "step ?i s = Some (l, s1)" "fst l = ?i" "Q l" "I s1"
    using step [OF 0(3,2)] by blast
  have "sint ?i = 4 * int k" using counter_value [OF 0(3)] .
  then have "?i \<noteq> 0" "2 ^ 31 \<le> sint ?i + 4" using k by auto
  moreover have "[k..<2 ^ 29] = [k]" using 0(3) k by (simp add: upt_conv_Cons)
  ultimately show ?case using l by (subst example_loop.simps) simp
next
  case (Suc n)
  let ?i = "word_of_nat (4 * k) :: i32"
  have k: "k < 2 ^ 29" "n = 2 ^ 29 - Suc (Suc k)" "Suc k < 2 ^ 29" using Suc.hyps(2) by auto
  have "sint ?i = 4 * int k" using counter_value [OF k(1)] .
  then have i: "?i \<noteq> 0" "\<not> 2 ^ 31 \<le> sint ?i + 4" using k(3) Suc.prems(3) by auto
  obtain l s1 where l: "step ?i s = Some (l, s1)" "fst l = ?i" "Q l" "I s1"
    using step [OF k(1) Suc.prems(1)] by blast
  have next_i: "word_of_nat (4 * Suc k) = ?i + 4" by simp
  obtain ls s2 where "example_loop step (?i + 4) s1 = Some (ls, Overflowed, s2)"
      "map fst ls = map (\<lambda>j. word_of_nat (4 * j)) [Suc k..<2 ^ 29]" "list_all Q ls" "I s2"
    using Suc.hyps(1) [OF k(2) l(4) k(3)] unfolding next_i by blast
  moreover have "[k..<2 ^ 29] = k # [Suc k..<2 ^ 29]" using k(1) by (rule upt_conv_Cons)
  ultimately show ?case using l i by (subst example_loop.simps) simp
qed

lemma reg_offset_multiple: "reg_offset (word_of_nat (4 * j)) mod 4 = 0"
proof -
  have "unat (word_of_nat (4 * j) :: u32) = 4 * j mod 4294967296"
    by (simp only: unat_of_nat) (simp add: take_bit_eq_mod)
  moreover have "4 dvd (4 * j mod 4294967296) mod 1048576"
    by (intro dvd_mod) simp_all
  then have "(4 * j mod 4294967296) mod 1048576 mod 4 = 0" by (rule dvd_imp_mod_0)
  ultimately have "unat (reg_offset (word_of_nat (4 * j))) mod 4 = 0"
    by (simp only: unat_reg_offset)
  then show ?thesis by (simp add: word_unat_eq_iff unat_mod)
qed

lemma rd_step_ok:
  assumes link: "genl_link env linked drv inbox dump (serve_nf10 gk hw) pid famid" and up: "genl_up gk"
    and I: "linked (kern p)" "inbox (kern p) = []" "port_free pid (used_ports_map p)" "heap_free (lib u)"
      "regs_mapped (drv (kern p))"
    and a: "reg_offset a mod 4 = 0"
  shows "\<exists>v u' p'. rd_step env stack x a (u, p) = Some ((a, Inr v), u', p') \<and> linked (kern p')
    \<and> inbox (kern p') = [] \<and> port_free pid (used_ports_map p') \<and> heap_free (lib u') \<and> regs_mapped (drv (kern p'))"
proof -
  let ?s = "drv (kern p)" and ?rd = "request_info [(3, le32 a)]"
  define v where "v = hw (bus ?s @ [MmioWr (page_reg ?s) (reg_page a), Barrier]) (reg_cell ?s a)"
  define s' where "s' = ?s\<lparr>bus := bus ?s @ [MmioWr (page_reg ?s) (reg_page a), Barrier, MmioRd (reg_cell ?s a) v],
    replies := replies ?s @ [(NF10_GENL_C_REG_RD, [(NF10_GENL_A_REGVAL32, le32 v), (NF10_GENL_A_ERRNO, le32 0)])]\<rparr>"
  have h: "genl_cmd_reg_rd gk hw (Some ?rd) ?s = Some (0, s')"
    using reg_rd_effect [where attrs = ?rd and hw = hw, OF up I(5) request_info_reg(1) a] by (simp add: s'_def v_def)
  have rs: "replies s' = replies ?s @ [(NF10_GENL_C_REG_RD, [(NF10_GENL_A_REGVAL32, le32 v), (NF10_GENL_A_ERRNO, le32 0)])]"
    by (simp add: s'_def)
  obtain h p' where p': "nf10_reg_rd env stack a x u p
        = Some (if (0 :: i32) = 1 \<or> (0 :: i32) = 2 then 0 else 0, store x v (bump h u), p')"
      "linked (kern p')" "drv (kern p') = s'" "inbox (kern p') = []" "used_ports_map p' = used_ports_map p"
    by (rule genl_link.nf10_reg_rd_result [OF link I(1-4) serve_reg(1) [OF request_info_reg(4) h rs]
          reply_sizes(1) reg_rd_cb_value])
  have "regs_mapped s'" using I(5) by (simp add: s'_def regs_mapped_def)
  moreover have "heap_free (lib (store x v (bump h u)))"
    using heap_free_bump [OF I(4), of h] by (simp add: store_def)
  ultimately show ?thesis
    using p' I(3) by (simp add: rd_step_def example_line_def)
qed

text \<open>
  Claim C36.  With the card up, the reading example program reads the registers at the multiples of four from 4 to 0x7FFFFFFC, in this
  order, prints a value for each of them, and then overflows its counter, an \<^verbatim>\<open>int\<close>: it has no execution that is defined in C and
  returns, and no register in the upper half of the addresses is read before the overflow.
\<close>

theorem rd_main_overflows:
  fixes env :: "'k env" and p :: "'k proc" and u :: umem
  assumes link: "genl_link env linked drv inbox dump (serve_nf10 gk hw) pid famid" and up: "genl_up gk"
    and start: "linked (kern p)" "inbox (kern p) = []" "port_free pid (used_ports_map p)" "heap_free (lib u)"
      "regs_mapped (drv (kern p))"
  shows "\<exists>ls u' p'. rd_main env stack x u p = Some (ls, Overflowed, u', p')
    \<and> map fst ls = map (\<lambda>j. word_of_nat (4 * j)) [1..<2 ^ 29] \<and> list_all (\<lambda>l. \<exists>v. snd l = Inr v) ls"
proof -
  define I where "I = (\<lambda>(u :: umem, p :: 'k proc). linked (kern p) \<and> inbox (kern p) = []
    \<and> port_free pid (used_ports_map p) \<and> heap_free (lib u) \<and> regs_mapped (drv (kern p)))"
  have step: "\<exists>l s'. rd_step env stack x (word_of_nat (4 * j)) s = Some (l, s') \<and> fst l = word_of_nat (4 * j)
      \<and> (\<exists>v. snd l = Inr v) \<and> I s'" if "I s" for j s
  proof -
    obtain u p where s: "s = (u, p)" by force
    have I: "linked (kern p)" "inbox (kern p) = []" "port_free pid (used_ports_map p)" "heap_free (lib u)"
        "regs_mapped (drv (kern p))"
      using that by (simp_all add: s I_def)
    show ?thesis
      using rd_step_ok [OF link up I reg_offset_multiple, of stack x j] by (auto simp: s I_def)
  qed
  have "\<exists>ls s'. example_loop (rd_step env stack x) (word_of_nat (4 * 1)) (u, p) = Some (ls, Overflowed, s')
      \<and> map fst ls = map (\<lambda>j. word_of_nat (4 * j)) [1..<2 ^ 29] \<and> list_all (\<lambda>l. \<exists>v. snd l = Inr v) ls \<and> I s'"
    by (rule example_loop_from) (use step start in \<open>auto simp: I_def\<close>)
  then show ?thesis by (auto simp: rd_main_def)
qed

end
