(* ===== verification/C_Text.thy ===== *)
theory C_Text
  imports NF10_Prelude
begin

text \<open>
  Text in C: strings are lists of bytes without the terminating NUL.  The functions of the C library that
  the sources use to read and print numbers and to compare names without case.
\<close>

definition str :: "string \<Rightarrow> bytes" where
  "str s = map of_char s"

section \<open>Reading numbers\<close>

text \<open>
  \<^verbatim>\<open>strtoul\<close>, \<^verbatim>\<open>strtoull\<close> and \<^verbatim>\<open>strtol\<close> with base 0: white space, a sign, a prefix that chooses the
  base, then as many digits of that base as follow; a value that does not fit gives the largest (or
  smallest) number.  The result has the text behind the number; it is \<^term>\<open>None\<close> if there is no number.
\<close>

definition digit_val :: "u8 \<Rightarrow> nat" where
  "digit_val c =
    (let n = unat c in
     if 48 \<le> n \<and> n \<le> 57 then n - 48
     else if 97 \<le> n \<and> n \<le> 122 then n - 87
     else if 65 \<le> n \<and> n \<le> 90 then n - 55
     else 255)"

definition digits :: "nat \<Rightarrow> bytes \<Rightarrow> nat" where
  "digits base s = fold (\<lambda>c acc. acc * base + digit_val c) (takeWhile (\<lambda>c. digit_val c < base) s) 0"

definition is_space :: "u8 \<Rightarrow> bool" where
  "is_space c \<longleftrightarrow> c = 32 \<or> 9 \<le> unat c \<and> unat c \<le> 13"

definition number_base :: "bytes \<Rightarrow> nat \<times> bytes" where
  "number_base s =
    (if s = [] \<or> hd s \<noteq> 48 then (10, s)
     else if 2 < length s \<and> (s ! 1 = 120 \<or> s ! 1 = 88) \<and> digit_val (s ! 2) < 16 then (16, drop 2 s)
     else (8, s))"

definition parse_unsigned :: "bytes \<Rightarrow> (nat \<times> bytes) option" where
  "parse_unsigned s =
    (case number_base s of (base, t) \<Rightarrow>
       if t = [] \<or> base \<le> digit_val (hd t) then None
       else Some (digits base t, dropWhile (\<lambda>c. digit_val c < base) t))"

definition parse_number :: "bytes \<Rightarrow> (bool \<times> nat \<times> bytes) option" where
  "parse_number s =
    (let s = dropWhile is_space s;
         neg = (s \<noteq> [] \<and> hd s = 45);
         s = (if s \<noteq> [] \<and> (hd s = 45 \<or> hd s = 43) then tl s else s) in
     map_option (Pair neg) (parse_unsigned s))"

definition strtoul :: "bytes \<Rightarrow> (u64 \<times> bytes) option" where
  "strtoul s = map_option (\<lambda>(neg, n, rest).
     (if 2 ^ 64 \<le> n then - 1 else if neg then - word_of_nat n else word_of_nat n, rest)) (parse_number s)"

definition strtoull :: "bytes \<Rightarrow> u64" where
  "strtoull s = (case strtoul s of None \<Rightarrow> 0 | Some (n, _) \<Rightarrow> n)"

definition strtol :: "bytes \<Rightarrow> (u64 \<times> bytes) option" where
  "strtol s = map_option (\<lambda>(neg, n, rest).
     (if neg then - word_of_nat (min n (2 ^ 63)) else word_of_nat (min n (2 ^ 63 - 1)), rest)) (parse_number s)"

section \<open>Comparing and printing\<close>

definition tolower :: "u8 \<Rightarrow> u8" where
  "tolower c = (if 65 \<le> unat c \<and> unat c \<le> 90 then c + 32 else c)"

text \<open>Whether \<^verbatim>\<open>strcasecmp\<close> and \<^verbatim>\<open>strncasecmp\<close> are 0.\<close>

definition strcasecmp0 :: "bytes \<Rightarrow> bytes \<Rightarrow> bool" where
  "strcasecmp0 s t \<longleftrightarrow> map tolower s = map tolower t"

definition strncasecmp0 :: "bytes \<Rightarrow> bytes \<Rightarrow> nat \<Rightarrow> bool" where
  "strncasecmp0 s t n \<longleftrightarrow> map tolower (take n s) = map tolower (take n t)"

text \<open>\<^verbatim>\<open>%x\<close>, and \<^verbatim>\<open>%d\<close> of a number that is not negative.\<close>

definition digit_char :: "nat \<Rightarrow> u8" where
  "digit_char d = (if d < 10 then word_of_nat (48 + d) else word_of_nat (87 + d))"

fun to_base :: "nat \<Rightarrow> nat \<Rightarrow> bytes" where
  "to_base b n = (if b < 2 \<or> n < b then [digit_char n] else to_base b (n div b) @ [digit_char (n mod b)])"

declare to_base.simps [simp del]

text \<open>\<^verbatim>\<open>snprintf\<close> and \<^verbatim>\<open>strncat\<close> on the string in a buffer of \<open>len\<close> bytes; \<open>buf\<close> is the string before the call.\<close>

definition snprintf :: "bytes \<Rightarrow> nat \<Rightarrow> bytes \<Rightarrow> bytes" where
  "snprintf buf len text = (if len = 0 then buf else take (len - 1) text)"

definition strncat :: "bytes \<Rightarrow> bytes \<Rightarrow> nat \<Rightarrow> bytes" where
  "strncat buf text n = buf @ take n text"

section \<open>A printed number is read back\<close>

lemma unat_digit_char: "d < 16 \<Longrightarrow> unat (digit_char d) = (if d < 10 then 48 + d else 87 + d)"
  by (simp add: digit_char_def unat_of_nat del: of_nat_add)

lemma digit_val_char: "d < 16 \<Longrightarrow> digit_val (digit_char d) = d"
  by (simp add: digit_val_def unat_digit_char Let_def)

lemma to_base_nonempty [simp]: "to_base b n \<noteq> []"
  by (subst to_base.simps) simp

lemma to_base_digits: "2 \<le> b \<Longrightarrow> b \<le> 16 \<Longrightarrow> c \<in> set (to_base b n) \<Longrightarrow> digit_val c < b"
proof (induction b n rule: to_base.induct)
  case (1 b n)
  show ?case
  proof (cases "n < b")
    case True
    then show ?thesis using 1(2-4) by (simp add: to_base.simps [of b n] digit_val_char)
  next
    case False
    then have "c \<in> set (to_base b (n div b)) \<or> c = digit_char (n mod b)" using 1(2,4) by (auto simp: to_base.simps [of b n])
    moreover have "n mod b < b" "n mod b < 16" using 1(2,3) by (simp_all add: less_le_trans [of "n mod b" b])
    ultimately show ?thesis using 1 False by (auto simp: digit_val_char)
  qed
qed

lemma fold_to_base:
  "2 \<le> b \<Longrightarrow> b \<le> 16 \<Longrightarrow> fold (\<lambda>c acc. acc * b + digit_val c) (to_base b n) 0 = n"
proof (induction b n rule: to_base.induct)
  case (1 b n)
  show ?case
  proof (cases "n < b")
    case True
    then show ?thesis using 1(2,3) by (simp add: to_base.simps [of b n] digit_val_char)
  next
    case False
    have "n mod b < b" using 1(2) by simp
    then have "n mod b < 16" using 1(3) by linarith
    then have "fold (\<lambda>c acc. acc * b + digit_val c) (to_base b n) 0 = n div b * b + n mod b"
      using 1 False by (simp add: to_base.simps [of b n] digit_val_char)
    then show ?thesis by simp
  qed
qed

lemma digits_to_base:
  assumes "2 \<le> b" "b \<le> 16" and "rest = [] \<or> b \<le> digit_val (hd rest)"
  shows "digits b (to_base b n @ rest) = n" "dropWhile (\<lambda>c. digit_val c < b) (to_base b n @ rest) = rest"
proof -
  have d: "\<forall>c \<in> set (to_base b n). digit_val c < b" using to_base_digits [OF assms(1,2)] by blast
  have r: "takeWhile (\<lambda>c. digit_val c < b) rest = []" "dropWhile (\<lambda>c. digit_val c < b) rest = rest"
    using assms(3) by (cases rest; simp)+
  show "digits b (to_base b n @ rest) = n"
    using d r fold_to_base [OF assms(1,2)] by (simp add: digits_def takeWhile_append2)
  show "dropWhile (\<lambda>c. digit_val c < b) (to_base b n @ rest) = rest" using d r by (simp add: dropWhile_append2)
qed

end
