(* ===== verification/NF10_DriverCtrl.thy ===== *)
theory NF10_DriverCtrl
  imports NF10_RegLib C_Text
begin

text \<open>
  The control program (\<^verbatim>\<open>driver_ctrl.c\<close>): its commands, what they print and the callbacks they
  receive with.  Strings are lists of bytes without the terminating NUL.
\<close>

section \<open>State of the program\<close>

datatype ctl_line =
    O_error string
  | O_at_least bytes nat
  | O_at_most bytes nat
  | O_unknown bytes
  | O_usage bytes
  | O_reply bytes
  | O_msg bytes
  | O_len i32
  | O_opcode u32
  | O_nodata
  | O_value u32

record ctl = "genl_family libstate" +
  program_name :: bytes
  stdout :: "ctl_line list"
  retval :: u32

definition say :: "ctl_line \<Rightarrow> ctl \<Rightarrow> ctl" where
  "say l u = u\<lparr>stdout := stdout u @ [l]\<rparr>"

definition argv_at :: "bytes list \<Rightarrow> nat \<Rightarrow> bytes option" where
  "argv_at argv i = (if i < length argv then Some (argv ! i) else None)"

definition set_program_name :: "bytes \<Rightarrow> ctl \<Rightarrow> ctl" where
  "set_program_name argv0 u = u\<lparr>program_name :=
     (if 47 \<in> set argv0 then rev (takeWhile (\<lambda>c. c \<noteq> 47) (rev argv0)) else argv0)\<rparr>"

definition usage :: "ctl \<Rightarrow> ctl" where
  "usage u = say (O_usage (program_name u)) u"

section \<open>Connecting\<close>

definition ctl_driver_connect ::
  "'k env \<Rightarrow> ctl \<Rightarrow> 'k proc \<Rightarrow> (i32 \<times> (ctl nl_sock \<times> i32) option \<times> ctl \<times> 'k proc) option" where
  "ctl_driver_connect env u p = do {
     (sk, p) \<leftarrow> nl_socket_alloc (env_sys env) (default_cb env) p;
     (case sk of
        None \<Rightarrow> Some (- 1, None, say (O_error ''driver_connect(): could not allocate netlink socket'') u, p)
      | Some sk \<Rightarrow>
         (let (err, sk, p) = genl_connect (env_sys env) sk p in
          if err \<noteq> 0 then do {
            p \<leftarrow> nl_socket_free (env_sys env) (Some sk) p;
            Some (err, None, say (O_error ''driver_connect(): genl_connect failed'') u, p)
          }
          else do {
            (family, sk, u, p) \<leftarrow> genl_ctrl_resolve (env_sys env) (default_msg_size env) sk NF10_GENL_FAMILY_NAME u p;
            if is_neg family then do {
              p \<leftarrow> nl_socket_free (env_sys env) (Some sk) p;
              Some (- 1, None, say (O_error ''driver_connect(): could not resolve family channel number'') u, p)
            }
            else Some (0, Some (sk, family), u, p)
          }))
   }"

definition ctl_driver_disconnect :: "'k env \<Rightarrow> ctl nl_sock \<Rightarrow> 'k proc \<Rightarrow> 'k proc option" where
  "ctl_driver_disconnect env sk p = nl_socket_free (env_sys env) (Some sk) p"

text \<open>How every command begins: connect and allocate a message, or say what failed.\<close>

definition ctl_open ::
  "'k env \<Rightarrow> string \<Rightarrow> ctl \<Rightarrow> 'k proc \<Rightarrow> ((ctl nl_sock \<times> i32 \<times> nl_msg) option \<times> ctl \<times> 'k proc) option" where
  "ctl_open env who u p = do {
     (err, conn, u, p) \<leftarrow> ctl_driver_connect env u p;
     (case conn of
        None \<Rightarrow> Some (None, say (O_error (who @ ''(): failed to connect to the driver'')) u, p)
      | Some (sk, family) \<Rightarrow>
         (let ((ok1, ok2), p) = sys_alloc2 (env_sys env) p in do {
            msg \<leftarrow> nlmsg_alloc ok1 ok2 (default_msg_size env);
            (case msg of
               None \<Rightarrow> do {
                 p \<leftarrow> ctl_driver_disconnect env sk p;
                 Some (None, say (O_error (who @ ''(): could not allocate new netlink message'')) u, p)
               }
             | Some msg \<Rightarrow> Some (Some (sk, family, msg), u, p))
          }))
   }"

text \<open>How the commands end: register the callback, receive, disconnect.\<close>

definition ctl_receive ::
  "'k env \<Rightarrow> ctl nl_sock \<Rightarrow> nl_cb_type \<Rightarrow> ctl msg_cb \<Rightarrow> addr \<Rightarrow> ctl \<Rightarrow> 'k proc
     \<Rightarrow> (i32 \<times> ctl \<times> 'k proc) option" where
  "ctl_receive env sk type cb arg u p = do {
     let (_, sk) = nl_socket_modify_cb sk type NL_CB_CUSTOM (Some cb) arg;
     (err, sk, u, p) \<leftarrow> nl_recvmsgs_default (env_sys env) sk u p;
     p \<leftarrow> ctl_driver_disconnect env sk p;
     Some (err, u, p)
   }"

type_synonym 'k command = "'k env \<Rightarrow> attr_table \<Rightarrow> bytes list \<Rightarrow> ctl \<Rightarrow> 'k proc \<Rightarrow> (ctl \<times> 'k proc) option"

section \<open>Echo\<close>

text \<open>
  The payload of an attribute that is missing is at address 4, not \<^verbatim>\<open>NULL\<close>: the test for
  \<^verbatim>\<open>NULL\<close> never holds and printing it is a fault.
\<close>

definition do_echo_recv_msg_cb :: "attr_table \<Rightarrow> ctl msg_cb" where
  "do_echo_recv_msg_cb stack msg arg u = do {
     attrs \<leftarrow> parse_reply stack msg;
     (case attrs NF10_GENL_A_MSG of
        None \<Rightarrow> None
      | Some nla \<Rightarrow> do {
          reply \<leftarrow> c_str_at (nlmsg_hdr msg) (nla_data nla);
          Some (0, say (O_reply reply) u)
        })
   }"

definition do_echo :: "'k command" where
  "do_echo env stack argv u p = do {
     (c, u, p) \<leftarrow> ctl_open env ''do_echo'' u p;
     (case c of
        None \<Rightarrow> Some (u, p)
      | Some (sk, family, msg) \<Rightarrow> do {
          (_, msg) \<leftarrow> genlmsg_put msg 0 0 family 0 0 (word_of_nat NF10_GENL_C_ECHO) NF10_GENL_FAMILY_VERSION;
          s \<leftarrow> argv_at argv 1;
          (_, msg) \<leftarrow> nla_put_string msg (word_of_nat NF10_GENL_A_MSG) s;
          (_, sk, msg, u, p) \<leftarrow> nl_send_auto (env_sys env) sk msg u p;
          _ \<leftarrow> nlmsg_free (Some msg);
          (_, u, p) \<leftarrow> ctl_receive env sk NL_CB_VALID (do_echo_recv_msg_cb stack) 0 u p;
          Some (u, p)
        })
   }"

section \<open>DMA\<close>

definition do_dma_tx_recv_ack_cb :: "ctl msg_cb" where
  "do_dma_tx_recv_ack_cb msg arg u = Some (0, u)"

text \<open>When the string does not fit into the message, the message is not freed.\<close>

definition do_dma_tx :: "'k command" where
  "do_dma_tx env stack argv u p = do {
     (c, u, p) \<leftarrow> ctl_open env ''do_dma_tx'' u p;
     (case c of
        None \<Rightarrow> Some (u, p)
      | Some (sk, family, msg) \<Rightarrow> do {
          (_, msg) \<leftarrow> genlmsg_put msg 0 0 family 0 0 (word_of_nat NF10_GENL_C_DMA_TX) NF10_GENL_FAMILY_VERSION;
          s \<leftarrow> argv_at argv 1;
          (err, msg) \<leftarrow> nla_put_string msg (word_of_nat NF10_GENL_A_MSG) s;
          if err \<noteq> 0 then do {
            p \<leftarrow> ctl_driver_disconnect env sk p;
            Some (say (O_error ''do_dma_tx(): could not put string in netlink message'') u, p)
          }
          else do {
            opcode \<leftarrow> (if length argv = 3 then do { a \<leftarrow> argv_at argv 2; Some (ucast (strtoull a)) } else Some 0);
            (_, msg) \<leftarrow> nla_put_u32 msg (word_of_nat NF10_GENL_A_OPCODE) opcode;
            (_, sk, msg, u, p) \<leftarrow> nl_send_auto (env_sys env) sk msg u p;
            _ \<leftarrow> nlmsg_free (Some msg);
            (_, u, p) \<leftarrow> ctl_receive env sk NL_CB_ACK do_dma_tx_recv_ack_cb 0 u p;
            Some (u, p)
          }
        })
   }"

text \<open>The packet is printed as a string: up to the first NUL byte behind the start of the payload.\<close>

definition do_dma_rx_recv_msg_cb :: "attr_table \<Rightarrow> ctl msg_cb" where
  "do_dma_rx_recv_msg_cb stack msg arg u = do {
     attrs \<leftarrow> parse_reply stack msg;
     (case attrs NF10_GENL_A_DMA_BUF of
        None \<Rightarrow> Some (0, say O_nodata u)
      | Some na_msg \<Rightarrow> do {
          s \<leftarrow> c_str_at (nlmsg_hdr msg) (nla_data na_msg);
          len \<leftarrow> nla_len (nlmsg_hdr msg) na_msg;
          let u = say (O_len len) (say (O_msg s) u);
          (case attrs NF10_GENL_A_OPCODE of
             None \<Rightarrow> Some (0, u)
           | Some na_opcode \<Rightarrow> do {
               opcode \<leftarrow> ld32 (nlmsg_hdr msg) (nla_data na_opcode);
               Some (0, say (O_opcode opcode) u)
             })
        })
   }"

definition do_dma_rx :: "'k command" where
  "do_dma_rx env stack argv u p = do {
     (c, u, p) \<leftarrow> ctl_open env ''do_dma_rx'' u p;
     (case c of
        None \<Rightarrow> Some (u, p)
      | Some (sk, family, msg) \<Rightarrow> do {
          (_, msg) \<leftarrow> genlmsg_put msg 0 0 family 0 0 (word_of_nat NF10_GENL_C_DMA_RX) NF10_GENL_FAMILY_VERSION;
          (_, sk, msg, u, p) \<leftarrow> nl_send_auto (env_sys env) sk msg u p;
          _ \<leftarrow> nlmsg_free (Some msg);
          (_, u, p) \<leftarrow> ctl_receive env sk NL_CB_VALID (do_dma_rx_recv_msg_cb stack) 0 u p;
          Some (u, p)
        })
   }"

section \<open>Registers\<close>

definition do_reg_rd_recv_msg_cb :: "attr_table \<Rightarrow> ctl msg_cb" where
  "do_reg_rd_recv_msg_cb stack msg val_ptr u = do {
     attrs \<leftarrow> parse_reply stack msg;
     (case attrs NF10_GENL_A_ERRNO of
        None \<Rightarrow> Some (- NLE_NOATTR, u)
      | Some na_errno \<Rightarrow> do {
          err \<leftarrow> ld32 (nlmsg_hdr msg) (nla_data na_errno);
          if err \<noteq> 0 then Some (err, u)
          else
            (case attrs NF10_GENL_A_REGVAL32 of
               None \<Rightarrow> Some (- NLE_NOATTR, u)
             | Some na_regval \<Rightarrow> do {
                 v \<leftarrow> ld32 (nlmsg_hdr msg) (nla_data na_regval);
                 Some (0, u\<lparr>retval := v\<rparr>)
               })
        })
   }"

definition do_reg_rd :: "'k command" where
  "do_reg_rd env stack argv u p = do {
     (c, u, p) \<leftarrow> ctl_open env ''do_reg_rd'' u p;
     (case c of
        None \<Rightarrow> Some (u, p)
      | Some (sk, family, msg) \<Rightarrow> do {
          (_, msg) \<leftarrow> genlmsg_put msg 0 0 family 0 0 (word_of_nat NF10_GENL_C_REG_RD) NF10_GENL_FAMILY_VERSION;
          a \<leftarrow> argv_at argv 1;
          (_, msg) \<leftarrow> nla_put_u32 msg (word_of_nat NF10_GENL_A_ADDR32) (ucast (strtoull a));
          (err, sk, msg, u, p) \<leftarrow> nl_send_auto (env_sys env) sk msg u p;
          _ \<leftarrow> nlmsg_free (Some msg);
          if is_neg err then do {
            p \<leftarrow> ctl_driver_disconnect env sk p;
            Some (say (O_error ''do_reg_rd(): couldn't send netlink message'') u, p)
          }
          else do {
            (err, u, p) \<leftarrow> ctl_receive env sk NL_CB_VALID (do_reg_rd_recv_msg_cb stack) 0 u p;
            Some (say (if err \<noteq> 0 then O_error ''do_reg_rd(): driver reported back an error''
                       else O_value (retval u)) u, p)
          }
        })
   }"

definition do_reg_wr_recv_ack_cb :: "attr_table \<Rightarrow> ctl msg_cb" where
  "do_reg_wr_recv_ack_cb stack msg arg u = do {
     attrs \<leftarrow> parse_reply stack msg;
     (case attrs NF10_GENL_A_ERRNO of
        None \<Rightarrow> Some (- NLE_NOATTR, u)
      | Some na_errno \<Rightarrow> do {
          err \<leftarrow> ld32 (nlmsg_hdr msg) (nla_data na_errno);
          Some (err, u)
        })
   }"

definition do_reg_wr :: "'k command" where
  "do_reg_wr env stack argv u p = do {
     (c, u, p) \<leftarrow> ctl_open env ''do_reg_wr'' u p;
     (case c of
        None \<Rightarrow> Some (u, p)
      | Some (sk, family, msg) \<Rightarrow> do {
          (_, msg) \<leftarrow> genlmsg_put msg 0 0 family 0 0 (word_of_nat NF10_GENL_C_REG_WR) NF10_GENL_FAMILY_VERSION;
          a \<leftarrow> argv_at argv 1;
          (_, msg) \<leftarrow> nla_put_u32 msg (word_of_nat NF10_GENL_A_ADDR32) (ucast (strtoull a));
          v \<leftarrow> argv_at argv 2;
          (_, msg) \<leftarrow> nla_put_u32 msg (word_of_nat NF10_GENL_A_REGVAL32) (ucast (strtoull v));
          (err, sk, msg, u, p) \<leftarrow> nl_send_auto (env_sys env) sk msg u p;
          _ \<leftarrow> nlmsg_free (Some msg);
          if is_neg err then do {
            p \<leftarrow> ctl_driver_disconnect env sk p;
            Some (say (O_error ''do_reg_wr(): couldn't send netlink message'') u, p)
          }
          else do {
            (err, u, p) \<leftarrow> ctl_receive env sk NL_CB_ACK (do_reg_wr_recv_ack_cb stack) 0 u p;
            Some (if err \<noteq> 0 then say (O_error ''do_reg_wr(): driver reported back an error'') u else u, p)
          }
        })
   }"

section \<open>Polling\<close>

definition do_napi_enable_recv_ack_cb :: "ctl msg_cb" where
  "do_napi_enable_recv_ack_cb msg arg u = Some (0, u)"

definition do_napi_enable :: "'k command" where
  "do_napi_enable env stack argv u p = do {
     (c, u, p) \<leftarrow> ctl_open env ''do_napi_enable'' u p;
     (case c of
        None \<Rightarrow> Some (u, p)
      | Some (sk, family, msg) \<Rightarrow> do {
          (_, msg) \<leftarrow> genlmsg_put msg 0 0 family 0 0 (word_of_nat NF10_GENL_C_NAPI_ENABLE) NF10_GENL_FAMILY_VERSION;
          (_, sk, msg, u, p) \<leftarrow> nl_send_auto (env_sys env) sk msg u p;
          _ \<leftarrow> nlmsg_free (Some msg);
          (_, u, p) \<leftarrow> ctl_receive env sk NL_CB_ACK do_napi_enable_recv_ack_cb 0 u p;
          Some (u, p)
        })
   }"

definition do_napi_disable_recv_ack_cb :: "ctl msg_cb" where
  "do_napi_disable_recv_ack_cb msg arg u = Some (0, u)"

definition do_napi_disable :: "'k command" where
  "do_napi_disable env stack argv u p = do {
     (c, u, p) \<leftarrow> ctl_open env ''do_napi_disable'' u p;
     (case c of
        None \<Rightarrow> Some (u, p)
      | Some (sk, family, msg) \<Rightarrow> do {
          (_, msg) \<leftarrow> genlmsg_put msg 0 0 family 0 0 (word_of_nat NF10_GENL_C_NAPI_DISABLE) NF10_GENL_FAMILY_VERSION;
          (_, sk, msg, u, p) \<leftarrow> nl_send_auto (env_sys env) sk msg u p;
          _ \<leftarrow> nlmsg_free (Some msg);
          (_, u, p) \<leftarrow> ctl_receive env sk NL_CB_ACK do_napi_disable_recv_ack_cb 0 u p;
          Some (u, p)
        })
   }"

section \<open>The program\<close>

definition do_help :: "'k command" where
  "do_help env stack argv u p = Some (usage u, p)"

record 'k command_entry =
  name :: bytes
  min_args :: nat
  max_args :: nat
  handler :: "'k command"

definition all_commands :: "'k command_entry list" where
  "all_commands =
    [\<lparr>name = str ''echo'', min_args = 1, max_args = 1, handler = do_echo\<rparr>,
     \<lparr>name = str ''dma_tx'', min_args = 1, max_args = 2, handler = do_dma_tx\<rparr>,
     \<lparr>name = str ''dma_rx'', min_args = 0, max_args = 0, handler = do_dma_rx\<rparr>,
     \<lparr>name = str ''reg_rd'', min_args = 1, max_args = 1, handler = do_reg_rd\<rparr>,
     \<lparr>name = str ''reg_wr'', min_args = 2, max_args = 2, handler = do_reg_wr\<rparr>,
     \<lparr>name = str ''napi_enable'', min_args = 0, max_args = 0, handler = do_napi_enable\<rparr>,
     \<lparr>name = str ''napi_disable'', min_args = 0, max_args = 0, handler = do_napi_disable\<rparr>,
     \<lparr>name = str ''help'', min_args = 0, max_args = 0, handler = do_help\<rparr>]"

text \<open>The loop over the table; the exit status is 0 in every case.\<close>

primrec main_dispatch :: "'k command_entry list \<Rightarrow> 'k command" where
  "main_dispatch [] env stack argv u p =
     Some (usage (say (O_unknown (argv ! 0)) u), p)"
| "main_dispatch (c # cs) env stack argv u p =
     (if name c = argv ! 0
      then (let n_arg = length argv - 1 in
            if n_arg < min_args c then Some (say (O_at_least (name c) (min_args c)) u, p)
            else if max_args c < n_arg then Some (say (O_at_most (name c) (max_args c)) u, p)
            else handler c env stack argv u p)
      else main_dispatch cs env stack argv u p)"

text \<open>\<open>argv\<close> starts with the name of the program.\<close>

definition main :: "'k command" where
  "main env stack argv u p = do {
     argv0 \<leftarrow> argv_at argv 0;
     let u = set_program_name argv0 u;
     let argv = tl argv;
     if argv = [] then Some (usage (say (O_error ''main(): too few arguments'') u), p)
     else main_dispatch all_commands env stack argv u p
   }"

section \<open>Selecting a command\<close>

definition fits :: "bytes list \<Rightarrow> 'k command_entry \<Rightarrow> bool" where
  "fits args c \<longleftrightarrow> args \<noteq> [] \<and> name c = args ! 0 \<and> min_args c \<le> length args - 1 \<and> length args - 1 \<le> max_args c"

text \<open>The lines that report a misuse of the program.\<close>

definition complaint :: "ctl_line \<Rightarrow> bool" where
  "complaint l \<longleftrightarrow> (case l of O_error _ \<Rightarrow> True | O_at_least _ _ \<Rightarrow> True | O_at_most _ _ \<Rightarrow> True
     | O_unknown _ \<Rightarrow> True | _ \<Rightarrow> False)"

lemma stdout_set_program_name [simp]: "stdout (set_program_name a u) = stdout u"
  by (simp add: set_program_name_def)

lemma main_dispatch_skips:
  "args ! 0 \<notin> name ` set cs \<Longrightarrow> main_dispatch cs env stack args u p
     = Some (usage (say (O_unknown (args ! 0)) u), p) \<and> find (fits args) cs = None"
  by (induction cs) (auto simp: fits_def)

lemma main_dispatch_find:
  assumes "distinct (map name cs)" and "args \<noteq> []"
  shows "case find (fits args) cs of
      Some c \<Rightarrow> main_dispatch cs env stack args u p = handler c env stack args u p
    | None \<Rightarrow> \<exists>u' l ls. main_dispatch cs env stack args u p = Some (u', p) \<and> complaint l \<and> stdout u' = stdout u @ l # ls"
  using assms(1)
proof (induction cs)
  case Nil
  then show ?case by (simp add: usage_def say_def complaint_def)
next
  case (Cons c cs)
  show ?case
  proof (cases "name c = args ! 0")
    case True
    then have "find (fits args) cs = None"
      using Cons.prems main_dispatch_skips [of args cs] by simp
    moreover have "fits args c \<longleftrightarrow> min_args c \<le> length args - 1 \<and> length args - 1 \<le> max_args c"
      using True assms(2) by (simp add: fits_def)
    ultimately show ?thesis
      using True by (simp add: Let_def say_def complaint_def not_le)
  next
    case False
    then have "\<not> fits args c" by (simp add: fits_def)
    then show ?thesis using Cons False by (simp split: option.splits)
  qed
qed

lemma distinct_names: "distinct (map name all_commands)"
  by (simp add: all_commands_def str_def)

text \<open>
  Claim C31.  The program runs the handler of the command that is named, with the arguments
  behind the name of the program, when their number is in the range of the command; in
  every other case it prints an error and nothing reaches the driver.
\<close>

theorem main_runs_command:
  assumes "argv \<noteq> []"
  shows "case find (fits (tl argv)) all_commands of
     Some c \<Rightarrow> main env stack argv u p = handler c env stack (tl argv) (set_program_name (hd argv) u) p
   | None \<Rightarrow> \<exists>u' l ls. main env stack argv u p = Some (u', p) \<and> complaint l \<and> stdout u' = stdout u @ l # ls"
proof -
  have m: "main env stack argv u p = (let u = set_program_name (hd argv) u in
      if tl argv = [] then Some (usage (say (O_error ''main(): too few arguments'') u), p)
      else main_dispatch all_commands env stack (tl argv) u p)"
    using assms by (simp add: main_def argv_at_def hd_conv_nth Let_def)
  show ?thesis
  proof (cases "tl argv = []")
    case True
    then have "find (fits (tl argv)) (all_commands :: 'a command_entry list) = None"
      by (simp add: find_None_iff fits_def)
    then show ?thesis
      using True by (simp add: m Let_def usage_def say_def complaint_def)
  next
    case False
    then show ?thesis
      using main_dispatch_find [OF distinct_names False, of env stack "set_program_name (hd argv) u" p]
      by (simp add: m split: option.splits)
  qed
qed

section \<open>Echo\<close>

lemma ctl_driver_connect_ok:
  assumes "driver_connect env u p = Some (0, Some c, u', p')"
  shows "ctl_driver_connect env u p = Some (0, Some c, u', p')"
proof -
  obtain sk :: "ctl nl_sock option" and p1 where a: "nl_socket_alloc (env_sys env) (default_cb env) p = Some (sk, p1)"
    using assms by (auto simp: driver_connect_def bind_eq_Some_conv)
  obtain sk' where b: "sk = Some sk'"
    using assms a by (cases sk) (simp_all add: driver_connect_def)
  obtain err sk2 p2 where g: "genl_connect (env_sys env) sk' p1 = (err, sk2, p2)"
    by (cases "genl_connect (env_sys env) sk' p1") auto
  have e: "err = 0"
    using assms a b g by (auto simp: driver_connect_def bind_eq_Some_conv split: if_splits)
  show ?thesis
    using assms a b g e
    by (auto simp: driver_connect_def ctl_driver_connect_def bind_eq_Some_conv split: if_splits)
qed

lemma do_echo_cb_reply:
  assumes "0 \<notin> set s" and "length s < 4000"
  shows "do_echo_recv_msg_cb stack (rcvd_msg (reply_bytes fam sq pid (c, [(NF10_GENL_A_MSG, s @ [0])])) sk nla) arg u
       = Some (0, say (O_reply s) u)"
proof -
  let ?as = "[(1, s @ [0])] :: (u16 \<times> bytes) list"
  let ?b = "genl_bytes fam 0 sq pid (word_of_nat c) NF10_GENL_FAMILY_VERSION ?as"
  have ok: "list_all attr_ok ?as" "20 + length (enc_attrs ?as) < 2 ^ 30"
    using assms(2) align4_less [of "Suc (length s)"] by (simp_all add: attr_ok_def)
  have rb: "reply_bytes fam sq pid (c, [(NF10_GENL_A_MSG, s @ [0])]) = ?b"
    by (simp add: reply_bytes_def attrs16_def genl_attr_defs)
  have "Option.bind (attr_index NF10_GENL_A_MAX 20 ?as Map.empty (unat (1 :: u16))) (attr_payload ?b) = Some (s @ [0])"
    using genl_attr_payload [where z = "[]" and m = NF10_GENL_A_MAX and t = 1, OF _ ok(1)]
    by (simp add: NF10_GENL_A_MAX_def del: attr_index.simps)
  then obtain off where off: "attr_index NF10_GENL_A_MAX 20 ?as Map.empty NF10_GENL_A_MSG = Some off"
      "attr_payload ?b off = Some (s @ [0])"
    by (auto simp: bind_eq_Some_conv NF10_GENL_A_MSG_def simp del: attr_index.simps)
  have "c_str_at ?b (nla_data off) = Some s"
    using c_str_at_payload [of ?b off s "[]"] off(2) assms(1) by simp
  then show ?thesis
    unfolding rb do_echo_recv_msg_cb_def parse_reply_received [OF ok]
    using off(1) by (simp add: rcvd_msg_def nlmsg_hdr_def del: attr_index.simps)
qed

text \<open>The commands over the link to the driver.\<close>

context genl_link
begin

lemma ctl_exchange:
  fixes u :: ctl
  assumes link: "linked (kern p)" "inbox (kern p) = []" and ports: "port_free mypid (used_ports_map p)"
    and heap: "heap_free (lib u)"
    and as: "list_all attr_ok as" "2 * (20 + length (enc_attrs as)) \<le> 4096"
    and srv: "serve (unat cmd) (request_info as) (drv (kern p)) = Some (ret, r # rs, d)"
  obtains sk h m n m' p2 p3 rest where
    "ctl_open env who u p = Some (Some (sk, ucast famid, fresh_msg (default_msg_size env)), bump h u, p2)"
    "connected sk"
    "release_local_port (nl_pid (s_local sk)) (used_ports_map p3) = used_ports_map p"
    "genlmsg_put (fresh_msg (default_msg_size env)) 0 0 (ucast famid) 0 0 cmd NF10_GENL_FAMILY_VERSION = Some (Some 20, m)"
    "nla_puts m as = Some (0, request_msg cmd as)"
    "nl_send_auto (env_sys env) sk (request_msg cmd as) (bump h u) p2
       = Some (n, sk\<lparr>s_seq_next := s_seq_next sk + 1\<rparr>, m', bump h u, p3)"
    "nlmsg_free (Some m') = Some None" "\<not> is_neg n" "linked (kern p3)" "drv (kern p3) = d"
    "inbox (kern p3) = reply_bytes famid (s_seq_expect sk) (nl_pid (s_local sk)) r # rest"
proof -
  obtain sk h p1 p2 m n m' p3 rest where x:
    "driver_connect env u p = Some (0, Some (sk, ucast famid), bump h u, p1)" "connected sk"
    "release_local_port (nl_pid (s_local sk)) (used_ports_map p3) = used_ports_map p"
    "sys_alloc2 (env_sys env) p1 = ((True, True), p2)"
    "nlmsg_alloc True True (default_msg_size env) = Some (Some (fresh_msg (default_msg_size env)))"
    "genlmsg_put (fresh_msg (default_msg_size env)) 0 0 (ucast famid) 0 0 cmd NF10_GENL_FAMILY_VERSION = Some (Some 20, m)"
    "nla_puts m as = Some (0, request_msg cmd as)"
    "nl_send_auto (env_sys env) sk (request_msg cmd as) (bump h u) p2
       = Some (n, sk\<lparr>s_seq_next := s_seq_next sk + 1\<rparr>, m', bump h u, p3)"
    "nlmsg_free (Some m') = Some None" "\<not> is_neg n" "linked (kern p3)" "drv (kern p3) = d"
    "inbox (kern p3) = reply_bytes famid (s_seq_expect sk) (nl_pid (s_local sk)) r # rest"
    by (rule exchange [OF link ports heap as srv])
  have "ctl_open env who u p = Some (Some (sk, ucast famid, fresh_msg (default_msg_size env)), bump h u, p2)"
    using ctl_driver_connect_ok [OF x(1)] x(4,5) by (simp add: ctl_open_def)
  then show thesis by (rule that [OF _ x(2,3,6-13)])
qed

lemma ctl_receive_ok:
  assumes con: "connected sk" and link: "linked (kern p)"
    and inb: "inbox (kern p) = reply_bytes famid (s_seq_expect sk) (nl_pid (s_local sk)) (c, attrs) # rest"
    and attrs: "20 + length (enc_attrs (attrs16 attrs)) \<le> 4096"
    and cb: "\<forall>sq pid (sk :: ctl nl_sock) nla. f (rcvd_msg (reply_bytes famid sq pid (c, attrs)) sk nla) arg u = Some (e, u')"
  obtains p' where
    "ctl_receive env (sk\<lparr>s_seq_next := s_seq_next sk + 1\<rparr>) NL_CB_VALID f arg u p = Some (if e = 1 \<or> e = 2 then 0 else e, u', p')"
    "linked (kern p')" "drv (kern p') = drv (kern p)" "inbox (kern p') = []"
    "used_ports_map p' = release_local_port (nl_pid (s_local sk)) (used_ports_map p)"
proof -
  define sk1 where "sk1 = snd (nl_socket_modify_cb (sk\<lparr>s_seq_next := s_seq_next sk + 1\<rparr>) NL_CB_VALID NL_CB_CUSTOM (Some f) arg)"
  obtain p4 p' where r: "nl_recvmsgs_default (env_sys env) sk1 u p = Some (if e = 1 \<or> e = 2 then 0 else e, sk1, u', p4)"
      "driver_disconnect env sk1 p4 = Some p'" "linked (kern p')" "drv (kern p') = drv (kern p)" "inbox (kern p') = []"
      "used_ports_map p' = release_local_port (nl_pid (s_local sk)) (used_ports_map p)"
    by (rule receive_disconnect [OF con link inb attrs sk1_def, where e = e and u = u and u' = u']) (simp_all add: cb)
  have "ctl_receive env (sk\<lparr>s_seq_next := s_seq_next sk + 1\<rparr>) NL_CB_VALID f arg u p
      = Some (if e = 1 \<or> e = 2 then 0 else e, u', p')"
    using r(1,2)
    by (simp add: ctl_receive_def ctl_driver_disconnect_def driver_disconnect_def sk1_def case_prod_beta Let_def)
  then show thesis by (rule that) (rule r)+
qed

lemma do_echo_result:
  fixes u :: ctl
  assumes link: "linked (kern p)" "inbox (kern p) = []" and ports: "port_free mypid (used_ports_map p)"
    and heap: "heap_free (lib u)" and str: "0 \<notin> set s" "length s \<le> 2000"
    and srv: "serve NF10_GENL_C_ECHO (request_info [(1, s @ [0])]) (drv (kern p))
        = Some (ret, (c, [(NF10_GENL_A_MSG, s @ [0])]) # rs, d)"
  obtains h p' where "do_echo env stack [arg0, s] u p = Some (say (O_reply s) (bump h u), p')"
    "linked (kern p')" "drv (kern p') = d" "inbox (kern p') = []" "used_ports_map p' = used_ports_map p"
proof -
  let ?as = "[(1, s @ [0])] :: (u16 \<times> bytes) list"
  let ?cmd = "word_of_nat NF10_GENL_C_ECHO :: u8"
  have as: "list_all attr_ok ?as" "2 * (20 + length (enc_attrs ?as)) \<le> 4096"
    using str(2) align4_less [of "Suc (length s)"] by (simp_all add: attr_ok_def)
  have srv': "serve (unat ?cmd) (request_info ?as) (drv (kern p)) = Some (ret, (c, [(NF10_GENL_A_MSG, s @ [0])]) # rs, d)"
    using srv by (simp add: NF10_GENL_C_ECHO_def)
  obtain sk h m n m' p2 p3 rest where x:
    "ctl_open env ''do_echo'' u p = Some (Some (sk, ucast famid, fresh_msg (default_msg_size env)), bump h u, p2)"
    "connected sk"
    "release_local_port (nl_pid (s_local sk)) (used_ports_map p3) = used_ports_map p"
    "genlmsg_put (fresh_msg (default_msg_size env)) 0 0 (ucast famid) 0 0 ?cmd NF10_GENL_FAMILY_VERSION = Some (Some 20, m)"
    "nla_puts m ?as = Some (0, request_msg ?cmd ?as)"
    "nl_send_auto (env_sys env) sk (request_msg ?cmd ?as) (bump h u) p2
       = Some (n, sk\<lparr>s_seq_next := s_seq_next sk + 1\<rparr>, m', bump h u, p3)"
    "nlmsg_free (Some m') = Some None" "\<not> is_neg n" "linked (kern p3)" "drv (kern p3) = d"
    "inbox (kern p3) = reply_bytes famid (s_seq_expect sk) (nl_pid (s_local sk)) (c, [(NF10_GENL_A_MSG, s @ [0])]) # rest"
    by (rule ctl_exchange [OF link ports heap as srv'])
  from x(5) obtain err where put: "nla_put_string m (word_of_nat NF10_GENL_A_MSG) s = Some (err, request_msg ?cmd ?as)"
    by (auto simp: nla_put_string_def NF10_GENL_A_MSG_def bind_eq_Some_conv add.commute split: if_splits)
  have attrs: "20 + length (enc_attrs (attrs16 [(NF10_GENL_A_MSG, s @ [0])])) \<le> 4096"
    using as(2) by (simp add: attrs16_def)
  have cb: "\<forall>sq pid (sk :: ctl nl_sock) nla. do_echo_recv_msg_cb stack
      (rcvd_msg (reply_bytes famid sq pid (c, [(NF10_GENL_A_MSG, s @ [0])])) sk nla) 0 (bump h u)
       = Some (0, say (O_reply s) (bump h u))"
    by (intro allI do_echo_cb_reply) (use str in auto)
  obtain p4 where rcv: "ctl_receive env (sk\<lparr>s_seq_next := s_seq_next sk + 1\<rparr>) NL_CB_VALID (do_echo_recv_msg_cb stack) 0 (bump h u) p3
        = Some (if (0 :: i32) = 1 \<or> (0 :: i32) = 2 then 0 else 0, say (O_reply s) (bump h u), p4)"
      "linked (kern p4)" "drv (kern p4) = drv (kern p3)" "inbox (kern p4) = []"
      "used_ports_map p4 = release_local_port (nl_pid (s_local sk)) (used_ports_map p3)"
    by (rule ctl_receive_ok [where f = "do_echo_recv_msg_cb stack" and arg = 0, OF x(2,9,11) attrs cb])
  have "do_echo env stack [arg0, s] u p = Some (say (O_reply s) (bump h u), p4)"
    using x(1,4,6,7) put rcv(1) by (simp add: do_echo_def argv_at_def)
  then show thesis using that rcv(2-5) x(3,10) by simp
qed

end

lemma serve_echo:
  assumes "genl_up gk" and "0 \<notin> set s"
  shows "serve_nf10 gk hw NF10_GENL_C_ECHO (request_info [(1, s @ [0])]) d
    = Some (0, [(NF10_GENL_C_ECHO, [(NF10_GENL_A_MSG, s @ [0])])],
        d\<lparr>replies := replies d @ [(NF10_GENL_C_ECHO, [(NF10_GENL_A_MSG, s @ [0])])]\<rparr>)"
proof -
  have "takeWhile (\<lambda>b. b \<noteq> 0) (s @ [0]) = s"
    using assms(2) by (subst takeWhile_append2) auto
  then show ?thesis
    using assms(1)
    by (simp add: serve_nf10_def genl_all_ops_def nf10_genl_policy_ok_def request_info_def genl_attr_defs
        NF10_GENL_A_MAX_def genl_cmd_echo_def kernel_nla_data_def c_string_def genl_upD genlmsg_reply_def)
qed

text \<open>
  Claim C5.  The echo command, from the command line to the driver and back: a string of up
  to 2000 characters is printed as the reply, exactly once and unchanged; afterwards the
  socket is closed, its port is free again and the objects of the netlink library are gone.
\<close>

theorem echo_command_round_trip:
  assumes link: "genl_link env linked drv inbox dump (serve_nf10 gk hw) pid famid"
    and start: "linked (kern p)" "inbox (kern p) = []" "port_free pid (used_ports_map p)" "heap_free (lib u)"
    and up: "genl_up gk" and str: "0 \<notin> set s" "length s \<le> 2000"
  shows "\<exists>u' p'. main env stack [prog, str ''echo'', s] u p = Some (u', p') \<and> stdout u' = stdout u @ [O_reply s]
    \<and> inbox (kern p') = [] \<and> used_ports_map p' = used_ports_map p
    \<and> h_objs (lib u') = h_objs (lib u) \<and> h_caches (lib u') = h_caches (lib u)"
proof -
  let ?u = "set_program_name prog u"
  have heap: "heap_free (lib ?u)" using start(4) by (simp add: set_program_name_def)
  obtain h p' where p': "do_echo env stack [str ''echo'', s] ?u p = Some (say (O_reply s) (bump h ?u), p')"
    "inbox (kern p') = []" "used_ports_map p' = used_ports_map p"
    by (rule genl_link.do_echo_result [OF link start(1-3) heap str serve_echo [OF up str(1)]])
  have "main env stack [prog, str ''echo'', s] u p = do_echo env stack [str ''echo'', s] ?u p"
    by (simp add: main_def argv_at_def all_commands_def)
  with p' show ?thesis by (simp add: say_def bump_def set_program_name_def)
qed

end
