(* ===== verification/NL_Resync.thy ===== *)
theory NL_Resync
  imports NL_Resolve
begin

text \<open>
  Resynchronising a cache of families (\<^verbatim>\<open>nl_cache_resync\<close> of \<^verbatim>\<open>lib/cache.c\<close>) and resolving the numbers of
  all registered generic netlink operations (\<^verbatim>\<open>lib/genl/mngt.c\<close>), against the kernel of the locale
  \<open>ctrl_link\<close>.
\<close>

section \<open>Definitions\<close>

text \<open>\<^verbatim>\<open>__genl_ops_resolve\<close>.\<close>

definition resolve_in :: "addr \<Rightarrow> addr \<Rightarrow> fheap registry \<Rightarrow> fheap \<Rightarrow> (i32 \<times> fheap registry \<times> fheap) option" where
  "resolve_in ctrl g r h = do {
     genl \<leftarrow> genl_at r g;
     name \<leftarrow> o_name genl;
     (family, h) \<leftarrow> genl_ctrl_search_by_name ctrl name h;
     (case family of
        None \<Rightarrow> Some (- NLE_OBJ_NOTFOUND, r, h)
      | Some a \<Rightarrow> do {
          ident \<leftarrow> genl_family_get_id a h;
          h \<leftarrow> genl_family_put (Some a) h;
          Some (0, r\<lparr>genl_at := (genl_at r)(g \<mapsto> genl\<lparr>o_id := ident\<rparr>)\<rparr>, h)
        })
   }"

definition genl_ops_resolve ::
  "'k sys \<Rightarrow> u64 \<Rightarrow> (genl_family, 'u) libstate_scheme nl_sock \<Rightarrow> addr \<Rightarrow> fheap registry \<Rightarrow> (genl_family, 'u) libstate_scheme \<Rightarrow> 'k proc
     \<Rightarrow> (i32 \<times> fheap registry \<times> (genl_family, 'u) libstate_scheme nl_sock \<times> (genl_family, 'u) libstate_scheme \<times> 'k proc) option" where
  "genl_ops_resolve sys default_msg_size sk g r u p = do {
     (err, cache, sk, u, p) \<leftarrow> genl_ctrl_alloc_cache sys default_msg_size sk u p;
     if is_neg err then Some (err, r, sk, u, p)
     else do {
       ctrl \<leftarrow> cache;
       (err, r, h) \<leftarrow> resolve_in ctrl g r (lib u);
       h \<leftarrow> nl_cache_free genl_family_ops (Some ctrl) h;
       Some (err, r, sk, u\<lparr>lib := h\<rparr>, p)
     }
   }"

text \<open>The loop over all operations: every error but the last one is overwritten.\<close>

primrec resolve_all :: "addr \<Rightarrow> addr list \<Rightarrow> i32 \<Rightarrow> fheap registry \<Rightarrow> fheap \<Rightarrow> (i32 \<times> fheap registry \<times> fheap) option" where
  "resolve_all ctrl [] err r h = Some (err, r, h)"
| "resolve_all ctrl (g # gs) err r h = do {
     (err, r, h) \<leftarrow> resolve_in ctrl g r h;
     resolve_all ctrl gs err r h
   }"

definition genl_mngt_resolve ::
  "'k sys \<Rightarrow> u64 \<Rightarrow> (genl_family, 'u) libstate_scheme nl_sock \<Rightarrow> fheap registry \<Rightarrow> (genl_family, 'u) libstate_scheme \<Rightarrow> 'k proc
     \<Rightarrow> (i32 \<times> fheap registry \<times> (genl_family, 'u) libstate_scheme nl_sock \<times> (genl_family, 'u) libstate_scheme \<times> 'k proc) option" where
  "genl_mngt_resolve sys default_msg_size sk r u p = do {
     (err, cache, sk, u, p) \<leftarrow> genl_ctrl_alloc_cache sys default_msg_size sk u p;
     if is_neg err then Some (err, r, sk, u, p)
     else do {
       ctrl \<leftarrow> cache;
       (err, r, h) \<leftarrow> resolve_all ctrl (genl_ops_list r) err r (lib u);
       h \<leftarrow> nl_cache_free genl_family_ops (Some ctrl) h;
       Some (err, r, sk, u\<lparr>lib := h\<rparr>, p)
     }
   }"

section \<open>Resolving registered operations\<close>

text \<open>What resolving means for one structure: its number, and the code.\<close>

definition resolved :: "genl_family list \<Rightarrow> 'h genl_ops \<Rightarrow> 'h genl_ops" where
  "resolved fs genl = (case find (\<lambda>f. o_name genl = Some (gf_name f)) fs of None \<Rightarrow> genl | Some f \<Rightarrow> genl\<lparr>o_id := ucast (gf_id f)\<rparr>)"

definition resolve_code :: "genl_family list \<Rightarrow> 'h genl_ops \<Rightarrow> i32" where
  "resolve_code fs genl = (if find (\<lambda>f. o_name genl = Some (gf_name f)) fs = None then - NLE_OBJ_NOTFOUND else 0)"

lemma o_name_resolved [simp]: "o_name (resolved fs genl) = o_name genl"
  by (simp add: resolved_def split: option.splits)

lemma resolved_idem [simp]: "resolved fs (resolved fs genl) = resolved fs genl" "resolve_code fs (resolved fs genl) = resolve_code fs genl"
  by (simp_all add: resolved_def resolve_code_def split: option.splits)

lemma resolve_in_filled:
  assumes f: "filled c as fs h0 h" and g: "genl_at r g = Some genl" "o_name genl = Some name"
  shows "resolve_in c g r h = Some (resolve_code fs genl, r\<lparr>genl_at := (genl_at r)(g \<mapsto> resolved fs genl)\<rparr>, h)"
proof -
  have srch: "genl_ctrl_search_by_name c name h = find_family (\<lambda>f. name = gf_name f) h as"
    using f by (simp add: genl_ctrl_search_by_name_def filled_def)
  note fnd = find_family_filled [OF filled_objs [OF f], of "\<lambda>f. name = gf_name f"]
  show ?thesis
  proof (cases "find (\<lambda>f. name = gf_name f) fs")
    case None
    moreover have "r\<lparr>genl_at := (genl_at r)(g \<mapsto> genl)\<rparr> = r" using g(1) by (simp add: fun_upd_idem)
    ultimately show ?thesis using fnd srch g by (simp add: resolve_in_def resolved_def resolve_code_def)
  next
    case (Some f0)
    then obtain a where a: "h_objs h a = Some (cached c f0)"
      "find_family (\<lambda>f. name = gf_name f) h as = Some (Some a, set_obj a ((cached c f0)\<lparr>ce_refcnt := 2\<rparr>) h)"
      using fnd by auto
    have "genl_family_get_id a (set_obj a ((cached c f0)\<lparr>ce_refcnt := 2\<rparr>) h) = Some (ucast (gf_id f0))"
      by (rule get_id_cached [where n = 2 and c = c]) simp
    moreover have "genl_family_put (Some a) (set_obj a ((cached c f0)\<lparr>ce_refcnt := 2\<rparr>) h) = Some h"
      using a(1) by (simp add: genl_family_put_def nl_object_put_def put_with_def set_obj_def cached_def family_obj_def fun_upd_idem)
    ultimately show ?thesis using Some srch a(2) g by (simp add: resolve_in_def resolved_def resolve_code_def)
  qed
qed

lemma resolve_all_filled:
  assumes "filled c as fs h0 h" and "\<forall>g \<in> set gs. \<exists>genl name. genl_at r g = Some genl \<and> o_name genl = Some name"
  shows "\<exists>r'. resolve_all c gs err r h = Some (if gs = [] then err else resolve_code fs (the (genl_at r (last gs))), r', h)
    \<and> (\<forall>g. genl_at r' g = (if g \<in> set gs then map_option (resolved fs) (genl_at r g) else genl_at r g))"
  using assms(2)
proof (induction gs arbitrary: err r)
  case (Cons g gs)
  obtain genl name where g: "genl_at r g = Some genl" "o_name genl = Some name" using Cons.prems by auto
  define r1 where "r1 = r\<lparr>genl_at := (genl_at r)(g \<mapsto> resolved fs genl)\<rparr>"
  have step: "resolve_in c g r h = Some (resolve_code fs genl, r1, h)"
    using resolve_in_filled [OF assms(1) g] by (simp add: r1_def)
  have "\<forall>x \<in> set gs. \<exists>genl name. genl_at r1 x = Some genl \<and> o_name genl = Some name"
    using Cons.prems g by (auto simp: r1_def)
  from Cons.IH [OF this] obtain r' where r': "resolve_all c gs (resolve_code fs genl) r1 h
      = Some (if gs = [] then resolve_code fs genl else resolve_code fs (the (genl_at r1 (last gs))), r', h)"
      "\<forall>x. genl_at r' x = (if x \<in> set gs then map_option (resolved fs) (genl_at r1 x) else genl_at r1 x)" by blast
  have "resolve_code fs (the (genl_at r1 x)) = resolve_code fs (the (genl_at r x))" for x
    using g by (simp add: r1_def)
  moreover have "genl_at r' x = (if x \<in> set (g # gs) then map_option (resolved fs) (genl_at r x) else genl_at r x)" for x
    using r'(2) g by (simp add: r1_def)
  ultimately show ?case using step r'(1) g by auto
qed simp

context ctrl_link
begin

lemma mngt_resolve_ok:
  fixes u :: "(genl_family, 'u) libstate_scheme"
  assumes sk: "answers sk" and link: "linked (kern p)" "inbox (kern p) = []" and h: "heap_free (lib u)"
    and reg: "\<forall>g \<in> set (genl_ops_list r). \<exists>genl name. genl_at r g = Some genl \<and> o_name genl = Some name"
  shows "\<exists>r' p' n. genl_mngt_resolve sys msg_size sk r u p
      = Some (if genl_ops_list r = [] then 0 else resolve_code (concat dump) (the (genl_at r (last (genl_ops_list r)))), r',
          sk\<lparr>s_seq_next := s_seq_next sk + 1, s_seq_expect := s_seq_expect sk + 1\<rparr>, bump n u, p')
    \<and> (\<forall>g. genl_at r' g = (if g \<in> set (genl_ops_list r) then map_option (resolved (concat dump)) (genl_at r g) else genl_at r g))
    \<and> keeps linked drv inbox (kern p) (kern p') \<and> used_ports_map p' = used_ports_map p"
proof -
  let ?c = "h_next (lib u)" and ?fs = "concat dump"
  obtain p' as h1 where f: "genl_ctrl_alloc_cache sys msg_size sk u p
      = Some (0, Some ?c, sk\<lparr>s_seq_next := s_seq_next sk + 1, s_seq_expect := s_seq_expect sk + 1\<rparr>, u\<lparr>lib := h1\<rparr>, p')"
      "keeps linked drv inbox (kern p) (kern p')" "used_ports_map p' = used_ports_map p" "filled ?c as ?fs (lib u) h1"
    using alloc_and_fill_ok [OF sk link h] by blast
  note free = free_dump [OF f(4) h]
  obtain r' where "resolve_all ?c (genl_ops_list r) 0 r h1
      = Some (if genl_ops_list r = [] then 0 else resolve_code ?fs (the (genl_at r (last (genl_ops_list r)))), r', h1)"
      "\<forall>g. genl_at r' g = (if g \<in> set (genl_ops_list r) then map_option (resolved ?fs) (genl_at r g) else genl_at r g)"
    using resolve_all_filled [OF f(4) reg, of 0] by blast
  then show ?thesis
    using f(1-3) free by (auto simp: genl_mngt_resolve_def)
qed

end

section \<open>Resynchronising a cache of families\<close>

lemma refs_ok_flags:
  assumes "refs_ok ops h rc" and "h_objs h a = Some ob"
  shows "refs_ok ops (set_obj a (ob\<lparr>ce_flags := x\<rparr>) h) rc"
proof -
  have "refs_ok ops (set_obj a (ob\<lparr>ce_flags := x\<rparr>) h) (rc(a := rc a))"
    by (rule refs_ok_set_obj [OF assms]) (use refs_okD(1) [OF assms] in \<open>auto simp: obj_ok_def\<close>)
  then show ?thesis by simp
qed

lemma mark_items_ok:
  assumes "refs_ok ops h rc" and "\<forall>a \<in> set as. \<exists>ob. h_objs h a = Some ob"
  shows "\<exists>h'. mark_items as h = Some h' \<and> refs_ok ops h' rc \<and> h_caches h' = h_caches h \<and> h_next h' = h_next h
    \<and> h_grants h' = h_grants h \<and> (\<forall>a. (h_objs h' a = None) = (h_objs h a = None))
    \<and> (\<forall>a. a \<in> set as \<or> marked h a \<longrightarrow> marked h' a)"
  using assms
proof (induction as arbitrary: h)
  case (Cons a as)
  obtain ob where ob: "h_objs h a = Some ob" using Cons.prems(2) by auto
  define h1 where "h1 = set_obj a (ob\<lparr>ce_flags := ce_flags ob OR NL_OBJ_MARK\<rparr>) h"
  have m: "(x OR NL_OBJ_MARK) AND NL_OBJ_MARK \<noteq> 0" for x
    by (simp add: NL_OBJ_MARK_def bit.conj_disj_distrib2 or_eq_0_iff)
  have "\<forall>x \<in> set as. \<exists>ob. h_objs h1 x = Some ob" using Cons.prems(2) by (auto simp: h1_def)
  from Cons.IH [OF refs_ok_flags [OF Cons.prems(1) ob, of "ce_flags ob OR NL_OBJ_MARK", folded h1_def] this]
  obtain h' where h': "mark_items as h1 = Some h'" "refs_ok ops h' rc" "h_caches h' = h_caches h1" "h_next h' = h_next h1"
      "h_grants h' = h_grants h1" "\<forall>a. (h_objs h' a = None) = (h_objs h1 a = None)"
      "\<forall>a. a \<in> set as \<or> marked h1 a \<longrightarrow> marked h' a" by blast
  have "marked h1 a" "\<And>x. marked h x \<Longrightarrow> marked h1 x" using m ob by (simp_all add: marked_def h1_def)
  moreover have "nl_object_mark a h = Some h1" using ob by (simp add: nl_object_mark_def h1_def)
  moreover have "(h_objs h1 x = None) = (h_objs h x = None)" for x using ob by (simp add: h1_def)
  moreover have "h_caches h1 = h_caches h" "h_next h1 = h_next h" "h_grants h1 = h_grants h" by (simp_all add: h1_def)
  ultimately show ?case using h' by (intro exI [of _ h']) auto
qed simp

text \<open>The action of the controller's messages is not specified, so an include does nothing.\<close>

lemma parse_without_include:
  assumes ok: "family_ok f" and g: "\<forall>x. h_grants h x" and new: "h_objs h (h_next h) = None"
  shows "\<exists>n. nl_cache_parse genl_ctrl_ops (family_msg fl sq pid ver f) 0 (resync_cb genl_family_ops genl_ctrl_ops c cb) h = Some (0, h\<lparr>h_next := h_next h + n\<rparr>)"
proof -
  let ?a = "h_next h" and ?n = "h_next h + 1 + length (gf_ops f) + length (gf_mc_grps f)"
  have cb: "resync_cb genl_family_ops genl_ctrl_ops c cb ?a (fam_heap ?a h (?n, family_obj f)) = Some (0, fam_heap ?a h (?n, family_obj f))"
    by (simp add: resync_cb_def nl_cache_include_def genl_ctrl_ops_def GENL_FAMILY_def cache_include_def nl_act_defs
        fam_heap_def set_obj_def family_obj_def GENL_ID_CTRL_def)
  have nb: "\<not> gf_borrowed f" using ok by (simp add: family_ok_def)
  have put: "genl_family_put (Some ?a) (fam_heap ?a h (?n, family_obj f)) = Some (h\<lparr>h_next := ?n\<rparr>)"
    using new nb by (simp add: genl_family_put_def nl_object_put_def put_with_def nl_object_free_def free_uncached_def fam_heap_def
        set_obj_def family_obj_def genl_family_ops_def family_free_data_def fun_upd_idem)
  have "nl_cache_parse genl_ctrl_ops (family_msg fl sq pid ver f) 0 (resync_cb genl_family_ops genl_ctrl_ops c cb) h = Some (0, h\<lparr>h_next := ?n\<rparr>)"
    using genl_msg_parser_family(1) [OF ok refl g, of fl sq pid ver "resync_cb genl_family_ops genl_ctrl_ops c cb"] genl_msg_parser_family(2,3) [OF ok refl g] cb put
    by (simp add: genl_ctrl_dispatch GENL_HDRSIZE_def GENL_ID_CTRL_def NLE_OPNOTSUPP_def)
  then show ?thesis by (intro exI [of _ "1 + length (gf_ops f) + length (gf_mc_grps f)"]) simp
qed

context ctrl_link
begin

lemma resync_ok:
  fixes u :: "(genl_family, 'u) libstate_scheme"
  assumes sk: "answers sk" and link: "linked (kern p)" "inbox (kern p) = []" and h: "heap_free (lib u)"
    and ok: "refs_ok genl_family_ops (lib u) rc" and bound: "\<forall>x. rc x + 2 < 2 ^ 30" and ca: "h_caches (lib u) c = Some ca"
  shows "\<exists>u' p' ca'. nl_cache_resync genl_family_ops genl_ctrl_ops (Some (ctrl_request_update sys msg_size)) sys sk c (Some (recorder g)) u p
      = Some (0, sk\<lparr>s_seq_next := s_seq_next sk + 1, s_seq_expect := s_seq_expect sk + 1\<rparr>, u', p')
    \<and> keeps linked drv inbox (kern p) (kern p') \<and> refs_ok genl_family_ops (lib u') rc
    \<and> h_caches (lib u') c = Some ca' \<and> c_items ca' = []"
proof -
  have ex: "\<forall>a \<in> set (c_items ca). \<exists>ob. h_objs (lib u) a = Some ob"
    using refs_okD(3) [OF ok ca] by (auto simp: cache_ok_def)
  obtain h1 where h1: "mark_items (c_items ca) (lib u) = Some h1" "refs_ok genl_family_ops h1 rc" "h_caches h1 = h_caches (lib u)"
      "h_next h1 = h_next (lib u)" "h_grants h1 = h_grants (lib u)" "\<forall>a. (h_objs h1 a = None) = (h_objs (lib u) a = None)"
      "\<forall>a \<in> set (c_items ca). marked h1 a"
    using mark_items_ok [OF ok ex] by blast
  have mark: "nl_cache_mark_all c (lib u) = Some h1" using ca h1(1) by (simp add: nl_cache_mark_all_def)
  obtain n k where k: "nl_cache_request_full_dump (Some (ctrl_request_update sys msg_size)) sk (u\<lparr>lib := h1\<rparr>) p
      = Some (n, sk\<lparr>s_seq_next := s_seq_next sk + 1\<rparr>, u\<lparr>lib := h1\<rparr>, p\<lparr>kern := k\<rparr>)" "\<not> is_neg n" "linked k" "drv k = drv (kern p)"
      "inbox k = map (family_datagram (s_seq_next sk) (nl_pid (s_local sk))) dump @ [done_msg (s_seq_next sk) (nl_pid (s_local sk))]"
    by (rule request_dump_ok [OF sk link])
  let ?I = "\<lambda>(gs :: genl_family list) h. \<exists>n. h = h1\<lparr>h_next := h_next h1 + n\<rparr>"
  have "\<exists>p' h. cache_pickup genl_ctrl_ops sys (sk\<lparr>s_seq_next := s_seq_next sk + 1\<rparr>) (resync_cb genl_family_ops genl_ctrl_ops c (Some (recorder g))) (u\<lparr>lib := h1\<rparr>) (p\<lparr>kern := k\<rparr>)
      = Some (0, (sk\<lparr>s_seq_next := s_seq_next sk + 1\<rparr>)\<lparr>s_seq_expect := s_seq_expect (sk\<lparr>s_seq_next := s_seq_next sk + 1\<rparr>) + 1\<rparr>, u\<lparr>lib := h1, lib := h\<rparr>, p')
    \<and> linked (kern p') \<and> drv (kern p') = drv (kern (p\<lparr>kern := k\<rparr>)) \<and> inbox (kern p') = [] \<and> used_ports_map p' = used_ports_map (p\<lparr>kern := k\<rparr>)
    \<and> ?I (concat dump) h"
  proof (rule pickup_with [where I = ?I and sq = "s_seq_next sk" and pid = "nl_pid (s_local sk)"])
    fix f gs h
    assume f: "family_ok f" and "\<exists>n. h = h1\<lparr>h_next := h_next h1 + n\<rparr>"
    then obtain n where n: "h = h1\<lparr>h_next := h_next h1 + n\<rparr>" by blast
    have "\<forall>x. h_grants h x" "h_objs h (h_next h) = None"
      using h h1(4-6) by (simp_all add: n heap_free_def)
    from parse_without_include [OF f this, of NLM_F_MULTI "s_seq_next sk" "nl_pid (s_local sk)" 2 c "Some (recorder g)"]
    obtain m where "nl_cache_parse genl_ctrl_ops (family_msg NLM_F_MULTI (s_seq_next sk) (nl_pid (s_local sk)) 2 f) 0
        (resync_cb genl_family_ops genl_ctrl_ops c (Some (recorder g))) h = Some (0, h\<lparr>h_next := h_next h + m\<rparr>)" by blast
    then show "\<exists>h'. nl_cache_parse genl_ctrl_ops (family_msg NLM_F_MULTI (s_seq_next sk) (nl_pid (s_local sk)) 2 f) 0
        (resync_cb genl_family_ops genl_ctrl_ops c (Some (recorder g))) h = Some (0, h') \<and> (\<exists>n. h' = h1\<lparr>h_next := h_next h1 + n\<rparr>)"
      by (intro exI [of _ "h\<lparr>h_next := h_next h + m\<rparr>"] conjI exI [of _ "n + m"]) (simp_all add: n)
  qed (use sk k(3,5) in \<open>auto simp: answers_def intro: exI [of _ 0]\<close>)
  then obtain p' n2 where pick: "cache_pickup genl_ctrl_ops sys (sk\<lparr>s_seq_next := s_seq_next sk + 1\<rparr>) (resync_cb genl_family_ops genl_ctrl_ops c (Some (recorder g))) (u\<lparr>lib := h1\<rparr>) (p\<lparr>kern := k\<rparr>)
      = Some (0, sk\<lparr>s_seq_next := s_seq_next sk + 1, s_seq_expect := s_seq_expect sk + 1\<rparr>, u\<lparr>lib := h1\<lparr>h_next := h_next h1 + n2\<rparr>\<rparr>, p')"
      "linked (kern p')" "drv (kern p') = drv k" "inbox (kern p') = []"
    by auto
  let ?h2 = "h1\<lparr>h_next := h_next h1 + n2\<rparr>"
  have ok2: "refs_ok genl_family_ops ?h2 rc" using h1(2) by (simp add: refs_ok_def cong: option.case_cong)
  have ca2: "h_caches ?h2 c = Some ca" using ca h1(3) by simp
  obtain h3 ca3 where "resync_sweep genl_family_ops c (Some (recorder g)) ?h2 = Some h3" "refs_ok genl_family_ops h3 rc"
      "h_caches h3 c = Some ca3" "c_items ca3 = filter (\<lambda>a. \<not> marked ?h2 a) (c_items ca)"
    using sweep_removes_marked [OF ok2 bound ca2] by blast
  moreover have "filter (\<lambda>a. \<not> marked ?h2 a) (c_items ca) = []" using h1(7) by (simp add: filter_empty_conv marked_def)
  ultimately show ?thesis
    using mark k(1,2,4) pick link(2) by (auto simp: nl_cache_resync_def keeps_def)
qed

end

text \<open>
  Claim C13.  Resynchronising a cache of families empties it: the controller's message type has no
  action, so none of the families that the kernel reports is included, and every object that
  was in the cache is taken for obsolete, removed and reported as deleted, although the call
  succeeds; reference counts stay exact.
\<close>

theorem resync_empties_families:
  fixes u :: "(genl_family, 'u) libstate_scheme" and sk :: "(genl_family, 'u) libstate_scheme nl_sock"
  assumes link: "ctrl_link sys msg_size linked drv inbox dump" and k: "linked (kern p)" "inbox (kern p) = []"
    and sk: "s_cb sk = silent_cb" "s_flags sk = NL_SOCK_BUFSIZE_SET" "s_seq_next sk = s_seq_expect sk"
    and h: "heap_free (lib u)" "refs_ok genl_family_ops (lib u) rc" "\<forall>x. rc x + 2 < 2 ^ 30" "h_caches (lib u) c = Some ca"
  shows "\<exists>sk' u' p' ca'. nl_cache_resync genl_family_ops genl_ctrl_ops (Some (ctrl_request_update sys msg_size)) sys sk c (Some (recorder g)) u p = Some (0, sk', u', p')
    \<and> h_caches (lib u') c = Some ca' \<and> c_items ca' = [] \<and> refs_ok genl_family_ops (lib u') rc \<and> inbox (kern p') = []"
proof -
  have "answers sk" using sk by (simp add: answers_def)
  then show ?thesis
    using ctrl_link.resync_ok [OF link _ k h, of sk g] k(2) by (fastforce simp: keeps_def)
qed

text \<open>
  Claim C12.  Resolving all registered operations: every structure whose name is that of a family
  the kernel reports gets the number of the first such family, the others stay as they are; the
  code is that of the last structure alone, so names that were not found before it go
  unreported; everything that was allocated is freed.
\<close>

theorem mngt_resolve_sets_numbers:
  fixes u :: "(genl_family, 'u) libstate_scheme" and sk :: "(genl_family, 'u) libstate_scheme nl_sock"
  assumes link: "ctrl_link sys msg_size linked drv inbox dump" and k: "linked (kern p)" "inbox (kern p) = []"
    and sk: "s_cb sk = silent_cb" "s_flags sk = NL_SOCK_BUFSIZE_SET" "s_seq_next sk = s_seq_expect sk"
    and h: "heap_free (lib u)" and reg: "\<forall>g \<in> set (genl_ops_list r). \<exists>genl name. genl_at r g = Some genl \<and> o_name genl = Some name"
  shows "\<exists>r' sk' u' p'. genl_mngt_resolve sys msg_size sk r u p
      = Some (if genl_ops_list r = [] then 0 else resolve_code (concat dump) (the (genl_at r (last (genl_ops_list r)))), r', sk', u', p')
    \<and> (\<forall>g. genl_at r' g = (if g \<in> set (genl_ops_list r) then map_option (resolved (concat dump)) (genl_at r g) else genl_at r g))
    \<and> h_objs (lib u') = h_objs (lib u) \<and> h_caches (lib u') = h_caches (lib u) \<and> inbox (kern p') = []"
proof -
  have "answers sk" using sk by (simp add: answers_def)
  then obtain r' p' n where "genl_mngt_resolve sys msg_size sk r u p
      = Some (if genl_ops_list r = [] then 0 else resolve_code (concat dump) (the (genl_at r (last (genl_ops_list r)))), r',
          sk\<lparr>s_seq_next := s_seq_next sk + 1, s_seq_expect := s_seq_expect sk + 1\<rparr>, bump n u, p')"
    "\<forall>g. genl_at r' g = (if g \<in> set (genl_ops_list r) then map_option (resolved (concat dump)) (genl_at r g) else genl_at r g)"
    "keeps linked drv inbox (kern p) (kern p')"
    using ctrl_link.mngt_resolve_ok [OF link _ k h reg, of sk] by blast
  then show ?thesis using k(2) by (auto simp: bump_def keeps_def)
qed

end
