(* ===== verification/NL_Addr.thy ===== *)
theory NL_Addr
  imports NL_Attr
begin

text \<open>
  Abstract data and abstract addresses (\<^verbatim>\<open>lib/data.c\<close>, \<^verbatim>\<open>lib/addr.c\<close>) and the attributes that carry them.
  The handles are values: a function that changes one returns it, and freeing one returns nothing.
  Whether an allocation succeeds is a parameter \<open>ok\<close>; a buffer that is too short for what is read from
  it or written to it is a fault.  Addresses as text are covered for DECnet; the other formats go
  through functions of the C library.
\<close>

section \<open>Abstract data\<close>

record nl_data =
  d_size :: u64
  d_data :: "bytes option"

definition nl_data_alloc :: "bool \<Rightarrow> bool \<Rightarrow> bytes option \<Rightarrow> u64 \<Rightarrow> nl_data option option" where
  "nl_data_alloc ok ok2 buf sz =
    (if \<not> ok \<or> \<not> ok2 then Some None
     else do {
       mem \<leftarrow> (case buf of
           None \<Rightarrow> Some (replicate (unat sz) 0)
         | Some b \<Rightarrow> do { src \<leftarrow> take_exact (unat sz) b; blit 0 src (replicate (unat sz) 0) });
       Some (Some \<lparr>d_size = sz, d_data = Some mem\<rparr>)
     })"

definition nl_data_alloc_attr :: "bool \<Rightarrow> bool \<Rightarrow> bytes \<Rightarrow> nat \<Rightarrow> nl_data option option" where
  "nl_data_alloc_attr ok ok2 b nla = do {
     len \<leftarrow> nla_len b nla;
     nl_data_alloc ok ok2 (Some (drop (nla_data nla) b)) (scast len)
   }"

definition nl_data_clone :: "bool \<Rightarrow> bool \<Rightarrow> nl_data \<Rightarrow> nl_data option option" where
  "nl_data_clone ok ok2 src = nl_data_alloc ok ok2 (d_data src) (d_size src)"

text \<open>
  \<^verbatim>\<open>realloc\<close> keeps the old bytes as far as there is room; \<open>junk\<close> are the bytes of new memory.  When it
  fails, the pointer to the old block is overwritten.
\<close>

definition realloc :: "(nat \<Rightarrow> u8) \<Rightarrow> bytes option \<Rightarrow> nat \<Rightarrow> bytes" where
  "realloc junk old n = (let b = (case old of None \<Rightarrow> [] | Some b \<Rightarrow> take n b) in b @ map junk [length b..<n])"

definition nl_data_append :: "bool \<Rightarrow> (nat \<Rightarrow> u8) \<Rightarrow> nl_data \<Rightarrow> bytes option \<Rightarrow> u64 \<Rightarrow> (i32 \<times> nl_data) option" where
  "nl_data_append ok junk data buf sz =
    (if 0 < sz then
       if \<not> ok then Some (- NLE_NOMEM, data\<lparr>d_data := None\<rparr>)
       else do {
         src \<leftarrow> (case buf of None \<Rightarrow> Some (replicate (unat sz) 0) | Some b \<Rightarrow> take_exact (unat sz) b);
         mem \<leftarrow> blit (unat (d_size data)) src (realloc junk (d_data data) (unat (d_size data + sz)));
         Some (0, data\<lparr>d_data := Some mem, d_size := d_size data + sz\<rparr>)
       }
     else Some (0, data))"

definition nl_data_get :: "nl_data \<Rightarrow> bytes option" where
  "nl_data_get data = (if 0 < d_size data then d_data data else None)"

definition nl_data_get_size :: "nl_data \<Rightarrow> u64" where
  "nl_data_get_size data = d_size data"

text \<open>The sign of \<^verbatim>\<open>memcmp\<close>; both blocks must have the bytes that are compared.\<close>

fun byte_order :: "bytes \<Rightarrow> bytes \<Rightarrow> int" where
  "byte_order (x # xs) (y # ys) = (if x < y then - 1 else if y < x then 1 else byte_order xs ys)"
| "byte_order _ _ = 0"

definition memcmp :: "bytes \<Rightarrow> bytes \<Rightarrow> nat \<Rightarrow> int option" where
  "memcmp a b n = do { x \<leftarrow> take_exact n a; y \<leftarrow> take_exact n b; Some (byte_order x y) }"

definition nl_data_cmp :: "nl_data \<Rightarrow> nl_data \<Rightarrow> int option" where
  "nl_data_cmp a b =
    (case (nl_data_get a, nl_data_get b) of
       (Some a', Some b') \<Rightarrow> memcmp a' b' (unat (nl_data_get_size a))
     | _ \<Rightarrow> Some (- 1))"

definition nla_put_data :: "nl_msg \<Rightarrow> i32 \<Rightarrow> nl_data \<Rightarrow> (i32 \<times> nl_msg) option" where
  "nla_put_data msg attrtype data =
     nla_put msg attrtype (ucast (nl_data_get_size data)) (case nl_data_get data of None \<Rightarrow> [] | Some b \<Rightarrow> b)"

section \<open>DECnet addresses as text\<close>

definition dn_ntohs :: "u16 \<Rightarrow> u16" where
  "dn_ntohs w = (let b = le16 w in ucast (b ! 0) OR push_bit 8 (ucast (b ! 1)))"

text \<open>
  The state of the printing: the buffer, the position, the number that is left and whether a digit
  was printed.  \<open>do_digit\<close> says whether the buffer is full.
\<close>

type_synonym digit_state = "bytes \<times> nat \<times> u16 \<times> bool"

definition do_digit :: "u16 \<Rightarrow> nat \<Rightarrow> digit_state \<Rightarrow> (bool \<times> digit_state) option" where
  "do_digit scale len = (\<lambda>(str, pos, addr, started).
    (let tmp = addr div scale in
     if pos = len then Some (True, (str, pos, addr, started))
     else if 0 < tmp \<or> started \<or> scale = 1 then
       if pos < length str then Some (False, (str[pos := ucast tmp + 48], pos + 1, addr - tmp * scale, True)) else None
     else Some (False, (str, pos, addr, started))))"

primrec do_digits :: "u16 list \<Rightarrow> nat \<Rightarrow> digit_state \<Rightarrow> (bool \<times> digit_state) option" where
  "do_digits [] len st = Some (False, st)"
| "do_digits (scale # scales) len st = do {
     (full, st) \<leftarrow> do_digit scale len st;
     if full then Some (True, st) else do_digits scales len st
   }"

definition put_char :: "bytes \<Rightarrow> nat \<Rightarrow> u8 \<Rightarrow> bytes option" where
  "put_char str pos c = (if pos < length str then Some (str[pos := c]) else None)"

text \<open>The result says whether a string was returned, and holds the buffer.\<close>

definition dnet_ntop :: "bytes \<Rightarrow> u64 \<Rightarrow> bytes \<Rightarrow> nat \<Rightarrow> (bool \<times> bytes) option" where
  "dnet_ntop addrbuf addrlen str len = do {
     w \<leftarrow> ld16 addrbuf 0;
     let addr = dn_ntohs w;
     let area = drop_bit 10 addr;
     if addrlen \<noteq> 2 then Some (False, str)
     else if len = 0 then Some (True, str)
     else do {
       (full, (str, pos, _, _)) \<leftarrow> do_digits [10, 1] len (str, 0, area, False);
       if full \<or> pos = len then Some (True, str)
       else do {
         str \<leftarrow> put_char str pos 46;
         (full, (str, pos, _, _)) \<leftarrow> do_digits [1000, 100, 10, 1] len (str, pos + 1, addr AND 0x3ff, False);
         if full \<or> pos = len then Some (True, str)
         else do { str \<leftarrow> put_char str pos 0; Some (True, str) }
       }
     }
   }"

text \<open>A string is given without its NUL byte.  The number wraps around.\<close>

fun dnet_num_from :: "nat \<Rightarrow> u16 \<Rightarrow> bytes \<Rightarrow> nat \<times> u16" where
  "dnet_num_from rv dst [] = (rv, dst)"
| "dnet_num_from rv dst (c # cs) =
     (if c < 48 \<or> 57 < c then (rv, dst) else dnet_num_from (rv + 1) (dst * 10 + ucast (c - 48)) cs)"

definition dnet_num :: "bytes \<Rightarrow> nat \<times> u16" where
  "dnet_num src = dnet_num_from 0 0 src"

definition char_at :: "bytes \<Rightarrow> nat \<Rightarrow> u8" where
  "char_at str i = (if i < length str then str ! i else 0)"

definition dnet_pton :: "bytes \<Rightarrow> bytes \<Rightarrow> (i32 \<times> bytes) option" where
  "dnet_pton src addrbuf =
    (let (pos, area) = dnet_num src in
     if pos = 0 \<or> 63 < area \<or> char_at src pos \<noteq> 46 \<and> char_at src pos \<noteq> 44 then Some (- NLE_INVAL, addrbuf)
     else
       let (pos2, node) = dnet_num (drop (pos + 1) src) in
       if pos2 = 0 \<or> 1023 < node then Some (- NLE_INVAL, addrbuf)
       else do {
         buf \<leftarrow> st16 0 (dn_ntohs (push_bit 10 area OR node)) addrbuf;
         Some (1, buf)
       })"

section \<open>Abstract addresses\<close>

definition AF_UNSPEC :: i32 where "AF_UNSPEC = 0"
definition AF_INET :: i32 where "AF_INET = 2"
definition AF_INET6 :: i32 where "AF_INET6 = 10"
definition AF_LLC :: i32 where "AF_LLC = 26"

text \<open>\<open>a_addr\<close> has \<open>a_maxsize\<close> bytes, all that is allocated.\<close>

record nl_addr =
  a_family :: i32
  a_maxsize :: u32
  a_len :: u32
  a_prefixlen :: i32
  a_refcnt :: i32
  a_addr :: bytes

definition addr_destroy :: "nl_addr option \<Rightarrow> unit option" where
  "addr_destroy addr = (case addr of None \<Rightarrow> Some () | Some a \<Rightarrow> if a_refcnt a \<noteq> 1 then None else Some ())"

text \<open>The size of the structure without its bytes is 20; a sum that wraps around allocates too little.\<close>

definition nl_addr_alloc :: "bool \<Rightarrow> u64 \<Rightarrow> nl_addr option option" where
  "nl_addr_alloc ok maxsize =
    (if \<not> ok then Some None
     else if 20 + maxsize < maxsize then None
     else Some (Some \<lparr>a_family = 0, a_maxsize = ucast maxsize, a_len = 0, a_prefixlen = 0, a_refcnt = 1,
       a_addr = replicate (unat maxsize) 0\<rparr>))"

definition nl_addr_build :: "bool \<Rightarrow> i32 \<Rightarrow> bytes \<Rightarrow> u64 \<Rightarrow> nl_addr option option" where
  "nl_addr_build ok family buf sz = do {
     r \<leftarrow> nl_addr_alloc ok sz;
     (case r of
        None \<Rightarrow> Some None
      | Some addr \<Rightarrow> do {
          let addr = addr\<lparr>a_family := family, a_len := ucast sz, a_prefixlen := ucast (sz * 8)\<rparr>;
          if sz \<noteq> 0 then do {
            src \<leftarrow> take_exact (unat sz) buf;
            mem \<leftarrow> blit 0 src (a_addr addr);
            Some (Some (addr\<lparr>a_addr := mem\<rparr>))
          }
          else Some (Some addr)
        })
   }"

definition nl_addr_alloc_attr :: "bool \<Rightarrow> bytes \<Rightarrow> nat \<Rightarrow> i32 \<Rightarrow> nl_addr option option" where
  "nl_addr_alloc_attr ok b nla family = do {
     len \<leftarrow> nla_len b nla;
     nl_addr_build ok family (drop (nla_data nla) b) (scast len)
   }"

definition nl_addr_clone :: "bool \<Rightarrow> nl_addr \<Rightarrow> nl_addr option option" where
  "nl_addr_clone ok addr = do {
     r \<leftarrow> nl_addr_build ok (a_family addr) (a_addr addr) (ucast (a_len addr));
     Some (map_option (\<lambda>new. new\<lparr>a_prefixlen := a_prefixlen addr\<rparr>) r)
   }"

definition nl_addr_get :: "nl_addr \<Rightarrow> nl_addr" where
  "nl_addr_get addr = addr\<lparr>a_refcnt := a_refcnt addr + 1\<rparr>"

definition nl_addr_put :: "nl_addr option \<Rightarrow> nl_addr option option" where
  "nl_addr_put addr =
    (case addr of
       None \<Rightarrow> Some None
     | Some a \<Rightarrow>
        if a_refcnt a = 1 then do { _ \<leftarrow> addr_destroy (Some a); Some None }
        else Some (Some (a\<lparr>a_refcnt := a_refcnt a - 1\<rparr>)))"

definition nl_addr_shared :: "nl_addr \<Rightarrow> bool" where
  "nl_addr_shared addr \<longleftrightarrow> 1 < sint (a_refcnt addr)"

text \<open>The comparisons return an \<^verbatim>\<open>int\<close>, of which only the sign is specified where bytes differ.\<close>

definition nl_addr_cmp :: "nl_addr \<Rightarrow> nl_addr \<Rightarrow> int option" where
  "nl_addr_cmp a b =
    (let d = a_family a - a_family b in
     if d = 0 then
       let d = a_len a - a_len b in
       if a_len a \<noteq> 0 \<and> d = 0 then memcmp (a_addr a) (a_addr b) (unat (a_len a)) else Some (sint d)
     else Some (sint d))"

text \<open>
  With a negative prefix length the code compares a huge number of bytes or shifts by a negative
  number.  The byte behind the whole bytes of the prefix is always read.
\<close>

definition nl_addr_cmp_prefix :: "nl_addr \<Rightarrow> nl_addr \<Rightarrow> int option" where
  "nl_addr_cmp_prefix a b =
    (let d = a_family a - a_family b in
     if d = 0 then
       let len = min (sint (a_prefixlen a)) (sint (a_prefixlen b)); bytes = nat (len div 8) in
       if len < 0 then None
       else do {
         d \<leftarrow> memcmp (a_addr a) (a_addr b) bytes;
         if d = 0 then do {
           x \<leftarrow> ld8 (a_addr a) bytes;
           y \<leftarrow> ld8 (a_addr b) bytes;
           let msk = mask (nat (len mod 8));
           Some (uint (x AND msk) - uint (y AND msk))
         }
         else Some d
       }
     else Some (sint d))"

definition nl_addr_iszero :: "nl_addr \<Rightarrow> bool option" where
  "nl_addr_iszero addr =
     (if unat (a_len addr) \<le> length (a_addr addr) then Some (list_all (\<lambda>x. x = 0) (take (unat (a_len addr)) (a_addr addr)))
      else if list_all (\<lambda>x. x = 0) (a_addr addr) then None else Some False)"

definition nl_addr_guess_family :: "nl_addr \<Rightarrow> i32" where
  "nl_addr_guess_family addr =
    (if a_len addr = 4 then AF_INET else if a_len addr = 6 then AF_LLC else if a_len addr = 16 then AF_INET6 else AF_UNSPEC)"

text \<open>
  \<^verbatim>\<open>struct sockaddr_in\<close> has 16 bytes with the address at 4, \<^verbatim>\<open>struct sockaddr_in6\<close> has 28 bytes with the
  address at 8; the result is the code, the new length and the bytes of the structure.
\<close>

definition nl_addr_fill_sockaddr :: "nl_addr \<Rightarrow> bytes \<Rightarrow> u32 \<Rightarrow> (i32 \<times> u32 \<times> bytes) option" where
  "nl_addr_fill_sockaddr addr sa salen =
    (let fill = (\<lambda>sz off n.
       if salen < sz then Some (- NLE_INVAL, salen, sa)
       else do {
         sa \<leftarrow> st16 0 (ucast (a_family addr)) sa;
         src \<leftarrow> take_exact n (a_addr addr);
         sa \<leftarrow> blit off src sa;
         Some (0, sz, sa)
       }) in
     if a_family addr = AF_INET then fill 16 4 4
     else if a_family addr = AF_INET6 then fill 28 8 16
     else Some (- NLE_INVAL, salen, sa))"

definition nl_addr_set_family :: "nl_addr \<Rightarrow> i32 \<Rightarrow> nl_addr" where
  "nl_addr_set_family addr family = addr\<lparr>a_family := family\<rparr>"

definition nl_addr_get_family :: "nl_addr \<Rightarrow> i32" where
  "nl_addr_get_family addr = a_family addr"

definition nl_addr_set_binary_addr :: "nl_addr \<Rightarrow> bytes \<Rightarrow> u64 \<Rightarrow> (i32 \<times> nl_addr) option" where
  "nl_addr_set_binary_addr addr buf len =
    (if ucast (a_maxsize addr) < len then Some (- NLE_RANGE, addr)
     else do {
       src \<leftarrow> take_exact (unat len) buf;
       mem \<leftarrow> blit 0 src (a_addr addr);
       Some (0, addr\<lparr>a_len := ucast len, a_addr := mem\<rparr>)
     })"

definition nl_addr_get_binary_addr :: "nl_addr \<Rightarrow> bytes" where
  "nl_addr_get_binary_addr addr = a_addr addr"

definition nl_addr_get_len :: "nl_addr \<Rightarrow> u32" where
  "nl_addr_get_len addr = a_len addr"

definition nl_addr_set_prefixlen :: "nl_addr \<Rightarrow> i32 \<Rightarrow> nl_addr" where
  "nl_addr_set_prefixlen addr prefixlen = addr\<lparr>a_prefixlen := prefixlen\<rparr>"

definition nl_addr_get_prefixlen :: "nl_addr \<Rightarrow> u32" where
  "nl_addr_get_prefixlen addr = a_prefixlen addr"

definition nla_put_addr :: "nl_msg \<Rightarrow> i32 \<Rightarrow> nl_addr \<Rightarrow> (i32 \<times> nl_msg) option" where
  "nla_put_addr msg attrtype addr = nla_put msg attrtype (nl_addr_get_len addr) (nl_addr_get_binary_addr addr)"

section \<open>Growing abstract data\<close>

definition wf_data :: "nl_data \<Rightarrow> bool" where
  "wf_data d \<longleftrightarrow> (\<exists>b. d_data d = Some b \<and> length b = unat (d_size d))"

lemma nl_data_alloc_bytes:
  assumes "unat sz \<le> length buf"
  shows "nl_data_alloc True True (Some buf) sz = Some (Some \<lparr>d_size = sz, d_data = Some (take (unat sz) buf)\<rparr>)"
  using assms by (simp add: nl_data_alloc_def take_exact_def blit_def)

lemma nl_data_append_bytes:
  assumes "d_data d = Some b" "length b = unat (d_size d)" "unat (d_size d) + length src < 2 ^ 64"
  shows "nl_data_append True junk d (Some src) (word_of_nat (length src))
    = Some (0, \<lparr>d_size = d_size d + word_of_nat (length src), d_data = Some (b @ src)\<rparr>)"
proof -
  let ?n = "word_of_nat (length src) :: u64"
  have n: "unat ?n = length src" "unat (d_size d + ?n) = unat (d_size d) + length src"
    using assms(3) by (simp_all add: unsigned_of_nat take_bit_nat_eq_self unat_word_ariths)
  show ?thesis
  proof (cases "src = []")
    case True
    then show ?thesis using assms(1) by (simp add: nl_data_append_def)
  next
    case False
    then have "0 < ?n" using n by (simp add: word_less_nat_alt)
    moreover have "take_exact (unat ?n) src = Some src" using n by (simp add: take_exact_def)
    moreover have "blit (unat (d_size d)) src (realloc junk (d_data d) (unat (d_size d + ?n))) = Some (b @ src)"
      using assms n by (simp add: realloc_def blit_def Let_def)
    ultimately show ?thesis by (simp add: nl_data_append_def)
  qed
qed

lemma nl_data_append_fails: "0 < sz \<Longrightarrow> \<exists>d'. nl_data_append False junk d buf sz = Some (- NLE_NOMEM, d') \<and> \<not> wf_data d'"
  by (simp add: nl_data_append_def wf_data_def)

section \<open>The text of a DECnet address\<close>

text \<open>What the printing writes: the digits for a list of scales.\<close>

primrec printed :: "u16 list \<Rightarrow> u16 \<Rightarrow> bool \<Rightarrow> bytes" where
  "printed [] a s = []"
| "printed (c # cs) a s =
    (if 0 < a div c \<or> s \<or> c = 1 then (ucast (a div c) + 48) # printed cs (a - a div c * c) True
     else printed cs a s)"

primrec tens :: "nat \<Rightarrow> u16 list" where
  "tens 0 = []"
| "tens (Suc n) = 10 ^ n # tens n"

lemma length_tens [simp]: "length (tens n) = n"
  by (induction n) auto

lemma length_printed: "length (printed cs a s) \<le> length cs"
  by (induction cs arbitrary: a s) (auto intro: le_SucI)

lemma do_digits_printed:
  assumes "length p + length cs \<le> len" "length cs \<le> length q"
  shows "\<exists>a' s'. do_digits cs len (p @ q, length p, a, s) =
    Some (False, (p @ printed cs a s @ drop (length (printed cs a s)) q, length p + length (printed cs a s), a', s'))"
  using assms
proof (induction cs arbitrary: p q a s)
  case Nil
  then show ?case by simp
next
  case (Cons c cs)
  obtain x r where q: "q = x # r" using Cons.prems(2) by (cases q) auto
  have pos: "length p \<noteq> len" "length p < length (p @ q)" using Cons.prems q by auto
  show ?case
  proof (cases "0 < a div c \<or> s \<or> c = 1")
    case True
    have "(p @ q)[length p := ucast (a div c) + 48] = (p @ [ucast (a div c) + 48]) @ r"
      by (simp add: q)
    then have "do_digit c len (p @ q, length p, a, s) =
      Some (False, ((p @ [ucast (a div c) + 48]) @ r, length (p @ [ucast (a div c) + 48 :: u8]), a - a div c * c, True))"
      using True pos by (simp add: do_digit_def Let_def)
    moreover obtain a' s' where "do_digits cs len ((p @ [ucast (a div c) + 48]) @ r, length (p @ [ucast (a div c) + 48 :: u8]), a - a div c * c, True)
      = Some (False, ((p @ [ucast (a div c) + 48]) @ printed cs (a - a div c * c) True @ drop (length (printed cs (a - a div c * c) True)) r,
        length (p @ [ucast (a div c) + 48 :: u8]) + length (printed cs (a - a div c * c) True), a', s'))"
      using Cons.IH [of "p @ [ucast (a div c) + 48]" r] Cons.prems q by fastforce
    ultimately show ?thesis using True q by simp
  next
    case False
    then have "do_digit c len (p @ q, length p, a, s) = Some (False, (p @ q, length p, a, s))"
      using pos by (simp add: do_digit_def Let_def)
    moreover have "printed (c # cs) a s = printed cs a s" using False by simp
    ultimately show ?thesis using Cons.IH [of p q a s] Cons.prems by simp
  qed
qed

lemma digit_char:
  fixes t :: u16
  assumes "t \<le> 9"
  shows "\<not> ((ucast t + 48 :: u8) < 48 \<or> 57 < (ucast t + 48 :: u8))" "(ucast ((ucast t + 48 :: u8) - 48) :: u16) = t" "(ucast t + 48 :: u8) \<noteq> 0"
proof -
  have t: "unat t \<le> 9" using assms by (simp add: word_le_nat_alt)
  have u: "unat (ucast t :: u8) = unat t" using t by (simp add: unsigned_ucast_eq take_bit_nat_eq_self)
  have v: "unat (ucast t + 48 :: u8) = unat t + 48" using t u by (simp add: unat_word_ariths)
  show "\<not> ((ucast t + 48 :: u8) < 48 \<or> 57 < (ucast t + 48 :: u8))" using t v by (simp add: word_less_nat_alt)
  show "(ucast ((ucast t + 48 :: u8) - 48) :: u16) = t"
  proof -
    have "unat (ucast (ucast t :: u8) :: u16) = take_bit 16 (unat (ucast t :: u8))"
      by (simp only: unsigned_ucast_eq) (simp add: unsigned_take_bit_eq)
    then show ?thesis using t u by (simp add: word_unat_eq_iff take_bit_nat_eq_self)
  qed
  show "(ucast t + 48 :: u8) \<noteq> 0" using v by (simp add: word_unat_eq_iff)
qed

lemma leading_digit:
  fixes a :: u16
  assumes "n \<le> 4" "unat a < 10 ^ Suc n"
  shows "a div 10 ^ n \<le> 9" "unat (a - a div 10 ^ n * 10 ^ n) < 10 ^ n"
proof -
  have "n \<in> {0, 1, 2, 3, 4}" using assms(1) by auto
  then have c: "unat (10 ^ n :: u16) = 10 ^ n" by auto
  show "a div 10 ^ n \<le> 9"
    using assms(2) c less_mult_imp_div_less [of "unat a" 10 "10 ^ n"] by (simp add: word_le_nat_alt unat_div)
  show "unat (a - a div 10 ^ n * 10 ^ n) < 10 ^ n"
    unfolding minus_div_mult_eq_mod using c by (simp add: unat_mod)
qed

lemma parse_started:
  assumes "n \<le> 5" "unat a < 10 ^ n"
  shows "length (printed (tens n) a True) = n
    \<and> dnet_num_from rv d (printed (tens n) a True @ rest) = dnet_num_from (rv + n) (d * 10 ^ n + a) rest"
  using assms
proof (induction n arbitrary: a rv d)
  case 0
  then show ?case by (simp add: unat_eq_zero)
next
  case (Suc n)
  note t = leading_digit [of n a] 
  show ?case using Suc digit_char [of "a div 10 ^ n"] t by (simp add: algebra_simps)
qed

lemma parse_fresh:
  assumes "n \<le> 5" "0 < n" "unat a < 10 ^ n"
  shows "printed (tens n) a False \<noteq> []
    \<and> dnet_num_from rv 0 (printed (tens n) a False @ rest) = dnet_num_from (rv + length (printed (tens n) a False)) a rest"
  using assms
proof (induction n arbitrary: a rv)
  case 0
  then show ?case by simp
next
  case (Suc n)
  note t = leading_digit [of n a] 
  show ?case
  proof (cases "0 < a div 10 ^ n \<or> 10 ^ n = (1 :: u16)")
    case True
    then show ?thesis using Suc.prems digit_char [of "a div 10 ^ n"] t parse_started [of n "a - a div 10 ^ n * 10 ^ n"] by (simp add: algebra_simps)
  next
    case False
    then have "a div 10 ^ n = 0" "0 < n" by (auto simp: word_gt_0 intro: gr0I)
    then show ?thesis using Suc False t by simp
  qed
qed

lemma dn_ntohs_id [simp]: "dn_ntohs w = w"
proof -
  obtain x y where xy: "le16 w = [x, y]"
    using length_le16 [of w] by (metis (no_types) length_0_conv length_Suc_conv numeral_2_eq_2)
  have "(ucast x AND push_bit 8 (ucast y) :: u16) = 0"
    by (intro bit_word_eqI) (auto simp: bit_simps dest: bit_imp_le_length)
  then have "(ucast x OR push_bit 8 (ucast y) :: u16) = ucast x + push_bit 8 (ucast y)"
    by (rule disjunctive_add_eq_or [symmetric])
  also have "\<dots> = of_le16 (le16 w)"
    by (simp add: of_le16_def xy push_bit_eq_mult)
  also have "\<dots> = w" by simp
  finally show ?thesis by (simp add: dn_ntohs_def xy Let_def)
qed

lemma area_node: "push_bit 10 (drop_bit 10 w) OR (w AND 0x3ff) = (w :: u16)"
proof -
  have *: "(0x3ff :: u16) = mask 10" by (simp add: mask_eq_exp_minus_1)
  show ?thesis unfolding * by (intro bit_word_eqI) (auto simp: bit_simps simp del: mask_numeral)
qed

lemma area_bound: "unat (drop_bit 10 w :: u16) < 64"
proof -
  have "unat w < 2 ^ 16" using unsigned_less [of w] by simp
  then show ?thesis by (simp add: unat_drop_bit_eq drop_bit_eq_div unat_div less_mult_imp_div_less)
qed
lemma node_bound: "unat (w AND 0x3ff :: u16) < 1024"
proof -
  have "w AND 0x3ff = take_bit 10 w" by (simp add: take_bit_eq_mask mask_eq_exp_minus_1)
  then show ?thesis by (simp add: take_bit_eq_mod unat_mod)
qed


lemma printed_nonzero: "n \<le> 5 \<Longrightarrow> unat a < 10 ^ n \<Longrightarrow> 0 \<notin> set (printed (tens n) a s)"
proof (induction n arbitrary: a s)
  case (Suc n)
  have "unat a < 10 ^ n" if "\<not> 0 < a div 10 ^ n"
    using that leading_digit [of n a] Suc.prems by (simp add: word_gt_0)
  then show ?case using Suc leading_digit [of n a] digit_char(3) [of "a div 10 ^ n"] by auto
qed simp

text \<open>The text of an address: the area, a dot and the node.\<close>

definition dnet_text :: "u16 \<Rightarrow> bytes" where
  "dnet_text w = printed (tens 2) (drop_bit 10 w) False @ 46 # printed (tens 4) (w AND 0x3ff) False"

lemma tens_lists: "tens 2 = [10, 1]" "tens 4 = [1000, 100, 10, 1]"
  by (simp_all add: eval_nat_numeral)

lemma length_dnet_text: "length (dnet_text w) \<le> 7"
  using length_printed [of "tens 2" "drop_bit 10 w" False] length_printed [of "tens 4" "w AND 0x3ff" False]
  by (simp add: dnet_text_def)

lemma dnet_ntop_text:
  assumes "8 \<le> len" "len \<le> length str"
  shows "dnet_ntop (le16 w @ rest) 2 str len = Some (True, dnet_text w @ 0 # drop (length (dnet_text w) + 1) str)"
proof -
  define p where "p = printed (tens 2) (drop_bit 10 w) False"
  define q where "q = printed (tens 4) (w AND 0x3ff) False"
  have lp: "length p \<le> 2" and lq: "length q \<le> 4"
    unfolding p_def q_def using length_printed [of "tens 2"] length_printed [of "tens 4"] by auto
  obtain a s where 1: "do_digits [10, 1] len (str, 0, drop_bit 10 w, False) = Some (False, (p @ drop (length p) str, length p, a, s))"
    using do_digits_printed [of "[]" "tens 2" len str "drop_bit 10 w" False] assms unfolding p_def [symmetric]
    by (auto simp: tens_lists)
  define r where "r = drop (length p + 1) str"
  have 2: "put_char (p @ drop (length p) str) (length p) 46 = Some ((p @ [46]) @ r)"
    using assms lp by (simp add: put_char_def r_def list_update_append upd_conv_take_nth_drop)
  have room: "length (p @ [46]) + length (tens 4) \<le> len" "length (tens 4) \<le> length r"
    using assms lp by (simp_all add: r_def)
  obtain a' s' where 3: "do_digits [1000, 100, 10, 1] len ((p @ [46]) @ r, length p + 1, w AND 0x3ff, False)
      = Some (False, ((p @ [46]) @ q @ drop (length q) r, length p + 1 + length q, a', s'))"
    using do_digits_printed [OF room, of "w AND 0x3ff" False, folded q_def]
    by (auto simp: tens_lists simp del: do_digits.simps)
  have 4: "put_char ((p @ [46]) @ q @ drop (length q) r) (length p + 1 + length q) 0 = Some ((p @ [46]) @ q @ 0 # drop (Suc (length q)) r)"
    using assms lp lq by (simp add: put_char_def r_def list_update_append upd_conv_take_nth_drop)
  show ?thesis
    using 1 2 3 4 assms lp lq
    by (simp add: dnet_ntop_def ld16_def Let_def dnet_text_def r_def add.commute [of "length q"] del: do_digits.simps flip: p_def q_def)
qed

lemma dnet_pton_text:
  assumes "2 \<le> length buf"
  shows "dnet_pton (dnet_text w) buf = Some (1, le16 w @ drop 2 buf)"
proof -
  define p where "p = printed (tens 2) (drop_bit 10 w) False"
  define q where "q = printed (tens 4) (w AND 0x3ff) False"
  have p: "dnet_num (p @ 46 # q) = (length p, drop_bit 10 w)" "p \<noteq> []"
    using parse_fresh [of 2 "drop_bit 10 w" 0 "46 # q"] area_bound [of w] by (simp_all add: dnet_num_def p_def)
  have q: "dnet_num q = (length q, w AND 0x3ff)" "q \<noteq> []"
    using parse_fresh [of 4 "w AND 0x3ff" 0 "[]"] node_bound [of w] by (simp_all add: dnet_num_def q_def)
  have "\<not> 63 < drop_bit 10 w" "\<not> 1023 < w AND 0x3ff"
    using area_bound [of w] node_bound [of w] by (simp_all add: word_less_nat_alt)
  then show ?thesis
    using p q assms
    by (simp add: dnet_pton_def dnet_text_def Let_def char_at_def nth_append area_node st16_def blit_def flip: p_def q_def) (simp add: numeral_2_eq_2)
qed

lemma text_of_dnet: "takeWhile (\<lambda>c. c \<noteq> 0) (dnet_text w @ 0 # r) = dnet_text w"
proof -
  have "0 \<notin> set (dnet_text w)"
    using area_bound [of w] node_bound [of w] by (auto simp: dnet_text_def printed_nonzero less_trans [where y = 64] dest: printed_nonzero [rotated 2])
  then show ?thesis by (simp add: takeWhile_append)
qed

text \<open>
  Every DECnet address survives printing and reading: \<^verbatim>\<open>dnet_ntop\<close> writes a string with its
  NUL byte into any buffer of at least eight bytes, and \<^verbatim>\<open>dnet_pton\<close> accepts that string and stores
  the address the printing started from.
\<close>

lemma dnet_text_round_trip:
  assumes "8 \<le> len" "len \<le> length str" "2 \<le> length buf"
  shows "\<exists>text. dnet_ntop (le16 w @ rest) 2 str len = Some (True, text)
    \<and> dnet_pton (takeWhile (\<lambda>c. c \<noteq> 0) text) buf = Some (1, le16 w @ drop 2 buf)"
  using assms by (simp add: dnet_ntop_text text_of_dnet dnet_pton_text)

section \<open>Comparing addresses\<close>

lemma byte_order_zero: "length xs = length ys \<Longrightarrow> byte_order xs ys = 0 \<longleftrightarrow> xs = ys"
  by (induction xs ys rule: list_induct2) auto

lemma memcmp_zero: "n \<le> length a \<Longrightarrow> n \<le> length b \<Longrightarrow> \<exists>d. memcmp a b n = Some d \<and> (d = 0 \<longleftrightarrow> take n a = take n b)"
  by (simp add: memcmp_def take_exact_def byte_order_zero)

text \<open>
  Claim C33.  What \<^verbatim>\<open>nl_addr_cmp_prefix\<close> takes for equal: with the shorter prefix length \<open>len\<close>, the whole
  bytes of the prefix and, of the byte behind them, the \<open>len mod 8\<close> low bits.  A prefix is made of the
  high bits of an address.
\<close>

theorem cmp_prefix_equal:
  assumes "a_family a = a_family b" "len = min (sint (a_prefixlen a)) (sint (a_prefixlen b))" "0 \<le> len"
    "nat (len div 8) < length (a_addr a)" "nat (len div 8) < length (a_addr b)"
  shows "nl_addr_cmp_prefix a b = Some 0 \<longleftrightarrow>
    take (nat (len div 8)) (a_addr a) = take (nat (len div 8)) (a_addr b)
    \<and> (\<forall>i < nat (len mod 8). bit (a_addr a ! nat (len div 8)) i = bit (a_addr b ! nat (len div 8)) i)"
proof -
  let ?n = "nat (len div 8)" and ?m = "nat (len mod 8)"
  obtain d where d: "memcmp (a_addr a) (a_addr b) ?n = Some d" "d = 0 \<longleftrightarrow> take ?n (a_addr a) = take ?n (a_addr b)"
    using memcmp_zero [of ?n "a_addr a" "a_addr b"] assms by auto
  have m: "?m < 8" by simp
  have "uint (x AND mask ?m) - uint (y AND mask ?m) = 0 \<longleftrightarrow> (\<forall>i < ?m. bit x i = bit y i)" for x y :: u8
  proof -
    have "uint (x AND mask ?m) - uint (y AND mask ?m) = 0 \<longleftrightarrow> x AND mask ?m = y AND mask ?m"
      by (simp add: word_uint_eq_iff)
    also have "\<dots> \<longleftrightarrow> (\<forall>i < ?m. bit x i = bit y i)"
      using m by (auto simp: bit_eq_iff bit_simps) (metis less_trans)+
    finally show ?thesis .
  qed
  then show ?thesis
    using d assms by (simp add: nl_addr_cmp_prefix_def Let_def ld8_def not_less)
qed
section \<open>Well-formed addresses\<close>

text \<open>The length in use is within what is allocated, and there is a reference.\<close>

definition wf_addr :: "nl_addr \<Rightarrow> bool" where
  "wf_addr a \<longleftrightarrow> a_len a \<le> a_maxsize a \<and> length (a_addr a) = unat (a_maxsize a) \<and> 0 < sint (a_refcnt a)"

definition addr_bytes :: "nl_addr \<Rightarrow> bytes" where
  "addr_bytes a = take (unat (a_len a)) (a_addr a)"

lemma length_addr_bytes: "wf_addr a \<Longrightarrow> length (addr_bytes a) = unat (a_len a)"
  by (simp add: wf_addr_def addr_bytes_def word_le_nat_alt min_def)

lemma nl_addr_build_bytes:
  assumes "unat sz < 2 ^ 32" "unat sz \<le> length buf"
  shows "\<exists>a. nl_addr_build True family buf sz = Some (Some a) \<and> wf_addr a \<and> addr_bytes a = take (unat sz) buf
    \<and> a_family a = family \<and> a_refcnt a = 1 \<and> unat (a_len a) = unat sz \<and> a_maxsize a = a_len a"
proof -
  have u: "unat (ucast sz :: u32) = unat sz" using assms(1) by (simp add: unsigned_ucast_eq take_bit_nat_eq_self)
  have "\<not> 20 + sz < sz" using assms(1) by (simp add: word_less_nat_alt unat_word_ariths not_less)
  moreover have "take_exact (unat sz) buf = Some (take (unat sz) buf)"
    "blit 0 (take (unat sz) buf) (replicate (unat sz) 0) = Some (take (unat sz) buf)"
    using assms(2) by (simp_all add: take_exact_def blit_def)
  ultimately show ?thesis
    using u assms(2) by (simp add: nl_addr_build_def nl_addr_alloc_def wf_addr_def addr_bytes_def Let_def min_def)
qed

lemma nl_addr_cmp_bytes:
  assumes "wf_addr a" "wf_addr b"
  shows "\<exists>d. nl_addr_cmp a b = Some d \<and> (d = 0 \<longleftrightarrow> a_family a = a_family b \<and> addr_bytes a = addr_bytes b)"
proof (cases "a_family a = a_family b \<and> a_len a = a_len b")
  case True
  then show ?thesis
    using memcmp_zero [of "unat (a_len a)" "a_addr a" "a_addr b"] assms
    by (auto simp: nl_addr_cmp_def wf_addr_def addr_bytes_def word_le_nat_alt)
next
  case False
  then have "\<not> (a_family a = a_family b \<and> addr_bytes a = addr_bytes b)"
    using length_addr_bytes [OF assms(1)] length_addr_bytes [OF assms(2)] by (metis word_unat_eq_iff)
  then show ?thesis using False by (auto simp: nl_addr_cmp_def signed_eq_0_iff)
qed

lemma nl_addr_clone_equal:
  assumes "wf_addr a"
  shows "\<exists>c. nl_addr_clone True a = Some (Some c) \<and> wf_addr c \<and> a_refcnt c = 1
    \<and> a_prefixlen c = a_prefixlen a \<and> nl_addr_cmp a c = Some 0"
proof -
  have u: "unat (ucast (a_len a) :: u64) = unat (a_len a)" "unat (a_len a) < 2 ^ 32"
    using unsigned_less [of "a_len a"] by (simp_all add: unsigned_ucast_eq take_bit_nat_eq_self)
  obtain c where c: "nl_addr_build True (a_family a) (a_addr a) (ucast (a_len a)) = Some (Some c)" "wf_addr c"
    "addr_bytes c = addr_bytes a" "a_family c = a_family a" "a_refcnt c = 1"
    using nl_addr_build_bytes [of "ucast (a_len a)" "a_addr a" "a_family a"] assms u
    by (auto simp: wf_addr_def word_le_nat_alt addr_bytes_def)
  let ?c = "c\<lparr>a_prefixlen := a_prefixlen a\<rparr>"
  have wf: "wf_addr ?c" using c(2) by (simp add: wf_addr_def)
  have "addr_bytes ?c = addr_bytes a" using c(3) by (simp add: addr_bytes_def)
  then have "nl_addr_cmp a ?c = Some 0" using nl_addr_cmp_bytes [OF assms wf] c(4) by auto
  then show ?thesis using c wf by (simp add: nl_addr_clone_def)
qed

lemma nl_addr_set_binary_addr_wf:
  assumes "wf_addr a" "unat len \<le> length buf"
  shows "\<exists>r a'. nl_addr_set_binary_addr a buf len = Some (r, a') \<and> wf_addr a'
    \<and> (if len \<le> ucast (a_maxsize a) then r = 0 \<and> addr_bytes a' = take (unat len) buf else r = - NLE_RANGE \<and> a' = a)"
proof (cases "len \<le> ucast (a_maxsize a)")
  case True
  then have le: "unat len \<le> unat (a_maxsize a)"
    by (simp add: word_le_nat_alt unsigned_ucast_eq take_bit_nat_eq_self)
  moreover have "unat (a_maxsize a) < 2 ^ 32" using unsigned_less [of "a_maxsize a"] by simp
  ultimately have "unat (ucast len :: u32) = unat len"
    by (simp add: unsigned_ucast_eq take_bit_nat_eq_self)
  moreover have "\<not> ucast (a_maxsize a) < len" using True by (simp add: not_less)
  ultimately show ?thesis
    using True le assms
    by (simp add: nl_addr_set_binary_addr_def take_exact_def blit_def wf_addr_def addr_bytes_def word_le_nat_alt min_def)
next
  case False
  then show ?thesis using assms by (auto simp: nl_addr_set_binary_addr_def not_le)
qed

lemma nl_addr_put_get: "a_refcnt a \<noteq> 0 \<Longrightarrow> nl_addr_put (Some (nl_addr_get a)) = Some (Some a)"
  by (simp add: nl_addr_put_def nl_addr_get_def)

lemma nla_put_prefix: "unat n \<le> length d \<Longrightarrow> nla_put msg t n d = nla_put msg t n (take (unat n) d)"
proof -
  assume "unat n \<le> length d"
  then have "take_exact (unat n) (take (unat n) d) = take_exact (unat n) d"
    by (simp add: take_exact_def)
  then show "nla_put msg t n d = nla_put msg t n (take (unat n) d)" by (simp only: nla_put_def)
qed

text \<open>
  An address survives its attribute: if the message has room, \<^verbatim>\<open>nla_put_addr\<close> succeeds, and
  \<^verbatim>\<open>nl_addr_alloc_attr\<close> on the new attribute builds a well-formed address that \<^verbatim>\<open>nl_addr_cmp\<close> says is
  equal to the first one.
\<close>

theorem addr_attr_round_trip:
  assumes "wf_msg n" "wf_addr a" "unat (a_len a) < 65532" "(ucast t :: u16) < 0x4000"
    and "N = unat (of_le32 (nm_nlh n))" "N + (align4 N + 4 + align4 (unat (a_len a))) \<le> unat (nm_size n)"
  shows "\<exists>n' c. nla_put_addr n t a = Some (0, n') \<and> wf_msg n'
    \<and> nl_addr_alloc_attr True (nm_nlh n') (align4 N) (a_family a) = Some (Some c)
    \<and> wf_addr c \<and> a_refcnt c = 1 \<and> nl_addr_cmp a c = Some 0"
proof -
  let ?d = "addr_bytes a"
  note len = length_addr_bytes [OF assms(2)]
  obtain w z where w: "4 + length w = align4 N"
    and put: "nla_put n t (a_len a) ?d = Some (0, n\<lparr>nm_nlh :=
       msg_at (8 + length w + align4 (length ?d)) (w @ enc_attr (ucast t, ?d) @ z)\<rparr>)"
    and wf: "wf_msg (n\<lparr>nm_nlh := msg_at (8 + length w + align4 (length ?d)) (w @ enc_attr (ucast t, ?d) @ z)\<rparr>)"
    by (rule nla_put_room [OF assms(1,3) len assms(5), of t]) (use assms(6) in \<open>simp_all add: attr_room_def\<close>)
  define b where "b = msg_at (8 + length w + align4 (length ?d)) (w @ enc_attr (ucast t, ?d) @ z)"
  define p where "p = le32 (word_of_nat (8 + length w + align4 (length ?d))) @ w"
  have b: "b = p @ enc_attr (ucast t, ?d) @ z" and p: "length p = align4 N"
    using w by (simp_all add: b_def p_def msg_at_def)
  have ok: "attr_ok (ucast t, ?d)" using assms(3,4) len by (simp add: attr_ok_def)
  note fld = enc_attr_fields [OF ok, of p z, folded b, unfolded p]
  have sz: "unat (scast (word_of_nat (length ?d) :: i32) :: u64) = length ?d"
    using assms(3) len by (simp add: unat_scast_u64)
  have rd: "length ?d \<le> length (drop (nla_data (align4 N)) b)" "take (length ?d) (drop (nla_data (align4 N)) b) = ?d"
    using fld(4) by (auto simp: ld_bytes_def take_exact_def split: if_splits)
  obtain c where c: "nl_addr_alloc_attr True b (align4 N) (a_family a) = Some (Some c)" "wf_addr c" "addr_bytes c = ?d"
    "a_family c = a_family a" "a_refcnt c = 1"
    using nl_addr_build_bytes [of "scast (word_of_nat (length ?d) :: i32)" "drop (nla_data (align4 N)) b" "a_family a"]
      assms(3) len rd sz fld(3) by (auto simp: nl_addr_alloc_attr_def)
  moreover have "nl_addr_cmp a c = Some 0"
    using nl_addr_cmp_bytes [OF assms(2) c(2)] c by auto
  moreover have "nla_put_addr n t a = Some (0, n\<lparr>nm_nlh := b\<rparr>)"
    using put assms(2) nla_put_prefix [of "a_len a" "a_addr a" n t]
    by (simp add: nla_put_addr_def nl_addr_get_len_def nl_addr_get_binary_addr_def wf_addr_def word_le_nat_alt addr_bytes_def b_def)
  ultimately show ?thesis using wf by (auto simp: b_def)
qed

end
