(* ===== verification/NL_Examples.thy ===== *)
theory NL_Examples
  imports NF10_Examples NF10_DriverCtrl NL_Resync NL_Addr
begin

text \<open>
  Sample messages, a sample process in front of the sample card, and the instances of the
  properties of the netlink library and of the programs at these inputs.
\<close>

section \<open>Messages\<close>

text \<open>A stream of one attribute of type 3 with four bytes of payload, and an empty message.\<close>

definition sample_stream_bytes :: bytes where
  "sample_stream_bytes = [8, 0, 3, 0, 1, 2, 3, 4]"

definition sample_msg :: nl_msg where
  "sample_msg = fresh_msg 64"

lemma sample_msg_wf: "wf_msg sample_msg"
  by (rule wf_msgI [of _ 16 "replicate 60 0"]) (simp_all add: sample_msg_def fresh_msg_def)

lemma sample_msg_len: "unat (of_le32 (nm_nlh sample_msg)) = 16"
  by (simp add: sample_msg_def fresh_msg_def msg_at_def)

theorem nla_parse_safe_witness:
  "\<exists>err tb. nla_parse sample_stream_bytes 8 0 8 None = Some (err, tb)
     \<and> (\<forall>nla \<in> ran tb. attr_in sample_stream_bytes 0 8 nla)"
  using nla_parse_safe [of 0 8 sample_stream_bytes None 8] by (simp add: sample_stream_bytes_def)

theorem building_keeps_wf_witness:
  "\<exists>r n'. nla_put sample_msg 3 4 [1, 2, 3, 4] = Some (r, n') \<and> wf_msg n' \<and> nm_size n' = 64"
  using building_keeps_wf [OF sample_msg_wf, of 4 "[1, 2, 3, 4]" 4 3]
  by (simp add: sample_msg_def fresh_msg_def)

text \<open>Two networks 10.0/9 and 10.128/9, which differ in the first bit behind the first byte.\<close>

definition sample_addr :: "u8 \<Rightarrow> nl_addr" where
  "sample_addr x = \<lparr>a_family = AF_INET, a_maxsize = 4, a_len = 4, a_prefixlen = 9, a_refcnt = 1, a_addr = [10, x, 0, 0]\<rparr>"

lemma sample_addr_ok: "wf_addr (sample_addr x)" "a_len (sample_addr x) = 4" "a_family (sample_addr x) = AF_INET"
  by (simp_all add: wf_addr_def sample_addr_def)

theorem addr_attr_round_trip_witness:
  "\<exists>n' c. nla_put_addr sample_msg 3 (sample_addr 128) = Some (0, n') \<and>
     nl_addr_alloc_attr True (nm_nlh n') 16 AF_INET = Some (Some c) \<and> nl_addr_cmp (sample_addr 128) c = Some 0"
proof -
  have "unat (nm_size sample_msg) = 64" by (simp add: sample_msg_def fresh_msg_def)
  moreover have "align4 16 = 16" "align4 4 = 4" by (simp_all add: align4_def)
  ultimately show ?thesis
    using addr_attr_round_trip [OF sample_msg_wf sample_addr_ok(1) _ _ sample_msg_len [symmetric], of 128 3]
    unfolding sample_addr_ok by auto
qed

theorem cmp_prefix_equal_witness:
  "nl_addr_cmp_prefix (sample_addr 0) (sample_addr 128) = Some 0
     \<and> nl_addr_cmp_prefix (sample_addr 0) (sample_addr 1) \<noteq> Some 0"
  using cmp_prefix_equal [of "sample_addr 0" "sample_addr 128" 9] cmp_prefix_equal [of "sample_addr 0" "sample_addr 1" 9]
  by (simp add: sample_addr_def)

text \<open>A payload of 32 bytes would end at byte 52 of the 64 and is refused.\<close>

theorem nla_put_accepts_iff_witness:
  "fst (the (nla_put sample_msg 3 28 (replicate 28 7))) = 0
     \<and> fst (the (nla_put sample_msg 3 32 (replicate 32 7))) = - NLE_NOMEM"
  using nla_put_accepts_iff [OF sample_msg_wf _ _ sample_msg_len [symmetric], of 28 "replicate 28 7" 3]
    nla_put_accepts_iff [OF sample_msg_wf _ _ sample_msg_len [symmetric], of 32 "replicate 32 7" 3]
  by (simp add: align4_def sample_msg_def fresh_msg_def)

theorem genl_build_parse_witness:
  "\<exists>msg tb. do { (_, msg) \<leftarrow> genlmsg_put (fresh_msg 4096) 0 0 20 0 0 4 1; nla_puts msg [(3, le32 8), (4, le32 9)] }
       = Some (0, msg)
     \<and> genlmsg_parse (nm_nlh msg) 0 0 Map.empty (word_of_nat 6) None = Some (0, tb)
     \<and> (\<forall>t :: u16. t \<noteq> 0 \<and> unat t \<le> 6 \<longrightarrow> Option.bind (tb (unat t)) (attr_payload (nm_nlh msg))
           = map_of (rev [(3, le32 8), (4, le32 9)]) t)"
  by (rule genl_build_parse) (simp_all add: attr_ok_def align4_def)

section \<open>Ports\<close>

definition no_ports :: "u32 list" where
  "no_ports = replicate 32 0"

lemma first_port: "generate_local_port 4242 no_ports = (4242, no_ports[0 := 1])"
  by code_simp

text \<open>The first socket of process 4242 gets the number of the process, and port number 0 is then taken.\<close>

theorem port_allocation_witness:
  "\<exists>nr < 1024. unat (drop_bit 22 (4242 :: u32)) = nr
     \<and> \<not> bit (no_ports ! (nr div 32)) (nr mod 32) \<and> bit (no_ports[0 := 1] ! (nr div 32)) (nr mod 32)
     \<and> (\<forall>k < 1024. k \<noteq> nr \<longrightarrow> bit (no_ports[0 := 1] ! (k div 32)) (k mod 32) = bit (no_ports ! (k div 32)) (k mod 32))
     \<and> release_local_port 4242 (no_ports[0 := 1]) = no_ports"
  by (rule port_allocation [OF _ first_port]) (simp_all add: no_ports_def UINT_MAX_def)

section \<open>Objects and families\<close>

text \<open>A heap with one object, which a user and the cache at address 2 refer to.\<close>

definition sample_family :: genl_family where
  "sample_family = \<lparr>gf_id = 20, gf_name = [78, 70], gf_version = 1, gf_hdrsize = 0, gf_maxattr = 6, gf_ops = [(1, 10), (2, 10)],
     gf_mc_grps = [(5, [103])], gf_borrowed = False\<rparr>"

definition sample_cache :: nl_cache where
  "sample_cache = \<lparr>c_items = [5], c_nitems = 1\<rparr>"

definition shared_object :: "genl_family nl_object" where
  "shared_object = (cached 2 sample_family)\<lparr>ce_refcnt := 2\<rparr>"

definition shared_heap :: fheap where
  "shared_heap = \<lparr>h_objs = [5 \<mapsto> shared_object], h_caches = [2 \<mapsto> sample_cache], h_next = 8, h_grants = (\<lambda>_. True)\<rparr>"

definition one_user :: "addr \<Rightarrow> nat" where
  "one_user a = (if a = 5 then 1 else 0)"

lemma shared_heap_refs: "refs_ok genl_family_ops shared_heap one_user"
  by (auto simp: refs_ok_def obj_ok_def cache_ok_def in_cache_def shared_heap_def shared_object_def sample_cache_def
      cached_def family_obj_def genl_family_ops_def family_free_data_def sample_family_def one_user_def split: if_splits)

theorem object_references_witness:
  "(\<exists>h'. nl_object_get 5 shared_heap = Some h' \<and> refs_ok genl_family_ops h' (one_user(5 := 2)))
     \<and> (\<exists>h'. nl_object_put genl_family_ops (Some 5) shared_heap = Some h' \<and> refs_ok genl_family_ops h' (one_user(5 := 0)))
     \<and> (\<exists>h'. nl_cache_free genl_family_ops (Some 2) shared_heap = Some h'
           \<and> refs_ok genl_family_ops h' one_user \<and> h_caches h' 2 = None)"
proof -
  have bound: "\<forall>a. one_user a + 1 < 2 ^ 30" by (simp add: one_user_def)
  have rc: "one_user 5 + 1 = 2" "one_user 5 - 1 = 0" "0 < one_user 5" by (simp_all add: one_user_def)
  have "h_objs shared_heap 5 = Some shared_object" "h_caches shared_heap 2 = Some sample_cache"
    by (simp_all add: shared_heap_def)
  from object_references [OF shared_heap_refs bound this] show ?thesis
    unfolding rc(1,2) using rc(3) by blast
qed

theorem family_parse_roundtrip_witness:
  "\<exists>h' ob. nl_cache_parse genl_ctrl_ops (family_msg 2 1 0 2 sample_family) 0 (pickup_cb genl_family_ops 2) shared_heap = Some (0, h')
     \<and> h_caches h' 2 = Some \<lparr>c_items = [5, 8], c_nitems = 2\<rparr> \<and> h_objs h' 8 = Some ob \<and> ce_data ob = sample_family"
proof -
  have "family_ok sample_family" by (simp add: family_ok_def sample_family_def name_ok_def GENL_NAMSIZ_def)
  then show ?thesis
    using family_parse_roundtrip [of sample_family shared_heap 2 sample_cache 2 1 0 2]
    by (auto simp: shared_heap_def sample_cache_def)
qed

text \<open>
  The same heap with a record of changes, and a new description of the family at address 9, with
  a higher version.
\<close>

definition new_object :: "genl_family nl_object" where
  "new_object = family_obj (sample_family\<lparr>gf_version := 2\<rparr>)"

definition update_heap :: "(genl_family, (i32 \<times> u32 \<times> genl_family) list) nl_heap_scheme" where
  "update_heap = \<lparr>h_objs = [5 \<mapsto> shared_object, 9 \<mapsto> new_object], h_caches = [2 \<mapsto> sample_cache], h_next = 12,
     h_grants = (\<lambda>_. True), \<dots> = []\<rparr>"

definition two_users :: "addr \<Rightarrow> nat" where
  "two_users a = (if a = 5 \<or> a = 9 then 1 else 0)"

lemma sample_masks: "family_mask sample_family = 0x3F" "family_mask (sample_family\<lparr>gf_version := 2\<rparr>) = 0x3F"
  by (simp_all add: family_mask_def family_attr_defs sample_family_def)

lemma update_heap_refs: "refs_ok genl_family_ops update_heap two_users"
  by (auto simp: refs_ok_def obj_ok_def cache_ok_def in_cache_def update_heap_def shared_object_def sample_cache_def new_object_def
      cached_def family_obj_def genl_family_ops_def family_free_data_def sample_family_def two_users_def split: if_splits)

lemma update_heap_keyed: "keyed family_good gf_id 2 update_heap"
  by (simp add: keyed_def update_heap_def sample_cache_def shared_object_def cached_def family_obj_def family_good_def sample_masks
      family_attr_defs)

lemma update_heap_spec:
  "include_spec NL_ACT_NEW 20 (0x3F, sample_family\<lparr>gf_version := 2\<rparr>) family_differ (view gf_id 2 update_heap)
     = ([20 \<mapsto> (0x3F, sample_family\<lparr>gf_version := 2\<rparr>)], Some (NL_ACT_CHANGE, 0x3F, sample_family\<lparr>gf_version := 2\<rparr>))"
proof -
  have "gf_id sample_family = 20" by (simp add: sample_family_def)
  then have "view gf_id 2 update_heap = [20 \<mapsto> (0x3F, sample_family)]"
    by (simp add: view_def update_heap_def sample_cache_def entry_def shared_object_def cached_def family_obj_def sample_masks)
  moreover have "family_differ (0x3F, sample_family) (0x3F, sample_family\<lparr>gf_version := 2\<rparr>)"
    by (simp add: family_differ_def family_header_def known_def family_attr_defs sample_family_def)
  ultimately show ?thesis by (simp add: include_spec_def)
qed

text \<open>The new description replaces the old one, and the change is reported once.\<close>

theorem family_include_refines_map_witness:
  "\<exists>h'. cache_include genl_family_ops 2 9 NL_ACT_NEW (Some (recorder (\<lambda>log r. log @ [r]))) update_heap = Some (0, h')
     \<and> refs_ok genl_family_ops h' two_users \<and> view gf_id 2 h' = [20 \<mapsto> (0x3F, sample_family\<lparr>gf_version := 2\<rparr>)]
     \<and> nl_heap.more h' = [(NL_ACT_CHANGE, 0x3F, sample_family\<lparr>gf_version := 2\<rparr>)]"
proof -
  have o9: "h_objs update_heap 9 = Some new_object" "\<not> ce_linked new_object" "family_good (ce_mask new_object) (ce_data new_object)"
      "ce_mask new_object = 0x3F" "ce_data new_object = sample_family\<lparr>gf_version := 2\<rparr>"
    by (simp_all add: update_heap_def new_object_def family_obj_def family_good_def sample_masks family_attr_defs)
  have more: "nl_heap.more update_heap = []" by (simp add: update_heap_def)
  have id: "gf_id (ce_data new_object) = 20" by (simp add: o9(5)) (simp add: sample_family_def)
  have bound: "\<forall>x. two_users x + 2 < 2 ^ 30" by (simp add: two_users_def)
  have spec: "include_spec NL_ACT_NEW (gf_id (ce_data new_object)) (ce_mask new_object, ce_data new_object) family_differ
      (view gf_id 2 update_heap) = ([20 \<mapsto> (0x3F, sample_family\<lparr>gf_version := 2\<rparr>)], Some (NL_ACT_CHANGE, 0x3F, sample_family\<lparr>gf_version := 2\<rparr>))"
    using update_heap_spec by (simp only: id o9(4)) (simp only: o9(5))
  from family_include_refines_map [OF update_heap_refs bound update_heap_keyed o9(1-3) spec, of "\<lambda>log r. log @ [r]"]
  show ?thesis unfolding more by auto
qed

text \<open>A registry with one structure, and a second one with another name, not yet registered.\<close>

definition sample_ops :: "bytes \<Rightarrow> fheap nl_cache_ops" where
  "sample_ops nm = genl_ctrl_ops\<lparr>co_name := Some nm\<rparr>"

definition sample_registry :: "fheap registry" where
  "sample_registry = \<lparr>ops_at = [3 \<mapsto> sample_ops [97], 4 \<mapsto> sample_ops [98]], genl_at = Map.empty, cache_ops = Some 3, genl_ops_list = []\<rparr>"

theorem registry_refines_map_witness:
  "nl_cache_ops_lookup [97] sample_registry = Some (Some 3)
     \<and> (\<exists>r'. nl_cache_mngt_register 4 sample_registry = Some (0, r') \<and> named r' [4, 3] = [[97] \<mapsto> 3, [98] \<mapsto> 4])
     \<and> nl_cache_mngt_unregister 4 sample_registry = Some (- NLE_NOCACHE, sample_registry)"
proof -
  have ok: "registry_ok sample_registry [3]"
    by (simp add: registry_ok_def sample_registry_def names_of_def sample_ops_def genl_ctrl_ops_def)
  have o4: "ops_at sample_registry 4 = Some (sample_ops [98])" "co_name (sample_ops [98]) = Some [98]" "co_obj_ops (sample_ops [98]) \<noteq> None"
    by (simp_all add: sample_registry_def sample_ops_def genl_ctrl_ops_def)
  have "named sample_registry [3] = [[97] \<mapsto> 3]"
    by (simp add: named_def names_of_def sample_registry_def sample_ops_def)
  then show ?thesis using registry_refines_map [OF ok o4, of "[97]"] by auto
qed

section \<open>Programs\<close>

text \<open>A process with no sockets yet, on the sample card; the card answers register reads as a paged register file.\<close>

definition sample_sim :: sim where
  "sample_sim = \<lparr>sim_drv = sample_card, sim_inbox = [], sim_names = (\<lambda>fd. null_addr)\<rparr>"

definition sample_proc :: "sim proc" where
  "sample_proc = \<lparr>kern = sample_sim, used_ports_map = no_ports\<rparr>"

lemma sample_port_free: "port_free 4242 (used_ports_map sample_proc)"
  using first_port by (simp add: port_free_def sample_proc_def UINT_MAX_def) (simp add: no_ports_def)

lemma sample_proc_start:
  "sim_inbox (kern sample_proc) = []" "sim_drv (kern sample_proc) = sample_card"
  by (simp_all add: sample_proc_def sample_sim_def)

definition empty_heap :: fheap where
  "empty_heap = \<lparr>h_objs = Map.empty, h_caches = Map.empty, h_next = 0, h_grants = (\<lambda>_. True)\<rparr>"

lemma empty_heap_free: "heap_free empty_heap"
  by (simp add: heap_free_def empty_heap_def)

definition sample_mem :: umem where
  "sample_mem = \<lparr>lib = empty_heap, mem = (\<lambda>a. 0)\<rparr>"

lemma sample_mem_heap: "heap_free (lib sample_mem)"
  by (simp add: sample_mem_def empty_heap_free)

definition sample_sock :: "umem nl_sock" where
  "sample_sock = \<lparr>s_local = kernel_addr\<lparr>nl_pid := 4242\<rparr>, s_peer = kernel_addr, s_fd = 3, s_proto = NETLINK_GENERIC,
     s_seq_next = 1000, s_seq_expect = 1000, s_flags = NL_SOCK_BUFSIZE_SET, s_cb = silent_cb\<rparr>"

lemma sample_link: "ctrl_link (sim_sys netlink_up (\<lambda>t a. 0)) 4096 (\<lambda>k. True) sim_drv sim_inbox sim_families"
  using nf10_ctrl.ctrl_link_axioms [of netlink_up "\<lambda>t a. 0"] by (simp add: sim_env_def)

lemma sample_sock_answers:
  "s_cb sample_sock = silent_cb" "s_flags sample_sock = NL_SOCK_BUFSIZE_SET" "s_seq_next sample_sock = s_seq_expect sample_sock"
  by (simp_all add: sample_sock_def)

text \<open>Against the sample kernel, the name of the driver's family resolves to 20 and an unknown name to an error.\<close>

theorem resolve_family_name_witness:
  "(\<exists>u' p'. genl_ctrl_resolve (sim_sys netlink_up (\<lambda>t a. 0)) 4096 sample_sock NF10_GENL_FAMILY_NAME sample_mem sample_proc
       = Some (20, sample_sock\<lparr>s_seq_next := 1001, s_seq_expect := 1001\<rparr>, u', p') \<and> sim_inbox (kern p') = [])
   \<and> (\<exists>u' p'. genl_ctrl_resolve (sim_sys netlink_up (\<lambda>t a. 0)) 4096 sample_sock [120] sample_mem sample_proc
       = Some (- NLE_OBJ_NOTFOUND, sample_sock\<lparr>s_seq_next := 1001, s_seq_expect := 1001\<rparr>, u', p'))"
proof -
  have sq: "s_seq_next sample_sock = s_seq_expect sample_sock" "s_seq_next sample_sock = 1000"
    by (simp_all add: sample_sock_def)
  have "find (\<lambda>f. NF10_GENL_FAMILY_NAME = gf_name f) (concat sim_families) = Some (hd (sim_families ! 1))"
    "find (\<lambda>f. [120] = gf_name f) (concat sim_families) = None" "gf_id (hd (sim_families ! 1)) = 20"
    by (simp_all add: sim_families_def NF10_GENL_FAMILY_NAME_def)
  then show ?thesis
    using resolve_family_name [OF sample_link TrueI sample_proc_start(1) sample_sock_answers sample_mem_heap, of NF10_GENL_FAMILY_NAME]
      resolve_family_name [OF sample_link TrueI sample_proc_start(1) sample_sock_answers sample_mem_heap, of "[120]"] sq
    by auto
qed

text \<open>A program with the shared heap: after a resynchronisation its cache is empty.\<close>

theorem resync_empties_families_witness:
  "\<exists>sk' u' p' ca'. nl_cache_resync genl_family_ops genl_ctrl_ops
       (Some (ctrl_request_update (sim_sys netlink_up (\<lambda>t a. 0)) 4096)) (sim_sys netlink_up (\<lambda>t a. 0)) sample_sock 2 (Some (recorder (\<lambda>x r. ())))
       (sample_mem\<lparr>lib := shared_heap\<rparr>) sample_proc = Some (0, sk', u', p')
     \<and> h_caches (lib u') 2 = Some ca' \<and> c_items ca' = [] \<and> refs_ok genl_family_ops (lib u') one_user"
proof -
  let ?u = "sample_mem\<lparr>lib := shared_heap\<rparr>"
  have h: "heap_free (lib ?u)" "refs_ok genl_family_ops (lib ?u) one_user" "\<forall>x. one_user x + 2 < 2 ^ 30"
      "h_caches (lib ?u) 2 = Some sample_cache"
    using shared_heap_refs by (simp_all add: heap_free_def one_user_def) (simp_all add: shared_heap_def)
  show ?thesis
    using resync_empties_families [OF sample_link TrueI sample_proc_start(1) sample_sock_answers h, of "\<lambda>x r. ()"] by blast
qed

text \<open>Two structures, the first one with a name that the kernel does not know: the code is 0.\<close>

definition sample_genl :: "bytes \<Rightarrow> fheap genl_ops" where
  "sample_genl nm = \<lparr>o_family = 0, o_id = 0, o_name = Some nm, o_cache_ops = None, o_cmds = []\<rparr>"

definition genl_registry :: "fheap registry" where
  "genl_registry = \<lparr>ops_at = Map.empty, genl_at = [6 \<mapsto> sample_genl NF10_GENL_FAMILY_NAME, 7 \<mapsto> sample_genl [120]],
     cache_ops = None, genl_ops_list = [7, 6]\<rparr>"

theorem mngt_resolve_sets_numbers_witness:
  "\<exists>r' sk' u' p'. genl_mngt_resolve (sim_sys netlink_up (\<lambda>t a. 0)) 4096 sample_sock genl_registry sample_mem sample_proc
       = Some (0, r', sk', u', p')
     \<and> map_option o_id (genl_at r' 6) = Some 20 \<and> map_option o_id (genl_at r' 7) = Some 0 \<and> h_objs (lib u') = Map.empty"
proof -
  have reg: "\<forall>g \<in> set (genl_ops_list genl_registry). \<exists>genl name. genl_at genl_registry g = Some genl \<and> o_name genl = Some name"
    by (simp add: genl_registry_def sample_genl_def)
  have g: "genl_ops_list genl_registry = [7, 6]" "genl_at genl_registry 6 = Some (sample_genl NF10_GENL_FAMILY_NAME)"
      "genl_at genl_registry 7 = Some (sample_genl [120])" by (simp_all add: genl_registry_def)
  have "resolve_code (concat sim_families) (sample_genl NF10_GENL_FAMILY_NAME) = 0"
      "o_id (resolved (concat sim_families) (sample_genl NF10_GENL_FAMILY_NAME)) = 20"
      "o_id (resolved (concat sim_families) (sample_genl [120])) = 0"
    by (simp_all add: resolve_code_def resolved_def sample_genl_def sim_families_def NF10_GENL_FAMILY_NAME_def)
  moreover have "h_objs (lib sample_mem) = Map.empty" by (simp add: sample_mem_def empty_heap_def)
  ultimately show ?thesis
    using mngt_resolve_sets_numbers [OF sample_link TrueI sample_proc_start(1) sample_sock_answers sample_mem_heap reg] g by auto
qed

theorem reg_lib_write_then_read_witness:
  "\<exists>u1 p1 u2 p2. nf10_reg_wr (sim_env netlink_up (paged_card (page_reg sample_card))) Map.empty 0x44000008 0xCAFE sample_mem sample_proc
       = Some (0, u1, p1)
     \<and> nf10_reg_rd (sim_env netlink_up (paged_card (page_reg sample_card))) Map.empty 0x44000008 64 u1 p1 = Some (0, u2, p2)
     \<and> mem u2 64 = 0xCAFE \<and> h_objs (lib u2) = Map.empty"
  using reg_lib_write_then_read [OF nf10_link.genl_link_axioms [of netlink_up "paged_card (page_reg sample_card)"]
      TrueI sample_proc_start(1) sample_port_free sample_mem_heap refl genl_up_netlink_up, of "0x44000008" "0x44000008" Map.empty
      "0xCAFE" 64] sample_regs
  by (auto simp: sample_proc_start(2) reg_offset_def OCCP_WORKER_CONFIG_SIZE_def sample_mem_def empty_heap_def)

theorem reg_lib_write_error_lost_witness:
  "\<exists>u1 p1 u2 p2. nf10_reg_wr (sim_env netlink_up (\<lambda>t a. 0)) Map.empty 2 0xCAFE sample_mem sample_proc = Some (0, u1, p1)
     \<and> bus (sim_drv (kern p1)) = bus sample_card
     \<and> nf10_reg_rd (sim_env netlink_up (\<lambda>t a. 0)) Map.empty 2 64 sample_mem sample_proc = Some (- 1, u2, p2)
     \<and> bus (sim_drv (kern p2)) = bus sample_card \<and> mem u2 64 = 0"
  using reg_lib_write_error_lost [OF nf10_link.genl_link_axioms [of netlink_up "\<lambda>t a. 0"]
      TrueI sample_proc_start(1) sample_port_free sample_mem_heap genl_up_netlink_up, of 2 Map.empty "0xCAFE" 64]
  by (auto simp: sample_proc_start(2) reg_offset_def OCCP_WORKER_CONFIG_SIZE_def sample_mem_def)

theorem rd_main_overflows_witness:
  "\<exists>ls u' p'. rd_main (sim_env netlink_up (\<lambda>t a. 0)) Map.empty 64 sample_mem sample_proc = Some (ls, Overflowed, u', p')
     \<and> map fst ls = map (\<lambda>j. word_of_nat (4 * j)) [1..<2 ^ 29] \<and> list_all (\<lambda>l. \<exists>v. snd l = Inr v) ls"
  by (rule rd_main_overflows [OF nf10_link.genl_link_axioms genl_up_netlink_up TrueI sample_proc_start(1) sample_port_free sample_mem_heap])
    (simp only: sample_proc_start(2) sample_regs)

definition sample_ctl :: ctl where
  "sample_ctl = \<lparr>lib = empty_heap, program_name = [], stdout = [], retval = 0\<rparr>"

theorem echo_command_round_trip_witness:
  "\<exists>u' p'. main (sim_env netlink_up (\<lambda>t a. 0)) Map.empty [str ''driver_ctrl'', str ''echo'', str ''hello''] sample_ctl sample_proc
       = Some (u', p') \<and> stdout u' = [O_reply (str ''hello'')]
     \<and> sim_inbox (kern p') = [] \<and> used_ports_map p' = used_ports_map sample_proc"
  using echo_command_round_trip [OF nf10_link.genl_link_axioms [of netlink_up "\<lambda>t a. 0"] TrueI sample_proc_start(1) sample_port_free,
      of sample_ctl "str ''hello''" Map.empty "str ''driver_ctrl''"] genl_up_netlink_up empty_heap_free
  by (auto simp: str_def sample_ctl_def)

text \<open>One argument too many: the command \<^verbatim>\<open>dma_rx\<close> takes none.\<close>

theorem main_runs_command_witness:
  "\<exists>u' l ls. main (sim_env netlink_up (\<lambda>t a. 0)) Map.empty [str ''driver_ctrl'', str ''dma_rx'', str ''1''] sample_ctl sample_proc
     = Some (u', sample_proc) \<and> complaint l \<and> stdout u' = l # ls"
  using main_runs_command [of "[str ''driver_ctrl'', str ''dma_rx'', str ''1'']" "sim_env netlink_up (\<lambda>t a. 0)"
      Map.empty sample_ctl sample_proc]
  by (simp add: all_commands_def fits_def str_def sample_ctl_def)

end
