(* ===== verification/RT_Neigh.thy ===== *)
theory RT_Neigh
  imports NL_Update NL_Addr
begin

text \<open>
  Neighbours of the routing protocol (\<^verbatim>\<open>lib/route/neigh.c\<close>, \<^verbatim>\<open>nl_rtgen_request\<close> of \<^verbatim>\<open>lib/route/rtnl.c\<close>):
  the objects, their comparison, the parser of the kernel's messages, requests to the kernel, and
  their cache.  Addresses are values inside of the object; memory for them is taken from the heap.
\<close>

section \<open>Neighbour objects\<close>

definition NEIGH_ATTR_FLAGS :: u32 where "NEIGH_ATTR_FLAGS = 0x01"
definition NEIGH_ATTR_STATE :: u32 where "NEIGH_ATTR_STATE = 0x02"
definition NEIGH_ATTR_LLADDR :: u32 where "NEIGH_ATTR_LLADDR = 0x04"
definition NEIGH_ATTR_DST :: u32 where "NEIGH_ATTR_DST = 0x08"
definition NEIGH_ATTR_CACHEINFO :: u32 where "NEIGH_ATTR_CACHEINFO = 0x10"
definition NEIGH_ATTR_IFINDEX :: u32 where "NEIGH_ATTR_IFINDEX = 0x20"
definition NEIGH_ATTR_FAMILY :: u32 where "NEIGH_ATTR_FAMILY = 0x40"
definition NEIGH_ATTR_TYPE :: u32 where "NEIGH_ATTR_TYPE = 0x80"
definition NEIGH_ATTR_PROBES :: u32 where "NEIGH_ATTR_PROBES = 0x100"

lemmas neigh_attr_defs = NEIGH_ATTR_FLAGS_def NEIGH_ATTR_STATE_def NEIGH_ATTR_LLADDR_def NEIGH_ATTR_DST_def
  NEIGH_ATTR_CACHEINFO_def NEIGH_ATTR_IFINDEX_def NEIGH_ATTR_FAMILY_def NEIGH_ATTR_TYPE_def NEIGH_ATTR_PROBES_def

record rtnl_ncacheinfo =
  nci_confirmed :: u32
  nci_used :: u32
  nci_updated :: u32
  nci_refcnt :: u32

text \<open>\<open>n_borrowed\<close> marks a copy whose \<^verbatim>\<open>n_dst\<close> still is that of the original.\<close>

record rtnl_neigh =
  n_family :: u32
  n_ifindex :: u32
  n_state :: u16
  n_flags :: u8
  n_type :: u8
  n_lladdr :: "nl_addr option"
  n_dst :: "nl_addr option"
  n_probes :: u32
  n_cacheinfo :: rtnl_ncacheinfo
  n_state_mask :: u32
  n_flag_mask :: u32
  n_borrowed :: bool

definition neigh_init_data :: rtnl_neigh where
  "neigh_init_data = \<lparr>n_family = 0, n_ifindex = 0, n_state = 0, n_flags = 0, n_type = 0, n_lladdr = None, n_dst = None,
     n_probes = 0, n_cacheinfo = \<lparr>nci_confirmed = 0, nci_used = 0, nci_updated = 0, nci_refcnt = 0\<rparr>,
     n_state_mask = 0, n_flag_mask = 0, n_borrowed = False\<rparr>"

definition neigh_free_data :: "rtnl_neigh \<Rightarrow> bool" where
  "neigh_free_data neigh \<longleftrightarrow>
     \<not> n_borrowed neigh \<and> nl_addr_put (n_lladdr neigh) \<noteq> None \<and> nl_addr_put (n_dst neigh) \<noteq> None"

text \<open>
  \<open>nl_object_clone\<close> has copied the pointers before \<open>neigh_clone\<close> runs.  If the first address cannot be
  copied, the second pointer still is that of the original, whose reference the clean-up gives back.
\<close>

definition neigh_clone :: "rtnl_neigh \<Rightarrow> (addr \<Rightarrow> bool) \<Rightarrow> addr \<Rightarrow> (i32 \<times> rtnl_neigh \<times> addr) option" where
  "neigh_clone src grants nxt = do {
     (ok1, lladdr, nxt) \<leftarrow> (case n_lladdr src of
         None \<Rightarrow> Some (True, None, nxt)
       | Some a \<Rightarrow> do { c \<leftarrow> nl_addr_clone (grants nxt) a; Some (c \<noteq> None, c, nxt + 1) });
     if \<not> ok1 then Some (- NLE_NOMEM, src\<lparr>n_lladdr := None, n_borrowed := n_dst src \<noteq> None\<rparr>, nxt)
     else do {
       (ok2, dst, nxt) \<leftarrow> (case n_dst src of
           None \<Rightarrow> Some (True, None, nxt)
         | Some a \<Rightarrow> do { c \<leftarrow> nl_addr_clone (grants nxt) a; Some (c \<noteq> None, c, nxt + 1) });
       Some (if ok2 then 0 else - NLE_NOMEM, src\<lparr>n_lladdr := lladdr, n_dst := dst, n_borrowed := False\<rparr>, nxt)
     }
   }"

text \<open>The addresses are compared only if both objects have them; a missing one is then a fault.\<close>

definition addr_differ :: "nl_addr option \<Rightarrow> nl_addr option \<Rightarrow> bool option" where
  "addr_differ x y = do { a \<leftarrow> x; b \<leftarrow> y; d \<leftarrow> nl_addr_cmp a b; Some (d \<noteq> 0) }"

definition ADDR_DIFF :: "u32 \<Rightarrow> u32 \<Rightarrow> u32 \<Rightarrow> u32 \<Rightarrow> nl_addr option \<Rightarrow> nl_addr option \<Rightarrow> u32 option" where
  "ADDR_DIFF attrs attr mask_a mask_b x y =
    (if attrs AND attr \<noteq> 0 \<and> (mask_a XOR mask_b) AND attr = 0 \<and> (mask_a AND mask_b) AND attr \<noteq> 0
     then do { d \<leftarrow> addr_differ x y; Some (ATTR_DIFF attrs attr mask_a mask_b d) }
     else Some (ATTR_DIFF attrs attr mask_a mask_b False))"

definition neigh_compare ::
  "rtnl_neigh nl_object \<Rightarrow> rtnl_neigh nl_object \<Rightarrow> u32 \<Rightarrow> i32 \<Rightarrow> u32 option" where
  "neigh_compare oa ob attrs flags =
    (let a = ce_data oa; b = ce_data ob;
         diff = (\<lambda>attr differ. ATTR_DIFF attrs attr (ce_mask oa) (ce_mask ob) differ) in do {
       lladdr \<leftarrow> ADDR_DIFF attrs NEIGH_ATTR_LLADDR (ce_mask oa) (ce_mask ob) (n_lladdr a) (n_lladdr b);
       dst \<leftarrow> ADDR_DIFF attrs NEIGH_ATTR_DST (ce_mask oa) (ce_mask ob) (n_dst a) (n_dst b);
       Some (diff NEIGH_ATTR_IFINDEX (n_ifindex a \<noteq> n_ifindex b)
         OR diff NEIGH_ATTR_FAMILY (n_family a \<noteq> n_family b)
         OR diff NEIGH_ATTR_TYPE (n_type a \<noteq> n_type b)
         OR lladdr OR dst
         OR (if flags AND 1 \<noteq> 0
             then diff NEIGH_ATTR_STATE (ucast (n_state a XOR n_state b) AND n_state_mask b \<noteq> 0)
               OR diff NEIGH_ATTR_FLAGS (ucast (n_flags a XOR n_flags b) AND n_flag_mask b \<noteq> 0)
             else diff NEIGH_ATTR_STATE (n_state a \<noteq> n_state b)
               OR diff NEIGH_ATTR_FLAGS (n_flags a \<noteq> n_flags b)))
     })"

definition neigh_obj_ops :: "rtnl_neigh nl_object_ops" where
  "neigh_obj_ops = \<lparr>oo_init = neigh_init_data, oo_clone = neigh_clone, oo_free_data = neigh_free_data,
     oo_compare = Some neigh_compare, oo_id_attrs = NEIGH_ATTR_IFINDEX OR NEIGH_ATTR_DST OR NEIGH_ATTR_FAMILY\<rparr>"

type_synonym nheap = "rtnl_neigh nl_heap"

definition rtnl_neigh_alloc :: "nheap \<Rightarrow> addr option \<times> nheap" where
  "rtnl_neigh_alloc h = nl_object_alloc neigh_obj_ops h"

definition rtnl_neigh_put :: "addr option \<Rightarrow> nheap \<Rightarrow> nheap option" where
  "rtnl_neigh_put neigh h = nl_object_put neigh_obj_ops neigh h"

section \<open>Attributes\<close>

text \<open>Changing the data of a neighbour and marking attributes as present.\<close>

definition neigh_set :: "u32 \<Rightarrow> (rtnl_neigh \<Rightarrow> rtnl_neigh) \<Rightarrow> addr \<Rightarrow> nheap \<Rightarrow> nheap option" where
  "neigh_set attr f a h = do {
     ob \<leftarrow> h_objs h a;
     Some (set_obj a (ob\<lparr>ce_mask := ce_mask ob OR attr, ce_data := f (ce_data ob)\<rparr>) h)
   }"

definition rtnl_neigh_set_state :: "addr \<Rightarrow> i32 \<Rightarrow> nheap \<Rightarrow> nheap option" where
  "rtnl_neigh_set_state neigh state h = neigh_set NEIGH_ATTR_STATE
     (\<lambda>n. n\<lparr>n_state_mask := n_state_mask n OR state, n_state := n_state n OR ucast state\<rparr>) neigh h"

definition rtnl_neigh_get_state :: "addr \<Rightarrow> nheap \<Rightarrow> i32 option" where
  "rtnl_neigh_get_state neigh h = do {
     ob \<leftarrow> h_objs h neigh;
     Some (if ce_mask ob AND NEIGH_ATTR_STATE \<noteq> 0 then ucast (n_state (ce_data ob)) else - 1)
   }"

definition rtnl_neigh_unset_state :: "addr \<Rightarrow> i32 \<Rightarrow> nheap \<Rightarrow> nheap option" where
  "rtnl_neigh_unset_state neigh state h = neigh_set NEIGH_ATTR_STATE
     (\<lambda>n. n\<lparr>n_state_mask := n_state_mask n OR state, n_state := n_state n AND NOT (ucast state)\<rparr>) neigh h"

definition rtnl_neigh_set_flags :: "addr \<Rightarrow> u32 \<Rightarrow> nheap \<Rightarrow> nheap option" where
  "rtnl_neigh_set_flags neigh flags h = neigh_set NEIGH_ATTR_FLAGS
     (\<lambda>n. n\<lparr>n_flag_mask := n_flag_mask n OR flags, n_flags := n_flags n OR ucast flags\<rparr>) neigh h"

definition rtnl_neigh_get_flags :: "addr \<Rightarrow> nheap \<Rightarrow> u32 option" where
  "rtnl_neigh_get_flags neigh h = do { ob \<leftarrow> h_objs h neigh; Some (ucast (n_flags (ce_data ob))) }"

definition rtnl_neigh_unset_flags :: "addr \<Rightarrow> u32 \<Rightarrow> nheap \<Rightarrow> nheap option" where
  "rtnl_neigh_unset_flags neigh flags h = neigh_set NEIGH_ATTR_FLAGS
     (\<lambda>n. n\<lparr>n_flag_mask := n_flag_mask n OR flags, n_flags := n_flags n AND NOT (ucast flags)\<rparr>) neigh h"

definition rtnl_neigh_set_ifindex :: "addr \<Rightarrow> i32 \<Rightarrow> nheap \<Rightarrow> nheap option" where
  "rtnl_neigh_set_ifindex neigh ifindex h = neigh_set NEIGH_ATTR_IFINDEX (\<lambda>n. n\<lparr>n_ifindex := ifindex\<rparr>) neigh h"

definition rtnl_neigh_get_ifindex :: "addr \<Rightarrow> nheap \<Rightarrow> i32 option" where
  "rtnl_neigh_get_ifindex neigh h = do { ob \<leftarrow> h_objs h neigh; Some (n_ifindex (ce_data ob)) }"

text \<open>\<^verbatim>\<open>__assign_addr\<close>; the two places for addresses are given by their access functions.\<close>

definition assign_addr ::
  "(rtnl_neigh \<Rightarrow> nl_addr option) \<Rightarrow> (nl_addr option \<Rightarrow> rtnl_neigh \<Rightarrow> rtnl_neigh) \<Rightarrow> addr \<Rightarrow> nl_addr \<Rightarrow> u32 \<Rightarrow> bool \<Rightarrow> nheap
     \<Rightarrow> (i32 \<times> nl_addr \<times> nheap) option" where
  "assign_addr pos put_pos neigh new flag nocheck h = do {
     ob \<leftarrow> h_objs h neigh;
     if \<not> nocheck \<and> ce_mask ob AND NEIGH_ATTR_FAMILY \<noteq> 0 \<and> a_family new \<noteq> n_family (ce_data ob)
     then Some (- NLE_AF_MISMATCH, new, h)
     else do {
       let ob = (if \<not> nocheck \<and> ce_mask ob AND NEIGH_ATTR_FAMILY = 0
                 then ob\<lparr>ce_data := (ce_data ob)\<lparr>n_family := a_family new\<rparr>, ce_mask := ce_mask ob OR NEIGH_ATTR_FAMILY\<rparr>
                 else ob);
       _ \<leftarrow> nl_addr_put (pos (ce_data ob));
       let new = nl_addr_get new;
       Some (0, new, set_obj neigh (ob\<lparr>ce_data := put_pos (Some new) (ce_data ob), ce_mask := ce_mask ob OR flag\<rparr>) h)
     }
   }"

definition rtnl_neigh_set_lladdr :: "addr \<Rightarrow> nl_addr \<Rightarrow> nheap \<Rightarrow> (nl_addr \<times> nheap) option" where
  "rtnl_neigh_set_lladdr neigh ad h = do {
     (_, ad, h) \<leftarrow> assign_addr n_lladdr (\<lambda>x n. n\<lparr>n_lladdr := x\<rparr>) neigh ad NEIGH_ATTR_LLADDR True h;
     Some (ad, h)
   }"

definition rtnl_neigh_get_lladdr :: "addr \<Rightarrow> nheap \<Rightarrow> nl_addr option option" where
  "rtnl_neigh_get_lladdr neigh h = do {
     ob \<leftarrow> h_objs h neigh;
     Some (if ce_mask ob AND NEIGH_ATTR_LLADDR \<noteq> 0 then n_lladdr (ce_data ob) else None)
   }"

definition rtnl_neigh_set_dst :: "addr \<Rightarrow> nl_addr \<Rightarrow> nheap \<Rightarrow> (i32 \<times> nl_addr \<times> nheap) option" where
  "rtnl_neigh_set_dst neigh ad h = assign_addr n_dst (\<lambda>x n. n\<lparr>n_dst := x\<rparr>) neigh ad NEIGH_ATTR_DST False h"

definition rtnl_neigh_get_dst :: "addr \<Rightarrow> nheap \<Rightarrow> nl_addr option option" where
  "rtnl_neigh_get_dst neigh h = do {
     ob \<leftarrow> h_objs h neigh;
     Some (if ce_mask ob AND NEIGH_ATTR_DST \<noteq> 0 then n_dst (ce_data ob) else None)
   }"

definition rtnl_neigh_set_family :: "addr \<Rightarrow> i32 \<Rightarrow> nheap \<Rightarrow> nheap option" where
  "rtnl_neigh_set_family neigh family h = neigh_set NEIGH_ATTR_FAMILY (\<lambda>n. n\<lparr>n_family := family\<rparr>) neigh h"

definition rtnl_neigh_get_family :: "addr \<Rightarrow> nheap \<Rightarrow> i32 option" where
  "rtnl_neigh_get_family neigh h = do { ob \<leftarrow> h_objs h neigh; Some (n_family (ce_data ob)) }"

text \<open>Setting the type overwrites the mask instead of adding to it.\<close>

definition rtnl_neigh_set_type :: "addr \<Rightarrow> i32 \<Rightarrow> nheap \<Rightarrow> nheap option" where
  "rtnl_neigh_set_type neigh type h = do {
     ob \<leftarrow> h_objs h neigh;
     Some (set_obj neigh (ob\<lparr>ce_data := (ce_data ob)\<lparr>n_type := ucast type\<rparr>, ce_mask := NEIGH_ATTR_TYPE\<rparr>) h)
   }"

definition rtnl_neigh_get_type :: "addr \<Rightarrow> nheap \<Rightarrow> i32 option" where
  "rtnl_neigh_get_type neigh h = do {
     ob \<leftarrow> h_objs h neigh;
     Some (if ce_mask ob AND NEIGH_ATTR_TYPE \<noteq> 0 then ucast (n_type (ce_data ob)) else - 1)
   }"

section \<open>Messages of the kernel\<close>

definition NETLINK_ROUTE :: i32 where "NETLINK_ROUTE = 0"
definition RTM_NEWNEIGH :: i32 where "RTM_NEWNEIGH = 28"
definition RTM_DELNEIGH :: i32 where "RTM_DELNEIGH = 29"
definition RTM_GETNEIGH :: i32 where "RTM_GETNEIGH = 30"
definition RTNLGRP_NEIGH :: i32 where "RTNLGRP_NEIGH = 3"

definition NDA_DST :: nat where "NDA_DST = 1"
definition NDA_LLADDR :: nat where "NDA_LLADDR = 2"
definition NDA_CACHEINFO :: nat where "NDA_CACHEINFO = 3"
definition NDA_PROBES :: nat where "NDA_PROBES = 4"
definition NDA_MAX :: nat where "NDA_MAX = 4"

lemmas nda_defs = NDA_DST_def NDA_LLADDR_def NDA_CACHEINFO_def NDA_PROBES_def NDA_MAX_def

definition NUD_PERMANENT :: u16 where "NUD_PERMANENT = 0x80"

text \<open>The bytes of \<^verbatim>\<open>struct ndmsg\<close>.\<close>

definition ndmsg :: "u8 \<Rightarrow> u32 \<Rightarrow> u16 \<Rightarrow> u8 \<Rightarrow> u8 \<Rightarrow> bytes" where
  "ndmsg family ifindex state flags type = [family, 0, 0, 0] @ le32 ifindex @ le16 state @ [flags, type]"

definition neigh_policy :: "nat \<Rightarrow> nla_policy" where
  "neigh_policy t =
    (if t = NDA_CACHEINFO then no_policy\<lparr>pol_minlen := 16\<rparr>
     else if t = NDA_PROBES then of_type NLA_U32
     else no_policy)"

text \<open>An address from an attribute, if it is there; memory for it is taken from the heap.\<close>

definition parse_addr ::
  "bytes \<Rightarrow> nat option \<Rightarrow> i32 \<Rightarrow> (nl_addr \<Rightarrow> nheap \<Rightarrow> nheap option) \<Rightarrow> nheap \<Rightarrow> (i32 \<times> nheap) option" where
  "parse_addr b nla family store h =
    (case nla of
       None \<Rightarrow> Some (0, h)
     | Some nla \<Rightarrow>
        (case h_alloc h of (got, h) \<Rightarrow> do {
           r \<leftarrow> nl_addr_alloc_attr (got \<noteq> None) b nla family;
           (case r of
              None \<Rightarrow> Some (- NLE_NOMEM, h)
            | Some ad \<Rightarrow> do { h \<leftarrow> store ad h; Some (0, h) })
         }))"

definition parse_cacheinfo :: "bytes \<Rightarrow> nat option \<Rightarrow> addr \<Rightarrow> nheap \<Rightarrow> nheap option" where
  "parse_cacheinfo b nla neigh h =
    (case nla of
       None \<Rightarrow> Some h
     | Some nla \<Rightarrow> do {
         confirmed \<leftarrow> ld32 b (nla_data nla);
         used \<leftarrow> ld32 b (nla_data nla + 4);
         updated \<leftarrow> ld32 b (nla_data nla + 8);
         refcnt \<leftarrow> ld32 b (nla_data nla + 12);
         neigh_set NEIGH_ATTR_CACHEINFO (\<lambda>n. n\<lparr>n_cacheinfo :=
           \<lparr>nci_confirmed = confirmed, nci_used = used, nci_updated = updated, nci_refcnt = refcnt\<rparr>\<rparr>) neigh h
       })"

definition parse_probes :: "bytes \<Rightarrow> nat option \<Rightarrow> addr \<Rightarrow> nheap \<Rightarrow> nheap option" where
  "parse_probes b nla neigh h =
    (case nla of
       None \<Rightarrow> Some h
     | Some nla \<Rightarrow> do {
         probes \<leftarrow> nla_get_u32 b nla;
         neigh_set NEIGH_ATTR_PROBES (\<lambda>n. n\<lparr>n_probes := probes\<rparr>) neigh h
       })"

text \<open>\<open>fill_neigh\<close> is the body of \<open>neigh_msg_parser\<close> between the allocation and the label \<^verbatim>\<open>errout\<close>.\<close>

definition fill_neigh :: "bytes \<Rightarrow> nat \<Rightarrow> nheap pp_cb \<Rightarrow> addr \<Rightarrow> nheap \<Rightarrow> (i32 \<times> nheap) option" where
  "fill_neigh b n pp_cb neigh h = do {
     msgtype \<leftarrow> ld16 b (n + NLH_TYPE);
     ob \<leftarrow> h_objs h neigh;
     let h = set_obj neigh (ob\<lparr>ce_msgtype := ucast msgtype\<rparr>) h;
     let nm = nlmsg_data n;
     (err, tb) \<leftarrow> nlmsg_parse b n 12 (word_of_nat NDA_MAX) (Some neigh_policy) Map.empty;
     if is_neg err then Some (err, h)
     else do {
       family \<leftarrow> ld8 b nm;
       ifindex \<leftarrow> ld32 b (nm + 4);
       state \<leftarrow> ld16 b (nm + 8);
       flags \<leftarrow> ld8 b (nm + 10);
       type \<leftarrow> ld8 b (nm + 11);
       h \<leftarrow> neigh_set (NEIGH_ATTR_FAMILY OR NEIGH_ATTR_IFINDEX OR NEIGH_ATTR_STATE OR NEIGH_ATTR_FLAGS OR NEIGH_ATTR_TYPE)
             (\<lambda>n. n\<lparr>n_family := ucast family, n_ifindex := ifindex, n_state := state, n_flags := flags, n_type := type\<rparr>) neigh h;
       (err, h) \<leftarrow> parse_addr b (tb NDA_LLADDR) AF_UNSPEC
             (\<lambda>ad. neigh_set NEIGH_ATTR_LLADDR
                (\<lambda>n. n\<lparr>n_lladdr := Some (nl_addr_set_family ad (nl_addr_guess_family ad))\<rparr>) neigh) h;
       if is_neg err then Some (err, h)
       else do {
         (err, h) \<leftarrow> parse_addr b (tb NDA_DST) (ucast family)
               (\<lambda>ad. neigh_set NEIGH_ATTR_DST (\<lambda>n. n\<lparr>n_dst := Some ad\<rparr>) neigh) h;
         if is_neg err then Some (err, h)
         else do {
           h \<leftarrow> parse_cacheinfo b (tb NDA_CACHEINFO) neigh h;
           h \<leftarrow> parse_probes b (tb NDA_PROBES) neigh h;
           pp_cb neigh h
         }
       }
     }
   }"

definition neigh_msg_parser :: "nheap msg_parser" where
  "neigh_msg_parser b n pp_cb h =
    (case rtnl_neigh_alloc h of
       (None, h) \<Rightarrow> do { h \<leftarrow> rtnl_neigh_put None h; Some (- NLE_NOMEM, h) }
     | (Some neigh, h) \<Rightarrow> do {
         (err, h) \<leftarrow> fill_neigh b n pp_cb neigh h;
         h \<leftarrow> rtnl_neigh_put (Some neigh) h;
         Some (err, h)
       })"

definition neigh_groups :: "(i32 \<times> i32) list" where
  "neigh_groups = [(AF_UNSPEC, RTNLGRP_NEIGH), (AF_UNSPEC, 0)]"

text \<open>\<open>1\<close> is the address of \<^verbatim>\<open>neigh_obj_ops\<close>.\<close>

definition rtnl_neigh_ops :: "nheap nl_cache_ops" where
  "rtnl_neigh_ops = \<lparr>co_name = Some (map of_char ''route/neigh''), co_hdrsize = 12, co_protocol = NETLINK_ROUTE,
     co_groups = Some neigh_groups, co_msg_parser = Some neigh_msg_parser, co_obj_ops = Some 1, co_next = None,
     co_major_cache = None, co_genl = None,
     co_msgtypes = [\<lparr>mt_id = RTM_NEWNEIGH, mt_act = NL_ACT_NEW, mt_name = Some (map of_char ''new'')\<rparr>,
       \<lparr>mt_id = RTM_DELNEIGH, mt_act = NL_ACT_DEL, mt_name = Some (map of_char ''del'')\<rparr>,
       \<lparr>mt_id = RTM_GETNEIGH, mt_act = NL_ACT_GET, mt_name = Some (map of_char ''get'')\<rparr>, END_OF_MSGTYPES_LIST]\<rparr>"

definition neigh_init :: "addr \<Rightarrow> nheap registry \<Rightarrow> nheap registry option" where
  "neigh_init a r = map_option snd (nl_cache_mngt_register a (set_ops a rtnl_neigh_ops r))"

definition neigh_exit :: "addr \<Rightarrow> nheap registry \<Rightarrow> nheap registry option" where
  "neigh_exit a r = map_option snd (nl_cache_mngt_unregister a r)"

section \<open>Requests\<close>

definition nl_rtgen_request ::
  "'k sys \<Rightarrow> u64 \<Rightarrow> 'u nl_sock \<Rightarrow> i32 \<Rightarrow> i32 \<Rightarrow> i32 \<Rightarrow> 'u \<Rightarrow> 'k proc \<Rightarrow> (i32 \<times> 'u nl_sock \<times> 'u \<times> 'k proc) option" where
  "nl_rtgen_request sys default_msg_size sk type family flags u p =
     nl_send_simple sys default_msg_size sk type flags (Some [ucast family]) u p"

definition neigh_request_update :: "'k sys \<Rightarrow> u64 \<Rightarrow> ('u, 'k) request_update" where
  "neigh_request_update sys default_msg_size sk u p =
     nl_rtgen_request sys default_msg_size sk RTM_GETNEIGH AF_UNSPEC 0x300 u p"

definition rtnl_neigh_alloc_cache ::
  "'k sys \<Rightarrow> u64 \<Rightarrow> (rtnl_neigh, 'u) libstate_scheme nl_sock \<Rightarrow> (rtnl_neigh, 'u) libstate_scheme \<Rightarrow> 'k proc
     \<Rightarrow> (i32 \<times> addr option \<times> (rtnl_neigh, 'u) libstate_scheme nl_sock \<times> (rtnl_neigh, 'u) libstate_scheme \<times> 'k proc) option" where
  "rtnl_neigh_alloc_cache sys default_msg_size sk u p =
     nl_cache_alloc_and_fill neigh_obj_ops rtnl_neigh_ops (Some (neigh_request_update sys default_msg_size)) sys sk u p"

text \<open>The search reads the destination of every neighbour on the interface; a neighbour without one is a fault.\<close>

primrec find_neigh :: "u32 \<Rightarrow> nl_addr \<Rightarrow> nheap \<Rightarrow> addr list \<Rightarrow> (addr option \<times> nheap) option" where
  "find_neigh ifindex dst h [] = Some (None, h)"
| "find_neigh ifindex dst h (a # as) = do {
     ob \<leftarrow> h_objs h a;
     m \<leftarrow> (if n_ifindex (ce_data ob) = ifindex
           then do { d \<leftarrow> n_dst (ce_data ob); c \<leftarrow> nl_addr_cmp d dst; Some (c = 0) } else Some False);
     if m then do { h \<leftarrow> nl_object_get a h; Some (Some a, h) } else find_neigh ifindex dst h as
   }"

definition rtnl_neigh_get :: "addr \<Rightarrow> i32 \<Rightarrow> nl_addr \<Rightarrow> nheap \<Rightarrow> (addr option \<times> nheap) option" where
  "rtnl_neigh_get cache ifindex dst h = do {
     ca \<leftarrow> h_caches h cache;
     find_neigh ifindex dst h (c_items ca)
   }"

text \<open>The result is the code and, if that is 0, the message.\<close>

definition build_neigh_msg ::
  "bool \<Rightarrow> bool \<Rightarrow> u64 \<Rightarrow> rtnl_neigh nl_object \<Rightarrow> i32 \<Rightarrow> i32 \<Rightarrow> (i32 \<times> nl_msg option) option" where
  "build_neigh_msg ok1 ok2 default_msg_size tmpl cmd flags =
    (if ce_mask tmpl AND NEIGH_ATTR_DST = 0 then Some (- NLE_MISSING_ATTR, None)
     else do {
       dst \<leftarrow> n_dst (ce_data tmpl);
       let nhdr = ndmsg (ucast (nl_addr_get_family dst)) (n_ifindex (ce_data tmpl))
                    (if ce_mask tmpl AND NEIGH_ATTR_STATE \<noteq> 0 then n_state (ce_data tmpl) else NUD_PERMANENT) 0 0;
       msg \<leftarrow> nlmsg_alloc_simple ok1 ok2 default_msg_size cmd flags;
       (case msg of
          None \<Rightarrow> Some (- NLE_NOMEM, None)
        | Some msg \<Rightarrow> do {
            (err, msg) \<leftarrow> nlmsg_append msg nhdr 12 4;
            (err, msg) \<leftarrow> (if is_neg err then Some (err, msg) else nla_put_addr msg (word_of_nat NDA_DST) dst);
            (err, msg) \<leftarrow> (if is_neg err then Some (err, msg)
                           else if ce_mask tmpl AND NEIGH_ATTR_LLADDR \<noteq> 0
                           then do { lladdr \<leftarrow> n_lladdr (ce_data tmpl); nla_put_addr msg (word_of_nat NDA_LLADDR) lladdr }
                           else Some (0, msg));
            if is_neg err then do { _ \<leftarrow> nlmsg_free (Some msg); Some (- NLE_MSGSIZE, None) }
            else Some (0, Some msg)
          })
     })"

definition rtnl_neigh_build_add_request ::
  "bool \<Rightarrow> bool \<Rightarrow> u64 \<Rightarrow> rtnl_neigh nl_object \<Rightarrow> i32 \<Rightarrow> (i32 \<times> nl_msg option) option" where
  "rtnl_neigh_build_add_request ok1 ok2 default_msg_size tmpl flags =
     build_neigh_msg ok1 ok2 default_msg_size tmpl RTM_NEWNEIGH flags"

definition rtnl_neigh_build_delete_request ::
  "bool \<Rightarrow> bool \<Rightarrow> u64 \<Rightarrow> rtnl_neigh nl_object \<Rightarrow> i32 \<Rightarrow> (i32 \<times> nl_msg option) option" where
  "rtnl_neigh_build_delete_request ok1 ok2 default_msg_size neigh flags =
     build_neigh_msg ok1 ok2 default_msg_size neigh RTM_DELNEIGH flags"

definition wait_for_ack :: "'k sys \<Rightarrow> 'u nl_sock \<Rightarrow> 'u \<Rightarrow> 'k proc \<Rightarrow> (i32 \<times> 'u nl_sock \<times> 'u \<times> 'k proc) option" where
  "wait_for_ack sys sk u p =
     (if s_flags sk AND NL_NO_AUTO_ACK \<noteq> 0 then Some (0, sk, u, p) else nl_wait_for_ack sys sk u p)"

text \<open>
  What \<open>rtnl_neigh_add\<close> and \<open>rtnl_neigh_delete\<close> have in common.  A missing attribute is noticed before memory
  is allocated.
\<close>

definition send_built ::
  "'k sys \<Rightarrow> (bool \<Rightarrow> bool \<Rightarrow> (i32 \<times> nl_msg option) option) \<Rightarrow> 'u nl_sock \<Rightarrow> 'u \<Rightarrow> 'k proc
     \<Rightarrow> (i32 \<times> 'u nl_sock \<times> 'u \<times> 'k proc) option" where
  "send_built sys build sk u p =
    (let ((ok1, ok2), p1) = sys_alloc2 sys p in do {
       (err, msg) \<leftarrow> build ok1 ok2;
       let p = (if err = - NLE_MISSING_ATTR then p else p1);
       if is_neg err then Some (err, sk, u, p)
       else do {
         msg \<leftarrow> msg;
         (err, sk, msg, u, p) \<leftarrow> nl_send_auto_complete sys sk msg u p;
         _ \<leftarrow> nlmsg_free (Some msg);
         if is_neg err then Some (err, sk, u, p) else wait_for_ack sys sk u p
       }
     })"

definition rtnl_neigh_add ::
  "'k sys \<Rightarrow> u64 \<Rightarrow> 'u nl_sock \<Rightarrow> rtnl_neigh nl_object \<Rightarrow> i32 \<Rightarrow> 'u \<Rightarrow> 'k proc \<Rightarrow> (i32 \<times> 'u nl_sock \<times> 'u \<times> 'k proc) option" where
  "rtnl_neigh_add sys default_msg_size sk tmpl flags u p =
     send_built sys (\<lambda>ok1 ok2. rtnl_neigh_build_add_request ok1 ok2 default_msg_size tmpl flags) sk u p"

definition rtnl_neigh_delete ::
  "'k sys \<Rightarrow> u64 \<Rightarrow> 'u nl_sock \<Rightarrow> rtnl_neigh nl_object \<Rightarrow> i32 \<Rightarrow> 'u \<Rightarrow> 'k proc \<Rightarrow> (i32 \<times> 'u nl_sock \<times> 'u \<times> 'k proc) option" where
  "rtnl_neigh_delete sys default_msg_size sk neigh flags u p =
     send_built sys (\<lambda>ok1 ok2. rtnl_neigh_build_delete_request ok1 ok2 default_msg_size neigh flags) sk u p"

section \<open>Identity of neighbours\<close>

text \<open>The attributes that identify a neighbour.\<close>

definition NEIGH_ID :: u32 where "NEIGH_ID = NEIGH_ATTR_IFINDEX OR NEIGH_ATTR_DST OR NEIGH_ATTR_FAMILY"

text \<open>
  A neighbour in a cache has the attributes that identify it, and the addresses its mask claims; its
  identity is the interface, the family and the destination.
\<close>

definition neigh_good :: "u32 \<Rightarrow> rtnl_neigh \<Rightarrow> bool" where
  "neigh_good msk n \<longleftrightarrow> msk AND NEIGH_ID = NEIGH_ID \<and> (\<exists>d. n_dst n = Some d \<and> wf_addr d)
     \<and> (msk AND NEIGH_ATTR_LLADDR \<noteq> 0 \<longrightarrow> (\<exists>l. n_lladdr n = Some l \<and> wf_addr l))"

definition neigh_key :: "rtnl_neigh \<Rightarrow> u32 \<times> u32 \<times> i32 \<times> bytes" where
  "neigh_key n = (let d = the (n_dst n) in (n_ifindex n, n_family n, a_family d, addr_bytes d))"

text \<open>
  A neighbour is changed if it says something else about the interface, the family, the type, one of the addresses, the state or the
  flags.  The statistics and the probes do not count.
\<close>

definition addr_value :: "nl_addr option \<Rightarrow> (i32 \<times> bytes) option" where
  "addr_value x = map_option (\<lambda>a. (a_family a, addr_bytes a)) x"

definition neigh_header ::
  "u32 \<times> rtnl_neigh \<Rightarrow> u32 option \<times> u32 option \<times> u8 option \<times> u16 option \<times> u8 option
     \<times> (i32 \<times> bytes) option option \<times> (i32 \<times> bytes) option option" where
  "neigh_header x = (case x of (msk, n) \<Rightarrow>
     (known msk NEIGH_ATTR_IFINDEX (n_ifindex n), known msk NEIGH_ATTR_FAMILY (n_family n), known msk NEIGH_ATTR_TYPE (n_type n),
      known msk NEIGH_ATTR_STATE (n_state n), known msk NEIGH_ATTR_FLAGS (n_flags n),
      known msk NEIGH_ATTR_LLADDR (addr_value (n_lladdr n)), known msk NEIGH_ATTR_DST (addr_value (n_dst n))))"

definition neigh_differ :: "u32 \<times> rtnl_neigh \<Rightarrow> u32 \<times> rtnl_neigh \<Rightarrow> bool" where
  "neigh_differ x y \<longleftrightarrow> neigh_header x \<noteq> neigh_header y"

lemma addr_differ_bytes:
  assumes "x = Some a" "wf_addr a" "y = Some b" "wf_addr b"
  shows "addr_differ x y = Some (\<not> (a_family a = a_family b \<and> addr_bytes a = addr_bytes b))"
  using nl_addr_cmp_bytes [OF assms(2,4)] assms(1,3) by (auto simp: addr_differ_def)

lemma ADDR_DIFF_ok:
  assumes "(ma AND mb) AND attr \<noteq> 0 \<Longrightarrow> \<exists>a b. x = Some a \<and> wf_addr a \<and> y = Some b \<and> wf_addr b"
  shows "\<exists>d. ADDR_DIFF attrs attr ma mb x y = Some d"
proof (cases "(ma AND mb) AND attr = 0")
  case False
  then obtain a b where "x = Some a" "wf_addr a" "y = Some b" "wf_addr b" using assms by blast
  then have "\<exists>e. addr_differ x y = Some e" by (blast intro: addr_differ_bytes)
  then obtain e where e: "addr_differ x y = Some e" ..
  show ?thesis unfolding ADDR_DIFF_def e bind.simps by (split if_split) blast
next
  case True
  show ?thesis unfolding ADDR_DIFF_def True by simp
qed

lemma both_nonzero:
  assumes "(p AND q) AND x \<noteq> (0 :: u32)"
  shows "p AND x \<noteq> 0" "q AND x \<noteq> 0"
proof -
  have "(p AND q) AND x = q AND (p AND x)" "(p AND q) AND x = p AND (q AND x)" by (simp_all only: ac_simps)
  then show "p AND x \<noteq> 0" "q AND x \<noteq> 0" using assms by auto
qed

lemma neigh_compare_ok:
  assumes "neigh_good (ce_mask oa) (ce_data oa)" "neigh_good (ce_mask ob) (ce_data ob)"
  shows "\<exists>d. neigh_compare oa ob attrs flags = Some d"
proof -
  let ?diff = "ADDR_DIFF attrs"
  obtain l where l: "?diff NEIGH_ATTR_LLADDR (ce_mask oa) (ce_mask ob) (n_lladdr (ce_data oa)) (n_lladdr (ce_data ob)) = Some l"
  proof -
    have "\<exists>a b. n_lladdr (ce_data oa) = Some a \<and> wf_addr a \<and> n_lladdr (ce_data ob) = Some b \<and> wf_addr b"
      if "(ce_mask oa AND ce_mask ob) AND NEIGH_ATTR_LLADDR \<noteq> 0"
      using both_nonzero [OF that] assms unfolding neigh_good_def by blast
    then show thesis using ADDR_DIFF_ok that by blast
  qed
  obtain d where d: "?diff NEIGH_ATTR_DST (ce_mask oa) (ce_mask ob) (n_dst (ce_data oa)) (n_dst (ce_data ob)) = Some d"
    using ADDR_DIFF_ok assms unfolding neigh_good_def by blast
  show ?thesis unfolding neigh_compare_def Let_def l d by simp
qed

lemma ADDR_DIFF_zero:
  assumes "attr = push_bit k 1" "attr \<noteq> 0"
    and wf: "(ma AND mb) AND attr \<noteq> 0 \<Longrightarrow> \<exists>a b. x = Some a \<and> wf_addr a \<and> y = Some b \<and> wf_addr b"
  shows "ADDR_DIFF (- 1) attr ma mb x y = Some 0 \<longleftrightarrow> known ma attr (addr_value x) = known mb attr (addr_value y)"
proof -
  have b: "m AND attr \<noteq> 0 \<longleftrightarrow> bit m k" for m by (simp only: assms(1) bit_iff_and_push_bit_not_eq_0)
  show ?thesis
  proof (cases "(ma AND mb) AND attr = 0")
    case True
    then have "ADDR_DIFF (- 1) attr ma mb x y = Some (ATTR_DIFF (- 1) attr ma mb False)" by (simp add: ADDR_DIFF_def)
    moreover have "ATTR_DIFF (- 1) attr ma mb False = 0 \<longleftrightarrow> known ma attr (addr_value x) = known mb attr (addr_value y)"
      by (rule ATTR_DIFF_zero [OF assms(1,2)]) (use True b in \<open>metis bit_and_iff\<close>)
    ultimately show ?thesis by simp
  next
    case False
    then obtain a c where w: "x = Some a" "wf_addr a" "y = Some c" "wf_addr c" using wf by blast
    let ?d = "\<not> (a_family a = a_family c \<and> addr_bytes a = addr_bytes c)"
    have d: "?d = (addr_value x \<noteq> addr_value y)" by (simp add: addr_value_def w)
    have "bit ma k" "bit mb k" using False by (simp_all only: b bit_and_iff)
    then have "(ma XOR mb) AND attr = 0" using b [of "ma XOR mb"] by (simp add: bit_xor_iff)
    then have "ADDR_DIFF (- 1) attr ma mb x y = Some (ATTR_DIFF (- 1) attr ma mb ?d)"
      unfolding ADDR_DIFF_def addr_differ_bytes [OF w] using False assms(2) by simp
    moreover have "ATTR_DIFF (- 1) attr ma mb ?d = 0 \<longleftrightarrow> known ma attr (addr_value x) = known mb attr (addr_value y)"
      by (rule ATTR_DIFF_zero [OF assms(1,2) d])
    ultimately show ?thesis by simp
  qed
qed

lemma neigh_attr_diff:
  "ATTR_DIFF (- 1) NEIGH_ATTR_IFINDEX ma mb (x \<noteq> y) = 0 \<longleftrightarrow> known ma NEIGH_ATTR_IFINDEX x = known mb NEIGH_ATTR_IFINDEX y"
  "ATTR_DIFF (- 1) NEIGH_ATTR_FAMILY ma mb (x \<noteq> y) = 0 \<longleftrightarrow> known ma NEIGH_ATTR_FAMILY x = known mb NEIGH_ATTR_FAMILY y"
  "ATTR_DIFF (- 1) NEIGH_ATTR_TYPE ma mb (x \<noteq> y) = 0 \<longleftrightarrow> known ma NEIGH_ATTR_TYPE x = known mb NEIGH_ATTR_TYPE y"
  "ATTR_DIFF (- 1) NEIGH_ATTR_STATE ma mb (x \<noteq> y) = 0 \<longleftrightarrow> known ma NEIGH_ATTR_STATE x = known mb NEIGH_ATTR_STATE y"
  "ATTR_DIFF (- 1) NEIGH_ATTR_FLAGS ma mb (x \<noteq> y) = 0 \<longleftrightarrow> known ma NEIGH_ATTR_FLAGS x = known mb NEIGH_ATTR_FLAGS y"
  by (rule ATTR_DIFF_zero [where k = 5] ATTR_DIFF_zero [where k = 6] ATTR_DIFF_zero [where k = 7] ATTR_DIFF_zero [where k = 1]
      ATTR_DIFF_zero [where k = 0]; simp add: neigh_attr_defs)+

lemma neigh_compare_zero:
  assumes g: "neigh_good (ce_mask oa) (ce_data oa)" "neigh_good (ce_mask ob) (ce_data ob)"
  shows "neigh_compare oa ob (- 1) 0 = Some 0 \<longleftrightarrow> \<not> neigh_differ (ce_mask oa, ce_data oa) (ce_mask ob, ce_data ob)"
proof -
  let ?ma = "ce_mask oa" and ?mb = "ce_mask ob" and ?a = "ce_data oa" and ?b = "ce_data ob"
  obtain l d where ld: "ADDR_DIFF (- 1) NEIGH_ATTR_LLADDR ?ma ?mb (n_lladdr ?a) (n_lladdr ?b) = Some l"
      "ADDR_DIFF (- 1) NEIGH_ATTR_DST ?ma ?mb (n_dst ?a) (n_dst ?b) = Some d"
    using neigh_compare_ok [OF g, of "- 1" 0] by (auto simp: neigh_compare_def Let_def bind_eq_Some_conv)
  have "ADDR_DIFF (- 1) NEIGH_ATTR_LLADDR ?ma ?mb (n_lladdr ?a) (n_lladdr ?b) = Some 0
      \<longleftrightarrow> known ?ma NEIGH_ATTR_LLADDR (addr_value (n_lladdr ?a)) = known ?mb NEIGH_ATTR_LLADDR (addr_value (n_lladdr ?b))"
    by (rule ADDR_DIFF_zero [where k = 2]) (use g both_nonzero in \<open>simp add: neigh_attr_defs, simp add: neigh_attr_defs, unfold neigh_good_def, blast\<close>)
  moreover have "ADDR_DIFF (- 1) NEIGH_ATTR_DST ?ma ?mb (n_dst ?a) (n_dst ?b) = Some 0
      \<longleftrightarrow> known ?ma NEIGH_ATTR_DST (addr_value (n_dst ?a)) = known ?mb NEIGH_ATTR_DST (addr_value (n_dst ?b))"
    by (rule ADDR_DIFF_zero [where k = 3]) (use g in \<open>simp add: neigh_attr_defs, simp add: neigh_attr_defs, unfold neigh_good_def, blast\<close>)
  moreover have plain: "((0 :: i32) AND 1 \<noteq> 0) = False" by simp
  ultimately show ?thesis
    unfolding neigh_compare_def Let_def ld bind.simps option.inject plain if_False or_eq_0_iff neigh_attr_diff
    by (auto simp: neigh_differ_def neigh_header_def neigh_attr_diff)
qed

lemma id_bits:
  assumes "m AND NEIGH_ID = NEIGH_ID"
  shows "m AND NEIGH_ATTR_IFINDEX = NEIGH_ATTR_IFINDEX" "m AND NEIGH_ATTR_DST = NEIGH_ATTR_DST" "m AND NEIGH_ATTR_FAMILY = NEIGH_ATTR_FAMILY"
proof -
  have "NEIGH_ID AND NEIGH_ATTR_IFINDEX = NEIGH_ATTR_IFINDEX" "NEIGH_ID AND NEIGH_ATTR_DST = NEIGH_ATTR_DST" "NEIGH_ID AND NEIGH_ATTR_FAMILY = NEIGH_ATTR_FAMILY"
    by (simp_all add: NEIGH_ID_def neigh_attr_defs)
  then show "m AND NEIGH_ATTR_IFINDEX = NEIGH_ATTR_IFINDEX" "m AND NEIGH_ATTR_DST = NEIGH_ATTR_DST" "m AND NEIGH_ATTR_FAMILY = NEIGH_ATTR_FAMILY"
    using assms by (metis and.assoc)+
qed

lemma both_have:
  assumes "ma AND x = x" "mb AND x = (x :: u32)"
  shows "(ma XOR mb) AND x = 0" "(ma AND mb) AND x = x"
  using assms by (simp_all only: bit.conj_xor_distrib2 and.assoc xor_self_eq)

lemma neigh_identical:
  assumes "h_objs h a = Some oa" and "h_objs h b = Some ob"
    and "neigh_good (ce_mask oa) (ce_data oa)" and "neigh_good (ce_mask ob) (ce_data ob)"
  shows "nl_object_identical neigh_obj_ops a b h = Some (neigh_key (ce_data oa) = neigh_key (ce_data ob))"
proof -
  let ?ma = "ce_mask oa" and ?mb = "ce_mask ob"
  have id: "?ma AND NEIGH_ID = NEIGH_ID" "?mb AND NEIGH_ID = NEIGH_ID" using assms(3,4) by (simp_all add: neigh_good_def)
  note m = both_have [OF id_bits(1) [OF id(1)] id_bits(1) [OF id(2)]] both_have [OF id_bits(2) [OF id(1)] id_bits(2) [OF id(2)]]
    both_have [OF id_bits(3) [OF id(1)] id_bits(3) [OF id(2)]]
  obtain da db where d: "n_dst (ce_data oa) = Some da" "wf_addr da" "n_dst (ce_data ob) = Some db" "wf_addr db"
    using assms(3,4) by (auto simp: neigh_good_def)
  have l: "ADDR_DIFF NEIGH_ID NEIGH_ATTR_LLADDR ?ma ?mb x y = Some 0" for x y
    by (simp add: ADDR_DIFF_def ATTR_DIFF_def NEIGH_ID_def neigh_attr_defs)
  have o: "ATTR_DIFF NEIGH_ID NEIGH_ATTR_TYPE ?ma ?mb x = 0" "ATTR_DIFF NEIGH_ID NEIGH_ATTR_STATE ?ma ?mb x = 0"
     "ATTR_DIFF NEIGH_ID NEIGH_ATTR_FLAGS ?ma ?mb x = 0" for x
    by (simp_all add: ATTR_DIFF_def NEIGH_ID_def neigh_attr_defs)
  have i: "ATTR_DIFF NEIGH_ID NEIGH_ATTR_IFINDEX ?ma ?mb x = (if x then NEIGH_ATTR_IFINDEX else 0)"
     "ATTR_DIFF NEIGH_ID NEIGH_ATTR_FAMILY ?ma ?mb x = (if x then NEIGH_ATTR_FAMILY else 0)"
     "ATTR_DIFF NEIGH_ID NEIGH_ATTR_DST ?ma ?mb x = (if x then NEIGH_ATTR_DST else 0)" for x
    unfolding ATTR_DIFF_def m by (simp_all add: NEIGH_ID_def neigh_attr_defs)
  have dd: "ADDR_DIFF NEIGH_ID NEIGH_ATTR_DST ?ma ?mb (n_dst (ce_data oa)) (n_dst (ce_data ob))
      = Some (if a_family da = a_family db \<and> addr_bytes da = addr_bytes db then 0 else NEIGH_ATTR_DST)"
  proof -
    have "NEIGH_ID AND NEIGH_ATTR_DST \<noteq> 0" "NEIGH_ATTR_DST \<noteq> 0" by (simp_all add: NEIGH_ID_def neigh_attr_defs)
    then show ?thesis unfolding ADDR_DIFF_def m addr_differ_bytes [OF d] by (simp add: i)
  qed
  have "neigh_compare oa ob NEIGH_ID 0 = Some 0 \<longleftrightarrow> neigh_key (ce_data oa) = neigh_key (ce_data ob)"
    unfolding neigh_compare_def Let_def l dd o i using d
    by (auto simp: neigh_key_def neigh_attr_defs)
  moreover obtain r where "neigh_compare oa ob NEIGH_ID 0 = Some r" using neigh_compare_ok [OF assms(3,4)] by blast
  moreover have "NEIGH_ID \<noteq> - 1" by (simp add: NEIGH_ID_def neigh_attr_defs)
  ultimately show ?thesis
    using assms(1,2) id by (simp add: nl_object_identical_def neigh_obj_ops_def Let_def flip: NEIGH_ID_def)
qed

interpretation ngh: object_keys neigh_obj_ops neigh_good neigh_key neigh_differ
proof unfold_locales
  fix h :: "(rtnl_neigh, 'x) nl_heap_scheme" and a b oa ob
  assume o: "h_objs h a = Some oa" "h_objs h b = Some ob" and g: "neigh_good (ce_mask oa) (ce_data oa)" "neigh_good (ce_mask ob) (ce_data ob)"
  obtain d where d: "neigh_compare oa ob (- 1) 0 = Some d" using neigh_compare_ok [OF g] by blast
  then show "\<exists>d. nl_object_diff neigh_obj_ops a b h = Some d
    \<and> (d \<noteq> 0) = neigh_differ (ce_mask oa, ce_data oa) (ce_mask ob, ce_data ob)"
    using o neigh_compare_zero [OF g] by (simp add: nl_object_diff_def neigh_obj_ops_def)
qed (rule neigh_identical)

end
