(* ===== verification/NL_Mngr.thy ===== *)
theory NL_Mngr
  imports NL_Update
begin

text \<open>
  The cache manager (\<^verbatim>\<open>lib/cache_mngr.c\<close>): it keeps caches up to date with the events of a socket.  The
  operations of the objects (\<^verbatim>\<open>co_obj_ops\<close>) and the requests (\<^verbatim>\<open>co_request_update\<close>) are functions of the
  addresses of their structures; an association keeps the address of the \<^verbatim>\<open>c_ops\<close> of its cache, and its
  callback contains the \<^verbatim>\<open>ca_change_data\<close>.  The socket of a manager is passed along.
\<close>

section \<open>Managers\<close>

definition NL_AUTO_PROVIDE :: i32 where "NL_AUTO_PROVIDE = 1"

record 'd nl_cache_assoc =
  ca_cache :: "(addr \<times> addr) option"
  ca_change :: "('d, unit) change_func option"

record 'd nl_cache_mngr =
  cm_protocol :: i32
  cm_flags :: i32
  cm_nassocs :: i32
  cm_assocs :: "'d nl_cache_assoc list option"

text \<open>Programs with managers have them, and the registry, in their state.\<close>

record 'd mngr_state = "'d libstate" +
  mngrs :: "addr \<Rightarrow> 'd nl_cache_mngr option"
  reg :: "'d nl_heap registry"

type_synonym 'd objects = "addr \<Rightarrow> 'd nl_object_ops option"

definition no_assoc :: "'d nl_cache_assoc" where
  "no_assoc = \<lparr>ca_cache = None, ca_change = None\<rparr>"

text \<open>Loops over the associations, from \<open>i\<close> on for \<open>n\<close> rounds; an access outside of the array is a fault.\<close>

definition assoc_at :: "'d nl_cache_assoc list option \<Rightarrow> nat \<Rightarrow> 'd nl_cache_assoc option" where
  "assoc_at cas i = do { xs \<leftarrow> cas; if i < length xs then Some (xs ! i) else None }"

primrec scan :: "('d nl_cache_assoc \<Rightarrow> bool option) \<Rightarrow> 'd nl_cache_assoc list option \<Rightarrow> nat \<Rightarrow> nat \<Rightarrow> nat option option" where
  "scan test cas 0 i = Some None"
| "scan test cas (Suc n) i = do {
     ca \<leftarrow> assoc_at cas i;
     m \<leftarrow> test ca;
     if m then Some (Some i) else scan test cas n (Suc i)
   }"

definition scan_all :: "('d nl_cache_assoc \<Rightarrow> bool option) \<Rightarrow> 'd nl_cache_mngr \<Rightarrow> nat option option" where
  "scan_all test m = scan test (cm_assocs m) (nat (sint (cm_nassocs m))) 0"

section \<open>Events\<close>

definition obj_ops_of :: "'d objects \<Rightarrow> 'd nl_heap registry \<Rightarrow> addr \<Rightarrow> ('d nl_heap nl_cache_ops \<times> 'd nl_object_ops) option" where
  "obj_ops_of objects r c_ops = do {
     ops \<leftarrow> ops_at r c_ops;
     a \<leftarrow> co_obj_ops ops;
     oops \<leftarrow> objects a;
     Some (ops, oops)
   }"

definition include_cb :: "'d nl_object_ops \<Rightarrow> 'd nl_heap nl_cache_ops \<Rightarrow> addr \<Rightarrow> ('d, unit) change_func option \<Rightarrow> 'd nl_heap pp_cb" where
  "include_cb oops ops cache change obj h = nl_cache_include oops (co_msgtypes ops) cache obj change h"

text \<open>The inner loop of the search is that of \<open>nl_msgtype_lookup\<close>.\<close>

definition handles :: "i32 \<Rightarrow> 'd nl_heap registry \<Rightarrow> 'd nl_cache_assoc \<Rightarrow> bool option" where
  "handles type r ca =
    (case ca_cache ca of
       None \<Rightarrow> Some False
     | Some (cache, c_ops) \<Rightarrow> do {
         ops \<leftarrow> ops_at r c_ops;
         ty \<leftarrow> nl_msgtype_lookup (co_msgtypes ops) type;
         Some (ty \<noteq> None)
       })"

definition event_input :: "'d objects \<Rightarrow> ('d, 'u) mngr_state_scheme msg_cb" where
  "event_input objects msg arg u = do {
     mngr \<leftarrow> mngrs u arg;
     let protocol = nlmsg_get_proto msg;
     type \<leftarrow> ld16 (nlmsg_hdr msg) NLH_TYPE;
     if cm_protocol mngr \<noteq> protocol then None
     else do {
       found \<leftarrow> scan_all (handles (ucast type) (reg u)) mngr;
       (case found of
          None \<Rightarrow> Some (NL_SKIP, u)
        | Some i \<Rightarrow> do {
            ca \<leftarrow> assoc_at (cm_assocs mngr) i;
            (cache, c_ops) \<leftarrow> ca_cache ca;
            (ops, oops) \<leftarrow> obj_ops_of objects (reg u) c_ops;
            (err, h) \<leftarrow> nl_cache_parse ops (nlmsg_hdr msg) 0 (include_cb oops ops cache (ca_change ca)) (lib u);
            Some (err, u\<lparr>lib := h\<rparr>)
          })
     }
   }"

section \<open>Allocating and freeing\<close>

primrec free_caches ::
  "'d objects \<Rightarrow> 'd nl_heap registry \<Rightarrow> 'd nl_cache_assoc list option \<Rightarrow> nat \<Rightarrow> nat \<Rightarrow> 'd nl_heap \<Rightarrow> 'd nl_heap option" where
  "free_caches objects r cas 0 i h = Some h"
| "free_caches objects r cas (Suc n) i h = do {
     ca \<leftarrow> assoc_at cas i;
     h \<leftarrow> (case ca_cache ca of
             None \<Rightarrow> Some h
           | Some (cache, c_ops) \<Rightarrow> do {
               (_, oops) \<leftarrow> obj_ops_of objects r c_ops;
               nl_cache_free oops (Some cache) h
             });
     free_caches objects r cas n (Suc i) h
   }"

definition nl_cache_mngr_free ::
  "'d objects \<Rightarrow> 'k sys \<Rightarrow> addr option \<Rightarrow> ('d, 'u) mngr_state_scheme nl_sock \<Rightarrow> ('d, 'u) mngr_state_scheme \<Rightarrow> 'k proc
     \<Rightarrow> (('d, 'u) mngr_state_scheme nl_sock \<times> ('d, 'u) mngr_state_scheme \<times> 'k proc) option" where
  "nl_cache_mngr_free objects sys mngr sk u p =
    (case mngr of
       None \<Rightarrow> Some (sk, u, p)
     | Some a \<Rightarrow> do {
         m \<leftarrow> mngrs u a;
         let (sk, p) = nl_close sys sk p;
         h \<leftarrow> free_caches objects (reg u) (cm_assocs m) (nat (sint (cm_nassocs m))) 0 (lib u);
         Some (sk, u\<lparr>lib := h, mngrs := (mngrs u)(a := None)\<rparr>, p)
       })"

text \<open>
  The comparison with 0 binds stronger than the assignment to \<^verbatim>\<open>err\<close>, which therefore is 1 when the socket
  cannot be connected.
\<close>

definition nl_cache_mngr_alloc ::
  "'d objects \<Rightarrow> 'k sys \<Rightarrow> ('d, 'u) mngr_state_scheme nl_sock \<Rightarrow> i32 \<Rightarrow> i32 \<Rightarrow> ('d, 'u) mngr_state_scheme \<Rightarrow> 'k proc
     \<Rightarrow> (i32 \<times> addr option \<times> ('d, 'u) mngr_state_scheme nl_sock \<times> ('d, 'u) mngr_state_scheme \<times> 'k proc) option" where
  "nl_cache_mngr_alloc objects sys sk protocol flags u p =
    (case h_alloc (lib u) of
       (None, h) \<Rightarrow> Some (- NLE_NOMEM, None, sk, u\<lparr>lib := h\<rparr>, p)
     | (Some a, h) \<Rightarrow>
        (let mngr = \<lparr>cm_protocol = protocol, cm_flags = flags, cm_nassocs = 32, cm_assocs = None\<rparr>;
             errout = (\<lambda>err sk u p. do {
               (sk, u, p) \<leftarrow> nl_cache_mngr_free objects sys (Some a) sk u p;
               Some (err, None, sk, u, p)
             }) in
         case h_alloc h of
           (None, h) \<Rightarrow> errout (- NLE_NOMEM) sk (u\<lparr>lib := h, mngrs := (mngrs u)(a \<mapsto> mngr)\<rparr>) p
         | (Some _, h) \<Rightarrow>
            (let u = u\<lparr>lib := h, mngrs := (mngrs u)(a \<mapsto> mngr\<lparr>cm_assocs := Some (replicate 32 no_assoc)\<rparr>)\<rparr>;
                 sk = snd (nl_socket_modify_cb sk NL_CB_VALID NL_CB_CUSTOM (Some (event_input objects)) a);
                 sk = nl_socket_disable_seq_check sk;
                 (err, sk, p) = nl_connect sys sk protocol p in
             if is_neg err then errout 1 sk u p
             else
               (let (err, p) = nl_socket_set_nonblocking sys sk p in
                if is_neg err then errout 1 sk u p else Some (0, Some a, sk, u, p)))))"

section \<open>Adding a cache\<close>

text \<open>
  The search for a free association; the array grows by 16 elements, whose contents \<open>junk x\<close> are those of
  the memory at \<open>x\<close>, and the search starts again.
\<close>

partial_function (option) find_slot ::
  "(addr \<Rightarrow> nat \<Rightarrow> 'd nl_cache_assoc) \<Rightarrow> 'd nl_cache_mngr \<Rightarrow> 'd nl_heap \<Rightarrow> (nat option \<times> 'd nl_cache_mngr \<times> 'd nl_heap) option" where
  "find_slot junk m h = do {
     found \<leftarrow> scan_all (\<lambda>ca. Some (ca_cache ca = None)) m;
     (case found of
        Some i \<Rightarrow> Some (Some i, m, h)
      | None \<Rightarrow> do {
          cas \<leftarrow> cm_assocs m;
          let m = m\<lparr>cm_nassocs := cm_nassocs m + 16\<rparr>;
          (if fst (h_alloc h) = None then Some (None, m\<lparr>cm_assocs := None\<rparr>, snd (h_alloc h))
           else find_slot junk (m\<lparr>cm_assocs := Some (cas @ map (junk (the (fst (h_alloc h)))) [0..<16])\<rparr>) (snd (h_alloc h)))
        })
   }"

primrec join_groups :: "'k sys \<Rightarrow> 'u nl_sock \<Rightarrow> (i32 \<times> i32) list \<Rightarrow> 'k proc \<Rightarrow> (i32 \<times> 'k proc) option" where
  "join_groups sys sk [] p = None"
| "join_groups sys sk (grp # gs) p =
    (if snd grp = 0 then Some (0, p)
     else do {
       (err, p) \<leftarrow> nl_socket_add_membership sys sk (snd grp) p;
       if is_neg err then Some (err, p) else join_groups sys sk gs p
     })"

primrec drop_groups :: "'k sys \<Rightarrow> 'u nl_sock \<Rightarrow> (i32 \<times> i32) list \<Rightarrow> 'k proc \<Rightarrow> 'k proc option" where
  "drop_groups sys sk [] p = None"
| "drop_groups sys sk (grp # gs) p =
    (if snd grp = 0 then Some p
     else do {
       (_, p) \<leftarrow> nl_socket_drop_membership sys sk (snd grp) p;
       drop_groups sys sk gs p
     })"

text \<open>The part of \<open>nl_cache_mngr_add\<close> from the allocation of the cache on; \<open>i\<close> is the free association.\<close>

definition add_cache ::
  "'d objects \<Rightarrow> (addr \<Rightarrow> (('d, 'u) mngr_state_scheme, 'k) request_update option) \<Rightarrow> 'k sys \<Rightarrow> addr \<Rightarrow> nat \<Rightarrow> addr \<Rightarrow> (i32 \<times> i32) list
     \<Rightarrow> ('d, unit) change_func option \<Rightarrow> ('d, 'u) mngr_state_scheme nl_sock \<Rightarrow> ('d, 'u) mngr_state_scheme \<Rightarrow> 'k proc
     \<Rightarrow> (i32 \<times> addr option \<times> ('d, 'u) mngr_state_scheme nl_sock \<times> ('d, 'u) mngr_state_scheme \<times> 'k proc) option" where
  "add_cache objects requests sys a i c_ops groups cb sk u p = do {
     (ops, oops) \<leftarrow> obj_ops_of objects (reg u) c_ops;
     (case nl_cache_alloc (lib u) of
        (None, h) \<Rightarrow> Some (- NLE_NOMEM, None, sk, u\<lparr>lib := h\<rparr>, p)
      | (Some cache, h) \<Rightarrow> do {
          (err, p) \<leftarrow> join_groups sys sk groups p;
          if is_neg err then do {
            h \<leftarrow> nl_cache_free oops (Some cache) h;
            Some (err, None, sk, u\<lparr>lib := h\<rparr>, p)
          }
          else do {
            (err, sk, u, p) \<leftarrow> nl_cache_refill oops ops (requests c_ops) sys sk cache (u\<lparr>lib := h\<rparr>) p;
            if is_neg err then do {
              p \<leftarrow> drop_groups sys sk groups p;
              h \<leftarrow> nl_cache_free oops (Some cache) (lib u);
              Some (err, None, sk, u\<lparr>lib := h\<rparr>, p)
            }
            else do {
              m \<leftarrow> mngrs u a;
              _ \<leftarrow> assoc_at (cm_assocs m) i;
              cas \<leftarrow> cm_assocs m;
              let m = m\<lparr>cm_assocs := Some (cas[i := \<lparr>ca_cache = Some (cache, c_ops), ca_change = cb\<rparr>])\<rparr>;
              r \<leftarrow> (if cm_flags m AND NL_AUTO_PROVIDE \<noteq> 0 then nl_cache_mngt_provide cache c_ops (reg u) else Some (reg u));
              Some (0, Some cache, sk, u\<lparr>mngrs := (mngrs u)(a \<mapsto> m), reg := r\<rparr>, p)
            }
          }
        })
   }"

definition nl_cache_mngr_add ::
  "'d objects \<Rightarrow> (addr \<Rightarrow> (('d, 'u) mngr_state_scheme, 'k) request_update option) \<Rightarrow> (addr \<Rightarrow> nat \<Rightarrow> 'd nl_cache_assoc) \<Rightarrow> 'k sys
     \<Rightarrow> addr \<Rightarrow> bytes \<Rightarrow> ('d, unit) change_func option
     \<Rightarrow> ('d, 'u) mngr_state_scheme nl_sock \<Rightarrow> ('d, 'u) mngr_state_scheme \<Rightarrow> 'k proc
     \<Rightarrow> (i32 \<times> addr option \<times> ('d, 'u) mngr_state_scheme nl_sock \<times> ('d, 'u) mngr_state_scheme \<times> 'k proc) option" where
  "nl_cache_mngr_add objects requests junk sys a name cb sk u p = do {
     mngr \<leftarrow> mngrs u a;
     found \<leftarrow> nl_cache_ops_lookup name (reg u);
     (case found of
        None \<Rightarrow> Some (- NLE_NOCACHE, None, sk, u, p)
      | Some c_ops \<Rightarrow> do {
          ops \<leftarrow> ops_at (reg u) c_ops;
          if co_protocol ops \<noteq> cm_protocol mngr then Some (- NLE_PROTO_MISMATCH, None, sk, u, p)
          else
            (case co_groups ops of
               None \<Rightarrow> Some (- NLE_OPNOTSUPP, None, sk, u, p)
             | Some groups \<Rightarrow> do {
                 dup \<leftarrow> scan_all (\<lambda>ca. Some (map_option snd (ca_cache ca) = Some c_ops)) mngr;
                 if dup \<noteq> None then Some (- NLE_EXIST, None, sk, u, p)
                 else do {
                   (slot, mngr, h) \<leftarrow> find_slot junk mngr (lib u);
                   let u = u\<lparr>lib := h, mngrs := (mngrs u)(a \<mapsto> mngr)\<rparr>;
                   (case slot of
                      None \<Rightarrow> Some (- NLE_NOMEM, None, sk, u, p)
                    | Some i \<Rightarrow> add_cache objects requests sys a i c_ops groups cb sk u p)
                 }
               })
        })
   }"

section \<open>Waiting for events\<close>

definition nl_cache_mngr_get_fd :: "'u nl_sock \<Rightarrow> i32" where
  "nl_cache_mngr_get_fd sk = nl_socket_get_fd sk"

definition nl_cache_mngr_data_ready ::
  "'k sys \<Rightarrow> 'u nl_sock \<Rightarrow> 'u \<Rightarrow> 'k proc \<Rightarrow> (i32 \<times> 'u nl_sock \<times> 'u \<times> 'k proc) option" where
  "nl_cache_mngr_data_ready sys sk u p = do {
     (err, sk, u, p) \<leftarrow> nl_recvmsgs_default sys sk u p;
     Some (if is_neg err then err else 1, sk, u, p)
   }"

text \<open>\<open>poll\<close> is the system call, with the descriptor and the timeout; an error carries its \<^verbatim>\<open>errno\<close>.\<close>

definition nl_cache_mngr_poll ::
  "(i32 \<Rightarrow> i32 \<Rightarrow> 'k \<Rightarrow> (i32 + i32) \<times> 'k) \<Rightarrow> 'k sys \<Rightarrow> i32 \<Rightarrow> 'u nl_sock \<Rightarrow> 'u \<Rightarrow> 'k proc
     \<Rightarrow> (i32 \<times> 'u nl_sock \<times> 'u \<times> 'k proc) option" where
  "nl_cache_mngr_poll poll sys timeout sk u p =
    (case poll (nl_socket_get_fd sk) timeout (kern p) of
       (Inl errno, k) \<Rightarrow> Some (- nl_syserr2nlerr errno, sk, u, p\<lparr>kern := k\<rparr>)
     | (Inr ret, k) \<Rightarrow>
        if ret = 0 then Some (0, sk, u, p\<lparr>kern := k\<rparr>)
        else nl_cache_mngr_data_ready sys sk u (p\<lparr>kern := k\<rparr>))"

section \<open>The associations\<close>

lemma scan_first:
  assumes "j < length xs" "i \<le> j" "j < i + n" and "test (xs ! j) = Some True" "\<forall>k. i \<le> k \<and> k < j \<longrightarrow> test (xs ! k) = Some False"
  shows "scan test (Some xs) n i = Some (Some j)"
  using assms
proof (induction n arbitrary: i)
  case (Suc n)
  show ?case
  proof (cases "i = j")
    case False
    then have "scan test (Some xs) n (Suc i) = Some (Some j)" using Suc.prems by (intro Suc.IH) auto
    then show ?thesis using Suc.prems False by (simp add: assoc_at_def)
  qed (use Suc.prems in \<open>simp add: assoc_at_def\<close>)
qed simp

lemma scan_none:
  assumes "i + n \<le> length xs" and "\<forall>k. i \<le> k \<and> k < i + n \<longrightarrow> test (xs ! k) = Some False"
  shows "scan test (Some xs) n i = Some None"
  using assms by (induction n arbitrary: i) (simp_all add: assoc_at_def)

text \<open>The array has the size the manager says.\<close>

definition wf_mngr :: "'d nl_cache_mngr \<Rightarrow> bool" where
  "wf_mngr m \<longleftrightarrow> (\<exists>cas. cm_assocs m = Some cas \<and> cm_nassocs m = word_of_nat (length cas) \<and> length cas < 2 ^ 30)"

lemma wf_mngr_size:
  assumes "wf_mngr m" "cm_assocs m = Some cas"
  shows "nat (sint (cm_nassocs m)) = length cas"
proof -
  have l: "length cas < 2 ^ 30" and w: "cm_nassocs m = word_of_nat (length cas)" using assms by (auto simp: wf_mngr_def)
  have u: "unat (cm_nassocs m) = length cas" unfolding w using l by (subst unat_of_nat) simp
  then show ?thesis using sint_nonneg_u32 [of "cm_nassocs m"] l by simp
qed

lemma free_caches_empty:
  "i + n \<le> length xs \<Longrightarrow> \<forall>k < length xs. ca_cache (xs ! k) = None \<Longrightarrow> free_caches objects r (Some xs) n i h = Some h"
  by (induction n arbitrary: i) (simp_all add: assoc_at_def)

text \<open>A free association is found; a full array grows, and its first new element that happens to be empty is taken.\<close>

lemma find_slot_free:
  assumes "wf_mngr m" "cm_assocs m = Some cas" "j < length cas" "ca_cache (cas ! j) = None" "\<forall>k < j. ca_cache (cas ! k) \<noteq> None"
  shows "find_slot junk m h = Some (Some j, m, h)"
proof -
  have "scan_all (\<lambda>ca. Some (ca_cache ca = None)) m = Some (Some j)"
    unfolding scan_all_def assms(2) wf_mngr_size [OF assms(1,2)] by (rule scan_first) (use assms(3-5) in auto)
  then show ?thesis by (simp add: find_slot.simps)
qed

lemma find_slot_grows:
  assumes m: "wf_mngr m" "cm_assocs m = Some cas" "length cas + 16 < 2 ^ 30" and full: "\<forall>k < length cas. ca_cache (cas ! k) \<noteq> None"
    and h: "h_grants h (h_next h)" and j: "j < 16" "ca_cache (junk (h_next h) j) = None" "\<forall>k < j. ca_cache (junk (h_next h) k) \<noteq> None"
  shows "\<exists>m'. find_slot junk m h = Some (Some (length cas + j), m', h\<lparr>h_next := h_next h + 1\<rparr>) \<and> wf_mngr m'
    \<and> cm_assocs m' = Some (cas @ map (junk (h_next h)) [0..<16])"
proof -
  let ?cas = "cas @ map (junk (h_next h)) [0..<16]"
  let ?m = "m\<lparr>cm_nassocs := cm_nassocs m + 16, cm_assocs := Some ?cas\<rparr>"
  have none: "scan_all (\<lambda>ca. Some (ca_cache ca = None)) m = Some None"
    unfolding scan_all_def m(2) wf_mngr_size [OF m(1,2)] by (rule scan_none) (use full in auto)
  have wf: "wf_mngr ?m" using m by (auto simp: wf_mngr_def)
  have "find_slot junk ?m (h\<lparr>h_next := h_next h + 1\<rparr>) = Some (Some (length cas + j), ?m, h\<lparr>h_next := h_next h + 1\<rparr>)"
    by (rule find_slot_free [OF wf]) (use j full in \<open>auto simp: nth_append\<close>)
  then show ?thesis
    using none m(2) h wf by (subst find_slot.simps) (simp add: h_alloc_def)
qed

section \<open>Allocating\<close>

definition listening :: "'d objects \<Rightarrow> addr \<Rightarrow> ('d, 'u) mngr_state_scheme nl_sock \<Rightarrow> ('d, 'u) mngr_state_scheme nl_sock" where
  "listening objects a sk = nl_socket_disable_seq_check (snd (nl_socket_modify_cb sk NL_CB_VALID NL_CB_CUSTOM (Some (event_input objects)) a))"

definition new_mngr :: "i32 \<Rightarrow> i32 \<Rightarrow> 'd nl_cache_mngr" where
  "new_mngr protocol flags = \<lparr>cm_protocol = protocol, cm_flags = flags, cm_nassocs = 32, cm_assocs = Some (replicate 32 no_assoc)\<rparr>"

lemma new_mngr_free:
  assumes "mngrs u a = Some (new_mngr protocol flags)"
  shows "nl_cache_mngr_free objects sys (Some a) sk u p
    = (let (sk, p) = nl_close sys sk p in Some (sk, u\<lparr>mngrs := (mngrs u)(a := None)\<rparr>, p))"
proof -
  have "free_caches objects (reg u) (Some (replicate 32 no_assoc)) 32 0 (lib u) = Some (lib u)"
    by (rule free_caches_empty) (simp_all add: no_assoc_def)
  moreover have "nat (sint (32 :: i32)) = 32" by simp
  moreover have "u\<lparr>lib := lib u\<rparr> = u" by simp
  ultimately show ?thesis
    using assms by (simp add: nl_cache_mngr_free_def new_mngr_def split: prod.splits)
qed

lemma mngr_alloc_eq:
  assumes "a = h_next (lib u)" "h_grants (lib u) a" "h_grants (lib u) (a + 1)"
    and "u1 = u\<lparr>lib := (lib u)\<lparr>h_next := a + 2\<rparr>, mngrs := (mngrs u)(a \<mapsto> new_mngr protocol flags)\<rparr>"
  shows "nl_cache_mngr_alloc objects sys sk protocol flags u p =
    (let (err, sk, p) = nl_connect sys (listening objects a sk) protocol p;
         (err2, p2) = nl_socket_set_nonblocking sys sk p in
     if is_neg err then (let (sk, p) = nl_close sys sk p in Some (1, None, sk, u1\<lparr>mngrs := (mngrs u)(a := None)\<rparr>, p))
     else if is_neg err2 then (let (sk, p) = nl_close sys sk p2 in Some (1, None, sk, u1\<lparr>mngrs := (mngrs u)(a := None)\<rparr>, p))
     else Some (0, Some a, sk, u1, p2))"
proof -
  have al: "h_alloc (lib u) = (Some a, (lib u)\<lparr>h_next := a + 1\<rparr>)" "h_alloc ((lib u)\<lparr>h_next := a + 1\<rparr>) = (Some (a + 1), (lib u)\<lparr>h_next := a + 2\<rparr>)"
    using assms(1-3) by (simp_all add: h_alloc_def)
  have m: "mngrs u1 a = Some (new_mngr protocol flags)" "u1\<lparr>mngrs := (mngrs u1)(a := None)\<rparr> = u1\<lparr>mngrs := (mngrs u)(a := None)\<rparr>"
    using assms(4) by simp_all
  show ?thesis
    using al new_mngr_free [OF m(1), of objects sys] m(2)
    unfolding nl_cache_mngr_alloc_def
    by (simp add: listening_def new_mngr_def assms(4) Let_def split: prod.splits)
qed

text \<open>
  Claim C38.  Allocating a cache manager: if the socket cannot be connected or not be made non-blocking, the manager is
  freed again but the result is 1, which no caller takes for an error; if the memory for the associations cannot be
  allocated, the clean-up reads them through a null pointer; otherwise there is a manager with 32 free associations that the
  events of the socket are given to.
\<close>

theorem mngr_alloc_outcome:
  fixes u :: "('d, 'u) mngr_state_scheme" and sk :: "('d, 'u) mngr_state_scheme nl_sock"
  assumes "a = h_next (lib u)" "h_grants (lib u) a"
    and "nl_connect sys (listening objects a sk) protocol p = (err, sk1, p1)" "nl_socket_set_nonblocking sys sk1 p1 = (err2, p2)"
  shows "if \<not> h_grants (lib u) (a + 1) then nl_cache_mngr_alloc objects sys sk protocol flags u p = None
    else if is_neg err \<or> is_neg err2
    then \<exists>sk' u' p'. nl_cache_mngr_alloc objects sys sk protocol flags u p = Some (1, None, sk', u', p') \<and> s_proto sk' = 0
        \<and> mngrs u' = (mngrs u)(a := None) \<and> h_caches (lib u') = h_caches (lib u) \<and> h_objs (lib u') = h_objs (lib u)
    else \<exists>u'. nl_cache_mngr_alloc objects sys sk protocol flags u p = Some (0, Some a, sk1, u', p2)
        \<and> mngrs u' = (mngrs u)(a \<mapsto> new_mngr protocol flags) \<and> wf_mngr (new_mngr protocol flags :: 'd nl_cache_mngr)
        \<and> cb_set (s_cb (listening objects a sk)) NL_CB_VALID = Some (event_input objects)
        \<and> cb_args (s_cb (listening objects a sk)) NL_CB_VALID = a"
proof (cases "h_grants (lib u) (a + 1)")
  case False
  have "nl_cache_mngr_alloc objects sys sk protocol flags u p = None"
    using assms(1,2) False
    by (simp add: nl_cache_mngr_alloc_def h_alloc_def nl_cache_mngr_free_def assoc_at_def eval_nat_numeral split: prod.splits)
  then show ?thesis using False by simp
next
  case True
  define u1 where "u1 = u\<lparr>lib := (lib u)\<lparr>h_next := a + 2\<rparr>, mngrs := (mngrs u)(a \<mapsto> new_mngr protocol flags)\<rparr>"
  have "s_proto sk2 = 0" if "nl_close sys sk' p' = (sk2, p3)" for sk' sk2 :: "('d, 'u) mngr_state_scheme nl_sock" and p' p3
    using that by (auto simp: nl_close_def split: if_splits)
  moreover have "wf_mngr (new_mngr protocol flags :: 'd nl_cache_mngr)" by (simp add: wf_mngr_def new_mngr_def)
  moreover have "cb_set (s_cb (listening objects a sk)) NL_CB_VALID = Some (event_input objects)"
      "cb_args (s_cb (listening objects a sk)) NL_CB_VALID = a"
    by (simp_all add: listening_def nl_socket_disable_seq_check_def nl_socket_modify_cb_def nl_cb_set_def)
  ultimately show ?thesis
    using mngr_alloc_eq [OF assms(1,2) True u1_def, of objects sys sk p] assms(3,4) True
    by (cases "is_neg err"; cases "is_neg err2") (auto simp: u1_def split: prod.splits)
qed

end
