(* ===== verification/RT_NeighMsg.thy ===== *)
theory RT_NeighMsg
  imports RT_Neigh NL_Mngr
begin

text \<open>
  What the kernel says about a neighbour, its bytes (\<^verbatim>\<open>struct ndmsg\<close> and the attributes of
  \<^verbatim>\<open>linux/neighbour.h\<close>), and that the parser of \<^verbatim>\<open>lib/route/neigh.c\<close> makes the object of it; an event is
  then an update of the cache as a map.
\<close>

section \<open>What the kernel sends\<close>

record neigh_info =
  ni_family :: u8
  ni_ifindex :: u32
  ni_state :: u16
  ni_flags :: u8
  ni_type :: u8
  ni_dst :: "bytes option"
  ni_lladdr :: "bytes option"
  ni_cacheinfo :: "rtnl_ncacheinfo option"
  ni_probes :: "u32 option"

definition opt_attr :: "u16 \<Rightarrow> bytes option \<Rightarrow> (u16 \<times> bytes) list" where
  "opt_attr t x = (case x of None \<Rightarrow> [] | Some d \<Rightarrow> [(t, d)])"

definition cacheinfo_bytes :: "rtnl_ncacheinfo \<Rightarrow> bytes" where
  "cacheinfo_bytes ci = le32 (nci_confirmed ci) @ le32 (nci_used ci) @ le32 (nci_updated ci) @ le32 (nci_refcnt ci)"

definition info_attrs :: "neigh_info \<Rightarrow> (u16 \<times> bytes) list" where
  "info_attrs ni = opt_attr 1 (ni_dst ni) @ opt_attr 2 (ni_lladdr ni)
     @ opt_attr 3 (map_option cacheinfo_bytes (ni_cacheinfo ni)) @ opt_attr 4 (map_option le32 (ni_probes ni))"

definition info_hdr :: "neigh_info \<Rightarrow> bytes" where
  "info_hdr ni = ndmsg (ni_family ni) (ni_ifindex ni) (ni_state ni) (ni_flags ni) (ni_type ni)"

definition neigh_msg :: "u16 \<Rightarrow> u16 \<Rightarrow> u32 \<Rightarrow> u32 \<Rightarrow> neigh_info \<Rightarrow> bytes" where
  "neigh_msg ty fl sq pid ni = msg_at (28 + length (enc_attrs (info_attrs ni)))
     (nlh_fields ty fl sq pid @ info_hdr ni @ enc_attrs (info_attrs ni))"

definition short :: "bytes option \<Rightarrow> bool" where
  "short x \<longleftrightarrow> (\<forall>d. x = Some d \<longrightarrow> length d < 65532)"

definition info_ok :: "neigh_info \<Rightarrow> bool" where
  "info_ok ni \<longleftrightarrow> short (ni_dst ni) \<and> short (ni_lladdr ni)"

text \<open>The object that such a message describes.\<close>

definition built_addr :: "i32 \<Rightarrow> bytes \<Rightarrow> nl_addr" where
  "built_addr family d = \<lparr>a_family = family, a_maxsize = word_of_nat (length d), a_len = word_of_nat (length d),
     a_prefixlen = word_of_nat (8 * length d), a_refcnt = 1, a_addr = d\<rparr>"

definition guessed :: "nl_addr \<Rightarrow> nl_addr" where
  "guessed ad = nl_addr_set_family ad (nl_addr_guess_family ad)"

definition info_neigh :: "neigh_info \<Rightarrow> rtnl_neigh" where
  "info_neigh ni = neigh_init_data\<lparr>n_family := ucast (ni_family ni), n_ifindex := ni_ifindex ni, n_state := ni_state ni,
     n_flags := ni_flags ni, n_type := ni_type ni,
     n_lladdr := map_option (\<lambda>d. guessed (built_addr AF_UNSPEC d)) (ni_lladdr ni),
     n_dst := map_option (built_addr (ucast (ni_family ni))) (ni_dst ni),
     n_cacheinfo := (case ni_cacheinfo ni of None \<Rightarrow> n_cacheinfo neigh_init_data | Some ci \<Rightarrow> ci),
     n_probes := (case ni_probes ni of None \<Rightarrow> 0 | Some x \<Rightarrow> x)\<rparr>"

definition if_some :: "'a option \<Rightarrow> u32 \<Rightarrow> u32" where
  "if_some x attr = (if x = None then 0 else attr)"

definition info_mask :: "neigh_info \<Rightarrow> u32" where
  "info_mask ni = NEIGH_ATTR_FAMILY OR NEIGH_ATTR_IFINDEX OR NEIGH_ATTR_STATE OR NEIGH_ATTR_FLAGS OR NEIGH_ATTR_TYPE
     OR if_some (ni_lladdr ni) NEIGH_ATTR_LLADDR OR if_some (ni_dst ni) NEIGH_ATTR_DST
     OR if_some (ni_cacheinfo ni) NEIGH_ATTR_CACHEINFO OR if_some (ni_probes ni) NEIGH_ATTR_PROBES"

definition info_obj :: "u16 \<Rightarrow> neigh_info \<Rightarrow> rtnl_neigh nl_object" where
  "info_obj ty ni = \<lparr>ce_refcnt = 1, ce_cache = None, ce_linked = False, ce_msgtype = ucast ty, ce_flags = 0,
     ce_mask = info_mask ni, ce_data = info_neigh ni\<rparr>"

definition info_allocs :: "neigh_info \<Rightarrow> nat" where
  "info_allocs ni = 1 + length (opt_attr 1 (ni_dst ni)) + length (opt_attr 2 (ni_lladdr ni))"

section \<open>Parsing\<close>

lemma nlmsg_parse_12:
  assumes b: "b = msg_at (28 + length (enc_attrs as)) (nlh_fields ty fl sq pid @ hdr @ enc_attrs as) @ z"
    and small: "length b < 2 ^ 30" and hdr: "length hdr = 12"
    and ok: "list_all attr_ok as" "m < 2 ^ 31" "list_all (policy_ok m policy) as"
  shows "nlmsg_valid_hdr b 0 12 = Some True"
    and "nlmsg_parse b 0 12 (word_of_nat m) policy tb = Some (0, attr_index m 28 as Map.empty)"
    and "ld16 b 4 = Some ty"
proof -
  let ?p = "msg_at (28 + length (enc_attrs as)) (nlh_fields ty fl sq pid @ hdr)"
  define L :: u32 where "L = word_of_nat (28 + length (enc_attrs as))"
  have lb: "length b = 28 + length (enc_attrs as) + length z" using hdr by (simp add: b)
  have uL: "unat L = 28 + length (enc_attrs as)"
    unfolding L_def using lb small by (subst unat_of_nat) simp
  have ld: "ld32 b 0 = Some L" unfolding b L_def msg_at_def by (simp add: ld32_def del: of_nat_add)
  have al: "NLMSG_ALIGN 12 = 12" by (simp add: NLMSG_ALIGN_def)
  show valid: "nlmsg_valid_hdr b 0 12 = Some True"
    using ld uL by (simp add: nlmsg_valid_hdr_def nlmsg_msg_size_def nlmsg_size_def word_less_nat_alt)
  have len: "nlmsg_attrlen b 0 12 = Some (word_of_nat (length (enc_attrs as)))"
    using ld by (simp add: nlmsg_attrlen_def nlmsg_len_def nlmsg_datalen_def al L_def)
  have bp: "b = ?p @ enc_attrs as @ z" by (simp add: msg_at_def b)
  have lp: "length ?p = 28" using hdr by simp
  have "nla_parse b (word_of_nat m) (length ?p) (word_of_nat (length (enc_attrs as))) policy
      = Some (0, attr_index m (length ?p) as Map.empty)"
    by (rule nla_parse_enc [OF bp small ok])
  then show "nlmsg_parse b 0 12 (word_of_nat m) policy tb = Some (0, attr_index m 28 as Map.empty)"
    unfolding lp using valid len by (simp add: nlmsg_parse_def nlmsg_attrdata_def nlmsg_data_def al)
  show "ld16 b 4 = Some ty" unfolding b msg_at_def nlh_fields_def by (simp add: ld16_def)
qed

lemma short_ok: "short x \<Longrightarrow> t < 0x4000 \<Longrightarrow> list_all attr_ok (opt_attr t x)"
  by (auto simp: short_def opt_attr_def attr_ok_def split: option.splits)

lemma length_cacheinfo [simp]: "length (cacheinfo_bytes ci) = 16"
  by (simp add: cacheinfo_bytes_def)

lemma info_attrs_ok:
  assumes "info_ok ni"
  shows "list_all attr_ok (info_attrs ni)" "list_all (policy_ok NDA_MAX (Some neigh_policy)) (info_attrs ni)"
    "length (neigh_msg ty fl sq pid ni) < 2 ^ 30"
proof -
  have s: "short (map_option cacheinfo_bytes (ni_cacheinfo ni))" "short (map_option le32 (ni_probes ni))"
    by (auto simp: short_def)
  show "list_all attr_ok (info_attrs ni)"
    using assms s short_ok by (simp add: info_attrs_def info_ok_def)
  show "list_all (policy_ok NDA_MAX (Some neigh_policy)) (info_attrs ni)"
    by (auto simp: info_attrs_def opt_attr_def policy_ok_def neigh_policy_def nda_defs accepts_def no_policy_def of_type_def
        policy_minlen_def nla_type_defs nla_attr_minlen_def split: option.splits)
  have l: "length (enc_attrs (opt_attr t x)) < 2 ^ 17" if "short x" for t x
    using that align4_less [of "length (the x)"] by (auto simp: short_def opt_attr_def split: option.splits)
  show "length (neigh_msg ty fl sq pid ni) < 2 ^ 30"
    using assms s l [of "ni_dst ni" 1] l [of "ni_lladdr ni" 2] l [OF s(1), of 3] l [OF s(2), of 4]
    by (simp add: neigh_msg_def info_attrs_def info_ok_def info_hdr_def ndmsg_def)
qed

text \<open>What the table of a message says about an attribute that may be there.\<close>

definition has_attr :: "bytes \<Rightarrow> attr_table \<Rightarrow> nat \<Rightarrow> bytes option \<Rightarrow> bool" where
  "has_attr b tb t x \<longleftrightarrow> (case x of None \<Rightarrow> tb t = None | Some d \<Rightarrow> \<exists>off. tb t = Some off \<and> attr_payload b off = Some d)"

lemma info_table:
  assumes ok: "info_ok ni" and b: "b = neigh_msg ty fl sq pid ni @ z"
  defines "tb \<equiv> attr_index NDA_MAX 28 (info_attrs ni) Map.empty"
  shows "has_attr b tb 1 (ni_dst ni)" "has_attr b tb 2 (ni_lladdr ni)"
    "has_attr b tb 3 (map_option cacheinfo_bytes (ni_cacheinfo ni))" "has_attr b tb 4 (map_option le32 (ni_probes ni))"
proof -
  let ?p = "msg_at (28 + length (enc_attrs (info_attrs ni))) (nlh_fields ty fl sq pid @ info_hdr ni)"
  have p: "length ?p = 28" by (simp add: info_hdr_def ndmsg_def)
  have bp: "b = ?p @ enc_attrs (info_attrs ni) @ z" using b by (simp add: neigh_msg_def msg_at_def)
  have look: "has_attr b tb (unat t) (map_of (rev (info_attrs ni)) t)" if "t \<noteq> 0" "unat t \<le> NDA_MAX" for t
  proof (cases "map_of (rev (info_attrs ni)) t")
    case None
    then have "t \<notin> fst ` set (info_attrs ni)" by (simp add: map_of_eq_None_iff)
    then have "unat t \<notin> unat ` fst ` set (info_attrs ni)" by (metis imageE word_unat_eq_iff)
    then show ?thesis using None attr_index_absent [of "unat t"] by (simp add: has_attr_def tb_def)
  next
    case (Some d)
    then show ?thesis
      using attr_index_payload [OF bp info_attrs_ok(1) [OF ok] that, of Map.empty] p
      by (simp add: has_attr_def tb_def bind_eq_Some_conv)
  qed
  have m: "map_of (rev (info_attrs ni)) 1 = ni_dst ni" "map_of (rev (info_attrs ni)) 2 = ni_lladdr ni"
    "map_of (rev (info_attrs ni)) 3 = map_option cacheinfo_bytes (ni_cacheinfo ni)"
    "map_of (rev (info_attrs ni)) 4 = map_option le32 (ni_probes ni)"
    by (auto simp: info_attrs_def opt_attr_def split: option.splits)
  show "has_attr b tb 1 (ni_dst ni)" using look [of 1] m(1) by (simp add: NDA_MAX_def)
  show "has_attr b tb 2 (ni_lladdr ni)" using look [of 2] m(2) by (simp add: NDA_MAX_def)
  show "has_attr b tb 3 (map_option cacheinfo_bytes (ni_cacheinfo ni))" using look [of 3] m(3) by (simp add: NDA_MAX_def)
  show "has_attr b tb 4 (map_option le32 (ni_probes ni))" using look [of 4] m(4) by (simp add: NDA_MAX_def)
qed

lemma alloc_attr_payload:
  assumes "attr_payload b nla = Some d" "length d < 65532"
  shows "nl_addr_alloc_attr True b nla family = Some (Some (built_addr family d))"
proof -
  obtain len where len: "nla_len b nla = Some len" "ld_bytes b (nla_data nla) (unat len) = Some d"
    using assms(1) by (auto simp: attr_payload_def bind_eq_Some_conv)
  have d: "take_exact (unat len) (drop (nla_data nla) b) = Some d" and ul: "unat len = length d"
    using len(2) by (auto simp: ld_bytes_def take_exact_def split: if_splits)
  define sz :: u64 where "sz = scast len"
  have us: "unat sz = length d" unfolding sz_def using ul assms(2) by (simp add: unat_scast_u64)
  have le: "length d \<le> length (drop (nla_data nla) b)" and dd: "d = take (length d) (drop (nla_data nla) b)"
    using d ul by (auto simp: take_exact_def split: if_splits)
  have c: "(ucast sz :: u32) = word_of_nat (length d)" "(ucast (sz * 8) :: u32) = word_of_nat (8 * length d)"
    using assms(2) us by (intro word_unat_eq_iff [THEN iffD2], simp add: unsigned_ucast_eq unsigned_take_bit_eq unat_word_ariths unat_of_nat take_bit_eq_mod)+
  have ov: "\<not> 20 + sz < sz" using us assms(2) by (simp add: word_less_nat_alt unat_word_ariths)
  show ?thesis
  proof (cases "d = []")
    case True
    then have z: "sz = 0" using us by (simp add: unat_eq_0)
    show ?thesis using len(1) True ov c
      by (simp add: z nl_addr_alloc_attr_def nl_addr_build_def nl_addr_alloc_def built_addr_def flip: sz_def)
  next
    case False
    then have z: "sz \<noteq> 0" using us by (auto simp: unat_eq_0)
    have t: "take_exact (unat sz) (drop (nla_data nla) b) = Some d" using d ul us by simp
    show ?thesis using len(1) ov c z us t
      by (simp add: blit_def nl_addr_alloc_attr_def nl_addr_build_def nl_addr_alloc_def built_addr_def flip: sz_def)
  qed
qed

text \<open>A heap with one object more; memory for addresses has been taken up to \<open>k\<close>.\<close>

definition one_more :: "addr \<Rightarrow> nheap \<Rightarrow> addr \<Rightarrow> u32 \<Rightarrow> rtnl_neigh \<Rightarrow> i32 \<Rightarrow> nheap" where
  "one_more a h k msk n ty = set_obj a \<lparr>ce_refcnt = 1, ce_cache = None, ce_linked = False, ce_msgtype = ty, ce_flags = 0,
     ce_mask = msk, ce_data = n\<rparr> (h\<lparr>h_next := k\<rparr>)"

lemma neigh_set_one_more: "neigh_set attr f a (one_more a h k msk n ty) = Some (one_more a h k (msk OR attr) (f n) ty)"
  by (simp add: neigh_set_def one_more_def set_obj_def)

lemma parse_addr_one_more:
  assumes "has_attr b tb t x" and "short x" and "\<forall>x. h_grants h x"
  shows "parse_addr b (tb t) family (\<lambda>ad. neigh_set attr (f ad) a) (one_more a h k msk n ty)
    = Some (0, one_more a h (k + length (opt_attr 0 x)) (msk OR if_some x attr)
        (case x of None \<Rightarrow> n | Some d \<Rightarrow> f (built_addr family d) n) ty)"
proof (cases x)
  case None
  then show ?thesis using assms(1) by (simp add: parse_addr_def has_attr_def opt_attr_def if_some_def)
next
  case (Some d)
  then obtain off where "tb t = Some off" "attr_payload b off = Some d" "length d < 65532"
    using assms(1,2) by (auto simp: has_attr_def short_def)
  moreover have "h_alloc (one_more a h k msk n ty) = (Some k, one_more a h (k + 1) msk n ty)"
    using assms(3) by (simp add: h_alloc_def one_more_def set_obj_def)
  ultimately show ?thesis
    using Some alloc_attr_payload by (simp add: parse_addr_def neigh_set_one_more opt_attr_def if_some_def)
qed

lemma payload_ld32:
  assumes "attr_payload b off = Some d" and "i + 4 \<le> length d"
  shows "ld32 b (nla_data off + i) = ld32 d i"
proof -
  obtain p q where "b = p @ d @ q" "length p = nla_data off"
    using attr_payload_split [OF assms(1)] assms(2) by force
  then show ?thesis using assms(2) ld_mid(2) by metis
qed

lemma parse_cacheinfo_one_more:
  assumes "has_attr b tb t (map_option cacheinfo_bytes ci)"
  shows "parse_cacheinfo b (tb t) a (one_more a h k msk n ty)
    = Some (one_more a h k (msk OR if_some ci NEIGH_ATTR_CACHEINFO) (case ci of None \<Rightarrow> n | Some c \<Rightarrow> n\<lparr>n_cacheinfo := c\<rparr>) ty)"
proof (cases ci)
  case None
  then show ?thesis using assms by (simp add: parse_cacheinfo_def has_attr_def if_some_def)
next
  case (Some c)
  then obtain off where off: "tb t = Some off" "attr_payload b off = Some (cacheinfo_bytes c)" using assms by (auto simp: has_attr_def)
  have "ld32 (cacheinfo_bytes c) 0 = Some (nci_confirmed c)" "ld32 (cacheinfo_bytes c) 4 = Some (nci_used c)"
    "ld32 (cacheinfo_bytes c) 8 = Some (nci_updated c)" "ld32 (cacheinfo_bytes c) 12 = Some (nci_refcnt c)"
    by (simp_all add: cacheinfo_bytes_def ld32_def)
  moreover have "\<lparr>nci_confirmed = nci_confirmed c, nci_used = nci_used c, nci_updated = nci_updated c, nci_refcnt = nci_refcnt c\<rparr> = c"
    by simp
  ultimately show ?thesis unfolding Some
    using Some off(1) payload_ld32 [OF off(2), of 0] payload_ld32 [OF off(2), of 4] payload_ld32 [OF off(2), of 8] payload_ld32 [OF off(2), of 12]
    by (cases c) (simp add: parse_cacheinfo_def neigh_set_one_more if_some_def)
qed

lemma parse_probes_one_more:
  assumes "has_attr b tb t (map_option le32 x)"
  shows "parse_probes b (tb t) a (one_more a h k msk n ty)
    = Some (one_more a h k (msk OR if_some x NEIGH_ATTR_PROBES) (case x of None \<Rightarrow> n | Some v \<Rightarrow> n\<lparr>n_probes := v\<rparr>) ty)"
  using assms attr_payload_u32 [of b]
  by (auto simp: parse_probes_def has_attr_def if_some_def neigh_set_one_more split: option.splits)

text \<open>The heap after a message has been parsed.\<close>

definition parsed :: "u16 \<Rightarrow> neigh_info \<Rightarrow> nheap \<Rightarrow> nheap" where
  "parsed ty ni h = set_obj (h_next h) (info_obj ty ni) (h\<lparr>h_next := h_next h + info_allocs ni\<rparr>)"

lemma neigh_msg_fields:
  assumes "b = neigh_msg ty fl sq pid ni @ z"
  shows "ld8 b 16 = Some (ni_family ni)" "ld32 b 20 = Some (ni_ifindex ni)" "ld16 b 24 = Some (ni_state ni)"
    "ld8 b 26 = Some (ni_flags ni)" "ld8 b 27 = Some (ni_type ni)"
  unfolding assms neigh_msg_def msg_at_def nlh_fields_def info_hdr_def ndmsg_def
  by (simp_all add: ld8_def ld16_def ld32_def nth_append)

lemma neigh_msg_parser_msg:
  assumes ok: "info_ok ni" and b: "b = neigh_msg ty fl sq pid ni @ z" "length b < 2 ^ 30" and g: "\<forall>x. h_grants h x"
  shows "neigh_msg_parser b 0 pp_cb h = do {
      (err, h') \<leftarrow> pp_cb (h_next h) (parsed ty ni h);
      h' \<leftarrow> rtnl_neigh_put (Some (h_next h)) h';
      Some (err, h')
    }" and "nlmsg_valid_hdr b 0 12 = Some True" and "ld16 b 4 = Some ty"
proof -
  have b': "b = msg_at (28 + length (enc_attrs (info_attrs ni))) (nlh_fields ty fl sq pid @ info_hdr ni @ enc_attrs (info_attrs ni)) @ z"
    using b(1) by (simp add: neigh_msg_def)
  have hl: "length (info_hdr ni) = 12" by (simp add: info_hdr_def ndmsg_def)
  have nm: "NDA_MAX < 2 ^ 31" by (simp add: NDA_MAX_def)
  note p = nlmsg_parse_12 [OF b' b(2) hl info_attrs_ok(1) [OF ok] nm info_attrs_ok(2) [OF ok]]
  define T where "T = attr_index NDA_MAX 28 (info_attrs ni) Map.empty"
  have tb: "has_attr b T NDA_DST (ni_dst ni)" "has_attr b T NDA_LLADDR (ni_lladdr ni)"
      "has_attr b T NDA_CACHEINFO (map_option cacheinfo_bytes (ni_cacheinfo ni))" "has_attr b T NDA_PROBES (map_option le32 (ni_probes ni))"
    using info_table [OF ok b(1)] by (simp_all add: T_def NDA_DST_def NDA_LLADDR_def NDA_CACHEINFO_def NDA_PROBES_def)
  let ?a = "h_next h"
  have al: "rtnl_neigh_alloc h = (Some ?a, one_more ?a h (?a + 1) 0 neigh_init_data 0)"
    using g by (simp add: rtnl_neigh_alloc_def nl_object_alloc_def h_alloc_def one_more_def neigh_obj_ops_def)
  have o: "h_objs (one_more ?a h k msk n t) ?a = Some \<lparr>ce_refcnt = 1, ce_cache = None, ce_linked = False, ce_msgtype = t, ce_flags = 0,
     ce_mask = msk, ce_data = n\<rparr>" "set_obj ?a \<lparr>ce_refcnt = 1, ce_cache = None, ce_linked = False, ce_msgtype = t2, ce_flags = 0,
     ce_mask = msk, ce_data = n\<rparr> (one_more ?a h k msk n t) = one_more ?a h k msk n t2" for k msk n t t2
    by (simp_all add: one_more_def set_obj_def)
  have sh: "short (ni_dst ni)" "short (ni_lladdr ni)" using ok by (simp_all add: info_ok_def)
  have fin: "one_more ?a h (?a + 1 + length (opt_attr 0 (ni_lladdr ni)) + length (opt_attr 0 (ni_dst ni))) (info_mask ni) (info_neigh ni) (ucast ty)
      = parsed ty ni h"
    by (simp add: one_more_def parsed_def info_obj_def info_allocs_def opt_attr_def split: option.splits)
  have filled: "info_neigh ni = (let n = neigh_init_data\<lparr>n_family := ucast (ni_family ni), n_ifindex := ni_ifindex ni, n_state := ni_state ni,
         n_flags := ni_flags ni, n_type := ni_type ni\<rparr>;
       n = (case ni_lladdr ni of None \<Rightarrow> n | Some d \<Rightarrow> n\<lparr>n_lladdr := Some (nl_addr_set_family (built_addr AF_UNSPEC d)
         (nl_addr_guess_family (built_addr AF_UNSPEC d)))\<rparr>);
       n = (case ni_dst ni of None \<Rightarrow> n | Some d \<Rightarrow> n\<lparr>n_dst := Some (built_addr (ucast (ni_family ni)) d)\<rparr>);
       n = (case ni_cacheinfo ni of None \<Rightarrow> n | Some c \<Rightarrow> n\<lparr>n_cacheinfo := c\<rparr>)
       in case ni_probes ni of None \<Rightarrow> n | Some x \<Rightarrow> n\<lparr>n_probes := x\<rparr>)"
    by (cases "ni_lladdr ni"; cases "ni_dst ni"; cases "ni_cacheinfo ni"; cases "ni_probes ni"; simp add: info_neigh_def guessed_def neigh_init_data_def)
  have "fill_neigh b 0 pp_cb ?a (one_more ?a h (?a + 1) 0 neigh_init_data 0) = pp_cb ?a (parsed ty ni h)"
    unfolding fin [symmetric] fill_neigh_def nlmsg_data_def
    using p(3) neigh_msg_fields [OF b(1)]
    by (simp add: filled Let_def info_mask_def or.assoc p(2) [folded T_def] o neigh_set_one_more parse_addr_one_more [OF tb(1) sh(1) g] parse_addr_one_more [OF tb(2) sh(2) g]
        parse_cacheinfo_one_more [OF tb(3)] parse_probes_one_more [OF tb(4)])
  then show "neigh_msg_parser b 0 pp_cb h = do {
      (err, h') \<leftarrow> pp_cb (h_next h) (parsed ty ni h);
      h' \<leftarrow> rtnl_neigh_put (Some (h_next h)) h';
      Some (err, h')
    }" by (simp add: neigh_msg_parser_def al)
  show "nlmsg_valid_hdr b 0 12 = Some True" "ld16 b 4 = Some ty" by (rule p(1), rule p(3))
qed

section \<open>An event updates the cache\<close>

lemma wf_built: "length d < 65532 \<Longrightarrow> wf_addr (built_addr f d)" "length d < 65532 \<Longrightarrow> addr_bytes (built_addr f d) = d"
  by (simp_all add: wf_addr_def built_addr_def addr_bytes_def unat_of_nat)

lemma wf_guessed: "length d < 65532 \<Longrightarrow> wf_addr (guessed (built_addr f d))"
  using wf_built(1) [of d f] by (simp add: wf_addr_def guessed_def nl_addr_set_family_def)

lemma info_obj_good:
  assumes "info_ok ni" and "ni_dst ni = Some d"
  shows "neigh_good (ce_mask (info_obj ty ni)) (ce_data (info_obj ty ni))" "neigh_free_data (info_neigh ni)"
    "neigh_key (info_neigh ni) = (ni_ifindex ni, ucast (ni_family ni), ucast (ni_family ni), d)"
proof -
  have s: "length d < 65532" "\<And>l. ni_lladdr ni = Some l \<Longrightarrow> length l < 65532"
    using assms by (auto simp: info_ok_def short_def)
  have dst: "n_dst (info_neigh ni) = Some (built_addr (ucast (ni_family ni)) d)"
    "n_lladdr (info_neigh ni) = map_option (\<lambda>d. guessed (built_addr AF_UNSPEC d)) (ni_lladdr ni)"
    "\<not> n_borrowed (info_neigh ni)" "n_ifindex (info_neigh ni) = ni_ifindex ni" "n_family (info_neigh ni) = ucast (ni_family ni)"
    using assms(2) by (simp_all add: info_neigh_def neigh_init_data_def)
  have "info_mask ni AND NEIGH_ID = NEIGH_ID"
    using assms(2) by (cases "ni_lladdr ni"; cases "ni_cacheinfo ni"; cases "ni_probes ni"; simp add: info_mask_def if_some_def neigh_attr_defs NEIGH_ID_def)
  moreover have "info_mask ni AND NEIGH_ATTR_LLADDR \<noteq> 0 \<longrightarrow> ni_lladdr ni \<noteq> None"
    using assms(2) by (cases "ni_lladdr ni"; cases "ni_cacheinfo ni"; cases "ni_probes ni"; simp add: info_mask_def if_some_def neigh_attr_defs)
  ultimately show "neigh_good (ce_mask (info_obj ty ni)) (ce_data (info_obj ty ni))"
    using dst s wf_built(1) wf_guessed by (auto simp: neigh_good_def info_obj_def)
  show "neigh_free_data (info_neigh ni)"
    using dst by (auto simp: neigh_free_data_def nl_addr_put_def addr_destroy_def guessed_def nl_addr_set_family_def built_addr_def split: option.splits)
  show "neigh_key (info_neigh ni) = (ni_ifindex ni, ucast (ni_family ni), ucast (ni_family ni), d)"
    using dst wf_built(2) [OF s(1)] by (simp add: neigh_key_def built_addr_def)
qed

text \<open>The action of an event's type.\<close>

definition event_act :: "u16 \<Rightarrow> i32" where
  "event_act ty = (if ty = 28 then NL_ACT_NEW else if ty = 29 then NL_ACT_DEL else NL_ACT_GET)"

lemma neigh_event:
  assumes ok: "info_ok ni" "ni_dst ni = Some d" and b: "b = neigh_msg ty fl sq pid ni @ z" "length b < 2 ^ 30"
    and ty: "ty \<in> {28, 29, 30}" and g: "\<forall>x. h_grants h x" "h_objs h (h_next h) = None"
    and h: "refs_ok neigh_obj_ops h rc" "\<forall>x. rc x + 2 < 2 ^ 30" "keyed neigh_good neigh_key c h"
    and spec: "include_spec (event_act ty) (neigh_key (info_neigh ni)) (info_mask ni, info_neigh ni) neigh_differ (view neigh_key c h) = (m, report)"
    and cb: "cb = (\<lambda>obj. nl_cache_include neigh_obj_ops (co_msgtypes rtnl_neigh_ops) c obj (Some (recorder f)))"
  shows "\<exists>h'. nl_cache_parse rtnl_neigh_ops b 0 cb h = Some (0, h') \<and> refs_ok neigh_obj_ops h' rc
    \<and> keyed neigh_good neigh_key c h' \<and> view neigh_key c h' = m"
proof -
  let ?a = "h_next h" and ?o = "info_obj ty ni"
  note p = neigh_msg_parser_msg [OF ok(1) b g(1)]
  have o: "ce_refcnt ?o = 1" "ce_cache ?o = None" "\<not> ce_linked ?o" by (simp_all add: info_obj_def)
  have good: "neigh_good (ce_mask ?o) (ce_data ?o)" "oo_free_data neigh_obj_ops (ce_data ?o)"
    using info_obj_good(1,2) [OF ok] by (simp_all add: neigh_obj_ops_def) (simp add: info_obj_def)
  have s: "include_spec (event_act ty) (neigh_key (ce_data ?o)) (ce_mask ?o, ce_data ?o) neigh_differ (view neigh_key c h) = (m, report)"
    using spec by (simp add: info_obj_def)
  obtain h1 h2 where h2: "cache_include neigh_obj_ops c ?a (event_act ty) (Some (recorder f)) (parsed ty ni h) = Some (0, h1)"
      "nl_object_put neigh_obj_ops (Some ?a) h1 = Some h2" "refs_ok neigh_obj_ops h2 rc" "keyed neigh_good neigh_key c h2" "view neigh_key c h2 = m"
    using ngh.include_fresh [OF h g(2) o good s] unfolding parsed_def by blast
  have t: "nl_msgtype_lookup (co_msgtypes rtnl_neigh_ops) (ucast ty)
      = Some (Some (co_msgtypes rtnl_neigh_ops ! (unat ty - 28)))" "mt_act (co_msgtypes rtnl_neigh_ops ! (unat ty - 28)) = event_act ty"
    using ty by (auto simp: rtnl_neigh_ops_def RTM_NEWNEIGH_def RTM_DELNEIGH_def RTM_GETNEIGH_def event_act_def)
  have inc: "cb ?a (parsed ty ni h) = Some (0, h1)"
    using t h2(1) by (simp add: cb nl_cache_include_def) (simp add: parsed_def info_obj_def)
  have types: "parse_types (co_msgtypes rtnl_neigh_ops) (ucast ty) q h = Some (0, h2)" if "q h = Some (0, h2)" for q
    using that ty by (auto simp: rtnl_neigh_ops_def RTM_NEWNEIGH_def RTM_DELNEIGH_def RTM_GETNEIGH_def NLE_OPNOTSUPP_def)
  have ops: "co_hdrsize rtnl_neigh_ops = 12" "co_msg_parser rtnl_neigh_ops = Some neigh_msg_parser" by (simp_all add: rtnl_neigh_ops_def)
  have "neigh_msg_parser b 0 cb h = Some (0, h2)" using p(1) inc h2(2) by (simp add: rtnl_neigh_put_def)
  then have "nl_cache_parse rtnl_neigh_ops b 0 cb h = Some (0, h2)"
    using p(2,3) types by (simp add: nl_cache_parse_def ops)
  then show ?thesis using h2(3-5) by blast
qed

section \<open>Events of a manager\<close>

lemma neigh_msg_length: "length (neigh_msg ty fl sq pid ni) = 28 + length (enc_attrs (info_attrs ni))"
  by (simp add: neigh_msg_def info_hdr_def ndmsg_def)

lemma neigh_msg_whole:
  assumes "info_ok ni"
  shows "whole_msg (neigh_msg ty fl sq pid ni)" "ld16 (neigh_msg ty fl sq pid ni) 4 = Some ty" "ld16 (neigh_msg ty fl sq pid ni) 6 = Some fl"
    "ld32 (neigh_msg ty fl sq pid ni) 8 = Some sq"
proof -
  show "whole_msg (neigh_msg ty fl sq pid ni)"
    using info_attrs_ok(3) [OF assms, of ty fl sq pid] unfolding whole_msg_def neigh_msg_length
    by (simp add: neigh_msg_def msg_at_def ld32_def dvd_add del: of_nat_add)
  show "ld16 (neigh_msg ty fl sq pid ni) 4 = Some ty" "ld16 (neigh_msg ty fl sq pid ni) 6 = Some fl" "ld32 (neigh_msg ty fl sq pid ni) 8 = Some sq"
    by (simp_all add: neigh_msg_def msg_at_def nlh_fields_def ld16_def ld32_def)
qed

text \<open>The manager keeps a cache of neighbours in association \<open>j\<close>, the first one that takes messages of this type.\<close>

definition keeps_neighbours ::
  "rtnl_neigh objects \<Rightarrow> (rtnl_neigh, 'u) mngr_state_scheme \<Rightarrow> addr \<Rightarrow> addr \<Rightarrow> u16 \<Rightarrow> (unit \<Rightarrow> i32 \<times> u32 \<times> rtnl_neigh \<Rightarrow> unit) \<Rightarrow> bool" where
  "keeps_neighbours objects u a c ty f \<longleftrightarrow>
    (\<exists>m cas j c_ops nx mj. mngrs u a = Some m \<and> wf_mngr m \<and> cm_assocs m = Some cas \<and> cm_protocol m = NETLINK_ROUTE
      \<and> j < length cas \<and> ca_cache (cas ! j) = Some (c, c_ops) \<and> ca_change (cas ! j) = Some (recorder f)
      \<and> ops_at (reg u) c_ops = Some (rtnl_neigh_ops\<lparr>co_next := nx, co_major_cache := mj\<rparr>) \<and> objects 1 = Some neigh_obj_ops
      \<and> (\<forall>k < j. handles (ucast ty) (reg u) (cas ! k) = Some False))"

lemma event_input_neigh:
  assumes k: "keeps_neighbours objects u a c ty f" and ok: "info_ok ni" "ni_dst ni = Some d"
    and msg: "nm_nlh msg = neigh_msg ty fl sq pid ni" "nm_protocol msg = NETLINK_ROUTE"
    and ty: "ty \<in> {28, 29, 30}" and g: "\<forall>x. h_grants (lib u) x" "h_objs (lib u) (h_next (lib u)) = None"
    and h: "refs_ok neigh_obj_ops (lib u) rc" "\<forall>x. rc x + 2 < 2 ^ 30" "keyed neigh_good neigh_key c (lib u)"
    and spec: "include_spec (event_act ty) (neigh_key (info_neigh ni)) (info_mask ni, info_neigh ni) neigh_differ (view neigh_key c (lib u)) = (m, report)"
  shows "\<exists>h'. event_input objects msg a u = Some (0, u\<lparr>lib := h'\<rparr>) \<and> refs_ok neigh_obj_ops h' rc
    \<and> keyed neigh_good neigh_key c h' \<and> view neigh_key c h' = m"
proof -
  obtain mn cas j c_ops nx mj where mn: "mngrs u a = Some mn" "wf_mngr mn" "cm_assocs mn = Some cas" "cm_protocol mn = NETLINK_ROUTE"
      "j < length cas" "ca_cache (cas ! j) = Some (c, c_ops)" "ca_change (cas ! j) = Some (recorder f)"
      "ops_at (reg u) c_ops = Some (rtnl_neigh_ops\<lparr>co_next := nx, co_major_cache := mj\<rparr>)" "objects 1 = Some neigh_obj_ops"
      "\<forall>k < j. handles (ucast ty) (reg u) (cas ! k) = Some False"
    using k by (auto simp: keeps_neighbours_def)
  let ?ops = "rtnl_neigh_ops\<lparr>co_next := nx, co_major_cache := mj\<rparr>"
  let ?cb = "\<lambda>obj. nl_cache_include neigh_obj_ops (co_msgtypes rtnl_neigh_ops) c obj (Some (recorder f))"
  have b: "nm_nlh msg = neigh_msg ty fl sq pid ni @ []" "length (nm_nlh msg) < 2 ^ 30"
    using msg(1) info_attrs_ok(3) [OF ok(1)] by simp_all
  obtain h' where h': "nl_cache_parse rtnl_neigh_ops (nm_nlh msg) 0 ?cb (lib u) = Some (0, h')" "refs_ok neigh_obj_ops h' rc"
      "keyed neigh_good neigh_key c h'" "view neigh_key c h' = m"
    using neigh_event [OF ok b ty g h spec refl] by blast
  have o: "co_hdrsize ?ops = co_hdrsize rtnl_neigh_ops" "co_msgtypes ?ops = co_msgtypes rtnl_neigh_ops"
      "co_msg_parser ?ops = co_msg_parser rtnl_neigh_ops" "include_cb neigh_obj_ops ?ops c (Some (recorder f)) = ?cb"
    by (simp_all add: fun_eq_iff include_cb_def)
  have parse: "nl_cache_parse ?ops (nm_nlh msg) 0 (include_cb neigh_obj_ops ?ops c (Some (recorder f))) (lib u) = Some (0, h')"
    using h'(1) unfolding nl_cache_parse_def o .
  have "handles (ucast ty) (reg u) (cas ! j) = Some True"
    using mn(6,8) ty by (auto simp: handles_def rtnl_neigh_ops_def RTM_NEWNEIGH_def RTM_DELNEIGH_def RTM_GETNEIGH_def)
  then have found: "scan_all (handles (ucast ty) (reg u)) mn = Some (Some j)"
    unfolding scan_all_def mn(3) wf_mngr_size [OF mn(2,3)] by (intro scan_first) (use mn(5,10) in auto)
  have "obj_ops_of objects (reg u) c_ops = Some (?ops, neigh_obj_ops)" using mn(8,9) by (simp add: obj_ops_of_def) (simp add: rtnl_neigh_ops_def)
  moreover have "assoc_at (cm_assocs mn) j = Some (cas ! j)" using mn(3,5) by (simp add: assoc_at_def)
  ultimately have "event_input objects msg a u = Some (0, u\<lparr>lib := h'\<rparr>)"
    using mn(1,4,6,7) msg neigh_msg_whole(2) [OF ok(1)] found parse
    by (simp add: event_input_def nlmsg_get_proto_def nlmsg_hdr_def)
  then show ?thesis using h'(2-4) by blast
qed

text \<open>A message on a socket without sequence checks, whose callback for valid messages is the only other one.\<close>

definition event_cb :: "'u nl_cb \<Rightarrow> bool" where
  "event_cb cb \<longleftrightarrow> cb_set cb NL_CB_MSG_IN = None \<and> cb_set cb NL_CB_SEQ_CHECK = Some noop_seq_check \<and> cb_set cb NL_CB_SEND_ACK = None"

lemma recv_msg_event:
  assumes m: "whole_msg m" and fields: "ld16 m 4 = Some ty" "ld16 m 6 = Some fl" "ld32 m 8 = Some sq"
    and fl: "fl AND NLM_F_ACK = 0" "fl AND NLM_F_MULTI = 0" and ty: "ty \<notin> {NLMSG_NOOP, NLMSG_ERROR, NLMSG_DONE, NLMSG_OVERRUN}"
    and cb: "event_cb cb" "cb_set cb NL_CB_VALID = Some f" and ok: "sys_alloc2 sys (rx_proc s) = ((True, True), p)"
    and f: "f (rcvd_msg m (rx_sk s) nla) (cb_args cb NL_CB_VALID) (rx_user s) = Some (NL_OK, u)"
  shows "recv_msg sys cb m 0 nla None s = Some (None, s\<lparr>rx_proc := p, rx_user := u\<rparr>)"
proof -
  have "m = [] @ m @ []" by simp
  then have "nlmsg_convert True True m 0 = Some (Some ((fresh_msg (word_of_nat (length m)))\<lparr>nm_nlh := m\<rparr>))"
    using nlmsg_convert_at [OF m] by (metis list.size(3))
  then show ?thesis
    using fields fl ty cb ok f
    by (auto simp: recv_msg_def and_then_def if_set_def proceed_def seq_check_def account_msg_def send_ack_def event_cb_def
        rcvd_msg_def nlmsg_set_src_def nlmsg_set_proto_def Let_def dispatch_msg_def NL_CB_CALL_def nl_cb_call_def noop_seq_check_def)
qed

lemma listening_event_cb:
  assumes "s_cb sk = silent_cb"
  shows "event_cb (s_cb (listening objects a sk))" "cb_set (s_cb (listening objects a sk)) NL_CB_VALID = Some (event_input objects)"
    "cb_args (s_cb (listening objects a sk)) NL_CB_VALID = a"
  using assms by (simp_all add: listening_def event_cb_def nl_socket_disable_seq_check_def nl_socket_modify_cb_def nl_cb_set_def silent_cb_def)

text \<open>
  Claim C10.  An event keeps the cache of neighbours up to date: when a manager that has such a cache receives a message of
  the kernel about a neighbour, one round of its loop returns 1, and the cache, as a map from interface, family and
  destination to neighbours, is what the specification of an include with the action of the message says: the neighbour is
  added, replaced or removed.  The object that the parser has made is given back, and all reference counts stay exact.
\<close>

theorem neigh_event_refines_map:
  fixes u :: "(rtnl_neigh, 'u) mngr_state_scheme" and sk sk0 :: "(rtnl_neigh, 'u) mngr_state_scheme nl_sock"
  assumes k: "keeps_neighbours objects u a c ty f" and ok: "info_ok ni" "ni_dst ni = Some d"
    and sk: "s_cb sk = s_cb (listening objects a sk0)" "s_cb sk0 = silent_cb" "s_flags sk = NL_SOCK_BUFSIZE_SET" "s_proto sk = NETLINK_ROUTE"
    and rcv: "sys_recvmsg sys (s_fd sk) (sys_pagesize sys) 0 False (kern p) = (Inr (datagram (neigh_msg ty 0 sq pid ni) nla), k1)"
      "length (neigh_msg ty 0 sq pid ni) \<le> unat (sys_pagesize sys)" "sys_alloc2 sys (p\<lparr>kern := k1\<rparr>) = ((True, True), p1)"
    and ty: "ty \<in> {28, 29, 30}" and g: "\<forall>x. h_grants (lib u) x" "h_objs (lib u) (h_next (lib u)) = None"
    and h: "refs_ok neigh_obj_ops (lib u) rc" "\<forall>x. rc x + 2 < 2 ^ 30" "keyed neigh_good neigh_key c (lib u)"
    and spec: "include_spec (event_act ty) (neigh_key (info_neigh ni)) (info_mask ni, info_neigh ni) neigh_differ (view neigh_key c (lib u)) = (m, report)"
  shows "\<exists>h'. nl_cache_mngr_data_ready sys sk u p = Some (1, sk, u\<lparr>lib := h'\<rparr>, p1) \<and> refs_ok neigh_obj_ops h' rc
    \<and> keyed neigh_good neigh_key c h' \<and> view neigh_key c h' = m"
proof -
  let ?d = "neigh_msg ty 0 sq pid ni"
  note w = neigh_msg_whole [OF ok(1), of ty 0 sq pid]
  note cb = listening_event_cb [OF sk(2), of objects a, folded sk(1)]
  have msg: "nm_nlh (rcvd_msg ?d sk nla) = ?d" "nm_protocol (rcvd_msg ?d sk nla) = NETLINK_ROUTE" by (simp_all add: rcvd_msg_def sk(4))
  obtain h' where h': "event_input objects (rcvd_msg ?d sk nla) a u = Some (0, u\<lparr>lib := h'\<rparr>)" "refs_ok neigh_obj_ops h' rc"
      "keyed neigh_good neigh_key c h'" "view neigh_key c h' = m"
    using event_input_neigh [OF k ok msg ty g h spec] by blast
  have nty: "ty \<notin> {NLMSG_NOOP, NLMSG_ERROR, NLMSG_DONE, NLMSG_OVERRUN}" using ty by (auto simp: nlmsg_type_defs)
  have fl: "s_flags sk AND NL_SOCK_PASSCRED = 0" "s_flags sk AND NL_MSG_PEEK = 0" by (simp_all add: sk(3) nl_flag_defs)
  let ?s = "\<lparr>rx_sk = sk, rx_multipart = False, rx_user = u, rx_proc = p\<lparr>kern := k1\<rparr>\<rparr>"
  have rm: "recv_msg sys (s_cb sk) ?d 0 nla None ?s = Some (None, ?s\<lparr>rx_proc := p1, rx_user := u\<lparr>lib := h'\<rparr>\<rparr>)"
    by (rule recv_msg_event [OF w _ _ nty cb(1,2)]) (use rcv(3) h'(1) cb(3) in \<open>simp_all add: NL_OK_def\<close>)
  have "recvmsgs sys sk (s_cb sk) u p = Some (0, sk, u\<lparr>lib := h'\<rparr>, p1)"
    using recvmsgs_one [OF rcv(1) w(1) rcv(2) fl rm] by simp
  then show ?thesis
    using h'(2-4) by (auto simp: nl_cache_mngr_data_ready_def nl_recvmsgs_default_def nl_recvmsgs_def)
qed

section \<open>Requests\<close>

text \<open>What a request says about the neighbour it is made of: the flags are not sent.\<close>

definition request_info :: "u32 \<Rightarrow> rtnl_neigh \<Rightarrow> neigh_info" where
  "request_info msk n = \<lparr>ni_family = ucast (a_family (the (n_dst n))), ni_ifindex = n_ifindex n,
     ni_state = (if msk AND NEIGH_ATTR_STATE \<noteq> 0 then n_state n else NUD_PERMANENT), ni_flags = 0, ni_type = 0,
     ni_dst = map_option addr_bytes (n_dst n),
     ni_lladdr = (if msk AND NEIGH_ATTR_LLADDR \<noteq> 0 then map_option addr_bytes (n_lladdr n) else None),
     ni_cacheinfo = None, ni_probes = None\<rparr>"

lemma nlmsg_append_12:
  assumes "nm_nlh n = msg_at 16 (w @ replicate (unat sz - 16) 0)" "length w = 12" "nm_size n = sz" "28 \<le> unat sz" "unat sz < 2 ^ 30" "length hdr = 12"
  shows "nlmsg_append n hdr 12 4 = Some (0, n\<lparr>nm_nlh := msg_at 28 (w @ hdr @ replicate (unat sz - 28) 0)\<rparr>)"
proof -
  have t: "(12 + scast (4 - 1 :: i32)) AND scast (NOT (4 - 1 :: i32)) = (12 :: u64)" by code_simp
  have "28 \<le> sz" using assms(4) by (simp add: word_le_nat_alt)
  then have le: "\<not> 12 + ucast (16 :: u32) > sz" by (simp add: not_less)
  have r: "replicate (unat sz - 16) (0 :: u8) = replicate 12 0 @ replicate (unat sz - 28) 0"
    using assms(4) by (simp flip: replicate_add)
  have st: "st32 0 28 (nm_nlh n) = Some (msg_at 28 (w @ replicate 12 0 @ replicate (unat sz - 28) 0))"
    unfolding assms(1) r by (simp add: st32_def blit_def msg_at_def)
  have bl: "blit 16 hdr (msg_at 28 (w @ replicate 12 0 @ replicate (unat sz - 28) 0)) = Some (msg_at 28 (w @ hdr @ replicate (unat sz - 28) 0))"
    using assms(2,6) by (simp add: blit_def msg_at_def)
  have ld: "ld32 (nm_nlh n) 0 = Some 16" by (simp add: assms(1))
  have "nlmsg_reserve n 12 4 = Some (Some 16, n\<lparr>nm_nlh := msg_at 28 (w @ replicate 12 0 @ replicate (unat sz - 28) 0)\<rparr>)"
    unfolding nlmsg_reserve_def using ld le st by (simp add: t assms(3))
  then show ?thesis using bl assms(6) by (simp add: nlmsg_append_def take_exact_def)
qed

lemma put_addr_bytes:
  assumes "wf_addr a"
  shows "nla_put_addr msg t a = nla_put msg t (word_of_nat (length (addr_bytes a))) (addr_bytes a)"
proof -
  have "word_of_nat (length (addr_bytes a)) = a_len a" using length_addr_bytes [OF assms] by simp
  moreover have "unat (a_len a) \<le> length (a_addr a)" using assms by (simp add: wf_addr_def word_le_nat_alt)
  ultimately show ?thesis
    using nla_put_prefix [of "a_len a" "a_addr a" msg t]
    by (simp add: nla_put_addr_def nl_addr_get_len_def nl_addr_get_binary_addr_def addr_bytes_def)
qed

text \<open>A template that a request can be made of.\<close>

definition sendable :: "u64 \<Rightarrow> u32 \<Rightarrow> rtnl_neigh \<Rightarrow> bool" where
  "sendable sz msk n \<longleftrightarrow> neigh_good msk n \<and> info_ok (request_info msk n) \<and> unat sz < 2 ^ 30
     \<and> 2 * (28 + length (enc_attrs (info_attrs (request_info msk n)))) \<le> unat sz"

lemma build_neigh_msg_bytes:
  assumes ok: "sendable sz (ce_mask tmpl) (ce_data tmpl)"
  shows "\<exists>z. build_neigh_msg True True sz tmpl cmd flags = Some (0, Some ((fresh_msg sz)\<lparr>nm_nlh :=
     neigh_msg (ucast cmd) (ucast flags) 0 0 (request_info (ce_mask tmpl) (ce_data tmpl)) @ z\<rparr>))
    \<and> 28 + length (enc_attrs (info_attrs (request_info (ce_mask tmpl) (ce_data tmpl)))) + length z = unat sz"
proof -
  let ?msk = "ce_mask tmpl" and ?n = "ce_data tmpl"
  define ni where "ni = request_info ?msk ?n"
  define L where "L = length (enc_attrs (info_attrs ni))"
  have sz: "unat sz < 2 ^ 30" "2 * (28 + L) \<le> unat sz" and io: "info_ok ni" and good: "neigh_good ?msk ?n"
    using ok by (simp_all add: sendable_def ni_def L_def)
  obtain dst where dst: "n_dst ?n = Some dst" "wf_addr dst" using good by (auto simp: neigh_good_def)
  have hasd: "?msk AND NEIGH_ATTR_DST \<noteq> 0"
    using good id_bits(2) [of ?msk] by (simp add: neigh_good_def NEIGH_ATTR_DST_def)
  have hdr: "ndmsg (ucast (nl_addr_get_family dst)) (n_ifindex ?n) (if ?msk AND NEIGH_ATTR_STATE \<noteq> 0 then n_state ?n else NUD_PERMANENT) 0 0
      = info_hdr ni"
    using dst(1) by (simp add: info_hdr_def ni_def request_info_def nl_addr_get_family_def)
  have hl: "length (info_hdr ni) = 12" by (simp add: info_hdr_def ndmsg_def)
  let ?w = "nlh_fields (ucast cmd) (ucast flags) 0 0"
  define m0 where "m0 = (fresh_msg sz)\<lparr>nm_nlh := msg_at 16 (?w @ replicate (unat sz - 16) 0)\<rparr>"
  define m1 where "m1 = (fresh_msg sz)\<lparr>nm_nlh := msg_at 28 ((?w @ info_hdr ni) @ replicate (unat sz - 28) 0)\<rparr>"
  have al: "nlmsg_alloc_simple True True sz cmd flags = Some (Some m0)"
    unfolding m0_def by (rule nlmsg_alloc_simple_fresh) (use sz in simp)
  have ap: "nlmsg_append m0 (info_hdr ni) 12 4 = Some (0, m1)"
    using nlmsg_append_12 [of m0 ?w sz "info_hdr ni"] sz hl by (simp add: m0_def m1_def fresh_msg_def)
  define m2 where "m2 = m1\<lparr>nm_nlh := msg_at (28 + L) ((?w @ info_hdr ni) @ enc_attrs (info_attrs ni) @ drop L (replicate (unat sz - 28) 0))\<rparr>"
  have "nla_puts m1 (info_attrs ni) = Some (0, m1\<lparr>nm_nlh := msg_at (4 + length (?w @ info_hdr ni) + length (enc_attrs (info_attrs ni)))
      ((?w @ info_hdr ni) @ enc_attrs (info_attrs ni) @ drop (length (enc_attrs (info_attrs ni))) (replicate (unat sz - 28) 0))\<rparr>)"
    by (rule nla_puts_fits) (use sz hl info_attrs_ok(1) [OF io] in \<open>simp_all add: m1_def fresh_msg_def L_def\<close>)
  then have puts: "nla_puts m1 (info_attrs ni) = Some (0, m2)" using hl by (simp add: m2_def L_def)
  have m2: "m2 = (fresh_msg sz)\<lparr>nm_nlh := neigh_msg (ucast cmd) (ucast flags) 0 0 ni @ drop L (replicate (unat sz - 28) 0)\<rparr>"
    by (simp add: m2_def m1_def neigh_msg_def L_def msg_at_def)
  have "build_neigh_msg True True sz tmpl cmd flags = Some (0, Some m2)"
  proof (cases "?msk AND NEIGH_ATTR_LLADDR = 0")
    case True
    have "info_attrs ni = [(1, addr_bytes dst)]" using True dst(1) by (simp add: info_attrs_def ni_def request_info_def opt_attr_def)
    then show ?thesis
      using hasd dst True hdr al ap puts put_addr_bytes [OF dst(2)]
      by (auto simp: build_neigh_msg_def NDA_DST_def bind_eq_Some_conv split: if_splits)
  next
    case False
    then obtain ll where ll: "n_lladdr ?n = Some ll" "wf_addr ll" using good by (auto simp: neigh_good_def)
    have "info_attrs ni = [(1, addr_bytes dst), (2, addr_bytes ll)]"
      using False dst(1) ll(1) by (simp add: info_attrs_def ni_def request_info_def opt_attr_def)
    then obtain e b e2 where "nla_put m1 1 (word_of_nat (length (addr_bytes dst))) (addr_bytes dst) = Some (e, b)" "\<not> is_neg e"
        "nla_put b 2 (word_of_nat (length (addr_bytes ll))) (addr_bytes ll) = Some (e2, m2)" "\<not> is_neg e2"
      using puts by (auto simp: bind_eq_Some_conv split: if_splits)
    then show ?thesis
      using hasd dst False hdr al ap ll(1) put_addr_bytes [OF dst(2)] put_addr_bytes [OF ll(2)]
      by (simp add: build_neigh_msg_def NDA_DST_def NDA_LLADDR_def)
  qed
  then show ?thesis
    unfolding m2 ni_def [symmetric] L_def [symmetric] using sz(2) by (intro exI [of _ "drop L (replicate (unat sz - 28) 0)"]) simp
qed

text \<open>
  Claim C37.  A request describes the neighbour it is made of: parsing the message that \<^verbatim>\<open>build_neigh_msg\<close> has built gives
  the callback an object on the same interface with an equal destination, the same state and the bytes of the same
  link-layer address; but the flags of the neighbour are not sent and come back as 0.
\<close>

theorem neigh_request_round_trip:
  assumes "sendable sz (ce_mask tmpl) (ce_data tmpl)" and "n_dst (ce_data tmpl) = Some dst" "unat (a_family dst) < 256"
    and "ni = request_info (ce_mask tmpl) (ce_data tmpl)" "\<forall>x. h_grants h x"
  shows "\<exists>msg dst'. build_neigh_msg True True sz tmpl cmd flags = Some (0, Some msg)
    \<and> neigh_msg_parser (nm_nlh msg) 0 pp_cb h = do {
        (err, h') \<leftarrow> pp_cb (h_next h) (parsed (ucast cmd) ni h);
        h' \<leftarrow> rtnl_neigh_put (Some (h_next h)) h';
        Some (err, h')
      }
    \<and> n_dst (info_neigh ni) = Some dst' \<and> nl_addr_cmp dst dst' = Some 0 \<and> n_ifindex (info_neigh ni) = n_ifindex (ce_data tmpl)
    \<and> (ce_mask tmpl AND NEIGH_ATTR_STATE \<noteq> 0 \<longrightarrow> n_state (info_neigh ni) = n_state (ce_data tmpl))
    \<and> (ce_mask tmpl AND NEIGH_ATTR_LLADDR \<noteq> 0 \<longrightarrow>
        map_option addr_bytes (n_lladdr (info_neigh ni)) = map_option addr_bytes (n_lladdr (ce_data tmpl)))
    \<and> n_flags (info_neigh ni) = 0"
proof -
  have io: "info_ok ni" and sz: "unat sz < 2 ^ 30" and good: "neigh_good (ce_mask tmpl) (ce_data tmpl)"
    using assms(1,4) by (simp_all add: sendable_def)
  obtain z where z: "build_neigh_msg True True sz tmpl cmd flags = Some (0, Some ((fresh_msg sz)\<lparr>nm_nlh :=
      neigh_msg (ucast cmd) (ucast flags) 0 0 ni @ z\<rparr>))" "28 + length (enc_attrs (info_attrs ni)) + length z = unat sz"
    using build_neigh_msg_bytes [OF assms(1), of cmd flags] unfolding assms(4) by blast
  have len: "length (neigh_msg (ucast cmd) (ucast flags) 0 0 ni @ z) < 2 ^ 30"
    using z(2) sz by (simp add: neigh_msg_def info_hdr_def ndmsg_def)
  note p = neigh_msg_parser_msg(1) [OF io refl len assms(5), of pp_cb]
  have wf: "wf_addr dst" using good assms(2) by (simp add: neigh_good_def)
  have fam: "(ucast (ucast (a_family dst) :: u8) :: u32) = a_family dst"
    using assms(3) by (intro word_unat_eq_iff [THEN iffD2]) (simp add: unsigned_ucast_eq unsigned_take_bit_eq take_bit_eq_mod unat_mod)
  have sd: "length (addr_bytes dst) < 65532" using io assms(2,4) by (simp add: info_ok_def short_def request_info_def)
  have d': "n_dst (info_neigh ni) = Some (built_addr (a_family dst) (addr_bytes dst))"
    using assms(2,4) fam by (simp add: info_neigh_def request_info_def)
  have "nl_addr_cmp dst (built_addr (a_family dst) (addr_bytes dst)) = Some 0"
    using nl_addr_cmp_bytes [OF wf wf_built(1) [OF sd, of "a_family dst"]] wf_built(2) [OF sd] by (auto simp: built_addr_def)
  moreover have "addr_bytes (guessed (built_addr AF_UNSPEC (addr_bytes l))) = addr_bytes l"
    if "n_lladdr (ce_data tmpl) = Some l" "ce_mask tmpl AND NEIGH_ATTR_LLADDR \<noteq> 0" for l
  proof -
    have "length (addr_bytes l) < 65532" using io assms(4) that by (simp add: info_ok_def short_def request_info_def)
    then show ?thesis using wf_built(2) [of "addr_bytes l" AF_UNSPEC] by (simp add: guessed_def nl_addr_set_family_def addr_bytes_def)
  qed
  then have "ce_mask tmpl AND NEIGH_ATTR_LLADDR \<noteq> 0 \<longrightarrow>
      map_option addr_bytes (n_lladdr (info_neigh ni)) = map_option addr_bytes (n_lladdr (ce_data tmpl))"
    using assms(4) by (cases "n_lladdr (ce_data tmpl)") (simp_all add: info_neigh_def request_info_def)
  ultimately show ?thesis
    using z(1) p d' assms(4) by (intro exI conjI) (simp_all, simp_all add: info_neigh_def request_info_def)
qed

section \<open>Copies\<close>

text \<open>The address of a copy, when there is memory for it.\<close>

definition addr_copy :: "nl_addr option \<Rightarrow> nl_addr option \<Rightarrow> bool" where
  "addr_copy x y \<longleftrightarrow> (case x of None \<Rightarrow> y = None | Some a \<Rightarrow> \<exists>c. y = Some c \<and> wf_addr c \<and> a_refcnt c = 1 \<and> nl_addr_cmp a c = Some 0)"

definition wf_opt :: "nl_addr option \<Rightarrow> bool" where
  "wf_opt x \<longleftrightarrow> (\<forall>a. x = Some a \<longrightarrow> wf_addr a)"

lemma neigh_clone_grants:
  assumes "wf_opt (n_lladdr n)" "wf_opt (n_dst n)" "\<forall>x. grants x"
  shows "\<exists>c k. neigh_clone n grants nxt = Some (0, c, k) \<and> addr_copy (n_lladdr n) (n_lladdr c) \<and> addr_copy (n_dst n) (n_dst c)
    \<and> c\<lparr>n_lladdr := n_lladdr n, n_dst := n_dst n, n_borrowed := n_borrowed n\<rparr> = n \<and> \<not> n_borrowed c"
proof -
  have c: "\<exists>c. nl_addr_clone True a = Some (Some c) \<and> wf_addr c \<and> a_refcnt c = 1 \<and> nl_addr_cmp a c = Some 0" if "wf_addr a" for a
    using nl_addr_clone_equal [OF that] by blast
  obtain l where l: "case n_lladdr n of None \<Rightarrow> l = None | Some a \<Rightarrow> nl_addr_clone True a = Some l" "addr_copy (n_lladdr n) l"
    using assms(1) c by (cases "n_lladdr n") (force simp: wf_opt_def addr_copy_def)+
  obtain d where d: "case n_dst n of None \<Rightarrow> d = None | Some a \<Rightarrow> nl_addr_clone True a = Some d" "addr_copy (n_dst n) d"
    using assms(2) c by (cases "n_dst n") (force simp: wf_opt_def addr_copy_def)+
  show ?thesis
    using l d assms(3) by (cases "n_lladdr n"; cases "n_dst n") (auto simp: neigh_clone_def addr_copy_def)
qed

lemma neigh_clone_fails:
  assumes "n_lladdr n = Some l" "wf_addr l" "n_dst n \<noteq> None" "\<not> grants nxt"
  shows "\<exists>c k. neigh_clone n grants nxt = Some (- NLE_NOMEM, c, k) \<and> n_dst c = n_dst n \<and> \<not> neigh_free_data c"
proof -
  have "nl_addr_clone False l = Some None" by (simp add: nl_addr_clone_def nl_addr_build_def nl_addr_alloc_def)
  then show ?thesis using assms by (simp add: neigh_clone_def neigh_free_data_def)
qed

section \<open>The type of a neighbour\<close>

lemma set_type_loses_destination:
  assumes "h_objs h a = Some ob"
  shows "\<exists>ob'. rtnl_neigh_set_type a type h = Some (set_obj a ob' h) \<and> n_dst (ce_data ob') = n_dst (ce_data ob)
    \<and> build_neigh_msg ok1 ok2 sz ob' cmd flags = Some (- NLE_MISSING_ATTR, None)"
  by (rule exI [of _ "ob\<lparr>ce_data := (ce_data ob)\<lparr>n_type := ucast type\<rparr>, ce_mask := NEIGH_ATTR_TYPE\<rparr>"])
    (use assms in \<open>simp add: rtnl_neigh_set_type_def build_neigh_msg_def NEIGH_ATTR_TYPE_def NEIGH_ATTR_DST_def\<close>)

end
