(* ===== verification/NL_Text.thy ===== *)
theory NL_Text
  imports NL_Msg C_Text
begin

text \<open>
  Names and numbers (\<^verbatim>\<open>lib/utils.c\<close>): tables and lists that translate numbers to names and back, sets of flags,
  sizes and durations; with the tables of \<^verbatim>\<open>lib/route/rtnl.c\<close> and \<^verbatim>\<open>lib/route/neigh.c\<close>.  A function that writes
  to a buffer returns the string in it; \<open>buf\<close> is what was there and \<open>len\<close> is its size.
\<close>

section \<open>Tables\<close>

type_synonym trans_tbl = "(i32 \<times> bytes) list"

definition type2str :: "i32 \<Rightarrow> bytes \<Rightarrow> nat \<Rightarrow> trans_tbl \<Rightarrow> bytes" where
  "type2str type buf len tbl =
     snprintf buf len (case find (\<lambda>e. fst e = type) tbl of Some e \<Rightarrow> snd e | None \<Rightarrow> str ''0x'' @ to_base 16 (unat type))"

definition str2number :: "bytes \<Rightarrow> i32" where
  "str2number buf =
    (case strtoul buf of
       None \<Rightarrow> - NLE_OBJ_NOTFOUND
     | Some (l, end) \<Rightarrow> if l = - 1 \<or> end \<noteq> [] then - NLE_OBJ_NOTFOUND else ucast l)"

definition str2type :: "bytes \<Rightarrow> trans_tbl \<Rightarrow> i32" where
  "str2type buf tbl =
    (if buf = [] then - NLE_INVAL
     else case find (\<lambda>e. strcasecmp0 (snd e) buf) tbl of Some e \<Rightarrow> fst e | None \<Rightarrow> str2number buf)"

text \<open>
  Lists: a name is \<^term>\<open>None\<close> if \<^verbatim>\<open>strdup\<close> has failed, which is not checked; reading it is a fault.  The elements
  of a cleared list are freed but stay linked, so the list is \<^term>\<open>None\<close>.
\<close>

type_synonym trans_list = "(i32 \<times> bytes option) list option"

definition trans_list_add :: "bool \<Rightarrow> bool \<Rightarrow> i32 \<Rightarrow> bytes \<Rightarrow> trans_list \<Rightarrow> (i32 \<times> trans_list) option" where
  "trans_list_add ok1 ok2 i a l =
    (if \<not> ok1 then Some (- NLE_NOMEM, l)
     else do { es \<leftarrow> l; Some (0, Some (es @ [(i, if ok2 then Some a else None)])) })"

definition trans_list_clear :: "trans_list \<Rightarrow> trans_list option" where
  "trans_list_clear l = do { es \<leftarrow> l; Some (if es = [] then Some [] else None) }"

primrec list_find :: "((i32 \<times> bytes option) \<Rightarrow> bool option) \<Rightarrow> (i32 \<times> bytes option) list \<Rightarrow> (i32 \<times> bytes option) option option" where
  "list_find test [] = Some None"
| "list_find test (e # es) = do { m \<leftarrow> test e; if m then Some (Some e) else list_find test es }"

definition list_type2str :: "i32 \<Rightarrow> bytes \<Rightarrow> nat \<Rightarrow> trans_list \<Rightarrow> bytes option" where
  "list_type2str type buf len l = do {
     es \<leftarrow> l;
     e \<leftarrow> list_find (\<lambda>e. Some (fst e = type)) es;
     (case e of
        Some (i, a) \<Rightarrow> map_option (snprintf buf len) a
      | None \<Rightarrow> Some (snprintf buf len (str ''0x'' @ to_base 16 (unat type))))
   }"

definition list_str2type :: "bytes \<Rightarrow> trans_list \<Rightarrow> i32 option" where
  "list_str2type buf l =
    (if buf = [] then Some (- NLE_INVAL)
     else do {
       es \<leftarrow> l;
       e \<leftarrow> list_find (\<lambda>(i, a). map_option (\<lambda>a. strcasecmp0 a buf) a) es;
       Some (case e of Some (i, a) \<Rightarrow> i | None \<Rightarrow> str2number buf)
     })"

text \<open>Sets of flags; a buffer without room for the NUL is a fault.\<close>

definition flags_step :: "i32 \<Rightarrow> nat \<Rightarrow> i32 \<times> bytes \<Rightarrow> i32 \<times> bytes \<Rightarrow> i32 \<times> bytes" where
  "flags_step flags len e st =
    (case st of (tmp, buf) \<Rightarrow>
       if fst e AND tmp = 0 then (tmp, buf)
       else
         (let tmp = tmp AND NOT (fst e);
              buf = strncat buf (snd e) (len - length buf - 1) in
          (tmp, if tmp AND flags \<noteq> 0 then strncat buf (str '','') (len - length buf - 1) else buf)))"

definition flags2str :: "i32 \<Rightarrow> nat \<Rightarrow> trans_tbl \<Rightarrow> bytes option" where
  "flags2str flags len tbl =
     (if len = 0 then None else Some (snd (fold (flags_step flags len) tbl (flags, []))))"

definition named_flags :: "trans_tbl \<Rightarrow> bytes \<Rightarrow> nat \<Rightarrow> i32 \<Rightarrow> i32" where
  "named_flags tbl p len flags = fold (\<lambda>e flags. if strncasecmp0 (snd e) p len then flags OR fst e else flags) tbl flags"

function str2flags_from :: "trans_tbl \<Rightarrow> bytes \<Rightarrow> i32 \<Rightarrow> i32" where
  "str2flags_from tbl p flags =
    (let p = (if p \<noteq> [] \<and> hd p = 32 then tl p else p);
         len = length (takeWhile (\<lambda>c. c \<noteq> 44) p);
         flags = named_flags tbl p len flags in
     if len = length p then flags else str2flags_from tbl (drop (len + 1) p) flags)"
  by pat_completeness auto

termination
  by (relation "measure (\<lambda>(tbl, p, flags). length p)") (auto simp: Let_def dest: le_neq_implies_less [OF length_takeWhile_le] split: if_splits)

declare str2flags_from.simps [simp del]

definition str2flags :: "bytes \<Rightarrow> trans_tbl \<Rightarrow> i32" where
  "str2flags buf tbl = str2flags_from tbl buf 0"

section \<open>Sizes and durations\<close>

text \<open>A \<^verbatim>\<open>long\<close> is a word of 64 bits; the products wrap around.\<close>

definition div8 :: "u64 \<Rightarrow> u64" where
  "div8 l = word_of_int (sgn (sint l) * (\<bar>sint l\<bar> div 8))"

definition nl_size2int :: "bytes \<Rightarrow> u64" where
  "nl_size2int s =
    (case strtol s of
       None \<Rightarrow> scast (- NLE_INVAL)
     | Some (l, p) \<Rightarrow>
        if p = [] then l
        else if strcasecmp0 p (str ''kb'') \<or> strcasecmp0 p (str ''k'') then l * 1024
        else if strcasecmp0 p (str ''gb'') \<or> strcasecmp0 p (str ''g'') then l * (1024 * 1024 * 1024)
        else if strcasecmp0 p (str ''gbit'') then l * (1024 * 1024 * 1024 div 8)
        else if strcasecmp0 p (str ''mb'') \<or> strcasecmp0 p (str ''m'') then l * (1024 * 1024)
        else if strcasecmp0 p (str ''mbit'') then l * (1024 * 1024 div 8)
        else if strcasecmp0 p (str ''kbit'') then l * (1024 div 8)
        else if strcasecmp0 p (str ''bit'') then div8 l
        else if strcasecmp0 p (str ''b'') then l
        else scast (- NLE_INVAL))"

text \<open>The number of milliseconds that a unit stands for, where \<open>p\<close> is the text at the unit and \<open>plen\<close> its length.\<close>

definition unit_msec :: "bytes \<Rightarrow> nat \<Rightarrow> u64 option" where
  "unit_msec p plen =
    (if plen = 0 then Some 1
     else if strncasecmp0 p (str ''sec'') plen then Some 1000
     else if strncasecmp0 p (str ''min'') plen then Some (1000 * 60)
     else if strncasecmp0 p (str ''hour'') plen then Some (1000 * 60 * 60)
     else if strncasecmp0 p (str ''day'') plen then Some (1000 * 60 * 60 * 24)
     else None)"

lemma number_base_shorter: "number_base s = (b, t) \<Longrightarrow> length t \<le> length s"
  by (auto simp: number_base_def split: if_splits)

lemma parse_unsigned_shorter: "parse_unsigned s = Some (n, rest) \<Longrightarrow> length rest < length s"
proof -
  assume p: "parse_unsigned s = Some (n, rest)"
  obtain b t where b: "number_base s = (b, t)" by force
  then have t: "t \<noteq> []" "digit_val (hd t) < b" "rest = dropWhile (\<lambda>c. digit_val c < b) t"
    using p by (auto simp: parse_unsigned_def split: if_splits)
  then have "length rest < length t" by (cases t) (auto simp: le_imp_less_Suc length_dropWhile_le)
  then show ?thesis using number_base_shorter [OF b] by simp
qed

lemma parse_number_shorter: "parse_number s = Some (neg, n, rest) \<Longrightarrow> length rest < length s"
proof -
  assume p: "parse_number s = Some (neg, n, rest)"
  define t where "t = dropWhile is_space s"
  have "length t \<le> length s" by (simp add: t_def length_dropWhile_le)
  moreover have "length rest < length t"
    using p parse_unsigned_shorter [of t n rest] parse_unsigned_shorter [of "tl t" n rest]
    by (auto simp: parse_number_def Let_def simp flip: t_def split: if_splits)
  ultimately show ?thesis by simp
qed

function str2msec_from :: "u64 \<Rightarrow> bytes \<Rightarrow> i32 + u64" where
  "str2msec_from acc s =
    (case strtoul s of
       None \<Rightarrow> Inl (- NLE_INVAL)
     | Some (l, p) \<Rightarrow>
        if p = [] then Inr (acc + l)
        else
          (let plen = length (takeWhile (\<lambda>c. c \<noteq> 32 \<and> c \<noteq> 9) p); s = drop plen p in
           case unit_msec p plen of
             None \<Rightarrow> Inl (- NLE_INVAL)
           | Some f \<Rightarrow> if s = [] then Inr (acc + l * f) else str2msec_from (acc + l * f) s))"
  by pat_completeness auto

termination
  by (relation "measure (\<lambda>(acc, s). length s)") (auto simp: strtoul_def dest: parse_number_shorter)

declare str2msec_from.simps [simp del]

definition nl_str2msec :: "bytes \<Rightarrow> i32 + u64" where
  "nl_str2msec s = str2msec_from 0 s"

text \<open>\<^verbatim>\<open>_SPLIT\<close>: the quotient is stored in an \<^verbatim>\<open>int\<close>.\<close>

definition split_off :: "u64 \<Rightarrow> u64 \<Rightarrow> i32 \<times> u64" where
  "split_off unit msec =
    (let q = ucast (msec div unit) :: i32 in (q, if 0 < sint q then msec mod unit else msec))"

definition split_msec :: "u64 \<Rightarrow> i32 list" where
  "split_msec msec =
    (let (d, msec) = split_off 86400000 msec;
         (h, msec) = split_off 3600000 msec;
         (m, msec) = split_off 60000 msec;
         (s, msec) = split_off 1000 msec in
     [d, h, m, s, ucast msec])"

definition msec_step :: "nat \<Rightarrow> i32 \<times> bytes \<Rightarrow> bytes \<Rightarrow> bytes" where
  "msec_step len e buf =
    (if 0 < sint (fst e)
     then strncat buf (snprintf [] 64 ((if buf = [] then [] else str '' '') @ to_base 10 (nat (sint (fst e))) @ snd e)) (len - length buf - 1)
     else buf)"

definition nl_msec2str :: "u64 \<Rightarrow> nat \<Rightarrow> bytes option" where
  "nl_msec2str msec len =
    (if len = 0 then None
     else Some (fold (msec_step len) (zip (split_msec msec) (map str [''d'', ''h'', ''m'', ''s'', ''msec''])) []))"

section \<open>The tables of the library\<close>

definition nlfamilies :: trans_tbl where
  "nlfamilies = map (\<lambda>(i, a). (i, str a))
    [(0, ''route''), (2, ''usersock''), (3, ''firewall''), (4, ''inetdiag''), (5, ''nflog''), (6, ''xfrm''),
     (7, ''selinux''), (8, ''iscsi''), (9, ''audit''), (10, ''fib_lookup''), (11, ''connector''),
     (12, ''netfilter''), (13, ''ip6_fw''), (14, ''dnrtmsg''), (15, ''kobject_uevent''), (16, ''generic''),
     (18, ''scsitransport''), (19, ''ecryptfs'')]"

definition llprotos :: trans_tbl where
  "llprotos = map (\<lambda>(i, a). (i, str a))
    [(0, ''generic''), (1, ''ether''), (2, ''eether''), (3, ''ax25''), (4, ''pronet''), (5, ''chaos''),
     (6, ''ieee802''), (7, ''arcnet''), (8, ''atalk''), (15, ''dlci''), (19, ''atm''), (23, ''metricom''),
     (24, ''ieee1394''), (27, ''eui64''), (32, ''infiniband''), (256, ''slip''), (257, ''cslip''),
     (258, ''slip6''), (259, ''cslip6''), (260, ''rsrvd''), (264, ''adapt''), (270, ''rose''), (271, ''x25''),
     (272, ''hwx25''), (280, ''can''), (512, ''ppp''), (513, ''hdlc''), (516, ''lapb''), (517, ''ddcmp''),
     (518, ''rawhdlc''), (768, ''ipip''), (769, ''tunnel6''), (770, ''frad''), (771, ''skip''),
     (772, ''loopback''), (773, ''localtlk''), (774, ''fddi''), (775, ''bif''), (776, ''sit''),
     (777, ''ip/ddp''), (778, ''gre''), (779, ''pimreg''), (780, ''hippi''), (781, ''ash''), (782, ''econet''),
     (783, ''irda''), (784, ''fcpp''), (785, ''fcal''), (786, ''fcpl''), (787, ''fcfb_0''), (788, ''fcfb_1''),
     (789, ''fcfb_2''), (790, ''fcfb_3''), (791, ''fcfb_4''), (792, ''fcfb_5''), (793, ''fcfb_6''),
     (794, ''fcfb_7''), (795, ''fcfb_8''), (796, ''fcfb_9''), (797, ''fcfb_10''), (798, ''fcfb_11''),
     (799, ''fcfb_12''), (800, ''tr''), (801, ''ieee802.11''), (820, ''phonet''), (822, ''caif''),
     (802, ''ieee802.11_prism''), (65535, ''void'')]"

definition ether_protos :: trans_tbl where
  "ether_protos = map (\<lambda>(i, a). (i, str a))
    [(96, ''loop''), (512, ''pup''), (513, ''pupat''), (2048, ''ip''), (2053, ''x25''), (2054, ''arp''),
     (2303, ''bpq''), (2560, ''ieeepup''), (2561, ''ieeepupat''), (24576, ''dec''), (24577, ''dna_dl''),
     (24578, ''dna_rc''), (24579, ''dna_rt''), (24580, ''lat''), (24581, ''diag''), (24582, ''cust''),
     (24583, ''sca''), (25944, ''teb''), (32821, ''rarp''), (32923, ''atalk''), (33011, ''aarp''),
     (33024, ''802.1q''), (33079, ''ipx''), (34525, ''ipv6''), (34824, ''pause''), (34825, ''slow''),
     (34878, ''wccp''), (34915, ''ppp_disc''), (34916, ''ppp_ses''), (34887, ''mpls_uc''), (34888, ''mpls_mc''),
     (34892, ''atmmpoa''), (34948, ''atmfate''), (34958, ''pae''), (34978, ''aoe''), (35018, ''tipc''),
     (35063, ''ieee1588''), (35078, ''fcoe''), (35092, ''fip''), (56026, ''edsa''), (34978, ''edp2''),
     (1, ''802.3''), (2, ''ax25''), (3, ''all''), (4, ''802.2''), (5, ''snap''), (6, ''ddcmp''),
     (7, ''wan_ppp''), (8, ''ppp_mp''), (9, ''localtalk''), (12, ''can''), (16, ''ppptalk''),
     (17, ''tr_802.2''), (21, ''mobitex''), (22, ''control''), (23, ''irda''), (24, ''econet''), (25, ''hdlc''),
     (26, ''arcnet''), (27, ''dsa''), (28, ''trailer''), (245, ''phonet''), (246, ''ieee802154''),
     (247, ''caif'')]"

definition rtntypes :: trans_tbl where
  "rtntypes = map (\<lambda>(i, a). (i, str a))
    [(0, ''unspec''), (1, ''unicast''), (2, ''local''), (3, ''broadcast''), (4, ''anycast''),
     (5, ''multicast''), (6, ''blackhole''), (7, ''unreachable''), (8, ''prohibit''), (9, ''throw''),
     (10, ''nat''), (11, ''xresolve'')]"

definition scopes :: trans_tbl where
  "scopes = map (\<lambda>(i, a). (i, str a))
    [(255, ''nowhere''), (254, ''host''), (253, ''link''), (200, ''site''), (0, ''universe'')]"

definition neigh_states :: trans_tbl where
  "neigh_states = map (\<lambda>(i, a). (i, str a))
    [(1, ''incomplete''), (2, ''reachable''), (4, ''stale''), (8, ''delay''), (16, ''probe''), (32, ''failed''),
     (64, ''norarp''), (128, ''permanent'')]"

definition neigh_flags :: trans_tbl where
  "neigh_flags = map (\<lambda>(i, a). (i, str a))
    [(1, ''use''), (8, ''proxy''), (128, ''router'')]"

definition nl_nlfamily2str :: "i32 \<Rightarrow> bytes \<Rightarrow> nat \<Rightarrow> bytes" where
  "nl_nlfamily2str type buf len = type2str type buf len nlfamilies"

definition nl_str2nlfamily :: "bytes \<Rightarrow> i32" where
  "nl_str2nlfamily name = str2type name nlfamilies"

definition nl_llproto2str :: "i32 \<Rightarrow> bytes \<Rightarrow> nat \<Rightarrow> bytes" where
  "nl_llproto2str type buf len = type2str type buf len llprotos"

definition nl_str2llproto :: "bytes \<Rightarrow> i32" where
  "nl_str2llproto name = str2type name llprotos"

definition nl_ether_proto2str :: "i32 \<Rightarrow> bytes \<Rightarrow> nat \<Rightarrow> bytes" where
  "nl_ether_proto2str type buf len = type2str type buf len ether_protos"

definition nl_str2ether_proto :: "bytes \<Rightarrow> i32" where
  "nl_str2ether_proto name = str2type name ether_protos"

definition nl_rtntype2str :: "i32 \<Rightarrow> bytes \<Rightarrow> nat \<Rightarrow> bytes" where
  "nl_rtntype2str type buf len = type2str type buf len rtntypes"

definition nl_str2rtntype :: "bytes \<Rightarrow> i32" where
  "nl_str2rtntype name = str2type name rtntypes"

definition rtnl_scope2str :: "i32 \<Rightarrow> bytes \<Rightarrow> nat \<Rightarrow> bytes" where
  "rtnl_scope2str type buf len = type2str type buf len scopes"

definition rtnl_str2scope :: "bytes \<Rightarrow> i32" where
  "rtnl_str2scope name = str2type name scopes"

definition rtnl_neigh_state2str :: "i32 \<Rightarrow> nat \<Rightarrow> bytes option" where
  "rtnl_neigh_state2str flags len = flags2str flags len neigh_states"

definition rtnl_neigh_str2state :: "bytes \<Rightarrow> i32" where
  "rtnl_neigh_str2state name = str2type name neigh_states"

definition rtnl_neigh_flags2str :: "i32 \<Rightarrow> nat \<Rightarrow> bytes option" where
  "rtnl_neigh_flags2str flags len = flags2str flags len neigh_flags"

definition rtnl_neigh_str2flag :: "bytes \<Rightarrow> i32" where
  "rtnl_neigh_str2flag name = str2type name neigh_flags"

text \<open>IP protocols; the data base of protocols is a parameter.\<close>

definition nl_ip_proto2str :: "(i32 \<Rightarrow> bytes option) \<Rightarrow> i32 \<Rightarrow> bytes \<Rightarrow> nat \<Rightarrow> bytes" where
  "nl_ip_proto2str getprotobynumber proto buf len =
     snprintf buf len (case getprotobynumber proto of Some a \<Rightarrow> a | None \<Rightarrow> str ''0x'' @ to_base 16 (unat proto))"

definition nl_str2ip_proto :: "(bytes \<Rightarrow> i32 option) \<Rightarrow> bytes \<Rightarrow> i32" where
  "nl_str2ip_proto getprotobyname s =
    (case getprotobyname s of
       Some p \<Rightarrow> p
     | None \<Rightarrow>
        (case strtoul s of
           None \<Rightarrow> if s = [] then 0 else - NLE_OBJ_NOTFOUND
         | Some (l, end) \<Rightarrow> if l = - 1 \<or> end \<noteq> [] then - NLE_OBJ_NOTFOUND else ucast l))"

text \<open>Realms.\<close>

definition RTNL_REALM_FROM :: "u32 \<Rightarrow> u32" where
  "RTNL_REALM_FROM realm = drop_bit 16 realm"

definition RTNL_REALM_TO :: "u32 \<Rightarrow> u32" where
  "RTNL_REALM_TO realm = realm AND 0xFFFF"

definition RTNL_MAKE_REALM :: "u32 \<Rightarrow> u32 \<Rightarrow> u32" where
  "RTNL_MAKE_REALM from to = push_bit 16 (RTNL_REALM_TO from) AND RTNL_REALM_TO to"

definition rtnl_realms2str :: "u32 \<Rightarrow> bytes \<Rightarrow> nat \<Rightarrow> bytes" where
  "rtnl_realms2str realms buf len = snprintf buf len
     (to_base 10 (unat (RTNL_REALM_FROM realms)) @ str ''/'' @ to_base 10 (unat (RTNL_REALM_TO realms)))"

section \<open>Names\<close>

text \<open>A table whose names differ without case, are not empty and do not look like a number with base 16.\<close>

definition wf_names :: "trans_tbl \<Rightarrow> bool" where
  "wf_names tbl \<longleftrightarrow> distinct (map (map tolower \<circ> snd) tbl) \<and> (\<forall>e \<in> set tbl. snd e \<noteq> [] \<and> hd (snd e) \<noteq> 48)"

lemma find_by_name:
  assumes "distinct (map (map tolower \<circ> snd) tbl)" "e \<in> set tbl"
  shows "find (\<lambda>x. strcasecmp0 (snd x) (snd e)) tbl = Some e"
  using assms by (induction tbl) (auto simp: strcasecmp0_def)

lemma hex_read_back: "strtoul (str ''0x'' @ to_base 16 n) = Some (if 2 ^ 64 \<le> n then - 1 else word_of_nat n, [])"
proof -
  obtain c cs where c: "to_base 16 n = c # cs" by (cases "to_base 16 n") simp_all
  then have "digit_val c < 16" using to_base_digits [of 16 c n] by simp
  then have "number_base (str ''0x'' @ to_base 16 n) = (16, to_base 16 n)"
    using c by (simp add: number_base_def str_def)
  then have "parse_unsigned (str ''0x'' @ to_base 16 n) = Some (n, [])"
    using digits_to_base [of 16 "[]" n] c \<open>digit_val c < 16\<close> by (simp add: parse_unsigned_def)
  then show ?thesis by (simp add: strtoul_def parse_number_def str_def is_space_def Let_def)
qed

lemma length_to_base:
  assumes "2 \<le> b"
  shows "n < b ^ Suc k \<Longrightarrow> length (to_base b n) \<le> Suc k"
proof (induction k arbitrary: n)
  case 0
  then show ?case by (simp add: to_base.simps [of b n])
next
  case (Suc k)
  have "n div b < b ^ Suc k" using Suc.prems by (simp add: less_mult_imp_div_less mult.commute)
  then show ?case using Suc.IH [of "n div b"] by (subst to_base.simps) simp
qed

lemma type_round_trip:
  assumes "wf_names tbl" "\<forall>e \<in> set tbl. length (snd e) < len" "11 \<le> len"
  shows "str2type (type2str type buf len tbl) tbl = type"
proof (cases "find (\<lambda>e. fst e = type) tbl")
  case (Some e)
  then have e: "e \<in> set tbl" "fst e = type" by (auto simp: find_Some_iff)
  then have "type2str type buf len tbl = snd e" using Some assms(2) by (auto simp: type2str_def snprintf_def)
  then show ?thesis using e find_by_name [of tbl e] assms(1) by (auto simp: str2type_def wf_names_def)
next
  case None
  let ?t = "str ''0x'' @ to_base 16 (unat type)"
  have u: "unat type < 16 ^ Suc 7" using unsigned_less [of type] by simp
  then have "length ?t \<le> 10" using length_to_base [of 16 "unat type" 7] by (simp add: str_def)
  then have t: "type2str type buf len tbl = ?t" using None assms(3) by (simp add: type2str_def snprintf_def)
  have "find (\<lambda>e. strcasecmp0 (snd e) ?t) tbl = None"
  proof -
    have "\<not> strcasecmp0 (snd e) ?t" if "e \<in> set tbl" for e
    proof -
      obtain c cs where c: "snd e = c # cs" "c \<noteq> 48" using assms(1) \<open>e \<in> set tbl\<close> by (cases "snd e") (force simp: wf_names_def)+
      have "tolower c \<noteq> 48" using c(2) by (auto simp: tolower_def word_unat_eq_iff unat_word_ariths)
      then show ?thesis using c(1) by (simp add: strcasecmp0_def str_def tolower_def)
    qed
    then show ?thesis unfolding find_None_iff by blast
  qed
  moreover have "(ucast (word_of_nat (unat type) :: u64) :: i32) = type"
    by (rule bit_word_eqI) (simp add: bit_simps)
  moreover have "word_of_nat (unat type) \<noteq> (- 1 :: u64)"
  proof
    assume "word_of_nat (unat type) = (- 1 :: u64)"
    then have "unat (word_of_nat (unat type) :: u64) = unat (- 1 :: u64)" by simp
    then show False using u by (simp add: unat_of_nat unsigned_minus_1_eq_mask mask_eq_exp_minus_1)
  qed
  ultimately show ?thesis
    using t u hex_read_back [of "unat type"] by (simp add: str2type_def str2number_def)
qed

lemma table_names: "wf_names nlfamilies" "wf_names llprotos" "wf_names ether_protos" "wf_names rtntypes" "wf_names scopes"
  by code_simp+

lemma table_lengths:
  "\<forall>e \<in> set nlfamilies. length (snd e) < 17" "\<forall>e \<in> set llprotos. length (snd e) < 17" "\<forall>e \<in> set ether_protos. length (snd e) < 17"
  "\<forall>e \<in> set rtntypes. length (snd e) < 17" "\<forall>e \<in> set scopes. length (snd e) < 17"
  by code_simp+

text \<open>
  Claim C39.  Names: what the five functions that name a number print into a buffer of at least 17 bytes is read back
  as that number, whether it has a name in the table or is printed with base 16.
\<close>

theorem type_names_round_trip:
  assumes "17 \<le> len"
  shows "nl_str2nlfamily (nl_nlfamily2str n buf len) = n \<and> nl_str2llproto (nl_llproto2str n buf len) = n
    \<and> nl_str2ether_proto (nl_ether_proto2str n buf len) = n \<and> nl_str2rtntype (nl_rtntype2str n buf len) = n
    \<and> rtnl_str2scope (rtnl_scope2str n buf len) = n"
proof -
  have "str2type (type2str n buf len tbl) tbl = n" if "wf_names tbl" "\<forall>e \<in> set tbl. length (snd e) < 17" for tbl
    using type_round_trip [of tbl len n buf] that assms by fastforce
  note t = this [OF table_names(1) table_lengths(1)] this [OF table_names(2) table_lengths(2)] this [OF table_names(3) table_lengths(3)]
    this [OF table_names(4) table_lengths(4)] this [OF table_names(5) table_lengths(5)]
  show ?thesis
    unfolding nl_str2nlfamily_def nl_nlfamily2str_def nl_str2llproto_def nl_llproto2str_def nl_str2ether_proto_def nl_ether_proto2str_def
      nl_str2rtntype_def nl_rtntype2str_def rtnl_str2scope_def rtnl_scope2str_def
    using t by blast
qed

section \<open>Durations\<close>

lemma to_base_head: "2 \<le> b \<Longrightarrow> b \<le> 16 \<Longrightarrow> 0 < n \<Longrightarrow> hd (to_base b n) \<noteq> 48"
proof (induction b n rule: to_base.induct)
  case (1 b n)
  show ?case
  proof (cases "n < b")
    case True
    then have "unat (digit_char n) \<noteq> 48" using 1(3,4) by (simp add: unat_digit_char)
    then show ?thesis using True by (subst to_base.simps) auto
  next
    case False
    then have "hd (to_base b n) = hd (to_base b (n div b))" using 1(2) by (simp add: to_base.simps [of b n])
    moreover have "0 < n div b" using False 1(2) by (simp add: div_greater_zero_iff)
    ultimately show ?thesis using 1 False by simp
  qed
qed

lemma dec_read_back:
  assumes n: "0 < n" "n < 2 ^ 64" and rest: "rest = [] \<or> 10 \<le> digit_val (hd rest)" and sp: "sp = [] \<or> sp = [32]"
  shows "strtoul (sp @ to_base 10 n @ rest) = Some (word_of_nat n, rest)"
proof -
  obtain c cs where c: "to_base 10 n = c # cs" by (cases "to_base 10 n") simp_all
  have d: "digit_val c < 10" "c \<noteq> 48" using to_base_digits [of 10 c n] to_base_head [of 10 n] n c by simp_all
  have e: "\<not> is_space c" "c \<noteq> 45" "c \<noteq> 43"
    using d(1) by (auto simp: digit_val_def is_space_def Let_def split: if_splits)
  have "parse_unsigned (to_base 10 n @ rest) = Some (n, rest)"
    using digits_to_base [of 10 rest n] rest c d by (simp add: parse_unsigned_def number_base_def)
  moreover have "dropWhile is_space (sp @ to_base 10 n @ rest) = to_base 10 n @ rest"
    using sp c e by (auto simp: is_space_def)
  ultimately show ?thesis using c e n(2) by (simp add: strtoul_def parse_number_def Let_def)
qed

text \<open>The text of a duration: those of its parts that are not 0, with spaces between them.\<close>

fun duration :: "bool \<Rightarrow> (nat \<times> bytes) list \<Rightarrow> bytes" where
  "duration sep [] = []"
| "duration sep ((n, u) # ps) =
    (if n = 0 then duration sep ps else (if sep then [32] else []) @ to_base 10 n @ u @ duration True ps)"

text \<open>What it is worth when it is read; a part in milliseconds is not understood.\<close>

fun worth :: "(nat \<times> bytes) list \<Rightarrow> u64 option" where
  "worth [] = Some 0"
| "worth ((n, u) # ps) = (if n = 0 then worth ps
    else do { f \<leftarrow> unit_msec u (length u); w \<leftarrow> worth ps; Some (word_of_nat n * f + w) })"

definition unit_ok :: "bytes \<Rightarrow> bool" where
  "unit_ok u \<longleftrightarrow> u \<noteq> [] \<and> 10 \<le> digit_val (hd u) \<and> 32 \<notin> set u \<and> 9 \<notin> set u"

lemma duration_start: "duration True ps = [] \<or> (\<exists>xs. duration True ps = 32 # xs)"
proof (induction ps)
  case (Cons p ps)
  then show ?case by (cases p; cases "fst p = 0") simp_all
qed simp

lemma duration_nil: "duration sep ps = [] \<longleftrightarrow> (\<forall>p \<in> set ps. fst p = 0)"
  by (induction sep ps rule: duration.induct) auto

lemma worth_nil: "\<forall>p \<in> set ps. fst p = 0 \<Longrightarrow> worth ps = Some 0"
  by (induction ps) auto

lemma duration_read:
  assumes "\<forall>p \<in> set ps. fst p < 2 ^ 64 \<and> unit_ok (snd p)" "duration sep ps \<noteq> []"
  shows "str2msec_from acc (duration sep ps) = (case worth ps of None \<Rightarrow> Inl (- NLE_INVAL) | Some w \<Rightarrow> Inr (acc + w))"
  using assms
proof (induction sep ps arbitrary: acc rule: duration.induct)
  case (2 sep n u ps)
  show ?case
  proof (cases "n = 0")
    case True
    then show ?thesis using 2 by simp
  next
    case False
    let ?r = "duration True ps"
    have u: "u \<noteq> []" "10 \<le> digit_val (hd u)" "32 \<notin> set u" "9 \<notin> set u" and n: "0 < n" "n < 2 ^ 64"
      using 2(3) False by (auto simp: unit_ok_def)
    have st: "strtoul ((if sep then [32] else []) @ to_base 10 n @ u @ ?r) = Some (word_of_nat n, u @ ?r)"
      by (rule dec_read_back) (use u n in auto)
    have pl: "length (takeWhile (\<lambda>c. c \<noteq> 32 \<and> c \<noteq> 9) (u @ ?r)) = length u"
    proof -
      have "takeWhile (\<lambda>c. c \<noteq> 32 \<and> c \<noteq> 9) (u @ ?r) = u @ takeWhile (\<lambda>c. c \<noteq> 32 \<and> c \<noteq> 9) ?r"
        by (rule takeWhile_append2) (use u in auto)
      moreover have "takeWhile (\<lambda>c. c \<noteq> 32 \<and> c \<noteq> 9) ?r = []" using duration_start [of ps] by auto
      ultimately show ?thesis by simp
    qed
    have um: "unit_msec (u @ ?r) (length u) = unit_msec u (length u)"
      by (simp add: unit_msec_def strncasecmp0_def)
    have IH: "str2msec_from (acc + word_of_nat n * f) ?r = (case worth ps of None \<Rightarrow> Inl (- NLE_INVAL) | Some w \<Rightarrow> Inr (acc + word_of_nat n * f + w))"
      if "?r \<noteq> []" for f
      using 2(2) [OF False _ that] 2(3) by simp
    have nil: "worth ps = Some 0" if "?r = []" using that worth_nil by (simp add: duration_nil)
    show ?thesis
      using False u(1) st pl um IH nil
      by (subst str2msec_from.simps) (auto simp: Let_def add.assoc split: option.splits)
  qed
qed simp

lemma fold_msec_step:
  assumes "\<forall>e \<in> set es. length (snd e) \<le> 4" "length buf + 15 * length es < len"
  shows "fold (msec_step len) es buf = buf @ duration (buf \<noteq> []) (map (\<lambda>(s, u). (nat (sint s), u)) es)"
  using assms
proof (induction es arbitrary: buf)
  case (Cons e es)
  obtain s u where e: "e = (s, u)" by force
  show ?case
  proof (cases "0 < sint s")
    case True
    let ?t = "(if buf = [] then [] else str '' '') @ to_base 10 (nat (sint s)) @ u"
    have "nat (sint s) < 10 ^ Suc 9" using sint_less [of s] by simp
    then have l: "length ?t \<le> 15" using length_to_base [of 10 "nat (sint s)" 9] Cons.prems(1) e by (simp add: str_def)
    then have t: "msec_step len e buf = buf @ ?t"
      using True Cons.prems(2) by (simp add: msec_step_def e snprintf_def strncat_def)
    have "fold (msec_step len) es (buf @ ?t) = (buf @ ?t) @ duration (buf @ ?t \<noteq> []) (map (\<lambda>(s, u). (nat (sint s), u)) es)"
      by (rule Cons.IH) (use Cons.prems l in auto)
    then show ?thesis using True t by (simp add: e str_def)
  next
    case False
    then have "msec_step len e buf = buf" by (simp add: msec_step_def e)
    moreover have "fold (msec_step len) es buf = buf @ duration (buf \<noteq> []) (map (\<lambda>(s, u). (nat (sint s), u)) es)"
      by (rule Cons.IH) (use Cons.prems in auto)
    ultimately show ?thesis using False by (simp add: e)
  qed
qed simp

lemma split_off_nat:
  assumes "split_off f msec = (q, r)" "unat msec div unat f < 2 ^ 31"
  shows "nat (sint q) = unat msec div unat f" "unat r = unat msec mod unat f"
proof -
  have q: "q = ucast (msec div f)" using assms(1) by (simp add: split_off_def Let_def)
  have uq: "unat q = unat msec div unat f"
    using assms(2) by (simp add: q unsigned_ucast_eq unsigned_take_bit_eq take_bit_eq_mod unat_mod unat_div)
  then have sq: "sint q = int (unat msec div unat f)"
    using sint_nonneg_u32 [of q] assms(2) by simp
  then show "nat (sint q) = unat msec div unat f" by simp
  show "unat r = unat msec mod unat f"
  proof (cases "0 < sint q")
    case True
    then show ?thesis using assms(1) by (auto simp: split_off_def Let_def unat_mod)
  next
    case False
    then have "unat msec div unat f = 0" using sq by simp
    then have "unat f = 0 \<or> unat msec < unat f" by (auto simp: div_eq_0_iff)
    then show ?thesis using False assms(1) by (auto simp: split_off_def Let_def)
  qed
qed

lemma split_msec_nat:
  assumes "unat m < 2 ^ 31 * 86400000"
  shows "map (\<lambda>s. nat (sint s)) (split_msec m)
    = [unat m div 86400000, unat m mod 86400000 div 3600000, unat m mod 3600000 div 60000, unat m mod 60000 div 1000, unat m mod 1000]"
proof -
  obtain d m1 where 1: "split_off 86400000 m = (d, m1)" by force
  obtain h m2 where 2: "split_off 3600000 m1 = (h, m2)" by force
  obtain mi m3 where 3: "split_off 60000 m2 = (mi, m3)" by force
  obtain s m4 where 4: "split_off 1000 m3 = (s, m4)" by force
  note d = split_off_nat [OF 1]
  have e1: "nat (sint d) = unat m div 86400000" "unat m1 = unat m mod 86400000" using d assms by (simp_all add: div_less_iff_less_mult)
  have e2: "nat (sint h) = unat m mod 86400000 div 3600000" "unat m2 = unat m mod 86400000 mod 3600000"
    using split_off_nat [OF 2] e1(2) by (simp_all add: div_less_iff_less_mult trans_less_add1)
  have e3: "nat (sint mi) = unat m mod 86400000 mod 3600000 div 60000" "unat m3 = unat m mod 86400000 mod 3600000 mod 60000"
    using split_off_nat [OF 3] e2(2) by (simp_all add: div_less_iff_less_mult trans_less_add1)
  have e4: "nat (sint s) = unat m mod 86400000 mod 3600000 mod 60000 div 1000" "unat m4 = unat m mod 86400000 mod 3600000 mod 60000 mod 1000"
    using split_off_nat [OF 4] e3(2) by (simp_all add: div_less_iff_less_mult trans_less_add1)
  have mm: "unat m mod 86400000 mod 3600000 = unat m mod 3600000" "unat m mod 3600000 mod 60000 = unat m mod 60000"
      "unat m mod 60000 mod 1000 = unat m mod 1000"
    by (simp_all add: mod_mod_cancel)
  have "unat m mod 1000 mod 4294967296 = unat m mod 1000"
    by (rule mod_less) (use mod_less_divisor [of 1000 "unat m"] in linarith)
  then have u: "unat (ucast m4 :: i32) = unat m mod 1000"
    using e4(2) mm by (simp add: unsigned_ucast_eq unsigned_take_bit_eq take_bit_eq_mod unat_mod)
  then have "nat (sint (ucast m4 :: i32)) = unat m mod 1000"
    using sint_nonneg_u32 [of "ucast m4"] by simp
  then show ?thesis
    using e1(1) e2(1) e3(1) e4(1) mm by (simp add: split_msec_def 1 2 3 4)
qed

lemma units: "unit_msec (str ''d'') 1 = Some 86400000" "unit_msec (str ''h'') 1 = Some 3600000" "unit_msec (str ''m'') 1 = Some 60000"
  "unit_msec (str ''s'') 1 = Some 1000" "unit_msec (str ''msec'') 4 = None"
  "\<forall>u \<in> set (map str [''d'', ''h'', ''m'', ''s'', ''msec'']). unit_ok u \<and> length u \<le> 4"
  by code_simp+

lemma split_sum:
  "(n :: nat) = n div 86400000 * 86400000 + (n mod 86400000 div 3600000 * 3600000 + (n mod 3600000 div 60000 * 60000 + (n mod 60000 div 1000 * 1000 + n mod 1000)))"
proof -
  have "n mod 86400000 = n mod 86400000 div 3600000 * 3600000 + n mod 3600000"
    using div_mult_mod_eq [of "n mod 86400000" 3600000] by (simp add: mod_mod_cancel)
  moreover have "n mod 3600000 = n mod 3600000 div 60000 * 60000 + n mod 60000"
    using div_mult_mod_eq [of "n mod 3600000" 60000] by (simp add: mod_mod_cancel)
  moreover have "n mod 60000 = n mod 60000 div 1000 * 1000 + n mod 1000"
    using div_mult_mod_eq [of "n mod 60000" 1000] by (simp add: mod_mod_cancel)
  ultimately show ?thesis using div_mult_mod_eq [of n 86400000] by linarith
qed

lemma worth_part: "unit_msec u (length u) = Some f \<Longrightarrow> worth ps = Some w \<Longrightarrow> worth ((n, u) # ps) = Some (word_of_nat n * f + w)"
  by simp

lemma unit_lengths: "length (str ''d'') = 1" "length (str ''h'') = 1" "length (str ''m'') = 1" "length (str ''s'') = 1" "length (str ''msec'') = 4"
  by (simp_all add: str_def)

lemma worth_parts:
  "worth (zip [d, h, mi, s, ms] (map str [''d'', ''h'', ''m'', ''s'', ''msec''])) =
    (if ms = 0 then Some (word_of_nat (d * 86400000 + (h * 3600000 + (mi * 60000 + s * 1000)))) else None)"
proof (cases "ms = 0")
  case True
  have "worth [(ms, str ''msec'')] = Some 0" using True by simp
  then have "worth ((d, str ''d'') # (h, str ''h'') # (mi, str ''m'') # (s, str ''s'') # [(ms, str ''msec'')])
      = Some (word_of_nat d * 86400000 + (word_of_nat h * 3600000 + (word_of_nat mi * 60000 + (word_of_nat s * 1000 + 0))))"
    by (intro worth_part) (simp_all only: unit_lengths units)
  moreover have "word_of_nat d * 86400000 + (word_of_nat h * 3600000 + (word_of_nat mi * 60000 + (word_of_nat s * 1000 + 0)))
      = (word_of_nat (d * 86400000 + (h * 3600000 + (mi * 60000 + s * 1000))) :: u64)"
    by simp
  ultimately show ?thesis using True by (simp only: list.map zip_Cons_Cons zip_Nil if_True refl)
next
  case False
  then have "worth [(ms, str ''msec'')] = None" using units(5) unit_lengths(5) by simp
  then have "worth ((s, str ''s'') # [(ms, str ''msec'')]) = None" by simp
  then have "worth ((mi, str ''m'') # (s, str ''s'') # [(ms, str ''msec'')]) = None" by simp
  then have "worth ((h, str ''h'') # (mi, str ''m'') # (s, str ''s'') # [(ms, str ''msec'')]) = None" by simp
  then have "worth ((d, str ''d'') # (h, str ''h'') # (mi, str ''m'') # (s, str ''s'') # [(ms, str ''msec'')]) = None" by simp
  then show ?thesis using False by (simp only: list.map zip_Cons_Cons zip_Nil if_False)
qed

text \<open>
  Claim C40.  Durations: the text that \<^verbatim>\<open>nl_msec2str\<close> prints is understood by \<^verbatim>\<open>nl_str2msec\<close>, which gives the duration back,
  if and only if it is not zero and a whole number of seconds; the text of 0 is empty, and the unit \<^verbatim>\<open>msec\<close> is printed but not
  understood.
\<close>

theorem msec_text_round_trip:
  assumes "unat m < 2 ^ 31 * 86400000" "76 \<le> len"
  shows "\<exists>text. nl_msec2str m len = Some text
    \<and> nl_str2msec text = (if m \<noteq> 0 \<and> m mod 1000 = 0 then Inr m else Inl (- NLE_INVAL))"
proof -
  let ?u = "map str [''d'', ''h'', ''m'', ''s'', ''msec'']" and ?N = "unat m"
  define ps where "ps = zip [?N div 86400000, ?N mod 86400000 div 3600000, ?N mod 3600000 div 60000, ?N mod 60000 div 1000, ?N mod 1000] ?u"
  have l5: "length (split_msec m) = 5" by (simp add: split_msec_def split: prod.splits)
  have "fold (msec_step len) (zip (split_msec m) ?u) [] = [] @ duration ([] \<noteq> ([] :: bytes)) (map (\<lambda>(s, u). (nat (sint s), u)) (zip (split_msec m) ?u))"
    by (rule fold_msec_step) (use assms(2) l5 units(6) in \<open>auto dest!: set_zip_rightD\<close>)
  also have "map (\<lambda>(s, u). (nat (sint s), u)) (zip (split_msec m) ?u) = ps"
    unfolding ps_def split_msec_nat [OF assms(1), symmetric] zip_map1 by (rule refl)
  finally have printed: "nl_msec2str m len = Some (duration False ps)" using assms(2) by (simp add: nl_msec2str_def)
  have sm: "\<forall>p \<in> set ps. fst p < 2 ^ 64 \<and> unit_ok (snd p)"
  proof -
    have N: "?N < 2 ^ 64" using assms(1) by simp
    have "x div k < 2 ^ 64" if "x \<le> ?N" for x k :: nat
      using div_le_dividend [of x k] that N by linarith
    moreover have "?N mod k \<le> ?N" for k by (rule mod_less_eq_dividend)
    ultimately have "\<forall>n \<in> {?N div 86400000, ?N mod 86400000 div 3600000, ?N mod 3600000 div 60000, ?N mod 60000 div 1000, ?N mod 1000}. n < 2 ^ 64"
      using N le_less_trans by blast
    then show ?thesis using units(6) unfolding ps_def by simp
  qed
  have w: "worth ps = (if ?N mod 1000 = 0 then Some m else None)"
  proof (cases "?N mod 1000 = 0")
    case True
    then have "?N div 86400000 * 86400000 + (?N mod 86400000 div 3600000 * 3600000 + (?N mod 3600000 div 60000 * 60000 + ?N mod 60000 div 1000 * 1000)) = ?N"
      using split_sum [of ?N] by linarith
    then show ?thesis using True unfolding ps_def worth_parts by (simp only: if_True of_nat_unat ucast_id)
  next
    case False
    then show ?thesis unfolding ps_def worth_parts by (simp only: if_False)
  qed
  have mz: "m mod 1000 = 0 \<longleftrightarrow> ?N mod 1000 = 0" by (simp add: word_unat_eq_iff unat_mod)
  show ?thesis
  proof (cases "duration False ps = []")
    case True
    then have "\<forall>p \<in> set ps. fst p = 0" by (simp add: duration_nil)
    then have "?N div 86400000 = 0" "?N mod 86400000 div 3600000 = 0" "?N mod 3600000 div 60000 = 0" "?N mod 60000 div 1000 = 0" "?N mod 1000 = 0"
      unfolding ps_def by simp_all
    then have "m = 0" using split_sum [of ?N] by (simp add: unat_eq_0)
    moreover have "str2msec_from 0 [] = Inl (- NLE_INVAL)"
      by (subst str2msec_from.simps) (simp add: strtoul_def parse_number_def parse_unsigned_def number_base_def)
    ultimately show ?thesis using printed True by (simp add: nl_str2msec_def)
  next
    case False
    then have "m \<noteq> 0" unfolding ps_def by auto
    then show ?thesis using printed duration_read [OF sm False, of 0] w mz by (simp add: nl_str2msec_def)
  qed
qed

section \<open>Flags and realms\<close>

text \<open>An empty name is a prefix of every name, so the empty text stands for all flags of the table.\<close>

lemma named_flags_empty: "named_flags tbl p 0 flags = fold (\<lambda>e flags. flags OR fst e) tbl flags"
  by (simp add: named_flags_def strncasecmp0_def)

lemma str2flags_empty: "str2flags [] tbl = fold (\<lambda>e flags. flags OR fst e) tbl 0"
  unfolding str2flags_def by (subst str2flags_from.simps) (simp add: Let_def named_flags_empty)

text \<open>The two halves are combined with a conjunction: a realm is always 0.\<close>

lemma make_realm_zero: "RTNL_MAKE_REALM from to = 0"
proof -
  have m: "(0xFFFF :: u32) = mask 16" by (simp add: mask_eq_exp_minus_1)
  show ?thesis
    unfolding RTNL_MAKE_REALM_def RTNL_REALM_TO_def m by (rule bit_word_eqI) (auto simp: bit_simps)
qed

end
