(* ===== verification/RT_Examples.thy ===== *)
theory RT_Examples
  imports NL_Examples RT_NeighMsg NL_Text
begin

text \<open>A sample neighbour, and the instances of the properties of neighbours, of the cache manager and of names and durations.\<close>

section \<open>A sample neighbour\<close>

definition sample_info :: neigh_info where
  "sample_info = \<lparr>ni_family = 2, ni_ifindex = 3, ni_state = 2, ni_flags = 0, ni_type = 1, ni_dst = Some [10, 0, 0, 1],
     ni_lladdr = Some [2, 0, 0, 0, 0, 1], ni_cacheinfo = None, ni_probes = Some 1\<rparr>"

lemma sample_info_ok: "info_ok sample_info" "ni_dst sample_info = Some [10, 0, 0, 1]"
  by (simp_all add: sample_info_def info_ok_def short_def)

definition neigh_heap :: nheap where
  "neigh_heap = \<lparr>h_objs = Map.empty, h_caches = [2 \<mapsto> \<lparr>c_items = [], c_nitems = 0\<rparr>], h_next = 10, h_grants = (\<lambda>_. True)\<rparr>"

text \<open>A manager at address 7 that keeps the cache at address 2; the structure of the neighbours is registered at address 4.\<close>

definition neigh_state :: "rtnl_neigh mngr_state" where
  "neigh_state = \<lparr>lib = neigh_heap,
     mngrs = [7 \<mapsto> (new_mngr NETLINK_ROUTE 0)\<lparr>cm_assocs := Some (\<lparr>ca_cache = Some (2, 4), ca_change = Some (recorder (\<lambda>x r. ()))\<rparr>
        # replicate 31 no_assoc)\<rparr>],
     reg = \<lparr>ops_at = [4 \<mapsto> rtnl_neigh_ops], genl_at = Map.empty, cache_ops = Some 4, genl_ops_list = []\<rparr>\<rparr>"

definition neigh_objects :: "rtnl_neigh objects" where
  "neigh_objects = [1 \<mapsto> neigh_obj_ops]"

definition plain_sock :: "'u nl_sock" where
  "plain_sock = \<lparr>s_local = kernel_addr\<lparr>nl_pid := 4242\<rparr>, s_peer = kernel_addr, s_fd = 3, s_proto = NETLINK_ROUTE,
     s_seq_next = 1000, s_seq_expect = 1000, s_flags = NL_SOCK_BUFSIZE_SET, s_cb = silent_cb\<rparr>"

definition event_proc :: "u16 \<Rightarrow> sim proc" where
  "event_proc ty = sample_proc\<lparr>kern := sample_sim\<lparr>sim_inbox := [neigh_msg ty 0 0 0 sample_info]\<rparr>\<rparr>"

lemma neigh_state_keeps: "keeps_neighbours neigh_objects neigh_state 7 2 28 (\<lambda>x r. ())"
proof -
  have "rtnl_neigh_ops\<lparr>co_next := None, co_major_cache := None\<rparr> = rtnl_neigh_ops" by (simp add: rtnl_neigh_ops_def)
  then show ?thesis
    unfolding keeps_neighbours_def
    by (intro exI [of _ "the (mngrs neigh_state 7)"] exI [of _ "the (cm_assocs (the (mngrs neigh_state 7)))"] exI [of _ 0] exI [of _ 4] exI [of _ None])
      (simp add: neigh_state_def neigh_objects_def wf_mngr_def new_mngr_def)
qed

text \<open>The kernel reports a new neighbour, and the empty cache then has it.\<close>

theorem neigh_event_refines_map_witness:
  "\<exists>h'. nl_cache_mngr_data_ready (sim_sys netlink_up (\<lambda>t a. 0)) (listening neigh_objects 7 plain_sock) neigh_state (event_proc 28)
       = Some (1, listening neigh_objects 7 plain_sock, neigh_state\<lparr>lib := h'\<rparr>, sample_proc)
     \<and> refs_ok neigh_obj_ops h' (\<lambda>_. 0)
     \<and> view neigh_key 2 h' = [(3, 2, 2, [10, 0, 0, 1]) \<mapsto> (info_mask sample_info, info_neigh sample_info)]"
proof -
  let ?sys = "sim_sys netlink_up (\<lambda>t a. 0)" and ?sk = "listening neigh_objects 7 plain_sock" and ?msg = "neigh_msg 28 0 0 0 sample_info"
  have sk: "s_cb plain_sock = silent_cb" "s_flags ?sk = NL_SOCK_BUFSIZE_SET" "s_proto ?sk = NETLINK_ROUTE"
    by (simp_all add: plain_sock_def listening_def nl_socket_disable_seq_check_def nl_socket_modify_cb_def nl_cb_set_def)
  have len: "length ?msg \<le> unat (sys_pagesize ?sys)"
    by (simp add: neigh_msg_length info_attrs_def sample_info_def opt_attr_def sim_sys_def align4_def)
  have rcv: "sys_recvmsg ?sys (s_fd ?sk) (sys_pagesize ?sys) 0 False (kern (event_proc 28)) = (Inr (datagram ?msg kernel_addr), sample_sim)"
    "sys_alloc2 ?sys ((event_proc 28)\<lparr>kern := sample_sim\<rparr>) = ((True, True), sample_proc)"
    by (simp_all add: sim_sys_def sim_recvmsg_def event_proc_def sample_sim_def sys_alloc2_def sample_proc_def)
  have h: "\<forall>x. h_grants (lib neigh_state) x" "h_objs (lib neigh_state) (h_next (lib neigh_state)) = None"
      "refs_ok neigh_obj_ops (lib neigh_state) (\<lambda>_. 0)" "keyed neigh_good neigh_key 2 (lib neigh_state)"
      "view neigh_key 2 (lib neigh_state) = Map.empty"
    by (simp_all add: neigh_state_def neigh_heap_def refs_ok_def cache_ok_def keyed_def view_def)
  have key: "neigh_key (info_neigh sample_info) = (3, 2, 2, [10, 0, 0, 1])"
    using info_obj_good(3) [OF sample_info_ok] by (simp add: sample_info_def)
  have spec: "include_spec (event_act 28) (neigh_key (info_neigh sample_info)) (info_mask sample_info, info_neigh sample_info) neigh_differ
      (view neigh_key 2 (lib neigh_state)) = ([(3, 2, 2, [10, 0, 0, 1]) \<mapsto> (info_mask sample_info, info_neigh sample_info)],
        Some (NL_ACT_NEW, info_mask sample_info, info_neigh sample_info))"
    unfolding h(5) key by (simp add: include_spec_def event_act_def)
  show ?thesis
    using neigh_event_refines_map [OF neigh_state_keeps sample_info_ok refl sk rcv(1) len rcv(2) _ h(1-3) _ h(4) spec] by auto
qed

section \<open>A request\<close>

definition sample_neigh :: "rtnl_neigh nl_object" where
  "sample_neigh = (info_obj 28 sample_info)\<lparr>ce_data := (info_neigh sample_info)\<lparr>n_flags := 8\<rparr>\<rparr>"

lemma sample_masks_neigh: "info_mask sample_info = 0x1EF"
  by (simp add: info_mask_def if_some_def neigh_attr_defs sample_info_def)

lemma sample_neigh_fields:
  "ce_mask sample_neigh = 0x1EF" "n_dst (ce_data sample_neigh) = Some (built_addr 2 [10, 0, 0, 1])"
  "n_lladdr (ce_data sample_neigh) = Some (guessed (built_addr AF_UNSPEC [2, 0, 0, 0, 0, 1]))"
  "n_ifindex (ce_data sample_neigh) = 3" "n_state (ce_data sample_neigh) = 2"
  by (simp_all add: sample_neigh_def info_obj_def sample_masks_neigh) (simp_all add: info_neigh_def sample_info_def)

lemma sample_request: "request_info (ce_mask sample_neigh) (ce_data sample_neigh) = sample_info\<lparr>ni_type := 0, ni_probes := None\<rparr>"
proof -
  have "addr_bytes (built_addr 2 [10, 0, 0, 1]) = [10, 0, 0, 1]" by (rule wf_built(2)) simp
  moreover have "addr_bytes (guessed (built_addr AF_UNSPEC [2, 0, 0, 0, 0, 1])) = [2, 0, 0, 0, 0, 1]"
    using wf_built(2) [of "[2, 0, 0, 0, 0, 1]" AF_UNSPEC] by (simp add: guessed_def nl_addr_set_family_def addr_bytes_def)
  ultimately show ?thesis
    by (simp add: request_info_def sample_neigh_fields neigh_attr_defs) (simp add: sample_info_def built_addr_def)
qed

text \<open>The flags of the sample neighbour do not reach the message.\<close>

theorem neigh_request_round_trip_witness:
  "\<exists>msg dst'. build_neigh_msg True True 4096 sample_neigh RTM_NEWNEIGH 0 = Some (0, Some msg)
     \<and> neigh_msg_parser (nm_nlh msg) 0 (\<lambda>a h. Some (0, h)) neigh_heap = do {
         h' \<leftarrow> rtnl_neigh_put (Some 10) (parsed 28 (sample_info\<lparr>ni_type := 0, ni_probes := None\<rparr>) neigh_heap);
         Some (0, h')
       }
     \<and> nl_addr_cmp (built_addr 2 [10, 0, 0, 1]) dst' = Some 0 \<and> n_flags (ce_data sample_neigh) = 8
     \<and> n_flags (info_neigh (sample_info\<lparr>ni_type := 0, ni_probes := None\<rparr>)) = 0"
proof -
  have good: "neigh_good (ce_mask sample_neigh) (ce_data sample_neigh)"
    unfolding neigh_good_def sample_neigh_fields using wf_built(1) [of "[10, 0, 0, 1]" 2] wf_guessed [of "[2, 0, 0, 0, 0, 1]" AF_UNSPEC]
    by (simp add: neigh_attr_defs NEIGH_ID_def)
  have "sendable 4096 (ce_mask sample_neigh) (ce_data sample_neigh)"
    using good unfolding sendable_def sample_request
    by (simp add: info_ok_def short_def info_attrs_def opt_attr_def align4_def sample_info_def)
  moreover have "unat (a_family (built_addr 2 [10, 0, 0, 1])) < 256" "\<forall>x. h_grants neigh_heap x" "h_next neigh_heap = 10"
      "(ucast RTM_NEWNEIGH :: u16) = 28" "n_flags (ce_data sample_neigh) = 8"
    by (simp_all add: built_addr_def neigh_heap_def RTM_NEWNEIGH_def sample_neigh_def)
  ultimately show ?thesis
    using neigh_request_round_trip [OF _ sample_neigh_fields(2) _ sample_request [symmetric],
        of 4096 neigh_heap RTM_NEWNEIGH 0 "\<lambda>a h. Some (0, h)"] by auto
qed

section \<open>A manager\<close>

text \<open>Without permission to open a socket the result is 1.\<close>

theorem mngr_alloc_outcome_witness:
  "\<exists>sk' u' p'. nl_cache_mngr_alloc neigh_objects ((sim_sys netlink_up (\<lambda>t a. 0))\<lparr>sys_socket := \<lambda>af ty proto k. (Inl 1, k)\<rparr>)
       plain_sock NETLINK_ROUTE 0 neigh_state sample_proc = Some (1, None, sk', u', p') \<and> mngrs u' = mngrs neigh_state"
proof -
  let ?sys = "(sim_sys netlink_up (\<lambda>t a. 0))\<lparr>sys_socket := \<lambda>af ty proto k. (Inl 1, k)\<rparr>"
  have h: "(10 :: nat) = h_next (lib neigh_state)" "h_grants (lib neigh_state) 10" "h_grants (lib neigh_state) (10 + 1)" "mngrs neigh_state 10 = None"
    by (simp_all add: neigh_state_def neigh_heap_def)
  obtain err sk1 p1 where c: "nl_connect ?sys (listening neigh_objects 10 (plain_sock :: rtnl_neigh mngr_state nl_sock)) NETLINK_ROUTE sample_proc = (err, sk1, p1)"
    by (metis prod_cases3)
  obtain err2 p2 where n: "nl_socket_set_nonblocking ?sys sk1 p1 = (err2, p2)" by fastforce
  have "is_neg err"
    using c by (auto simp: nl_connect_def connect_failed_def nl_syserr2nlerr_def syserr_table_def abs_i32_def nle_defs)
  moreover have "(mngrs neigh_state)(10 := None) = mngrs neigh_state" using h(4) by (simp add: fun_upd_idem)
  ultimately show ?thesis
    using mngr_alloc_outcome [OF h(1,2) c n, of 0] h(3) by auto
qed

section \<open>Names and durations\<close>

text \<open>A link-layer type that has no name.\<close>

theorem type_names_round_trip_witness: "nl_str2llproto (nl_llproto2str 400 [] 17) = 400 \<and> nl_llproto2str 400 [] 17 = str ''0x190''"
proof -
  have "nl_llproto2str 400 [] 17 = str ''0x190''" by code_simp
  then show ?thesis using type_names_round_trip [of 17 400 "[]"] by simp
qed

text \<open>An hour and a half.\<close>

theorem msec_text_round_trip_witness: "\<exists>text. nl_msec2str 5400000 76 = Some text \<and> nl_str2msec text = Inr 5400000"
  using msec_text_round_trip [of 5400000 76] by simp

end
