(* ===== verification/Spec2Isabelle.thy ===== *)
theory Spec2Isabelle
  imports RT_Examples
begin

text \<open>
  A verification of the NetFPGA-10G NIC driver and of the user-space software that talks to it.

  \<^bold>\<open>The program.\<close>  Under \<^verbatim>\<open>src/projects/reference_nic/sw/host\<close> the repository holds a Linux kernel
  module (\<^verbatim>\<open>driver/src/nf10_eth_driver_main.c\<close>) that drives the card through memory-mapped
  registers and two DMA rings and offers four network devices, a generic netlink family for
  control commands and a proc file; a control program (\<^verbatim>\<open>driver_ctrl.c\<close>); a register library
  (\<^verbatim>\<open>nf10_reg_lib.c\<close>) with two example programs (\<^verbatim>\<open>apps/libnf10reg_example\<close>); and the netlink
  library \<^verbatim>\<open>driver/lib/libnl-3.0\<close>, through which programs and module exchange messages.

  \<^bold>\<open>The kernel module.\<close>  Its global variables, the memory it shares with the card and the trace of
  its bus accesses are the record \<open>nf10\<close>.  A function of the module is a function on this
  record whose result \<^term>\<open>None\<close> means a fault (an access to memory that is not allocated or not
  mapped, a timer added twice, a lock taken twice, or a service that follows pointers of what is not there).  A request to give
  back something that is not held, which the kernel only reports, is recorded in the field \<open>unheld\<close>.

  \<^item> \<open>NF10_Prelude\<close>: words, byte order, buffers, the collections of rewrite rules.
  \<^item> \<open>NF10_Ring\<close>: the interface of a bounded ring of slots as a locale, its first-in first-out laws.
  \<^item> \<open>NF10_Dma\<close>: the memory of a DMA region, the layout of buffers, metadata and flags.
  \<^item> \<open>NF10_Opcode\<close>: \<^verbatim>\<open>rx_/tx_get_/set_*_iface\<close>; fields of the opcode are independent.
  \<^item> \<open>NF10_State\<close>: the record \<open>nf10\<close> and the streams; slots of a region do not overlap.
  \<^item> \<open>NF10_Xmit\<close>: \<^verbatim>\<open>nf10_ndo_start_xmit\<close>; every branch, and the refinement of a bounded queue by
    every interleaving of transmissions with the card.
  \<^item> \<open>NF10_Poll\<close>, \<open>NF10_RxSystem\<close>: \<^verbatim>\<open>rx_poll_timer_cb\<close> and \<^verbatim>\<open>nf10_napi_struct_poll\<close>; a poll delivers
    what its specification takes from the ring, the receive path refines an abstract queue,
    the queue is drained, and the poll loop is not bounded by its budget.
  \<^item> \<open>NF10_Ocpi\<close>: \<^verbatim>\<open>occp.h\<close> and \<^verbatim>\<open>ocdp.h\<close>, the register map of the card and the paged window.
  \<^item> \<open>NF10_Genl\<close>: the seven netlink handlers \<^verbatim>\<open>genl_cmd_*\<close>, the policy and the table of operations;
    registers read back what was written, rejected commands touch nothing, what starting and
    stopping the timer does to the polling.
  \<^item> \<open>NF10_Netdev\<close>: the network device and header functions.
  \<^item> \<open>NF10_Ghost\<close>: the mode without a card, in which both streams share one region.
  \<^item> \<open>NF10_Probe\<close>, \<open>NF10_Init\<close>: \<^verbatim>\<open>probe\<close>, \<^verbatim>\<open>remove\<close>, module init and exit with all error paths; what is
    held afterwards, what is released, and the paths that fault, a pending timer among them.

  \<^bold>\<open>The netlink library.\<close>  A message is the list of bytes of its buffer; a pointer into it is an
  offset, and reading or writing outside the buffer is \<^term>\<open>None\<close>.  Lengths keep their width
  (\<^verbatim>\<open>int\<close> and \<^verbatim>\<open>uint32_t\<close> are 32-bit words, \<^verbatim>\<open>size_t\<close> is a 64-bit word), signed comparisons are
  comparisons of \<^term>\<open>sint\<close>.

  \<^item> \<open>NL_Msg\<close>: \<^verbatim>\<open>lib/msg.c\<close>, headers, allocation, reserving and appending.
  \<^item> \<open>NL_Attr\<close>: \<^verbatim>\<open>lib/attr.c\<close>, attribute streams; the parser stays inside the stream on any bytes,
    building keeps messages well-formed, when an attribute is accepted.
  \<^item> \<open>NL_Addr\<close>: \<^verbatim>\<open>lib/data.c\<close>, \<^verbatim>\<open>lib/addr.c\<close>, data and address handles and their attributes; an address
    survives its attribute, a DECnet address survives its text, what the prefix comparison compares.
  \<^item> \<open>NL_Genl\<close>: \<^verbatim>\<open>lib/genl/genl.c\<close>; building and parsing are inverse.
  \<^item> \<open>NL_Socket\<close>: \<^verbatim>\<open>lib/error.c\<close>, \<^verbatim>\<open>lib/handlers.c\<close>, \<^verbatim>\<open>lib/socket.c\<close> and the sending half of
    \<^verbatim>\<open>lib/nl.c\<close>; allocation of local ports.
  \<^item> \<open>NL_Recv\<close>: the receiving half of \<^verbatim>\<open>lib/nl.c\<close>.
  \<^item> \<open>NL_Object\<close>: \<^verbatim>\<open>lib/object.c\<close> and \<^verbatim>\<open>lib/cache.c\<close>; objects live in a heap with their reference
    counts, a cache is a list of addresses; adding to, searching and dissolving a cache keeps
    the counts.
  \<^item> \<open>NL_Cache\<close>: updates of caches; the locale \<open>object_keys\<close> is the interface of a kind of objects, and an
    include is proved to be the update of a map from identities to contents.
  \<^item> \<open>NL_Mngt\<close>: \<^verbatim>\<open>lib/cache_mngt.c\<close> and the registration of \<^verbatim>\<open>lib/genl/mngt.c\<close>; the linked list of cache
    operations refines a map from names.
  \<^item> \<open>NL_Update\<close>: requesting a dump, filling, refilling and resynchronising a cache (\<^verbatim>\<open>lib/cache.c\<close>), for objects
    of any kind.
  \<^item> \<open>NL_Mngr\<close>: \<^verbatim>\<open>lib/cache_mngr.c\<close>, the manager that keeps caches up to date with the events of a socket;
    what its allocation returns, how its array grows.
  \<^item> \<open>RT_Neigh\<close>: \<^verbatim>\<open>lib/route/neigh.c\<close>, the neighbours of the routing protocol; they interpret \<open>object_keys\<close>.
  \<^item> \<open>RT_NeighMsg\<close>: the messages about neighbours; the parser makes the object that a message describes, a
    request is parsed back to what it was made of, and an event received by a manager is
    the update of the map that the cache stands for.
  \<^item> \<open>NL_Text\<close>: the names, flags, sizes and durations of \<^verbatim>\<open>lib/utils.c\<close> with the tables of \<^verbatim>\<open>lib/route/rtnl.c\<close> and
    \<^verbatim>\<open>lib/route/neigh.c\<close>, over the functions of the C library in \<open>C_Text\<close>; a printed name is read back as its number,
    which durations are read back.
  \<^item> \<open>NL_Ctrl\<close>: \<^verbatim>\<open>lib/genl/family.c\<close>, \<^verbatim>\<open>lib/genl/ctrl.c\<close> on the dispatch of \<^verbatim>\<open>lib/genl/mngt.c\<close>; the
    table of the families the kernel knows, filled from a dump, and \<^verbatim>\<open>genl_ctrl_resolve\<close>; families
    interpret \<open>object_keys\<close>.
  \<^item> \<open>NL_Family\<close>: what the controller's parser stores is what the message describes.
  \<^item> \<open>NL_Resolve\<close>: the request for the dump, its reception, the filled cache and the resolved
    numbers, over the locale \<open>ctrl_link\<close>: a kernel that answers a dump request with
    any number of datagrams of families and one that ends the dump.
  \<^item> \<open>NL_Resync\<close>: resynchronising a cache of families, which empties it, and resolving the numbers of
    all registered operations, over the same locale.

  System calls are the fields of the record \<open>sys\<close>, functions on a kernel state of any type; the
  user state of the callbacks is of any type, too.

  \<^bold>\<open>The programs.\<close>  \<open>NF10_RegLib\<close> models the register library and the example programs,
  \<open>NF10_DriverCtrl\<close> the control program.  The locale \<open>genl_link\<close>, an extension of \<open>ctrl_link\<close>,
  states what they rely on in the kernel: successful calls, the driver's family among those
  the controller reports, the request delivered to the driver's handler (\<open>serve_nf10\<close>, the
  handlers of \<open>NF10_Genl\<close> behind their policy), its replies and the acknowledgement queued.
  Both locales are interpreted on a kernel that routes the bytes to the model of the driver.
  The theorems over them go from the call in a program through the resolution of the family,
  library, messages, sockets and driver to the bus trace and back.

  \<open>NF10_Examples\<close>, \<open>NL_Examples\<close> and \<open>RT_Examples\<close> hold sample states and the instances of the properties there.

  \<^bold>\<open>Loops.\<close>  The poll loop, the retries of \<open>nl_recv\<close>, the multipart loop of \<open>recvmsgs\<close>, the searches along the list of cache operations, the iteration
  over a cache with callbacks and the growth of a manager's array are partial functions into the option type, so not returning
  is \<^term>\<open>None\<close>; theorems that they return are stated as such.  Every other loop is a total
  function, the loops over messages and attributes with the remaining length as measure.  No
  fuel is used.

  \<^bold>\<open>Assumptions.\<close>  The kernel's services (memory, PCI, netlink allocation, checksums, packet
  buffers) and the card's answers are parameters.  Bytes of wider values are in little-endian
  order.  A callback handle belongs to one socket.  An addition that overflows an
  \<^verbatim>\<open>int\<close> ends the model of the example programs; a shift of an \<^verbatim>\<open>int\<close> into its sign bit (local ports) gives the shifted bits, as compiled
  code does.

  \<^bold>\<open>Not modelled.\<close>  The utility functions that use floating-point numbers (scaled sizes and times, probabilities,
  clock ticks) or read the settings behind them from files.  The text of addresses other than DECnet, which
  goes through the C library's resolver.  The routing objects other than neighbours, the netfilter
  and tool parts of the library, which nothing here uses.  Output of the debug handlers and of objects.  Test firmware, the production test and the
  hardware description.
\<close>

end
